(* ===== verification/Kernel_Prelude.thy ===== *)
theory Kernel_Prelude
  imports Main "HOL-Library.Word" "HOL-Library.Signed_Division"
begin

unbundle bit_operations_syntax

text \<open>
  Shared vocabulary of the kernel model.

  \<^item> Machine integers: \<open>u8\<close>, \<open>u16\<close> and \<open>u32\<close> are the unsigned C types of the i386 build
    (they wrap); signed \<open>int\<close>/\<open>long\<close> values are \<open>int\<close> and \<open>s32\<close> writes out the
    two's-complement wrap-around wherever the C code adds to or negates one.
  \<^item> Outcome of a kernel routine: \<open>kres\<close>. \<open>Ok\<close> is a normal return with the new state,
    \<open>Panic\<close> is \<open>panic()\<close> (which never returns), \<open>Die\<close> is a call of \<open>do_exit()\<close> from which
    control does not come back, \<open>Sleep\<close> is a task that went to sleep in the routine in the
    given state, \<open>Hang\<close> is a loop that never ends. \<open>bnd\<close> sequences two routines.
  \<^item> \<open>for_each\<close> is a counted \<open>for\<close> loop whose body may panic, die or sleep.
  \<^item> Constants of \<open>include/errno.h\<close> and \<open>include/signal.h\<close>.
  \<^item> Generic lemmas on loops, lists and 32-bit page arithmetic, collected in
    \<open>kres_simps\<close> and \<open>page_simps\<close>.
\<close>

named_theorems kres_simps "sequencing of kernel routines"
named_theorems page_simps "page and offset arithmetic on 32-bit words"

type_synonym u8 = "8 word"
type_synonym u16 = "16 word"
type_synonym u32 = "32 word"

section \<open>Outcomes\<close>

datatype ('s, 'a) kres = Ok 'a 's | Panic string | Die int 's | Sleep 's | Hang

fun bnd :: "('s, 'a) kres \<Rightarrow> ('a \<Rightarrow> 's \<Rightarrow> ('s, 'b) kres) \<Rightarrow> ('s, 'b) kres" where
  "bnd (Ok a s) f = f a s"
| "bnd (Panic m) f = Panic m"
| "bnd (Die c s) f = Die c s"
| "bnd (Sleep s) f = Sleep s"
| "bnd Hang f = Hang"

fun for_each :: "'i list \<Rightarrow> ('i \<Rightarrow> 's \<Rightarrow> ('s, unit) kres) \<Rightarrow> 's \<Rightarrow> ('s, unit) kres" where
  "for_each [] f s = Ok () s"
| "for_each (i # is) f s = bnd (f i s) (\<lambda>_ s. for_each is f s)"

text \<open>What a routine guarantees when it returns.\<close>

fun returns :: "('s, 'a) kres \<Rightarrow> ('a \<Rightarrow> 's \<Rightarrow> bool) \<Rightarrow> bool" where
  "returns (Ok a s) P = P a s"
| "returns (Panic m) P = True"
| "returns (Die c s) P = True"
| "returns (Sleep s) P = True"
| "returns Hang P = True"

text \<open>The routine neither panics nor loops, and the state it leaves satisfies \<open>P\<close>.\<close>

fun proceeds :: "('s, 'a) kres \<Rightarrow> ('s \<Rightarrow> bool) \<Rightarrow> bool" where
  "proceeds (Ok a s) P = P s"
| "proceeds (Panic m) P = False"
| "proceeds (Die c s) P = P s"
| "proceeds (Sleep s) P = P s"
| "proceeds Hang P = False"

section \<open>Signed 32-bit wrap-around\<close>

definition s32 :: "int \<Rightarrow> int" where
  "s32 x = signed_take_bit 31 x"

text \<open>Unsigned 32-bit values kept as integers, and the code of a character.\<close>

definition uw :: "int \<Rightarrow> int" where
  "uw x = x mod 2 ^ 32"

definition ch :: "char \<Rightarrow> u8" where
  "ch c = of_char c"

section \<open>Constants of errno.h and signal.h\<close>

definition ERROR :: int where "ERROR = 99"
definition EPERM :: int where "EPERM = 1"
definition ENOENT :: int where "ENOENT = 2"
definition ESRCH :: int where "ESRCH = 3"
definition EINTR :: int where "EINTR = 4"
definition EIO :: int where "EIO = 5"
definition ENOEXEC :: int where "ENOEXEC = 8"
definition EBADF :: int where "EBADF = 9"
definition ECHILD :: int where "ECHILD = 10"
definition EAGAIN :: int where "EAGAIN = 11"
definition ENOMEM :: int where "ENOMEM = 12"
definition EACCES :: int where "EACCES = 13"
definition EEXIST :: int where "EEXIST = 17"
definition EXDEV :: int where "EXDEV = 18"
definition ENOTDIR :: int where "ENOTDIR = 20"
definition EISDIR :: int where "EISDIR = 21"
definition EINVAL :: int where "EINVAL = 22"
definition EMFILE :: int where "EMFILE = 24"
definition ENOTTY :: int where "ENOTTY = 25"
definition ENOSPC :: int where "ENOSPC = 28"
definition ESPIPE :: int where "ESPIPE = 29"
definition ENOSYS :: int where "ENOSYS = 38"
definition ENOTEMPTY :: int where "ENOTEMPTY = 39"

lemmas errno_defs = ERROR_def EPERM_def ENOENT_def ESRCH_def EINTR_def EIO_def ENOEXEC_def EBADF_def
  ECHILD_def EAGAIN_def ENOMEM_def EACCES_def EEXIST_def EXDEV_def ENOTDIR_def EISDIR_def
  EINVAL_def EMFILE_def ENOTTY_def ENOSPC_def ESPIPE_def ENOSYS_def ENOTEMPTY_def

definition SIGHUP :: nat where "SIGHUP = 1"
definition SIGINT :: nat where "SIGINT = 2"
definition SIGQUIT :: nat where "SIGQUIT = 3"
definition SIGILL :: nat where "SIGILL = 4"
definition SIGTRAP :: nat where "SIGTRAP = 5"
definition SIGABRT :: nat where "SIGABRT = 6"
definition SIGFPE :: nat where "SIGFPE = 8"
definition SIGUSR1 :: nat where "SIGUSR1 = 10"
definition SIGSEGV :: nat where "SIGSEGV = 11"
definition SIGUSR2 :: nat where "SIGUSR2 = 12"
definition SIGPIPE :: nat where "SIGPIPE = 13"
definition SIGALRM :: nat where "SIGALRM = 14"
definition SIGCHLD :: nat where "SIGCHLD = 17"

lemmas signal_defs = SIGHUP_def SIGINT_def SIGQUIT_def SIGILL_def SIGTRAP_def SIGABRT_def SIGFPE_def
  SIGUSR1_def SIGSEGV_def SIGUSR2_def SIGPIPE_def SIGALRM_def SIGCHLD_def

section \<open>Lemmas on outcomes and loops\<close>

declare bnd.simps [kres_simps] for_each.simps [kres_simps] returns.simps [kres_simps]

lemma bnd_eq_Ok [kres_simps]:
  "(bnd m f = Ok b t) = (\<exists>a s. m = Ok a s \<and> f a s = Ok b t)"
  by (cases m) auto

lemma bnd_assoc: "bnd (bnd m f) g = bnd m (\<lambda>a s. bnd (f a s) g)"
  by (cases m) auto

lemma bnd_Ok_id [simp]: "bnd m Ok = m"
  by (cases m) auto

lemma returns_iff: "returns m P = (\<forall>a s. m = Ok a s \<longrightarrow> P a s)"
  by (cases m) auto

lemma returns_bnd: "returns (bnd m f) P = returns m (\<lambda>a s. returns (f a s) P)"
  by (cases m) auto

lemma returnsI: "(\<And>a s. m = Ok a s \<Longrightarrow> P a s) \<Longrightarrow> returns m P"
  by (simp add: returns_iff)

lemma returnsD: "returns m P \<Longrightarrow> m = Ok a s \<Longrightarrow> P a s"
  by simp

lemma returns_mono: "returns m P \<Longrightarrow> (\<And>a s. P a s \<Longrightarrow> Q a s) \<Longrightarrow> returns m Q"
  by (cases m) auto

lemma for_each_append: "for_each (is @ js) f s = bnd (for_each is f s) (\<lambda>_ s. for_each js f s)"
proof (induction "is" arbitrary: s)
  case (Cons i "is")
  show ?case by (cases "f i s") (simp_all add: Cons.IH)
qed simp

text \<open>The loop rule: an invariant indexed by the iterations still to come.\<close>

lemma for_each_inv:
  assumes "I is s"
    and "\<And>i js s. I (i # js) s \<Longrightarrow> returns (f i s) (\<lambda>_ t. I js t)"
  shows "returns (for_each is f s) (\<lambda>_ t. I [] t)"
  using assms(1)
proof (induction "is" arbitrary: s)
  case (Cons i js)
  have "returns (f i s) (\<lambda>_ t. I js t)" by (rule assms(2)) (rule Cons.prems)
  then show ?case by (cases "f i s") (auto intro: Cons.IH)
qed simp

text \<open>A loop whose bodies all return, returns.\<close>

lemma for_each_total:
  assumes "I is s"
    and "\<And>i js s. I (i # js) s \<Longrightarrow> \<exists>t. f i s = Ok () t \<and> I js t"
  shows "\<exists>t. for_each is f s = Ok () t \<and> I [] t"
  using assms(1)
proof (induction "is" arbitrary: s)
  case (Cons i js)
  from assms(2) [OF Cons.prems] obtain t where "f i s = Ok () t" "I js t" by blast
  with Cons.IH [of t] show ?case by simp
qed simp

section \<open>Lemmas on integers, words and lists\<close>

lemma s32_id: "- (2 ^ 31) \<le> x \<Longrightarrow> x < 2 ^ 31 \<Longrightarrow> s32 x = x"
  by (simp add: s32_def signed_take_bit_int_eq_self)

lemma s32_bounds: "- (2 ^ 31) \<le> s32 x" "s32 x < 2 ^ 31"
  using signed_take_bit_int_greater_eq_minus_exp [of 31 x] signed_take_bit_int_less_exp [of 31 x]
  by (simp_all add: s32_def)

lemma uw_id: "0 \<le> x \<Longrightarrow> x < 2 ^ 32 \<Longrightarrow> uw x = x"
  by (simp add: uw_def)

lemma uw_range: "0 \<le> uw x" "uw x < 2 ^ 32"
  by (simp_all add: uw_def)

section \<open>Page arithmetic\<close>

lemma unat_drop_bit: "unat (drop_bit n (w::'a::len word)) = unat w div 2 ^ n"
proof -
  have "unat (drop_bit n w) = drop_bit n (unat w)"
    by (simp add: unsigned_drop_bit_eq take_bit_nat_eq_self unsigned_less)
  then show ?thesis by (simp only: drop_bit_eq_div)
qed

lemma unat_push_bit: 
  assumes "unat (w::'a::len word) * 2 ^ n < 2 ^ LENGTH('a)" 
  shows "unat (push_bit n w) = unat w * 2 ^ n"
proof -
  have "unat (push_bit n w) = take_bit LENGTH('a) (push_bit n (unat w))" by (simp only: unsigned_push_bit_eq)
  also have "\<dots> = unat w * 2 ^ n" using assms by (simp only: push_bit_eq_mult take_bit_nat_eq_self_iff)
  finally show ?thesis .
qed

lemma unat_take_bit: "unat (take_bit n (w::'a::len word)) = unat w mod 2 ^ n"
proof -
  have "unat (take_bit n w) = take_bit n (unat w)" by (rule unsigned_take_bit_eq)
  then show ?thesis by (simp only: take_bit_eq_mod)
qed

lemma word32_less: "unat (w::u32) < 2 ^ 32"
  using unsigned_less [of w] by simp

lemma and_fffff000 [page_simps]: "unat (0xfffff000 AND (w::u32)) = unat w div 4096 * 4096"
proof -
  have "(0xfffff000::u32) = push_bit 12 (mask 20)" by (simp add: mask_eq_exp_minus_1)
  then have "0xfffff000 AND w = push_bit 12 (drop_bit 12 w)"
    by (auto simp: bit_eq_iff bit_simps)
  then show ?thesis
    using word32_less [of w] by (simp add: unat_push_bit unat_drop_bit)
qed

lemma and_ffc [page_simps]: "unat (drop_bit n (w::u32) AND 0xffc) = unat w div 2 ^ (n + 2) mod 1024 * 4"
proof -
  have m: "(0xffc::u32) = push_bit 2 (mask 10)" by (simp add: mask_eq_exp_minus_1)
  have "drop_bit n w AND 0xffc = push_bit 2 (take_bit 10 (drop_bit (n + 2) w))"
  proof (rule bit_word_eqI)
    fix k assume "k < LENGTH(32)"
    then show "bit (drop_bit n w AND 0xffc) k = bit (push_bit 2 (take_bit 10 (drop_bit (n + 2) w))) k"
      unfolding m by (auto simp: bit_simps add.commute le_iff_add dest: bit_imp_le_length)
  qed
  moreover have "unat (take_bit 10 (drop_bit (n + 2) w)) = unat w div 2 ^ (n + 2) mod 1024"
    by (simp add: unat_drop_bit unat_take_bit)
  moreover have "unat w div 2 ^ (n + 2) mod 1024 < 1024" by simp
  ultimately show ?thesis
    by (simp add: unat_push_bit)
qed

lemma and_3ff [page_simps]: "unat (w AND 0x3ff) = unat (w :: u32) mod 1024"
  using unat_take_bit [of 10 w] by (simp add: take_bit_eq_mask mask_eq_exp_minus_1)

lemma and_3fffff [page_simps]: "unat (w AND 0x3fffff) = unat (w :: u32) mod 2 ^ 22"
  using unat_take_bit [of 22 w] by (simp add: take_bit_eq_mask mask_eq_exp_minus_1)

lemma drop_or_7 [page_simps]: "drop_bit 12 (w OR 7) = drop_bit 12 (w::u32)" 
   by (simp add: drop_bit_or)

lemma drop_or_2 [page_simps]: "drop_bit 12 (w OR 2) = drop_bit 12 (w::u32)" 
   by (simp add: drop_bit_or)

lemma drop_and_not_2 [page_simps]: "drop_bit 12 (w AND NOT 2) = drop_bit 12 (w::u32)"
proof (rule bit_word_eqI)
  fix k assume "k < LENGTH(32)"
  show "bit (drop_bit 12 (w AND NOT 2)) k = bit (drop_bit 12 w) k"
  proof -
    have "\<not> bit (2::u32) (k + 12)"
      using bit_numeral_word_iff [of "num.Bit0 num.One" "k + 12"] by (simp add: bit_simps)
    then show ?thesis by (auto simp: bit_simps add.commute dest: bit_imp_le_length)
  qed
qed

lemma one_and_bit [page_simps]: "(1 AND w = 0) = (\<not> bit (w::u32) 0)" "(w AND 1 = 0) = (\<not> bit (w::u32) 0)"
  by (simp_all add: and_one_eq one_and_eq odd_iff_mod_2_eq_one bit_0)

lemma three_and_bit [page_simps]: "(3 AND (w::u32) = 1) = (bit w 0 \<and> \<not> bit w 1)"
proof -
  have "3 AND w = take_bit 2 w" by (simp add: take_bit_eq_mask mask_eq_exp_minus_1 and.commute)
  also have "(\<dots> = 1) = (bit w 0 \<and> \<not> bit w 1)"
  proof -
    have "take_bit 2 w = of_bool (bit w 0) + 2 * of_bool (bit w 1)"
      by (simp add: numeral_2_eq_2 take_bit_Suc bit_0 bit_Suc mod_2_eq_odd)
    then show ?thesis by auto
  qed
  finally show ?thesis .
qed

section \<open>Storing a list of bytes\<close>

primrec write_mem :: "u32 \<Rightarrow> u8 list \<Rightarrow> (u32 \<Rightarrow> u8) \<Rightarrow> u32 \<Rightarrow> u8" where
  "write_mem a [] m = m"
| "write_mem a (x # xs) m = write_mem (a + 1) xs (m(a := x))"

lemma write_mem_append: "write_mem a (xs @ ys) m = write_mem (a + of_nat (length xs)) ys (write_mem a xs m)"
  by (induction xs arbitrary: a m) (simp_all add: add.assoc)

lemma write_mem_snoc: "write_mem a (xs @ [x]) m = (write_mem a xs m)(a + of_nat (length xs) := x)"
  by (simp add: write_mem_append)

lemma write_mem_get:
  "length xs < 2 ^ 32 \<Longrightarrow> k < length xs \<Longrightarrow> write_mem a xs m (a + of_nat k) = xs ! k"
proof (induction xs rule: rev_induct)
  case (snoc x xs)
  show ?case
  proof (cases "k = length xs")
    case True
    then show ?thesis by (simp add: write_mem_snoc)
  next
    case False
    then have k: "k < length xs" using snoc.prems by simp
    have "(of_nat k :: u32) \<noteq> of_nat (length xs)"
    proof
      assume "(of_nat k :: u32) = of_nat (length xs)"
      then have "unat (of_nat k :: u32) = unat (of_nat (length xs) :: u32)" by simp
      then show False using k snoc.prems(1) by (simp add: unat_of_nat take_bit_eq_mod)
    qed
    then show ?thesis using snoc k by (simp add: write_mem_snoc nth_append)
  qed
qed simp

end
