(* ===== verification/Build.thy ===== *)
theory Build
  imports Kernel_Prelude
begin

text \<open>
  The image builder \<open>tools/build.c\<close>, a program of the host: from the boot sector in Minix format and the kernel it writes the disk
  image. A file is the list of its bytes, \<open>None\<close> when it cannot be opened; reads and writes of these files are not short,
  and \<open>long\<close> has 32 bits.
\<close>

definition MINIX_HEADER :: nat where "MINIX_HEADER = 32"

definition quoted :: "string \<Rightarrow> string" where "quoted w = [CHR 0x27] @ w @ [CHR 0x27]"

text \<open>\<open>((long *) buf)[k]\<close>\<close>

definition long_of :: "u8 list \<Rightarrow> nat \<Rightarrow> u32" where
  "long_of buf k = ucast (buf ! (4 * k)) OR push_bit 8 (ucast (buf ! (4 * k + 1))) OR push_bit 16 (ucast (buf ! (4 * k + 2))) OR
     push_bit 24 (ucast (buf ! (4 * k + 3)))"

text \<open>The tests on the header, in their order.\<close>

definition bad_header :: "u8 list \<Rightarrow> string option" where
  "bad_header buf =
     (if long_of buf 0 \<noteq> 0x04100301 then Some (''Non-Minix header of '' @ quoted ''boot'')
      else if long_of buf 1 \<noteq> of_nat MINIX_HEADER then Some (''Non-Minix header of '' @ quoted ''boot'')
      else if long_of buf 3 \<noteq> 0 then Some (''Illegal data segment in '' @ quoted ''boot'')
      else if long_of buf 4 \<noteq> 0 then Some (''Illegal bss in '' @ quoted ''boot'')
      else if long_of buf 5 \<noteq> 0 then Some (''Non-Minix header of '' @ quoted ''boot'')
      else if long_of buf 7 \<noteq> 0 then Some (''Illegal symbol table in '' @ quoted ''boot'')
      else None)"

text \<open>\<open>read\<close> into the buffer: the bytes read replace those at its start.\<close>

definition read_into :: "u8 list \<Rightarrow> nat \<Rightarrow> u8 list \<Rightarrow> u8 list" where
  "read_into data n buf = take n data @ drop (length (take n data)) buf"

text \<open>The bytes on the standard output and the message with which the program dies.\<close>

definition build_main :: "nat \<Rightarrow> u8 list option \<Rightarrow> u8 list option \<Rightarrow> u8 list \<times> string option" where
  "build_main argc boot sys =
     (if argc \<noteq> 3 then ([], Some ''Usage: build boot system [> image]'')
      else case boot of None \<Rightarrow> ([], Some (''Unable to open '' @ quoted ''boot''))
      | Some boot \<Rightarrow>
          if length boot < MINIX_HEADER then ([], Some (''Unable to read header of '' @ quoted ''boot''))
          else let buf = read_into boot MINIX_HEADER (replicate 1024 0)
            in case bad_header buf of Some e \<Rightarrow> ([], Some e)
               | None \<Rightarrow>
                   let rest = drop MINIX_HEADER boot; buf = read_into rest 1024 buf
                   in if length (take 1024 rest) > 510 then ([], Some ''Boot block may not exceed 510 bytes'')
                      else let out = take 512 (buf[510 := 0x55, 511 := 0xAA])
                        in case sys of None \<Rightarrow> (out, Some (''Unable to open '' @ quoted ''system''))
                           | Some sys \<Rightarrow> (out @ sys, None))"

text \<open>
  The image: one sector with the code and the signature at its end, then the kernel. When the code is shorter than the header, the
  rest of the header stays behind it.
\<close>

lemma build_image:
  assumes h: "length hdr = 32" "bad_header (read_into (hdr @ code) 32 (replicate 1024 0)) = None" and c: "length code \<le> 510"
  shows "\<exists>img. build_main 3 (Some (hdr @ code)) (Some sys) = (img @ sys, None) \<and> length img = 512 \<and> take (length code) img = code \<and>
    img ! 510 = 0x55 \<and> img ! 511 = 0xAA \<and>
    (\<forall>i. length code \<le> i \<longrightarrow> i < 510 \<longrightarrow> img ! i = (if i < 32 then hdr ! i else 0))"
proof -
  let ?b = "read_into code 1024 (read_into (hdr @ code) 32 (replicate 1024 0))"
  let ?img = "take 512 (?b[510 := 0x55, 511 := 0xAA])"
  have b: "?b = code @ drop (length code) (hdr @ replicate 992 0)" using h(1) c by (simp add: read_into_def)
  have l: "length ?b = 1024" using h(1) c unfolding b by simp
  have "build_main 3 (Some (hdr @ code)) (Some sys) = (?img @ sys, None)"
    using h c by (simp add: build_main_def MINIX_HEADER_def Let_def)
  moreover have "take (length code) ?img = code"
  proof -
    have "take (length code) ?img = take (length code) ?b" using c l by (simp add: take_update_swap list_update_beyond)
    also have "\<dots> = code" unfolding b by simp
    finally show ?thesis .
  qed
  moreover have "?img ! i = (if i < 32 then hdr ! i else 0)" if "length code \<le> i" "i < 510" for i
  proof -
    have "?img ! i = ?b ! i" using that by simp
    also have "\<dots> = (hdr @ replicate 992 0) ! i" using that h(1) unfolding b nth_append [of code] by (simp del: drop_append)
    finally show ?thesis using that h(1) by (simp add: nth_append)
  qed
  moreover have "length ?img = 512" "?img ! 510 = 0x55" "?img ! 511 = 0xAA" using l by simp_all
  ultimately show ?thesis by blast
qed

end
