(* ===== verification/Sched.thy ===== *)
theory Sched
  imports Kernel_Prelude
begin

text \<open>
  Model of \<open>kernel/sched.c\<close> on the data of \<open>include/linux/sched.h\<close>.

  Task structures live at addresses: \<open>task\<close> is the C array of pointers (0 is NULL), \<open>ts\<close> the
  structure at an address, \<open>current\<close> the pointer to the running one and \<open>init_task\<close> the address
  the linker gives to \<open>init_task.task\<close>. \<open>klog\<close> records the \<open>printk\<close> calls (format and integer
  arguments). \<open>cr0_ts\<close> and \<open>fpu\<close> are the task-switched flag and the register file of the
  coprocessor.

  \<open>schedule\<close> is \<open>None\<close> when its selection loop never ends and otherwise the state in which the
  chosen task runs. \<open>sleep_on\<close> and \<open>interruptible_sleep_on\<close> are split at their \<open>schedule()\<close>
  call: the part before it, and the part the woken task executes.

  The lemmas show that the selection loop ends and picks a runnable task with the largest time
  slice, that the time slices stay within twice the priority, that the lazy switching of the
  coprocessor loses no context, and that one \<open>wake_up\<close> wakes every task of a wait queue.
\<close>

section \<open>Data of sched.h\<close>

definition NR_TASKS :: nat where "NR_TASKS = 64"
definition HZ :: int where "HZ = 100"

definition TASK_RUNNING :: int where "TASK_RUNNING = 0"
definition TASK_INTERRUPTIBLE :: int where "TASK_INTERRUPTIBLE = 1"
definition TASK_UNINTERRUPTIBLE :: int where "TASK_UNINTERRUPTIBLE = 2"
definition TASK_ZOMBIE :: int where "TASK_ZOMBIE = 3"
definition TASK_STOPPED :: int where "TASK_STOPPED = 4"

lemmas task_state_defs = TASK_RUNNING_def TASK_INTERRUPTIBLE_def TASK_UNINTERRUPTIBLE_def
  TASK_ZOMBIE_def TASK_STOPPED_def

text \<open>\<open>Fpu_init\<close> is the register file after \<open>fninit\<close>.\<close>

datatype fpu_regs = Fpu_init | Fpu_regs "u32 list"

record desc_struct =
  desc_a :: u32
  desc_b :: u32

record tss_struct =
  back_link :: u32
  esp0 :: u32
  ss0 :: u32
  esp1 :: u32
  ss1 :: u32
  esp2 :: u32
  ss2 :: u32
  cr3 :: u32
  tss_eip :: u32
  tss_eflags :: u32
  tss_eax :: u32
  tss_ecx :: u32
  tss_edx :: u32
  tss_ebx :: u32
  tss_esp :: u32
  tss_ebp :: u32
  tss_esi :: u32
  tss_edi :: u32
  tss_es :: u32
  tss_cs :: u32
  tss_ss :: u32
  tss_ds :: u32
  tss_fs :: u32
  tss_gs :: u32
  tss_ldt :: u32
  trace_bitmap :: u32
  i387 :: fpu_regs

record task_struct =
  state :: int
  counter :: int
  priority :: int
  signal :: u32
  sig_restorer :: u32
  sig_fn :: "nat \<Rightarrow> u32"
  exit_code :: int
  end_code :: u32
  end_data :: u32
  brk :: u32
  start_stack :: u32
  pid :: int
  father :: int
  pgrp :: int
  session :: int
  leader :: int
  uid :: u16
  euid :: u16
  suid :: u16
  gid :: u16
  egid :: u16
  sgid :: u16
  alarm :: int
  utime :: int
  stime :: int
  cutime :: int
  cstime :: int
  start_time :: int
  used_math :: u16
  tty :: int
  umask :: u16
  pwd :: "nat option"
  root :: "nat option"
  close_on_exec :: u32
  filp :: "nat \<Rightarrow> nat option"
  ldt :: "nat \<Rightarrow> desc_struct"
  tss :: tss_struct

record sched_st =
  klog :: "(string \<times> int list) list"
  init_task :: nat
  task :: "nat \<Rightarrow> nat"
  ts :: "nat \<Rightarrow> task_struct"
  current :: nat
  last_task_used_math :: nat
  jiffies :: int
  startup_time :: int
  cr0_ts :: bool
  fpu :: fpu_regs
  gdt :: "nat \<Rightarrow> desc_struct"

text \<open>The static initialisers: \<open>INIT_TASK\<close> at address \<open>a\<close> and the table that holds only task 0.\<close>

definition INIT_TASK :: "u32 \<Rightarrow> task_struct" where
  "INIT_TASK a =
     \<lparr>state = 0, counter = 15, priority = 15, signal = 0, sig_restorer = 0, sig_fn = (\<lambda>_. 0),
      exit_code = 0, end_code = 0, end_data = 0, brk = 0, start_stack = 0, pid = 0, father = -1,
      pgrp = 0, session = 0, leader = 0, uid = 0, euid = 0, suid = 0, gid = 0, egid = 0, sgid = 0,
      alarm = 0, utime = 0, stime = 0, cutime = 0, cstime = 0, start_time = 0, used_math = 0,
      tty = -1, umask = 0x5b, pwd = None, root = None, close_on_exec = 0, filp = (\<lambda>_. None),
      ldt = (\<lambda>_. \<lparr>desc_a = 0, desc_b = 0\<rparr>)(1 := \<lparr>desc_a = 0x9f, desc_b = 0xc0fa00\<rparr>,
                                           2 := \<lparr>desc_a = 0x9f, desc_b = 0xc0f200\<rparr>),
      tss = \<lparr>back_link = 0, esp0 = 4096 + a, ss0 = 0x10, esp1 = 0, ss1 = 0, esp2 = 0, ss2 = 0, cr3 = 0,
             tss_eip = 0, tss_eflags = 0, tss_eax = 0, tss_ecx = 0, tss_edx = 0, tss_ebx = 0,
             tss_esp = 0, tss_ebp = 0, tss_esi = 0, tss_edi = 0, tss_es = 0x17, tss_cs = 0x17,
             tss_ss = 0x17, tss_ds = 0x17, tss_fs = 0x17, tss_gs = 0x17, tss_ldt = 0x28,
             trace_bitmap = 0x80000000, i387 = Fpu_init\<rparr>\<rparr>"

definition sched_boot :: "nat \<Rightarrow> sched_st" where
  "sched_boot a =
     \<lparr>klog = [], init_task = a, task = (\<lambda>_. 0)(0 := a), ts = (\<lambda>_. INIT_TASK (of_nat a)), current = a,
      last_task_used_math = 0, jiffies = 0, startup_time = 0, cr0_ts = False, fpu = Fpu_init,
      gdt = (\<lambda>_. \<lparr>desc_a = 0, desc_b = 0\<rparr>)\<rparr>"

definition two_tasks :: sched_st where
  "two_tasks = (sched_boot 0x1000)\<lparr>task := (\<lambda>_. 0)(0 := 0x1000, 1 := 0x2000)\<rparr>"

definition cur :: "'z sched_st_scheme \<Rightarrow> task_struct" where
  "cur s = ts s (current s)"

definition upd_task :: "nat \<Rightarrow> (task_struct \<Rightarrow> task_struct) \<Rightarrow> 'z sched_st_scheme \<Rightarrow> 'z sched_st_scheme" where
  "upd_task p f s = s\<lparr>ts := (ts s)(p := f (ts s p))\<rparr>"

definition upd_cur :: "(task_struct \<Rightarrow> task_struct) \<Rightarrow> 'z sched_st_scheme \<Rightarrow> 'z sched_st_scheme" where
  "upd_cur f s = upd_task (current s) f s"

definition printk :: "string \<Rightarrow> int list \<Rightarrow> 'z sched_st_scheme \<Rightarrow> 'z sched_st_scheme" where
  "printk fmt args s = s\<lparr>klog := klog s @ [(fmt, args)]\<rparr>"

definition CURRENT_TIME :: "'z sched_st_scheme \<Rightarrow> int" where
  "CURRENT_TIME s = s32 (startup_time s + (jiffies s sdiv HZ))"

definition sigmask :: "nat \<Rightarrow> u32" where
  "sigmask sig = push_bit (sig - 1) 1"

text \<open>Descriptors of the GDT: \<open>set_tss_desc\<close> and \<open>set_ldt_desc\<close> of \<open>asm/system.h\<close>.\<close>

definition FIRST_TSS_ENTRY :: nat where "FIRST_TSS_ENTRY = 4"
definition FIRST_LDT_ENTRY :: nat where "FIRST_LDT_ENTRY = 5"

definition tssldt_desc :: "u32 \<Rightarrow> u32 \<Rightarrow> desc_struct" where
  "tssldt_desc addr typ =
     \<lparr>desc_a = push_bit 16 addr OR 104,
      desc_b = (addr AND 0xff000000) OR push_bit 8 typ OR (drop_bit 16 addr AND 0xff)\<rparr>"

definition set_gdt :: "nat \<Rightarrow> desc_struct \<Rightarrow> 'z sched_st_scheme \<Rightarrow> 'z sched_st_scheme" where
  "set_gdt n d s = s\<lparr>gdt := (gdt s)(n := d)\<rparr>"

section \<open>Context switch and scheduler\<close>

definition switch_to :: "nat \<Rightarrow> 'z sched_st_scheme \<Rightarrow> 'z sched_st_scheme" where
  "switch_to n s =
     (if task s n = current s then s
      else s\<lparr>current := task s n, cr0_ts := (task s n \<noteq> last_task_used_math s)\<rparr>)"

definition math_state_restore :: "'z sched_st_scheme \<Rightarrow> ('z sched_st_scheme, unit) kres" where
  "math_state_restore s =
     (if current s = 0 then Panic ''CRITICAL: math_state_restore called with NULL current task!''
      else if last_task_used_math s = current s then Ok () s
      else
        let s1 = (if last_task_used_math s \<noteq> 0
                  then upd_task (last_task_used_math s) (\<lambda>t. t\<lparr>tss := (tss t)\<lparr>i387 := fpu s\<rparr>\<rparr>)
                         (s\<lparr>fpu := Fpu_init\<rparr>)
                  else s);
            s2 = (if used_math (cur s1) \<noteq> 0
                  then s1\<lparr>fpu := i387 (tss (cur s1))\<rparr>
                  else upd_cur (\<lambda>t. t\<lparr>used_math := 1\<rparr>) (s1\<lparr>fpu := Fpu_init\<rparr>))
        in Ok () (s2\<lparr>last_task_used_math := current s2\<rparr>))"

text \<open>Phase 1 of \<open>schedule\<close>: alarms and signals, for one task structure and for the slots 63 to 1.\<close>

definition check_alarm :: "int \<Rightarrow> task_struct \<Rightarrow> task_struct" where
  "check_alarm now t =
     (let t1 = (if alarm t \<noteq> 0 \<and> alarm t < now
                then t\<lparr>signal := signal t OR sigmask SIGALRM, alarm := 0\<rparr> else t)
      in if signal t1 \<noteq> 0 \<and> state t1 = TASK_INTERRUPTIBLE then t1\<lparr>state := TASK_RUNNING\<rparr> else t1)"

definition slots_down :: "nat list" where
  "slots_down = rev [1..<NR_TASKS]"

definition for_tasks :: "(task_struct \<Rightarrow> task_struct) \<Rightarrow> nat list \<Rightarrow> 'z sched_st_scheme \<Rightarrow> 'z sched_st_scheme" where
  "for_tasks f is s = fold (\<lambda>i s. if task s i \<noteq> 0 then upd_task (task s i) f s else s) is s"

definition check_signals :: "'z sched_st_scheme \<Rightarrow> 'z sched_st_scheme" where
  "check_signals s = for_tasks (check_alarm (jiffies s)) slots_down s"

text \<open>Phase 2: the scan for the largest time slice, with the running maximum \<open>c\<close> and its slot.\<close>

fun pick :: "'z sched_st_scheme \<Rightarrow> nat list \<Rightarrow> int \<Rightarrow> nat \<Rightarrow> int \<times> nat" where
  "pick s [] c next = (c, next)"
| "pick s (i # is) c next =
     (if task s i \<noteq> 0 \<and> state (ts s (task s i)) = TASK_RUNNING \<and> counter (ts s (task s i)) > c
      then pick s is (counter (ts s (task s i))) i
      else pick s is c next)"

text \<open>Phase 3: new time slices for every task but task 0.\<close>

definition new_slice :: "task_struct \<Rightarrow> task_struct" where
  "new_slice t = t\<lparr>counter := s32 (counter t div 2 + priority t)\<rparr>"

definition recharge :: "'z sched_st_scheme \<Rightarrow> 'z sched_st_scheme" where
  "recharge s = for_tasks new_slice slots_down s"

partial_function (option) select_task :: "'z sched_st_scheme \<Rightarrow> (nat \<times> 'z sched_st_scheme) option" where
  "select_task s =
     (case pick s slots_down (-1) 0 of (c, next) \<Rightarrow>
        if c \<noteq> 0 then Some (next, s) else select_task (recharge s))"

definition schedule :: "'z sched_st_scheme \<Rightarrow> 'z sched_st_scheme option" where
  "schedule s =
     (case select_task (check_signals s) of None \<Rightarrow> None | Some (next, s') \<Rightarrow> Some (switch_to next s'))"

text \<open>A call of \<open>schedule()\<close> by the current task: it goes on at once when it is chosen itself.\<close>

definition call_schedule :: "'z sched_st_scheme \<Rightarrow> ('z sched_st_scheme, unit) kres" where
  "call_schedule s =
     (case schedule s of None \<Rightarrow> Hang
      | Some t \<Rightarrow> if current t = current s then Ok () t else Sleep t)"

section \<open>Sleeping and waking\<close>

definition sys_pause :: "'z sched_st_scheme \<Rightarrow> ('z sched_st_scheme, int) kres" where
  "sys_pause s =
     (if current s = 0 then Panic ''sys_pause: Current task is NULL''
      else bnd (call_schedule (upd_cur (\<lambda>t. t\<lparr>state := TASK_INTERRUPTIBLE\<rparr>) s)) (\<lambda>_ s. Ok 0 s))"

text \<open>
  A wait queue \<open>struct task_struct **p\<close> is a pair of its read and write access; \<open>None\<close> is the NULL
  pointer. The first half of \<open>sleep_on\<close> returns the old head \<open>tmp\<close>, which the sleeper keeps on its
  stack.
\<close>

type_synonym 's wait_queue = "(('s \<Rightarrow> nat) \<times> (nat \<Rightarrow> 's \<Rightarrow> 's)) option"

definition sleep_enter :: "int \<Rightarrow> string \<Rightarrow> 'z sched_st_scheme wait_queue \<Rightarrow> 'z sched_st_scheme \<Rightarrow>
    ('z sched_st_scheme, nat option) kres" where
  "sleep_enter how msg p s =
     (case p of None \<Rightarrow> Ok None s
      | Some (rd, wr) \<Rightarrow>
         if current s = init_task s then Panic msg
         else Ok (Some (rd s)) (upd_cur (\<lambda>t. t\<lparr>state := how\<rparr>) (wr (current s) s)))"

definition sleep_on_enter :: "'z sched_st_scheme wait_queue \<Rightarrow> 'z sched_st_scheme \<Rightarrow>
    ('z sched_st_scheme, nat option) kres" where
  "sleep_on_enter p s =
     sleep_enter TASK_UNINTERRUPTIBLE ''CRITICAL ERROR: Task[0] attempting to sleep! System Halted.'' p s"

definition sleep_on_leave :: "nat \<Rightarrow> 'z sched_st_scheme \<Rightarrow> 'z sched_st_scheme" where
  "sleep_on_leave tmp s = (if tmp \<noteq> 0 then upd_task tmp (\<lambda>t. t\<lparr>state := TASK_RUNNING\<rparr>) s else s)"

definition interruptible_sleep_on_enter :: "'z sched_st_scheme wait_queue \<Rightarrow> 'z sched_st_scheme \<Rightarrow>
    ('z sched_st_scheme, nat option) kres" where
  "interruptible_sleep_on_enter p s =
     sleep_enter TASK_INTERRUPTIBLE ''CRITICAL ERROR: Task[0] attempting to sleep (interruptible)!'' p s"

text \<open>
  The woken half of \<open>interruptible_sleep_on\<close>: while another task heads the queue, it is woken and
  the caller goes back to sleep (\<open>False\<close>); otherwise the sleeper leaves (\<open>True\<close>).
\<close>

definition interruptible_sleep_on_leave :: "(('z sched_st_scheme \<Rightarrow> nat) \<times>
    (nat \<Rightarrow> 'z sched_st_scheme \<Rightarrow> 'z sched_st_scheme)) \<Rightarrow> nat \<Rightarrow> 'z sched_st_scheme \<Rightarrow>
    bool \<times> 'z sched_st_scheme" where
  "interruptible_sleep_on_leave p tmp s =
     (case p of (rd, wr) \<Rightarrow>
        if rd s \<noteq> 0 \<and> rd s \<noteq> current s
        then (False, upd_cur (\<lambda>t. t\<lparr>state := TASK_INTERRUPTIBLE\<rparr>)
                       (upd_task (rd s) (\<lambda>t. t\<lparr>state := TASK_RUNNING\<rparr>) s))
        else (True, sleep_on_leave tmp (wr 0 s)))"

definition wake_up :: "'z sched_st_scheme wait_queue \<Rightarrow> 'z sched_st_scheme \<Rightarrow> 'z sched_st_scheme" where
  "wake_up p s =
     (case p of None \<Rightarrow> s
      | Some (rd, wr) \<Rightarrow>
         if rd s \<noteq> 0 then wr 0 (upd_task (rd s) (\<lambda>t. t\<lparr>state := TASK_RUNNING\<rparr>) s) else s)"

text \<open>
  The whole routines, as their caller sees them: the caller sleeps unless it is woken at once (by a
  pending signal).
\<close>

definition sleep_on :: "'z sched_st_scheme wait_queue \<Rightarrow> 'z sched_st_scheme \<Rightarrow> ('z sched_st_scheme, unit) kres" where
  "sleep_on p s =
     bnd (sleep_on_enter p s) (\<lambda>tmp s.
       case tmp of None \<Rightarrow> Ok () s
       | Some t \<Rightarrow> bnd (call_schedule s) (\<lambda>_ s. Ok () (sleep_on_leave t s)))"

definition interruptible_sleep_on :: "'z sched_st_scheme wait_queue \<Rightarrow> 'z sched_st_scheme \<Rightarrow>
    ('z sched_st_scheme, unit) kres" where
  "interruptible_sleep_on p s =
     bnd (interruptible_sleep_on_enter p s) (\<lambda>tmp s.
       case (p, tmp) of
         (Some q, Some t) \<Rightarrow> bnd (call_schedule s) (\<lambda>_ s.
            case interruptible_sleep_on_leave q t s of (done, s) \<Rightarrow> if done then Ok () s else Sleep s)
       | _ \<Rightarrow> Ok () s)"

section \<open>Timer and task attributes\<close>

definition do_timer :: "int \<Rightarrow> 'z sched_st_scheme \<Rightarrow> ('z sched_st_scheme, unit) kres" where
  "do_timer cpl s =
     (if current s = 0 then Ok () s
      else
        let s1 = (if cpl \<noteq> 0 then upd_cur (\<lambda>t. t\<lparr>utime := s32 (utime t + 1)\<rparr>) s
                  else upd_cur (\<lambda>t. t\<lparr>stime := s32 (stime t + 1)\<rparr>) s);
            s2 = upd_cur (\<lambda>t. t\<lparr>counter := s32 (counter t - 1)\<rparr>) s1
        in if counter (cur s2) > 0 then Ok () s2
           else
             let s3 = upd_cur (\<lambda>t. t\<lparr>counter := 0\<rparr>) s2
             in if cpl = 0 then Ok () s3 else call_schedule s3)"

definition timer_interrupt :: "int \<Rightarrow> 'z sched_st_scheme \<Rightarrow> ('z sched_st_scheme, unit) kres" where
  "timer_interrupt cs s = do_timer (cs mod 4) (s\<lparr>jiffies := s32 (jiffies s + 1)\<rparr>)"

definition sys_alarm :: "int \<Rightarrow> 'z sched_st_scheme \<Rightarrow> int \<times> 'z sched_st_scheme" where
  "sys_alarm seconds s =
     (let old = alarm (cur s);
          old = (if old \<noteq> 0 then s32 (old - jiffies s) sdiv HZ else old)
      in (old, upd_cur (\<lambda>t. t\<lparr>alarm := (if seconds > 0 then s32 (jiffies s + HZ * seconds) else 0)\<rparr>) s))"

definition sys_getpid :: "'z sched_st_scheme \<Rightarrow> int" where "sys_getpid s = pid (cur s)"
definition sys_getppid :: "'z sched_st_scheme \<Rightarrow> int" where "sys_getppid s = father (cur s)"
definition sys_getuid :: "'z sched_st_scheme \<Rightarrow> int" where "sys_getuid s = uint (uid (cur s))"
definition sys_geteuid :: "'z sched_st_scheme \<Rightarrow> int" where "sys_geteuid s = uint (euid (cur s))"
definition sys_getgid :: "'z sched_st_scheme \<Rightarrow> int" where "sys_getgid s = uint (gid (cur s))"
definition sys_getegid :: "'z sched_st_scheme \<Rightarrow> int" where "sys_getegid s = uint (egid (cur s))"

definition sys_nice :: "int \<Rightarrow> 'z sched_st_scheme \<Rightarrow> int \<times> 'z sched_st_scheme" where
  "sys_nice increment s =
     (if s32 (priority (cur s) - increment) > 0
      then
        let s1 = upd_cur (\<lambda>t. t\<lparr>priority := s32 (priority t - increment)\<rparr>) s
        in (0, if increment < 0
               then printk '' [PERF] Process Priority Boosted! (PID: %d, NewPrio: %d)''
                      [pid (cur s1), priority (cur s1)] s1
               else s1)
      else (0, s))"

definition catchable :: "nat set" where
  "catchable = {SIGHUP, SIGINT, SIGQUIT, SIGILL, SIGTRAP, SIGABRT, SIGFPE, SIGUSR1, SIGSEGV, SIGUSR2,
     SIGPIPE, SIGALRM, SIGCHLD}"

definition sys_signal :: "int \<Rightarrow> u32 \<Rightarrow> u32 \<Rightarrow> 'z sched_st_scheme \<Rightarrow> int \<times> 'z sched_st_scheme" where
  "sys_signal sig addr restorer s =
     (if sig < 1 \<or> sig > 32 then (-1, s)
      else if nat sig \<in> catchable
      then (sint (sig_fn (cur s) (nat sig - 1)),
            upd_cur (\<lambda>t. t\<lparr>sig_fn := (sig_fn t)(nat sig - 1 := addr), sig_restorer := restorer\<rparr>) s)
      else (-1, s))"

text \<open>
  The table part of \<open>sched_init\<close>: the descriptors of task 0 (\<open>tss_addr\<close> and \<open>ldt_addr\<close> are the
  addresses of its \<open>tss\<close> and \<open>ldt\<close>), then every other slot and its two descriptors cleared.
\<close>

definition sched_init :: "u32 \<Rightarrow> u32 \<Rightarrow> 'z sched_st_scheme \<Rightarrow> 'z sched_st_scheme" where
  "sched_init tss_addr ldt_addr s =
     (let s1 = set_gdt FIRST_TSS_ENTRY (tssldt_desc tss_addr 0x89) s;
          s2 = set_gdt FIRST_LDT_ENTRY (tssldt_desc ldt_addr 0x82) s1;
          zero = \<lparr>desc_a = 0, desc_b = 0\<rparr>
      in fold (\<lambda>i s. set_gdt (2 * i + FIRST_LDT_ENTRY) zero
                (set_gdt (2 * i + FIRST_TSS_ENTRY) zero (s\<lparr>task := (task s)(i := 0)\<rparr>)))
           [1..<NR_TASKS] s2)"

section \<open>A wait queue as a state machine\<close>

text \<open>
  One wait queue \<open>wq\<close> and any number of tasks: \<open>frames p = Some tmp\<close> says that task \<open>p\<close> is inside
  \<open>sleep_on\<close> with the local variable \<open>tmp\<close>. A step is: the current task enters \<open>sleep_on\<close>; some
  code calls \<open>wake_up\<close>; the current task, runnable again, finishes \<open>sleep_on\<close>; the processor is given
  to another runnable task.
\<close>

record wq_st = sched_st +
  wq :: nat
  frames :: "nat \<Rightarrow> nat option"

definition the_queue :: "wq_st wait_queue" where
  "the_queue = Some (wq, \<lambda>v s. s\<lparr>wq := v\<rparr>)"

inductive wq_step :: "wq_st \<Rightarrow> wq_st \<Rightarrow> bool" where
  sleep: "frames s (current s) = None \<Longrightarrow> current s \<noteq> 0 \<Longrightarrow>
    sleep_on_enter the_queue s = Ok (Some tmp) s' \<Longrightarrow>
    wq_step s (s'\<lparr>frames := (frames s)(current s \<mapsto> tmp)\<rparr>)"
| wake: "wq_step s (wake_up the_queue s)"
| leave: "frames s (current s) = Some tmp \<Longrightarrow> state (cur s) = TASK_RUNNING \<Longrightarrow>
    wq_step s ((sleep_on_leave tmp s)\<lparr>frames := (frames s)(current s := None)\<rparr>)"
| switch: "p \<noteq> 0 \<Longrightarrow> state (ts s p) = TASK_RUNNING \<Longrightarrow> wq_step s (s\<lparr>current := p\<rparr>)"

inductive wq_reach :: "wq_st \<Rightarrow> bool" where
  start: "wq s = 0 \<Longrightarrow> frames s = (\<lambda>_. None) \<Longrightarrow> wq_reach s"
| step: "wq_reach s \<Longrightarrow> wq_step s t \<Longrightarrow> wq_reach t"

text \<open>A chain of sleepers linked by their \<open>tmp\<close> variables.\<close>

fun linked :: "(nat \<Rightarrow> nat option) \<Rightarrow> nat list \<Rightarrow> bool" where
  "linked fr [] = True"
| "linked fr (x # xs) = (fr x = Some (case xs of [] \<Rightarrow> 0 | y # _ \<Rightarrow> y) \<and> linked fr xs)"

definition asleep :: "wq_st \<Rightarrow> nat \<Rightarrow> bool" where
  "asleep s p \<longleftrightarrow> state (ts s p) = TASK_UNINTERRUPTIBLE"

definition woken_chain :: "wq_st \<Rightarrow> nat list \<Rightarrow> bool" where
  "woken_chain s c \<longleftrightarrow> c \<noteq> [] \<and> linked (frames s) c \<and> state (ts s (hd c)) = TASK_RUNNING \<and>
     (\<forall>p\<in>set (tl c). asleep s p)"

definition wq_chains :: "wq_st \<Rightarrow> nat list \<Rightarrow> nat list list \<Rightarrow> bool" where
  "wq_chains s m cs \<longleftrightarrow>
     wq s = (case m of [] \<Rightarrow> 0 | x # _ \<Rightarrow> x) \<and> linked (frames s) m \<and> (\<forall>p\<in>set m. asleep s p) \<and>
     (\<forall>c\<in>set cs. woken_chain s c) \<and> distinct (m @ concat cs) \<and>
     frames s 0 = None \<and> (\<forall>p. frames s p \<noteq> None \<longleftrightarrow> p \<in> set m \<or> (\<exists>c\<in>set cs. p \<in> set c))"

text \<open>The coprocessor context that belongs to a task: in the registers if it used them last, otherwise
  in its saved area.\<close>

definition math_context :: "'z sched_st_scheme \<Rightarrow> nat \<Rightarrow> fpu_regs" where
  "math_context s p = (if last_task_used_math s = p then fpu s else i387 (tss (ts s p)))"

section \<open>Lemmas on task tables\<close>

definition runnable :: "'z sched_st_scheme \<Rightarrow> nat \<Rightarrow> bool" where
  "runnable s i \<longleftrightarrow> task s i \<noteq> 0 \<and> state (ts s (task s i)) = TASK_RUNNING"

definition quantum :: "'z sched_st_scheme \<Rightarrow> nat \<Rightarrow> int" where
  "quantum s i = counter (ts s (task s i))"

text \<open>Invariant: distinct slots hold distinct tasks, priorities are positive and below \<open>2 ^ 29\<close>, and a
  time slice lies between 0 and twice the priority.\<close>

definition slice_ok :: "task_struct \<Rightarrow> bool" where
  "slice_ok t \<longleftrightarrow> 1 \<le> priority t \<and> priority t < 2 ^ 29 \<and> 0 \<le> counter t \<and> counter t \<le> 2 * priority t"

definition sched_inv :: "'z sched_st_scheme \<Rightarrow> bool" where
  "sched_inv s \<longleftrightarrow> inj_on (task s) {i. i < NR_TASKS \<and> task s i \<noteq> 0} \<and>
     (\<forall>i. 1 \<le> i \<longrightarrow> i < NR_TASKS \<longrightarrow> task s i \<noteq> 0 \<longrightarrow> slice_ok (ts s (task s i)))"

lemma upd_task_simps [simp]:
  "task (upd_task p f s) = task s" "current (upd_task p f s) = current s"
  "ts (upd_task p f s) = (ts s)(p := f (ts s p))" "jiffies (upd_task p f s) = jiffies s"
  "last_task_used_math (upd_task p f s) = last_task_used_math s" "fpu (upd_task p f s) = fpu s"
  "init_task (upd_task p f s) = init_task s"
  by (simp_all add: upd_task_def)

lemma upd_cur_simps [simp]:
  "task (upd_cur f s) = task s" "current (upd_cur f s) = current s"
  "ts (upd_cur f s) = (ts s)(current s := f (ts s (current s)))" "jiffies (upd_cur f s) = jiffies s"
  "last_task_used_math (upd_cur f s) = last_task_used_math s" "fpu (upd_cur f s) = fpu s"
  "init_task (upd_cur f s) = init_task s"
  by (simp_all add: upd_cur_def)

lemma set_slots_down [simp]: "set slots_down = {1..<NR_TASKS}"
  by (simp add: slots_down_def)

lemma distinct_slots_down [simp]: "distinct slots_down"
  by (simp add: slots_down_def)

lemma for_tasks_fields [simp]:
  "task (for_tasks f is s) = task s" "current (for_tasks f is s) = current s"
  "jiffies (for_tasks f is s) = jiffies s"
  unfolding for_tasks_def by (induction "is" arbitrary: s) auto

text \<open>A sweep over distinct slots applies the update once to every task it meets.\<close>

lemma for_tasks_ts:
  assumes "inj_on (task s) {i. i < NR_TASKS \<and> task s i \<noteq> 0}" and "distinct is" and "set is \<subseteq> {..<NR_TASKS}"
  shows "ts (for_tasks f is s) = (\<lambda>p. if p \<noteq> 0 \<and> p \<in> task s ` set is then f (ts s p) else ts s p)"
  using assms
proof (induction "is" arbitrary: s)
  case (Cons i "is")
  have step: "for_tasks f (i # is) s = for_tasks f is (if task s i \<noteq> 0 then upd_task (task s i) f s else s)"
    by (simp add: for_tasks_def)
  have notin: "task s i \<noteq> 0 \<Longrightarrow> task s i \<notin> task s ` set is"
    using Cons.prems by (auto dest!: inj_onD)
  show ?case
    using Cons.IH [of "if task s i \<noteq> 0 then upd_task (task s i) f s else s"] Cons.prems notin
    by (auto simp: step fun_eq_iff)
qed (simp add: for_tasks_def)

lemma for_tasks_slot:
  assumes "sched_inv s" and "1 \<le> i" and "i < NR_TASKS" and "task s i \<noteq> 0"
  shows "ts (for_tasks f slots_down s) (task s i) = f (ts s (task s i))"
  using assms by (subst for_tasks_ts) (auto simp: sched_inv_def)

section \<open>The selection of the next task\<close>

lemma pick_mono: "c \<le> fst (pick s is c n)"
  by (induction s "is" c n rule: pick.induct) auto

lemma pick_upper: "i \<in> set is \<Longrightarrow> runnable s i \<Longrightarrow> quantum s i \<le> fst (pick s is c n)"
proof (induction s "is" c n rule: pick.induct)
  case (2 s j "is" c n)
  show ?case
  proof (cases "i = j")
    case True
    with 2 show ?thesis
      using pick_mono [of "quantum s j" s "is" j] pick_mono [of c s "is" n]
      by (auto simp: runnable_def quantum_def)
  qed (use 2 in auto)
qed simp

lemma pick_result:
  "pick s is c n = (c', n') \<Longrightarrow> c' = c \<and> n' = n \<or> n' \<in> set is \<and> runnable s n' \<and> quantum s n' = c' \<and> c < c'"
proof (induction s "is" c n rule: pick.induct)
  case (2 s j "is" c n)
  show ?case
  proof (cases "runnable s j \<and> quantum s j > c")
    case True
    with 2 show ?thesis by (fastforce simp: runnable_def quantum_def)
  next
    case False
    with 2 show ?thesis by (auto simp: runnable_def quantum_def split: if_splits)
  qed
qed simp

text \<open>Among equal time slices the first slot of the scan wins.\<close>

lemma pick_first:
  "pick s (xs @ ys) c n = (c', n') \<Longrightarrow> n' \<in> set ys \<Longrightarrow> n' \<notin> set xs \<Longrightarrow> n \<noteq> n' \<Longrightarrow>
   \<forall>i\<in>set xs. runnable s i \<longrightarrow> quantum s i < c'"
proof (induction xs arbitrary: c n)
  case (Cons x xs)
  show ?case
  proof (cases "runnable s x \<and> quantum s x > c")
    case True
    with Cons.prems have e: "pick s (xs @ ys) (quantum s x) x = (c', n')"
      by (auto simp: runnable_def quantum_def)
    with Cons.prems Cons.IH [OF e] pick_result [OF e] show ?thesis by auto
  next
    case False
    with Cons.prems have e: "pick s (xs @ ys) c n = (c', n')"
      by (auto simp: runnable_def quantum_def split: if_splits)
    with Cons.prems Cons.IH [OF e] pick_result [OF e] False show ?thesis by auto
  qed
qed simp

lemma slots_down_split:
  assumes "1 \<le> n" and "n < NR_TASKS"
  shows "slots_down = rev [n + 1..<NR_TASKS] @ rev [1..<n + 1]"
proof -
  have "[1..<NR_TASKS] = [1..<n + 1] @ [n + 1..<NR_TASKS]"
    using assms upt_add_eq_append [of 1 "n + 1" "NR_TASKS - (n + 1)"] by simp
  then show ?thesis by (simp add: slots_down_def)
qed

text \<open>What one scan of the table returns.\<close>

definition best :: "'z sched_st_scheme \<Rightarrow> nat \<Rightarrow> bool" where
  "best s n \<longleftrightarrow> 1 \<le> n \<and> n < NR_TASKS \<and> runnable s n \<and>
     (\<forall>i. 1 \<le> i \<longrightarrow> i < NR_TASKS \<longrightarrow> runnable s i \<longrightarrow>
        quantum s i \<le> quantum s n \<and> (n < i \<longrightarrow> quantum s i < quantum s n))"

lemma pick_best:
  assumes "pick s slots_down (-1) 0 = (c, n)"
  shows "best s n \<and> quantum s n = c \<and> 0 \<le> c \<or>
    n = 0 \<and> c = -1 \<and> (\<forall>i. 1 \<le> i \<longrightarrow> i < NR_TASKS \<longrightarrow> runnable s i \<longrightarrow> quantum s i < 0)"
proof -
  have upper: "quantum s i \<le> c" if "1 \<le> i" "i < NR_TASKS" "runnable s i" for i
    using pick_upper [of i slots_down s "-1" 0] assms that by simp
  from pick_result [OF assms] show ?thesis
  proof
    assume "c = -1 \<and> n = 0"
    then show ?thesis using upper by fastforce
  next
    assume n: "n \<in> set slots_down \<and> runnable s n \<and> quantum s n = c \<and> -1 < c"
    then have range: "1 \<le> n" "n < NR_TASKS" by auto
    have "pick s (rev [n + 1..<NR_TASKS] @ rev [1..<n + 1]) (-1) 0 = (c, n)"
      using assms slots_down_split [OF range] by simp
    from pick_first [OF this] range
    have "\<forall>i\<in>set (rev [n + 1..<NR_TASKS]). runnable s i \<longrightarrow> quantum s i < c" by auto
    with n range upper show ?thesis unfolding best_def by auto
  qed
qed

lemma runnable_recharge:
  assumes "sched_inv s" and "1 \<le> i" and "i < NR_TASKS"
  shows "runnable (recharge s) i = runnable s i"
proof (cases "task s i = 0")
  case False
  with for_tasks_slot [OF assms this, of new_slice] show ?thesis
    by (simp add: runnable_def recharge_def new_slice_def)
qed (simp add: runnable_def recharge_def)

lemma new_slice_ok: "slice_ok t \<Longrightarrow> slice_ok (new_slice t)"
  and new_slice_pos: "slice_ok t \<Longrightarrow> 0 < counter (new_slice t)"
proof -
  assume ok: "slice_ok t"
  then have "s32 (counter t div 2 + priority t) = counter t div 2 + priority t"
    by (intro s32_id) (auto simp: slice_ok_def)
  with ok show "slice_ok (new_slice t)" "0 < counter (new_slice t)"
    by (auto simp: slice_ok_def new_slice_def)
qed

lemma slice_recharge:
  assumes "sched_inv s" and "1 \<le> i" and "i < NR_TASKS" and "task s i \<noteq> 0"
  shows "0 < quantum (recharge s) i"
  using assms for_tasks_slot [OF assms, of new_slice] new_slice_pos
  by (auto simp: quantum_def recharge_def sched_inv_def)

lemma sched_inv_for_tasks:
  assumes "sched_inv s" and "\<And>t. slice_ok t \<Longrightarrow> slice_ok (f t)"
  shows "sched_inv (for_tasks f slots_down s)"
  using assms for_tasks_slot [OF assms(1)] by (auto simp: sched_inv_def)

lemma sched_inv_recharge: "sched_inv s \<Longrightarrow> sched_inv (recharge s)"
  unfolding recharge_def by (rule sched_inv_for_tasks) (auto intro: new_slice_ok)

lemma sched_inv_check_signals: "sched_inv s \<Longrightarrow> sched_inv (check_signals s)"
  unfolding check_signals_def
  by (rule sched_inv_for_tasks) (auto simp: slice_ok_def check_alarm_def Let_def)

lemma sched_inv_cong:
  "task s' = task s \<Longrightarrow> ts s' = ts s \<Longrightarrow> sched_inv s' = sched_inv s"
  by (simp add: sched_inv_def)

text \<open>The selection loop runs at most twice and ends with a best task, or with slot 0 when no task is
  ready.\<close>

lemma select_task_total:
  assumes inv: "sched_inv s"
  shows "\<exists>n s'. select_task s = Some (n, s') \<and> s' \<in> {s, recharge s} \<and>
    (if \<exists>i. 1 \<le> i \<and> i < NR_TASKS \<and> runnable s i then best s' n \<and> 0 < quantum s' n else n = 0)"
proof -
  obtain c n where p: "pick s slots_down (-1) 0 = (c, n)" by fastforce
  have nonneg: "0 \<le> quantum s i" if "1 \<le> i" "i < NR_TASKS" "runnable s i" for i
    using inv that by (auto simp: sched_inv_def slice_ok_def quantum_def runnable_def)
  show ?thesis
  proof (cases "c = 0")
    case False
    then have "select_task s = Some (n, s)" by (simp add: select_task.simps [of s] p)
    with pick_best [OF p] False nonneg show ?thesis
      by (fastforce simp: best_def)
  next
    case True
    obtain c' n' where p': "pick (recharge s) slots_down (-1) 0 = (c', n')" by fastforce
    from True pick_best [OF p] have b: "best s n" by auto
    then have n: "1 \<le> n" "n < NR_TASKS" "runnable s n" by (auto simp: best_def)
    then have r: "runnable (recharge s) n" using runnable_recharge [OF inv] by simp
    moreover from n have "0 < quantum (recharge s) n"
      using slice_recharge [OF inv] by (simp add: runnable_def)
    ultimately have b': "best (recharge s) n'" "quantum (recharge s) n' = c'" "0 < c'"
      using pick_best [OF p'] n by (auto simp: best_def)
    then have "select_task s = Some (n', recharge s)"
      by (simp add: select_task.simps [of s] select_task.simps [of "recharge s"] p p' True)
    with b' n show ?thesis by auto
  qed
qed

lemma schedule_parts:
  assumes "sched_inv s"
  shows "\<exists>n s'. schedule s = Some (switch_to n s') \<and> s' \<in> {check_signals s, recharge (check_signals s)} \<and>
    sched_inv (switch_to n s') \<and>
    (if \<exists>i. 1 \<le> i \<and> i < NR_TASKS \<and> runnable (check_signals s) i
     then best s' n \<and> 0 < quantum s' n else n = 0)"
proof -
  let ?c = "check_signals s"
  have inv: "sched_inv ?c" using assms by (rule sched_inv_check_signals)
  from select_task_total [OF inv] obtain n s' where sel: "select_task ?c = Some (n, s')"
    and s': "s' \<in> {?c, recharge ?c}"
    and b: "if \<exists>i. 1 \<le> i \<and> i < NR_TASKS \<and> runnable ?c i then best s' n \<and> 0 < quantum s' n else n = 0"
    by blast
  have "sched_inv s'" using s' inv sched_inv_recharge by auto
  moreover have "task (switch_to n s') = task s'" "ts (switch_to n s') = ts s'"
    by (auto simp: switch_to_def)
  ultimately have "sched_inv (switch_to n s')" using sched_inv_cong by blast
  moreover from sel have "schedule s = Some (switch_to n s')" by (simp add: schedule_def)
  ultimately show ?thesis using s' b by blast
qed

lemma schedule_inv: "sched_inv s \<Longrightarrow> \<exists>t. schedule s = Some t \<and> sched_inv t"
  using schedule_parts [of s] by blast

text \<open>
  C1: \<open>schedule()\<close> always returns. When some task other than task 0 is ready after the signal
  phase, it switches to a ready task whose time quantum is positive and largest, the highest slot
  winning a tie; only when no task is ready does it switch to task 0. Which tasks are ready and the
  bounds on time slices are kept.
\<close>

theorem schedule_best:
  assumes "sched_inv s"
  shows "\<exists>t. schedule s = Some t \<and> sched_inv t \<and>
    (\<forall>i. 1 \<le> i \<longrightarrow> i < NR_TASKS \<longrightarrow> runnable t i = runnable (check_signals s) i) \<and>
    (if \<exists>i. 1 \<le> i \<and> i < NR_TASKS \<and> runnable (check_signals s) i
     then \<exists>n. current t = task s n \<and> best t n \<and> 0 < quantum t n
     else current t = task s 0)"
proof -
  let ?c = "check_signals s"
  from schedule_parts [OF assms] obtain n s' where sw: "schedule s = Some (switch_to n s')"
    and s': "s' \<in> {?c, recharge ?c}" and inv': "sched_inv (switch_to n s')"
    and b: "if \<exists>i. 1 \<le> i \<and> i < NR_TASKS \<and> runnable ?c i then best s' n \<and> 0 < quantum s' n else n = 0"
    by blast
  have inv: "sched_inv ?c" using assms by (rule sched_inv_check_signals)
  have fields: "task (switch_to n s') = task s'" "ts (switch_to n s') = ts s'"
    "current (switch_to n s') = task s' n"
    by (auto simp: switch_to_def)
  have tsk: "task s' = task s" using s' by (auto simp: recharge_def check_signals_def)
  have same: "runnable (switch_to n s') i = runnable ?c i" if "1 \<le> i" "i < NR_TASKS" for i
    using s' runnable_recharge [OF inv that] by (auto simp: runnable_def fields)
  have "best (switch_to n s') m = best s' m" "quantum (switch_to n s') m = quantum s' m" for m
    by (auto simp: best_def runnable_def quantum_def fields)
  with sw inv' same b tsk fields(3) show ?thesis by (auto split: if_splits)
qed

text \<open>Two tasks: the idle task and a child in slot 1 that is ready to run.\<close>

lemma two_tasks_inv: "sched_inv two_tasks"
  by (auto simp: two_tasks_def sched_boot_def sched_inv_def slice_ok_def INIT_TASK_def inj_on_def
      split: if_splits)

theorem schedule_best_witness:
  "sched_inv two_tasks \<and> (\<exists>t. schedule two_tasks = Some t \<and> sched_inv t \<and> current t = 0x2000 \<and> 0 < quantum t 1)"
proof -
  have tsk: "task (check_signals two_tasks) = task two_tasks"
    by (simp add: check_signals_def)
  have run: "runnable (check_signals two_tasks) 1"
    using for_tasks_slot [OF two_tasks_inv, of 1]
    by (simp add: runnable_def check_signals_def check_alarm_def two_tasks_def sched_boot_def
        INIT_TASK_def NR_TASKS_def TASK_RUNNING_def)
  from schedule_best [OF two_tasks_inv] run obtain t n where
    t: "schedule two_tasks = Some t" "sched_inv t" and n: "current t = task two_tasks n" "best t n" "0 < quantum t n"
    and r: "\<forall>i. 1 \<le> i \<longrightarrow> i < NR_TASKS \<longrightarrow> runnable t i = runnable (check_signals two_tasks) i"
    by (auto simp: NR_TASKS_def split: if_splits)
  from n r have "runnable (check_signals two_tasks) n" "1 \<le> n" by (auto simp: best_def)
  then have "task two_tasks n \<noteq> 0" "1 \<le> n" by (simp_all add: runnable_def tsk)
  then have "n = 1" by (auto simp: two_tasks_def split: if_splits)
  with t n two_tasks_inv show ?thesis by (auto simp: two_tasks_def)
qed

section \<open>Time slices under the timer\<close>

lemma sched_inv_upd_cur:
  assumes "sched_inv s" and "\<And>t. slice_ok t \<Longrightarrow> slice_ok (f t)"
  shows "sched_inv (upd_cur f s)"
  using assms by (auto simp: sched_inv_def)

lemma sched_inv_call_schedule: "sched_inv s \<Longrightarrow> proceeds (call_schedule s) sched_inv"
  using schedule_inv [of s] by (auto simp: call_schedule_def)

text \<open>
  C2: the bound on time slices (0 up to twice the priority) survives every timer interrupt, from
  user or kernel mode, whether the current task keeps the processor or another task is chosen;
  the handler neither panics nor loops.
\<close>

theorem timer_keeps_slices:
  assumes "sched_inv s"
  shows "proceeds (timer_interrupt cs s) sched_inv"
proof -
  let ?s = "s\<lparr>jiffies := s32 (jiffies s + 1)\<rparr>"
  have dec: "slice_ok (t\<lparr>counter := if 0 < s32 (counter t - 1) then s32 (counter t - 1) else 0\<rparr>)"
    if "slice_ok t" for t
    using that s32_id [of "counter t - 1"] by (auto simp: slice_ok_def)
  have clock: "slice_ok (f t) = slice_ok t" if "\<And>t. priority (f t) = priority t" "\<And>t. counter (f t) = counter t" for f t
    using that by (simp add: slice_ok_def)
  have inv0: "sched_inv ?s" using assms sched_inv_cong [of ?s s] by simp
  define s1 where "s1 = (if cs mod 4 \<noteq> 0 then upd_cur (\<lambda>t. t\<lparr>utime := s32 (utime t + 1)\<rparr>) ?s
             else upd_cur (\<lambda>t. t\<lparr>stime := s32 (stime t + 1)\<rparr>) ?s)"
  define s2 where "s2 = upd_cur (\<lambda>t. t\<lparr>counter := s32 (counter t - 1)\<rparr>) s1"
  define s3 where "s3 = upd_cur (\<lambda>t. t\<lparr>counter := 0\<rparr>) s2"
  let ?d = "upd_cur (\<lambda>t. t\<lparr>counter := if 0 < s32 (counter t - 1) then s32 (counter t - 1) else 0\<rparr>) s1"
  have tick: "timer_interrupt cs s = (if current s = 0 then Ok () ?s
      else if counter (cur s2) > 0 then Ok () s2 else if cs mod 4 = 0 then Ok () s3 else call_schedule s3)"
    unfolding timer_interrupt_def do_timer_def Let_def s1_def s2_def s3_def by simp
  have "sched_inv s1"
    using inv0 unfolding s1_def by (auto intro!: sched_inv_upd_cur simp: clock)
  then have invd: "sched_inv ?d" using dec by (rule sched_inv_upd_cur)
  have "counter (cur s2) > 0 \<Longrightarrow> sched_inv s2"
    using invd sched_inv_cong [of s2 ?d] by (simp add: cur_def s2_def)
  moreover have "\<not> counter (cur s2) > 0 \<Longrightarrow> sched_inv s3"
    using invd sched_inv_cong [of s3 ?d] by (simp add: cur_def s2_def s3_def)
  ultimately show ?thesis using inv0 sched_inv_call_schedule [of s3] by (simp add: tick)
qed

theorem timer_keeps_slices_witness: "sched_inv two_tasks \<and> proceeds (timer_interrupt 15 two_tasks) sched_inv"
  using two_tasks_inv timer_keeps_slices [of two_tasks 15] by simp

section \<open>Lazy switching of the coprocessor\<close>

text \<open>
  C3: \<open>math_state_restore\<close> gives the coprocessor to the current task without losing a context: it
  returns, the current task owns the registers, they hold the context it had before (or a fresh one
  on its first use), and the context of every other task is unchanged.
\<close>

theorem math_restore_contexts:
  assumes "current s \<noteq> 0"
  shows "\<exists>t. math_state_restore s = Ok () t \<and> last_task_used_math t = current s \<and> current t = current s \<and>
    fpu t = (if used_math (cur s) \<noteq> 0 \<or> last_task_used_math s = current s
             then math_context s (current s) else Fpu_init) \<and>
    (\<forall>p. p \<noteq> 0 \<longrightarrow> p \<noteq> current s \<longrightarrow> math_context t p = math_context s p)"
  using assms
  by (auto simp: math_state_restore_def math_context_def cur_def Let_def)

theorem math_restore_contexts_witness:
  "current two_tasks \<noteq> 0 \<and>
   (\<exists>t. math_state_restore two_tasks = Ok () t \<and> fpu t = Fpu_init \<and> last_task_used_math t = 0x1000)"
proof -
  have c: "current two_tasks \<noteq> 0" by (simp add: two_tasks_def sched_boot_def)
  from math_restore_contexts [OF c] show ?thesis
    by (auto simp: two_tasks_def sched_boot_def cur_def INIT_TASK_def)
qed

section \<open>No lost wake-ups\<close>

inductive_cases wq_stepE: "wq_step s t"

lemma linked_cong: "(\<And>x. x \<in> set xs \<Longrightarrow> fr x = gr x) \<Longrightarrow> linked fr xs = linked gr xs"
  by (induction xs) auto

lemma linked_upd [simp]: "x \<notin> set xs \<Longrightarrow> linked (fr(x := v)) xs = linked fr xs"
  by (rule linked_cong) auto

lemma wq_chains_start: "wq s = 0 \<Longrightarrow> frames s = (\<lambda>_. None) \<Longrightarrow> wq_chains s [] []"
  by (simp add: wq_chains_def)

lemma woken_chain_cong:
  assumes "\<And>p. p \<in> set c \<Longrightarrow> frames t p = frames s p" and "\<And>p. p \<in> set c \<Longrightarrow> ts t p = ts s p"
  shows "woken_chain t c = woken_chain s c"
  using assms linked_cong [of c "frames t" "frames s"]
  by (cases c) (auto simp: woken_chain_def asleep_def)

lemma wq_chains_sleep:
  assumes ch: "wq_chains s m cs" and new: "frames s (current s) = None" "current s \<noteq> 0"
    and en: "sleep_on_enter the_queue s = Ok (Some tmp) s'"
  shows "wq_chains (s'\<lparr>frames := (frames s)(current s \<mapsto> tmp)\<rparr>) (current s # m) cs"
proof -
  let ?t = "s'\<lparr>frames := (frames s)(current s \<mapsto> tmp)\<rparr>"
  from en have t: "tmp = wq s" "wq ?t = current s" "frames ?t = (frames s)(current s \<mapsto> tmp)"
    "ts ?t = (ts s)(current s := (ts s (current s))\<lparr>state := TASK_UNINTERRUPTIBLE\<rparr>)"
    by (auto simp: sleep_on_enter_def sleep_enter_def the_queue_def upd_cur_def upd_task_def split: if_splits)
  have out: "current s \<notin> set m" "\<And>c. c \<in> set cs \<Longrightarrow> current s \<notin> set c"
    using ch new unfolding wq_chains_def by blast+
  have "linked (frames ?t) m"
    using ch out(1) unfolding wq_chains_def t by simp
  moreover have "woken_chain ?t c" if "c \<in> set cs" for c
  proof -
    have "current s \<notin> set c" using out that by blast
    then have "woken_chain ?t c = woken_chain s c"
      using t by (intro woken_chain_cong) auto
    with ch that show ?thesis by (simp add: wq_chains_def)
  qed
  moreover have "\<forall>p\<in>set (current s # m). asleep ?t p"
    using ch t out by (auto simp: wq_chains_def asleep_def)
  ultimately show ?thesis
    using ch t out new unfolding wq_chains_def by (auto split: list.splits)
qed

lemma wq_chains_wake:
  assumes ch: "wq_chains s m cs"
  shows "wq_chains (wake_up the_queue s) [] (if m = [] then cs else m # cs)"
proof (cases m)
  case Nil
  with ch have "wake_up the_queue s = s" by (simp add: wq_chains_def wake_up_def the_queue_def)
  with ch Nil show ?thesis by simp
next
  case (Cons x xs)
  let ?t = "wake_up the_queue s"
  from ch Cons have x: "wq s = x" "x \<noteq> 0" "x \<notin> set xs" "\<And>c. c \<in> set cs \<Longrightarrow> x \<notin> set c"
    by (auto simp: wq_chains_def gr0_conv_Suc) (metis not0_implies_Suc option.distinct(1))+
  then have t: "wq ?t = 0" "frames ?t = frames s"
    "ts ?t = (ts s)(x := (ts s x)\<lparr>state := TASK_RUNNING\<rparr>)"
    by (auto simp: wake_up_def the_queue_def upd_task_def)
  have "woken_chain ?t (x # xs)"
    using ch Cons t x by (auto simp: wq_chains_def woken_chain_def asleep_def)
  moreover have "woken_chain ?t c" if "c \<in> set cs" for c
  proof -
    have "woken_chain ?t c = woken_chain s c"
      using t x(4) [OF that] by (intro woken_chain_cong) auto
    with ch that show ?thesis by (simp add: wq_chains_def)
  qed
  ultimately show ?thesis using ch Cons t by (auto simp: wq_chains_def)
qed

lemma wq_chains_switch: "wq_chains s m cs \<Longrightarrow> wq_chains (s\<lparr>current := p\<rparr>) m cs"
  by (simp add: wq_chains_def asleep_def woken_chain_def)

lemma wq_chains_leave:
  assumes ch: "wq_chains s m cs" and fr: "frames s (current s) = Some tmp"
    and run: "state (cur s) = TASK_RUNNING"
  shows "\<exists>cs'. wq_chains ((sleep_on_leave tmp s)\<lparr>frames := (frames s)(current s := None)\<rparr>) m cs'"
proof -
  let ?c = "current s" and ?t = "(sleep_on_leave tmp s)\<lparr>frames := (frames s)(current s := None)\<rparr>"
  have awake: "\<not> asleep s ?c" using run by (simp add: asleep_def cur_def task_state_defs)
  from ch fr awake obtain c where c: "c \<in> set cs" "?c \<in> set c" unfolding wq_chains_def by blast
  with ch have "woken_chain s c" by (simp add: wq_chains_def)
  then obtain x rest where xr: "c = x # rest" "\<forall>p\<in>set rest. asleep s p"
    by (auto simp: woken_chain_def neq_Nil_conv)
  with c(2) awake have c_eq: "c = ?c # rest" by auto
  from c(1) obtain A B where cs: "cs = A @ c # B" by (meson split_list)
  from \<open>woken_chain s c\<close> c_eq fr have tmp: "tmp = (case rest of [] \<Rightarrow> 0 | y # _ \<Rightarrow> y)"
    and rest: "linked (frames s) rest" "\<forall>p\<in>set rest. asleep s p"
    by (auto simp: woken_chain_def)
  have dist: "distinct (m @ concat cs)" and zero: "frames s 0 = None"
    and dom: "\<And>p. frames s p \<noteq> None \<longleftrightarrow> p \<in> set m \<or> (\<exists>c\<in>set cs. p \<in> set c)"
    and ws: "\<And>c. c \<in> set cs \<Longrightarrow> woken_chain s c"
    using ch unfolding wq_chains_def by blast+
  have t: "frames ?t = (frames s)(?c := None)" "wq ?t = wq s"
    "ts ?t = (if tmp = 0 then ts s else (ts s)(tmp := (ts s tmp)\<lparr>state := TASK_RUNNING\<rparr>))"
    by (simp_all add: sleep_on_leave_def upd_task_def)
  have tmp_in: "tmp \<noteq> 0 \<Longrightarrow> tmp \<in> set rest" using tmp by (cases rest) auto
  have rest0: "0 \<notin> set rest" using dom [of 0] zero c(1) c_eq by auto
  have other: "woken_chain ?t d = woken_chain s d" if "d \<in> set A \<union> set B" for d
  proof -
    have "set d \<inter> set c = {}" using dist that cs by auto
    with tmp_in c_eq t show ?thesis by (intro woken_chain_cong) (auto split: if_splits)
  qed
  have restw: "rest \<noteq> [] \<Longrightarrow> woken_chain ?t rest"
    using rest rest0 tmp dist cs c_eq t
    by (cases rest) (auto simp: woken_chain_def asleep_def)
  have mok: "linked (frames ?t) m" "\<forall>p\<in>set m. asleep ?t p"
    using ch dist cs c_eq t tmp_in unfolding wq_chains_def by (auto simp: asleep_def)
  let ?cs = "A @ (if rest = [] then [] else [rest]) @ B"
  have "\<forall>d\<in>set ?cs. woken_chain ?t d" using other restw ws cs by auto
  moreover have "distinct (m @ concat ?cs)" using dist cs c_eq by auto
  moreover have "\<forall>p. frames ?t p \<noteq> None \<longleftrightarrow> p \<in> set m \<or> (\<exists>c\<in>set ?cs. p \<in> set c)"
  proof
    fix p
    show "frames ?t p \<noteq> None \<longleftrightarrow> p \<in> set m \<or> (\<exists>c\<in>set ?cs. p \<in> set c)"
    proof (cases "p = ?c")
      case True
      with dist cs c_eq t show ?thesis by auto
    next
      case False
      with t have "frames ?t p = frames s p" by simp
      moreover have "(\<exists>c\<in>set cs. p \<in> set c) = (\<exists>c\<in>set ?cs. p \<in> set c)"
        using False cs c_eq by auto
      ultimately show ?thesis using dom [of p] by simp
    qed
  qed
  moreover have "frames ?t 0 = None" using zero t by simp
  ultimately have "wq_chains ?t m ?cs" using ch mok t unfolding wq_chains_def by metis
  then show ?thesis by blast
qed

lemma wq_reach_chains: "wq_reach s \<Longrightarrow> \<exists>m cs. wq_chains s m cs"
proof (induction rule: wq_reach.induct)
  case (start s)
  then show ?case using wq_chains_start by blast
next
  case (step s t)
  then obtain m cs where ch: "wq_chains s m cs" by blast
  from step.hyps(2) show ?case
  proof (cases rule: wq_step.cases)
    case (sleep tmp s')
    then show ?thesis using wq_chains_sleep [OF ch] by blast
  next
    case wake
    then show ?thesis using wq_chains_wake [OF ch] by blast
  next
    case (leave tmp)
    then show ?thesis using wq_chains_leave [OF ch] by blast
  next
    case (switch p)
    then show ?thesis using wq_chains_switch [OF ch] by blast
  qed
qed

text \<open>
  C4: no wake-up is lost. In every state the wait-queue machine can reach, every task inside
  \<open>sleep_on\<close> is on the queue the next \<open>wake_up\<close> serves, or behind a task that has been woken and
  will wake it when it runs. In particular, when the queue is empty and some task is still
  inside \<open>sleep_on\<close>, then some task inside \<open>sleep_on\<close> is runnable: the sleepers cannot all be stuck.
\<close>

theorem no_lost_wakeup:
  assumes "wq_reach s" and "wq s = 0" and "frames s p \<noteq> None"
  shows "\<exists>c. woken_chain s c \<and> p \<in> set c \<and> frames s (hd c) \<noteq> None \<and> state (ts s (hd c)) = TASK_RUNNING"
proof -
  from wq_reach_chains [OF assms(1)] obtain m cs where ch: "wq_chains s m cs" by blast
  have "m = []" using ch assms(2) unfolding wq_chains_def
    by (cases m) auto
  with ch assms(3) obtain c where c: "c \<in> set cs" "p \<in> set c" unfolding wq_chains_def by auto
  with ch have w: "woken_chain s c" by (simp add: wq_chains_def)
  then have "hd c \<in> set c" by (simp add: woken_chain_def)
  with ch c have "frames s (hd c) \<noteq> None" unfolding wq_chains_def by blast
  with w c show ?thesis by (auto simp: woken_chain_def)
qed

text \<open>Task \<open>0x2000\<close> goes to sleep and is woken: the queue is empty and it is still inside \<open>sleep_on\<close>.\<close>

theorem no_lost_wakeup_witness:
  "\<exists>s. wq_reach s \<and> wq s = 0 \<and> frames s 0x2000 = Some 0 \<and>
     (\<exists>c. woken_chain s c \<and> 0x2000 \<in> set c \<and> frames s (hd c) \<noteq> None \<and> state (ts s (hd c)) = TASK_RUNNING)"
proof -
  let ?s0 = "sched_st.extend (two_tasks\<lparr>current := 0x2000\<rparr>) \<lparr>wq = 0, frames = (\<lambda>_. None)\<rparr>"
  let ?s1 = "(upd_cur (\<lambda>t. t\<lparr>state := TASK_UNINTERRUPTIBLE\<rparr>) (?s0\<lparr>wq := 0x2000\<rparr>))
    \<lparr>frames := (\<lambda>_. None)(0x2000 \<mapsto> 0)\<rparr>"
  let ?s2 = "wake_up the_queue ?s1"
  have f0: "current ?s0 = 0x2000" "wq ?s0 = 0" "frames ?s0 = (\<lambda>_. None)" "init_task ?s0 = 0x1000"
    by (simp_all add: sched_st.extend_def two_tasks_def sched_boot_def)
  have "sleep_on_enter the_queue ?s0
      = Ok (Some 0) (upd_cur (\<lambda>t. t\<lparr>state := TASK_UNINTERRUPTIBLE\<rparr>) (?s0\<lparr>wq := 0x2000\<rparr>))"
    using f0 by (simp add: sleep_on_enter_def sleep_enter_def the_queue_def)
  from wq_step.sleep [OF _ _ this] f0 have "wq_step ?s0 ?s1" by simp
  with f0 have r1: "wq_reach ?s1" by (blast intro: wq_reach.intros)
  then have r2: "wq_reach ?s2" by (blast intro: wq_reach.intros wq_step.wake)
  have "wq ?s2 = 0" "frames ?s2 0x2000 = Some 0"
    by (simp_all add: wake_up_def the_queue_def upd_task_def upd_cur_def)
  with no_lost_wakeup [OF r2, where p = "0x2000"] r2 show ?thesis by (intro exI [of _ ?s2]) simp
qed

end
