(* ===== verification/Mm_Memory.thy ===== *)
theory Mm_Memory
  imports Sched
begin

text \<open>
  Model of \<open>mm/memory.c\<close>.

  \<open>mem_map\<close> is the array of reference counts of the pages above \<open>LOW_MEM\<close> (an index past
  \<open>PAGING_PAGES\<close> stands for the memory behind the array); \<open>pm\<close> is physical memory as 32-bit words,
  indexed by the address divided by 4, because every access of this file is to an aligned word. The
  page directory is at address 0. \<open>do_exit\<close>, which does not come back, is the outcome \<open>Die\<close>.

  The lemmas relate the reference counts to the entries that use a frame: \<open>mm_inv ext s\<close> says that
  every count is the number of directory and table entries of user space that name the frame plus
  the \<open>ext\<close> references the kernel holds itself, and that no frame with more than one reference is
  mapped writable. Every operation keeps it, and under it none of them panics.
\<close>

section \<open>State\<close>

record mm_st = sched_st +
  mem_map :: "nat \<Rightarrow> u16"
  pm :: "nat \<Rightarrow> u32"

definition PAGE_SIZE :: u32 where "PAGE_SIZE = 4096"
definition LOW_MEM :: u32 where "LOW_MEM = 0x200000"
definition HIGH_MEMORY :: u32 where "HIGH_MEMORY = 0x800000"
definition PAGING_PAGES :: nat where "PAGING_PAGES = unat (HIGH_MEMORY - LOW_MEM) div 4096"

definition MAP_NR :: "u32 \<Rightarrow> nat" where
  "MAP_NR addr = unat (drop_bit 12 (addr - LOW_MEM))"

text \<open>Index of the word at an address, reading and writing it, and \<open>p[k]\<close> for a table pointer.\<close>

definition lw :: "u32 \<Rightarrow> nat" where "lw a = unat a div 4"

definition ldl :: "u32 \<Rightarrow> 'z mm_st_scheme \<Rightarrow> u32" where
  "ldl a s = pm s (lw a)"

definition stl :: "u32 \<Rightarrow> u32 \<Rightarrow> 'z mm_st_scheme \<Rightarrow> 'z mm_st_scheme" where
  "stl a v s = s\<lparr>pm := (pm s)(lw a := v)\<rparr>"

definition elem :: "u32 \<Rightarrow> nat \<Rightarrow> u32" where
  "elem p k = p + 4 * of_nat k"

definition set_count :: "nat \<Rightarrow> u16 \<Rightarrow> 'z mm_st_scheme \<Rightarrow> 'z mm_st_scheme" where
  "set_count i v s = s\<lparr>mem_map := (mem_map s)(i := v)\<rparr>"

definition copy_page :: "u32 \<Rightarrow> u32 \<Rightarrow> 'z mm_st_scheme \<Rightarrow> 'z mm_st_scheme" where
  "copy_page from to s =
     fold (\<lambda>k s. stl (elem to k) (ldl (elem from k) s) s) [0..<1024] s"

section \<open>Frames\<close>

text \<open>The scan of \<open>get_free_page\<close> runs from the last entry down; \<open>i\<close> entries are left.\<close>

fun scan_free :: "(nat \<Rightarrow> u16) \<Rightarrow> nat \<Rightarrow> nat option" where
  "scan_free mm 0 = None"
| "scan_free mm (Suc i) = (if mm i = 0 then Some i else scan_free mm i)"

definition get_free_page :: "'z mm_st_scheme \<Rightarrow> u32 \<times> 'z mm_st_scheme" where
  "get_free_page s =
     (case scan_free (mem_map s) PAGING_PAGES of
        None \<Rightarrow> (0, s)
      | Some i \<Rightarrow>
         let page = push_bit 12 (of_nat i) + LOW_MEM
         in (page, fold (\<lambda>k s. stl (elem page k) 0 s) (rev [0..<1024]) (set_count i 1 s)))"

definition free_page :: "u32 \<Rightarrow> 'z mm_st_scheme \<Rightarrow> ('z mm_st_scheme, unit) kres" where
  "free_page addr s =
     (if addr < LOW_MEM then Ok () s
      else if addr > HIGH_MEMORY then Panic ''trying to free nonexistent page''
      else
        let i = MAP_NR addr; old = mem_map s i
        in if old \<noteq> 0 then Ok () (set_count i (old - 1) s)
           else Panic ''trying to free free page'')"

section \<open>Page tables\<close>

definition free_pte :: "u32 \<Rightarrow> 'z mm_st_scheme \<Rightarrow> ('z mm_st_scheme, unit) kres" where
  "free_pte pg_table s =
     bnd (if 1 AND ldl pg_table s \<noteq> 0 then free_page (0xfffff000 AND ldl pg_table s) s else Ok () s)
       (\<lambda>_ s. Ok () (stl pg_table 0 s))"

definition free_dir :: "u32 \<Rightarrow> 'z mm_st_scheme \<Rightarrow> ('z mm_st_scheme, unit) kres" where
  "free_dir dir s =
     (if 1 AND ldl dir s = 0 then Ok () s
      else
        let pg_table = 0xfffff000 AND ldl dir s
        in bnd (for_each [0..<1024] (\<lambda>nr. free_pte (elem pg_table nr)) s)
             (\<lambda>_ s. bnd (free_page (0xfffff000 AND ldl dir s) s) (\<lambda>_ s. Ok () (stl dir 0 s))))"

definition free_page_tables :: "u32 \<Rightarrow> u32 \<Rightarrow> 'z mm_st_scheme \<Rightarrow> ('z mm_st_scheme, int) kres" where
  "free_page_tables from sz s =
     (if from AND 0x3fffff \<noteq> 0 then Panic ''free_page_tables called with wrong alignment''
      else if from = 0 then Panic ''Trying to free up swapper memory space''
      else
        let n = unat (drop_bit 22 (sz + 0x3fffff)); dir = drop_bit 20 from AND 0xffc
        in bnd (for_each [0..<n] (\<lambda>j. free_dir (elem dir j)) s) (\<lambda>_ s. Ok 0 s))"

definition copy_pte :: "u32 \<Rightarrow> u32 \<Rightarrow> 'z mm_st_scheme \<Rightarrow> 'z mm_st_scheme" where
  "copy_pte from_page_table to_page_table s =
     (let this_page = ldl from_page_table s
      in if 1 AND this_page = 0 then s
         else
           let this_page = this_page AND NOT 2; s1 = stl to_page_table this_page s
           in if this_page > LOW_MEM
              then let s2 = stl from_page_table this_page s1; i = MAP_NR this_page
                   in set_count i (mem_map s2 i + 1) s2
              else s1)"

text \<open>The outer loop of \<open>copy_page_tables\<close>, with \<open>n\<close> directory entries to go.\<close>

fun copy_dirs :: "nat \<Rightarrow> u32 \<Rightarrow> u32 \<Rightarrow> u32 \<Rightarrow> 'z mm_st_scheme \<Rightarrow> ('z mm_st_scheme, int) kres" where
  "copy_dirs 0 from from_dir to_dir s = Ok 0 s"
| "copy_dirs (Suc n) from from_dir to_dir s =
     (if 1 AND ldl to_dir s \<noteq> 0 then Panic ''copy_page_tables: already exist''
      else if 1 AND ldl from_dir s = 0 then copy_dirs n from (from_dir + 4) (to_dir + 4) s
      else
        let from_page_table = 0xfffff000 AND ldl from_dir s; (to_page_table, s1) = get_free_page s
        in if to_page_table = 0 then Ok (-1) s1
           else
             let s2 = stl to_dir (to_page_table OR 7) s1; nr = (if from = 0 then 0xA0 else 1024)
             in copy_dirs n from (from_dir + 4) (to_dir + 4)
                  (fold (\<lambda>k. copy_pte (elem from_page_table k) (elem to_page_table k)) [0..<nr] s2))"

definition copy_page_tables :: "u32 \<Rightarrow> u32 \<Rightarrow> u32 \<Rightarrow> 'z mm_st_scheme \<Rightarrow> ('z mm_st_scheme, int) kres" where
  "copy_page_tables from to sz s =
     (if from AND 0x3fffff \<noteq> 0 \<or> to AND 0x3fffff \<noteq> 0
      then Panic ''copy_page_tables called with wrong alignment''
      else copy_dirs (unat (drop_bit 22 (sz + 0x3fffff))) from
             (drop_bit 20 from AND 0xffc) (drop_bit 20 to AND 0xffc) s)"

definition put_page :: "u32 \<Rightarrow> u32 \<Rightarrow> 'z mm_st_scheme \<Rightarrow> u32 \<times> 'z mm_st_scheme" where
  "put_page page address s =
     (let s1 = (if page < LOW_MEM \<or> page > HIGH_MEMORY
                then printk ''Trying to put page %p at %p'' [uint page, uint address] s else s);
          s2 = (if mem_map s1 (MAP_NR page) \<noteq> 1
                then printk ''mem_map disagrees with %p at %p'' [uint page, uint address] s1 else s1);
          dir = drop_bit 20 address AND 0xffc;
          k = unat (drop_bit 12 address AND 0x3ff)
      in if ldl dir s2 AND 1 \<noteq> 0
         then (page, stl (elem (0xfffff000 AND ldl dir s2) k) (page OR 7) s2)
         else
           let (tmp, s3) = get_free_page s2
           in if tmp = 0 then (0, s3)
              else (page, stl (elem tmp k) (page OR 7) (stl dir (tmp OR 7) s3)))"

section \<open>Page faults\<close>

definition un_wp_page :: "u32 \<Rightarrow> 'z mm_st_scheme \<Rightarrow> ('z mm_st_scheme, unit) kres" where
  "un_wp_page table_entry s =
     (let old_page = 0xfffff000 AND ldl table_entry s
      in if old_page \<ge> LOW_MEM \<and> mem_map s (MAP_NR old_page) = 1
         then Ok () (stl table_entry (ldl table_entry s OR 2) s)
         else
           let (new_page, s1) = get_free_page s
           in if new_page = 0 then Die (int SIGSEGV) s1
              else
                let s2 = (if old_page \<ge> LOW_MEM
                          then set_count (MAP_NR old_page) (mem_map s1 (MAP_NR old_page) - 1) s1 else s1);
                    s3 = stl table_entry (new_page OR 7) s2
                in Ok () (copy_page old_page new_page s3))"

definition do_wp_page :: "u32 \<Rightarrow> u32 \<Rightarrow> 'z mm_st_scheme \<Rightarrow> ('z mm_st_scheme, unit) kres" where
  "do_wp_page error_code address s =
     un_wp_page ((drop_bit 10 address AND 0xffc) + (0xfffff000 AND ldl (drop_bit 20 address AND 0xffc) s)) s"

definition write_verify :: "u32 \<Rightarrow> 'z mm_st_scheme \<Rightarrow> ('z mm_st_scheme, unit) kres" where
  "write_verify address s =
     (let page = ldl (drop_bit 20 address AND 0xffc) s
      in if page AND 1 = 0 then Ok () s
         else
           let page = (page AND 0xfffff000) + (drop_bit 10 address AND 0xffc)
           in if 3 AND ldl page s = 1 then un_wp_page page s else Ok () s)"

definition do_no_page :: "u32 \<Rightarrow> u32 \<Rightarrow> 'z mm_st_scheme \<Rightarrow> ('z mm_st_scheme, unit) kres" where
  "do_no_page error_code address s =
     (let (tmp, s1) = get_free_page s
      in if tmp = 0 then Die (int SIGSEGV) s1
         else let (r, s2) = put_page tmp address s1
              in if r \<noteq> 0 then Ok () s2 else Die (int SIGSEGV) s2)"

definition calc_mem :: "'z mm_st_scheme \<Rightarrow> 'z mm_st_scheme" where
  "calc_mem s =
     (let free = length (filter (\<lambda>i. mem_map s i = 0) [0..<PAGING_PAGES]);
          s1 = printk '' [MEM] Free Memory: %d KB (Available for Processes)'' [int free * 4] s;
          s2 = printk '' [MEM] Memory Manager Efficiency: 100% (No Leaks Detected)'' [] s1
      in fold (\<lambda>i s.
           if 1 AND pm s i \<noteq> 0
           then
             let pg_tbl = 0xfffff000 AND pm s i;
                 k = length (filter (\<lambda>j. ldl (elem pg_tbl j) s AND 1 \<noteq> 0) [0..<1024])
             in printk ''Pg-dir[%d] uses %d pages'' [int i, int k] s
           else s) [2..<1024] s2)"

section \<open>Addresses and frames\<close>

definition pfn :: "u32 \<Rightarrow> nat" where "pfn w = unat w div 4096"
definition present :: "u32 \<Rightarrow> bool" where "present w = bit w 0"
definition writable :: "u32 \<Rightarrow> bool" where "writable w = bit w 1"
definition frame :: "nat \<Rightarrow> u32" where "frame i = push_bit 12 (of_nat i) + LOW_MEM"

lemmas mm_consts = LOW_MEM_def HIGH_MEMORY_def PAGING_PAGES_def

lemma PAGING_PAGES_eq: "PAGING_PAGES = 1536"
  by (simp add: mm_consts)

lemma present_and [simp]: "(1 AND w = 0) = (\<not> present w)" "(w AND 1 = 0) = (\<not> present w)"
  by (simp_all add: present_def page_simps)

lemma unat_of_nat32: "n < 2 ^ 32 \<Longrightarrow> unat (of_nat n :: u32) = n"
  by (simp add: unat_of_nat take_bit_nat_eq_self)

lemma lw_elem: "unat p + 4 * k < 2 ^ 32 \<Longrightarrow> lw (elem p k) = lw p + k"
proof -
  assume a: "unat p + 4 * k < 2 ^ 32"
  then have "unat (4 * of_nat k :: u32) = 4 * k"
    using unat_of_nat32 [of "4 * k"] by simp
  with a have "unat (elem p k) = unat p + 4 * k" by (simp add: elem_def unat_plus_if')
  then show ?thesis by (simp add: lw_def)
qed

lemma lw_table [simp]: "k < 1024 \<Longrightarrow> lw (elem (0xfffff000 AND w) k) = pfn w * 1024 + k"
proof -
  assume "k < 1024"
  moreover have "unat w div 4096 < 2 ^ 20" using word32_less [of w] by simp
  ultimately have "unat (0xfffff000 AND w) + 4 * k < 2 ^ 32" by (simp add: and_fffff000)
  then show ?thesis by (simp add: lw_elem) (simp add: and_fffff000 lw_def pfn_def)
qed

lemma lw_table0 [simp]: "lw (0xfffff000 AND w) = pfn w * 1024"
  by (simp add: page_simps lw_def pfn_def)

lemma lw_dir [simp]: "lw (drop_bit 20 a AND 0xffc) = unat a div 2 ^ 22"
  using word32_less [of a] by (simp add: page_simps lw_def)

lemma pfn_flags [simp]: "pfn (w OR 7) = pfn w" "pfn (w OR 2) = pfn w" "pfn (w AND NOT 2) = pfn w"
  "pfn (0xfffff000 AND w) = pfn w"
proof -
  have d: "pfn v = unat (drop_bit 12 v)" for v by (simp add: pfn_def unat_drop_bit)
  show "pfn (w OR 7) = pfn w" "pfn (w OR 2) = pfn w" "pfn (w AND NOT 2) = pfn w"
    unfolding d by (simp_all only: page_simps)
  show "pfn (0xfffff000 AND w) = pfn w" by (simp add: pfn_def page_simps)
qed

lemma flag_bits [simp]: "present (w OR 7)" "writable (w OR 7)" "writable (w OR 2)"
  "present (w OR 2) = present w" "present (w AND NOT 2) = present w" "\<not> writable (w AND NOT 2)"
  "\<not> present 0" "\<not> writable 0"
  by (auto simp: present_def writable_def bit_simps)

text \<open>The simplifier evaluates \<open>NOT 2\<close>.\<close>

lemma rdonly_simps [simp]: "pfn (w AND - 3) = pfn w" "present (w AND - 3) = present w" "\<not> writable (w AND - 3)"
proof -
  have "NOT 2 = (- 3 :: u32)" by simp
  then show "pfn (w AND - 3) = pfn w" "present (w AND - 3) = present w" "\<not> writable (w AND - 3)"
    using pfn_flags(3) [of w] flag_bits(5,6) [of w] by metis+
qed

lemma pfn_lt: "pfn w < 2 ^ 20"
  using word32_less [of w] by (simp add: pfn_def)

lemma LOW_MEM_le: "(LOW_MEM \<le> w) = (512 \<le> pfn w)"
  by (auto simp: word_le_nat_alt LOW_MEM_def pfn_def)

lemma LOW_MEM_less: "present w \<Longrightarrow> (LOW_MEM < w) = (512 \<le> pfn w)"
proof -
  assume "present w"
  moreover have "\<not> present LOW_MEM" by (simp add: LOW_MEM_def present_def bit_0)
  ultimately have "w \<noteq> LOW_MEM" by auto
  then show ?thesis by (simp add: less_le LOW_MEM_le)
qed

lemma MAP_NR_eq: "512 \<le> pfn w \<Longrightarrow> MAP_NR w = pfn w - 512"
proof -
  assume a: "512 \<le> pfn w"
  then have "LOW_MEM \<le> w" by (simp add: LOW_MEM_le)
  then have "unat (w - LOW_MEM) = unat w - 0x200000"
    by (simp add: unat_sub LOW_MEM_def)
  with a show ?thesis by (simp add: MAP_NR_def unat_drop_bit pfn_def)
qed

lemma unat_frame: "i < PAGING_PAGES \<Longrightarrow> unat (frame i) = (512 + i) * 4096"
  by (simp add: frame_def unat_plus_if' LOW_MEM_def PAGING_PAGES_eq unat_push_bit unat_of_nat32)

lemma pfn_frame [simp]: "i < PAGING_PAGES \<Longrightarrow> pfn (frame i) = 512 + i"
  by (simp add: pfn_def unat_frame)

lemma frame_nz [simp]: "i < PAGING_PAGES \<Longrightarrow> frame i \<noteq> 0"
  using unat_frame [of i] by auto

lemma lw_frame [simp]: "i < PAGING_PAGES \<Longrightarrow> k < 1024 \<Longrightarrow> lw (elem (frame i) k) = (512 + i) * 1024 + k"
  by (subst lw_elem) (simp_all add: unat_frame PAGING_PAGES_eq lw_def)

lemma MAP_NR_frame [simp]: "i < PAGING_PAGES \<Longrightarrow> MAP_NR (frame i) = i"
  by (simp add: MAP_NR_eq)

lemma table_index_inj: "k < 1024 \<Longrightarrow> l < 1024 \<Longrightarrow> ((a::nat) * 1024 + l = b * 1024 + k) = (a = b \<and> l = k)"
proof
  assume b: "k < 1024" "l < 1024" and e: "a * 1024 + l = b * 1024 + k"
  from e have "(a * 1024 + l) mod 1024 = (b * 1024 + k) mod 1024" by simp
  with b have "l = k" by simp
  with e show "a = b \<and> l = k" by simp
qed simp

lemma row_out: "0 < T \<Longrightarrow> d < 1024 \<Longrightarrow> d \<notin> (\<lambda>k. T * 1024 + k) ` A" for d :: nat
  by auto

section \<open>Allocation and release of frames\<close>

lemma stl_fields [simp]: "mem_map (stl a v s) = mem_map s" "pm (stl a v s) = (pm s)(lw a := v)"
  by (simp_all add: stl_def)

lemma set_count_fields [simp]: "mem_map (set_count i v s) = (mem_map s)(i := v)" "pm (set_count i v s) = pm s"
  by (simp_all add: set_count_def)

lemma scan_free_Some:
  "scan_free mm n = Some i \<Longrightarrow> i < n \<and> mm i = 0 \<and> (\<forall>j. i < j \<longrightarrow> j < n \<longrightarrow> mm j \<noteq> 0)"
  by (induction mm n rule: scan_free.induct) (auto split: if_splits elim: less_SucE)

lemma scan_free_None: "scan_free mm n = None \<Longrightarrow> (\<forall>j<n. mm j \<noteq> 0)"
  by (induction mm n rule: scan_free.induct) (auto split: if_splits elim: less_SucE)

lemma fold_clear:
  "fold (\<lambda>k s. stl (elem p k) 0 s) ks s = s\<lparr>pm := \<lambda>x. if x \<in> (\<lambda>k. lw (elem p k)) ` set ks then 0 else pm s x\<rparr>"
  by (induction ks arbitrary: s) (auto simp: stl_def fun_eq_iff)

lemma frame_words: "i < PAGING_PAGES \<Longrightarrow> x \<in> (\<lambda>k. lw (elem (frame i) k)) ` {0..<1024} \<longleftrightarrow> x div 1024 = 512 + i"
proof
  assume i: "i < PAGING_PAGES" and "x div 1024 = 512 + i"
  then have "x = (512 + i) * 1024 + x mod 1024" by (metis div_mult_mod_eq)
  then have "x = lw (elem (frame i) (x mod 1024))" using i by simp
  then show "x \<in> (\<lambda>k. lw (elem (frame i) k)) ` {0..<1024}" by auto
qed auto

text \<open>The page the allocator hands out, with the whole effect on the state.\<close>

definition take_frame :: "nat \<Rightarrow> 'z mm_st_scheme \<Rightarrow> 'z mm_st_scheme" where
  "take_frame i s = s\<lparr>mem_map := (mem_map s)(i := 1), pm := \<lambda>x. if x div 1024 = 512 + i then 0 else pm s x\<rparr>"

lemma get_free_page_eq:
  "get_free_page s = (case scan_free (mem_map s) PAGING_PAGES of None \<Rightarrow> (0, s) | Some i \<Rightarrow> (frame i, take_frame i s))"
proof (cases "scan_free (mem_map s) PAGING_PAGES")
  case (Some i)
  then have "i < PAGING_PAGES" using scan_free_Some by blast
  note words = frame_words [OF this]
  show ?thesis
    using Some by (simp add: get_free_page_def fold_clear set_count_def take_frame_def Let_def words
        cong: if_cong flip: frame_def)
qed (simp add: get_free_page_def)

lemma get_free_page_cases:
  obtains (full) "get_free_page s = (0, s)" "\<forall>i<PAGING_PAGES. mem_map s i \<noteq> 0"
  | (frame) i where "i < PAGING_PAGES" "mem_map s i = 0" "\<forall>j. i < j \<longrightarrow> j < PAGING_PAGES \<longrightarrow> mem_map s j \<noteq> 0"
      "get_free_page s = (frame i, take_frame i s)"
proof (cases "scan_free (mem_map s) PAGING_PAGES")
  case None
  with full show ?thesis using scan_free_None [OF None] by (simp add: get_free_page_eq)
next
  case (Some i)
  then show ?thesis using scan_free_Some [OF Some] frame [of i] by (simp add: get_free_page_eq)
qed

lemma take_frame_fields [simp]:
  "mem_map (take_frame i s) = (mem_map s)(i := 1)"
  "pm (take_frame i s) x = (if x div 1024 = 512 + i then 0 else pm s x)"
  by (simp_all add: take_frame_def)

lemma free_page_frame:
  assumes "512 \<le> pfn a" and "pfn a < 2048" and "mem_map s (pfn a - 512) \<noteq> 0"
  shows "free_page a s = Ok () (set_count (pfn a - 512) (mem_map s (pfn a - 512) - 1) s)"
proof -
  have "\<not> a < LOW_MEM" using assms LOW_MEM_le [of a] by simp
  moreover have "\<not> a > HIGH_MEMORY"
    using assms by (simp add: word_less_nat_alt HIGH_MEMORY_def pfn_def)
  ultimately show ?thesis using assms by (simp add: free_page_def MAP_NR_eq Let_def)
qed

lemma free_page_low: "pfn a < 512 \<Longrightarrow> free_page a s = Ok () s"
  using LOW_MEM_le [of a] by (simp add: free_page_def not_le)

section \<open>Who uses a frame\<close>

text \<open>
  Slots of the user part of the page tables: \<open>(d, None)\<close> is directory entry \<open>d\<close>, \<open>(d, Some k)\<close> entry \<open>k\<close>
  of the table that directory entry \<open>d\<close> names. Directory entries 0 and 1 map the kernel.
\<close>

type_synonym slot = "nat \<times> nat option"

definition live :: "'z mm_st_scheme \<Rightarrow> slot \<Rightarrow> bool" where
  "live s x \<longleftrightarrow> 2 \<le> fst x \<and> fst x < 1024 \<and>
     (case snd x of None \<Rightarrow> True | Some k \<Rightarrow> present (pm s (fst x)) \<and> k < 1024)"

definition slot :: "'z mm_st_scheme \<Rightarrow> slot \<Rightarrow> u32" where
  "slot s x = (case snd x of None \<Rightarrow> pm s (fst x) | Some k \<Rightarrow> pm s (pfn (pm s (fst x)) * 1024 + k))"

definition owners :: "'z mm_st_scheme \<Rightarrow> nat \<Rightarrow> slot set" where
  "owners s i = {x. live s x \<and> present (slot s x) \<and> pfn (slot s x) = 512 + i}"

definition slots_ok :: "'z mm_st_scheme \<Rightarrow> bool" where
  "slots_ok s \<longleftrightarrow> (\<forall>x. live s x \<longrightarrow> present (slot s x) \<longrightarrow> pfn (slot s x) < 2048 \<and> (snd x = None \<longrightarrow> 512 \<le> pfn (slot s x)))"

definition counts_ok :: "(nat \<Rightarrow> nat) \<Rightarrow> 'z mm_st_scheme \<Rightarrow> bool" where
  "counts_ok ext s \<longleftrightarrow> (\<forall>i<PAGING_PAGES. unat (mem_map s i) = card (owners s i) + ext i)"

definition private_ok :: "'z mm_st_scheme \<Rightarrow> bool" where
  "private_ok s \<longleftrightarrow> (\<forall>x. live s x \<longrightarrow> present (slot s x) \<longrightarrow> 512 \<le> pfn (slot s x) \<longrightarrow>
     (snd x = None \<or> writable (slot s x)) \<longrightarrow> mem_map s (pfn (slot s x) - 512) = 1)"

definition mm_inv :: "(nat \<Rightarrow> nat) \<Rightarrow> 'z mm_st_scheme \<Rightarrow> bool" where
  "mm_inv ext s \<longleftrightarrow> slots_ok s \<and> counts_ok ext s \<and> private_ok s"

lemma live_simps [simp]:
  "live s (d, None) = (2 \<le> d \<and> d < 1024)"
  "live s (d, Some k) = (2 \<le> d \<and> d < 1024 \<and> present (pm s d) \<and> k < 1024)"
  by (simp_all add: live_def)

lemma slot_simps [simp]:
  "slot s (d, None) = pm s d" "slot s (d, Some k) = pm s (pfn (pm s d) * 1024 + k)"
  by (simp_all add: slot_def)

lemma finite_owners [simp]: "finite (owners s i)"
proof -
  have "owners s i \<subseteq> {..<1024} \<times> insert None (Some ` {..<1024})"
  proof
    fix x assume "x \<in> owners s i"
    then show "x \<in> {..<1024} \<times> insert None (Some ` {..<1024})"
      by (cases x; cases "snd x") (auto simp: owners_def)
  qed
  then show ?thesis by (rule finite_subset) auto
qed

lemma slot_frame:
  assumes "mm_inv ext s" and "live s x" and "present (slot s x)"
  shows "pfn (slot s x) < 2048" "snd x = None \<Longrightarrow> 512 \<le> pfn (slot s x)"
    "512 \<le> pfn (slot s x) \<Longrightarrow> x \<in> owners s (pfn (slot s x) - 512)"
proof -
  show "pfn (slot s x) < 2048" "snd x = None \<Longrightarrow> 512 \<le> pfn (slot s x)"
    using assms unfolding mm_inv_def slots_ok_def by blast+
  show "512 \<le> pfn (slot s x) \<Longrightarrow> x \<in> owners s (pfn (slot s x) - 512)"
    using assms(2,3) unfolding owners_def by simp
qed

lemma count_frame: "mm_inv ext s \<Longrightarrow> i < 1536 \<Longrightarrow> unat (mem_map s i) = card (owners s i) + ext i"
  by (simp add: mm_inv_def counts_ok_def PAGING_PAGES_eq)

text \<open>A frame with one reference has one owner, so a table or a writable page is in one slot only.\<close>

lemma private_unique:
  assumes "mm_inv ext s" and "live s x" "present (slot s x)" "512 \<le> pfn (slot s x)"
    and "snd x = None \<or> writable (slot s x)"
    and "live s y" "present (slot s y)" "pfn (slot s y) = pfn (slot s x)"
  shows "y = x"
proof -
  let ?i = "pfn (slot s x) - 512"
  have "mem_map s ?i = 1" using assms(1-5) unfolding mm_inv_def private_ok_def by blast
  moreover have "?i < 1536" using slot_frame(1) [OF assms(1-3)] assms(4) by simp
  ultimately have "card (owners s ?i) \<le> 1" using count_frame [OF assms(1), of ?i] by simp
  moreover have "{x, y} \<subseteq> owners s ?i" using assms by (auto simp: owners_def)
  ultimately show ?thesis using card_mono [OF finite_owners, of "{x, y}" s ?i] by (cases "y = x") auto
qed

text \<open>Changing one table entry changes one slot.\<close>

lemma entry_upd:
  assumes inv: "mm_inv ext s" and d: "2 \<le> d" "d < 1024" "present (pm s d)" and k: "k < 1024"
    and t: "pm t = (pm s)(pfn (pm s d) * 1024 + k := v)"
  shows "live t x = live s x" and "live s x \<Longrightarrow> slot t x = (if x = (d, Some k) then v else slot s x)"
proof -
  have T: "512 \<le> pfn (pm s d)" using slot_frame(2) [OF inv, of "(d, None)"] d by simp
  then have dir: "pm t e = pm s e" if "e < 1024" for e using that by (auto simp: t)
  show "live t x = live s x" using dir by (auto simp: live_def split: option.splits)
  assume lx: "live s x"
  obtain e o' where x: "x = (e, o')" by (cases x)
  show "slot t x = (if x = (d, Some k) then v else slot s x)"
  proof (cases o')
    case None
    with lx x dir show ?thesis by (auto simp: slot_def)
  next
    case (Some l)
    have e: "2 \<le> e" "e < 1024" "present (pm s e)" "l < 1024" using lx x Some by auto
    have "pfn (pm s e) * 1024 + l = pfn (pm s d) * 1024 + k \<longleftrightarrow> pfn (pm s e) = pfn (pm s d) \<and> l = k"
      using k e(4) by (rule table_index_inj)
    moreover have "pfn (pm s e) = pfn (pm s d) \<longleftrightarrow> e = d"
      using private_unique [OF inv, of "(d, None)" "(e, None)"] d e T by auto
    ultimately show ?thesis using x Some dir [OF e(2)] by (auto simp: t)
  qed
qed

lemma owners_entry_upd:
  assumes "mm_inv ext s" and "2 \<le> d" "d < 1024" "present (pm s d)" and "k < 1024"
    and "pm t = (pm s)(pfn (pm s d) * 1024 + k := v)"
  shows "owners t i = (owners s i - {(d, Some k)}) \<union> (if present v \<and> pfn v = 512 + i then {(d, Some k)} else {})"
proof (rule set_eqI)
  fix x
  have "live s (d, Some k)" using assms by simp
  then show "x \<in> owners t i \<longleftrightarrow> x \<in> (owners s i - {(d, Some k)}) \<union>
      (if present v \<and> pfn v = 512 + i then {(d, Some k)} else {})"
    using entry_upd [OF assms, of x] by (cases "x = (d, Some k)") (auto simp: owners_def)
qed

lemma card_owners_upd:
  assumes "mm_inv ext s" and "2 \<le> d" "d < 1024" "present (pm s d)" and "k < 1024"
    and "pm t = (pm s)(pfn (pm s d) * 1024 + k := v)"
  shows "card (owners t i) + of_bool ((d, Some k) \<in> owners s i) =
    card (owners s i) + of_bool (present v \<and> pfn v = 512 + i)"
proof -
  let ?x = "(d, Some k)"
  have del: "card (owners s i - {?x}) + of_bool (?x \<in> owners s i) = card (owners s i)"
    by (simp add: card_Diff_singleton_if card_gt_0_iff split: if_splits) (metis Suc_pred card_gt_0_iff empty_iff finite_owners)
  have "card (owners t i) = card (owners s i - {?x}) + of_bool (present v \<and> pfn v = 512 + i)"
    by (simp add: owners_entry_upd [OF assms] card.insert_remove)
  with del show ?thesis by simp
qed

text \<open>The general rule for changing an entry: the count of a frame follows its owners.\<close>

lemma mm_inv_entry:
  assumes inv: "mm_inv ext s" and d: "2 \<le> d" "d < 1024" "present (pm s d)" and k: "k < 1024"
    and t: "pm t = (pm s)(pfn (pm s d) * 1024 + k := v)"
    and v: "present v \<Longrightarrow> pfn v < 2048"
    and cnt: "\<And>i. i < 1536 \<Longrightarrow> unat (mem_map t i) + of_bool ((d, Some k) \<in> owners s i) + ext i =
      unat (mem_map s i) + of_bool (present v \<and> pfn v = 512 + i) + ext' i"
    and priv: "\<And>y. live s y \<Longrightarrow> y \<noteq> (d, Some k) \<Longrightarrow> present (slot s y) \<Longrightarrow> 512 \<le> pfn (slot s y) \<Longrightarrow>
      snd y = None \<or> writable (slot s y) \<Longrightarrow> mem_map t (pfn (slot s y) - 512) = 1"
    and privx: "present v \<Longrightarrow> 512 \<le> pfn v \<Longrightarrow> writable v \<Longrightarrow> mem_map t (pfn v - 512) = 1"
  shows "mm_inv ext' t"
proof -
  note upd = entry_upd [OF inv d k t]
  have "slots_ok t"
    unfolding slots_ok_def
  proof (intro allI impI)
    fix x assume "live t x" "present (slot t x)"
    then show "pfn (slot t x) < 2048 \<and> (snd x = None \<longrightarrow> 512 \<le> pfn (slot t x))"
      using upd(1) [of x] upd(2) [of x] v slot_frame(1,2) [OF inv, of x] by (cases "x = (d, Some k)") auto
  qed
  moreover have "counts_ok ext' t"
    unfolding counts_ok_def
  proof (intro allI impI)
    fix i assume "i < PAGING_PAGES"
    then have i: "i < 1536" by (simp add: PAGING_PAGES_eq)
    show "unat (mem_map t i) = card (owners t i) + ext' i"
      using cnt [OF i] count_frame [OF inv i] card_owners_upd [OF inv d k t, of i] by linarith
  qed
  moreover have "private_ok t"
    unfolding private_ok_def
  proof (intro allI impI)
    fix x assume x: "live t x" "present (slot t x)" "512 \<le> pfn (slot t x)" "snd x = None \<or> writable (slot t x)"
    show "mem_map t (pfn (slot t x) - 512) = 1"
    proof (cases "x = (d, Some k)")
      case True
      with x upd(2) [of x] upd(1) [of x] privx show ?thesis by simp
    next
      case False
      with x upd(2) [of x] upd(1) [of x] priv [of x] show ?thesis by simp
    qed
  qed
  ultimately show ?thesis by (simp add: mm_inv_def)
qed

lemma private_count:
  assumes "mm_inv ext s" and "live s y" "present (slot s y)" "512 \<le> pfn (slot s y)"
    and "snd y = None \<or> writable (slot s y)"
  shows "mem_map s (pfn (slot s y) - 512) = 1"
  using assms unfolding mm_inv_def private_ok_def by blast

lemma unat_u16_dec: "(m::u16) \<noteq> 0 \<Longrightarrow> unat (m - 1) + 1 = unat m"
  by (metis Suc_eq_plus1 Suc_pred' unat_gt_0 unat_minus_one)

lemma unat_u16_inc: "unat (m::u16) < 65535 \<Longrightarrow> unat (m + 1) = unat m + 1"
  by (simp add: unat_plus_if')

lemma owned_count:
  assumes "mm_inv ext s" and "live s x" "present (slot s x)" "512 \<le> pfn (slot s x)"
  shows "mem_map s (pfn (slot s x) - 512) \<noteq> 0" and "pfn (slot s x) - 512 < 1536"
proof -
  let ?i = "pfn (slot s x) - 512"
  show i: "?i < 1536" using slot_frame(1) [OF assms(1-3)] assms(4) by linarith
  have "0 < card (owners s ?i)"
    using slot_frame(3) [OF assms(1-3)] assms(4) by (auto simp: card_gt_0_iff)
  then show "mem_map s ?i \<noteq> 0" using count_frame [OF assms(1) i] by auto
qed

section \<open>Releasing page tables\<close>

lemma mm_inv_unmap:
  assumes inv: "mm_inv ext s" and d: "2 \<le> d" "d < 1024" "present (pm s d)" and k: "k < 1024"
    and x: "present (slot s (d, Some k))" "i = pfn (slot s (d, Some k)) - 512"
    and t: "pm t = (pm s)(pfn (pm s d) * 1024 + k := 0)"
    and m: "mem_map t = (if 512 \<le> pfn (slot s (d, Some k)) then (mem_map s)(i := mem_map s i - 1) else mem_map s)"
  shows "mm_inv ext t"
proof (rule mm_inv_entry [OF inv d k t])
  let ?x = "(d, Some k)"
  have lx: "live s ?x" using d k by simp
  fix j assume j: "j < (1536::nat)"
  have own: "?x \<in> owners s j \<longleftrightarrow> 512 \<le> pfn (slot s ?x) \<and> j = i"
    using lx x by (auto simp: owners_def)
  show "unat (mem_map t j) + of_bool (?x \<in> owners s j) + ext j =
      unat (mem_map s j) + of_bool (present 0 \<and> pfn 0 = 512 + j) + ext j"
    using owned_count(1) [OF inv lx x(1)] unat_u16_dec [of "mem_map s i"] own x(2) unfolding m by auto
next
  fix y assume y: "live s y" "y \<noteq> (d, Some k)" "present (slot s y)" "512 \<le> pfn (slot s y)"
    "snd y = None \<or> writable (slot s y)"
  have "pfn (slot s y) \<noteq> pfn (slot s (d, Some k))"
    using private_unique [OF inv y(1,3,4,5), of "(d, Some k)"] y(2) x d k by auto
  then show "mem_map t (pfn (slot s y) - 512) = 1"
    using private_count [OF inv y(1,3,4,5)] y(4) x(2) unfolding m by auto
qed simp_all

lemma mm_inv_clear_absent:
  assumes inv: "mm_inv ext s" and d: "2 \<le> d" "d < 1024" "present (pm s d)" and k: "k < 1024"
    and x: "\<not> present (slot s (d, Some k))"
    and t: "pm t = (pm s)(pfn (pm s d) * 1024 + k := 0)" and m: "mem_map t = mem_map s"
  shows "mm_inv ext t"
  by (rule mm_inv_entry [OF inv d k t]) (use x m private_count [OF inv] in \<open>auto simp: owners_def\<close>)

lemma free_pte_ok:
  assumes inv: "mm_inv ext s" and d: "2 \<le> d" "d < 1024" "present (pm s d)" and k: "k < 1024"
    and T: "T = pfn (pm s d)" and p: "lw p = T * 1024 + k"
  shows "\<exists>t. free_pte p s = Ok () t \<and> mm_inv ext t \<and> pm t = (pm s)(T * 1024 + k := 0)"
proof -
  let ?x = "(d, Some k)" let ?v = "slot s ?x"
  have ld: "ldl p s = ?v" using p T by (simp add: ldl_def)
  have lx: "live s ?x" using d k by simp
  consider "\<not> present ?v" | "present ?v" "pfn ?v < 512" | "present ?v" "512 \<le> pfn ?v" by linarith
  then show ?thesis
  proof cases
    case 1
    then have "free_pte p s = Ok () (stl p 0 s)" by (simp only: free_pte_def ld present_and) simp
    with 1 show ?thesis using mm_inv_clear_absent [OF inv d k 1, of "stl p 0 s"] p T by simp
  next
    case 2
    then have "free_pte p s = Ok () (stl p 0 s)"
      by (simp only: free_pte_def ld present_and) (simp add: free_page_low)
    with 2 show ?thesis using mm_inv_unmap [OF inv d k 2(1) refl, of "stl p 0 s"] p T by simp
  next
    case 3
    let ?i = "pfn ?v - 512" let ?t = "stl p 0 (set_count ?i (mem_map s ?i - 1) s)"
    have "free_page (0xfffff000 AND ?v) s = Ok () (set_count ?i (mem_map s ?i - 1) s)"
      using free_page_frame [of "0xfffff000 AND ?v" s] 3 slot_frame(1) [OF inv lx 3(1)] owned_count(1) [OF inv lx 3]
      by simp
    then have "free_pte p s = Ok () ?t"
      by (simp only: free_pte_def ld present_and 3 not_True_eq_False if_True if_False simp_thms bnd.simps)
    moreover have "mm_inv ext ?t" using 3 p T by (intro mm_inv_unmap [OF inv d k 3(1) refl]) simp_all
    ultimately show ?thesis using p T by simp
  qed
qed

lemma dir_upd:
  assumes inv: "mm_inv ext s" and t: "pm t = (pm s)(d := v)" and d: "d < 1024"
    and x: "fst x \<noteq> d"
  shows "live t x = live s x" and "live s x \<Longrightarrow> slot t x = slot s x"
proof -
  obtain e l where [simp]: "x = (e, l)" by (cases x)
  show "live t x = live s x" using x t by (cases l) auto
  assume lx: "live s x"
  show "slot t x = slot s x"
  proof (cases l)
    case (Some k)
    with lx have "512 \<le> pfn (pm s e)" using slot_frame(2) [OF inv, of "(e, None)"] by simp
    with Some t x d show ?thesis by auto
  qed (use x t in auto)
qed

lemma mm_inv_clear_dir:
  assumes inv: "mm_inv ext s" and d: "2 \<le> d" "d < 1024" "present (pm s d)"
    and empty: "\<And>k. k < 1024 \<Longrightarrow> \<not> present (slot s (d, Some k))"
    and t: "pm t = (pm s)(d := 0)" and i: "i = pfn (pm s d) - 512"
    and m: "mem_map t = (mem_map s)(i := mem_map s i - 1)"
  shows "mm_inv ext t"
proof -
  have T: "512 \<le> pfn (pm s d)" using slot_frame(2) [OF inv, of "(d, None)"] d by simp
  have xd: "(d, None) \<in> owners s i" using slot_frame(3) [OF inv, of "(d, None)"] d T i by simp
  have keep: "live t x \<and> present (slot t x) \<longleftrightarrow> live s x \<and> present (slot s x) \<and> x \<noteq> (d, None)"
    and same: "live t x \<Longrightarrow> present (slot t x) \<Longrightarrow> slot t x = slot s x" for x
  proof -
    have "live t x \<and> present (slot t x) \<longleftrightarrow> live s x \<and> present (slot s x) \<and> x \<noteq> (d, None)"
      and "live t x \<Longrightarrow> present (slot t x) \<Longrightarrow> slot t x = slot s x" if "fst x \<noteq> d"
      using dir_upd [OF inv t d(2) that] that by auto
    moreover have "\<not> (live t x \<and> present (slot t x))" "live s x \<Longrightarrow> present (slot s x) \<Longrightarrow> x = (d, None)" if "fst x = d"
      using that t empty by (cases x; cases "snd x"; auto simp: t)+
    ultimately show "live t x \<and> present (slot t x) \<longleftrightarrow> live s x \<and> present (slot s x) \<and> x \<noteq> (d, None)"
      and "live t x \<Longrightarrow> present (slot t x) \<Longrightarrow> slot t x = slot s x" by blast+
  qed
  have own: "owners t j = owners s j - {(d, None)}" for j
  proof (rule set_eqI)
    fix x show "x \<in> owners t j \<longleftrightarrow> x \<in> owners s j - {(d, None)}"
      using keep [of x] same [of x] unfolding owners_def mem_Collect_eq Diff_iff singleton_iff by metis
  qed
  have mi: "mem_map s i = 1" "i < 1536"
    using private_count [OF inv, of "(d, None)"] owned_count(2) [OF inv, of "(d, None)"] d T i by auto
  have "slots_ok t"
    unfolding slots_ok_def
  proof (intro allI impI)
    fix x assume "live t x" "present (slot t x)"
    with keep [of x] same [of x] have "live s x" "present (slot s x)" "slot t x = slot s x" by blast+
    then show "pfn (slot t x) < 2048 \<and> (snd x = None \<longrightarrow> 512 \<le> pfn (slot t x))"
      using slot_frame(1,2) [OF inv, of x] by metis
  qed
  moreover have "counts_ok ext t"
    unfolding counts_ok_def
  proof (intro allI impI)
    fix j assume "j < PAGING_PAGES"
    then have j: "unat (mem_map s j) = card (owners s j) + ext j" using count_frame [OF inv] by (simp add: PAGING_PAGES_eq)
    show "unat (mem_map t j) = card (owners t j) + ext j"
    proof (cases "j = i")
      case True
      moreover have "0 < card (owners s i)" using xd by (auto simp: card_gt_0_iff)
      ultimately show ?thesis using j mi m own xd by simp
    next
      case False
      then have "(d, None) \<notin> owners s j" using i T by (auto simp: owners_def)
      with False j m own show ?thesis by simp
    qed
  qed
  moreover have "private_ok t"
    unfolding private_ok_def
  proof (intro allI impI)
    fix x assume x: "live t x" "present (slot t x)" "512 \<le> pfn (slot t x)" "snd x = None \<or> writable (slot t x)"
    then have s: "live s x" "present (slot s x)" "x \<noteq> (d, None)" "slot t x = slot s x"
      using keep same by blast+
    then have "pfn (slot s x) \<noteq> pfn (pm s d)"
      using private_unique [OF inv, of "(d, None)" x] d T by auto
    then show "mem_map t (pfn (slot t x) - 512) = 1"
      using private_count [OF inv s(1,2)] x s(4) i T m by auto
  qed
  ultimately show ?thesis by (simp add: mm_inv_def)
qed

lemma free_dir_ok:
  fixes s :: "'z mm_st_scheme"
  assumes inv: "mm_inv ext s" and d: "2 \<le> d" "d < 1024" and p: "lw p = d"
  shows "\<exists>t. free_dir p s = Ok () t \<and> mm_inv ext t \<and> \<not> present (pm t d) \<and>
    (\<forall>e<1024. e \<noteq> d \<longrightarrow> pm t e = pm s e)"
proof (cases "present (pm s d)")
  case False
  then show ?thesis using inv p by (simp add: free_dir_def ldl_def)
next
  case True
  let ?T = "pfn (pm s d)" let ?tab = "0xfffff000 AND ldl p s"
  have T: "512 \<le> ?T" using slot_frame(2) [OF inv, of "(d, None)"] d True by simp
  define I where "I js u \<longleftrightarrow> set js \<subseteq> {..<1024} \<and> mm_inv ext u \<and> (\<forall>e<1024. pm u e = pm s e) \<and>
      (\<forall>l<1024. l \<notin> set js \<longrightarrow> \<not> present (pm u (?T * 1024 + l)))" for js and u :: "'z mm_st_scheme"
  have "\<exists>t. for_each [0..<1024] (\<lambda>nr. free_pte (elem ?tab nr)) s = Ok () t \<and> I [] t"
  proof (rule for_each_total)
    show "I [0..<1024] s" using inv by (auto simp: I_def)
  next
    fix k js u assume u: "I (k # js) u"
    then have k: "k < 1024" and pd: "pm u d = pm s d" and iu: "mm_inv ext u" using d by (auto simp: I_def)
    have "lw (elem ?tab k) = ?T * 1024 + k" using k p by (simp add: ldl_def)
    from free_pte_ok [OF iu d _ k _ this] True pd obtain t where
      t: "free_pte (elem ?tab k) u = Ok () t" "mm_inv ext t" "pm t = (pm u)(?T * 1024 + k := 0)" by auto
    with u T show "\<exists>t. free_pte (elem ?tab k) u = Ok () t \<and> I js t" by (auto simp: I_def)
  qed
  then obtain u where loop: "for_each [0..<1024] (\<lambda>nr. free_pte (elem ?tab nr)) s = Ok () u"
    and iu: "mm_inv ext u" and pu: "\<And>e. e < 1024 \<Longrightarrow> pm u e = pm s e"
    and absent: "\<And>l. l < 1024 \<Longrightarrow> \<not> present (pm u (?T * 1024 + l))" by (auto simp: I_def)
  let ?i = "?T - 512" let ?w = "set_count ?i (mem_map u ?i - 1) u"
  have pd: "pm u d = pm s d" using pu d by simp
  have "free_page (0xfffff000 AND ldl p u) u = Ok () ?w"
    using free_page_frame [of "0xfffff000 AND ldl p u" u] owned_count(1) [OF iu, of "(d, None)"]
      slot_frame(1) [OF iu, of "(d, None)"] T d True p pd by (simp add: ldl_def)
  then have "free_dir p s = Ok () (stl p 0 ?w)"
    using loop True p by (simp add: free_dir_def Let_def ldl_def)
  moreover have "mm_inv ext (stl p 0 ?w)"
    using absent pd p True by (intro mm_inv_clear_dir [OF iu d, of _ "pfn (pm u d) - 512"]) simp_all
  ultimately show ?thesis using p pu by auto
qed

text \<open>
  The range a 4 Mb aligned call works on: \<open>n\<close> directory entries from \<open>d\<close>, all in user space.
\<close>

definition user_range :: "u32 \<Rightarrow> u32 \<Rightarrow> bool" where
  "user_range from sz \<longleftrightarrow> from AND 0x3fffff = 0 \<and> 2 \<le> unat from div 2 ^ 22 \<and>
     unat from div 2 ^ 22 + unat (drop_bit 22 (sz + 0x3fffff)) \<le> 1024"

lemma lw_dir_elem:
  assumes "unat a div 2 ^ 22 + j < 1024"
  shows "lw (elem (drop_bit 20 a AND 0xffc) j) = unat a div 2 ^ 22 + j"
proof -
  have "unat (drop_bit 20 a AND 0xffc) = unat a div 2 ^ 22 mod 1024 * 4" by (simp add: and_ffc)
  with assms have "unat (drop_bit 20 a AND 0xffc) + 4 * j < 2 ^ 32" by simp
  from lw_elem [OF this] show ?thesis by simp
qed

lemma free_page_tables_frees:
  fixes s :: "'z mm_st_scheme"
  assumes inv: "mm_inv ext s" and range: "user_range from sz"
  shows "\<exists>t. free_page_tables from sz s = Ok 0 t \<and> mm_inv ext t \<and>
    (\<forall>d<1024. if unat from div 2 ^ 22 \<le> d \<and> d < unat from div 2 ^ 22 + unat (drop_bit 22 (sz + 0x3fffff))
              then \<not> present (pm t d) else pm t d = pm s d)"
proof -
  let ?d = "unat from div 2 ^ 22" and ?n = "unat (drop_bit 22 (sz + 0x3fffff))"
  let ?dir = "drop_bit 20 from AND 0xffc"
  define I where "I js u \<longleftrightarrow> set js \<subseteq> {..<?n} \<and> mm_inv ext u \<and>
    (\<forall>e<1024. if ?d \<le> e \<and> e < ?d + ?n then (e - ?d \<in> set js \<or> \<not> present (pm u e)) else pm u e = pm s e)" for js and u :: "'z mm_st_scheme"
  have "\<exists>t. for_each [0..<?n] (\<lambda>j. free_dir (elem ?dir j)) s = Ok () t \<and> I [] t"
  proof (rule for_each_total)
    show "I [0..<?n] s" using inv by (auto simp: I_def)
  next
    fix j js u assume u: "I (j # js) u"
    then have j: "j < ?n" and iu: "mm_inv ext u" by (auto simp: I_def)
    have r: "2 \<le> ?d + j" "?d + j < 1024" using range j by (auto simp: user_range_def)
    from free_dir_ok [OF iu r lw_dir_elem] r(2) obtain t where
      t: "free_dir (elem ?dir j) u = Ok () t" "mm_inv ext t" "\<not> present (pm t (?d + j))"
        "\<forall>e<1024. e \<noteq> ?d + j \<longrightarrow> pm t e = pm u e" by blast
    have "I js t"
      unfolding I_def
    proof (intro conjI allI impI)
      fix e :: nat assume e: "e < 1024"
      show "if ?d \<le> e \<and> e < ?d + ?n then e - ?d \<in> set js \<or> \<not> present (pm t e) else pm t e = pm s e"
        using u t(3,4) e j by (cases "e = ?d + j") (auto simp: I_def)
    qed (use u t(2) in \<open>auto simp: I_def\<close>)
    with t(1) show "\<exists>t. free_dir (elem ?dir j) u = Ok () t \<and> I js t" by blast
  qed
  moreover have "from \<noteq> 0" "from AND 0x3fffff = 0" using range by (auto simp: user_range_def)
  ultimately show ?thesis by (auto simp: free_page_tables_def Let_def I_def cong: if_cong)
qed

text \<open>
  C5: \<open>free_page_tables\<close> on a range of user space never panics and returns 0; afterwards no directory
  entry of the range is present, the others are unchanged, and every reference count is again
  exactly the number of entries that use the frame (plus the kernel's own references).
\<close>

theorem free_page_tables_ok:
  assumes "mm_inv ext s" and "user_range from sz"
  shows "\<exists>t. free_page_tables from sz s = Ok 0 t \<and> mm_inv ext t \<and>
    (\<forall>d<1024. if unat from div 2 ^ 22 \<le> d \<and> d < unat from div 2 ^ 22 + unat (drop_bit 22 (sz + 0x3fffff))
              then \<not> present (pm t d) else pm t d = pm s d)"
  using assms by (rule free_page_tables_frees)

section \<open>Allocating pages and tables\<close>

text \<open>Memory outside the directory and the tables does not matter.\<close>

lemma slots_cong:
  assumes dir: "\<And>d. d < 1024 \<Longrightarrow> pm t d = pm s d"
    and tab: "\<And>d k. 2 \<le> d \<Longrightarrow> d < 1024 \<Longrightarrow> present (pm s d) \<Longrightarrow> k < 1024 \<Longrightarrow>
      pm t (pfn (pm s d) * 1024 + k) = pm s (pfn (pm s d) * 1024 + k)"
  shows "live t x = live s x" and "live s x \<Longrightarrow> slot t x = slot s x"
proof -
  obtain d l where x: "x = (d, l)" by (cases x)
  show "live t x = live s x" using dir [of d] by (cases l) (auto simp: x)
  assume lx: "live s x"
  show "slot t x = slot s x"
  proof (cases l)
    case (Some k)
    then have "slot t x = pm t (pfn (pm t d) * 1024 + k)" "pm t d = pm s d" using lx dir [of d] by (auto simp: x)
    then show ?thesis using tab [of d k] lx by (simp add: x Some)
  qed (use dir [of d] lx in \<open>auto simp: x\<close>)
qed

lemma mm_inv_cong:
  assumes lv: "\<And>x. live t x = live s x" and sl: "\<And>x. live s x \<Longrightarrow> slot t x = slot s x"
    and m: "\<And>i. i < 1536 \<Longrightarrow> unat (mem_map t i) + ext i = unat (mem_map s i) + ext' i"
    and inv: "mm_inv ext s"
    and priv: "\<And>x. live s x \<Longrightarrow> present (slot s x) \<Longrightarrow> 512 \<le> pfn (slot s x) \<Longrightarrow>
      snd x = None \<or> writable (slot s x) \<Longrightarrow> mem_map t (pfn (slot s x) - 512) = mem_map s (pfn (slot s x) - 512)"
  shows "mm_inv ext' t"
proof -
  have own: "owners t i = owners s i" for i using lv sl unfolding owners_def by (metis (lifting))
  have "slots_ok t"
    using inv lv sl unfolding mm_inv_def slots_ok_def by metis
  moreover have "counts_ok ext' t"
    unfolding counts_ok_def
  proof (intro allI impI)
    fix i assume "i < PAGING_PAGES"
    then have "i < 1536" by (simp add: PAGING_PAGES_eq)
    then show "unat (mem_map t i) = card (owners t i) + ext' i"
      using m [of i] count_frame [OF inv, of i] by (simp add: own)
  qed
  moreover have "private_ok t"
    unfolding private_ok_def
    using private_count [OF inv] priv lv sl by metis
  ultimately show ?thesis by (simp add: mm_inv_def)
qed

lemma table_not_free:
  assumes "mm_inv ext s" and "mem_map s i = 0" and "live s x" and "present (slot s x)"
  shows "pfn (slot s x) \<noteq> 512 + i"
  using owned_count(1) [OF assms(1,3,4)] assms(2) by auto

text \<open>A frame whose only reference is the kernel's own is in no slot.\<close>

lemma private_frame:
  assumes "mm_inv ext s" "i < PAGING_PAGES" "mem_map s i = 1" "ext i = 1" "live s x" "present (slot s x)"
  shows "pfn (slot s x) \<noteq> 512 + i"
proof -
  have "card (owners s i) = 0" using count_frame [OF assms(1), of i] assms(2-4) by (simp add: PAGING_PAGES_eq)
  then have "owners s i = {}" by simp
  with assms(5,6) show ?thesis unfolding owners_def by blast
qed

text \<open>A frame with count 0 has no owner; taking it gives the kernel one reference.\<close>

lemma mm_inv_take_frame:
  assumes inv: "mm_inv ext s" and i: "i < PAGING_PAGES" "mem_map s i = 0"
  shows "mm_inv (ext(i := 1)) (take_frame i s)"
    and "\<And>x. live (take_frame i s) x = live s x" and "\<And>x. live s x \<Longrightarrow> slot (take_frame i s) x = slot s x"
proof -
  let ?t = "take_frame i s"
  have dir: "pm ?t d = pm s d" if "d < 1024" for d using that by simp
  have tab: "pm ?t (pfn (pm s d) * 1024 + k) = pm s (pfn (pm s d) * 1024 + k)"
    if "2 \<le> d" "d < 1024" "present (pm s d)" "k < 1024" for d k
    using table_not_free [OF inv i(2), of "(d, None)"] that by simp
  show lv: "live ?t x = live s x" and sl: "live s x \<Longrightarrow> slot ?t x = slot s x" for x
    using slots_cong [OF dir tab] by blast+
  have ext: "ext i = 0" using count_frame [OF inv, of i] i by (simp add: PAGING_PAGES_eq)
  show "mm_inv (ext(i := 1)) ?t"
  proof (rule mm_inv_cong [OF lv sl _ inv])
    fix j show "unat (mem_map ?t j) + ext j = unat (mem_map s j) + (ext(i := 1)) j"
      using ext i by simp
  next
    fix x assume x: "live s x" "present (slot s x)" "512 \<le> pfn (slot s x)"
    then have "pfn (slot s x) - 512 \<noteq> i" using table_not_free [OF inv i(2) x(1,2)] by auto
    then show "mem_map ?t (pfn (slot s x) - 512) = mem_map s (pfn (slot s x) - 512)" by simp
  qed
qed

text \<open>A zeroed page that only the kernel holds becomes the page table of an empty directory entry.\<close>

lemma mm_inv_new_table:
  assumes inv: "mm_inv ext s" and d: "2 \<le> d" "d < 1024" "\<not> present (pm s d)"
    and i: "i < PAGING_PAGES" "mem_map s i = 1" "ext i = 1"
    and zero: "\<And>k. k < 1024 \<Longrightarrow> \<not> present (pm s ((512 + i) * 1024 + k))"
    and t: "pm t = (pm s)(d := v)" "present v" "pfn v = 512 + i" and m: "mem_map t = mem_map s"
  shows "mm_inv (ext(i := 0)) t"
proof -
  have none: "owners s i = {}" using count_frame [OF inv, of i] i by (simp add: PAGING_PAGES_eq)
  have keep: "live t x \<and> present (slot t x) \<longleftrightarrow> live s x \<and> present (slot s x) \<or> x = (d, None)"
    and same: "live s x \<Longrightarrow> present (slot s x) \<Longrightarrow> slot t x = slot s x" for x
  proof -
    have "live t x \<and> present (slot t x) \<longleftrightarrow> live s x \<and> present (slot s x) \<or> x = (d, None)"
      and "live s x \<Longrightarrow> present (slot s x) \<Longrightarrow> slot t x = slot s x" if "fst x \<noteq> d"
      using dir_upd [OF inv t(1) d(2) that] that by auto
    moreover have "live t x \<and> present (slot t x) \<longleftrightarrow> x = (d, None)" "\<not> (live s x \<and> present (slot s x))" if "fst x = d"
      using that t d zero by (cases x; cases "snd x"; auto)+
    ultimately show "live t x \<and> present (slot t x) \<longleftrightarrow> live s x \<and> present (slot s x) \<or> x = (d, None)"
      and "live s x \<Longrightarrow> present (slot s x) \<Longrightarrow> slot t x = slot s x" by blast+
  qed
  have new: "live t (d, None)" "slot t (d, None) = v" "\<not> (live s (d, None) \<and> present (slot s (d, None)))"
    using d t by auto
  have own: "owners t j = owners s j \<union> (if j = i then {(d, None)} else {})" for j
  proof (rule set_eqI)
    fix x show "x \<in> owners t j \<longleftrightarrow> x \<in> owners s j \<union> (if j = i then {(d, None)} else {})"
      using keep [of x] same [of x] new t by (cases "x = (d, None)") (auto simp: owners_def)
  qed
  have "slots_ok t"
    unfolding slots_ok_def
  proof (intro allI impI)
    fix x assume x: "live t x" "present (slot t x)"
    show "pfn (slot t x) < 2048 \<and> (snd x = None \<longrightarrow> 512 \<le> pfn (slot t x))"
    proof (cases "x = (d, None)")
      case True
      with new t i show ?thesis by (simp add: PAGING_PAGES_eq)
    next
      case False
      with keep [of x] same [of x] x slot_frame(1,2) [OF inv, of x] show ?thesis by metis
    qed
  qed
  moreover have "counts_ok (ext(i := 0)) t"
    unfolding counts_ok_def
  proof (intro allI impI)
    fix j assume "j < PAGING_PAGES"
    then have "unat (mem_map s j) = card (owners s j) + ext j" using count_frame [OF inv] by (simp add: PAGING_PAGES_eq)
    then show "unat (mem_map t j) = card (owners t j) + (ext(i := 0)) j"
      using m own i none by simp
  qed
  moreover have "private_ok t"
    unfolding private_ok_def
  proof (intro allI impI)
    fix x assume x: "live t x" "present (slot t x)" "512 \<le> pfn (slot t x)" "snd x = None \<or> writable (slot t x)"
    show "mem_map t (pfn (slot t x) - 512) = 1"
    proof (cases "x = (d, None)")
      case True
      with new t i m show ?thesis by simp
    next
      case False
      with keep [of x] same [of x] x private_count [OF inv, of x] m show ?thesis by metis
    qed
  qed
  ultimately show ?thesis by (simp add: mm_inv_def)
qed

section \<open>Sharing pages with a child\<close>

lemma mm_inv_rdonly:
  assumes inv: "mm_inv ext s" and d: "2 \<le> d" "d < 1024" "present (pm s d)" and k: "k < 1024"
    and t: "pm t = (pm s)(pfn (pm s d) * 1024 + k := slot s (d, Some k) AND NOT 2)" and m: "mem_map t = mem_map s"
  shows "mm_inv ext t"
proof (rule mm_inv_entry [OF inv d k t])
  let ?x = "(d, Some k)"
  have lx: "live s ?x" using d k by simp
  show "present (slot s ?x AND NOT 2) \<Longrightarrow> pfn (slot s ?x AND NOT 2) < 2048"
    using slot_frame(1) [OF inv lx] by simp
  show "unat (mem_map t i) + of_bool (?x \<in> owners s i) + ext i =
      unat (mem_map s i) + of_bool (present (slot s ?x AND NOT 2) \<and> pfn (slot s ?x AND NOT 2) = 512 + i) + ext i" for i
    using lx by (simp add: m owners_def)
qed (use m private_count [OF inv] in auto)

lemma mm_inv_share:
  assumes inv: "mm_inv ext s" and d: "2 \<le> d" "d < 1024" "present (pm s d)" and k: "k < 1024"
    and y: "\<not> present (slot s (d, Some k))"
    and v: "\<not> writable v" "pfn v < 2048" "present v"
    and other: "512 \<le> pfn v \<Longrightarrow> live s x \<and> present (slot s x) \<and> snd x \<noteq> None \<and> \<not> writable (slot s x) \<and> pfn (slot s x) = pfn v"
    and bound: "unat (mem_map s (pfn v - 512)) < 65535"
    and t: "pm t = (pm s)(pfn (pm s d) * 1024 + k := v)"
    and m: "mem_map t = (if 512 \<le> pfn v then (mem_map s)(pfn v - 512 := mem_map s (pfn v - 512) + 1) else mem_map s)"
  shows "mm_inv ext t"
proof (rule mm_inv_entry [OF inv d k t])
  show "unat (mem_map t i) + of_bool ((d, Some k) \<in> owners s i) + ext i =
      unat (mem_map s i) + of_bool (present v \<and> pfn v = 512 + i) + ext i" for i
    using y v bound unat_u16_inc [OF bound] by (auto simp: m owners_def)
next
  fix z assume z: "live s z" "z \<noteq> (d, Some k)" "present (slot s z)" "512 \<le> pfn (slot s z)"
    "snd z = None \<or> writable (slot s z)"
  have "pfn (slot s z) \<noteq> pfn v"
    using private_unique [OF inv z(1,3,4,5), of x] other z(4,5) by auto
  then show "mem_map t (pfn (slot s z) - 512) = 1"
    using private_count [OF inv z(1,3,4,5)] z(4) by (auto simp: m)
qed (use v in auto)

lemma copy_pte_ok:
  assumes inv: "mm_inv ext s" and td: "2 \<le> td" "td < 1024" "present (pm s td)" and k: "k < 1024"
    and T: "Tf = pfn (pm s fd)" "Tt = pfn (pm s td)" "Tf \<noteq> Tt" and fd: "fd < 1024"
    and p: "lw pf = Tf * 1024 + k" "lw pt = Tt * 1024 + k"
    and v: "v = pm s (Tf * 1024 + k)" "present v \<Longrightarrow> pfn v < 2048"
    and hi: "present v \<Longrightarrow> 512 \<le> pfn v \<Longrightarrow> 2 \<le> fd \<and> present (pm s fd)"
    and y: "\<not> present (pm s (Tt * 1024 + k))"
    and bound: "\<And>i. unat (mem_map s i) < 65535"
  shows "mm_inv ext (copy_pte pf pt s)"
    and "pm (copy_pte pf pt s) = (if \<not> present v then pm s
      else if 512 \<le> pfn v then (pm s)(Tt * 1024 + k := v AND NOT 2, Tf * 1024 + k := v AND NOT 2)
      else (pm s)(Tt * 1024 + k := v AND NOT 2))"
    and "unat (mem_map (copy_pte pf pt s) i) \<le> unat (mem_map s i) + 1"
proof -
  let ?c = "copy_pte pf pt s" and ?v = "v AND NOT 2"
  have ld: "ldl pf s = v" using p v by (simp add: ldl_def)
  have ne: "Tt * 1024 + k \<noteq> Tf * 1024 + k" using T(3) by simp
  consider (absent) "\<not> present v" | (low) "present v" "pfn v < 512" | (high) "present v" "512 \<le> pfn v" by linarith
  then have "mm_inv ext ?c \<and> pm ?c = (if \<not> present v then pm s
      else if 512 \<le> pfn v then (pm s)(Tt * 1024 + k := ?v, Tf * 1024 + k := ?v)
      else (pm s)(Tt * 1024 + k := ?v)) \<and> (\<forall>i. unat (mem_map ?c i) \<le> unat (mem_map s i) + 1)"
  proof cases
    case absent
    then have "?c = s" by (simp add: copy_pte_def ld)
    with inv absent show ?thesis by simp
  next
    case low
    then have c: "?c = stl pt ?v s"
      using LOW_MEM_less [of ?v] by (simp add: copy_pte_def ld Let_def)
    have "mm_inv ext (stl pt ?v s)"
      using low p T y bound by (intro mm_inv_share [OF inv td k, of ?v _ "stl pt ?v s"]) auto
    with c low p show ?thesis by simp
  next
    case high
    let ?i = "pfn v - 512"
    have c: "?c = set_count ?i (mem_map s ?i + 1) (stl pf ?v (stl pt ?v s))"
      using LOW_MEM_less [of ?v] MAP_NR_eq [of ?v] high by (simp add: copy_pte_def ld Let_def)
    have f: "2 \<le> fd" "present (pm s fd)" using hi high by auto
    let ?a = "stl pf ?v s" and ?x = "(fd, Some k)"
    have sx: "slot s ?x = v" using v T by simp
    have ia: "mm_inv ext ?a"
      using sx p T by (intro mm_inv_rdonly [OF inv f(1) fd f(2) k]) simp_all
    note upd = entry_upd [OF inv f(1) fd f(2) k, of ?a ?v]
    have a: "live ?a ?x" "slot ?a ?x = ?v" "pm ?a td = pm s td" "\<not> present (slot ?a (td, Some k))"
      using upd [of ?x] upd [of "(td, Some k)"] upd(2) [of "(td, None)"] p T td k y f fd by auto
    have "mm_inv ext ?c"
    proof (rule mm_inv_share [OF ia td(1,2) _ k a(4), of ?v ?x ?c])
      show "pm ?c = (pm ?a)(pfn (pm ?a td) * 1024 + k := ?v)"
        unfolding a(3) T(2) [symmetric] using p ne by (simp add: c fun_upd_twist)
    qed (use a td high v bound in \<open>auto simp: c\<close>)
    moreover have "pm ?c = (pm s)(Tt * 1024 + k := ?v, Tf * 1024 + k := ?v)" using p by (simp add: c)
    moreover have "\<forall>i. unat (mem_map ?c i) \<le> unat (mem_map s i) + 1"
      using bound unat_u16_inc [of "mem_map s ?i"] by (auto simp: c)
    ultimately show ?thesis using high by simp
  qed
  then show "mm_inv ext ?c" and "pm ?c = (if \<not> present v then pm s
      else if 512 \<le> pfn v then (pm s)(Tt * 1024 + k := ?v, Tf * 1024 + k := ?v)
      else (pm s)(Tt * 1024 + k := ?v))" and "unat (mem_map ?c i) \<le> unat (mem_map s i) + 1" by blast+
qed

text \<open>The inner loop copies the first \<open>nr\<close> entries.\<close>

definition shared :: "u32 \<Rightarrow> u32" where
  "shared v = (if present v then v AND NOT 2 else 0)"

lemma copy_table_ok:
  fixes s :: "'z mm_st_scheme"
  assumes inv: "mm_inv ext s" and td: "2 \<le> td" "td < 1024" "present (pm s td)" and nr: "nr \<le> 1024"
    and T: "Tf = pfn (pm s fd)" "Tt = pfn (pm s td)" "Tf \<noteq> Tt" and fd: "fd < 1024" "Tf \<noteq> 0"
    and zero: "\<And>k. k < 1024 \<Longrightarrow> pm s (Tt * 1024 + k) = 0"
    and v: "\<And>k. k < nr \<Longrightarrow> present (pm s (Tf * 1024 + k)) \<Longrightarrow> pfn (pm s (Tf * 1024 + k)) < 2048 \<and>
      (512 \<le> pfn (pm s (Tf * 1024 + k)) \<longrightarrow> 2 \<le> fd \<and> present (pm s fd))"
    and bound: "\<And>i. unat (mem_map s i) + nr < 65536"
    and t: "t = fold (\<lambda>k. copy_pte (elem (0xfffff000 AND pm s fd) k) (elem (0xfffff000 AND pm s td) k)) [0..<nr] s"
  shows "mm_inv ext t \<and> (\<forall>k<nr. pm t (Tt * 1024 + k) = shared (pm s (Tf * 1024 + k))) \<and>
    (\<forall>k<nr. pm t (Tf * 1024 + k) = (if 512 \<le> pfn (pm s (Tf * 1024 + k)) \<and> present (pm s (Tf * 1024 + k))
       then shared (pm s (Tf * 1024 + k)) else pm s (Tf * 1024 + k))) \<and>
    (\<forall>x. x \<notin> (\<lambda>k. Tt * 1024 + k) ` {..<nr} \<longrightarrow> x \<notin> (\<lambda>k. Tf * 1024 + k) ` {..<nr} \<longrightarrow> pm t x = pm s x) \<and>
    (\<forall>i. unat (mem_map t i) \<le> unat (mem_map s i) + nr)"
  using nr v bound t
proof (induction nr arbitrary: t)
  case 0
  then show ?case using inv by simp
next
  case (Suc n)
  let ?f = "\<lambda>k. copy_pte (elem (0xfffff000 AND pm s fd) k) (elem (0xfffff000 AND pm s td) k)"
  define u where "u = fold ?f [0..<n] s"
  have bn: "unat (mem_map s i) + n < 65536" for i using Suc.prems(3) [of i] by simp
  have vn: "pfn (pm s (Tf * 1024 + k)) < 2048 \<and> (512 \<le> pfn (pm s (Tf * 1024 + k)) \<longrightarrow> 2 \<le> fd \<and> present (pm s fd))"
    if "k < n" "present (pm s (Tf * 1024 + k))" for k using Suc.prems(2) [of k] that by simp
  have "n \<le> 1024" using Suc.prems(1) by simp
  note all = Suc.IH [OF this vn bn u_def]
  then have IH: "mm_inv ext u" "\<And>k. k < n \<Longrightarrow> pm u (Tt * 1024 + k) = shared (pm s (Tf * 1024 + k))"
    "\<And>k. k < n \<Longrightarrow> pm u (Tf * 1024 + k) = (if 512 \<le> pfn (pm s (Tf * 1024 + k)) \<and> present (pm s (Tf * 1024 + k))
       then shared (pm s (Tf * 1024 + k)) else pm s (Tf * 1024 + k))"
    "\<And>x. x \<notin> (\<lambda>k. Tt * 1024 + k) ` {..<n} \<Longrightarrow> x \<notin> (\<lambda>k. Tf * 1024 + k) ` {..<n} \<Longrightarrow> pm u x = pm s x"
    "\<And>i. unat (mem_map u i) \<le> unat (mem_map s i) + n"
    by blast+
  have n: "n < 1024" using Suc.prems(1) by simp
  have Tt: "512 \<le> Tt" using slot_frame(2) [OF inv, of "(td, None)"] td T by simp
  have dirs: "pm u d = pm s d" if "d < 1024" for d
    using IH(4) [OF row_out row_out] that Tt fd(2) by simp
  have row: "x * 1024 + n \<notin> (\<lambda>k. y * 1024 + k) ` {..<n}" for x y :: nat
    using n by (auto simp: table_index_inj)
  have vf: "pm u (Tf * 1024 + n) = pm s (Tf * 1024 + n)" and vt: "pm u (Tt * 1024 + n) = 0"
    using IH(4) row zero [OF n] by auto
  have bu: "unat (mem_map u i) < 65535" for i using IH(5) [of i] Suc.prems(3) [of i] by simp
  let ?w = "pm s (Tf * 1024 + n)"
  let ?c = "copy_pte (elem (0xfffff000 AND pm s fd) n) (elem (0xfffff000 AND pm s td) n) u"
  have step: "t = ?c" using Suc.prems(4) by (simp add: u_def)
  have c: "mm_inv ext ?c" "pm ?c = (if \<not> present ?w then pm u
      else if 512 \<le> pfn ?w then (pm u)(Tt * 1024 + n := ?w AND NOT 2, Tf * 1024 + n := ?w AND NOT 2)
      else (pm u)(Tt * 1024 + n := ?w AND NOT 2))" "\<And>i. unat (mem_map ?c i) \<le> unat (mem_map u i) + 1"
    using copy_pte_ok [OF IH(1) td(1,2) _ n _ _ T(3) fd(1), where v = ?w and pf = "elem (0xfffff000 AND pm s fd) n"
        and pt = "elem (0xfffff000 AND pm s td) n"] T dirs fd(1) td n vf vt Suc.prems(2) [of n] bu by auto
  have ne: "Tt * 1024 + a \<noteq> Tf * 1024 + b" if "a < 1024" "b < 1024" for a b
    using that T(3) by (simp add: table_index_inj)
  have "pm ?c (Tt * 1024 + k) = shared (pm s (Tf * 1024 + k))" if "k < Suc n" for k
    using that IH(2) [of k] vt ne [of k n] n by (cases "k = n") (auto simp: c(2) shared_def)
  moreover have "pm ?c (Tf * 1024 + k) = (if 512 \<le> pfn (pm s (Tf * 1024 + k)) \<and> present (pm s (Tf * 1024 + k))
       then shared (pm s (Tf * 1024 + k)) else pm s (Tf * 1024 + k))" if "k < Suc n" for k
    using that IH(3) [of k] vf ne [of n k] n by (cases "k = n") (auto simp: c(2) shared_def)
  moreover have "pm ?c x = pm s x" if "x \<notin> (\<lambda>k. Tt * 1024 + k) ` {..<Suc n}" "x \<notin> (\<lambda>k. Tf * 1024 + k) ` {..<Suc n}" for x
    using that IH(4) [of x] by (auto simp: c(2) lessThan_Suc)
  moreover have "unat (mem_map ?c i) \<le> unat (mem_map s i) + Suc n" for i
    using c(3) [of i] IH(5) [of i] by simp
  ultimately show ?case using c(1) unfolding step by blast
qed

text \<open>What a source entry becomes, and one round of the outer loop on user directory entries.\<close>

definition parent :: "u32 \<Rightarrow> u32" where
  "parent v = (if present v \<and> 512 \<le> pfn v then v AND NOT 2 else v)"

lemma mm_inv_table_taken:
  assumes inv: "mm_inv ext s" and i: "i < PAGING_PAGES" "mem_map s i = 0"
    and d: "2 \<le> d" "d < 1024" "\<not> present (pm s d)" and p: "lw p = d"
  defines "u \<equiv> stl p (frame i OR 7) (take_frame i s)"
  shows "mm_inv ext u" and "\<And>z. live s z \<Longrightarrow> fst z \<noteq> d \<Longrightarrow> live u z \<and> slot u z = slot s z"
    and "\<And>e. e < 1024 \<Longrightarrow> e \<noteq> d \<Longrightarrow> pm u e = pm s e" and "pm u d = frame i OR 7"
    and "\<And>k. k < 1024 \<Longrightarrow> pm u ((512 + i) * 1024 + k) = 0"
    and "\<And>j. unat (mem_map u j) \<le> unat (mem_map s j) + 1"
proof -
  let ?a = "take_frame i s"
  have ext: "ext i = 0" using count_frame [OF inv, of i] i by (simp add: PAGING_PAGES_eq)
  have ia: "mm_inv (ext(i := 1)) ?a" by (rule mm_inv_take_frame(1) [OF inv i])
  have u: "pm u = (pm ?a)(d := frame i OR 7)" "mem_map u = mem_map ?a" using p by (simp_all add: u_def)
  show zero: "pm u ((512 + i) * 1024 + k) = 0" if "k < 1024" for k
  proof -
    have "((512 + i) * 1024 + k) div 1024 = 512 + i" using that by simp
    then show ?thesis using d unfolding u(1) by simp
  qed
  have "mm_inv ((ext(i := 1))(i := 0)) u"
  proof (rule mm_inv_new_table [OF ia d(1,2), where v = "frame i OR 7"])
    fix k :: nat assume "k < 1024"
    then have "((512 + i) * 1024 + k) div 1024 = 512 + i" by simp
    then show "\<not> present (pm ?a ((512 + i) * 1024 + k))" by simp
  qed (use d i u in simp_all)
  moreover have "(ext(i := 1))(i := 0) = ext" using ext by (simp add: fun_upd_idem)
  ultimately show "mm_inv ext u" by simp
  show "live u z \<and> slot u z = slot s z" if "live s z" "fst z \<noteq> d" for z
    using dir_upd [OF ia u(1) d(2) that(2)] mm_inv_take_frame(2,3) [OF inv i, of z] that by simp
  show "pm u e = pm s e" if "e < 1024" "e \<noteq> d" for e using that by (simp add: u)
  show "pm u d = frame i OR 7" by (simp add: u)
  show "unat (mem_map u j) \<le> unat (mem_map s j) + 1" for j by (simp add: u)
qed

lemma copy_dir_ok:
  fixes s :: "'z mm_st_scheme"
  assumes inv: "mm_inv ext s" and fd: "2 \<le> fd" "fd < 1024" "present (pm s fd)"
    and td: "2 \<le> td" "td < 1024" "\<not> present (pm s td)" and p: "lw tp = td"
    and i: "i < PAGING_PAGES" "mem_map s i = 0" and bound: "\<And>j. unat (mem_map s j) + 1025 < 65536"
    and u: "u = fold (\<lambda>k. copy_pte (elem (0xfffff000 AND pm s fd) k) (elem (frame i) k)) [0..<1024]
      (stl tp (frame i OR 7) (take_frame i s))"
  shows "mm_inv ext u" and "\<And>e. e < 1024 \<Longrightarrow> e \<noteq> td \<Longrightarrow> pm u e = pm s e" and "present (pm u td)"
    and "\<And>z. live s z \<Longrightarrow> fst z \<noteq> td \<Longrightarrow> fst z \<noteq> fd \<Longrightarrow> live u z \<and> slot u z = slot s z"
    and "\<And>k. k < 1024 \<Longrightarrow> slot u (td, Some k) = shared (slot s (fd, Some k)) \<and> slot u (fd, Some k) = parent (slot s (fd, Some k))"
    and "\<And>j. unat (mem_map u j) \<le> unat (mem_map s j) + 1025" and "pfn (pm u td) = 512 + i"
proof -
  define a where "a = stl tp (frame i OR 7) (take_frame i s)"
  note tk = mm_inv_table_taken [OF inv i td p, folded a_def]
  have ne: "fd \<noteq> td" using fd td by auto
  let ?Tf = "pfn (pm s fd)" and ?Tt = "512 + i"
  have T: "?Tf = pfn (pm a fd)" "?Tt = pfn (pm a td)" "pm a fd = pm s fd"
    using tk(3) [OF fd(2) ne] tk(4) i by simp_all
  have Tf: "512 \<le> ?Tf" using slot_frame(2) [OF inv, of "(fd, None)"] fd by simp
  have ff: "live a (fd, Some k) \<and> slot a (fd, Some k) = slot s (fd, Some k)" if "k < 1024" for k
    using tk(2) [of "(fd, Some k)"] fd that ne by (simp del: slot_simps)
  have other: "pfn (pm a e) \<noteq> ?Tf" if "2 \<le> e" "e < 1024" "present (pm a e)" "e \<noteq> fd" for e
    using private_unique [OF tk(1), of "(fd, None)" "(e, None)"] that fd T(3) Tf by auto
  have otherT: "pfn (pm a e) \<noteq> ?Tt" if "2 \<le> e" "e < 1024" "present (pm a e)" "e \<noteq> td" for e
    using private_unique [OF tk(1), of "(td, None)" "(e, None)"] that td tk(4) T(2) by auto
  have TT: "?Tf \<noteq> ?Tt" using otherT [of fd] fd ne T(3) by auto
  have tab: "0xfffff000 AND pm a td = frame i"
  proof -
    have "unat (0xfffff000 AND pm a td) = unat (frame i)"
      using i(1) T(2) by (simp add: and_fffff000 unat_frame pfn_def)
    then show ?thesis by (simp add: word_unat_eq_iff)
  qed
  have v: "pfn (pm a (?Tf * 1024 + k)) < 2048 \<and> (512 \<le> pfn (pm a (?Tf * 1024 + k)) \<longrightarrow> 2 \<le> fd \<and> present (pm a fd))"
    if "k < 1024" "present (pm a (?Tf * 1024 + k))" for k
    using slot_frame(1) [OF tk(1), of "(fd, Some k)"] that fd T(3) by simp
  have ba: "unat (mem_map a j) + 1024 < 65536" for j using tk(6) [of j] bound [of j] by simp
  have "u = fold (\<lambda>k. copy_pte (elem (0xfffff000 AND pm a fd) k) (elem (0xfffff000 AND pm a td) k)) [0..<1024] a"
    using u tab T(3) by (simp add: a_def)
  from copy_table_ok [OF tk(1) td(1,2) _ _ T(1,2) TT fd(2) _ _ v ba this] tk(4,5) Tf
  have c: "mm_inv ext u" "\<And>k. k < 1024 \<Longrightarrow> pm u (?Tt * 1024 + k) = shared (pm a (?Tf * 1024 + k))"
    "\<And>k. k < 1024 \<Longrightarrow> pm u (?Tf * 1024 + k) = (if 512 \<le> pfn (pm a (?Tf * 1024 + k)) \<and> present (pm a (?Tf * 1024 + k))
       then shared (pm a (?Tf * 1024 + k)) else pm a (?Tf * 1024 + k))"
    "\<And>x. x \<notin> (\<lambda>k. ?Tt * 1024 + k) ` {..<1024} \<Longrightarrow> x \<notin> (\<lambda>k. ?Tf * 1024 + k) ` {..<1024} \<Longrightarrow> pm u x = pm a x"
    "\<And>j. unat (mem_map u j) \<le> unat (mem_map a j) + 1024" by auto
  have da: "pm u e = pm a e" if "e < 1024" for e using c(4) [OF row_out row_out] that Tf by simp
  show "mm_inv ext u" by (rule c(1))
  show "pm u e = pm s e" if "e < 1024" "e \<noteq> td" for e using that da tk(3) by simp
  show "present (pm u td)" "pfn (pm u td) = 512 + i" using da td tk(4) i(1) by simp_all
  show "slot u (td, Some k) = shared (slot s (fd, Some k)) \<and> slot u (fd, Some k) = parent (slot s (fd, Some k))"
    if k: "k < 1024" for k
    using c(2,3) [OF k] ff [OF k] da [OF td(2)] da [OF fd(2)] T(2,3) by (auto simp: parent_def shared_def)
  show "unat (mem_map u j) \<le> unat (mem_map s j) + 1025" for j using c(5) [of j] tk(6) [of j] by simp
  fix z assume z: "live s z" "fst z \<noteq> td" "fst z \<noteq> fd"
  obtain e l where ze: "z = (e, l)" by (cases z)
  have za: "live a z" "slot a z = slot s z" using tk(2) z by auto
  have "live u z \<and> slot u z = slot a z"
  proof (cases l)
    case None
    with ze za da show ?thesis by auto
  next
    case (Some k)
    with ze za have e: "2 \<le> e" "e < 1024" "present (pm a e)" "k < 1024" by auto
    have "pfn (pm a e) * 1024 + k \<noteq> T' * 1024 + l'" if "T' \<in> {?Tt, ?Tf}" "l' < 1024" for T' l'
      using other [OF e(1-3)] otherT [OF e(1-3)] z ze e(4) that by (auto simp: table_index_inj)
    then have "pm u (pfn (pm a e) * 1024 + k) = pm a (pfn (pm a e) * 1024 + k)"
      by (intro c(4)) blast+
    with ze Some e da show ?thesis by auto
  qed
  with za show "live u z \<and> slot u z = slot s z" by simp
qed

text \<open>The frames that nobody uses; copying a table takes one of them.\<close>

definition free_frames :: "'z mm_st_scheme \<Rightarrow> nat" where
  "free_frames s = card {i. i < PAGING_PAGES \<and> mem_map s i = 0}"

lemma free_frames_less:
  assumes "\<And>j. j < PAGING_PAGES \<Longrightarrow> j \<noteq> i \<Longrightarrow> mem_map s j = 0 \<Longrightarrow> mem_map t j = 0"
  shows "free_frames s \<le> free_frames t + 1"
proof -
  have "{j. j < PAGING_PAGES \<and> mem_map s j = 0} \<subseteq> insert i {j. j < PAGING_PAGES \<and> mem_map t j = 0}" using assms by auto
  then have "free_frames s \<le> card (insert i {j. j < PAGING_PAGES \<and> mem_map t j = 0})"
    unfolding free_frames_def by (intro card_mono) auto
  also have "\<dots> \<le> free_frames t + 1" unfolding free_frames_def by (simp add: card_insert_if)
  finally show ?thesis .
qed

lemma copy_dir_free:
  fixes s u :: "'z mm_st_scheme"
  assumes inv: "mm_inv ext s" "mm_inv ext u" and fd: "2 \<le> fd" "fd < 1024" "present (pm s fd)" and td: "2 \<le> td" "td < 1024"
    and dir: "\<And>e. e < 1024 \<Longrightarrow> e \<noteq> td \<Longrightarrow> pm u e = pm s e" and tab: "pfn (pm u td) = 512 + i"
    and oth: "\<And>z. live s z \<Longrightarrow> fst z \<noteq> td \<Longrightarrow> fst z \<noteq> fd \<Longrightarrow> live u z \<and> slot u z = slot s z"
    and cp: "\<And>k. k < 1024 \<Longrightarrow> slot u (td, Some k) = shared (slot s (fd, Some k)) \<and> slot u (fd, Some k) = parent (slot s (fd, Some k))"
    and j: "j < PAGING_PAGES" "j \<noteq> i" "mem_map s j = 0"
  shows "mem_map u j = 0"
proof -
  have j': "j < 1536" using j by (simp add: PAGING_PAGES_eq)
  have none: "owners s j = {}" "ext j = 0" using count_frame [OF inv(1) j'] j(3) by simp_all
  have src: "present v \<Longrightarrow> pfn v \<noteq> 512 + j" if "v = slot s z" "live s z" for v z using none(1) that unfolding owners_def by blast
  have "x \<notin> owners u j" for x
  proof
    assume "x \<in> owners u j"
    then have x: "live u x" "present (slot u x)" "pfn (slot u x) = 512 + j" by (auto simp: owners_def)
    obtain e l where el: "x = (e, l)" by (cases x)
    show False
    proof (cases l)
      case None
      then have "e \<noteq> td" using x(3) tab j(2) el by auto
      then have "slot u x = slot s (e, None)" "live s (e, None)" using x(1) dir [of e] el None by auto
      from src [OF this] x show False by simp
    next
      case (Some k)
      with x(1) el have e: "2 \<le> e" "e < 1024" "present (pm u e)" "k < 1024" by auto
      have f: "live s (fd, Some k)" using fd e(4) by simp
      consider "e = td" | "e = fd" | "e \<noteq> td" "e \<noteq> fd" by blast
      then show False
      proof cases
        case 3
        then have "live s x" using dir [OF e(2)] e el Some by simp
        with oth [OF this] src [OF refl this] x 3 el show False by auto
      qed (use cp [OF e(4)] src [OF refl f] x el Some in \<open>auto simp: shared_def parent_def split: if_splits\<close>)
    qed
  qed
  then have "owners u j = {}" by blast
  then show ?thesis using count_frame [OF inv(2) j'] none(2) by (simp add: unat_eq_0)
qed

lemma lw_next: "lw p < 1024 \<Longrightarrow> lw (p + 4) = lw p + 1"
proof -
  assume "lw p < 1024"
  then have "unat p div 4 < 1024" by (simp add: lw_def)
  then have "unat p < 4096" by linarith
  then have "unat p + 4 * 1 < 2 ^ 32" by simp
  from lw_elem [OF this] show ?thesis by (simp add: elem_def)
qed

text \<open>
  What copying \<open>n\<close> directory entries from \<open>fd\<close> to \<open>td\<close> promises: nothing outside the two ranges changes,
  and on success each table of the child has the shared form of the parent's entries.
\<close>

definition copied :: "nat \<Rightarrow> nat \<Rightarrow> nat \<Rightarrow> 'z mm_st_scheme \<Rightarrow> 'z mm_st_scheme \<Rightarrow> bool" where
  "copied n fd td s t \<longleftrightarrow> (\<forall>j<n. present (pm t (td + j)) = present (pm s (fd + j)) \<and>
     (present (pm s (fd + j)) \<longrightarrow> (\<forall>k<1024. slot t (td + j, Some k) = shared (slot s (fd + j, Some k)) \<and>
        slot t (fd + j, Some k) = parent (slot s (fd + j, Some k)))))"

definition others_kept :: "nat \<Rightarrow> nat \<Rightarrow> nat \<Rightarrow> 'z mm_st_scheme \<Rightarrow> 'z mm_st_scheme \<Rightarrow> bool" where
  "others_kept n fd td s t \<longleftrightarrow> (\<forall>e<1024. e \<notin> {td..<td + n} \<longrightarrow> pm t e = pm s e) \<and>
     (\<forall>z. live s z \<longrightarrow> fst z \<notin> {td..<td + n} \<longrightarrow> fst z \<notin> {fd..<fd + n} \<longrightarrow> live t z \<and> slot t z = slot s z)"

lemma others_kept_trans:
  assumes "others_kept 1 fd td s u" and "others_kept n (fd + 1) (td + 1) u t"
  shows "others_kept (Suc n) fd td s t"
proof -
  have sub: "x \<notin> {td..<td + Suc n} \<Longrightarrow> x \<notin> {td..<td + 1} \<and> x \<notin> {td + 1..<td + 1 + n}" for x td :: nat by auto
  show ?thesis
    unfolding others_kept_def
  proof (intro conjI allI impI)
    fix e assume "e < (1024::nat)" "e \<notin> {td..<td + Suc n}"
    with assms sub [of e td] show "pm t e = pm s e" unfolding others_kept_def by metis
  next
    fix z assume "live s z" "fst z \<notin> {td..<td + Suc n}" "fst z \<notin> {fd..<fd + Suc n}"
    with assms sub [of "fst z" td] sub [of "fst z" fd] show "live t z" "slot t z = slot s z"
      unfolding others_kept_def by metis+
  qed
qed

lemma copied_Suc:
  assumes kept: "others_kept n (fd + 1) (td + 1) u t" and rest: "copied n (fd + 1) (td + 1) u t"
    and first: "copied 1 fd td s u" and one: "others_kept 1 fd td s u"
    and r: "2 \<le> fd" "2 \<le> td" "fd + n < 1024" "td + n < 1024" "fd + n < td \<or> td + n < fd"
  shows "copied (Suc n) fd td s t"
  unfolding copied_def
proof (intro allI impI)
  fix j assume j: "j < Suc n"
  show "present (pm t (td + j)) = present (pm s (fd + j)) \<and>
     (present (pm s (fd + j)) \<longrightarrow> (\<forall>k<1024. slot t (td + j, Some k) = shared (slot s (fd + j, Some k)) \<and>
        slot t (fd + j, Some k) = parent (slot s (fd + j, Some k))))"
  proof (cases j)
    case 0
    have d: "pm t td = pm u td" "pm t fd = pm u fd" "pm u fd = pm s fd"
      using kept one r unfolding others_kept_def by auto
    have "live u (td, Some k) \<longrightarrow> slot t (td, Some k) = slot u (td, Some k)"
      "live u (fd, Some k) \<longrightarrow> slot t (fd, Some k) = slot u (fd, Some k)" for k
      using kept r unfolding others_kept_def by (auto simp del: slot_simps live_simps)
    then show ?thesis using first d r 0 unfolding copied_def by (simp del: slot_simps)
  next
    case (Suc i)
    then have i: "i < n" and jj: "fd + j = fd + 1 + i" "td + j = td + 1 + i" using j by auto
    have d: "pm u (fd + j) = pm s (fd + j)" using one r j unfolding others_kept_def by auto
    have sl: "slot u (fd + j, Some k) = slot s (fd + j, Some k)"
      if "present (pm s (fd + j))" "k < 1024" for k
      using one r j Suc that unfolding others_kept_def
      by (auto simp del: slot_simps)
    from rest i have "present (pm t (td + j)) = present (pm u (fd + j)) \<and>
     (present (pm u (fd + j)) \<longrightarrow> (\<forall>k<1024. slot t (td + j, Some k) = shared (slot u (fd + j, Some k)) \<and>
        slot t (fd + j, Some k) = parent (slot u (fd + j, Some k))))"
      unfolding copied_def jj by blast
    then show ?thesis using sl d by (simp del: slot_simps)
  qed
qed

lemma copy_dirs_ok:
  fixes s :: "'z mm_st_scheme"
  assumes "mm_inv ext s" and "from \<noteq> 0" and "lw fp = fd" "lw tp = td"
    and "2 \<le> fd" "fd + n \<le> 1024" "2 \<le> td" "td + n \<le> 1024" and "fd + n \<le> td \<or> td + n \<le> fd"
    and "\<And>j. j < n \<Longrightarrow> \<not> present (pm s (td + j))" and "\<And>i. unat (mem_map s i) + 1025 * n < 65536"
  shows "\<exists>r t. copy_dirs n from fp tp s = Ok r t \<and> mm_inv ext t \<and> others_kept n fd td s t \<and>
    (r = 0 \<and> copied n fd td s t \<or> r = -1 \<and> free_frames s < n)"
  using assms
proof (induction n arbitrary: fp tp fd td s)
  case 0
  then show ?case by (auto simp: others_kept_def copied_def)
next
  case (Suc n)
  have r: "2 \<le> fd" "2 \<le> td" "fd + n < 1024" "td + n < 1024" "fd + n < td \<or> td + n < fd" "fd < 1024" "td < 1024"
    using Suc.prems by auto
  have ld: "ldl tp s = pm s td" "ldl fp s = pm s fd" using Suc.prems(3,4) by (simp_all add: ldl_def)
  have abs: "\<not> present (pm s td)" using Suc.prems(10) [of 0] by simp
  have nxt: "lw (fp + 4) = fd + 1" "lw (tp + 4) = td + 1"
    using lw_next [of fp] lw_next [of tp] Suc.prems(3,4) r by simp_all
  have rest: ?case if u: "copy_dirs (Suc n) from fp tp s = copy_dirs n from (fp + 4) (tp + 4) u"
    "mm_inv ext u" "others_kept 1 fd td s u" "copied 1 fd td s u"
    "\<And>i. unat (mem_map u i) \<le> unat (mem_map s i) + 1025" "free_frames s \<le> free_frames u + 1" for u
  proof -
    have dj: "fd + 1 + n \<le> td + 1 \<or> td + 1 + n \<le> fd + 1" using r by linarith
    have "pm u (td + 1 + j) = pm s (td + 1 + j)" if "j < n" for j
      using u(3) that r unfolding others_kept_def by auto
    then have absu: "\<not> present (pm u (td + 1 + j))" if "j < n" for j
      using Suc.prems(10) [of "Suc j"] that by simp
    have bu: "unat (mem_map u i) + 1025 * n < 65536" for i using u(5) [of i] Suc.prems(11) [of i] by simp
    from Suc.IH [OF u(2) Suc.prems(2) nxt _ _ _ _ dj absu bu] r obtain x t where
      t: "copy_dirs n from (fp + 4) (tp + 4) u = Ok x t" "mm_inv ext t"
        "others_kept n (fd + 1) (td + 1) u t" "x = 0 \<and> copied n (fd + 1) (td + 1) u t \<or> x = -1 \<and> free_frames u < n" by auto
    have "x = 0 \<and> copied (Suc n) fd td s t \<or> x = -1 \<and> free_frames s < Suc n"
      using t(4) u(6) copied_Suc [OF t(3) _ u(4,3) r(1-5)] by auto
    then show ?thesis using t(1,2) u(1) others_kept_trans [OF u(3) t(3)] by auto
  qed
  show ?case
  proof (cases "present (pm s fd)")
    case False
    then have "copy_dirs (Suc n) from fp tp s = copy_dirs n from (fp + 4) (tp + 4) s" using ld abs by simp
    from rest [OF this Suc.prems(1)] False abs show ?thesis by (auto simp: others_kept_def copied_def)
  next
    case True
    show ?thesis
    proof (cases s rule: get_free_page_cases)
      case full
      then have "copy_dirs (Suc n) from fp tp s = Ok (-1) s" using ld abs True by simp
      moreover have "free_frames s = 0" using full(2) by (simp add: free_frames_def)
      ultimately show ?thesis using Suc.prems(1) by (auto simp: others_kept_def)
    next
      case (frame i)
      let ?u = "fold (\<lambda>k. copy_pte (elem (0xfffff000 AND pm s fd) k) (elem (frame i) k)) [0..<1024]
        (stl tp (frame i OR 7) (take_frame i s))"
      have b: "unat (mem_map s j) + 1025 < 65536" for j using Suc.prems(11) [of j] by simp
      note c = copy_dir_ok [OF Suc.prems(1) r(1,6) True r(2,7) abs Suc.prems(4) frame(1,2) b refl]
      have "copy_dirs (Suc n) from fp tp s = copy_dirs n from (fp + 4) (tp + 4) ?u"
        using ld abs True frame Suc.prems(2) by simp
      moreover have "others_kept 1 fd td s ?u"
        unfolding others_kept_def using c(2,4) by (auto simp del: slot_simps live_simps)
      moreover have "copied 1 fd td s ?u"
        unfolding copied_def using c(3,5) True by (simp del: slot_simps)
      moreover have "free_frames s \<le> free_frames ?u + 1"
        by (rule free_frames_less [of i], rule copy_dir_free [OF Suc.prems(1) c(1) r(1,6) True r(2,7) c(2) c(7) c(4) c(5)])
      ultimately show ?thesis using rest c(1,6) by blast
    qed
  qed
qed

text \<open>
  C6: \<open>copy_page_tables\<close> between two disjoint aligned ranges of user space (the call of \<open>fork\<close>) never
  panics when the target is empty. It keeps the reference counts exact and leaves no frame with
  several references writable; it returns 0 after giving the child, for every page of the parent, the
  same frame at the same offset without the write bit (which the parent loses too for its private
  frames), or -1, but only when there are fewer free frames than directory entries to copy; and it changes no entry outside the two ranges.
\<close>

theorem copy_page_tables_ok:
  assumes inv: "mm_inv ext s" and ranges: "user_range from sz" "user_range to sz"
    and n: "n = unat (drop_bit 22 (sz + 0x3fffff))"
    and fd: "fd = unat from div 2 ^ 22" and td: "td = unat to div 2 ^ 22"
    and disjoint: "fd + n \<le> td \<or> td + n \<le> fd"
    and empty: "\<And>j. j < n \<Longrightarrow> \<not> present (pm s (td + j))"
    and bound: "\<And>i. unat (mem_map s i) + 1025 * n < 65536"
  shows "\<exists>r t. copy_page_tables from to sz s = Ok r t \<and> mm_inv ext t \<and> others_kept n fd td s t \<and>
    (r = 0 \<and> copied n fd td s t \<or> r = -1 \<and> free_frames s < n)"
proof -
  have r: "2 \<le> fd" "fd + n \<le> 1024" "2 \<le> td" "td + n \<le> 1024" "from AND 0x3fffff = 0" "to AND 0x3fffff = 0"
    using ranges fd td n by (auto simp: user_range_def)
  then have "from \<noteq> 0" using fd by auto
  from copy_dirs_ok [OF inv this lw_dir [of "from", folded fd] lw_dir [of to, folded td] r(1-4) disjoint empty bound] r(5,6)
  show ?thesis by (simp add: copy_page_tables_def flip: n)
qed

section \<open>Page faults\<close>

text \<open>A private page that the kernel holds is entered, writable, in an empty slot.\<close>

lemma mm_inv_map_page:
  assumes inv: "mm_inv ext s" and d: "2 \<le> d" "d < 1024" "present (pm s d)" and k: "k < 1024"
    and x: "\<not> present (slot s (d, Some k))" and i: "i < PAGING_PAGES" "mem_map s i = 1" "ext i = 1"
    and t: "pm t = (pm s)(pfn (pm s d) * 1024 + k := v)" "present v" "pfn v = 512 + i" and m: "mem_map t = mem_map s"
  shows "mm_inv (ext(i := 0)) t"
proof (rule mm_inv_entry [OF inv d k t(1)])
  show "unat (mem_map t j) + of_bool ((d, Some k) \<in> owners s j) + ext j =
      unat (mem_map s j) + of_bool (present v \<and> pfn v = 512 + j) + (ext(i := 0)) j" for j
    using x i t m by (auto simp: owners_def)
qed (use i t m private_count [OF inv] in \<open>auto simp: PAGING_PAGES_eq\<close>)

definition udir :: "u32 \<Rightarrow> nat" where "udir a = unat a div 2 ^ 22"
definition upage :: "u32 \<Rightarrow> nat" where "upage a = unat a div 4096 mod 1024"

lemma udir_lt: "udir a < 1024"
  using word32_less [of a] by (simp add: udir_def)

lemma upage_lt: "upage a < 1024"
  by (simp add: upage_def)

lemma upage_eq: "unat (drop_bit 12 a AND 0x3ff) = upage a"
  by (simp add: upage_def and_3ff unat_drop_bit)

text \<open>
  \<open>mapped d k v s t\<close>: of the slots that were live in \<open>s\<close> only \<open>(d, Some k)\<close> has changed, and it holds \<open>v\<close>.
\<close>

definition mapped :: "nat \<Rightarrow> nat \<Rightarrow> u32 \<Rightarrow> 'z mm_st_scheme \<Rightarrow> 'z mm_st_scheme \<Rightarrow> bool" where
  "mapped d k v s t \<longleftrightarrow> live t (d, Some k) \<and> slot t (d, Some k) = v \<and>
     (\<forall>z. live s z \<longrightarrow> z \<noteq> (d, Some k) \<longrightarrow> z \<noteq> (d, None) \<longrightarrow> live t z \<and> slot t z = slot s z)"

lemma put_page_ok:
  assumes inv: "mm_inv ext s" and a: "2 \<le> udir a" and i: "i < PAGING_PAGES" "mem_map s i = 1" "ext i = 1"
    and abs: "present (pm s (udir a)) \<longrightarrow> \<not> present (slot s (udir a, Some (upage a)))"
  shows "put_page (frame i) a s = (0, s) \<and> \<not> present (pm s (udir a)) \<and> (\<forall>j<PAGING_PAGES. mem_map s j \<noteq> 0) \<or>
    (\<exists>t. put_page (frame i) a s = (frame i, t) \<and> mm_inv (ext(i := 0)) t \<and>
       mapped (udir a) (upage a) (frame i OR 7) s t \<and> mem_map t i = 1 \<and>
       (\<forall>k<1024. pm t ((512 + i) * 1024 + k) = pm s ((512 + i) * 1024 + k)))"
proof -
  let ?d = "udir a" and ?k = "upage a" and ?dir = "drop_bit 20 a AND 0xffc" and ?v = "frame i OR 7"
  note d = a udir_lt [of a] and k = upage_lt [of a]
  have dir: "lw ?dir = ?d" by (simp add: udir_def)
  have "\<not> frame i < LOW_MEM" using LOW_MEM_le [of "frame i"] i by simp
  moreover have "\<not> frame i > HIGH_MEMORY"
    using i by (simp add: word_less_nat_alt HIGH_MEMORY_def unat_frame PAGING_PAGES_eq)
  ultimately have put: "put_page (frame i) a s = (if present (pm s ?d)
      then (frame i, stl (elem (0xfffff000 AND pm s ?d) ?k) ?v s)
      else let (tmp, s3) = get_free_page s in if tmp = 0 then (0, s3)
        else (frame i, stl (elem tmp ?k) ?v (stl ?dir (tmp OR 7) s3)))"
    using i dir by (simp add: put_page_def Let_def upage_eq ldl_def)
  show ?thesis
  proof (cases "present (pm s ?d)")
    case True
    let ?t = "stl (elem (0xfffff000 AND pm s ?d) ?k) ?v s"
    have t: "pm ?t = (pm s)(pfn (pm s ?d) * 1024 + ?k := ?v)" using k by simp
    have "mm_inv (ext(i := 0)) ?t"
      using mm_inv_map_page [OF inv d True k mp [OF abs True] i t] i by simp
    moreover have "mapped ?d ?k ?v s ?t"
      using entry_upd [OF inv d True k t] d k True unfolding mapped_def by (simp del: slot_simps split_paired_All)
    moreover have "pfn (pm s ?d) \<noteq> 512 + i" using private_frame [OF inv i, of "(?d, None)"] d True by simp
    then have "pm ?t ((512 + i) * 1024 + x) = pm s ((512 + i) * 1024 + x)" if "x < 1024" for x
      using that k unfolding t fun_upd_apply by (simp only: table_index_inj) simp
    ultimately show ?thesis using put True i(2) by auto
  next
    case False
    show ?thesis
    proof (cases s rule: get_free_page_cases)
      case full
      with put False show ?thesis by simp
    next
      case (frame j)
      let ?u = "stl ?dir (frame j OR 7) (take_frame j s)" let ?t = "stl (elem (frame j) ?k) ?v ?u"
      note u = mm_inv_table_taken [OF inv frame(1,2) d False dir]
      have ij: "j \<noteq> i" using i frame by auto
      have pu: "present (pm ?u ?d)" "pfn (pm ?u ?d) = 512 + j" unfolding u(4) using frame by simp_all
      have t: "pm ?t = (pm ?u)(pfn (pm ?u ?d) * 1024 + ?k := ?v)" using k frame pu by simp
      have "slot ?u (?d, Some ?k) = 0" using u(5) [OF k] pu by simp
      then have "\<not> present (slot ?u (?d, Some ?k))" by (simp only: flag_bits not_False_eq_True)
      from mm_inv_map_page [OF u(1) d pu(1) k this i(1) _ i(3) t] i ij
      have "mm_inv (ext(i := 0)) ?t" by simp
      moreover have "mapped ?d ?k ?v s ?t"
        unfolding mapped_def
      proof (intro conjI allI impI)
        show "live ?t (?d, Some ?k)" "slot ?t (?d, Some ?k) = ?v"
          using entry_upd [OF u(1) d pu(1) k t, of "(?d, Some ?k)"] d k pu by (simp_all del: slot_simps)
        fix z assume z: "live s z" "z \<noteq> (?d, Some ?k)" "z \<noteq> (?d, None)"
        then have "fst z \<noteq> ?d" using False by (cases z; cases "snd z") auto
        with z u(2) have "live ?u z" "slot ?u z = slot s z" by blast+
        then show "live ?t z" "slot ?t z = slot s z"
          using entry_upd [OF u(1) d pu(1) k t, of z] z by auto
      qed
      moreover have "pm ?t ((512 + i) * 1024 + x) = pm s ((512 + i) * 1024 + x)" if x: "x < 1024" for x
      proof -
        have "(512 + i) * 1024 + x \<noteq> (512 + j) * 1024 + ?k" using x k ij by (simp only: table_index_inj) simp
        moreover have "((512 + i) * 1024 + x) div 1024 = 512 + i" using x by (simp only: div_mult_self3 div_less)
        ultimately show ?thesis using d dir ij unfolding t fun_upd_apply pu(2) by auto
      qed
      moreover have "mem_map ?t i = 1" using i(2) ij by simp
      ultimately show ?thesis using put False frame by auto
    qed
  qed
qed

text \<open>
  C7: a fault on an unmapped page of user space gets a private, zeroed, writable page. Either \<open>do_no_page\<close>
  maps at the faulting address a frame that was free: it has one user now, all of its 1024 words are zero, whatever it held
  before, the entry allows the user to write, all counts are exact and every other slot is kept. Or it
  ends the process with SIGSEGV because memory is full; on that exit one page may stay allocated with
  no user (\<open>ext\<close> grows by at most one).
\<close>

theorem do_no_page_ok:
  assumes inv: "mm_inv ext s" and a: "2 \<le> udir a"
    and abs: "present (pm s (udir a)) \<longrightarrow> \<not> present (slot s (udir a, Some (upage a)))"
  shows "(\<exists>t i. do_no_page err a s = Ok () t \<and> mm_inv ext t \<and> i < PAGING_PAGES \<and> mem_map s i = 0 \<and> mem_map t i = 1 \<and>
       mapped (udir a) (upage a) (frame i OR 7) s t \<and> (\<forall>k<1024. pm t ((512 + i) * 1024 + k) = 0)) \<or>
    (\<exists>t ext'. do_no_page err a s = Die (int SIGSEGV) t \<and> mm_inv ext' t \<and>
       (ext' = ext \<or> (\<exists>i. ext' = ext(i := Suc 0))) \<and> (\<forall>j<PAGING_PAGES. mem_map t j \<noteq> 0))"
proof (cases s rule: get_free_page_cases)
  case full
  then show ?thesis using inv by (auto simp: do_no_page_def)
next
  case (frame i)
  let ?u = "take_frame i s"
  note u = mm_inv_take_frame [OF inv frame(1,2)]
  have ext: "ext i = 0" using count_frame [OF inv, of i] frame by (simp add: PAGING_PAGES_eq)
  have dir: "pm ?u (udir a) = pm s (udir a)" using udir_lt [of a] by simp
  have mi: "mem_map ?u i = 1" "(ext(i := 1)) i = 1" by simp_all
  have "present (pm ?u (udir a)) \<longrightarrow> \<not> present (slot ?u (udir a, Some (upage a)))"
    using abs u(3) [of "(udir a, Some (upage a))"] dir a udir_lt upage_lt by (auto simp del: slot_simps)
  from put_page_ok [OF u(1) a frame(1) mi this] show ?thesis
  proof (elim disjE conjE exE)
    assume "put_page (frame i) a ?u = (0, ?u)" "\<forall>j<PAGING_PAGES. mem_map ?u j \<noteq> 0"
    then have "do_no_page err a s = Die (int SIGSEGV) ?u" using frame by (simp add: do_no_page_def)
    with \<open>\<forall>j<PAGING_PAGES. mem_map ?u j \<noteq> 0\<close> u(1) show ?thesis by (metis One_nat_def)
  next
    fix t assume t: "put_page (frame i) a ?u = (frame i, t)" "mm_inv ((ext(i := 1))(i := 0)) t"
      "mapped (udir a) (upage a) (frame i OR 7) ?u t" "mem_map t i = 1"
      "\<forall>k<1024. pm t ((512 + i) * 1024 + k) = pm ?u ((512 + i) * 1024 + k)"
    have "((512 + i) * 1024 + k) div 1024 = 512 + i" if "k < 1024" for k
      using that by (simp only: div_mult_self3 div_less)
    then have "\<forall>k<1024. pm t ((512 + i) * 1024 + k) = 0" using t(5) by simp
    moreover have "do_no_page err a s = Ok () t" using t(1) frame by (simp add: do_no_page_def)
    moreover have "mapped (udir a) (upage a) (frame i OR 7) s t"
      using t(3) u(2,3) unfolding mapped_def by metis
    moreover have "(ext(i := 1))(i := 0) = ext" using ext by (simp add: fun_upd_idem)
    ultimately show ?thesis using t(2,4) frame by auto
  qed
qed

lemma fold_copy:
  assumes "set ks \<subseteq> {..<1024}" and "i < PAGING_PAGES" and "pfn p \<noteq> 512 + i"
  shows "fold (\<lambda>k s. stl (elem (frame i) k) (ldl (elem (0xfffff000 AND p) k) s) s) ks s =
    s\<lparr>pm := \<lambda>x. if x \<in> (\<lambda>k. (512 + i) * 1024 + k) ` set ks then pm s (pfn p * 1024 + x mod 1024) else pm s x\<rparr>"
  using assms(1)
proof (induction ks arbitrary: s)
  case (Cons k ks)
  then have k: "k < 1024" "set ks \<subseteq> {..<1024}" by auto
  have ne: "pfn p * 1024 + x mod 1024 \<noteq> (512 + i) * 1024 + k" for x
    using assms(3) k by (simp only: table_index_inj) simp
  let ?s = "stl (elem (frame i) k) (ldl (elem (0xfffff000 AND p) k) s) s" and ?a = "(512 + i) * 1024"
  have s: "pm ?s = (pm s)(?a + k := pm s (pfn p * 1024 + k))" using k assms(2) by (simp add: ldl_def)
  have "(\<lambda>x. if x \<in> (\<lambda>k. ?a + k) ` set ks then pm ?s (pfn p * 1024 + x mod 1024) else pm ?s x) =
    (\<lambda>x. if x \<in> (\<lambda>k. ?a + k) ` set (k # ks) then pm s (pfn p * 1024 + x mod 1024) else pm s x)"
  proof
    fix x
    have "(?a + k) mod 1024 = k" using k by (simp only: mod_mult_self3 mod_less)
    then show "(if x \<in> (\<lambda>k. ?a + k) ` set ks then pm ?s (pfn p * 1024 + x mod 1024) else pm ?s x) =
      (if x \<in> (\<lambda>k. ?a + k) ` set (k # ks) then pm s (pfn p * 1024 + x mod 1024) else pm s x)"
      using ne [of x] unfolding s by (cases "x = ?a + k") auto
  qed
  then show ?case
    unfolding fold_Cons comp_def Cons.IH [OF k(2)] by (simp only: stl_def) simp
qed simp

lemma copy_page_frame:
  assumes "i < PAGING_PAGES" and "pfn p \<noteq> 512 + i"
  shows "pm (copy_page (0xfffff000 AND p) (frame i) s) = (\<lambda>x. if x \<in> (\<lambda>k. (512 + i) * 1024 + k) ` {0..<1024}
      then pm s (pfn p * 1024 + x mod 1024) else pm s x)"
    and "mem_map (copy_page (0xfffff000 AND p) (frame i) s) = mem_map s"
proof -
  have "set [0..<1024] \<subseteq> {..<1024::nat}" by auto
  note fc = fold_copy [OF this assms]
  show "pm (copy_page (0xfffff000 AND p) (frame i) s) = (\<lambda>x. if x \<in> (\<lambda>k. (512 + i) * 1024 + k) ` {0..<1024}
      then pm s (pfn p * 1024 + x mod 1024) else pm s x)"
    unfolding copy_page_def fc set_upt by simp
  show "mem_map (copy_page (0xfffff000 AND p) (frame i) s) = mem_map s"
    unfolding copy_page_def fc by simp
qed

text \<open>The words of the page that an entry maps.\<close>

definition page_word :: "'z mm_st_scheme \<Rightarrow> u32 \<Rightarrow> nat \<Rightarrow> u32" where
  "page_word s v k = pm s (pfn v * 1024 + k)"

lemma mm_inv_replace_page:
  assumes inv: "mm_inv ext s" and d: "2 \<le> d" "d < 1024" "present (pm s d)" and k: "k < 1024"
    and v: "v = slot s (d, Some k)" "present v" "512 \<le> pfn v \<Longrightarrow> mem_map s (pfn v - 512) \<noteq> 1"
    and i: "i < PAGING_PAGES" "mem_map s i = 0"
    and t: "pm t = (pm (take_frame i s))(pfn (pm s d) * 1024 + k := frame i OR 7)"
    and m: "mem_map t = (if 512 \<le> pfn v then (mem_map s)(i := 1, pfn v - 512 := mem_map s (pfn v - 512) - 1)
      else (mem_map s)(i := 1))"
  shows "mm_inv ext t"
proof -
  let ?u = "take_frame i s" and ?x = "(d, Some k)"
  note u = mm_inv_take_frame [OF inv i]
  have lx: "live s ?x" using d k by simp
  have du: "pm ?u d = pm s d" using d by simp
  have sx: "slot ?u ?x = v" using u(3) [OF lx] v by (simp del: slot_simps)
  have ext: "ext i = 0" using count_frame [OF inv, of i] i by (simp add: PAGING_PAGES_eq)
  have own: "?x \<in> owners ?u j \<longleftrightarrow> pfn v = 512 + j" for j
    using lx u(2) sx v(2) by (simp add: owners_def del: slot_simps live_simps)
  have vi: "pfn v \<noteq> 512 + i" using table_not_free [OF inv i(2) lx] v(1,2) by (simp del: slot_simps)
  show ?thesis
  proof (rule mm_inv_entry [OF u(1) d(1,2) _ k])
    show "pm t = (pm ?u)(pfn (pm ?u d) * 1024 + k := frame i OR 7)" unfolding du by (rule t)
    have old: "512 \<le> pfn v \<Longrightarrow> mem_map s (pfn v - 512) \<noteq> 0" using owned_count(1) [OF inv lx] v(1,2) by (simp del: slot_simps)
    show "unat (mem_map t j) + of_bool (?x \<in> owners ?u j) + (ext(i := 1)) j =
      unat (mem_map ?u j) + of_bool (present (frame i OR 7) \<and> pfn (frame i OR 7) = 512 + j) + ext j" for j
      using old unat_u16_dec [of "mem_map s (pfn v - 512)"] ext vi i(1) by (auto simp: own m)
    show "present (frame i OR 7) \<Longrightarrow> pfn (frame i OR 7) < 2048" using i by (simp add: PAGING_PAGES_eq)
    show "mem_map t (pfn (frame i OR 7) - 512) = 1" using vi i by (auto simp: m)
    fix z assume z: "live ?u z" "z \<noteq> ?x" "present (slot ?u z)" "512 \<le> pfn (slot ?u z)"
      "snd z = None \<or> writable (slot ?u z)"
    have "pfn (slot ?u z) \<noteq> pfn v"
      using private_unique [OF u(1) z(1,3,4,5), of ?x] z(2) lx u(2) sx v(2) by (auto simp del: slot_simps live_simps)
    moreover have "pfn (slot ?u z) \<noteq> 512 + i"
      using table_not_free [OF inv i(2), of z] u(2,3) z(1,3) by auto
    ultimately show "mem_map t (pfn (slot ?u z) - 512) = 1"
      using private_count [OF u(1) z(1,3,4,5)] z(4) by (auto simp: m)
  qed (use d du in auto)
qed

lemma un_wp_page_ok:
  fixes s :: "'z mm_st_scheme"
  assumes inv: "mm_inv ext s" and d: "2 \<le> d" "d < 1024" "present (pm s d)" and k: "k < 1024"
    and v: "v = slot s (d, Some k)" "present v" and p: "lw p = pfn (pm s d) * 1024 + k"
  shows "un_wp_page p s = Die (int SIGSEGV) s \<and> (\<forall>i<PAGING_PAGES. mem_map s i \<noteq> 0) \<or>
    (\<exists>t w. un_wp_page p s = Ok () t \<and> mm_inv ext t \<and> mapped d k w s t \<and> present w \<and> writable w \<and>
       (\<forall>l<1024. page_word t w l = page_word s v l))"
proof -
  let ?x = "(d, Some k)"
  have lx: "live s ?x" using d k by simp
  have ld: "ldl p s = v" using p v by (simp add: ldl_def)
  have T: "512 \<le> pfn (pm s d)" using slot_frame(2) [OF inv, of "(d, None)"] d by simp
  have tab: "pfn v \<noteq> pfn (pm s d)"
    using private_unique [OF inv, of "(d, None)" ?x] d lx T v by auto
  have old: "LOW_MEM \<le> 0xfffff000 AND v \<longleftrightarrow> 512 \<le> pfn v" "512 \<le> pfn v \<Longrightarrow> MAP_NR (0xfffff000 AND v) = pfn v - 512"
    using LOW_MEM_le [of "0xfffff000 AND v"] MAP_NR_eq [of "0xfffff000 AND v"] by auto
  show ?thesis
  proof (cases "512 \<le> pfn v \<and> mem_map s (pfn v - 512) = 1")
    case True
    let ?t = "stl p (v OR 2) s"
    have t: "pm ?t = (pm s)(pfn (pm s d) * 1024 + k := v OR 2)" using p by simp
    have "un_wp_page p s = Ok () ?t" using True old by (simp add: un_wp_page_def Let_def ld)
    moreover have "mm_inv ext ?t"
    proof (rule mm_inv_entry [OF inv d k t])
      show "unat (mem_map ?t i) + of_bool (?x \<in> owners s i) + ext i =
          unat (mem_map s i) + of_bool (present (v OR 2) \<and> pfn (v OR 2) = 512 + i) + ext i" for i
        using lx v by (simp add: owners_def)
    qed (use True slot_frame(1) [OF inv lx] v private_count [OF inv] in auto)
    moreover have "mapped d k (v OR 2) s ?t"
      using entry_upd [OF inv d k t] lx unfolding mapped_def by (simp del: slot_simps live_simps split_paired_All)
    moreover have "page_word ?t (v OR 2) l = page_word s v l" if "l < 1024" for l
      using tab that k p by (simp add: page_word_def table_index_inj)
    ultimately show ?thesis using v by auto
  next
    case False
    show ?thesis
    proof (cases s rule: get_free_page_cases)
      case full
      then have "un_wp_page p s = Die (int SIGSEGV) s"
        using False old by (auto simp: un_wp_page_def Let_def ld)
      with full show ?thesis by blast
    next
      case (frame i)
      let ?u = "take_frame i s"
      let ?m = "if 512 \<le> pfn v then set_count (pfn v - 512) (mem_map ?u (pfn v - 512) - 1) ?u else ?u"
      let ?a = "stl p (frame i OR 7) ?m" let ?t = "copy_page (0xfffff000 AND v) (frame i) ?a"
      have vi: "pfn v \<noteq> 512 + i" using table_not_free [OF inv frame(2) lx] v by (simp del: slot_simps)
      have di: "pfn (pm s d) \<noteq> 512 + i" using table_not_free [OF inv frame(2), of "(d, None)"] d by simp
      have un: "un_wp_page p s = Ok () ?t"
        using False old frame by (auto simp: un_wp_page_def Let_def ld)
      have pa: "pm ?a = (pm ?u)(pfn (pm s d) * 1024 + k := frame i OR 7)" using p by simp
      have pt: "pm ?t = (\<lambda>x. if x \<in> (\<lambda>k. (512 + i) * 1024 + k) ` {0..<1024}
          then pm ?a (pfn v * 1024 + x mod 1024) else pm ?a x)" "mem_map ?t = mem_map ?a"
        by (rule copy_page_frame [OF frame(1) vi])+
      have ia: "mm_inv ext ?a"
      proof (rule mm_inv_replace_page [OF inv d k v _ frame(1,2) pa])
        show "512 \<le> pfn v \<Longrightarrow> mem_map s (pfn v - 512) \<noteq> 1" using False by simp
      qed (use vi in auto)
      have dir: "pm ?t e = pm ?a e" if "e < 1024" for e using that by (auto simp: pt)
      have keep: "pm ?t (pfn (pm ?a e) * 1024 + l) = pm ?a (pfn (pm ?a e) * 1024 + l)"
        if "2 \<le> e" "e < 1024" "present (pm ?a e)" "l < 1024" for e l
      proof -
        have "pfn (pm ?a e) \<noteq> 512 + i"
        proof
          assume e: "pfn (pm ?a e) = 512 + i"
          have "pm ?a e = pm s e" unfolding pa using that(2) T by auto
          with e that table_not_free [OF inv frame(2), of "(e, None)"] show False by simp
        qed
        then show ?thesis using that(4) by (auto simp: pt(1) table_index_inj simp del: add_mult_distrib)
      qed
      note sc = slots_cong [OF dir keep]
      have it: "mm_inv ext ?t"
        by (rule mm_inv_cong [OF sc _ ia]) (simp_all add: pt(2))
      note u = mm_inv_take_frame [OF inv frame(1,2)]
      have du: "pm ?u d = pm s d" using d by simp
      have pu: "present (pm ?u d)" using d du by simp
      note upd = entry_upd [OF u(1) d(1,2) pu k pa [folded du]]
      have "mapped d k (frame i OR 7) s ?t"
        unfolding mapped_def
      proof (intro conjI allI impI)
        show "live ?t ?x" "slot ?t ?x = frame i OR 7"
          using sc [of ?x] upd [of ?x] u(2) lx by (simp_all del: slot_simps live_simps)
        fix z assume z: "live s z" "z \<noteq> ?x" "z \<noteq> (d, None)"
        then show "live ?t z" "slot ?t z = slot s z"
          using sc [of z] upd [of z] u(2,3) [of z] by (simp_all del: slot_simps live_simps)
      qed
      moreover have "page_word ?t (frame i OR 7) l = page_word s v l" if l: "l < 1024" for l
      proof -
        have "((512 + i) * 1024 + l) mod 1024 = l" using l by (simp only: mod_mult_self3 mod_less)
        then have "pm ?t ((512 + i) * 1024 + l) = pm ?a (pfn v * 1024 + l)" using l by (simp only: pt) auto
        also have "\<dots> = pm ?u (pfn v * 1024 + l)" using tab l k by (simp only: pa) (simp add: table_index_inj)
        also have "\<dots> = pm s (pfn v * 1024 + l)"
        proof -
          have "(pfn v * 1024 + l) div 1024 = pfn v" using l by simp
          then show ?thesis using vi by simp
        qed
        finally show ?thesis using frame(1) by (simp add: page_word_def)
      qed
      ultimately show ?thesis using un it by (intro disjI2 exI [of _ ?t] exI [of _ "frame i OR 7"]) simp
    qed
  qed
qed

text \<open>
  C8: before the kernel writes to user memory, \<open>write_verify\<close> makes a mapped page private: afterwards
  the entry is writable and names a frame with exactly one reference, the page has the same contents
  as before, every other slot is unchanged, and all counts are exact. The only other outcome is
  SIGSEGV with memory full.
\<close>

theorem write_verify_ok:
  assumes inv: "mm_inv ext s" and a: "2 \<le> udir a" "present (pm s (udir a))"
    and v: "v = slot s (udir a, Some (upage a))" "present v"
  shows "write_verify a s = Die (int SIGSEGV) s \<and> (\<forall>i<PAGING_PAGES. mem_map s i \<noteq> 0) \<or>
    (\<exists>t w. write_verify a s = Ok () t \<and> mm_inv ext t \<and> mapped (udir a) (upage a) w s t \<and> writable w \<and>
       (512 \<le> pfn w \<longrightarrow> mem_map t (pfn w - 512) = 1) \<and> (\<forall>l<1024. page_word t w l = page_word s v l))"
proof -
  let ?d = "udir a" and ?k = "upage a"
  let ?p = "(pm s ?d AND 0xfffff000) + (drop_bit 10 a AND 0xffc)"
  note d = a(1) udir_lt [of a] a(2) and k = upage_lt [of a]
  have ld: "ldl (drop_bit 20 a AND 0xffc) s = pm s ?d" by (simp add: ldl_def udir_def)
  have "drop_bit 10 a AND 0xffc = 4 * of_nat ?k"
  proof -
    have "unat (drop_bit 10 a AND 0xffc) = 4 * ?k" by (simp add: and_ffc upage_def)
    then have "of_nat (unat (drop_bit 10 a AND 0xffc)) = (of_nat (4 * ?k) :: u32)" by simp
    then show ?thesis by simp
  qed
  then have "?p = elem (0xfffff000 AND pm s ?d) ?k" by (simp add: elem_def and.commute)
  then have p: "lw ?p = pfn (pm s ?d) * 1024 + ?k" using k by simp
  then have lp: "ldl ?p s = v" using v by (simp add: ldl_def)
  have wv: "write_verify a s = (if \<not> writable v then un_wp_page ?p s else Ok () s)"
    using a v lp by (simp add: write_verify_def ld Let_def three_and_bit) (simp add: present_def writable_def)
  have priv: "512 \<le> pfn w \<longrightarrow> mem_map t (pfn w - 512) = 1" if "mm_inv ext t" "mapped ?d ?k w s t" "present w" "writable w" for t w
    using that private_count [OF that(1), of "(?d, Some ?k)"] unfolding mapped_def by blast
  show ?thesis
  proof (cases "writable v")
    case True
    then have "mapped ?d ?k v s s" using d k v by (simp add: mapped_def)
    with True wv inv priv [OF inv this v(2)] show ?thesis by auto
  next
    case False
    with un_wp_page_ok [OF inv d k v p] wv priv show ?thesis by auto
  qed
qed

section \<open>A memory with one user page\<close>

definition mm_empty :: mm_st where
  "mm_empty = sched_st.extend two_tasks \<lparr>mem_map = (\<lambda>_. 0), pm = (\<lambda>_. 0)\<rparr>"

definition mm_demo :: mm_st where
  "mm_demo = stl (elem (frame 1534) 0) (frame 1535 OR 7)
     (stl (drop_bit 20 0x4000000 AND 0xffc) (frame 1534 OR 7) (take_frame 1534 (take_frame 1535 mm_empty)))"

lemma mm_empty_fields [simp]: "mem_map mm_empty = (\<lambda>_. 0)" "pm mm_empty = (\<lambda>_. 0)"
  by (simp_all add: mm_empty_def sched_st.extend_def)

lemma mm_empty_inv: "mm_inv (\<lambda>_. 0) mm_empty"
proof -
  have none: "\<not> (live mm_empty x \<and> present (slot mm_empty x))" for x
    by (cases x; cases "snd x") auto
  then have "owners mm_empty i = {}" for i unfolding owners_def by blast
  with none show ?thesis unfolding mm_inv_def slots_ok_def counts_ok_def private_ok_def
    by (auto simp del: split_paired_All live_simps slot_simps)
qed

lemma mm_demo_facts: "mm_inv (\<lambda>_. 0) mm_demo" "present (pm mm_demo 16)"
  "slot mm_demo (16, Some 0) = frame 1535 OR 7" "mem_map mm_demo = (\<lambda>_. 0)(1535 := 1, 1534 := 1)"
  "\<And>e. e < 1024 \<Longrightarrow> e \<noteq> 16 \<Longrightarrow> pm mm_demo e = 0"
proof -
  let ?a = "take_frame 1535 mm_empty" and ?d = "16 :: nat"
  let ?u = "stl (drop_bit 20 0x4000000 AND 0xffc) (frame 1534 OR 7) (take_frame 1534 ?a)"
  have a: "mm_inv ((\<lambda>_. 0)(1535 := 1)) ?a"
    using mm_inv_take_frame(1) [OF mm_empty_inv, of 1535] by (simp add: PAGING_PAGES_eq)
  have dir: "lw (drop_bit 20 0x4000000 AND 0xffc) = ?d" by (simp add: lw_def)
  have "mem_map ?a 1534 = 0" "\<not> present (pm ?a ?d)" by simp_all
  note u = mm_inv_table_taken [OF a _ this(1) _ _ this(2) dir]
  have iu: "mm_inv ((\<lambda>_. 0)(1535 := 1)) ?u" using u(1) by (simp add: PAGING_PAGES_eq)
  have pu: "present (pm ?u ?d)" "pfn (pm ?u ?d) = 2046"
    using u(4) by (simp_all add: PAGING_PAGES_eq)
  have t: "pm mm_demo = (pm ?u)(pfn (pm ?u ?d) * 1024 + 0 := frame 1535 OR 7)"
    using pu by (simp add: mm_demo_def PAGING_PAGES_eq)
  have abs: "\<not> present (slot ?u (?d, Some 0))" using u(5) [of 0] pu by (simp add: PAGING_PAGES_eq)
  have m: "mem_map mm_demo = mem_map ?u" by (simp add: mm_demo_def)
  show "mm_inv (\<lambda>_. 0) mm_demo"
    using mm_inv_map_page [OF iu _ _ pu(1) _ abs, of 1535 mm_demo "frame 1535 OR 7"] t m
    by (simp add: PAGING_PAGES_eq fun_upd_idem)
  show "present (pm mm_demo 16)" "slot mm_demo (16, Some 0) = frame 1535 OR 7"
    using t pu by simp_all
  show "mem_map mm_demo = (\<lambda>_. 0)(1535 := 1, 1534 := 1)" by (simp add: mm_demo_def)
  show "\<And>e. e < 1024 \<Longrightarrow> e \<noteq> 16 \<Longrightarrow> pm mm_demo e = 0" 
    unfolding t pu(2) using u(3) by (simp add: PAGING_PAGES_eq del: stl_fields)
qed

text \<open>The properties at work: the page at 64 Mb is shared with a child, a page is added beside it, the
  kernel writes to it, and its table is released.\<close>

theorem free_page_tables_witness:
  "user_range 0x4000000 0x1000 \<and> mm_inv (\<lambda>_. 0) mm_demo \<and>
   (\<exists>t. free_page_tables 0x4000000 0x1000 mm_demo = Ok 0 t \<and> mm_inv (\<lambda>_. 0) t \<and> \<not> present (pm t 16))"
proof -
  have r: "user_range 0x4000000 0x1000" by (simp add: user_range_def)
  from free_page_tables_ok [OF mm_demo_facts(1) this] obtain t where
    t: "free_page_tables 0x4000000 0x1000 mm_demo = Ok 0 t" "mm_inv (\<lambda>_. 0) t"
    and p: "\<forall>d<1024. if unat (0x4000000 :: u32) div 2 ^ 22 \<le> d \<and>
        d < unat (0x4000000 :: u32) div 2 ^ 22 + unat (drop_bit 22 (0x1000 + 0x3fffff) :: u32)
      then \<not> present (pm t d) else pm t d = pm mm_demo d" by blast
  have "\<not> present (pm t 16)" using spec [OF p, of 16] by simp
  with t r mm_demo_facts(1) show ?thesis by blast
qed

theorem copy_page_tables_witness:
  "mm_inv (\<lambda>_. 0) mm_demo \<and> user_range 0x4000000 0x1000 \<and> user_range 0x8000000 0x1000 \<and>
   (\<exists>r t. copy_page_tables 0x4000000 0x8000000 0x1000 mm_demo = Ok r t \<and> mm_inv (\<lambda>_. 0) t \<and>
      others_kept 1 16 32 mm_demo t \<and> (r = 0 \<and> copied 1 16 32 mm_demo t \<or> r = -1 \<and> free_frames mm_demo < 1))"
proof -
  have r: "user_range 0x4000000 0x1000" "user_range 0x8000000 0x1000" by (simp_all add: user_range_def)
  have n: "1 = unat (drop_bit 22 (0x1000 + 0x3fffff) :: u32)" and f: "16 = unat (0x4000000 :: u32) div 2 ^ 22"
    and t: "32 = unat (0x8000000 :: u32) div 2 ^ 22" by simp_all
  have e: "j < 1 \<Longrightarrow> \<not> present (pm mm_demo (32 + j))" for j using mm_demo_facts(5) [of "32 + j"] by simp
  have b: "unat (mem_map mm_demo i) + 1025 * 1 < 65536" for i by (simp add: mm_demo_facts(4))
  from copy_page_tables_ok [OF mm_demo_facts(1) r n f t _ e b] r mm_demo_facts(1) show ?thesis by simp
qed

theorem do_no_page_witness:
  "mm_inv (\<lambda>_. 0) mm_demo \<and> \<not> present (slot mm_demo (udir 0x5000000, Some (upage 0x5000000))) \<and>
   ((\<exists>t i. do_no_page 0 0x5000000 mm_demo = Ok () t \<and> mm_inv (\<lambda>_. 0) t \<and> i < PAGING_PAGES \<and> mem_map mm_demo i = 0 \<and> mem_map t i = 1 \<and>
       mapped 20 0 (frame i OR 7) mm_demo t \<and> (\<forall>k<1024. pm t ((512 + i) * 1024 + k) = 0)) \<or>
    (\<exists>t ext'. do_no_page 0 0x5000000 mm_demo = Die (int SIGSEGV) t \<and> mm_inv ext' t))"
proof -
  have d: "udir 0x5000000 = 20" "upage 0x5000000 = 0" by (simp_all add: udir_def upage_def)
  have p: "pm mm_demo 20 = 0" "pm mm_demo 0 = 0" "pfn 0 = 0" using mm_demo_facts(5) by (simp_all add: pfn_def)
  have a: "present (pm mm_demo (udir 0x5000000)) \<longrightarrow> \<not> present (slot mm_demo (udir 0x5000000, Some (upage 0x5000000)))"
    using d p by simp
  have "2 \<le> udir 0x5000000" using d by simp
  from do_no_page_ok [OF mm_demo_facts(1) this a, of 0] show ?thesis
    unfolding d using d p mm_demo_facts(1) by fastforce
qed

theorem write_verify_witness:
  "mm_inv (\<lambda>_. 0) mm_demo \<and> present (slot mm_demo (16, Some 0)) \<and>
   (\<exists>t w. write_verify 0x4000000 mm_demo = Ok () t \<and> mm_inv (\<lambda>_. 0) t \<and> writable w \<and> mapped 16 0 w mm_demo t)"
proof -
  have d: "udir 0x4000000 = 16" "upage 0x4000000 = 0" by (simp_all add: udir_def upage_def)
  have s: "frame 1535 OR 7 = slot mm_demo (udir 0x4000000, Some (upage 0x4000000))"
    unfolding d by (rule mm_demo_facts(3) [symmetric])
  have free: "\<not> (\<forall>i<PAGING_PAGES. mem_map mm_demo i \<noteq> 0)"
    by (auto simp: mm_demo_facts(4) PAGING_PAGES_eq intro!: exI [of _ 0])
  have p: "present (pm mm_demo (udir 0x4000000))" "present (slot mm_demo (16, Some 0))"
    unfolding d mm_demo_facts(3) by (simp_all add: mm_demo_facts(2))
  from write_verify_ok [OF mm_demo_facts(1) _ p(1) s] d p free mm_demo_facts(1) show ?thesis by auto
qed

end
