(* ===== verification/Ring_Queue.thy ===== *)
theory Ring_Queue
  imports Mm_Memory
begin

text \<open>
  Ring buffers. The terminal queues of \<open>include/linux/tty.h\<close> and the pipes of \<open>fs/pipe.c\<close> are both a
  power-of-two array with a head and a tail index, one cell always left free.

  \<open>ring_list\<close> is the content of such an array as a list. The locale \<open>ring_queue\<close> is the interface its
  clients rely on: \<open>put\<close> appends, \<open>take\<close> removes the first element, and the emptiness and fullness
  tests are exact; its lemmas say what transferring whole sequences does. It is interpreted for the
  terminal queues here and for pipes in the theory of pipes.
\<close>

section \<open>Content of a ring\<close>

definition ring_list :: "nat \<Rightarrow> (nat \<Rightarrow> 'a) \<Rightarrow> nat \<Rightarrow> nat \<Rightarrow> 'a list" where
  "ring_list n buf head tail = map (\<lambda>i. buf ((tail + i) mod n)) [0..<(head + n - tail) mod n]"

lemma ring_list_length [simp]: "length (ring_list n buf head tail) = (head + n - tail) mod n"
  by (simp add: ring_list_def)

lemma ring_list_bound: "0 < n \<Longrightarrow> length (ring_list n buf head tail) < n"
  by simp

lemma ring_len:
  fixes head tail :: nat
  assumes "head < n" and "tail < n"
  shows "(head + n - tail) mod n = (if tail \<le> head then head - tail else head + n - tail)"
proof (cases "tail \<le> head")
  case True
  then have e: "head + n - tail = head - tail + n" by simp
  have "head - tail < n" using assms by simp
  then show ?thesis unfolding e mod_add_self2 using True by (simp only: mod_less if_True)
qed (use assms in simp)

lemma ring_empty_iff: "head < n \<Longrightarrow> tail < n \<Longrightarrow> ring_list n buf head tail = [] \<longleftrightarrow> head = tail"
  by (auto simp: ring_list_def ring_len split: if_splits)

lemma ring_next: "i < n \<Longrightarrow> (i + 1) mod n = (if i + 1 = n then 0 else i + 1)" for i :: nat
  by auto

lemma ring_index:
  fixes head tail :: nat
  assumes "head < n" "tail < n" and "i \<le> (head + n - tail) mod n"
  shows "(tail + i) mod n = (if tail + i < n then tail + i else tail + i - n)"
proof (cases "tail + i < n")
  case False
  moreover have "tail + i - n < n" using assms by (simp add: ring_len split: if_splits)
  ultimately show ?thesis by (simp add: le_mod_geq)
qed simp

lemma ring_index_free:
  fixes head tail :: nat
  assumes "head < n" "tail < n" and "i < (head + n - tail) mod n"
  shows "(tail + i) mod n \<noteq> head"
proof -
  have "(tail + i) mod n = (if tail + i < n then tail + i else tail + i - n)"
    using assms by (intro ring_index [of head]) simp_all
  with assms show ?thesis by (auto simp: ring_len split: if_splits)
qed

lemma ring_put:
  assumes h: "head < n" and t: "tail < n" and room: "(head + n - tail) mod n < n - 1"
  shows "ring_list n (buf(head := a)) ((head + 1) mod n) tail = ring_list n buf head tail @ [a]"
proof -
  let ?len = "(head + n - tail) mod n"
  have "(head + 1) mod n < n" using h by simp
  then have len: "((head + 1) mod n + n - tail) mod n = ?len + 1"
    using h t room by (simp only: ring_len ring_next) (auto split: if_splits)
  have new: "(tail + ?len) mod n = head"
    using ring_index [OF h t order.refl] h t by (auto simp: ring_len split: if_splits)
  have "(buf(head := a)) ((tail + i) mod n) = buf ((tail + i) mod n)" if "i < ?len" for i
    using ring_index_free [OF h t that] by simp
  then show ?thesis unfolding ring_list_def len by (simp add: new)
qed

lemma ring_take:
  assumes h: "head < n" and t: "tail < n" and ne: "head \<noteq> tail"
  shows "ring_list n buf head tail = buf tail # ring_list n buf head ((tail + 1) mod n)"
proof -
  let ?l = "(head + n - (tail + 1) mod n) mod n"
  have "(tail + 1) mod n < n" using t by simp
  then have len: "(head + n - tail) mod n = Suc ?l"
    using h t ne by (simp only: ring_len ring_next) (auto split: if_splits)
  have shift: "((tail + 1) mod n + i) mod n = (tail + Suc i) mod n" for i
    using mod_add_left_eq [of "tail + 1" n i] by simp
  have "map f [0..<Suc m] = f 0 # map (\<lambda>i. f (Suc i)) [0..<m]" for f :: "nat \<Rightarrow> 'a" and m
    by (simp add: upt_conv_Cons map_Suc_upt [symmetric] del: upt_Suc)
  then show ?thesis unfolding ring_list_def len shift using t by (simp del: upt_Suc)
qed

section \<open>The interface of a queue\<close>

locale ring_queue =
  fixes inv :: "'q \<Rightarrow> bool"
    and contents :: "'q \<Rightarrow> 'a list"
    and put :: "'a \<Rightarrow> 'q \<Rightarrow> 'q"
    and take :: "'q \<Rightarrow> 'a \<times> 'q"
    and is_empty :: "'q \<Rightarrow> bool"
    and is_full :: "'q \<Rightarrow> bool"
    and cap :: nat
  assumes empty_iff: "inv q \<Longrightarrow> is_empty q = (contents q = [])"
    and full_iff: "inv q \<Longrightarrow> is_full q = (length (contents q) = cap)"
    and bounded: "inv q \<Longrightarrow> length (contents q) \<le> cap"
    and put_inv: "inv q \<Longrightarrow> inv (put a q)"
    and put_contents: "inv q \<Longrightarrow> \<not> is_full q \<Longrightarrow> contents (put a q) = contents q @ [a]"
    and take_inv: "inv q \<Longrightarrow> inv (snd (take q))"
    and take_contents: "inv q \<Longrightarrow> \<not> is_empty q \<Longrightarrow> contents q = fst (take q) # contents (snd (take q))"
begin

text \<open>Putting and taking a whole sequence.\<close>

definition put_all :: "'a list \<Rightarrow> 'q \<Rightarrow> 'q" where
  "put_all xs q = fold put xs q"

primrec take_n :: "nat \<Rightarrow> 'q \<Rightarrow> 'a list \<times> 'q" where
  "take_n 0 q = ([], q)"
| "take_n (Suc n) q = (case take q of (a, q') \<Rightarrow> case take_n n q' of (as, q'') \<Rightarrow> (a # as, q''))"

lemma put_all_contents:
  "inv q \<Longrightarrow> length (contents q) + length xs \<le> cap \<Longrightarrow> inv (put_all xs q) \<and> contents (put_all xs q) = contents q @ xs"
proof (induction xs arbitrary: q)
  case (Cons a xs)
  then have "\<not> is_full q" using full_iff by simp
  with Cons show ?case by (simp add: put_all_def put_inv put_contents)
qed (simp add: put_all_def)

lemma take_n_contents:
  "inv q \<Longrightarrow> contents q = xs @ ys \<Longrightarrow> n = length xs \<Longrightarrow> take_n n q = (xs, q') \<Longrightarrow> inv q' \<and> contents q' = ys"
proof (induction n arbitrary: q xs)
  case (Suc n)
  then obtain a as where xs: "xs = a # as" "n = length as" by (cases xs) auto
  obtain b q1 where tk: "take q = (b, q1)" by (cases "take q")
  have "contents q = b # contents q1" using take_contents [OF Suc.prems(1)] empty_iff [OF Suc.prems(1)] Suc.prems(2) xs tk by simp
  with Suc xs tk take_inv [OF Suc.prems(1)] show ?case by (auto split: prod.splits)
qed simp

lemma take_n_total:
  "inv q \<Longrightarrow> contents q = xs @ ys \<Longrightarrow> n = length xs \<Longrightarrow> \<exists>q'. take_n n q = (xs, q')"
proof (induction n arbitrary: q xs)
  case (Suc n)
  then obtain a as where xs: "xs = a # as" "n = length as" by (cases xs) auto
  obtain b q1 where tk: "take q = (b, q1)" by (cases "take q")
  have c: "contents q = b # contents q1" using take_contents [OF Suc.prems(1)] empty_iff [OF Suc.prems(1)] Suc.prems(2) xs tk by simp
  have "contents q1 = as @ ys" "inv q1" using c Suc.prems(2) xs take_inv [OF Suc.prems(1)] tk by auto
  from Suc.IH [OF this(2,1) xs(2)] c tk xs Suc.prems(2) show ?case by auto
qed simp

text \<open>First in, first out.\<close>

lemma fifo:
  assumes "inv q" and "length (contents q) + length xs \<le> cap"
  shows "\<exists>q'. take_n (length (contents q) + length xs) (put_all xs q) = (contents q @ xs, q') \<and> inv q' \<and> contents q' = []"
proof -
  have p: "inv (put_all xs q)" "contents (put_all xs q) = (contents q @ xs) @ []"
    using put_all_contents [OF assms] by simp_all
  from take_n_total [OF p] obtain q' where t: "take_n (length (contents q) + length xs) (put_all xs q) = (contents q @ xs, q')"
    by auto
  with take_n_contents [OF p _ t] show ?thesis by auto
qed

end

section \<open>Terminal queues\<close>

text \<open>The structure and the macros of \<open>include/linux/tty.h\<close>.\<close>

definition TTY_BUF_SIZE :: nat where "TTY_BUF_SIZE = 1024"

record tty_queue =
  q_data :: u32
  q_head :: u32
  q_tail :: u32
  proc_list :: nat
  q_buf :: "nat \<Rightarrow> u8"

definition INC :: "u32 \<Rightarrow> u32" where "INC a = (a + 1) AND 1023"
definition DEC :: "u32 \<Rightarrow> u32" where "DEC a = (a - 1) AND 1023"
definition EMPTY :: "tty_queue \<Rightarrow> bool" where "EMPTY a \<longleftrightarrow> q_head a = q_tail a"
definition LEFT :: "tty_queue \<Rightarrow> u32" where "LEFT a = (q_tail a - q_head a - 1) AND 1023"
definition LAST :: "tty_queue \<Rightarrow> u8" where "LAST a = q_buf a (unat (1023 AND (q_head a - 1)))"
definition FULL :: "tty_queue \<Rightarrow> bool" where "FULL a \<longleftrightarrow> LEFT a = 0"
definition CHARS :: "tty_queue \<Rightarrow> u32" where "CHARS a = (q_head a - q_tail a) AND 1023"

definition GETCH :: "tty_queue \<Rightarrow> u8 \<times> tty_queue" where
  "GETCH q = (q_buf q (unat (q_tail q)), q\<lparr>q_tail := INC (q_tail q)\<rparr>)"

definition PUTCH :: "u8 \<Rightarrow> tty_queue \<Rightarrow> tty_queue" where
  "PUTCH c q = q\<lparr>q_buf := (q_buf q)(unat (q_head q) := c), q_head := INC (q_head q)\<rparr>"

text \<open>Taking back the last character, as \<open>copy_to_cooked\<close> does for the erase character.\<close>

definition UNPUT :: "tty_queue \<Rightarrow> tty_queue" where
  "UNPUT q = q\<lparr>q_head := DEC (q_head q)\<rparr>"

definition q_ok :: "tty_queue \<Rightarrow> bool" where
  "q_ok q \<longleftrightarrow> q_head q < 1024 \<and> q_tail q < 1024"

definition q_list :: "tty_queue \<Rightarrow> u8 list" where
  "q_list q = ring_list TTY_BUF_SIZE (q_buf q) (unat (q_head q)) (unat (q_tail q))"

lemma q_ok_unat: "q_ok q \<longleftrightarrow> unat (q_head q) < 1024 \<and> unat (q_tail q) < 1024"
  by (simp add: q_ok_def word_less_nat_alt)

lemma unat_inc: "a < 1024 \<Longrightarrow> unat (INC a) = (unat a + 1) mod 1024"
  by (simp add: INC_def and_3ff unat_plus_if' word_less_nat_alt)

lemma unat_diff_1024:
  fixes a b :: u32
  assumes "a < 1024" and "b \<le> 1024"
  shows "unat ((a - b) AND 1023) = (unat a + 1024 - unat b) mod 1024"
proof (cases "b \<le> a")
  case True
  then have e: "unat (a - b) = unat a - unat b" by (simp add: unat_sub)
  have "unat a + 1024 - unat b = unat a - unat b + 1024" using True by (simp add: word_le_nat_alt)
  then show ?thesis by (simp only: and_3ff e mod_add_self2)
next
  case False
  then have lt: "unat a < unat b" by (simp add: word_le_nat_alt)
  have b: "unat b \<le> 1024" using assms by (simp add: word_le_nat_alt)
  have "unat (a - b) = unat a + 2 ^ 32 - unat b"
    using lt unat_sub_if' [of a b] by (simp add: not_le)
  also have "\<dots> = (unat a + 1024 - unat b) + 4194303 * 1024" using lt b by simp
  finally show ?thesis by (simp only: and_3ff mod_mult_self1)
qed

lemma unat_CHARS: "q_ok q \<Longrightarrow> unat (CHARS q) = length (q_list q)"
  by (simp add: CHARS_def q_ok_def unat_diff_1024 order.strict_implies_order q_list_def TTY_BUF_SIZE_def)

lemma unat_LEFT:
  assumes "q_ok q"
  shows "unat (LEFT q) = 1023 - length (q_list q)"
proof -
  let ?h = "q_head q" and ?t = "q_tail q"
  have b: "unat ?h < 1024" "unat ?t < 1024" using assms by (simp_all add: q_ok_unat)
  have h1: "unat (?h + 1) = unat ?h + 1" using b by (simp add: unat_plus_if')
  then have "?h + 1 \<le> 1024" using b by (simp add: word_le_nat_alt)
  then have "unat (LEFT q) = (unat ?t + 1024 - (unat ?h + 1)) mod 1024"
    using assms unat_diff_1024 [of ?t "?h + 1"] h1 by (simp add: LEFT_def q_ok_def diff_diff_add)
  also have "\<dots> = 1023 - (unat ?h + 1024 - unat ?t) mod 1024"
  proof (cases "unat ?h < unat ?t")
    case True
    then have e: "unat ?t + 1024 - (unat ?h + 1) = unat ?t - (unat ?h + 1) + 1024" by simp
    have "unat ?t - (unat ?h + 1) < 1024" using b by simp
    then show ?thesis unfolding e mod_add_self2 ring_len [OF b] using True b by (simp only: mod_less) simp
  next
    case False
    then show ?thesis unfolding ring_len [OF b] using b by simp
  qed
  finally show ?thesis by (simp add: q_list_def TTY_BUF_SIZE_def)
qed

text \<open>The terminal queue is a queue of at most 1023 characters.\<close>

interpretation tq: ring_queue q_ok q_list PUTCH GETCH EMPTY FULL 1023
proof (unfold_locales, goal_cases)
  case (1 q)
  then show ?case by (simp add: EMPTY_def q_list_def q_ok_unat ring_empty_iff TTY_BUF_SIZE_def word_unat_eq_iff)
next
  case (2 q)
  have "length (q_list q) < 1024" by (simp add: q_list_def TTY_BUF_SIZE_def)
  then show ?case using unat_LEFT [OF 2] by (auto simp: FULL_def word_unat_eq_iff)
next
  case (3 q)
  have "length (q_list q) < 1024" by (simp add: q_list_def TTY_BUF_SIZE_def)
  then show ?case by simp
next
  case (4 q a)
  then show ?case by (simp add: PUTCH_def q_ok_unat INC_def and_3ff)
next
  case (5 q a)
  have "length (q_list q) < 1023"
  proof -
    have "length (q_list q) < 1024" by (simp add: q_list_def TTY_BUF_SIZE_def)
    moreover have "length (q_list q) \<noteq> 1023" using 5 unat_LEFT [OF 5(1)] by (auto simp: FULL_def word_unat_eq_iff)
    ultimately show ?thesis by simp
  qed
  with 5(1) ring_put [of "unat (q_head q)" 1024 "unat (q_tail q)" "q_buf q" a] show ?case
    by (simp add: q_list_def PUTCH_def TTY_BUF_SIZE_def unat_inc q_ok_def word_less_nat_alt)
next
  case (6 q)
  then show ?case by (simp add: GETCH_def q_ok_unat INC_def and_3ff)
next
  case (7 q)
  with ring_take [of "unat (q_head q)" 1024 "unat (q_tail q)" "q_buf q"] show ?case
    by (simp add: q_list_def GETCH_def EMPTY_def TTY_BUF_SIZE_def unat_inc q_ok_def word_less_nat_alt word_unat_eq_iff)
qed

text \<open>Taking back the last character removes the last element.\<close>

lemma unat_dec: "a < 1024 \<Longrightarrow> unat (DEC a) = (unat a + 1023) mod 1024"
proof -
  assume a: "a < 1024"
  have "(1 :: u32) \<le> 1024" by (simp add: word_le_def)
  from unat_diff_1024 [OF a this] show ?thesis by (simp add: DEC_def add.commute)
qed

lemma pred_mod: "i < 1024 \<Longrightarrow> (i + 1023) mod 1024 = (if i = 0 then 1023 else i - 1)" for i :: nat
  by (cases i) auto

lemma INC_DEC: "a < 1024 \<Longrightarrow> INC (DEC a) = a"
proof -
  assume a: "a < 1024"
  have d: "DEC a < 1024" using a by (simp add: word_less_nat_alt unat_dec)
  have "unat (INC (DEC a)) = ((unat a + 1023) mod 1024 + 1) mod 1024" using a d by (simp add: unat_inc unat_dec)
  also have "\<dots> = (unat a + 1023 + 1) mod 1024" by (rule mod_add_left_eq)
  also have "\<dots> = unat a" using a by (simp add: word_less_nat_alt)
  finally show ?thesis by (simp add: word_unat_eq_iff)
qed

lemma unput_ok:
  assumes ok: "q_ok q" and ne: "\<not> EMPTY q"
  shows "q_ok (UNPUT q)" and "q_list q = q_list (UNPUT q) @ [LAST q]"
proof -
  let ?u = "UNPUT q"
  have h: "q_head q < 1024" "q_tail q < 1024" using ok by (simp_all add: q_ok_def)
  show u: "q_ok ?u" using h by (simp add: q_ok_def UNPUT_def word_less_nat_alt unat_dec)
  have "1023 AND (q_head q - 1) = DEC (q_head q)" by (simp add: DEC_def and.commute)
  then have undo: "PUTCH (LAST q) ?u = q"
    using h by (simp add: PUTCH_def UNPUT_def LAST_def INC_DEC)
  have "\<not> FULL ?u"
  proof
    assume "FULL ?u"
    then have full: "(unat (DEC (q_head q)) + 1024 - unat (q_tail q)) mod 1024 = 1023"
      using tq.full_iff [OF u] by (simp add: q_list_def UNPUT_def TTY_BUF_SIZE_def)
    have "unat (q_tail q) < 1024" "unat (DEC (q_head q)) < 1024" "unat (q_head q) < 1024"
      using h u by (simp_all add: word_less_nat_alt q_ok_def UNPUT_def)
    then have "unat (q_head q) = unat (q_tail q)"
      using full unat_dec [OF h(1)] by (auto simp: ring_len pred_mod split: if_splits)
    with ne show False by (simp add: EMPTY_def word_unat_eq_iff)
  qed
  from tq.put_contents [OF u this, of "LAST q"] show "q_list q = q_list ?u @ [LAST q]" by (simp add: undo)
qed

end
