(* ===== verification/User_Mem.thy ===== *)
theory User_Mem
  imports Mm_Memory
begin

text \<open>
  Access to user space: the segment descriptors of \<open>include/linux/sched.h\<close>, the \<open>fs\<close> accessors of
  \<open>include/asm/segment.h\<close> and \<open>verify_area\<close> of \<open>kernel/fork.c\<close>.

  \<open>umem p a\<close> is the byte at offset \<open>a\<close> of the data segment of the task at address \<open>p\<close>, as the paging
  hardware shows it: the tables that \<open>verify_area\<close> works on are those of the theory of memory.
\<close>

record um_st = mm_st +
  umem :: "nat \<Rightarrow> u32 \<Rightarrow> u8"

section \<open>Descriptors\<close>

definition get_base :: "desc_struct \<Rightarrow> u32" where
  "get_base d = drop_bit 16 (desc_a d) OR push_bit 16 (desc_b d AND 0xff) OR (desc_b d AND 0xff000000)"

definition set_base :: "u32 \<Rightarrow> desc_struct \<Rightarrow> desc_struct" where
  "set_base base d =
     \<lparr>desc_a = push_bit 16 base OR (desc_a d AND 0xffff),
      desc_b = (base AND 0xff000000) OR (desc_b d AND 0x00ffff00) OR (drop_bit 16 base AND 0xff)\<rparr>"

definition set_limit :: "u32 \<Rightarrow> desc_struct \<Rightarrow> desc_struct" where
  "set_limit limit d =
     (let l = drop_bit 12 (limit - 1)
      in \<lparr>desc_a = (desc_a d AND 0xffff0000) OR (l AND 0xffff),
          desc_b = (desc_b d AND 0xff00ffff) OR
            ((desc_b d AND 0x00f00000) OR (l AND 0x00ff0000))\<rparr>)"

text \<open>\<open>lsl\<close> gives the limit in bytes; the descriptors here are page granular when bit 23 is set.\<close>

definition get_limit :: "desc_struct \<Rightarrow> u32" where
  "get_limit d =
     (let l = (desc_b d AND 0x000f0000) OR (desc_a d AND 0xffff)
      in (if bit (desc_b d) 23 then push_bit 12 l OR 0xfff else l) + 1)"

section \<open>The fs segment\<close>

definition get_fs_byte :: "u32 \<Rightarrow> 'z um_st_scheme \<Rightarrow> u8" where
  "get_fs_byte a s = umem s (current s) a"

definition put_fs_byte :: "u8 \<Rightarrow> u32 \<Rightarrow> 'z um_st_scheme \<Rightarrow> 'z um_st_scheme" where
  "put_fs_byte v a s = s\<lparr>umem := (umem s)(current s := (umem s (current s))(a := v))\<rparr>"

definition get_fs_word :: "u32 \<Rightarrow> 'z um_st_scheme \<Rightarrow> u16" where
  "get_fs_word a s = ucast (get_fs_byte a s) OR push_bit 8 (ucast (get_fs_byte (a + 1) s))"

definition put_fs_word :: "u16 \<Rightarrow> u32 \<Rightarrow> 'z um_st_scheme \<Rightarrow> 'z um_st_scheme" where
  "put_fs_word v a s = put_fs_byte (ucast (drop_bit 8 v)) (a + 1) (put_fs_byte (ucast v) a s)"

definition get_fs_long :: "u32 \<Rightarrow> 'z um_st_scheme \<Rightarrow> u32" where
  "get_fs_long a s = ucast (get_fs_word a s) OR push_bit 16 (ucast (get_fs_word (a + 2) s))"

definition put_fs_long :: "u32 \<Rightarrow> u32 \<Rightarrow> 'z um_st_scheme \<Rightarrow> 'z um_st_scheme" where
  "put_fs_long v a s = put_fs_word (ucast (drop_bit 16 v)) (a + 2) (put_fs_word (ucast v) a s)"

section \<open>verify_area\<close>

definition verify_area :: "u32 \<Rightarrow> int \<Rightarrow> 'z um_st_scheme \<Rightarrow> ('z um_st_scheme, unit) kres" where
  "verify_area addr size0 s =
     (let sz = s32 (size0 + uint (addr AND 0xfff));
          start = (addr AND 0xfffff000) + get_base (ldt (cur s) 2)
      in for_each [0..<nat ((sz + 4095) div 4096)] (\<lambda>i. write_verify (start + 4096 * of_nat i)) s)"

section \<open>Lemmas\<close>

lemma get_put_fs_byte: "get_fs_byte b (put_fs_byte v a s) = (if b = a then v else get_fs_byte b s)"
  by (simp add: get_fs_byte_def put_fs_byte_def)

lemma put_fs_byte_fields [simp]:
  "current (put_fs_byte v a s) = current s" "ts (put_fs_byte v a s) = ts s" "task (put_fs_byte v a s) = task s"
  "mem_map (put_fs_byte v a s) = mem_map s" "pm (put_fs_byte v a s) = pm s" "klog (put_fs_byte v a s) = klog s"
  by (simp_all add: put_fs_byte_def)

text \<open>A descriptor gives back the base written into it.\<close>

lemma get_set_base: "get_base (set_base b d) = b"
proof (rule bit_word_eqI)
  fix n assume n: "n < LENGTH(32)"
  have "(0xff :: u32) = mask 8" "(0xff000000 :: u32) = push_bit 24 (mask 8)" "(0xffff :: u32) = mask 16"
    "(0x00ffff00 :: u32) = push_bit 8 (mask 16)"
    by (simp_all add: mask_eq_exp_minus_1)
  note m = this
  show "bit (get_base (set_base b d)) n = bit b n"
    using n unfolding get_base_def set_base_def m
    by (cases "n < 16"; cases "n < 24") (auto simp: bit_simps)
qed

definition um_empty :: um_st where
  "um_empty = mm_st.extend mm_empty \<lparr>umem = (\<lambda>_ _. 0)\<rparr>"

end
