(* ===== verification/Console.thy ===== *)
theory Console
  imports Ring_Queue User_Mem
begin

text \<open>
  Model of \<open>kernel/console.c\<close>: the VT102 console on the video memory.

  The static variables of the file are the fields of \<open>con_st\<close>; unsigned longs are integers with the
  wrap-around written \<open>uw\<close>. \<open>vmem\<close> is the memory of 16-bit character cells by address, \<open>crtc\<close> the
  registers of the display controller. \<open>lines\<close> and \<open>columns\<close>, which nothing assigns, are the constants
  \<open>LINES\<close> and \<open>COLUMNS\<close>. \<open>con_char\<close> is one round of the loop of \<open>con_write\<close>; its second result says that
  the character asked for the terminal's response (\<open>respond\<close>, in the theory of terminals).

  The invariant \<open>con_ok\<close> says that the cursor is on the screen or, at column 80, waits behind the last column of its line for the
  next character to wrap it, that \<open>pos\<close> is its address and that the screen lies in the video memory; every character keeps it and
  writes only inside the video memory.
\<close>

section \<open>State\<close>

record con_st = um_st +
  origin :: int
  scr_end :: int
  pos :: int
  con_x :: int
  con_y :: int
  con_top :: int
  con_bottom :: int
  con_state :: int
  npar :: int
  par :: "nat \<Rightarrow> int"
  ques :: bool
  attr :: u8
  saved_x :: int
  saved_y :: int
  vmem :: "int \<Rightarrow> u16"
  crtc :: "nat \<Rightarrow> u8"

definition SCREEN_START :: int where "SCREEN_START = 0xb8000"
definition SCREEN_END :: int where "SCREEN_END = 0xc0000"
definition LINES :: int where "LINES = 25"
definition COLUMNS :: int where "COLUMNS = 80"
definition NPAR :: nat where "NPAR = 16"

definition BLANK :: u16 where "BLANK = 0x0720"

definition con_boot :: "um_st \<Rightarrow> con_st" where
  "con_boot s = um_st.extend s
     \<lparr>origin = SCREEN_START, scr_end = SCREEN_START + LINES * COLUMNS * 2, pos = 0, con_x = 0, con_y = 0,
      con_top = 0, con_bottom = LINES, con_state = 0, npar = 0, par = (\<lambda>_. 0), ques = False, attr = 7,
      saved_x = 0, saved_y = 0, vmem = (\<lambda>_. 0), crtc = (\<lambda>_. 0)\<rparr>"

section \<open>String instructions\<close>

text \<open>\<open>rep stosw\<close> upwards and downwards, and \<open>rep movsl\<close> (two cells at a time) in both directions.\<close>

fun stosw :: "nat \<Rightarrow> int \<Rightarrow> u16 \<Rightarrow> (int \<Rightarrow> u16) \<Rightarrow> int \<Rightarrow> u16" where
  "stosw 0 di v m = m"
| "stosw (Suc n) di v m = stosw n (uw (di + 2)) v (m(di := v))"

fun stosw_down :: "nat \<Rightarrow> int \<Rightarrow> u16 \<Rightarrow> (int \<Rightarrow> u16) \<Rightarrow> int \<Rightarrow> u16" where
  "stosw_down 0 di v m = m"
| "stosw_down (Suc n) di v m = stosw_down n (uw (di - 2)) v (m(di := v))"

fun movsl :: "nat \<Rightarrow> int \<Rightarrow> int \<Rightarrow> (int \<Rightarrow> u16) \<Rightarrow> int \<Rightarrow> u16" where
  "movsl 0 di si m = m"
| "movsl (Suc n) di si m = movsl n (uw (di + 4)) (uw (si + 4)) (m(di := m si, uw (di + 2) := m (uw (si + 2))))"

fun movsl_down :: "nat \<Rightarrow> int \<Rightarrow> int \<Rightarrow> (int \<Rightarrow> u16) \<Rightarrow> int \<Rightarrow> u16" where
  "movsl_down 0 di si m = m"
| "movsl_down (Suc n) di si m = movsl_down n (uw (di - 4)) (uw (si - 4)) (m(di := m si, uw (di + 2) := m (uw (si + 2))))"

section \<open>Cursor and scrolling\<close>

definition gotoxy :: "int \<Rightarrow> int \<Rightarrow> 'z con_st_scheme \<Rightarrow> 'z con_st_scheme" where
  "gotoxy new_x new_y s =
     (if uw new_x \<ge> COLUMNS \<or> uw new_y \<ge> LINES then s
      else s\<lparr>con_x := uw new_x, con_y := uw new_y, pos := uw (origin s + 2 * (uw new_y * COLUMNS + uw new_x))\<rparr>)"

definition set_origin :: "'z con_st_scheme \<Rightarrow> 'z con_st_scheme" where
  "set_origin s = s\<lparr>crtc := (crtc s)(12 := word_of_int (uw (origin s - SCREEN_START) div 512),
                                 13 := word_of_int (uw (origin s - SCREEN_START) div 2))\<rparr>"

definition scrup :: "'z con_st_scheme \<Rightarrow> 'z con_st_scheme" where
  "scrup s =
     (if con_top s = 0 \<and> con_bottom s = LINES
      then
        let s1 = s\<lparr>origin := uw (origin s + 2 * COLUMNS), pos := uw (pos s + 2 * COLUMNS),
                   scr_end := uw (scr_end s + 2 * COLUMNS)\<rparr>;
            s2 = (if scr_end s1 > SCREEN_END
                  then
                    let n = nat ((LINES - 1) * COLUMNS div 2);
                        m = stosw (nat COLUMNS) (SCREEN_START + 4 * int n) BLANK (movsl n SCREEN_START (origin s1) (vmem s1))
                    in s1\<lparr>vmem := m, scr_end := uw (scr_end s1 - (origin s1 - SCREEN_START)),
                          pos := uw (pos s1 - (origin s1 - SCREEN_START)), origin := SCREEN_START\<rparr>
                  else s1\<lparr>vmem := stosw (nat COLUMNS) (uw (scr_end s1 - 2 * COLUMNS)) BLANK (vmem s1)\<rparr>)
        in set_origin s2
      else
        let n = nat (uw ((con_bottom s - con_top s - 1) * COLUMNS) div 2);
            di = uw (origin s + 2 * COLUMNS * con_top s);
            m = movsl n di (uw (origin s + 2 * COLUMNS * (con_top s + 1))) (vmem s)
        in s\<lparr>vmem := stosw (nat COLUMNS) (uw (di + 4 * int n)) BLANK m\<rparr>)"

definition scrdown :: "'z con_st_scheme \<Rightarrow> 'z con_st_scheme" where
  "scrdown s =
     (let n = nat (uw ((con_bottom s - con_top s - 1) * COLUMNS) div 2);
          di = uw (origin s + 2 * COLUMNS * con_bottom s - 4);
          m = movsl_down n di (uw (origin s + 2 * COLUMNS * (con_bottom s - 1) - 4)) (vmem s)
      in s\<lparr>vmem := stosw_down (nat COLUMNS) (uw (di - 4 * int n + 2)) BLANK m\<rparr>)"

definition lf :: "'z con_st_scheme \<Rightarrow> 'z con_st_scheme" where
  "lf s = (if uw (con_y s + 1) < con_bottom s
           then s\<lparr>con_y := uw (con_y s + 1), pos := uw (pos s + 2 * COLUMNS)\<rparr> else scrup s)"

definition ri :: "'z con_st_scheme \<Rightarrow> 'z con_st_scheme" where
  "ri s = (if con_y s > con_top s
           then s\<lparr>con_y := uw (con_y s - 1), pos := uw (pos s - 2 * COLUMNS)\<rparr> else scrdown s)"

definition cr :: "'z con_st_scheme \<Rightarrow> 'z con_st_scheme" where
  "cr s = s\<lparr>pos := uw (pos s - 2 * con_x s), con_x := 0\<rparr>"

definition poke :: "int \<Rightarrow> u16 \<Rightarrow> 'z con_st_scheme \<Rightarrow> 'z con_st_scheme" where
  "poke a v s = s\<lparr>vmem := (vmem s)(a := v)\<rparr>"

definition del :: "'z con_st_scheme \<Rightarrow> 'z con_st_scheme" where
  "del s = (if con_x s \<noteq> 0
            then poke (uw (pos s - 2)) BLANK (s\<lparr>pos := uw (pos s - 2), con_x := uw (con_x s - 1)\<rparr>) else s)"

section \<open>Erasing, inserting and deleting\<close>

definition erase :: "int \<Rightarrow> int \<Rightarrow> 'z con_st_scheme \<Rightarrow> 'z con_st_scheme" where
  "erase count start s = s\<lparr>vmem := stosw (nat (uw count)) start BLANK (vmem s)\<rparr>"

definition csi_J :: "int \<Rightarrow> 'z con_st_scheme \<Rightarrow> 'z con_st_scheme" where
  "csi_J p s =
     (if p = 0 then erase (uw (scr_end s - pos s) div 2) (pos s) s
      else if p = 1 then erase (uw (pos s - origin s) div 2) (origin s) s
      else if p = 2 then erase (COLUMNS * LINES) (origin s) s
      else s)"

definition csi_K :: "int \<Rightarrow> 'z con_st_scheme \<Rightarrow> 'z con_st_scheme" where
  "csi_K p s =
     (if p = 0 then if con_x s \<ge> COLUMNS then s else erase (COLUMNS - con_x s) (pos s) s
      else if p = 1 then erase (if con_x s < COLUMNS then con_x s else COLUMNS) (uw (pos s - 2 * con_x s)) s
      else if p = 2 then erase COLUMNS (uw (pos s - 2 * con_x s)) s
      else s)"

definition csi_m :: "'z con_st_scheme \<Rightarrow> 'z con_st_scheme" where
  "csi_m s =
     fold (\<lambda>i s.
       if par s i = 0 then s\<lparr>attr := 0x07\<rparr>
       else if par s i = 1 then s\<lparr>attr := 0x0f\<rparr>
       else if par s i = 4 then s\<lparr>attr := 0x0f\<rparr>
       else if par s i = 7 then s\<lparr>attr := 0x70\<rparr>
       else if par s i = 27 then s\<lparr>attr := 0x07\<rparr>
       else s) [0..<nat (npar s) + 1] s"

definition set_cursor :: "'z con_st_scheme \<Rightarrow> 'z con_st_scheme" where
  "set_cursor s = s\<lparr>crtc := (crtc s)(14 := word_of_int (uw (pos s - SCREEN_START) div 512),
                                 15 := word_of_int (uw (pos s - SCREEN_START) div 2))\<rparr>"

text \<open>The loops of \<open>insert_char\<close> and \<open>delete_char\<close>, with the number of cells to go.\<close>

fun shift_right :: "nat \<Rightarrow> int \<Rightarrow> u16 \<Rightarrow> (int \<Rightarrow> u16) \<Rightarrow> int \<Rightarrow> u16" where
  "shift_right 0 p old m = m"
| "shift_right (Suc n) p old m = shift_right n (uw (p + 2)) (m p) (m(p := old))"

fun shift_left :: "nat \<Rightarrow> int \<Rightarrow> (int \<Rightarrow> u16) \<Rightarrow> int \<Rightarrow> u16" where
  "shift_left 0 p m = m(p := BLANK)"
| "shift_left (Suc n) p m = shift_left n (uw (p + 2)) (m(p := m (uw (p + 2))))"

definition insert_char :: "'z con_st_scheme \<Rightarrow> 'z con_st_scheme" where
  "insert_char s = s\<lparr>vmem := shift_right (nat (COLUMNS - con_x s)) (pos s) BLANK (vmem s)\<rparr>"

definition delete_char :: "'z con_st_scheme \<Rightarrow> 'z con_st_scheme" where
  "delete_char s = (if con_x s \<ge> COLUMNS then s
     else s\<lparr>vmem := shift_left (nat (COLUMNS - 1 - con_x s)) (pos s) (vmem s)\<rparr>)"

definition insert_line :: "'z con_st_scheme \<Rightarrow> 'z con_st_scheme" where
  "insert_line s =
     (let s1 = scrdown (s\<lparr>con_top := con_y s, con_bottom := LINES\<rparr>)
      in s1\<lparr>con_top := con_top s, con_bottom := con_bottom s\<rparr>)"

definition delete_line :: "'z con_st_scheme \<Rightarrow> 'z con_st_scheme" where
  "delete_line s =
     (let s1 = scrup (s\<lparr>con_top := con_y s, con_bottom := LINES\<rparr>)
      in s1\<lparr>con_top := con_top s, con_bottom := con_bottom s\<rparr>)"

definition csi_repeat :: "int \<Rightarrow> int \<Rightarrow> ('s \<Rightarrow> 's) \<Rightarrow> 's \<Rightarrow> 's" where
  "csi_repeat limit nr f s = (f ^^ nat (if nr > limit then limit else if nr = 0 then 1 else nr)) s"

definition csi_at :: "int \<Rightarrow> 'z con_st_scheme \<Rightarrow> 'z con_st_scheme" where
  "csi_at nr s = csi_repeat COLUMNS nr insert_char s"
definition csi_L :: "int \<Rightarrow> 'z con_st_scheme \<Rightarrow> 'z con_st_scheme" where
  "csi_L nr s = csi_repeat LINES nr insert_line s"
definition csi_P :: "int \<Rightarrow> 'z con_st_scheme \<Rightarrow> 'z con_st_scheme" where
  "csi_P nr s = csi_repeat COLUMNS nr delete_char s"
definition csi_M :: "int \<Rightarrow> 'z con_st_scheme \<Rightarrow> 'z con_st_scheme" where
  "csi_M nr s = csi_repeat LINES nr delete_line s"

definition save_cur :: "'z con_st_scheme \<Rightarrow> 'z con_st_scheme" where
  "save_cur s = s\<lparr>saved_x := con_x s, saved_y := con_y s\<rparr>"

definition restore_cur :: "'z con_st_scheme \<Rightarrow> 'z con_st_scheme" where
  "restore_cur s = s\<lparr>con_x := saved_x s, con_y := saved_y s,
     pos := uw (origin s + 2 * (saved_y s * COLUMNS + saved_x s))\<rparr>"

section \<open>One character of output\<close>

definition wrap_line :: "'z con_st_scheme \<Rightarrow> 'z con_st_scheme" where
  "wrap_line s = lf (s\<lparr>con_x := uw (con_x s - COLUMNS), pos := uw (pos s - 2 * COLUMNS)\<rparr>)"

definition con_plain :: "u8 \<Rightarrow> u8 \<Rightarrow> 'z con_st_scheme \<Rightarrow> 'z con_st_scheme" where
  "con_plain erase_char c s =
     (if sint c > 31 \<and> sint c < 127
      then
        let s1 = (if con_x s \<ge> COLUMNS then wrap_line s else s);
            s2 = poke (pos s1) (push_bit 8 (ucast (attr s1)) OR ucast c) s1
        in s2\<lparr>pos := uw (pos s2 + 2), con_x := uw (con_x s2 + 1)\<rparr>
      else if c = 27 then s\<lparr>con_state := 1\<rparr>
      else if c = 10 \<or> c = 11 \<or> c = 12 then lf s
      else if c = 13 then cr s
      else if sint c = uint erase_char then del s
      else if c = 8
      then if con_x s \<noteq> 0 then s\<lparr>con_x := uw (con_x s - 1), pos := uw (pos s - 2)\<rparr> else s
      else if c = 9
      then
        let n = 8 - con_x s mod 8;
            s1 = s\<lparr>con_x := uw (con_x s + n), pos := uw (pos s + 2 * n)\<rparr>
        in if con_x s1 > COLUMNS then wrap_line s1 else s1
      else s)"

definition con_esc :: "u8 \<Rightarrow> 'z con_st_scheme \<Rightarrow> 'z con_st_scheme \<times> bool" where
  "con_esc c s0 =
     (let s = s0\<lparr>con_state := 0\<rparr>
      in if c = ch CHR ''['' then (s\<lparr>con_state := 2\<rparr>, False)
         else if c = ch CHR ''E'' then (gotoxy 0 (con_y s + 1) s, False)
         else if c = ch CHR ''M'' then (ri s, False)
         else if c = ch CHR ''D'' then (lf s, False)
         else if c = ch CHR ''Z'' then (s, True)
         else if con_x s = uint (ch CHR ''7'') then (save_cur s, False)
         else if con_x s = uint (ch CHR ''8'') then (restore_cur s, False)
         else (s, False))"

definition set_par :: "nat \<Rightarrow> int \<Rightarrow> 'z con_st_scheme \<Rightarrow> 'z con_st_scheme" where
  "set_par i v s = s\<lparr>par := (par s)(i := uw v)\<rparr>"

definition par_dec :: "nat \<Rightarrow> 'z con_st_scheme \<Rightarrow> 'z con_st_scheme" where
  "par_dec i s = (if par s i \<noteq> 0 then set_par i (par s i - 1) s else s)"

definition par_inc :: "nat \<Rightarrow> 'z con_st_scheme \<Rightarrow> 'z con_st_scheme" where
  "par_inc i s = (if par s i = 0 then set_par i (par s i + 1) s else s)"

definition con_csi :: "u8 \<Rightarrow> 'z con_st_scheme \<Rightarrow> 'z con_st_scheme" where
  "con_csi c s0 =
     (let s = s0\<lparr>con_state := 0\<rparr>; d = par_dec 0 s; i = par_inc 0 s
      in if c = ch CHR ''G'' \<or> c = 96 then gotoxy (par d 0) (con_y d) d
         else if c = ch CHR ''A'' then gotoxy (con_x i) (con_y i - par i 0) i
         else if c = ch CHR ''B'' \<or> c = ch CHR ''e'' then gotoxy (con_x i) (con_y i + par i 0) i
         else if c = ch CHR ''C'' \<or> c = ch CHR ''a'' then gotoxy (con_x i + par i 0) (con_y i) i
         else if c = ch CHR ''D'' then gotoxy (con_x i - par i 0) (con_y i) i
         else if c = ch CHR ''E'' then gotoxy 0 (con_y i + par i 0) i
         else if c = ch CHR ''F'' then gotoxy 0 (con_y i - par i 0) i
         else if c = ch CHR ''d'' then gotoxy (con_x d) (par d 0) d
         else if c = ch CHR ''H'' \<or> c = ch CHR ''f'' then (let e = par_dec 1 d in gotoxy (par e 1) (par e 0) e)
         else if c = ch CHR ''J'' then csi_J (par s 0) s
         else if c = ch CHR ''K'' then csi_K (par s 0) s
         else if c = ch CHR ''L'' then csi_L (par s 0) s
         else if c = ch CHR ''M'' then csi_M (par s 0) s
         else if c = ch CHR ''P'' then csi_P (par s 0) s
         else if c = ch CHR ''@'' then csi_at (par s 0) s
         else if c = ch CHR ''m'' then csi_m s
         else if c = ch CHR ''r''
         then
           let e = (if par d 1 = 0 then set_par 1 LINES d else d)
           in if par e 0 < par e 1 \<and> par e 1 \<le> LINES then e\<lparr>con_top := par e 0, con_bottom := par e 1\<rparr> else e
         else if c = ch CHR ''s'' then save_cur s
         else if c = ch CHR ''u'' then restore_cur s
         else s)"

definition con_par :: "u8 \<Rightarrow> 'z con_st_scheme \<Rightarrow> 'z con_st_scheme" where
  "con_par c s =
     (if c = ch CHR '';'' \<and> npar s < int NPAR - 1 then s\<lparr>npar := npar s + 1\<rparr>
      else if sint c \<ge> 48 \<and> sint c \<le> 57
      then set_par (nat (npar s)) (10 * par s (nat (npar s)) + sint c - 48) s
      else con_csi c s)"

definition con_char :: "u8 \<Rightarrow> u8 \<Rightarrow> 'z con_st_scheme \<Rightarrow> 'z con_st_scheme \<times> bool" where
  "con_char erase_char c s =
     (if con_state s = 0 then (con_plain erase_char c s, False)
      else if con_state s = 1 then con_esc c s
      else if con_state s = 2
      then
        let s1 = s\<lparr>par := (\<lambda>i. if i < NPAR then 0 else par s i), npar := 0, con_state := 3, ques := (c = ch CHR ''?'')\<rparr>
        in (if c = ch CHR ''?'' then s1 else con_par c s1, False)
      else if con_state s = 3 then (con_par c s, False)
      else if con_state s = 4 then (con_csi c s, False)
      else (s, False))"

text \<open>\<open>con_init\<close>: the boot loader left the cursor position in two bytes; the keyboard set-up is hardware.\<close>

definition con_init :: "u8 \<Rightarrow> u8 \<Rightarrow> 'z con_st_scheme \<Rightarrow> 'z con_st_scheme" where
  "con_init boot_x boot_y s =
     printk '' [OK] Console: VT102 Ready (80x25 Text Mode Active)'' [] (gotoxy (uint boot_x) (uint boot_y) s)"

section \<open>The cursor and the video memory\<close>

lemmas con_consts = SCREEN_START_def SCREEN_END_def LINES_def COLUMNS_def

definition con_ok :: "'z con_st_scheme \<Rightarrow> bool" where
  "con_ok s \<longleftrightarrow> SCREEN_START \<le> origin s \<and> scr_end s = origin s + 2 * COLUMNS * LINES \<and> scr_end s \<le> SCREEN_END \<and>
     0 \<le> con_x s \<and> con_x s \<le> COLUMNS \<and> 0 \<le> con_y s \<and> con_y s < LINES \<and>
     pos s = origin s + 2 * (con_y s * COLUMNS + con_x s) \<and>
     0 \<le> con_top s \<and> con_top s < con_bottom s \<and> con_bottom s \<le> LINES \<and>
     0 \<le> saved_x s \<and> saved_x s \<le> COLUMNS \<and> 0 \<le> saved_y s \<and> saved_y s < LINES \<and>
     0 \<le> npar s \<and> npar s < int NPAR \<and> (\<forall>i. 0 \<le> par s i \<and> par s i < 2 ^ 32)"

definition in_video :: "int \<Rightarrow> bool" where
  "in_video a \<longleftrightarrow> SCREEN_START \<le> a \<and> a < SCREEN_END"

definition video_only :: "'z con_st_scheme \<Rightarrow> 'z con_st_scheme \<Rightarrow> bool" where
  "video_only s t \<longleftrightarrow> (\<forall>a. \<not> in_video a \<longrightarrow> vmem t a = vmem s a)"

text \<open>What every operation of the console promises.\<close>

definition con_step_ok :: "('z con_st_scheme \<Rightarrow> 'z con_st_scheme) \<Rightarrow> bool" where
  "con_step_ok f \<longleftrightarrow> (\<forall>s. con_ok s \<longrightarrow> con_ok (f s) \<and> video_only s (f s))"

named_theorems con_steps "operations that keep the console invariant"

lemma con_step_okI: "(\<And>s. con_ok s \<Longrightarrow> con_ok (f s) \<and> video_only s (f s)) \<Longrightarrow> con_step_ok f"
  by (simp add: con_step_ok_def)

lemma con_step_okD: "con_step_ok f \<Longrightarrow> con_ok s \<Longrightarrow> con_ok (f s) \<and> video_only s (f s)"
  by (simp add: con_step_ok_def)

lemma video_only_refl [simp]: "video_only s s"
  by (simp add: video_only_def)

lemma video_only_trans: "video_only s t \<Longrightarrow> video_only t u \<Longrightarrow> video_only s u"
  by (simp add: video_only_def)

lemma video_only_same: "vmem t = vmem s \<Longrightarrow> video_only s t"
  by (simp add: video_only_def)

lemma con_step_comp: "con_step_ok f \<Longrightarrow> con_ok (g s) \<Longrightarrow> video_only s (g s) \<Longrightarrow> con_ok (f (g s)) \<and> video_only s (f (g s))"
  using video_only_trans unfolding con_step_ok_def by blast

lemma con_step_funpow: "con_step_ok f \<Longrightarrow> con_step_ok (f ^^ n)"
proof (induction n)
  case (Suc n)
  then show ?case using video_only_trans unfolding con_step_ok_def by (metis comp_apply funpow.simps(2))
qed (simp add: con_step_ok_def)

lemma stosw_out: "0 \<le> di \<Longrightarrow> di + 2 * int n < 2 ^ 32 \<Longrightarrow> a < di \<or> di + 2 * int n \<le> a \<Longrightarrow> stosw n di v m a = m a"
proof (induction n arbitrary: di m)
  case (Suc n)
  have u: "uw (di + 2) = di + 2" using Suc.prems(1,2) by (intro uw_id) simp_all
  have "a \<noteq> di" "a < di + 2 \<or> di + 2 + 2 * int n \<le> a" using Suc.prems(3) by auto
  with Suc.IH Suc.prems(1,2) show ?case unfolding stosw.simps u by simp
qed simp

lemma stosw_down_out:
  "0 < di - 2 * int n \<Longrightarrow> di < 2 ^ 32 \<Longrightarrow> a < di - 2 * int n + 2 \<or> di < a \<Longrightarrow> stosw_down n di v m a = m a"
proof (induction n arbitrary: di m)
  case (Suc n)
  have u: "uw (di - 2) = di - 2" using Suc.prems(1,2) by (intro uw_id) simp_all
  have "a \<noteq> di" "a < di - 2 - 2 * int n + 2 \<or> di - 2 < a" using Suc.prems(3) by auto
  with Suc.IH Suc.prems(1,2) show ?case unfolding stosw_down.simps u by simp
qed simp

lemma movsl_out: "0 \<le> di \<Longrightarrow> di + 4 * int n < 2 ^ 32 \<Longrightarrow> a < di \<or> di + 4 * int n \<le> a \<Longrightarrow> movsl n di si m a = m a"
proof (induction n arbitrary: di si m)
  case (Suc n)
  have u: "uw (di + 2) = di + 2" "uw (di + 4) = di + 4" using Suc.prems(1,2) by (auto intro: uw_id)
  have "a \<noteq> di" "a \<noteq> di + 2" "a < di + 4 \<or> di + 4 + 4 * int n \<le> a" using Suc.prems(3) by auto
  with Suc.IH Suc.prems(1,2) show ?case unfolding movsl.simps u by simp
qed simp

lemma movsl_down_out:
  "0 < di - 4 * int n \<Longrightarrow> di + 2 < 2 ^ 32 \<Longrightarrow> a < di - 4 * int n + 4 \<or> di + 2 < a \<Longrightarrow> movsl_down n di si m a = m a"
proof (induction n arbitrary: di si m)
  case (Suc n)
  have u: "uw (di + 2) = di + 2" "uw (di - 4) = di - 4" using Suc.prems(1,2) by (auto intro: uw_id)
  have "a \<noteq> di" "a \<noteq> di + 2" "a < di - 4 - 4 * int n + 4 \<or> di - 4 + 2 < a" using Suc.prems(3) by auto
  with Suc.IH Suc.prems(1,2) show ?case unfolding movsl_down.simps u by simp
qed simp

lemma video_onlyI:
  assumes "\<And>a. a < 0xb8000 \<Longrightarrow> vmem t a = vmem s a" and "\<And>a. 0xc0000 \<le> a \<Longrightarrow> vmem t a = vmem s a"
  shows "video_only s t"
  using assms unfolding video_only_def in_video_def con_consts by (meson not_le)

lemma con_okD:
  assumes "con_ok s"
  shows "0xb8000 \<le> origin s" "scr_end s = origin s + 4000" "origin s + 4000 \<le> 0xc0000" "0 \<le> con_x s" "con_x s \<le> 80"
    "0 \<le> con_y s" "con_y s < 25" "pos s = origin s + 2 * (con_y s * 80 + con_x s)"
    "0 \<le> con_top s" "con_top s < con_bottom s" "con_bottom s \<le> 25"
    "0 \<le> saved_x s" "saved_x s \<le> 80" "0 \<le> saved_y s" "saved_y s < 25" "0 \<le> npar s" "npar s < 16"
    "\<forall>i. 0 \<le> par s i \<and> par s i < 2 ^ 32"
  using assms by (simp_all add: con_ok_def con_consts NPAR_def)

lemma con_okI:
  assumes "0xb8000 \<le> origin s" "scr_end s = origin s + 4000" "origin s + 4000 \<le> 0xc0000" "0 \<le> con_x s" "con_x s \<le> 80"
    "0 \<le> con_y s" "con_y s < 25" "pos s = origin s + 2 * (con_y s * 80 + con_x s)"
    "0 \<le> con_top s" "con_top s < con_bottom s" "con_bottom s \<le> 25"
    "0 \<le> saved_x s" "saved_x s \<le> 80" "0 \<le> saved_y s" "saved_y s < 25" "0 \<le> npar s" "npar s < 16"
    "\<forall>i. 0 \<le> par s i \<and> par s i < 2 ^ 32"
  shows "con_ok s"
  using assms by (simp add: con_ok_def con_consts NPAR_def)

lemma gotoxy_ok [con_steps]: "con_step_ok (gotoxy nx ny)"
proof (rule con_step_okI)
  fix s assume ok: "con_ok s"
  note d = con_okD [OF ok]
  show "con_ok (gotoxy nx ny s) \<and> video_only s (gotoxy nx ny s)"
  proof (cases "uw nx \<ge> COLUMNS \<or> uw ny \<ge> LINES")
    case False
    then have b: "0 \<le> uw nx" "uw nx < 80" "0 \<le> uw ny" "uw ny < 25" using uw_range by (simp_all add: con_consts)
    have "uw (origin s + 2 * (uw ny * 80 + uw nx)) = origin s + 2 * (uw ny * 80 + uw nx)"
      using b d by (intro uw_id) simp_all
    with False b d show ?thesis
      by (auto simp: gotoxy_def COLUMNS_def LINES_def intro!: con_okI video_only_same)
  qed (use ok in \<open>simp add: gotoxy_def\<close>)
qed

lemma scrup_ok [con_steps]: "con_step_ok scrup"
proof (rule con_step_okI)
  fix s :: "'z con_st_scheme" assume ok: "con_ok s"
  note d = con_okD [OF ok]
  show "con_ok (scrup s) \<and> video_only s (scrup s)"
  proof (cases "con_top s = 0 \<and> con_bottom s = LINES")
    case True
    have u: "uw (origin s + 160) = origin s + 160" "uw (pos s + 160) = pos s + 160" "uw (scr_end s + 160) = scr_end s + 160"
      using d by (auto intro!: uw_id)
    show ?thesis
    proof (cases "scr_end s + 160 > SCREEN_END")
      case big: True
      have v: "uw (scr_end s + 160 - (origin s + 160 - 0xb8000)) = 0xb8000 + 4000"
        "uw (pos s + 160 - (origin s + 160 - 0xb8000)) = 0xb8000 + 2 * (con_y s * 80 + con_x s)"
        using d by (auto intro!: uw_id simp: uw_def)
      have "video_only s (scrup s)"
        by (rule video_onlyI)
          (use True big u in \<open>simp_all add: scrup_def Let_def con_consts set_origin_def stosw_out movsl_out\<close>)
      then show ?thesis using True big u v d
        by (auto simp: scrup_def Let_def con_consts set_origin_def intro!: con_okI)
    next
      case small: False
      have w: "uw (scr_end s + 160 - 160) = scr_end s" "uw (scr_end s) = scr_end s" using d uw_id [of "scr_end s"] by (simp_all add: add.commute)
      have "video_only s (scrup s)"
        by (rule video_onlyI)
          (use True small u w d in \<open>simp_all add: scrup_def Let_def con_consts set_origin_def stosw_out\<close>)
      then show ?thesis using True small u d
        by (auto simp: scrup_def Let_def con_consts set_origin_def intro!: con_okI)
    qed
  next
    case False
    define n where "n = nat (uw ((con_bottom s - con_top s - 1) * 80) div 2)"
    have n: "int n = (con_bottom s - con_top s - 1) * 40"
      using d uw_id [of "(con_bottom s - con_top s - 1) * 80"] by (simp add: n_def)
    have u: "uw (origin s + 160 * con_top s) = origin s + 160 * con_top s"
      "uw (origin s + 160 * con_top s + 4 * int n) = origin s + 160 * con_top s + 4 * int n"
      using d n by (auto intro!: uw_id)
    have c2: "2 * (80::int) = 160" by simp
    have sc: "scrup s = s\<lparr>vmem := stosw 80 (origin s + 160 * con_top s + 4 * int n) BLANK
        (movsl n (origin s + 160 * con_top s) (uw (origin s + 160 * (con_top s + 1))) (vmem s))\<rparr>"
      unfolding scrup_def if_not_P [OF False] Let_def COLUMNS_def n_def [symmetric] c2 u by simp
    then have e: "vmem (scrup s) = stosw 80 (origin s + 160 * con_top s + 4 * int n) BLANK
        (movsl n (origin s + 160 * con_top s) (uw (origin s + 160 * (con_top s + 1))) (vmem s))" by simp
    have "video_only s (scrup s)"
      by (rule video_onlyI) (use d n in \<open>simp_all add: e stosw_out movsl_out\<close>)
    moreover have "con_ok (scrup s)" using ok unfolding sc by (simp add: con_ok_def)
    ultimately show ?thesis by simp
  qed
qed

lemma scrdown_ok [con_steps]: "con_step_ok scrdown"
proof (rule con_step_okI)
  fix s :: "'z con_st_scheme" assume ok: "con_ok s"
  note d = con_okD [OF ok]
  define n where "n = nat (uw ((con_bottom s - con_top s - 1) * 80) div 2)"
  have n: "int n = (con_bottom s - con_top s - 1) * 40"
    using d uw_id [of "(con_bottom s - con_top s - 1) * 80"] by (simp add: n_def)
  let ?di = "origin s + 160 * con_bottom s - 4"
  have u: "uw ?di = ?di" "uw (?di - 4 * int n + 2) = ?di - 4 * int n + 2" using d n by (auto intro!: uw_id)
  have e: "vmem (scrdown s) = stosw_down 80 (?di - 4 * int n + 2) BLANK
      (movsl_down n ?di (uw (origin s + 160 * (con_bottom s - 1) - 4)) (vmem s))"
    unfolding scrdown_def Let_def COLUMNS_def n_def [symmetric] using u by simp
  have "video_only s (scrdown s)"
    by (rule video_onlyI) (use d n in \<open>simp_all add: e stosw_down_out movsl_down_out\<close>)
  moreover have "con_ok (scrdown s)" using ok by (simp add: scrdown_def Let_def con_ok_def)
  ultimately show "con_ok (scrdown s) \<and> video_only s (scrdown s)" by simp
qed

lemma lf_ok [con_steps]: "con_step_ok lf"
proof (rule con_step_okI)
  fix s :: "'z con_st_scheme" assume ok: "con_ok s"
  note d = con_okD [OF ok]
  have u: "uw (con_y s + 1) = con_y s + 1" "uw (pos s + 160) = pos s + 160" using d by (auto intro!: uw_id)
  show "con_ok (lf s) \<and> video_only s (lf s)"
    using con_step_okD [OF scrup_ok ok] u d
    by (auto simp: lf_def COLUMNS_def intro!: con_okI video_only_same)
qed

lemma ri_ok [con_steps]: "con_step_ok ri"
proof (rule con_step_okI)
  fix s :: "'z con_st_scheme" assume ok: "con_ok s"
  note d = con_okD [OF ok]
  have u: "con_y s > con_top s \<Longrightarrow> uw (con_y s - 1) = con_y s - 1" "con_y s > con_top s \<Longrightarrow> uw (pos s - 160) = pos s - 160"
    using d by (auto intro!: uw_id)
  show "con_ok (ri s) \<and> video_only s (ri s)"
    using con_step_okD [OF scrdown_ok ok] u d
    by (auto simp: ri_def COLUMNS_def intro!: con_okI video_only_same)
qed

lemma cr_ok [con_steps]: "con_step_ok cr"
proof (rule con_step_okI)
  fix s :: "'z con_st_scheme" assume ok: "con_ok s"
  note d = con_okD [OF ok]
  have "uw (pos s - 2 * con_x s) = pos s - 2 * con_x s" using d by (intro uw_id) simp_all
  with d show "con_ok (cr s) \<and> video_only s (cr s)"
    by (auto simp: cr_def intro!: con_okI video_only_same)
qed

lemma back_ok: "con_ok s \<Longrightarrow> con_x s \<noteq> 0 \<Longrightarrow> con_ok (s\<lparr>con_x := uw (con_x s - 1), pos := uw (pos s - 2)\<rparr>)"
proof -
  assume ok: "con_ok s" and x: "con_x s \<noteq> 0"
  note d = con_okD [OF ok]
  have "uw (con_x s - 1) = con_x s - 1" "uw (pos s - 2) = pos s - 2" using d x by (auto intro!: uw_id)
  with d x show ?thesis by (auto intro!: con_okI)
qed

lemma poke_ok: "con_ok s \<Longrightarrow> origin s \<le> a \<Longrightarrow> a < scr_end s \<Longrightarrow> con_ok (poke a v s) \<and> video_only s (poke a v s)"
  by (auto simp: con_ok_def poke_def video_only_def in_video_def)

lemma del_ok [con_steps]: "con_step_ok del"
proof (rule con_step_okI)
  fix s :: "'z con_st_scheme" assume ok: "con_ok s"
  note d = con_okD [OF ok]
  show "con_ok (del s) \<and> video_only s (del s)"
  proof (cases "con_x s = 0")
    case False
    let ?t = "s\<lparr>pos := uw (pos s - 2), con_x := uw (con_x s - 1)\<rparr>"
    have "con_ok ?t" using back_ok [OF ok False] by (simp add: con_ok_def)
    moreover have "uw (pos s - 2) = pos s - 2" using d False by (intro uw_id) simp_all
    ultimately have "con_ok (poke (uw (pos s - 2)) BLANK ?t) \<and> video_only ?t (poke (uw (pos s - 2)) BLANK ?t)"
      using d False by (intro poke_ok) auto
    with False show ?thesis by (simp add: del_def video_only_def)
  qed (use ok in \<open>simp add: del_def\<close>)
qed

lemma erase_ok:
  assumes "con_ok s" and "0 \<le> n" and "origin s \<le> a" and "a + 2 * n \<le> scr_end s"
  shows "con_ok (erase n a s) \<and> video_only s (erase n a s)"
proof -
  note d = con_okD [OF assms(1)]
  have "uw n = n" using assms d by (intro uw_id) simp_all
  then have "video_only s (erase n a s)"
    by (intro video_onlyI) (use d assms in \<open>simp_all add: erase_def stosw_out\<close>)
  moreover have "con_ok (erase n a s)" using assms(1) by (simp add: erase_def con_ok_def)
  ultimately show ?thesis by simp
qed

lemma csi_J_ok [con_steps]: "con_step_ok (csi_J p)"
proof (rule con_step_okI)
  fix s :: "'z con_st_scheme" assume ok: "con_ok s"
  note d = con_okD [OF ok]
  have u: "uw (scr_end s - pos s) = scr_end s - pos s" "uw (pos s - origin s) = pos s - origin s"
    using d by (auto intro!: uw_id)
  have "con_ok (erase n a s) \<and> video_only s (erase n a s)"
    if "0 \<le> n" "origin s \<le> a" "a + 2 * n \<le> scr_end s" for n a
    using erase_ok [OF ok that] .
  then show "con_ok (csi_J p s) \<and> video_only s (csi_J p s)"
    using d u ok by (simp add: csi_J_def COLUMNS_def LINES_def)
qed

lemma csi_K_ok [con_steps]: "con_step_ok (csi_K p)"
proof (rule con_step_okI)
  fix s :: "'z con_st_scheme" assume ok: "con_ok s"
  note d = con_okD [OF ok]
  have u: "uw (pos s - 2 * con_x s) = pos s - 2 * con_x s" using d by (intro uw_id) simp_all
  show "con_ok (csi_K p s) \<and> video_only s (csi_K p s)"
    using erase_ok [OF ok] d u ok by (simp add: csi_K_def COLUMNS_def)
qed

lemma con_ok_attr [simp]: "con_ok (s\<lparr>attr := v\<rparr>) = con_ok s"
  by (simp add: con_ok_def)

lemma csi_m_fields: "con_ok (csi_m s) = con_ok s \<and> vmem (csi_m s) = vmem s"
proof -
  have gen: "con_ok (fold f is s) = con_ok s \<and> vmem (fold f is s) = vmem s"
    if "\<And>i s. con_ok (f i s) = con_ok s \<and> vmem (f i s) = vmem s"
    for f :: "nat \<Rightarrow> 'z con_st_scheme \<Rightarrow> 'z con_st_scheme" and "is" and s
    using that by (induction "is" arbitrary: s) simp_all
  show ?thesis unfolding csi_m_def by (rule gen) simp
qed

lemma csi_m_ok [con_steps]: "con_step_ok csi_m"
  by (rule con_step_okI) (simp add: csi_m_fields video_only_same)

lemma shift_right_out: "0 \<le> p \<Longrightarrow> p + 2 * int n < 2 ^ 32 \<Longrightarrow> a < p \<or> p + 2 * int n \<le> a \<Longrightarrow> shift_right n p old m a = m a"
proof (induction n arbitrary: p old m)
  case (Suc n)
  have u: "uw (p + 2) = p + 2" using Suc.prems by (intro uw_id) simp_all
  have "a \<noteq> p" "a < p + 2 \<or> p + 2 + 2 * int n \<le> a" using Suc.prems(3) by auto
  with Suc.IH Suc.prems(1,2) show ?case unfolding shift_right.simps u by simp
qed simp

lemma shift_left_out: "0 \<le> p \<Longrightarrow> p + 2 * int n + 2 < 2 ^ 32 \<Longrightarrow> a < p \<or> p + 2 * int n + 2 \<le> a \<Longrightarrow> shift_left n p m a = m a"
proof (induction n arbitrary: p m)
  case (Suc n)
  have u: "uw (p + 2) = p + 2" using Suc.prems by (intro uw_id) simp_all
  have "a \<noteq> p" "a < p + 2 \<or> p + 2 + 2 * int n + 2 \<le> a" using Suc.prems(3) by auto
  with Suc.IH Suc.prems(1,2) show ?case unfolding shift_left.simps u by simp
qed auto

lemma con_ok_vmem [simp]: "con_ok (s\<lparr>vmem := m\<rparr>) = con_ok s"
  by (simp add: con_ok_def)

lemma insert_char_ok: "con_step_ok insert_char"
proof (rule con_step_okI)
  fix s :: "'z con_st_scheme" assume ok: "con_ok s"
  note d = con_okD [OF ok]
  have n: "int (nat (80 - con_x s)) = 80 - con_x s" using d by simp
  have "video_only s (insert_char s)"
    by (rule video_onlyI) (use d n in \<open>simp_all add: insert_char_def COLUMNS_def shift_right_out\<close>)
  with ok show "con_ok (insert_char s) \<and> video_only s (insert_char s)" by (simp add: insert_char_def)
qed

lemma delete_char_ok: "con_step_ok delete_char"
proof (rule con_step_okI)
  fix s :: "'z con_st_scheme" assume ok: "con_ok s"
  note d = con_okD [OF ok]
  show "con_ok (delete_char s) \<and> video_only s (delete_char s)"
  proof (cases "con_x s \<ge> COLUMNS")
    case False
    then have n: "int (nat (79 - con_x s)) = 79 - con_x s" by (simp add: COLUMNS_def)
    have "video_only s (delete_char s)"
      by (rule video_onlyI) (use d n False in \<open>simp_all add: delete_char_def COLUMNS_def shift_left_out\<close>)
    with ok False show ?thesis by (simp add: delete_char_def)
  qed (use ok in \<open>simp add: delete_char_def\<close>)
qed

lemma line_ok:
  assumes f: "con_step_ok (f :: 'z con_st_scheme \<Rightarrow> 'z con_st_scheme)"
    and g: "\<And>s. g s = (let t = f (s\<lparr>con_top := con_y s, con_bottom := LINES\<rparr>) in t\<lparr>con_top := con_top s, con_bottom := con_bottom s\<rparr>)"
  shows "con_step_ok g"
proof (rule con_step_okI)
  fix s :: "'z con_st_scheme" assume ok: "con_ok s"
  let ?s = "s\<lparr>con_top := con_y s, con_bottom := LINES\<rparr>"
  have "con_ok ?s" using ok by (simp add: con_ok_def)
  from con_step_okD [OF f this] ok show "con_ok (g s) \<and> video_only s (g s)"
    by (simp add: g Let_def con_ok_def video_only_def)
qed

lemma csi_edit_ok [con_steps]:
  "con_step_ok (csi_at n)" "con_step_ok (csi_L n)" "con_step_ok (csi_P n)" "con_step_ok (csi_M n)"
proof -
  have rep: "con_step_ok (csi_repeat l n f)" if "con_step_ok f" for l and f :: "'z con_st_scheme \<Rightarrow> 'z con_st_scheme"
    using con_step_funpow [OF that] by (simp add: csi_repeat_def con_step_ok_def)
  have "con_step_ok (insert_line :: 'z con_st_scheme \<Rightarrow> _)"
    by (rule line_ok [OF scrdown_ok]) (simp add: insert_line_def)
  moreover have "con_step_ok (delete_line :: 'z con_st_scheme \<Rightarrow> _)"
    by (rule line_ok [OF scrup_ok]) (simp add: delete_line_def)
  ultimately show "con_step_ok (csi_at n :: 'z con_st_scheme \<Rightarrow> _)" "con_step_ok (csi_L n :: 'z con_st_scheme \<Rightarrow> _)"
    "con_step_ok (csi_P n :: 'z con_st_scheme \<Rightarrow> _)" "con_step_ok (csi_M n :: 'z con_st_scheme \<Rightarrow> _)"
    using rep [OF insert_char_ok] rep [OF delete_char_ok] rep
    unfolding con_step_ok_def csi_at_def csi_L_def csi_P_def csi_M_def by blast+
qed

lemma save_cur_ok [con_steps]: "con_step_ok save_cur"
  by (rule con_step_okI) (simp add: save_cur_def con_ok_def video_only_same)

lemma restore_cur_ok [con_steps]: "con_step_ok restore_cur"
proof (rule con_step_okI)
  fix s :: "'z con_st_scheme" assume ok: "con_ok s"
  note d = con_okD [OF ok]
  have "uw (origin s + 2 * (saved_y s * 80 + saved_x s)) = origin s + 2 * (saved_y s * 80 + saved_x s)"
    using d by (intro uw_id) simp_all
  with d show "con_ok (restore_cur s) \<and> video_only s (restore_cur s)"
    by (auto simp: restore_cur_def COLUMNS_def intro!: con_okI video_only_same)
qed

lemma set_par_ok: "con_ok s \<Longrightarrow> con_ok (set_par i v s)" "vmem (set_par i v s) = vmem s"
  "par (set_par i v s) = (par s)(i := uw v)"
  using uw_range [of v] by (auto simp: set_par_def con_ok_def)

lemma par_adj_ok: "con_ok s \<Longrightarrow> con_ok (par_dec i s)" "con_ok s \<Longrightarrow> con_ok (par_inc i s)"
  "vmem (par_dec i s) = vmem s" "vmem (par_inc i s) = vmem s"
  by (simp_all add: par_dec_def par_inc_def set_par_ok)

lemma step_after:
  "con_step_ok f \<Longrightarrow> con_ok u \<Longrightarrow> vmem u = vmem s \<Longrightarrow> con_ok (f u) \<and> video_only s (f u)"
  using con_step_okD [of f u] by (simp add: video_only_def)

lemma if_both: "Q x \<Longrightarrow> Q y \<Longrightarrow> Q (if c then x else y)"
  by simp

lemma con_csi_ok: "con_step_ok (con_csi c)"
proof (rule con_step_okI)
  fix s :: "'z con_st_scheme" assume ok: "con_ok s"
  define P where "P u \<longleftrightarrow> con_ok u \<and> video_only s u" for u
  let ?s = "s\<lparr>con_state := 0\<rparr>"
  let ?d = "par_dec 0 ?s" and ?i = "par_inc 0 ?s"
  let ?e = "if par ?d 1 = 0 then set_par 1 LINES ?d else ?d"
  have s0: "con_ok ?s" using ok by (simp add: con_ok_def)
  note adj = par_adj_ok [where s = ?s] par_adj_ok [where s = ?d]
  have base: "P (f ?s)" "P (f ?d)" "P (f ?i)" "P (f (par_dec 1 ?d))" if "con_step_ok f" for f
    using step_after [OF that, of _ s] s0 adj unfolding P_def by simp_all
  have e: "con_ok ?e" "vmem ?e = vmem s" using adj s0 by (simp_all add: set_par_ok)
  define R where "R = (if par ?e 0 < par ?e 1 \<and> par ?e 1 \<le> LINES then ?e\<lparr>con_top := par ?e 0, con_bottom := par ?e 1\<rparr> else ?e)"
  have r: "P R"
  proof (cases "par ?e 0 < par ?e 1 \<and> par ?e 1 \<le> LINES")
    case True
    moreover have "0 \<le> par ?e 0" using con_okD(18) [OF e(1)] by blast
    ultimately have "con_ok (?e\<lparr>con_top := par ?e 0, con_bottom := par ?e 1\<rparr>)"
      using e(1) unfolding con_ok_def by simp
    then show ?thesis unfolding P_def R_def if_P [OF True] using e(2) by (simp add: video_only_same)
  next
    case False
    show ?thesis unfolding P_def R_def if_not_P [OF False] using e by (simp add: video_only_same)
  qed
  have z: "P ?s" using s0 by (simp add: P_def video_only_same)
  have "P (con_csi c s)"
    unfolding con_csi_def Let_def R_def [symmetric]
    by (intro if_both [of P] r z base [OF gotoxy_ok] base [OF csi_J_ok] base [OF csi_K_ok] base [OF csi_m_ok]
        base [OF save_cur_ok] base [OF restore_cur_ok] base [OF csi_edit_ok(1)] base [OF csi_edit_ok(2)]
        base [OF csi_edit_ok(3)] base [OF csi_edit_ok(4)])
  then show "con_ok (con_csi c s) \<and> video_only s (con_csi c s)" by (simp add: P_def)
qed

lemma con_par_ok: "con_step_ok (con_par c)"
proof (rule con_step_okI)
  fix s :: "'z con_st_scheme" assume ok: "con_ok s"
  have n: "npar s < int NPAR - 1 \<Longrightarrow> con_ok (s\<lparr>npar := npar s + 1\<rparr>)" using ok by (simp add: con_ok_def)
  show "con_ok (con_par c s) \<and> video_only s (con_par c s)"
    using con_step_okD [OF con_csi_ok ok, of c] n set_par_ok(1) [OF ok]
    by (simp add: con_par_def video_only_def set_par_ok(2))
qed

lemma wrap_line_ok:
  assumes ok: "con_ok (s\<lparr>con_x := con_x s - 80, pos := pos s - 160\<rparr>)" and "con_x s \<ge> 80"
  shows "con_ok (wrap_line s)" "video_only s (wrap_line s)"
proof -
  note d = con_okD [OF ok]
  have u: "uw (con_x s - 80) = con_x s - 80" "uw (pos s - 160) = pos s - 160" using d assms(2) by (auto intro!: uw_id)
  have "wrap_line s = lf (s\<lparr>con_x := con_x s - 80, pos := pos s - 160\<rparr>)"
    unfolding wrap_line_def using u by (simp add: COLUMNS_def)
  with step_after [OF lf_ok ok, of s] show "con_ok (wrap_line s)" "video_only s (wrap_line s)" by simp_all
qed

lemma put_glyph_ok:
  assumes ok: "con_ok s" and x: "con_x s < 80"
  shows "con_ok ((poke (pos s) v s)\<lparr>pos := uw (pos s + 2), con_x := uw (con_x s + 1)\<rparr>)"
    and "video_only s ((poke (pos s) v s)\<lparr>pos := uw (pos s + 2), con_x := uw (con_x s + 1)\<rparr>)"
proof -
  note d = con_okD [OF ok]
  have u: "uw (pos s + 2) = pos s + 2" "uw (con_x s + 1) = con_x s + 1" using d x by (auto intro!: uw_id)
  have "origin s \<le> pos s" "pos s < scr_end s" using d x by simp_all
  with poke_ok [OF ok this, of v]
  show "video_only s ((poke (pos s) v s)\<lparr>pos := uw (pos s + 2), con_x := uw (con_x s + 1)\<rparr>)"
    by (simp add: video_only_def)
  show "con_ok ((poke (pos s) v s)\<lparr>pos := uw (pos s + 2), con_x := uw (con_x s + 1)\<rparr>)"
    using d x u by (intro con_okI) (simp_all add: poke_def)
qed

lemma con_plain_ok: "con_step_ok (con_plain e c)"
proof (rule con_step_okI)
  fix s :: "'z con_st_scheme" assume ok: "con_ok s"
  note d = con_okD [OF ok]
  define P where "P u \<longleftrightarrow> con_ok u \<and> video_only s u" for u
  have P_step: "P (f s)" if "con_step_ok f" for f using con_step_okD [OF that ok] by (simp add: P_def)
  have glyph: "P (let s1 = (if con_x s \<ge> COLUMNS then wrap_line s else s); s2 = poke (pos s1) (push_bit 8 (ucast (attr s1)) OR ucast c) s1
        in s2\<lparr>pos := uw (pos s2 + 2), con_x := uw (con_x s2 + 1)\<rparr>)"
  proof -
    define s1 where "s1 = (if con_x s \<ge> COLUMNS then wrap_line s else s)"
    have "con_ok s1 \<and> video_only s s1 \<and> con_x s1 < 80"
    proof (cases "con_x s \<ge> COLUMNS")
      case True
      then have x: "con_x s = 80" using d by (simp add: COLUMNS_def)
      have w: "con_ok (s\<lparr>con_x := con_x s - 80, pos := pos s - 160\<rparr>)"
        using d x by (intro con_okI) simp_all
      have "con_x (wrap_line s) = uw (con_x s - COLUMNS)"
        by (simp add: wrap_line_def lf_def scrup_def Let_def set_origin_def)
      then have "con_x (wrap_line s) < 80" using x by (simp add: COLUMNS_def uw_def)
      with wrap_line_ok [OF w] x True show ?thesis by (simp add: s1_def)
    next
      case False
      with ok show ?thesis by (simp add: s1_def COLUMNS_def)
    qed
    then have "con_ok s1" "con_x s1 < 80" and v: "video_only s s1" by blast+
    note g = put_glyph_ok [OF this(1,2), of "push_bit 8 (ucast (attr s1)) OR ucast c"]
    have "pos (poke a w u) = pos u" "con_x (poke a w u) = con_x u" for a w and u :: "'z con_st_scheme"
      by (simp_all add: poke_def)
    with g(1) video_only_trans [OF v g(2)] show ?thesis
      unfolding Let_def s1_def [symmetric] P_def by simp
  qed
  have bs: "P (if con_x s \<noteq> 0 then s\<lparr>con_x := uw (con_x s - 1), pos := uw (pos s - 2)\<rparr> else s)"
    using back_ok [OF ok] ok by (simp add: P_def video_only_def)
  have tab: "P (let n = 8 - con_x s mod 8; s1 = s\<lparr>con_x := uw (con_x s + n), pos := uw (pos s + 2 * n)\<rparr>
        in if con_x s1 > COLUMNS then wrap_line s1 else s1)"
  proof -
    define n where "n = 8 - con_x s mod 8"
    have n: "1 \<le> n" "n \<le> 8" using pos_mod_bound [of 8 "con_x s"] pos_mod_sign [of 8 "con_x s"] unfolding n_def by linarith+
    have u: "uw (con_x s + n) = con_x s + n" "uw (pos s + 2 * n) = pos s + 2 * n" using d n by (auto intro!: uw_id)
    let ?s = "s\<lparr>con_x := con_x s + n, pos := pos s + 2 * n\<rparr>"
    show ?thesis
    proof (cases "con_x s + n > 80")
      case True
      have "con_ok (?s\<lparr>con_x := con_x ?s - 80, pos := pos ?s - 160\<rparr>)"
        using d n True by (intro con_okI) simp_all
      from wrap_line_ok [OF this] True show ?thesis
        unfolding n_def [symmetric] Let_def u P_def by (simp add: COLUMNS_def video_only_def)
    next
      case False
      have "con_ok ?s" using d n False by (intro con_okI) simp_all
      with False show ?thesis unfolding n_def [symmetric] Let_def u P_def by (simp add: COLUMNS_def video_only_def)
    qed
  qed
  have esc: "P (s\<lparr>con_state := 1\<rparr>)" "P s" using ok by (simp_all add: P_def con_ok_def video_only_def)
  have "P (con_plain e c s)"
    unfolding con_plain_def
    by (auto simp only: glyph bs tab esc P_step [OF lf_ok] P_step [OF cr_ok] P_step [OF del_ok] split: if_split)
  then show "con_ok (con_plain e c s) \<and> video_only s (con_plain e c s)" by (simp add: P_def)
qed

lemma con_char_ok:
  assumes ok: "con_ok s"
  shows "con_ok (fst (con_char e c s)) \<and> video_only s (fst (con_char e c s))"
proof -
  define P where "P u \<longleftrightarrow> con_ok u \<and> video_only s u" for u
  let ?s = "s\<lparr>con_state := 0\<rparr>"
  have s0: "con_ok ?s" "vmem ?s = vmem s" using ok by (simp_all add: con_ok_def)
  have P0: "P (f ?s)" if "con_step_ok f" for f using step_after [OF that s0] by (simp add: P_def)
  have z: "P ?s" "P (s\<lparr>con_state := 2\<rparr>)" using ok by (simp_all add: P_def con_ok_def video_only_def)
  have esc: "P (fst (con_esc c s))"
    unfolding con_esc_def Let_def
    by (simp add: z P0 [OF gotoxy_ok] P0 [OF ri_ok] P0 [OF lf_ok] P0 [OF save_cur_ok] P0 [OF restore_cur_ok]
        del: con_st.update_convs)
  let ?t = "s\<lparr>par := (\<lambda>i. if i < NPAR then 0 else par s i), npar := 0, con_state := 3, ques := (c = ch CHR ''?'')\<rparr>"
  have t: "con_ok ?t" "vmem ?t = vmem s" using ok by (auto simp: con_ok_def NPAR_def)
  have "P ?t" "P (con_par c ?t)" using t step_after [OF con_par_ok t] by (simp_all add: P_def video_only_def)
  moreover have "P (con_plain e c s)" "P (con_par c s)" "P (con_csi c s)" "P s"
    using con_step_okD [OF con_plain_ok ok] con_step_okD [OF con_par_ok ok] con_step_okD [OF con_csi_ok ok] ok
    by (simp_all add: P_def)
  ultimately have "P (fst (con_char e c s))"
    using esc unfolding con_char_def Let_def
    by (cases "c = ch CHR ''?''") (simp_all del: con_st.update_convs)
  then show ?thesis by (simp add: P_def)
qed

section \<open>The column of the cursor\<close>

text \<open>Scrolling, erasing and editing leave the column alone; every other movement but a restored cursor ends inside the line.\<close>

lemma scroll_column [simp]:
  "con_x (scrup s) = con_x s" "con_x (scrdown s) = con_x s" "con_x (lf s) = con_x s" "con_x (ri s) = con_x s"
  by (simp_all add: scrup_def scrdown_def lf_def ri_def set_origin_def Let_def)

lemma funpow_column: "(\<And>s. con_x (f s) = con_x s) \<Longrightarrow> con_x ((f ^^ n) s) = con_x s"
  for f :: "'z con_st_scheme \<Rightarrow> 'z con_st_scheme"
  by (induction n) simp_all

lemma edit_column [simp]:
  "con_x (csi_J p s) = con_x s" "con_x (csi_K p s) = con_x s" "con_x (csi_at n s) = con_x s" "con_x (csi_L n s) = con_x s"
  "con_x (csi_P n s) = con_x s" "con_x (csi_M n s) = con_x s" "con_x (save_cur s) = con_x s"
  by (simp_all add: csi_J_def csi_K_def erase_def csi_at_def csi_L_def csi_P_def csi_M_def csi_repeat_def save_cur_def
      funpow_column insert_char_def insert_line_def delete_char_def delete_line_def Let_def)

lemma csi_m_column [simp]: "con_x (csi_m s) = con_x s"
proof -
  have gen: "con_x (fold f is s) = con_x s" if "\<And>i s. con_x (f i s) = con_x s"
    for f :: "nat \<Rightarrow> 'z con_st_scheme \<Rightarrow> 'z con_st_scheme" and "is" and s
    using that by (induction "is" arbitrary: s) simp_all
  show ?thesis unfolding csi_m_def by (rule gen) simp
qed

lemma par_column [simp]:
  "con_x (set_par i v s) = con_x s" "con_x (par_dec i s) = con_x s" "con_x (par_inc i s) = con_x s"
  "saved_x (set_par i v s) = saved_x s" "saved_x (par_dec i s) = saved_x s" "saved_x (par_inc i s) = saved_x s"
  by (simp_all add: set_par_def par_dec_def par_inc_def)

definition inside :: "'z con_st_scheme \<Rightarrow> 'z con_st_scheme \<Rightarrow> bool" where
  "inside s t \<longleftrightarrow> con_x t = con_x s \<or> con_x t = saved_x s \<or> con_x t < COLUMNS"

lemma gotoxy_inside: "con_x u = con_x s \<Longrightarrow> inside s (gotoxy nx ny u)"
  by (auto simp: inside_def gotoxy_def)

lemma con_csi_inside: "inside s (con_csi c s)"
proof -
  have k: "inside s u" if "con_x u = con_x s" for u using that by (simp add: inside_def)
  have r: "inside s (restore_cur (s\<lparr>con_state := 0\<rparr>))" by (simp add: inside_def restore_cur_def)
  show ?thesis
    unfolding con_csi_def Let_def by (intro if_both [of "inside s"] gotoxy_inside k r) simp_all
qed

lemma con_par_inside: "inside s (con_par c s)"
  using con_csi_inside [of s c] by (simp add: con_par_def inside_def)

lemma con_esc_inside: "inside s (fst (con_esc c s))"
  using gotoxy_inside [of "s\<lparr>con_state := 0\<rparr>" s 0] by (simp add: con_esc_def Let_def) (simp add: inside_def restore_cur_def)

lemma con_plain_inside: "con_ok s \<Longrightarrow> \<not> (31 < sint c \<and> sint c < 127) \<Longrightarrow> c \<noteq> 9 \<Longrightarrow> inside s (con_plain e c s)"
proof -
  assume ok: "con_ok s" and c: "\<not> (31 < sint c \<and> sint c < 127)" "c \<noteq> 9"
  note d = con_okD [OF ok]
  have "con_x s \<noteq> 0 \<Longrightarrow> uw (con_x s - 1) < 80" using d uw_id [of "con_x s - 1"] by simp
  then show ?thesis using c
    by (auto simp: con_plain_def inside_def cr_def del_def poke_def COLUMNS_def)
qed

text \<open>A printable character: the cell before the cursor shows it.\<close>

lemma con_plain_glyph:
  assumes ok: "con_ok s" and c: "31 < sint c" "sint c < 127"
  shows "1 \<le> con_x (con_plain e c s) \<and> vmem (con_plain e c s) (pos (con_plain e c s) - 2) = push_bit 8 (ucast (attr s)) OR ucast c"
proof -
  note d = con_okD [OF ok]
  define s1 where "s1 = (if con_x s \<ge> COLUMNS then wrap_line s else s)"
  have w: "con_ok (s\<lparr>con_x := con_x s - 80, pos := pos s - 160\<rparr>)" if "con_x s \<ge> COLUMNS"
    using d that by (intro con_okI) (simp_all add: COLUMNS_def)
  have ok1: "con_ok s1" using ok wrap_line_ok(1) [OF w] by (simp add: s1_def COLUMNS_def)
  have at: "attr s1 = attr s" by (simp add: s1_def wrap_line_def lf_def scrup_def Let_def set_origin_def)
  note d1 = con_okD [OF ok1]
  have u: "uw (pos s1 + 2) = pos s1 + 2" "uw (con_x s1 + 1) = con_x s1 + 1" using d1 by (auto intro!: uw_id)
  have "con_plain e c s = (poke (pos s1) (push_bit 8 (ucast (attr s)) OR ucast c) s1)\<lparr>pos := pos s1 + 2, con_x := con_x s1 + 1\<rparr>"
    using c u at unfolding con_plain_def s1_def [symmetric] by (simp add: Let_def poke_def)
  then show ?thesis using d1(4) by (simp add: poke_def)
qed

text \<open>
  C9: whatever bytes are written to the console, including malformed escape sequences, the invariant \<open>con_ok\<close> holds: the cursor is in
  one of the 25 lines and in one of the 80 columns or, waiting to wrap, just behind the last one; the write position is the
  address that belongs to it, the scrolling screen stays inside the video memory 0xb8000-0xbffff, and no memory outside of it is
  written. The waiting position is entered only by a printed character, a tabulator or by restoring a cursor saved there. A
  printable character appears with the current attribute in the cell before the new cursor, which is a cell of the screen.
\<close>

theorem con_char_safe:
  assumes ok: "con_ok s" and t: "t = fst (con_char e c s)"
  shows "con_ok t \<and> video_only s t \<and>
    (con_x t = COLUMNS \<longrightarrow> con_x s = COLUMNS \<or> saved_x s = COLUMNS \<or> con_state s = 0 \<and> (31 < sint c \<and> sint c < 127 \<or> c = 9)) \<and>
    (con_state s = 0 \<and> 31 < sint c \<and> sint c < 127 \<longrightarrow>
      1 \<le> con_x t \<and> pos t - 2 = origin t + 2 * (con_y t * COLUMNS + (con_x t - 1)) \<and>
      vmem t (pos t - 2) = push_bit 8 (ucast (attr s)) OR ucast c)"
proof -
  have safe: "con_ok t \<and> video_only s t" using con_char_ok [OF ok] t by simp
  let ?t = "s\<lparr>par := (\<lambda>i. if i < NPAR then 0 else par s i), npar := 0, con_state := 3, ques := (c = ch CHR ''?'')\<rparr>"
  have "inside s (con_par c ?t)" using con_par_inside [of ?t c] by (simp add: inside_def)
  moreover have "inside s ?t" "inside s s" by (simp_all add: inside_def)
  ultimately have "inside s t" if "\<not> (con_state s = 0 \<and> (31 < sint c \<and> sint c < 127 \<or> c = 9))"
    using that con_plain_inside [OF ok, of c e] con_esc_inside [of s c] con_par_inside [of s c] con_csi_inside [of s c]
    unfolding t con_char_def Let_def by (auto simp del: con_st.update_convs)
  then have col: "con_x t = COLUMNS \<Longrightarrow> con_x s = COLUMNS \<or> saved_x s = COLUMNS \<or> con_state s = 0 \<and> (31 < sint c \<and> sint c < 127 \<or> c = 9)"
    unfolding inside_def by (metis order_less_irrefl)
  have "pos t - 2 = origin t + 2 * (con_y t * COLUMNS + (con_x t - 1))" using safe by (simp add: con_ok_def)
  moreover have "con_state s = 0 \<Longrightarrow> t = con_plain e c s" by (simp add: t con_char_def)
  ultimately show ?thesis using safe col con_plain_glyph [OF ok, of c e] by auto
qed

text \<open>After \<open>con_init\<close> the console is in order.\<close>

definition con_ready :: con_st where
  "con_ready = con_init 0 0 (con_boot um_empty)"

lemma con_ready_ok: "con_ok con_ready"
  by (simp add: con_ready_def con_init_def con_boot_def um_st.extend_def gotoxy_def printk_def con_ok_def
      con_consts uw_def NPAR_def)

theorem con_char_safe_witness:
  "con_ok con_ready \<and> con_ok (fst (con_char 127 (ch CHR ''A'') con_ready)) \<and>
   vmem (fst (con_char 127 (ch CHR ''A'') con_ready)) (pos (fst (con_char 127 (ch CHR ''A'') con_ready)) - 2) = 0x0741"
proof -
  have s: "con_state con_ready = 0" "attr con_ready = 7"
    by (simp_all add: con_ready_def con_init_def con_boot_def um_st.extend_def gotoxy_def printk_def con_consts uw_def)
  have c: "ch CHR ''A'' = 65" "31 < sint (65 :: u8)" "sint (65 :: u8) < 127" by (simp_all add: ch_def)
  have "vmem (fst (con_char 127 65 con_ready)) (pos (fst (con_char 127 65 con_ready)) - 2) = push_bit 8 (ucast (attr con_ready)) OR ucast (65 :: u8)"
    using con_char_safe [OF con_ready_ok refl, of 127 65] s c by blast
  then show ?thesis using con_ready_ok con_char_ok [OF con_ready_ok, of 127 65] unfolding c s by simp
qed

end
