(* ===== verification/Tty.thy ===== *)
theory Tty
  imports Console
begin

text \<open>
  Model of \<open>kernel/tty_io.c\<close>, \<open>kernel/serial.c\<close>, \<open>fs/tty_ioctl.c\<close> and the parts of \<open>kernel/console.c\<close>
  that call back into the terminal layer (\<open>con_write\<close>, \<open>respond\<close>).

  \<open>tty_table\<close> is the array of terminals; \<open>write\<close>, a function pointer in C, is a value of \<open>tty_writer\<close>
  and \<open>tty_run\<close> dispatches on it. \<open>con_write\<close> may call \<open>respond\<close>, which calls \<open>copy_to_cooked\<close>, which
  echoes through \<open>con_write\<close> again: the three are one recursive function \<open>tty_run\<close> over the pending
  call, whose value is \<open>None\<close> when the recursion does not end. \<open>ports\<close> holds the registers of the
  serial lines, \<open>below_ctype\<close> the memory in front of the character table (read for codes below -1).

  The lemmas describe the line discipline: what \<open>copy_to_cooked\<close> does to the queues, as a function on
  the lists of characters.
\<close>

section \<open>Terminals\<close>

record termios =
  c_iflag :: u32
  c_oflag :: u32
  c_cflag :: u32
  c_lflag :: u32
  c_line :: u8
  c_cc :: "nat \<Rightarrow> u8"

datatype tty_writer = Con_write | Rs_write

record tty_struct =
  tty_termios :: termios
  tty_pgrp :: int
  stopped :: int
  tty_write_fn :: tty_writer
  read_q :: tty_queue
  write_q :: tty_queue
  secondary :: tty_queue

record tty_st = con_st +
  tty_table :: "nat \<Rightarrow> tty_struct"
  cr_flag :: bool
  ports :: "u32 \<Rightarrow> u8"
  below_ctype :: "int \<Rightarrow> u8"

definition INLCR :: u32 where "INLCR = 0x40"
definition IGNCR :: u32 where "IGNCR = 0x80"
definition ICRNL :: u32 where "ICRNL = 0x100"
definition IUCLC :: u32 where "IUCLC = 0x200"
definition OPOST :: u32 where "OPOST = 1"
definition OLCUC :: u32 where "OLCUC = 2"
definition ONLCR :: u32 where "ONLCR = 4"
definition OCRNL :: u32 where "OCRNL = 8"
definition ONLRET :: u32 where "ONLRET = 0x20"
definition ISIG :: u32 where "ISIG = 1"
definition ICANON :: u32 where "ICANON = 2"
definition ECHO :: u32 where "ECHO = 8"
definition ECHOCTL :: u32 where "ECHOCTL = 0x200"
definition ECHOKE :: u32 where "ECHOKE = 0x800"

definition VINTR :: nat where "VINTR = 0"
definition VERASE :: nat where "VERASE = 2"
definition VEOF :: nat where "VEOF = 4"
definition VTIME :: nat where "VTIME = 5"
definition VMIN :: nat where "VMIN = 6"
definition VSTART :: nat where "VSTART = 8"
definition VSTOP :: nat where "VSTOP = 9"

definition L_FLAG :: "tty_struct \<Rightarrow> u32 \<Rightarrow> bool" where "L_FLAG y f \<longleftrightarrow> c_lflag (tty_termios y) AND f \<noteq> 0"
definition I_FLAG :: "tty_struct \<Rightarrow> u32 \<Rightarrow> bool" where "I_FLAG y f \<longleftrightarrow> c_iflag (tty_termios y) AND f \<noteq> 0"
definition O_FLAG :: "tty_struct \<Rightarrow> u32 \<Rightarrow> bool" where "O_FLAG y f \<longleftrightarrow> c_oflag (tty_termios y) AND f \<noteq> 0"

definition CC :: "tty_struct \<Rightarrow> nat \<Rightarrow> int" where
  "CC y i = uint (c_cc (tty_termios y) i)"

definition INIT_C_CC :: "nat \<Rightarrow> u8" where
  "INIT_C_CC i = (if i < 17
     then [3, 0x1c, 0x7f, 0x15, 4, 0, 1, 0, 0x11, 0x13, 0x19, 0, 0x12, 0x0f, 0x17, 0x16, 0] ! i else 0)"

definition empty_queue :: "u32 \<Rightarrow> tty_queue" where
  "empty_queue d = \<lparr>q_data = d, q_head = 0, q_tail = 0, proc_list = 0, q_buf = (\<lambda>_. 0)\<rparr>"

definition tty_table_init :: "nat \<Rightarrow> tty_struct" where
  "tty_table_init i =
     (if i = 0
      then \<lparr>tty_termios = \<lparr>c_iflag = 0, c_oflag = OPOST OR ONLCR, c_cflag = 0,
                         c_lflag = ICANON OR ECHO OR ECHOCTL OR ECHOKE, c_line = 0, c_cc = INIT_C_CC\<rparr>,
            tty_pgrp = 0, stopped = 0, tty_write_fn = Con_write,
            read_q = empty_queue 0, write_q = empty_queue 0, secondary = empty_queue 0\<rparr>
      else
        let port = (if i = 1 then 0x3f8 else 0x2f8)
        in \<lparr>tty_termios = \<lparr>c_iflag = 0, c_oflag = OPOST OR ONLRET, c_cflag = 0xb OR 0x30, c_lflag = 0,
                          c_line = 0, c_cc = INIT_C_CC\<rparr>,
            tty_pgrp = 0, stopped = 0, tty_write_fn = Rs_write,
            read_q = empty_queue port, write_q = empty_queue port, secondary = empty_queue 0\<rparr>)"

definition upd_tty :: "nat \<Rightarrow> (tty_struct \<Rightarrow> tty_struct) \<Rightarrow> 'z tty_st_scheme \<Rightarrow> 'z tty_st_scheme" where
  "upd_tty i f s = s\<lparr>tty_table := (tty_table s)(i := f (tty_table s i))\<rparr>"

section \<open>Character classes (ctype)\<close>

text \<open>The upper and lower case bits of the table \<open>_ctype\<close>, indexed from -1.\<close>

definition ctype_bits :: "int \<Rightarrow> u8" where
  "ctype_bits c =
     (if 65 \<le> c \<and> c \<le> 90 then (if c \<le> 70 then 0x41 else 1)
      else if 97 \<le> c \<and> c \<le> 122 then (if c \<le> 102 then 0x42 else 2)
      else if 48 \<le> c \<and> c \<le> 57 then 4
      else if c = 32 then 0xa0
      else if 9 \<le> c \<and> c \<le> 13 then 0x28
      else if 0 \<le> c \<and> c \<le> 31 \<or> c = 127 then 8
      else if 33 \<le> c \<and> c \<le> 126 then 0x10
      else 0)"

definition ctype_at :: "int \<Rightarrow> 'z tty_st_scheme \<Rightarrow> u8" where
  "ctype_at c s = (if c < -1 then below_ctype s c else ctype_bits c)"

definition isupper :: "int \<Rightarrow> 'z tty_st_scheme \<Rightarrow> bool" where "isupper c s \<longleftrightarrow> ctype_at c s AND 1 \<noteq> 0"
definition islower :: "int \<Rightarrow> 'z tty_st_scheme \<Rightarrow> bool" where "islower c s \<longleftrightarrow> ctype_at c s AND 2 \<noteq> 0"

definition tolower :: "u8 \<Rightarrow> 'z tty_st_scheme \<Rightarrow> u8" where
  "tolower c s = (if isupper (sint c) s then c + (97 + 65) else c)"

definition toupper :: "u8 \<Rightarrow> 'z tty_st_scheme \<Rightarrow> u8" where
  "toupper c s = (if islower (sint c) s then c + (65 - 97) else c)"

section \<open>Signals from a terminal and waiting\<close>

definition tty_intr :: "nat \<Rightarrow> nat \<Rightarrow> 'z tty_st_scheme \<Rightarrow> 'z tty_st_scheme" where
  "tty_intr t sig s =
     (if tty_pgrp (tty_table s t) \<le> 0 then s
      else fold (\<lambda>i s.
             if task s i \<noteq> 0 \<and> pgrp (ts s (task s i)) = tty_pgrp (tty_table s t)
             then upd_task (task s i) (\<lambda>p. p\<lparr>signal := signal p OR sigmask sig\<rparr>) s else s)
           [0..<NR_TASKS] s)"

definition sec_wait :: "nat \<Rightarrow> 'z tty_st_scheme wait_queue" where
  "sec_wait t = Some (\<lambda>s. proc_list (secondary (tty_table s t)),
     \<lambda>v s. upd_tty t (\<lambda>y. y\<lparr>secondary := (secondary y)\<lparr>proc_list := v\<rparr>\<rparr>) s)"

definition write_wait :: "nat \<Rightarrow> 'z tty_st_scheme wait_queue" where
  "write_wait t = Some (\<lambda>s. proc_list (write_q (tty_table s t)),
     \<lambda>v s. upd_tty t (\<lambda>y. y\<lparr>write_q := (write_q y)\<lparr>proc_list := v\<rparr>\<rparr>) s)"

text \<open>
  The waiting loops: the caller sleeps while its condition holds. A call of \<open>interruptible_sleep_on\<close>
  that returns at once means a pending signal, which ends the loop.
\<close>

definition sleep_if_empty :: "nat \<Rightarrow> 'z tty_st_scheme \<Rightarrow> ('z tty_st_scheme, unit) kres" where
  "sleep_if_empty t s =
     (if signal (cur s) = 0 \<and> EMPTY (secondary (tty_table s t)) then interruptible_sleep_on (sec_wait t) s else Ok () s)"

definition sleep_if_full :: "nat \<Rightarrow> 'z tty_st_scheme \<Rightarrow> ('z tty_st_scheme, unit) kres" where
  "sleep_if_full t s =
     (if \<not> FULL (write_q (tty_table s t)) then Ok () s
      else if signal (cur s) = 0 \<and> LEFT (write_q (tty_table s t)) < 128
      then interruptible_sleep_on (write_wait t) s else Ok () s)"

section \<open>Output drivers and the line discipline\<close>

definition rs_write :: "nat \<Rightarrow> 'z tty_st_scheme \<Rightarrow> 'z tty_st_scheme" where
  "rs_write t s =
     (let q = write_q (tty_table s t); port = q_data q + 1
      in if EMPTY q then s else s\<lparr>ports := (ports s)(port := ports s port OR 2)\<rparr>)"

definition RESPONSE :: "u8 list" where
  "RESPONSE = [0x1b, ch CHR ''['', ch CHR ''?'', ch CHR ''1'', ch CHR '';'', ch CHR ''2'', ch CHR ''c'']"

definition put_read :: "nat \<Rightarrow> u8 \<Rightarrow> 'z tty_st_scheme \<Rightarrow> 'z tty_st_scheme" where
  "put_read t c s = upd_tty t (\<lambda>y. y\<lparr>read_q := PUTCH c (read_q y)\<rparr>) s"
definition put_write :: "nat \<Rightarrow> u8 \<Rightarrow> 'z tty_st_scheme \<Rightarrow> 'z tty_st_scheme" where
  "put_write t c s = upd_tty t (\<lambda>y. y\<lparr>write_q := PUTCH c (write_q y)\<rparr>) s"
definition put_sec :: "nat \<Rightarrow> u8 \<Rightarrow> 'z tty_st_scheme \<Rightarrow> 'z tty_st_scheme" where
  "put_sec t c s = upd_tty t (\<lambda>y. y\<lparr>secondary := PUTCH c (secondary y)\<rparr>) s"

text \<open>
  One round of the loop of \<open>copy_to_cooked\<close> up to the call of \<open>tty->write\<close>, if there is one: \<open>None\<close>
  when the round is complete, otherwise what is left to do after the call.
\<close>

datatype cook_post = Post_put u8 | Post_erase

definition cook_input :: "tty_struct \<Rightarrow> u8 \<Rightarrow> u8 option" where
  "cook_input y c =
     (if c = 13
      then if I_FLAG y ICRNL then Some 10 else if I_FLAG y IGNCR then None else Some c
      else if c = 10 \<and> I_FLAG y INLCR then Some 13 else Some c)"

definition cook_echo :: "nat \<Rightarrow> u8 \<Rightarrow> 'z tty_st_scheme \<Rightarrow> 'z tty_st_scheme" where
  "cook_echo t c s =
     (if c = 10 then put_write t 13 (put_write t 10 s)
      else if sint c < 32
      then if L_FLAG (tty_table s t) ECHOCTL then put_write t (c + 64) (put_write t (ch CHR ''^'') s) else s
      else put_write t c s)"

definition cook_char :: "nat \<Rightarrow> u8 \<Rightarrow> 'z tty_st_scheme \<Rightarrow> 'z tty_st_scheme \<times> cook_post option" where
  "cook_char t c s =
     (let y = tty_table s t
      in if L_FLAG y ICANON \<and> sint c = CC y VERASE
         then
           let l = LAST (secondary y)
           in if EMPTY (secondary y) \<or> l = 10 \<or> sint l = CC y VEOF then (s, None)
              else if L_FLAG y ECHO
              then (put_write t 127 (if sint l < 32 then put_write t 127 s else s), Some Post_erase)
              else (upd_tty t (\<lambda>y. y\<lparr>secondary := UNPUT (secondary y)\<rparr>) s, None)
         else if L_FLAG y ICANON \<and> sint c = CC y VSTOP then (upd_tty t (\<lambda>y. y\<lparr>stopped := 1\<rparr>) s, None)
         else if L_FLAG y ICANON \<and> sint c = CC y VSTART then (upd_tty t (\<lambda>y. y\<lparr>stopped := 0\<rparr>) s, None)
         else if \<not> L_FLAG y ISIG \<and> sint c = CC y VINTR then (tty_intr t SIGINT s, None)
         else
           let s1 = (if c = 10 \<or> sint c = CC y VEOF
                     then upd_tty t (\<lambda>y. y\<lparr>secondary := (secondary y)\<lparr>q_data := q_data (secondary y) + 1\<rparr>\<rparr>) s
                     else s)
           in if L_FLAG y ECHO then (cook_echo t c s1, Some (Post_put c)) else (put_sec t c s1, None))"

definition cook_step :: "nat \<Rightarrow> 'z tty_st_scheme \<Rightarrow> 'z tty_st_scheme \<times> cook_post option" where
  "cook_step t s =
     (let (c, q) = GETCH (read_q (tty_table s t));
          s1 = upd_tty t (\<lambda>y. y\<lparr>read_q := q\<rparr>) s
      in case cook_input (tty_table s1 t) c of
           None \<Rightarrow> (s1, None)
         | Some c \<Rightarrow> cook_char t (if I_FLAG (tty_table s1 t) IUCLC then tolower c s1 else c) s1)"

fun cook_finish :: "nat \<Rightarrow> cook_post \<Rightarrow> 'z tty_st_scheme \<Rightarrow> 'z tty_st_scheme" where
  "cook_finish t (Post_put c) s = put_sec t c s"
| "cook_finish t Post_erase s = upd_tty t (\<lambda>y. y\<lparr>secondary := UNPUT (secondary y)\<rparr>) s"

text \<open>The pending call: the loop of \<open>con_write\<close> with \<open>nr\<close> characters to go, or that of \<open>copy_to_cooked\<close>.\<close>

datatype tty_call = Con_loop nat | Cook

partial_function (option) tty_run :: "nat \<Rightarrow> tty_call \<Rightarrow> 'z tty_st_scheme \<Rightarrow> 'z tty_st_scheme option" where
  "tty_run t call s =
     (case call of
        Con_loop nr \<Rightarrow>
          (if nr = 0 then Some (set_cursor s)
           else
             let (c, q) = GETCH (write_q (tty_table s t));
                 s1 = upd_tty t (\<lambda>y. y\<lparr>write_q := q\<rparr>) s;
                 (s2, resp) = con_char (c_cc (tty_termios (tty_table s1 t)) VERASE) c s1
             in if resp
                then Option.bind (tty_run t Cook (fold (put_read t) RESPONSE s2)) (tty_run t (Con_loop (nr - 1)))
                else tty_run t (Con_loop (nr - 1)) s2)
      | Cook \<Rightarrow>
          (if EMPTY (read_q (tty_table s t)) \<or> FULL (secondary (tty_table s t)) then Some (wake_up (sec_wait t) s)
           else
             case cook_step t s of
               (s1, None) \<Rightarrow> tty_run t Cook s1
             | (s1, Some post) \<Rightarrow>
                 Option.bind
                   (case tty_write_fn (tty_table s1 t) of
                      Rs_write \<Rightarrow> Some (rs_write t s1)
                    | Con_write \<Rightarrow> tty_run t (Con_loop (unat (CHARS (write_q (tty_table s1 t))))) s1)
                   (\<lambda>s2. tty_run t Cook (cook_finish t post s2))))"

definition con_write :: "nat \<Rightarrow> 'z tty_st_scheme \<Rightarrow> 'z tty_st_scheme option" where
  "con_write t s = tty_run t (Con_loop (unat (CHARS (write_q (tty_table s t))))) s"

definition respond :: "nat \<Rightarrow> 'z tty_st_scheme \<Rightarrow> 'z tty_st_scheme option" where
  "respond t s = tty_run t Cook (fold (put_read t) RESPONSE s)"

definition copy_to_cooked :: "nat \<Rightarrow> 'z tty_st_scheme \<Rightarrow> 'z tty_st_scheme option" where
  "copy_to_cooked t s = tty_run t Cook s"

definition do_tty_interrupt :: "nat \<Rightarrow> 'z tty_st_scheme \<Rightarrow> 'z tty_st_scheme option" where
  "do_tty_interrupt t s = copy_to_cooked t s"

definition tty_do_write :: "nat \<Rightarrow> 'z tty_st_scheme \<Rightarrow> ('z tty_st_scheme, unit) kres" where
  "tty_do_write t s =
     (case (case tty_write_fn (tty_table s t) of Con_write \<Rightarrow> con_write t s | Rs_write \<Rightarrow> Some (rs_write t s)) of
        None \<Rightarrow> Hang | Some s' \<Rightarrow> Ok () s')"

section \<open>Reading a terminal\<close>

definition ALRMMASK :: u32 where "ALRMMASK = sigmask SIGALRM"

text \<open>
  The inner loop of \<open>tty_read\<close>: \<open>n\<close> characters are still wanted and \<open>b\<close> have been stored; the first
  result says that an end-of-file character made the whole call return.
\<close>

fun tty_take :: "nat \<Rightarrow> u32 \<Rightarrow> nat \<Rightarrow> nat \<Rightarrow> 'z tty_st_scheme \<Rightarrow> bool \<times> nat \<times> nat \<times> 'z tty_st_scheme" where
  "tty_take t buf 0 b s = (False, 0, b, s)"
| "tty_take t buf (Suc n) b s =
     (let y = tty_table s t; (c, q) = GETCH (secondary y);
          q = (if sint c = CC y VEOF \<or> c = 10 then q\<lparr>q_data := q_data q - 1\<rparr> else q);
          s1 = upd_tty t (\<lambda>y. y\<lparr>secondary := q\<rparr>) s
      in if sint c = CC y VEOF \<and> L_FLAG y ICANON then (True, Suc n, b, s1)
         else
           let s2 = put_fs_byte c (buf + of_nat b) s1
           in if n > 0 \<and> \<not> EMPTY (secondary (tty_table s2 t)) then tty_take t buf n (b + 1) s2
              else (False, n, b + 1, s2))"

definition set_alarm :: "int \<Rightarrow> 'z tty_st_scheme \<Rightarrow> 'z tty_st_scheme" where
  "set_alarm a s = upd_cur (\<lambda>p. p\<lparr>alarm := a\<rparr>) s"

definition tty_read_done :: "int \<Rightarrow> nat \<Rightarrow> 'z tty_st_scheme \<Rightarrow> ('z tty_st_scheme, int) kres" where
  "tty_read_done oldalarm b s =
     (let s = set_alarm oldalarm s in if signal (cur s) \<noteq> 0 \<and> b = 0 then Ok (- EINTR) s else Ok (int b) s)"

text \<open>
  The outer loop, with the number of rounds left. A round without a complete line in canonical mode
  while the queue is not empty waits for the next interrupt, which is the outcome \<open>Sleep\<close>.
\<close>

fun tty_read_loop :: "nat \<Rightarrow> nat \<Rightarrow> u32 \<Rightarrow> nat \<Rightarrow> int \<Rightarrow> int \<Rightarrow> int \<Rightarrow> bool \<Rightarrow> nat \<Rightarrow> 'z tty_st_scheme \<Rightarrow>
    ('z tty_st_scheme, int) kres" where
  "tty_read_loop 0 t buf nr oldalarm time minimum flag b s = Hang"
| "tty_read_loop (Suc rounds) t buf nr oldalarm time minimum flag b s =
     (if nr = 0 then tty_read_done oldalarm b s
      else if flag \<and> signal (cur s) AND ALRMMASK \<noteq> 0
      then tty_read_done oldalarm b (upd_cur (\<lambda>p. p\<lparr>signal := signal p AND NOT ALRMMASK\<rparr>) s)
      else if signal (cur s) \<noteq> 0 then tty_read_done oldalarm b s
      else
        let y = tty_table s t; canon = L_FLAG y ICANON
        in if EMPTY (secondary y) \<or> canon \<and> q_data (secondary y) = 0 \<and> LEFT (secondary y) > 20
           then if EMPTY (secondary y)
                then bnd (sleep_if_empty t s) (\<lambda>_. tty_read_loop rounds t buf nr oldalarm time minimum flag b)
                else Sleep s
           else
             case tty_take t buf nr b s of
               (True, _, b, s) \<Rightarrow> Ok (int b) s
             | (False, nr, b, s) \<Rightarrow>
                 let due = s32 (time + jiffies s);
                     early = (oldalarm = 0 \<or> due < oldalarm);
                     (flag, s) = (if time \<noteq> 0 \<and> \<not> canon then (early, set_alarm (if early then due else oldalarm) s)
                                  else (flag, s))
                 in if (if canon then b > 0 else int b \<ge> minimum) then tty_read_done oldalarm b s
                    else tty_read_loop rounds t buf nr oldalarm time minimum flag b s)"

definition tty_read :: "u32 \<Rightarrow> u32 \<Rightarrow> int \<Rightarrow> 'z tty_st_scheme \<Rightarrow> ('z tty_st_scheme, int) kres" where
  "tty_read channel buf nr s =
     (if channel > 2 \<or> nr < 0 then Ok (-1) s
      else
        let t = unat channel; y = tty_table s t; oldalarm = alarm (cur s);
            time = 10 * CC y VTIME; minimum = CC y VMIN;
            due = s32 (time + jiffies s);
            early = (oldalarm = 0 \<or> due < oldalarm);
            (minimum, flag, s) =
              (if time \<noteq> 0 \<and> minimum = 0 then (1, early, if early then set_alarm due s else s) else (minimum, False, s));
            minimum = (if minimum > nr then nr else minimum)
        in tty_read_loop (2 * nat nr + 2) t buf (nat nr) oldalarm time minimum flag 0 s)"

section \<open>Writing a terminal\<close>

text \<open>The inner loop of \<open>tty_write\<close>: \<open>n\<close> characters to go, \<open>b\<close> written.\<close>

definition out_char :: "tty_struct \<Rightarrow> u8 \<Rightarrow> u8" where
  "out_char y c =
     (if c = 13 \<and> O_FLAG y OCRNL then 10 else if c = 10 \<and> O_FLAG y ONLRET then 13 else c)"

function tty_fill :: "nat \<Rightarrow> u32 \<Rightarrow> nat \<Rightarrow> nat \<Rightarrow> 'z tty_st_scheme \<Rightarrow> nat \<times> nat \<times> 'z tty_st_scheme" where
  "tty_fill t buf n b s =
     (if n = 0 \<or> FULL (write_q (tty_table s t)) then (n, b, s)
      else
        let y = tty_table s t; c = get_fs_byte (buf + of_nat b) s;
            c1 = (if O_FLAG y OPOST then out_char y c else c)
        in if O_FLAG y OPOST \<and> c1 = 10 \<and> \<not> cr_flag s \<and> O_FLAG y ONLCR
           then tty_fill t buf n b (put_write t 13 (s\<lparr>cr_flag := True\<rparr>))
           else
             let c2 = (if O_FLAG y OPOST \<and> O_FLAG y OLCUC then toupper c1 s else c1)
             in tty_fill t buf (n - 1) (b + 1) (put_write t c2 (s\<lparr>cr_flag := False\<rparr>)))"
  by pat_completeness auto

lemma put_write_cr_flag [simp]: "cr_flag (put_write t c s) = cr_flag s"
  by (simp add: put_write_def upd_tty_def)

termination tty_fill
  by (relation "measures [\<lambda>(t, buf, n, b, s). n, \<lambda>(t, buf, n, b, s). if cr_flag s then 0 else 1]") auto

declare tty_fill.simps [simp del]

fun tty_write_loop :: "nat \<Rightarrow> nat \<Rightarrow> u32 \<Rightarrow> nat \<Rightarrow> nat \<Rightarrow> 'z tty_st_scheme \<Rightarrow> ('z tty_st_scheme, int) kres" where
  "tty_write_loop 0 t buf nr b s = Hang"
| "tty_write_loop (Suc rounds) t buf nr b s =
     (if nr = 0 then Ok (int b) s
      else bnd (sleep_if_full t s) (\<lambda>_ s.
        if signal (cur s) \<noteq> 0 then Ok (int b) s
        else
          case tty_fill t buf nr b s of (nr, b, s) \<Rightarrow>
            bnd (tty_do_write t s) (\<lambda>_ s.
              if nr > 0 then bnd (call_schedule s) (\<lambda>_ s. tty_write_loop rounds t buf nr b s)
              else tty_write_loop rounds t buf nr b s)))"

definition tty_write :: "u32 \<Rightarrow> u32 \<Rightarrow> int \<Rightarrow> 'z tty_st_scheme \<Rightarrow> ('z tty_st_scheme, int) kres" where
  "tty_write channel buf nr s =
     (if channel > 2 \<or> nr < 0 then Ok (-1) s
      else tty_write_loop (2 * nat nr + 2) (unat channel) buf (nat nr) 0 s)"

section \<open>Control operations\<close>

definition flush :: "tty_queue \<Rightarrow> tty_queue" where
  "flush q = q\<lparr>q_head := q_tail q\<rparr>"

text \<open>The byte images of \<open>struct termios\<close> (36 bytes) and \<open>struct termio\<close> (18 bytes).\<close>

definition long_bytes :: "u32 \<Rightarrow> u8 list" where
  "long_bytes w = [ucast w, ucast (drop_bit 8 w), ucast (drop_bit 16 w), ucast (drop_bit 24 w)]"

definition bytes_long :: "u8 \<Rightarrow> u8 \<Rightarrow> u8 \<Rightarrow> u8 \<Rightarrow> u32" where
  "bytes_long a b c d = ucast a OR push_bit 8 (ucast b) OR push_bit 16 (ucast c) OR push_bit 24 (ucast d)"

text \<open>Padding: 2 bytes behind \<open>c_cc[17]\<close> in \<open>termios\<close> (\<open>pad\<close>), 1 byte behind \<open>c_cc[8]\<close> in \<open>termio\<close>.\<close>

definition termios_bytes :: "u8 \<times> u8 \<Rightarrow> termios \<Rightarrow> u8 list" where
  "termios_bytes pad m = long_bytes (c_iflag m) @ long_bytes (c_oflag m) @ long_bytes (c_cflag m) @ long_bytes (c_lflag m) @
     [c_line m] @ map (c_cc m) [0..<17] @ [fst pad, snd pad]"

definition bytes_termios :: "(nat \<Rightarrow> u8) \<Rightarrow> termios" where
  "bytes_termios f =
     \<lparr>c_iflag = bytes_long (f 0) (f 1) (f 2) (f 3), c_oflag = bytes_long (f 4) (f 5) (f 6) (f 7),
      c_cflag = bytes_long (f 8) (f 9) (f 10) (f 11), c_lflag = bytes_long (f 12) (f 13) (f 14) (f 15),
      c_line = f 16, c_cc = (\<lambda>i. if i < 17 then f (17 + i) else 0)\<rparr>"

definition put_fs_bytes :: "u8 list \<Rightarrow> u32 \<Rightarrow> 'z um_st_scheme \<Rightarrow> 'z um_st_scheme" where
  "put_fs_bytes bs a s = fold (\<lambda>(i, v) s. put_fs_byte v (a + of_nat i) s) (enumerate 0 bs) s"

definition get_termios :: "u8 \<times> u8 \<Rightarrow> nat \<Rightarrow> u32 \<Rightarrow> 'z tty_st_scheme \<Rightarrow> ('z tty_st_scheme, int) kres" where
  "get_termios pad t p s =
     bnd (verify_area p 36 s) (\<lambda>_ s. Ok 0 (put_fs_bytes (termios_bytes pad (tty_termios (tty_table s t))) p s))"

definition set_termios :: "nat \<Rightarrow> u32 \<Rightarrow> 'z tty_st_scheme \<Rightarrow> ('z tty_st_scheme, int) kres" where
  "set_termios t p s =
     Ok 0 (upd_tty t (\<lambda>y. y\<lparr>tty_termios := bytes_termios (\<lambda>i. get_fs_byte (p + of_nat i) s)\<rparr>) s)"

definition word_bytes :: "u32 \<Rightarrow> u8 list" where
  "word_bytes w = [ucast w, ucast (drop_bit 8 w)]"

definition termio_bytes :: "u8 \<Rightarrow> termios \<Rightarrow> u8 list" where
  "termio_bytes pad m = word_bytes (c_iflag m) @ word_bytes (c_oflag m) @ word_bytes (c_cflag m) @ word_bytes (c_lflag m) @
     [c_line m] @ map (c_cc m) [0..<8] @ [pad]"

definition get_termio :: "u8 \<Rightarrow> nat \<Rightarrow> u32 \<Rightarrow> 'z tty_st_scheme \<Rightarrow> ('z tty_st_scheme, int) kres" where
  "get_termio pad t p s =
     bnd (verify_area p 18 s) (\<lambda>_ s. Ok 0 (put_fs_bytes (termio_bytes pad (tty_termios (tty_table s t))) p s))"

text \<open>\<open>set_termio\<close> replaces the low 16 bits of each flag word.\<close>

definition low_half :: "u32 \<Rightarrow> u8 \<Rightarrow> u8 \<Rightarrow> u32" where
  "low_half w a b = (w AND 0xffff0000) OR ucast a OR push_bit 8 (ucast b)"

definition set_termio :: "nat \<Rightarrow> u32 \<Rightarrow> 'z tty_st_scheme \<Rightarrow> ('z tty_st_scheme, int) kres" where
  "set_termio t p s =
     (let f = (\<lambda>i. get_fs_byte (p + i) s)
      in Ok 0 (upd_tty t (\<lambda>y. y\<lparr>tty_termios :=
           (tty_termios y)\<lparr>c_iflag := low_half (c_iflag (tty_termios y)) (f 0) (f 1),
                           c_oflag := low_half (c_oflag (tty_termios y)) (f 2) (f 3),
                           c_cflag := low_half (c_cflag (tty_termios y)) (f 4) (f 5),
                           c_lflag := low_half (c_lflag (tty_termios y)) (f 6) (f 7),
                           c_line := f 8,
                           c_cc := (\<lambda>i. if i < 8 then f (9 + of_nat i) else c_cc (tty_termios y) i)\<rparr>\<rparr>) s))"

definition flush_read :: "nat \<Rightarrow> 'z tty_st_scheme \<Rightarrow> 'z tty_st_scheme" where
  "flush_read t s = upd_tty t (\<lambda>y. y\<lparr>read_q := flush (read_q y)\<rparr>) s"

definition flush_write :: "nat \<Rightarrow> 'z tty_st_scheme \<Rightarrow> 'z tty_st_scheme" where
  "flush_write t s = upd_tty t (\<lambda>y. y\<lparr>write_q := flush (write_q y)\<rparr>) s"

definition tty_ioctl :: "u8 \<times> u8 \<Rightarrow> int \<Rightarrow> int \<Rightarrow> u32 \<Rightarrow> 'z tty_st_scheme \<Rightarrow> ('z tty_st_scheme, int) kres" where
  "tty_ioctl pad dev cmd arg s =
     (if uw dev div 256 = 5 \<and> tty (cur s) < 0 then Panic ''tty_ioctl: dev<0''
      else
        let t = nat (if uw dev div 256 = 5 then tty (cur s) else dev mod 256)
        in if cmd = 0x5401 then get_termios pad t arg s
           else if cmd = 0x5404 then set_termios t arg (flush_read t s)
           else if cmd = 0x5403 \<or> cmd = 0x5402 then set_termios t arg s
           else if cmd = 0x5405 then get_termio (fst pad) t arg s
           else if cmd = 0x5408 then set_termio t arg (flush_read t s)
           else if cmd = 0x5407 \<or> cmd = 0x5406 then set_termio t arg s
           else if cmd = 0x5409 then Ok 0 s
           else if cmd = 0x540B
           then if arg = 0 then Ok 0 (flush_read t s)
                else if arg = 1 then Ok 0 (flush_write t s)
                else if arg = 2 then Ok 0 (flush_write t (flush_read t s))
                else Ok (- EINVAL) s
           else if cmd = 0x540F
           then bnd (verify_area arg 4 s) (\<lambda>_ s. Ok 0 (put_fs_long (word_of_int (tty_pgrp (tty_table s t))) arg s))
           else if cmd = 0x5410 then Ok 0 (upd_tty t (\<lambda>y. y\<lparr>tty_pgrp := sint (get_fs_long arg s)\<rparr>) s)
           else if cmd = 0x5411
           then bnd (verify_area arg 4 s) (\<lambda>_ s. Ok 0 (put_fs_long (CHARS (write_q (tty_table s t))) arg s))
           else Ok (- EINVAL) s)"

section \<open>The line discipline as a function on lists\<close>

text \<open>
  The specification is written on the mode of the terminal, with the flags by their bit numbers and the control characters by their
  indices. Input: bit 8 (ICRNL) turns CR into NL, bit 7 (IGNCR) drops it, bit 6 (INLCR) turns NL into CR, and bit 9 (IUCLC) moves
  capital letters by 162, the sum of the codes of a and A. For a code from 128 to 254 the table of character classes is read in front of its
  beginning; \<open>high\<close> is what is found there.
\<close>

definition typed :: "termios \<Rightarrow> (u8 \<Rightarrow> bool) \<Rightarrow> u8 \<Rightarrow> u8 option" where
  "typed m high c =
     map_option (\<lambda>d. if bit (c_iflag m) 9 \<and> (65 \<le> d \<and> d \<le> 90 \<or> 128 \<le> d \<and> d < 255 \<and> high d) then d + 162 else d)
       (if c = 13 \<and> bit (c_iflag m) 8 then Some 10
        else if c = 13 \<and> bit (c_iflag m) 7 then None
        else if c = 10 \<and> bit (c_iflag m) 6 then Some 13
        else Some c)"

definition is_cc :: "termios \<Rightarrow> nat \<Rightarrow> u8 \<Rightarrow> bool" where
  "is_cc m i c \<longleftrightarrow> c < 128 \<and> c = c_cc m i"

text \<open>
  Local modes: under bit 1 (ICANON) the erase character (2) takes back the last character of the line, which begins behind a NL or an
  end-of-file character (4), and the stop and start characters (9, 8) are consumed. The interrupt character (0) is consumed when
  bit 0 (ISIG) is off. Characters that are not consumed become ready for reading, until 1023 are; the rest stays in the queue.
\<close>

definition accept :: "termios \<Rightarrow> u8 \<Rightarrow> u8 list \<Rightarrow> u8 list" where
  "accept m c acc =
     (if bit (c_lflag m) 1 \<and> is_cc m 2 c
      then if acc = [] \<or> last acc = 10 \<or> is_cc m 4 (last acc) then acc else butlast acc
      else if bit (c_lflag m) 1 \<and> (is_cc m 9 c \<or> is_cc m 8 c) then acc
      else if \<not> bit (c_lflag m) 0 \<and> is_cc m 0 c then acc
      else acc @ [c])"

fun discipline :: "termios \<Rightarrow> (u8 \<Rightarrow> bool) \<Rightarrow> u8 list \<Rightarrow> u8 list \<Rightarrow> u8 list \<times> u8 list" where
  "discipline m high [] acc = ([], acc)"
| "discipline m high (c # cs) acc =
     (if 1023 \<le> length acc then (c # cs, acc)
      else discipline m high cs (case typed m high c of None \<Rightarrow> acc | Some d \<Rightarrow> accept m d acc))"

section \<open>Rounds of the loop\<close>

text \<open>
  What one typed character does to the characters that are ready for reading: translation of CR, NL
  and case, erasing, and the characters that are consumed (stop, start, interrupt).
\<close>

definition cook_last :: "tty_struct \<Rightarrow> u8 \<Rightarrow> u8 list \<Rightarrow> u8 list" where
  "cook_last y c acc =
     (if L_FLAG y ICANON \<and> sint c = CC y VERASE
      then if acc = [] \<or> last acc = 10 \<or> sint (last acc) = CC y VEOF then acc else butlast acc
      else if L_FLAG y ICANON \<and> (sint c = CC y VSTOP \<or> sint c = CC y VSTART) then acc
      else if \<not> L_FLAG y ISIG \<and> sint c = CC y VINTR then acc
      else acc @ [c])"

definition cook_spec :: "tty_struct \<Rightarrow> (u8 \<Rightarrow> u8) \<Rightarrow> u8 \<Rightarrow> u8 list \<Rightarrow> u8 list" where
  "cook_spec y low c acc =
     (case cook_input y c of None \<Rightarrow> acc
      | Some c \<Rightarrow> cook_last y (if I_FLAG y IUCLC then low c else c) acc)"

lemma q_irrelevant [simp]:
  "q_list (q\<lparr>q_data := d\<rparr>) = q_list q" "q_ok (q\<lparr>q_data := d\<rparr>) = q_ok q"
  "q_list (q\<lparr>proc_list := p\<rparr>) = q_list q" "q_ok (q\<lparr>proc_list := p\<rparr>) = q_ok q"
  "EMPTY (q\<lparr>q_data := d\<rparr>) = EMPTY q" "FULL (q\<lparr>q_data := d\<rparr>) = FULL q"
  by (simp_all add: q_list_def q_ok_def EMPTY_def FULL_def LEFT_def)

lemma q_list_PUTCH_data:
  "q_list (PUTCH c (q\<lparr>q_data := d\<rparr>)) = q_list (PUTCH c q)" "q_ok (PUTCH c (q\<lparr>q_data := d\<rparr>)) = q_ok (PUTCH c q)"
  by (simp_all add: PUTCH_def q_list_def q_ok_def)

lemma upd_tty_fields [simp]:
  "tty_table (upd_tty t f s) = (tty_table s)(t := f (tty_table s t))"
  "below_ctype (upd_tty t f s) = below_ctype s" "cr_flag (upd_tty t f s) = cr_flag s" "umem (upd_tty t f s) = umem s"
  "current (upd_tty t f s) = current s" "ts (upd_tty t f s) = ts s"
  by (simp_all add: upd_tty_def)

lemma tty_intr_fields [simp]: "tty_table (tty_intr t sig s) = tty_table s" "below_ctype (tty_intr t sig s) = below_ctype s"
proof -
  have "tty_table (fold (\<lambda>i s. if task s i \<noteq> 0 \<and> pgrp (ts s (task s i)) = tty_pgrp (tty_table s t)
      then upd_task (task s i) (\<lambda>p. p\<lparr>signal := signal p OR sigmask sig\<rparr>) s else s) is s) = tty_table s \<and>
    below_ctype (fold (\<lambda>i s. if task s i \<noteq> 0 \<and> pgrp (ts s (task s i)) = tty_pgrp (tty_table s t)
      then upd_task (task s i) (\<lambda>p. p\<lparr>signal := signal p OR sigmask sig\<rparr>) s else s) is s) = below_ctype s" for "is"
  proof (induction "is" arbitrary: s)
    case (Cons i "is")
    then show ?case by (simp add: upd_task_def)
  qed simp
  note gen = this
  show "tty_table (tty_intr t sig s) = tty_table s" "below_ctype (tty_intr t sig s) = below_ctype s"
    unfolding tty_intr_def using gen [of "[0..<NR_TASKS]"] by (simp_all only: if_cancel split: if_split) blast+
qed

text \<open>The part of a terminal that the line discipline reads and does not change.\<close>

definition same_mode :: "nat \<Rightarrow> 'z tty_st_scheme \<Rightarrow> 'z tty_st_scheme \<Rightarrow> bool" where
  "same_mode t s s' \<longleftrightarrow> tty_termios (tty_table s' t) = tty_termios (tty_table s t) \<and>
     tty_write_fn (tty_table s' t) = tty_write_fn (tty_table s t) \<and> below_ctype s' = below_ctype s"

definition queues :: "nat \<Rightarrow> 'z tty_st_scheme \<Rightarrow> u8 list \<Rightarrow> u8 list \<Rightarrow> bool" where
  "queues t s rd sec \<longleftrightarrow> q_ok (read_q (tty_table s t)) \<and> q_ok (secondary (tty_table s t)) \<and>
     q_list (read_q (tty_table s t)) = rd \<and> q_list (secondary (tty_table s t)) = sec"

lemma same_mode_trans: "same_mode t s u \<Longrightarrow> same_mode t u v \<Longrightarrow> same_mode t s v"
  by (simp add: same_mode_def)

lemma put_write_mode [simp]:
  "same_mode t s (put_write t c s')= same_mode t s s'" "queues t (put_write t c s) rd sec = queues t s rd sec"
  by (simp_all add: same_mode_def queues_def put_write_def)

lemma cook_echo_mode [simp]:
  "same_mode t s (cook_echo t c s') = same_mode t s s'" "queues t (cook_echo t c s) rd sec = queues t s rd sec"
  by (simp_all add: cook_echo_def)

lemma rs_write_mode [simp]:
  "same_mode t s (rs_write t s') = same_mode t s s'" "queues t (rs_write t s) rd sec = queues t s rd sec"
  by (simp_all add: rs_write_def Let_def same_mode_def queues_def)

lemma put_sec_queues:
  "queues t s rd sec \<Longrightarrow> length sec < 1023 \<Longrightarrow> queues t (put_sec t c s) rd (sec @ [c])"
  "same_mode t s (put_sec t c s') = same_mode t s s'"
  using tq.put_contents [of "secondary (tty_table s t)" c] tq.full_iff [of "secondary (tty_table s t)"]
    tq.put_inv [of "secondary (tty_table s t)" c]
  by (auto simp: put_sec_def queues_def same_mode_def)

lemma unput_queues:
  assumes "queues t s rd sec" and "sec \<noteq> []"
  shows "queues t (upd_tty t (\<lambda>y. y\<lparr>secondary := UNPUT (secondary y)\<rparr>) s) rd (butlast sec)"
    and "LAST (secondary (tty_table s t)) = last sec"
proof -
  let ?q = "secondary (tty_table s t)"
  have "q_ok ?q" "\<not> EMPTY ?q" using assms tq.empty_iff [of ?q] by (auto simp: queues_def)
  note u = unput_ok [OF this]
  have "sec = q_list (UNPUT ?q) @ [LAST ?q]" using u(2) assms(1) by (simp add: queues_def)
  then have "butlast sec = q_list (UNPUT ?q)" "last sec = LAST ?q" by simp_all
  with u(1) assms(1) show "queues t (upd_tty t (\<lambda>y. y\<lparr>secondary := UNPUT (secondary y)\<rparr>) s) rd (butlast sec)"
    and "LAST ?q = last sec" by (simp_all add: queues_def)
qed

definition out_queue :: "nat \<Rightarrow> 'z tty_st_scheme \<Rightarrow> u8 list \<Rightarrow> bool" where
  "out_queue t s xs \<longleftrightarrow> q_ok (write_q (tty_table s t)) \<and> q_list (write_q (tty_table s t)) = xs"

lemma put_write_queue:
  assumes "out_queue t s xs" and "length xs < 1023"
  shows "out_queue t (put_write t c s) (xs @ [c])" "\<not> FULL (write_q (tty_table s t))"
  using assms tq.put_contents [of "write_q (tty_table s t)" c] tq.full_iff [of "write_q (tty_table s t)"]
    tq.put_inv [of "write_q (tty_table s t)" c]
  by (auto simp: out_queue_def put_write_def)

text \<open>
  One round of \<open>copy_to_cooked\<close> on a character \<open>c\<close> that is already translated; \<open>w\<close> is the state that the driver leaves, which may
  have changed the output queue only.
\<close>

lemma cook_char_ok:
  assumes q: "queues t s rd sec" and room: "length sec < 1023"
    and r: "cook_char t c s = (s1, post)"
    and w: "same_mode t s1 w" "\<And>rd sec. queues t s1 rd sec \<Longrightarrow> queues t w rd sec"
    and s2: "s2 = (case post of None \<Rightarrow> s1 | Some p \<Rightarrow> cook_finish t p w)"
  shows "queues t s2 rd (cook_last (tty_table s t) c sec) \<and> same_mode t s s2 \<and>
    (post \<noteq> None \<longrightarrow> L_FLAG (tty_table s t) ECHO)"
proof -
  let ?y = "tty_table s t"
  have e: "EMPTY (secondary ?y) \<longleftrightarrow> sec = []" using q tq.empty_iff by (auto simp: queues_def)
  have idle: "queues t s rd sec \<and> same_mode t s s" using q by (simp add: same_mode_def)
  consider (erase) "L_FLAG ?y ICANON" "sint c = CC ?y VERASE"
    | (stop) "L_FLAG ?y ICANON" "sint c \<noteq> CC ?y VERASE" "sint c = CC ?y VSTOP \<or> sint c = CC ?y VSTART"
    | (intr) "\<not> (L_FLAG ?y ICANON \<and> (sint c = CC ?y VERASE \<or> sint c = CC ?y VSTOP \<or> sint c = CC ?y VSTART))"
        "\<not> L_FLAG ?y ISIG" "sint c = CC ?y VINTR"
    | (put) "\<not> (L_FLAG ?y ICANON \<and> (sint c = CC ?y VERASE \<or> sint c = CC ?y VSTOP \<or> sint c = CC ?y VSTART))"
        "\<not> (\<not> L_FLAG ?y ISIG \<and> sint c = CC ?y VINTR)" by blast
  then show ?thesis
  proof cases
    case erase
    show ?thesis
    proof (cases "sec = [] \<or> last sec = 10 \<or> sint (last sec) = CC ?y VEOF")
      case True
      then have "s1 = s \<and> post = None" using erase r e unput_queues(2) [OF q] by (auto simp: cook_char_def Let_def)
      with True erase s2 idle show ?thesis by (simp add: cook_last_def)
    next
      case False
      let ?u = "\<lambda>s. upd_tty t (\<lambda>y. y\<lparr>secondary := UNPUT (secondary y)\<rparr>) s"
      have False': "sec \<noteq> []" using False by simp
      have l: "LAST (secondary ?y) = last sec" using False unput_queues(2) [OF q] by simp
      have m: "same_mode t s (?u s') = same_mode t s s'" for s' by (simp add: same_mode_def)
      let ?w = "put_write t 127 (if sint (last sec) < 32 then put_write t 127 s else s)"
      have wd: "queues t (?u w) rd (butlast sec) \<and> same_mode t s (?u w)" if "s1 = ?w"
      proof -
        have "queues t s1 rd sec" "same_mode t s s1" using idle that by simp_all
        then show ?thesis using unput_queues(1) [OF w(2) False'] m w(1) same_mode_trans by blast
      qed
      show ?thesis
      proof (cases "L_FLAG ?y ECHO")
        case True
        then have "s1 = ?w \<and> post = Some Post_erase" using r erase False l e by (auto simp: cook_char_def Let_def)
        with wd True erase False s2 show ?thesis by (simp add: cook_last_def)
      next
        case no: False
        then have "s1 = ?u s \<and> post = None" using r erase False l e by (auto simp: cook_char_def Let_def)
        with unput_queues(1) [OF q] m idle erase False s2 show ?thesis by (simp add: cook_last_def)
      qed
    qed
  next
    case stop
    then have "\<exists>v. s1 = upd_tty t (\<lambda>y. y\<lparr>stopped := v\<rparr>) s \<and> post = None"
      using r by (auto simp: cook_char_def Let_def split: if_splits)
    with stop s2 q show ?thesis by (auto simp: cook_last_def queues_def same_mode_def)
  next
    case intr
    then have "s1 = tty_intr t SIGINT s \<and> post = None" using r by (auto simp: cook_char_def Let_def)
    with intr s2 q show ?thesis by (auto simp: cook_last_def queues_def same_mode_def)
  next
    case put
    define u where "u = (if c = 10 \<or> sint c = CC ?y VEOF
      then upd_tty t (\<lambda>y. y\<lparr>secondary := (secondary y)\<lparr>q_data := q_data (secondary y) + 1\<rparr>\<rparr>) s else s)"
    have u: "queues t u rd sec" "same_mode t s u" using q by (simp_all add: u_def queues_def same_mode_def)
    have "(s1, post) = (if L_FLAG ?y ECHO then (cook_echo t c u, Some (Post_put c)) else (put_sec t c u, None))"
      using put r by (auto simp: cook_char_def Let_def u_def)
    note st = this
    have l: "cook_last ?y c sec = sec @ [c]" using put by (auto simp: cook_last_def)
    show ?thesis
    proof (cases "L_FLAG ?y ECHO")
      case True
      then have s1: "s1 = cook_echo t c u" "post = Some (Post_put c)" using st by simp_all
      have "queues t s1 rd sec" "same_mode t s s1" using u by (simp_all add: s1)
      then have "queues t w rd sec" "same_mode t s w" using w same_mode_trans by blast+
      with s2 s1 l True show ?thesis by (simp add: put_sec_queues(1) [OF _ room] put_sec_queues(2))
    next
      case False
      with st s2 u l show ?thesis by (simp add: put_sec_queues(1) [OF _ room] put_sec_queues(2))
    qed
  qed
qed

lemma mode_flags:
  assumes "same_mode t s s'"
  shows "L_FLAG (tty_table s' t) f = L_FLAG (tty_table s t) f" "I_FLAG (tty_table s' t) f = I_FLAG (tty_table s t) f"
    "CC (tty_table s' t) i = CC (tty_table s t) i" "tolower c s' = tolower c s"
    "cook_input (tty_table s' t) c = cook_input (tty_table s t) c"
    "cook_last (tty_table s' t) c acc = cook_last (tty_table s t) c acc"
  using assms
  by (simp_all add: same_mode_def L_FLAG_def I_FLAG_def CC_def tolower_def isupper_def ctype_at_def cook_input_def cook_last_def)

section \<open>The echo on the console\<close>

text \<open>A character below an escape sequence touches the screen only; no character but ESC starts one.\<close>

lemma con_plain_tty:
  fixes s :: "'z tty_st_scheme"
  shows "tty_table (con_plain e c s) = tty_table s" "below_ctype (con_plain e c s) = below_ctype s"
    "c \<noteq> 27 \<Longrightarrow> con_state (con_plain e c s) = con_state s"
proof -
  have l: "tty_table (lf u) = tty_table u" "below_ctype (lf u) = below_ctype u" "con_state (lf u) = con_state u" for u :: "'z tty_st_scheme"
    by (simp_all add: lf_def scrup_def set_origin_def Let_def)
  show "tty_table (con_plain e c s) = tty_table s" "below_ctype (con_plain e c s) = below_ctype s"
    "c \<noteq> 27 \<Longrightarrow> con_state (con_plain e c s) = con_state s"
    by (simp_all add: con_plain_def wrap_line_def cr_def del_def poke_def Let_def l)
qed

lemma con_loop_drains:
  assumes "out_queue t s xs" "con_state s = 0" "27 \<notin> set xs"
  shows "\<exists>s'. tty_run t (Con_loop (length xs)) s = Some s' \<and> con_state s' = 0 \<and> out_queue t s' [] \<and> same_mode t s s' \<and>
    (\<forall>rd sec. queues t s rd sec \<longrightarrow> queues t s' rd sec)"
  using assms
proof (induction xs arbitrary: s)
  case Nil
  then show ?case
    by (subst tty_run.simps) (simp add: set_cursor_def out_queue_def same_mode_def queues_def)
next
  case (Cons c xs)
  let ?q = "write_q (tty_table s t)"
  obtain d q where g: "GETCH ?q = (d, q)" by (cases "GETCH ?q")
  have ne: "\<not> EMPTY ?q" using Cons.prems(1) tq.empty_iff [of ?q] by (auto simp: out_queue_def)
  have d: "d = c" "q_ok q" "q_list q = xs"
    using tq.take_contents [of ?q] tq.take_inv [of ?q] Cons.prems(1) ne g by (auto simp: out_queue_def)
  define s1 where "s1 = upd_tty t (\<lambda>y. y\<lparr>write_q := q\<rparr>) s"
  define s2 where "s2 = con_plain (c_cc (tty_termios (tty_table s1 t)) VERASE) c s1"
  have st: "con_state s1 = 0" using Cons.prems(2) by (simp add: s1_def upd_tty_def)
  have r: "tty_run t (Con_loop (length (c # xs))) s = tty_run t (Con_loop (length xs)) s2"
    using g d(1) st by (subst tty_run.simps) (simp add: s1_def [symmetric] s2_def con_char_def)
  have "c \<noteq> 27" using Cons.prems(3) by auto
  then have s2: "tty_table s2 = tty_table s1" "below_ctype s2 = below_ctype s1" "con_state s2 = 0"
    using st by (simp_all add: s2_def con_plain_tty)
  have o: "out_queue t s2 xs" using d s2(1) by (simp add: out_queue_def s1_def)
  have m: "same_mode t s s2" "queues t s rd sec \<Longrightarrow> queues t s2 rd sec" for rd sec
    using s2 by (simp_all add: same_mode_def queues_def s1_def)
  have "27 \<notin> set xs" using Cons.prems(3) by simp
  from Cons.IH [OF o s2(3) this] r m show ?case by (metis same_mode_trans)
qed

text \<open>What the echo of one character puts into the output queue: never ESC, unless the code is 0xdb, which is echoed as a control character.\<close>

lemma con_state_put [simp]: "con_state (put_write t c s) = con_state s" "con_state (put_sec t c s) = con_state s"
  "con_state (upd_tty t f s) = con_state s"
  by (simp_all add: put_write_def put_sec_def upd_tty_def)

lemma out_queue_sec: "out_queue t (put_sec t c s) xs = out_queue t s xs"
  by (simp add: out_queue_def put_sec_def)

lemma tty_intr_state: "con_state (tty_intr t sig s) = con_state s"
proof -
  have gen: "con_state (fold f is s) = con_state s" if "\<And>i s. con_state (f i s) = con_state s"
    for f :: "nat \<Rightarrow> 'z tty_st_scheme \<Rightarrow> 'z tty_st_scheme" and "is" and s
    using that by (induction "is" arbitrary: s) simp_all
  show ?thesis unfolding tty_intr_def by (simp, intro impI gen) (simp add: upd_task_def)
qed

lemma put_write_two:
  assumes "out_queue t s xs" "length xs \<le> 1021"
  shows "out_queue t (put_write t c s) (xs @ [c])" "out_queue t (put_write t d (put_write t c s)) (xs @ [c, d])"
  using put_write_queue(1) [OF assms(1), of c] put_write_queue(1) [of t "put_write t c s" "xs @ [c]" d] assms(2) by simp_all

lemma cook_echo_out:
  assumes "out_queue t s xs" "length xs \<le> 1021" "27 \<notin> set xs" "c \<noteq> 0xdb"
  shows "\<exists>ys. out_queue t (cook_echo t c s) ys \<and> 27 \<notin> set ys" "con_state (cook_echo t c s) = con_state s"
proof -
  have "c + 64 \<noteq> 27"
  proof
    assume "c + 64 = 27"
    then have "c = 27 - 64" by (metis add_diff_cancel)
    with assms(4) show False by simp
  qed
  moreover have "\<not> sint c < 32 \<Longrightarrow> c \<noteq> 27" by auto
  ultimately show "\<exists>ys. out_queue t (cook_echo t c s) ys \<and> 27 \<notin> set ys"
    using put_write_two [OF assms(1,2)] assms(1,3) by (auto simp: cook_echo_def ch_def intro!: exI)
  show "con_state (cook_echo t c s) = con_state s" by (simp add: cook_echo_def)
qed

lemma cook_echo_db: "L_FLAG (tty_table s t) ECHOCTL \<Longrightarrow> cook_echo t 0xdb s = put_write t 27 (put_write t (ch CHR ''^'') s)"
proof -
  assume "L_FLAG (tty_table s t) ECHOCTL"
  then have "cook_echo t 0xdb s = put_write t (0xdb + 64) (put_write t (ch CHR ''^'') s)" by (simp add: cook_echo_def)
  moreover have "(0xdb :: u8) + 64 = 27" by simp
  ultimately show ?thesis by metis
qed

lemma cook_char_out:
  assumes o: "out_queue t s xs" "length xs \<le> 1021" "27 \<notin> set xs" and c: "c \<noteq> 0xdb" and r: "cook_char t c s = (s1, post)"
  shows "con_state s1 = con_state s" "if post = None then out_queue t s1 xs else \<exists>ys. out_queue t s1 ys \<and> 27 \<notin> set ys"
proof -
  let ?s1 = "if c = 10 \<or> sint c = CC (tty_table s t) VEOF
      then upd_tty t (\<lambda>y. y\<lparr>secondary := (secondary y)\<lparr>q_data := q_data (secondary y) + 1\<rparr>\<rparr>) s else s"
  have k: "out_queue t (upd_tty t (\<lambda>y. y\<lparr>secondary := f y\<rparr>) s) xs" "out_queue t (upd_tty t (\<lambda>y. y\<lparr>stopped := v\<rparr>) s) xs"
    "out_queue t (tty_intr t SIGINT s) xs" for f v
    using o(1) by (simp_all add: out_queue_def)
  have q1: "out_queue t ?s1 xs" using k(1) o(1) by simp
  note e = cook_echo_out [OF q1 o(2,3) c]
  have d: "\<exists>ys. out_queue t (put_write t 127 s) ys \<and> 27 \<notin> set ys" "\<exists>ys. out_queue t (put_write t 127 (put_write t 127 s)) ys \<and> 27 \<notin> set ys"
    using put_write_two(1) [OF o(1,2), of 127] put_write_two(2) [OF o(1,2), of 127 127] o(3) by (auto intro!: exI)
  show "con_state s1 = con_state s"
    using r e(2) by (auto simp: cook_char_def Let_def tty_intr_state split: if_splits)
  show "if post = None then out_queue t s1 xs else \<exists>ys. out_queue t s1 ys \<and> 27 \<notin> set ys"
    using r k e(1) d q1 o(1) by (auto simp: cook_char_def Let_def out_queue_sec split: if_splits)
qed

text \<open>
  Where a terminal may echo: to a serial line, or to a console with no escape sequence under way and none in the output queue.
  The second is kept from round to round, as the console empties the queue.
\<close>

definition quiet :: "nat \<Rightarrow> 'z tty_st_scheme \<Rightarrow> bool" where
  "quiet t s \<longleftrightarrow> con_state s = 0 \<and> (\<exists>xs. out_queue t s xs \<and> 27 \<notin> set xs \<and> length xs \<le> 1021)"

definition echo_ok :: "nat \<Rightarrow> 'z tty_st_scheme \<Rightarrow> u8 list \<Rightarrow> bool" where
  "echo_ok t s rd \<longleftrightarrow> tty_write_fn (tty_table s t) = Rs_write \<or> \<not> bit (c_lflag (tty_termios (tty_table s t))) 3 \<or>
     quiet t s \<and> 0xdb \<notin> set rd"

lemma mode_bits:
  "L_FLAG y ICANON = bit (c_lflag (tty_termios y)) 1" "L_FLAG y ISIG = bit (c_lflag (tty_termios y)) 0"
  "L_FLAG y ECHO = bit (c_lflag (tty_termios y)) 3"
  "I_FLAG y ICRNL = bit (c_iflag (tty_termios y)) 8" "I_FLAG y IGNCR = bit (c_iflag (tty_termios y)) 7"
  "I_FLAG y INLCR = bit (c_iflag (tty_termios y)) 6" "I_FLAG y IUCLC = bit (c_iflag (tty_termios y)) 9"
  "O_FLAG y OPOST = bit (c_oflag (tty_termios y)) 0" "O_FLAG y OLCUC = bit (c_oflag (tty_termios y)) 1"
  "O_FLAG y ONLCR = bit (c_oflag (tty_termios y)) 2" "O_FLAG y OCRNL = bit (c_oflag (tty_termios y)) 3"
  "O_FLAG y ONLRET = bit (c_oflag (tty_termios y)) 5"
proof -
  have b: "w AND 1 \<noteq> 0 \<longleftrightarrow> bit w 0" "w AND 2 \<noteq> 0 \<longleftrightarrow> bit w 1" "w AND 4 \<noteq> 0 \<longleftrightarrow> bit w 2" "w AND 8 \<noteq> 0 \<longleftrightarrow> bit w 3"
    "w AND 0x20 \<noteq> 0 \<longleftrightarrow> bit w 5" "w AND 0x40 \<noteq> 0 \<longleftrightarrow> bit w 6" "w AND 0x80 \<noteq> 0 \<longleftrightarrow> bit w 7" "w AND 0x100 \<noteq> 0 \<longleftrightarrow> bit w 8"
    "w AND 0x200 \<noteq> 0 \<longleftrightarrow> bit w 9" for w :: u32
    using and_exp_eq_0_iff_not_bit [of w 0] and_exp_eq_0_iff_not_bit [of w 1] and_exp_eq_0_iff_not_bit [of w 2]
      and_exp_eq_0_iff_not_bit [of w 3] and_exp_eq_0_iff_not_bit [of w 5] and_exp_eq_0_iff_not_bit [of w 6]
      and_exp_eq_0_iff_not_bit [of w 7] and_exp_eq_0_iff_not_bit [of w 8] and_exp_eq_0_iff_not_bit [of w 9] by auto
  show "L_FLAG y ICANON = bit (c_lflag (tty_termios y)) 1" "L_FLAG y ISIG = bit (c_lflag (tty_termios y)) 0"
    "L_FLAG y ECHO = bit (c_lflag (tty_termios y)) 3"
    "I_FLAG y ICRNL = bit (c_iflag (tty_termios y)) 8" "I_FLAG y IGNCR = bit (c_iflag (tty_termios y)) 7"
    "I_FLAG y INLCR = bit (c_iflag (tty_termios y)) 6" "I_FLAG y IUCLC = bit (c_iflag (tty_termios y)) 9"
    "O_FLAG y OPOST = bit (c_oflag (tty_termios y)) 0" "O_FLAG y OLCUC = bit (c_oflag (tty_termios y)) 1"
    "O_FLAG y ONLCR = bit (c_oflag (tty_termios y)) 2" "O_FLAG y OCRNL = bit (c_oflag (tty_termios y)) 3"
    "O_FLAG y ONLRET = bit (c_oflag (tty_termios y)) 5"
    by (simp_all only: L_FLAG_def I_FLAG_def O_FLAG_def ICANON_def ISIG_def ECHO_def ICRNL_def IGNCR_def INLCR_def IUCLC_def
        OPOST_def OLCUC_def ONLCR_def OCRNL_def ONLRET_def b)
qed

text \<open>The bits of the character table that the case conversions read.\<close>

lemma sint_u8: "sint c = (if c < 128 then uint c else uint c - 256)" for c :: u8
proof -
  have "0 \<le> uint c" "uint c < 256" using uint_lt2p [of c] by simp_all
  then show ?thesis
    by (simp add: sint_uint signed_take_bit_eq_take_bit_minus take_bit_eq_mod word_less_def bit_iff_odd)
      (cases "uint c < 128"; presburger)
qed

lemma case_bits:
  "isupper (sint c) s \<longleftrightarrow> 65 \<le> c \<and> c \<le> 90 \<or> 128 \<le> c \<and> c < 255 \<and> bit (below_ctype s (sint c)) 0"
  "islower (sint c) s \<longleftrightarrow> 97 \<le> c \<and> c \<le> 122 \<or> 128 \<le> c \<and> c < 255 \<and> bit (below_ctype s (sint c)) 1"
  for c :: u8
proof -
  have r: "0 \<le> uint c" "uint c < 256" using uint_lt2p [of c] by simp_all
  have b: "w AND 1 \<noteq> 0 \<longleftrightarrow> bit w 0" "w AND 2 \<noteq> 0 \<longleftrightarrow> bit w 1" for w :: u8
    using and_exp_eq_0_iff_not_bit [of w 0] and_exp_eq_0_iff_not_bit [of w 1] by auto
  have "\<not> uint c < -1" using r(1) by linarith
  then have low: "sint c < -1 \<longleftrightarrow> 128 \<le> c \<and> c < 255" by (simp add: sint_u8 word_less_def word_le_def)
  have n: "bit (ctype_bits k) 0 \<longleftrightarrow> 65 \<le> k \<and> k \<le> 90" "bit (ctype_bits k) 1 \<longleftrightarrow> 97 \<le> k \<and> k \<le> 122" for k
    by (simp_all add: ctype_bits_def bit_simps)
  have up: "65 \<le> sint c \<and> sint c \<le> 90 \<longleftrightarrow> 65 \<le> c \<and> c \<le> 90" "97 \<le> sint c \<and> sint c \<le> 122 \<longleftrightarrow> 97 \<le> c \<and> c \<le> 122"
    using r by (auto simp: sint_u8 word_less_def word_le_def)
  have ex: "\<not> (65 \<le> c \<and> c \<le> 90)" "\<not> (97 \<le> c \<and> c \<le> 122)" if "128 \<le> c" using that by (auto simp: word_le_def)
  show "isupper (sint c) s \<longleftrightarrow> 65 \<le> c \<and> c \<le> 90 \<or> 128 \<le> c \<and> c < 255 \<and> bit (below_ctype s (sint c)) 0"
    unfolding isupper_def ctype_at_def b(1) using n(1) [of "sint c"] up(1) low ex(1) by auto
  show "islower (sint c) s \<longleftrightarrow> 97 \<le> c \<and> c \<le> 122 \<or> 128 \<le> c \<and> c < 255 \<and> bit (below_ctype s (sint c)) 1"
    unfolding islower_def ctype_at_def b(2) using n(2) [of "sint c"] up(2) low ex(2) by auto
qed

lemma tolower_spec:
  "tolower c s = (if 65 \<le> c \<and> c \<le> 90 \<or> 128 \<le> c \<and> c < 255 \<and> bit (below_ctype s (sint c)) 0 then c + 162 else c)"
  by (simp add: tolower_def case_bits)


lemma cc_spec: "sint c = CC y i \<longleftrightarrow> is_cc (tty_termios y) i c"
proof (cases "c < 128")
  case True
  then show ?thesis by (simp add: CC_def is_cc_def sint_u8 word_uint_eq_iff)
next
  case False
  have "uint c < 256" "0 \<le> uint (c_cc (tty_termios y) i)" using uint_lt2p [of c] by simp_all
  then have "uint c - 256 \<noteq> uint (c_cc (tty_termios y) i)" by linarith
  with False show ?thesis by (simp add: CC_def is_cc_def sint_u8)
qed

lemma cook_last_spec: "cook_last y c acc = accept (tty_termios y) c acc"
  by (simp add: cook_last_def accept_def mode_bits cc_spec VERASE_def VEOF_def VSTOP_def VSTART_def VINTR_def)

definition high_upper :: "'z tty_st_scheme \<Rightarrow> u8 \<Rightarrow> bool" where
  "high_upper s c \<longleftrightarrow> bit (below_ctype s (sint c)) 0"

definition high_lower :: "'z tty_st_scheme \<Rightarrow> u8 \<Rightarrow> bool" where
  "high_lower s c \<longleftrightarrow> bit (below_ctype s (sint c)) 1"

lemmas high_defs = high_upper_def high_lower_def

lemma cook_spec_typed:
  "cook_spec y (\<lambda>c. tolower c s) c acc =
    (case typed (tty_termios y) (high_upper s) c of None \<Rightarrow> acc | Some d \<Rightarrow> accept (tty_termios y) d acc)"
  by (auto simp: cook_spec_def cook_input_def typed_def tolower_spec cook_last_spec mode_bits high_defs)

text \<open>No translation makes the code 0xdb.\<close>

lemma translated_not_db:
  assumes "c \<noteq> 0xdb" "cook_input y c = Some e"
  shows "(if I_FLAG y IUCLC then tolower e s else e) \<noteq> 0xdb"
proof -
  have e: "e \<noteq> 0xdb" using assms by (auto simp: cook_input_def split: if_splits)
  have "e = 57" if "e + 162 = 0xdb"
  proof -
    have "e = 0xdb - 162" using that by (metis add_diff_cancel)
    then show ?thesis by simp
  qed
  then show ?thesis using e by (auto simp: tolower_spec)
qed

text \<open>The call of the driver after an echo: it ends and touches only the output queue.\<close>

lemma driver_ends:
  assumes "tty_write_fn (tty_table s t) = Rs_write \<or> con_state s = 0 \<and> out_queue t s ys \<and> 27 \<notin> set ys"
  shows "\<exists>w. (case tty_write_fn (tty_table s t) of Rs_write \<Rightarrow> Some (rs_write t s)
      | Con_write \<Rightarrow> tty_run t (Con_loop (unat (CHARS (write_q (tty_table s t))))) s) = Some w \<and>
    same_mode t s w \<and> (\<forall>rd sec. queues t s rd sec \<longrightarrow> queues t w rd sec) \<and>
    (tty_write_fn (tty_table s t) = Con_write \<longrightarrow> quiet t w)"
proof (cases "tty_write_fn (tty_table s t)")
  case Con_write
  then have o: "con_state s = 0" "out_queue t s ys" "27 \<notin> set ys" using assms by simp_all
  then have "unat (CHARS (write_q (tty_table s t))) = length ys" by (simp add: out_queue_def unat_CHARS)
  with con_loop_drains [OF o(2,1,3)] Con_write show ?thesis by (auto simp: quiet_def intro!: exI [of _ "[]"])
qed (simp add: same_mode_def rs_write_def Let_def queues_def)

lemma cook_finish_quiet: "quiet t w \<Longrightarrow> quiet t (cook_finish t p w)"
  by (cases p) (auto simp: quiet_def out_queue_sec, auto simp: out_queue_def)

lemma cook_finish_mode: "same_mode t s (cook_finish t p w) = same_mode t s w"
  by (cases p) (simp_all add: put_sec_queues(2), simp add: same_mode_def)

lemma same_mode_refl [simp]: "same_mode t s s"
  by (simp add: same_mode_def)

lemma echo_ok_next: "same_mode t s s' \<Longrightarrow> echo_ok t s (c # rd) \<Longrightarrow> (quiet t s \<Longrightarrow> c \<noteq> 0xdb \<Longrightarrow> quiet t s') \<Longrightarrow> echo_ok t s' rd"
  by (auto simp: echo_ok_def same_mode_def)

lemma cook_round:
  assumes q: "queues t s (c # rd) sec" and room: "length sec < 1023" and e: "echo_ok t s (c # rd)"
  shows "\<exists>s'. tty_run t Cook s = tty_run t Cook s' \<and> same_mode t s s' \<and> echo_ok t s' rd \<and>
    queues t s' rd (cook_spec (tty_table s t) (\<lambda>c. tolower c s) c sec)"
proof -
  let ?y = "tty_table s t"
  have ne: "\<not> EMPTY (read_q ?y)" "\<not> FULL (secondary ?y)"
    using q room tq.empty_iff [of "read_q ?y"] tq.full_iff [of "secondary ?y"] by (auto simp: queues_def)
  obtain d rq where g: "GETCH (read_q ?y) = (d, rq)" by (cases "GETCH (read_q ?y)")
  define s1 where "s1 = upd_tty t (\<lambda>y. y\<lparr>read_q := rq\<rparr>) s"
  have d: "d = c" "q_ok rq" "q_list rq = rd"
    using tq.take_contents [of "read_q ?y"] tq.take_inv [of "read_q ?y"] q ne g by (auto simp: queues_def)
  have s1: "queues t s1 rd sec" "same_mode t s s1" using q d by (simp_all add: s1_def queues_def same_mode_def)
  have q1: "quiet t s1 = quiet t s" by (simp add: quiet_def s1_def out_queue_def)
  note f1 = mode_flags [OF s1(2)]
  have st0: "cook_step t s = (case cook_input ?y c of None \<Rightarrow> (s1, None)
      | Some e \<Rightarrow> cook_char t (if I_FLAG ?y IUCLC then tolower e s else e) s1)"
    unfolding cook_step_def Let_def g prod.case d(1) s1_def [symmetric] f1 by (rule refl)
  show ?thesis
  proof (cases "cook_input ?y c")
    case None
    then have "cook_step t s = (s1, None)" by (simp add: st0)
    then have "tty_run t Cook s = tty_run t Cook s1" using ne by (subst tty_run.simps) simp
    moreover have "echo_ok t s1 rd" using echo_ok_next [OF s1(2) e] q1 by simp
    ultimately show ?thesis using None s1 by (intro exI [of _ s1]) (simp add: cook_spec_def)
  next
    case (Some x)
    let ?c = "if I_FLAG ?y IUCLC then tolower x s else x"
    obtain s2 post where cc: "cook_char t ?c s1 = (s2, post)" by (cases "cook_char t ?c s1")
    have st: "cook_step t s = (s2, post)" using Some cc by (simp add: st0)
    have spec: "cook_spec ?y (\<lambda>c. tolower c s) c sec = cook_last (tty_table s1 t) ?c sec"
      using Some f1 by (simp add: cook_spec_def)
    note ck = cook_char_ok [OF s1(1) room cc]
    have out: "con_state s2 = 0 \<and> (if post = None then quiet t s2 else \<exists>ys. out_queue t s2 ys \<and> 27 \<notin> set ys)" if qs: "quiet t s" "c \<noteq> 0xdb"
    proof -
      obtain xs where xs: "out_queue t s1 xs" "length xs \<le> 1021" "27 \<notin> set xs" "con_state s1 = 0"
        using qs(1) q1 by (auto simp: quiet_def)
      have "?c \<noteq> 0xdb" by (rule translated_not_db [OF qs(2) Some])
      from cook_char_out [OF xs(1-3) this cc] xs show ?thesis by (auto simp: quiet_def)
    qed
    show ?thesis
    proof (cases post)
      case None
      then have r: "tty_run t Cook s = tty_run t Cook s2" using ne st by (subst tty_run.simps) simp
      have k: "queues t s2 rd (cook_last (tty_table s1 t) ?c sec)" "same_mode t s1 s2"
        using ck [of s2 s2] None by simp_all
      have "echo_ok t s2 rd" using echo_ok_next [OF same_mode_trans [OF s1(2) k(2)] e] out None by simp
      with r k spec same_mode_trans [OF s1(2)] show ?thesis by metis
    next
      case (Some p)
      have echo: "L_FLAG ?y ECHO" and m2: "same_mode t s s2"
        using ck [of s2 "cook_finish t p s2"] Some f1 same_mode_trans [OF s1(2)] by (simp_all add: cook_finish_mode)
      have "tty_write_fn (tty_table s2 t) = Rs_write \<or> con_state s2 = 0 \<and> (\<exists>ys. out_queue t s2 ys \<and> 27 \<notin> set ys)"
        using e echo m2 out Some by (auto simp: echo_ok_def mode_bits same_mode_def)
      then obtain w where w: "(case tty_write_fn (tty_table s2 t) of Rs_write \<Rightarrow> Some (rs_write t s2)
          | Con_write \<Rightarrow> tty_run t (Con_loop (unat (CHARS (write_q (tty_table s2 t))))) s2) = Some w"
        "same_mode t s2 w" "\<forall>rd sec. queues t s2 rd sec \<longrightarrow> queues t w rd sec" "tty_write_fn (tty_table s2 t) = Con_write \<longrightarrow> quiet t w"
        using driver_ends by metis
      let ?s = "cook_finish t p w"
      have r: "tty_run t Cook s = tty_run t Cook ?s" using ne st Some w(1) by (subst tty_run.simps) simp
      have k: "queues t ?s rd (cook_last (tty_table s1 t) ?c sec)" "same_mode t s1 ?s"
        using ck [OF w(2)] w(3) Some by simp_all
      have m: "same_mode t s ?s" by (rule same_mode_trans [OF s1(2) k(2)])
      have "tty_write_fn (tty_table s t) = Rs_write \<or> quiet t ?s"
        using w(4) cook_finish_quiet m2 by (cases "tty_write_fn (tty_table s2 t)") (auto simp: same_mode_def)
      then have "echo_ok t ?s rd" using e m by (auto simp: echo_ok_def same_mode_def)
      with r k(1) m spec show ?thesis by metis
    qed
  qed
qed

lemma discipline_end: "copy_to_cooked t s = Some (wake_up (sec_wait t) s) \<and> same_mode t s (wake_up (sec_wait t) s) \<and>
    queues t (wake_up (sec_wait t) s) rd sec" if "queues t s rd sec" "rd = [] \<or> 1023 \<le> length sec"
proof -
  let ?y = "tty_table s t"
  have "EMPTY (read_q ?y) \<or> FULL (secondary ?y)"
    using that tq.empty_iff [of "read_q ?y"] tq.full_iff [of "secondary ?y"] tq.bounded [of "secondary ?y"] by (auto simp: queues_def)
  then have "copy_to_cooked t s = Some (wake_up (sec_wait t) s)"
    unfolding copy_to_cooked_def by (subst tty_run.simps) simp
  moreover have "same_mode t s (wake_up (sec_wait t) s)" "queues t (wake_up (sec_wait t) s) rd sec"
    using that(1) by (simp_all add: wake_up_def sec_wait_def same_mode_def queues_def upd_task_def)
  ultimately show ?thesis by simp
qed

text \<open>
  C10: \<open>copy_to_cooked\<close> implements the line discipline. It always ends on a serial line, on a terminal that does
  not echo, and on the echoing console when no escape sequence is under way there and the code 0xdb, whose echo would be ESC, is
  not typed. It takes the typed characters one by one until the raw queue is empty or 1023 characters are ready, and leaves in
  the secondary queue exactly what the specification \<open>discipline\<close> gives: the characters translated, erased ones removed, stop, start
  and interrupt characters consumed. The mode of the terminal does not change.
\<close>

theorem copy_to_cooked_ok:
  assumes "queues t s rd sec"
    and "tty_write_fn (tty_table s t) = Rs_write \<or> \<not> bit (c_lflag (tty_termios (tty_table s t))) 3 \<or> quiet t s \<and> 0xdb \<notin> set rd"
  shows "\<exists>s'. copy_to_cooked t s = Some s' \<and> same_mode t s s' \<and>
    (case discipline (tty_termios (tty_table s t)) (high_upper s) rd sec of (rest, ready) \<Rightarrow> queues t s' rest ready)"
  using assms unfolding echo_ok_def [symmetric]
proof (induction rd arbitrary: s sec)
  case Nil
  then show ?case using discipline_end [OF Nil(1)] by simp
next
  case (Cons c rd)
  show ?case
  proof (cases "1023 \<le> length sec")
    case True
    then show ?thesis using discipline_end [OF Cons.prems(1)] by simp
  next
    case False
    then have "length sec < 1023" by simp
    from cook_round [OF Cons.prems(1) this Cons.prems(2)] obtain s' where
      s': "tty_run t Cook s = tty_run t Cook s'" "same_mode t s s'" "echo_ok t s' rd"
        "queues t s' rd (case typed (tty_termios (tty_table s t)) (high_upper s) c of None \<Rightarrow> sec | Some d \<Rightarrow> accept (tty_termios (tty_table s t)) d sec)"
      unfolding cook_spec_typed by blast
    have m: "tty_termios (tty_table s' t) = tty_termios (tty_table s t)" "high_upper s' = high_upper s"
      using s'(2) by (simp_all add: same_mode_def high_defs fun_eq_iff)
    have "copy_to_cooked t s = copy_to_cooked t s'" using s'(1) by (simp add: copy_to_cooked_def)
    with Cons.IH [OF s'(4,3)] s'(2) False show ?thesis unfolding m by (auto intro: same_mode_trans)
  qed
qed

section \<open>Output processing\<close>




definition out_same :: "nat \<Rightarrow> 'z tty_st_scheme \<Rightarrow> 'z tty_st_scheme \<Rightarrow> bool" where
  "out_same t s s' \<longleftrightarrow> same_mode t s s' \<and> umem s' = umem s \<and> current s' = current s"

lemma out_same_refl [simp]: "out_same t s s"
  by (simp add: out_same_def same_mode_def)

lemma out_same_write [simp]:
  "out_same t s (put_write t c s') = out_same t s s'" "out_same t s (s'\<lparr>cr_flag := f\<rparr>) = out_same t s s'"
  "out_queue t (s\<lparr>cr_flag := f\<rparr>) xs = out_queue t s xs"
  by (simp_all add: out_same_def put_write_def same_mode_def out_queue_def)




section \<open>The console with typed and written characters\<close>

text \<open>On the console of the boot, which echoes, the keys a, b, DEL and RETURN have been hit.\<close>

definition tty_boot :: tty_st where
  "tty_boot = con_st.extend con_ready \<lparr>tty_table = tty_table_init, cr_flag = False, ports = (\<lambda>_. 0), below_ctype = (\<lambda>_. 0)\<rparr>"

definition tty_demo :: tty_st where
  "tty_demo = fold (put_read 0) [97, 98, 127, 13] tty_boot"


lemma empty_queue_facts: "q_ok (empty_queue d)" "q_list (empty_queue d) = []"
  by (simp_all add: q_ok_def q_list_def empty_queue_def ring_list_def TTY_BUF_SIZE_def)

lemma tty_boot_fields: "tty_table tty_boot = tty_table_init" "cr_flag tty_boot = False" "con_state tty_boot = 0"
  by (simp_all add: tty_boot_def con_st.extend_def con_ready_def con_init_def con_boot_def um_st.extend_def gotoxy_def printk_def
      con_consts uw_def)

lemma put_read_queues: "queues t s rd sec \<Longrightarrow> length rd < 1023 \<Longrightarrow> queues t (put_read t c s) (rd @ [c]) sec"
  using tq.put_contents [of "read_q (tty_table s t)" c] tq.full_iff [of "read_q (tty_table s t)"] tq.put_inv [of "read_q (tty_table s t)" c]
  by (auto simp: queues_def put_read_def)

lemma put_read_fields:
  "tty_termios (tty_table (put_read t c s) u) = tty_termios (tty_table s u)" "quiet t (put_read t c s) = quiet t s"
  "tty_write_fn (tty_table (put_read t c s) u) = tty_write_fn (tty_table s u)"
  by (simp_all add: put_read_def quiet_def out_queue_def)

lemma tty_demo_facts:
  "queues 0 tty_demo [97, 98, 127, 13] []" "quiet 0 tty_demo"
  "tty_termios (tty_table tty_demo 0) = tty_termios (tty_table_init 0)"
proof -
  have "queues 0 tty_boot [] []" by (simp add: queues_def tty_boot_fields tty_table_init_def empty_queue_facts)
  from put_read_queues [OF this, of 97] have "queues 0 (put_read 0 97 tty_boot) [97] []" by simp
  from put_read_queues [OF this, of 98] have "queues 0 (put_read 0 98 (put_read 0 97 tty_boot)) [97, 98] []" by simp
  from put_read_queues [OF this, of 127] have "queues 0 (put_read 0 127 (put_read 0 98 (put_read 0 97 tty_boot))) [97, 98, 127] []" by simp
  from put_read_queues [OF this, of 13] show "queues 0 tty_demo [97, 98, 127, 13] []" by (simp add: tty_demo_def)
  have "quiet 0 tty_boot"
    by (auto simp: quiet_def out_queue_def tty_boot_fields tty_table_init_def empty_queue_facts)
  then show "quiet 0 tty_demo" by (simp add: tty_demo_def put_read_fields)
  show "tty_termios (tty_table tty_demo 0) = tty_termios (tty_table_init 0)" by (simp add: tty_demo_def put_read_fields tty_boot_fields)
qed

text \<open>The erase key has taken back the b; CR stays, as the console does not translate it.\<close>

theorem copy_to_cooked_witness:
  "queues 0 tty_demo [97, 98, 127, 13] [] \<and> tty_write_fn (tty_table_init 0) = Con_write \<and> bit (c_lflag (tty_termios (tty_table_init 0))) 3 \<and>
   (\<exists>s'. copy_to_cooked 0 tty_demo = Some s' \<and> queues 0 s' [] [97, 13])"
proof -
  have "discipline (tty_termios (tty_table_init 0)) h [97, 98, 127, 13] [] = ([], [97, 13])" for h
    by (simp add: typed_def accept_def is_cc_def tty_table_init_def INIT_C_CC_def ICANON_def ECHO_def ECHOCTL_def ECHOKE_def bit_or_iff)
  then obtain s' where "copy_to_cooked 0 tty_demo = Some s'" "queues 0 s' [] [97, 13]"
    using copy_to_cooked_ok [OF tty_demo_facts(1)] tty_demo_facts by auto
  then show ?thesis using tty_demo_facts(1)
    by (simp add: tty_table_init_def ICANON_def ECHO_def ECHOCTL_def ECHOKE_def bit_or_iff)
qed


end
