(* ===== verification/Buffer_Queue.thy ===== *)
theory Buffer_Queue
  imports Tty
begin

text \<open>
  The buffer heads of \<open>include/linux/fs.h\<close> and the two linked structures of \<open>fs/buffer.c\<close> they are in:
  the circular free list and the hash chains.

  Buffer heads are numbered from \<open>start_buffer\<close>; a pointer to one is a \<open>nat option\<close>. The contents of
  the block that \<open>b_data\<close> points to are part of the head, because \<open>buffer_init\<close> gives every head a block
  of its own. A write through a NULL pointer goes to physical memory (the page directory lies at
  address 0), at the offset of the field.

  \<open>walk f p xs q\<close> says that following \<open>f\<close> from \<open>p\<close> visits \<open>xs\<close> and ends at \<open>q\<close>. The invariant
  \<open>queues_ok\<close> describes the free list as a ring and every hash chain as a doubly linked list; the
  lemmas show what removal and insertion do to both and that \<open>find_buffer\<close> finds exactly the buffer
  of a block.
\<close>

section \<open>Data\<close>

definition NR_HASH :: nat where "NR_HASH = 307"
definition BLOCK_SIZE :: nat where "BLOCK_SIZE = 1024"

record buffer_head =
  b_data :: "nat \<Rightarrow> u8"
  b_dev :: u16
  b_blocknr :: u16
  b_uptodate :: u8
  b_dirt :: u8
  b_count :: u8
  b_lock :: u8
  b_wait :: nat
  b_prev :: "nat option"
  b_next :: "nat option"
  b_prev_free :: "nat option"
  b_next_free :: "nat option"

record bc_st = tty_st +
  bh :: "nat \<Rightarrow> buffer_head"
  start_buffer :: u32
  nr_buffers :: nat
  hash_table :: "nat \<Rightarrow> nat option"
  free_list :: nat
  buffer_wait :: nat

definition upd_bh :: "nat \<Rightarrow> (buffer_head \<Rightarrow> buffer_head) \<Rightarrow> 'z bc_st_scheme \<Rightarrow> 'z bc_st_scheme" where
  "upd_bh i f s = s\<lparr>bh := (bh s)(i := f (bh s i))\<rparr>"

text \<open>The machine address of a head (32 bytes each), for what a write through NULL stores.\<close>

definition bh_ptr :: "'z bc_st_scheme \<Rightarrow> nat option \<Rightarrow> u32" where
  "bh_ptr s p = (case p of None \<Rightarrow> 0 | Some i \<Rightarrow> start_buffer s + 32 * of_nat i)"

definition set_b_prev :: "nat option \<Rightarrow> nat option \<Rightarrow> 'z bc_st_scheme \<Rightarrow> 'z bc_st_scheme" where
  "set_b_prev p v s = (case p of None \<Rightarrow> stl 16 (bh_ptr s v) s | Some i \<Rightarrow> upd_bh i (\<lambda>b. b\<lparr>b_prev := v\<rparr>) s)"

definition set_b_next :: "nat option \<Rightarrow> nat option \<Rightarrow> 'z bc_st_scheme \<Rightarrow> 'z bc_st_scheme" where
  "set_b_next p v s = (case p of None \<Rightarrow> stl 20 (bh_ptr s v) s | Some i \<Rightarrow> upd_bh i (\<lambda>b. b\<lparr>b_next := v\<rparr>) s)"

definition set_prev_free :: "nat option \<Rightarrow> nat option \<Rightarrow> 'z bc_st_scheme \<Rightarrow> 'z bc_st_scheme" where
  "set_prev_free p v s =
     (case p of None \<Rightarrow> stl 24 (bh_ptr s v) s | Some i \<Rightarrow> upd_bh i (\<lambda>b. b\<lparr>b_prev_free := v\<rparr>) s)"

definition set_next_free :: "nat option \<Rightarrow> nat option \<Rightarrow> 'z bc_st_scheme \<Rightarrow> 'z bc_st_scheme" where
  "set_next_free p v s =
     (case p of None \<Rightarrow> stl 28 (bh_ptr s v) s | Some i \<Rightarrow> upd_bh i (\<lambda>b. b\<lparr>b_next_free := v\<rparr>) s)"

section \<open>Operations\<close>

definition hashfn :: "int \<Rightarrow> int \<Rightarrow> nat" where
  "hashfn dev block = nat (uw (dev XOR block)) mod NR_HASH"

definition hash_of :: "nat \<Rightarrow> 'z bc_st_scheme \<Rightarrow> nat" where
  "hash_of b s = hashfn (uint (b_dev (bh s b))) (uint (b_blocknr (bh s b)))"

definition set_hash :: "nat \<Rightarrow> nat option \<Rightarrow> 'z bc_st_scheme \<Rightarrow> 'z bc_st_scheme" where
  "set_hash h v s = s\<lparr>hash_table := (hash_table s)(h := v)\<rparr>"

definition remove_from_queues :: "nat \<Rightarrow> 'z bc_st_scheme \<Rightarrow> ('z bc_st_scheme, unit) kres" where
  "remove_from_queues b s =
     (let s1 = (if b_next (bh s b) \<noteq> None then set_b_prev (b_next (bh s b)) (b_prev (bh s b)) s else s);
          s2 = (if b_prev (bh s1 b) \<noteq> None then set_b_next (b_prev (bh s1 b)) (b_next (bh s1 b)) s1 else s1);
          s3 = (if hash_table s2 (hash_of b s2) = Some b then set_hash (hash_of b s2) (b_next (bh s2 b)) s2 else s2)
      in case (b_prev_free (bh s3 b), b_next_free (bh s3 b)) of
           (Some p, Some n) \<Rightarrow>
             let s4 = set_next_free (b_prev_free (bh s3 b)) (b_next_free (bh s3 b)) s3;
                 s5 = set_prev_free (b_next_free (bh s4 b)) (b_prev_free (bh s4 b)) s4
             in Ok () (if free_list s5 = b
                       then s5\<lparr>free_list := (case b_next_free (bh s5 b) of Some n \<Rightarrow> n | None \<Rightarrow> b)\<rparr> else s5)
         | _ \<Rightarrow> Panic ''Free block list corrupted'')"

definition insert_into_queues :: "nat \<Rightarrow> 'z bc_st_scheme \<Rightarrow> 'z bc_st_scheme" where
  "insert_into_queues b s =
     (let s1 = set_next_free (Some b) (Some (free_list s)) s;
          s2 = set_prev_free (Some b) (b_prev_free (bh s1 (free_list s1))) s1;
          s3 = set_next_free (b_prev_free (bh s2 (free_list s2))) (Some b) s2;
          s4 = set_prev_free (Some (free_list s3)) (Some b) s3;
          s5 = set_b_prev (Some b) None s4;
          s6 = set_b_next (Some b) None s5
      in if b_dev (bh s6 b) = 0 then s6
         else
           let s7 = set_b_next (Some b) (hash_table s6 (hash_of b s6)) s6;
               s8 = set_hash (hash_of b s7) (Some b) s7
           in set_b_prev (b_next (bh s8 b)) (Some b) s8)"

partial_function (option) find_from :: "int \<Rightarrow> int \<Rightarrow> 'z bc_st_scheme \<Rightarrow> nat option \<Rightarrow> nat option option" where
  "find_from dev block s tmp =
     (case tmp of None \<Rightarrow> Some None
      | Some b \<Rightarrow>
         if uint (b_dev (bh s b)) = dev \<and> uint (b_blocknr (bh s b)) = block then Some (Some b)
         else find_from dev block s (b_next (bh s b)))"

text \<open>\<open>None\<close> when the chain is circular and the search does not end.\<close>

definition find_buffer :: "int \<Rightarrow> int \<Rightarrow> 'z bc_st_scheme \<Rightarrow> nat option option" where
  "find_buffer dev block s = find_from dev block s (hash_table s (hashfn dev block))"

section \<open>Paths of pointers\<close>

primrec walk :: "(nat \<Rightarrow> nat option) \<Rightarrow> nat option \<Rightarrow> nat list \<Rightarrow> nat option \<Rightarrow> bool" where
  "walk f p [] q \<longleftrightarrow> p = q"
| "walk f p (x # xs) q \<longleftrightarrow> p = Some x \<and> walk f (f x) xs q"

lemma walk_append: "walk f p (xs @ ys) q \<longleftrightarrow> (\<exists>r. walk f p xs r \<and> walk f r ys q)"
  by (induction xs arbitrary: p) auto

lemma walk_start: "walk f p (x # xs) q \<Longrightarrow> p = Some x"
  by simp

lemma walk_cong: "\<forall>x \<in> set xs. f x = g x \<Longrightarrow> walk f p xs q = walk g p xs q"
  by (induction xs arbitrary: p) auto

lemma walk_upd [simp]: "b \<notin> set xs \<Longrightarrow> walk (f(b := v)) p xs q = walk f p xs q"
  by (intro walk_cong) auto

lemma walk_end: "xs \<noteq> [] \<Longrightarrow> walk f p xs q \<Longrightarrow> f (last xs) = q"
  by (induction xs arbitrary: p) (auto split: if_splits)

text \<open>Redirecting the last pointer of a path.\<close>

lemma walk_redirect: "xs \<noteq> [] \<Longrightarrow> distinct xs \<Longrightarrow> walk f p xs q \<Longrightarrow> walk (f(last xs := v)) p xs v"
  by (induction xs arbitrary: p) (auto split: if_splits)

text \<open>Taking a node out of a path: its predecessor is redirected, or the start when it is the first.\<close>

lemma walk_drop:
  assumes "walk f p (as @ b # bs) q" "distinct (as @ b # bs)"
  shows "as \<noteq> [] \<Longrightarrow> walk (f(last as := f b)) p (as @ bs) q" "as = [] \<Longrightarrow> walk f (f b) bs q"
proof -
  assume "as \<noteq> []"
  moreover have "last as \<notin> set bs" if "as \<noteq> []" using assms(2) last_in_set [OF that] by (auto simp: disjoint_iff)
  moreover obtain r where "walk f p as r" "walk f (f b) bs q" using assms(1) by (auto simp: walk_append)
  ultimately show "walk (f(last as := f b)) p (as @ bs) q"
    using assms(2) walk_redirect [of as f p r "f b"] by (auto simp: walk_append)
qed (use assms in simp)

text \<open>A ring: the path from its head leads back to the head.\<close>

definition ring :: "(nat \<Rightarrow> nat option) \<Rightarrow> nat list \<Rightarrow> bool" where
  "ring f xs \<longleftrightarrow> xs \<noteq> [] \<and> distinct xs \<and> walk f (Some (hd xs)) xs (Some (hd xs))"

lemma ring_succ: "ring f (as @ b # bs) \<Longrightarrow> f b = Some (hd (bs @ as @ [b]))"
  by (cases bs; cases as) (auto simp: ring_def walk_append)

lemma ring_drop:
  assumes "ring f (as @ b # bs)" "as @ bs \<noteq> []"
  shows "ring (f(last (bs @ as) := f b)) (as @ bs)"
proof (cases "as = []")
  case True
  then have bs: "bs \<noteq> []" "walk f (f b) bs (Some b)" using assms by (auto simp: ring_def)
  then have "f b = Some (hd bs)" by (cases bs) auto
  with True bs assms walk_redirect [of bs f "f b" "Some b" "f b"] show ?thesis by (simp add: ring_def)
next
  case False
  then have "walk (f(last as := f b)) (Some (hd as)) (as @ bs) (Some (hd as))"
    using assms walk_drop(1) [of f "Some (hd as)" as b bs "Some (hd as)"] by (simp add: ring_def)
  with False assms show ?thesis by (simp add: ring_def)
qed

text \<open>Adding a node at the end of a ring.\<close>

lemma ring_snoc:
  assumes "ring f xs" "b \<notin> set xs" "f b = Some (hd xs)"
  shows "ring (f(last xs := Some b)) (xs @ [b])"
proof -
  have "xs \<noteq> []" "distinct xs" "walk f (Some (hd xs)) xs (Some (hd xs))" using assms(1) by (auto simp: ring_def)
  moreover from this have "last xs \<noteq> b" using assms(2) last_in_set by blast
  ultimately show ?thesis
    using assms walk_redirect [of xs f "Some (hd xs)" "Some (hd xs)" "Some b"]
    by (auto simp: ring_def walk_append)
qed

lemma ring_cong: "\<forall>x \<in> set xs. f x = g x \<Longrightarrow> ring f xs = ring g xs"
  using walk_cong [of xs f g] by (auto simp: ring_def)

text \<open>The same ring followed backwards: \<open>ring g (rev xs)\<close>, so that one lemma serves both directions.\<close>

lemma ring_rev_prev: "ring g (rev (as @ b # bs)) \<Longrightarrow> g b = Some (last (b # bs @ as))"
  using ring_succ [of g "rev bs" b "rev as"] by (cases "as = []"; cases "bs = []") (auto simp: hd_append hd_rev)

section \<open>The invariant of the queues\<close>

text \<open>The part of a head that is not a link, and states that differ in the links only.\<close>

definition core :: "buffer_head \<Rightarrow> (nat \<Rightarrow> u8) \<times> u16 \<times> u16 \<times> u8 \<times> u8 \<times> u8 \<times> u8 \<times> nat" where
  "core b = (b_data b, b_dev b, b_blocknr b, b_uptodate b, b_dirt b, b_count b, b_lock b, b_wait b)"

definition relinked :: "'z bc_st_scheme \<Rightarrow> 'z bc_st_scheme \<Rightarrow> bool" where
  "relinked s t \<longleftrightarrow> (\<exists>B H f. t = s\<lparr>bh := B, hash_table := H, free_list := f\<rparr> \<and> (\<forall>i. core (B i) = core (bh s i)))"

definition link :: "(nat \<Rightarrow> nat option) \<Rightarrow> nat option \<Rightarrow> nat option \<Rightarrow> nat \<Rightarrow> nat option" where
  "link f p v = (case p of None \<Rightarrow> f | Some q \<Rightarrow> f(q := v))"

definition chain :: "(nat \<Rightarrow> nat option) \<Rightarrow> (nat \<Rightarrow> nat option) \<Rightarrow> nat option \<Rightarrow> nat list \<Rightarrow> bool" where
  "chain f g p xs \<longleftrightarrow> distinct xs \<and> walk f p xs None \<and>
     walk g (if xs = [] then None else Some (last xs)) (rev xs) None"

text \<open>
  \<open>U\<close> is the set of buffers that are in the queues (all of them, except while \<open>getblk\<close> works on one),
  \<open>fs\<close> the free list and \<open>hs h\<close> the chain of hash value \<open>h\<close>.
\<close>

definition queues_ok :: "nat set \<Rightarrow> nat list \<Rightarrow> (nat \<Rightarrow> nat list) \<Rightarrow> 'z bc_st_scheme \<Rightarrow> bool" where
  "queues_ok U fs hs s \<longleftrightarrow>
     set fs = U \<and> free_list s = hd fs \<and>
     ring (\<lambda>i. b_next_free (bh s i)) fs \<and> ring (\<lambda>i. b_prev_free (bh s i)) (rev fs) \<and>
     (\<forall>h < NR_HASH. chain (\<lambda>i. b_next (bh s i)) (\<lambda>i. b_prev (bh s i)) (hash_table s h) (hs h)) \<and>
     (\<forall>h < NR_HASH. set (hs h) = {b \<in> U. b_dev (bh s b) \<noteq> 0 \<and> hash_of b s = h}) \<and>
     (\<forall>b \<in> U. b_dev (bh s b) = 0 \<longrightarrow> b_next (bh s b) = None \<and> b_prev (bh s b) = None) \<and>
     (\<forall>b \<in> U. \<forall>c \<in> U. b_dev (bh s b) \<noteq> 0 \<longrightarrow> b_dev (bh s c) = b_dev (bh s b) \<longrightarrow>
        b_blocknr (bh s c) = b_blocknr (bh s b) \<longrightarrow> c = b)"

lemma hashfn_less [simp]: "hashfn dev block < NR_HASH"
  by (simp add: hashfn_def NR_HASH_def)

lemma hash_of_less [simp]: "hash_of b s < NR_HASH"
  by (simp add: hash_of_def)

lemma upd_bh_sel [simp]:
  "bh (upd_bh i f s) j = (if j = i then f (bh s i) else bh s j)" "hash_table (upd_bh i f s) = hash_table s"
  "free_list (upd_bh i f s) = free_list s" "nr_buffers (upd_bh i f s) = nr_buffers s"
  "start_buffer (upd_bh i f s) = start_buffer s" "buffer_wait (upd_bh i f s) = buffer_wait s"
  "pm (upd_bh i f s) = pm s" "current (upd_bh i f s) = current s" "ts (upd_bh i f s) = ts s"
  by (simp_all add: upd_bh_def)

lemma stl_bc [simp]:
  "bh (stl a v s) = bh s" "hash_table (stl a v s) = hash_table s" "free_list (stl a v s) = free_list s"
  "nr_buffers (stl a v s) = nr_buffers s" "start_buffer (stl a v s) = start_buffer s"
  "buffer_wait (stl a v s) = buffer_wait s"
  by (simp_all add: stl_def)

lemma set_hash_sel [simp]:
  "bh (set_hash h v s) = bh s" "hash_table (set_hash h v s) = (hash_table s)(h := v)"
  "free_list (set_hash h v s) = free_list s" "nr_buffers (set_hash h v s) = nr_buffers s"
  "start_buffer (set_hash h v s) = start_buffer s" "buffer_wait (set_hash h v s) = buffer_wait s"
  "pm (set_hash h v s) = pm s" "current (set_hash h v s) = current s" "ts (set_hash h v s) = ts s"
  by (simp_all add: set_hash_def)

lemma hash_of_core: "core (bh s b) = core (bh t b) \<Longrightarrow> hash_of b s = hash_of b t"
  by (simp add: hash_of_def core_def)

lemma relinked_intro:
  "t = s\<lparr>bh := bh t, hash_table := hash_table t, free_list := free_list t\<rparr> \<Longrightarrow>
   \<forall>i. core (bh t i) = core (bh s i) \<Longrightarrow> relinked s t"
  unfolding relinked_def by blast

lemma relinked_core: "relinked s t \<Longrightarrow> core (bh t i) = core (bh s i)"
  by (auto simp: relinked_def)

lemma relinked_refl [simp]: "relinked s s"
  by (rule relinked_intro) simp_all

lemma relinked_trans: "relinked s t \<Longrightarrow> relinked t u \<Longrightarrow> relinked s u"
  by (rule relinked_intro) (auto simp: relinked_def)

lemma relinked_hash_of: "relinked s t \<Longrightarrow> hash_of b t = hash_of b s"
  by (auto intro: hash_of_core simp: relinked_def)

lemma set_b_prev_link [simp]:
  "relinked s (set_b_prev (Some q) v s)"
  "b_next (bh (set_b_prev (Some q) v s) i) = b_next (bh s i)"
  "(\<lambda>i. b_prev (bh (set_b_prev (Some q) v s) i)) = (\<lambda>i. b_prev (bh s i))(q := v)"
  "b_next_free (bh (set_b_prev (Some q) v s) i) = b_next_free (bh s i)"
  "b_prev_free (bh (set_b_prev (Some q) v s) i) = b_prev_free (bh s i)"
  "free_list (set_b_prev (Some q) v s) = free_list s" "hash_table (set_b_prev (Some q) v s) = hash_table s"
  by (auto simp: set_b_prev_def core_def upd_bh_def fun_eq_iff intro!: relinked_intro)

lemma set_b_next_link [simp]:
  "relinked s (set_b_next (Some q) v s)"
  "(\<lambda>i. b_next (bh (set_b_next (Some q) v s) i)) = (\<lambda>i. b_next (bh s i))(q := v)"
  "b_prev (bh (set_b_next (Some q) v s) i) = b_prev (bh s i)"
  "b_next_free (bh (set_b_next (Some q) v s) i) = b_next_free (bh s i)"
  "b_prev_free (bh (set_b_next (Some q) v s) i) = b_prev_free (bh s i)"
  "free_list (set_b_next (Some q) v s) = free_list s" "hash_table (set_b_next (Some q) v s) = hash_table s"
  by (auto simp: set_b_next_def core_def upd_bh_def fun_eq_iff intro!: relinked_intro)

lemma set_prev_free_link [simp]:
  "relinked s (set_prev_free (Some q) v s)"
  "b_next (bh (set_prev_free (Some q) v s) i) = b_next (bh s i)"
  "b_prev (bh (set_prev_free (Some q) v s) i) = b_prev (bh s i)"
  "b_next_free (bh (set_prev_free (Some q) v s) i) = b_next_free (bh s i)"
  "(\<lambda>i. b_prev_free (bh (set_prev_free (Some q) v s) i)) = (\<lambda>i. b_prev_free (bh s i))(q := v)"
  "free_list (set_prev_free (Some q) v s) = free_list s" "hash_table (set_prev_free (Some q) v s) = hash_table s"
  by (auto simp: set_prev_free_def core_def upd_bh_def fun_eq_iff intro!: relinked_intro)

lemma set_next_free_link [simp]:
  "relinked s (set_next_free (Some q) v s)"
  "b_next (bh (set_next_free (Some q) v s) i) = b_next (bh s i)"
  "b_prev (bh (set_next_free (Some q) v s) i) = b_prev (bh s i)"
  "(\<lambda>i. b_next_free (bh (set_next_free (Some q) v s) i)) = (\<lambda>i. b_next_free (bh s i))(q := v)"
  "b_prev_free (bh (set_next_free (Some q) v s) i) = b_prev_free (bh s i)"
  "free_list (set_next_free (Some q) v s) = free_list s" "hash_table (set_next_free (Some q) v s) = hash_table s"
  by (auto simp: set_next_free_def core_def upd_bh_def fun_eq_iff intro!: relinked_intro)

lemma set_hash_relinked [simp]: "relinked s (set_hash h v s)"
  by (rule relinked_intro) (simp_all add: set_hash_def)

lemma free_list_relinked [simp]: "relinked s (s\<lparr>free_list := f\<rparr>)"
  by (rule relinked_intro) simp_all

lemmas relinked_steps = relinked_trans [OF _ set_b_prev_link(1)] relinked_trans [OF _ set_b_next_link(1)]
  relinked_trans [OF _ set_prev_free_link(1)] relinked_trans [OF _ set_next_free_link(1)]
  relinked_trans [OF _ set_hash_relinked] relinked_trans [OF _ free_list_relinked]

lemma remove_links:
  assumes "b_next (bh s b) \<noteq> Some b" "b_prev (bh s b) \<noteq> Some b"
    and "b_prev_free (bh s b) = Some p" "b_next_free (bh s b) = Some n" "p \<noteq> b" "n \<noteq> b"
  shows "\<exists>s'. remove_from_queues b s = Ok () s' \<and> relinked s s' \<and>
    (\<lambda>i. b_next (bh s' i)) = link (\<lambda>i. b_next (bh s i)) (b_prev (bh s b)) (b_next (bh s b)) \<and>
    (\<lambda>i. b_prev (bh s' i)) = link (\<lambda>i. b_prev (bh s i)) (b_next (bh s b)) (b_prev (bh s b)) \<and>
    (\<lambda>i. b_next_free (bh s' i)) = (\<lambda>i. b_next_free (bh s i))(p := Some n) \<and>
    (\<lambda>i. b_prev_free (bh s' i)) = (\<lambda>i. b_prev_free (bh s i))(n := Some p) \<and>
    free_list s' = (if free_list s = b then n else free_list s) \<and>
    hash_table s' = (if hash_table s (hash_of b s) = Some b
      then (hash_table s)(hash_of b s := b_next (bh s b)) else hash_table s)"
proof -
  define s1 where "s1 = (if b_next (bh s b) \<noteq> None then set_b_prev (b_next (bh s b)) (b_prev (bh s b)) s else s)"
  have s1: "relinked s s1" "\<And>i. b_next (bh s1 i) = b_next (bh s i)"
    "(\<lambda>i. b_prev (bh s1 i)) = link (\<lambda>i. b_prev (bh s i)) (b_next (bh s b)) (b_prev (bh s b))"
    "\<And>i. b_next_free (bh s1 i) = b_next_free (bh s i)" "\<And>i. b_prev_free (bh s1 i) = b_prev_free (bh s i)"
    "free_list s1 = free_list s" "hash_table s1 = hash_table s"
    by (auto simp: s1_def link_def)
  then have p1: "b_prev (bh s1 b) = b_prev (bh s b)"
    using assms(1) fun_cong [OF s1(3), of b] by (auto simp: link_def split: option.splits)
  define s2 where "s2 = (if b_prev (bh s1 b) \<noteq> None then set_b_next (b_prev (bh s1 b)) (b_next (bh s1 b)) s1 else s1)"
  have s2: "relinked s s2" "(\<lambda>i. b_next (bh s2 i)) = link (\<lambda>i. b_next (bh s i)) (b_prev (bh s b)) (b_next (bh s b))"
    "(\<lambda>i. b_prev (bh s2 i)) = link (\<lambda>i. b_prev (bh s i)) (b_next (bh s b)) (b_prev (bh s b))"
    "\<And>i. b_next_free (bh s2 i) = b_next_free (bh s i)" "\<And>i. b_prev_free (bh s2 i) = b_prev_free (bh s i)"
    "free_list s2 = free_list s" "hash_table s2 = hash_table s"
    using s1 p1 by (auto simp: s2_def link_def intro: relinked_trans)
  then have n2: "b_next (bh s2 b) = b_next (bh s b)" and h2: "hash_of b s2 = hash_of b s"
    using assms(2) fun_cong [OF s2(2), of b] by (auto simp: link_def relinked_hash_of split: option.splits)
  define s3 where "s3 = (if hash_table s2 (hash_of b s2) = Some b then set_hash (hash_of b s2) (b_next (bh s2 b)) s2 else s2)"
  have s3: "bh s3 = bh s2" "relinked s s3" "free_list s3 = free_list s"
    "hash_table s3 = (if hash_table s (hash_of b s) = Some b
      then (hash_table s)(hash_of b s := b_next (bh s b)) else hash_table s)"
    using s2 n2 h2 by (auto simp: s3_def intro: relinked_trans)
  define s4 where "s4 = set_next_free (Some p) (Some n) s3"
  define s5 where "s5 = set_prev_free (Some n) (Some p) s4"
  have f4: "b_next_free (bh s4 b) = Some n" "b_prev_free (bh s4 b) = Some p"
    using assms s2 s3(1) fun_cong [OF set_next_free_link(4), of p "Some n" s3 b] by (auto simp: s4_def)
  have f5: "b_next_free (bh s5 b) = Some n" using f4 by (simp add: s5_def)
  have "remove_from_queues b s = Ok () (if free_list s5 = b then s5\<lparr>free_list := n\<rparr> else s5)"
    unfolding remove_from_queues_def Let_def s1_def [symmetric] s2_def [symmetric] s3_def [symmetric]
    using assms(3,4) s2 s3(1) f4 f5 by (simp add: s4_def [symmetric] s5_def [symmetric])
  moreover have "relinked s s5"
    unfolding s5_def s4_def using s3(2) by (blast intro: relinked_trans set_prev_free_link set_next_free_link)
  ultimately show ?thesis
    using s2 s3 assms
    by (intro exI [of _ "if free_list s5 = b then s5\<lparr>free_list := n\<rparr> else s5"])
      (auto simp: s5_def s4_def intro: relinked_trans)
qed

section \<open>Removal\<close>

lemma chain_neighbours:
  assumes "chain f g p (cs @ b # ds)"
  shows "f b = (if ds = [] then None else Some (hd ds))" "g b = (if cs = [] then None else Some (last cs))"
    "p = Some b \<longleftrightarrow> cs = []"
proof -
  have "walk f (f b) ds None" "walk g (g b) (rev cs) None" using assms by (auto simp: chain_def walk_append)
  then show "f b = (if ds = [] then None else Some (hd ds))" "g b = (if cs = [] then None else Some (last cs))"
    by (cases ds; cases cs rule: rev_cases; auto)+
  show "p = Some b \<longleftrightarrow> cs = []" using assms by (cases cs) (auto simp: chain_def)
qed

lemma chain_drop:
  assumes "chain f g p (cs @ b # ds)"
  shows "chain (link f (g b) (f b)) (link g (f b) (g b)) (if p = Some b then f b else p) (cs @ ds)"
proof -
  note nb = chain_neighbours [OF assms]
  have d: "distinct (cs @ b # ds)" "distinct (rev ds @ b # rev cs)" using assms by (auto simp: chain_def)
  have f: "walk f p (cs @ b # ds) None" using assms by (simp add: chain_def)
  have g: "walk g (Some (last (b # ds))) (rev ds @ b # rev cs) None" using assms by (simp add: chain_def)
  have "walk (link f (g b) (f b)) (if p = Some b then f b else p) (cs @ ds) None"
  proof (cases "cs = []")
    case True
    then show ?thesis using walk_drop(2) [OF f d(1)] nb by (simp add: link_def)
  next
    case False
    then show ?thesis using walk_drop(1) [OF f d(1)] nb by (simp add: link_def)
  qed
  moreover have "walk (link g (f b) (g b)) (if cs @ ds = [] then None else Some (last (cs @ ds))) (rev (cs @ ds)) None"
  proof (cases "ds = []")
    case True
    then show ?thesis using walk_drop(2) [OF g d(2)] nb by (auto simp: link_def)
  next
    case False
    then show ?thesis using walk_drop(1) [OF g d(2)] nb by (simp add: link_def last_rev)
  qed
  ultimately show ?thesis using d by (simp add: chain_def)
qed

lemma walk_link: "(\<And>q. p = Some q \<Longrightarrow> q \<notin> set xs) \<Longrightarrow> walk (link f p v) r xs t = walk f r xs t"
  by (intro walk_cong) (auto simp: link_def split: option.splits)

lemma chain_link:
  assumes "chain f g p xs" "\<And>q. u = Some q \<Longrightarrow> q \<notin> set xs" "\<And>q. v = Some q \<Longrightarrow> q \<notin> set xs"
  shows "chain (link f u c) (link g v d) p xs"
  using assms by (simp add: chain_def walk_link)

lemma chain_neighbour_mem:
  assumes "chain f g p xs" "b \<in> set xs"
  shows "f b = Some q \<Longrightarrow> q \<in> set xs" "g b = Some q \<Longrightarrow> q \<in> set xs" "f b \<noteq> Some b" "g b \<noteq> Some b"
proof -
  obtain cs ds where x: "xs = cs @ b # ds" using assms(2) by (meson split_list)
  note nb = chain_neighbours [OF assms(1) [unfolded x]]
  have d: "distinct (cs @ b # ds)" using assms(1) by (simp add: chain_def x)
  show "f b = Some q \<Longrightarrow> q \<in> set xs" using nb by (auto simp: x split: if_splits)
  show "g b = Some q \<Longrightarrow> q \<in> set xs" using nb by (auto simp: x split: if_splits)
  show "f b \<noteq> Some b" using nb d hd_in_set [of ds] by (auto split: if_splits)
  show "g b \<noteq> Some b" using nb d last_in_set [of cs] by (auto split: if_splits)
qed

text \<open>What the invariant says about a buffer in the queues.\<close>

lemma queues_ok_hashed:
  assumes "queues_ok U fs hs s" "h < NR_HASH"
  shows "b \<in> set (hs h) \<longleftrightarrow> b \<in> U \<and> b_dev (bh s b) \<noteq> 0 \<and> hash_of b s = h"
  using assms by (auto simp: queues_ok_def)

lemma queues_ok_chain:
  assumes "queues_ok U fs hs s" "h < NR_HASH"
  shows "chain (\<lambda>i. b_next (bh s i)) (\<lambda>i. b_prev (bh s i)) (hash_table s h) (hs h)"
  using assms by (simp add: queues_ok_def)

lemma queues_ok_links:
  assumes "queues_ok U fs hs s" "b \<in> U"
  shows "b_next (bh s b) \<noteq> Some b" "b_prev (bh s b) \<noteq> Some b"
    "h < NR_HASH \<Longrightarrow> h \<noteq> hash_of b s \<Longrightarrow> b_next (bh s b) = Some q \<Longrightarrow> q \<notin> set (hs h)"
    "h < NR_HASH \<Longrightarrow> h \<noteq> hash_of b s \<Longrightarrow> b_prev (bh s b) = Some q \<Longrightarrow> q \<notin> set (hs h)"
    "hash_table s (hash_of b s) = Some b \<Longrightarrow> b_dev (bh s b) \<noteq> 0"
proof -
  let ?h = "hash_of b s"
  note c = queues_ok_chain [OF assms(1) hash_of_less, of b s]
  have z: "b_next (bh s b) = None" "b_prev (bh s b) = None" if "b_dev (bh s b) = 0"
    using assms that by (auto simp: queues_ok_def)
  have m: "b \<in> set (hs ?h)" if "b_dev (bh s b) \<noteq> 0"
    using assms that by (simp add: queues_ok_hashed [OF assms(1) hash_of_less])
  show "b_next (bh s b) \<noteq> Some b" "b_prev (bh s b) \<noteq> Some b"
    using z m chain_neighbour_mem(3,4) [OF c] by fastforce+
  show "q \<notin> set (hs h)" if "h < NR_HASH" "h \<noteq> ?h" "b_next (bh s b) = Some q" for h q
    using chain_neighbour_mem(1) [OF c m that(3)] z that queues_ok_hashed [OF assms(1) that(1)]
      queues_ok_hashed [OF assms(1) hash_of_less] by (metis option.distinct(1))
  show "q \<notin> set (hs h)" if "h < NR_HASH" "h \<noteq> ?h" "b_prev (bh s b) = Some q" for h q
    using chain_neighbour_mem(2) [OF c m that(3)] z that queues_ok_hashed [OF assms(1) that(1)]
      queues_ok_hashed [OF assms(1) hash_of_less] by (metis option.distinct(1))
  show "b_dev (bh s b) \<noteq> 0" if "hash_table s ?h = Some b"
  proof -
    have "b \<in> set (hs ?h)" using c that by (cases "hs ?h") (auto simp: chain_def)
    then show ?thesis by (simp add: queues_ok_hashed [OF assms(1) hash_of_less])
  qed
qed

lemma free_neighbours:
  assumes "queues_ok U fs hs s" "fs = as @ b # bs" "as @ bs \<noteq> []"
  shows "b_next_free (bh s b) = Some (hd (bs @ as))" "b_prev_free (bh s b) = Some (last (bs @ as))"
    "ring ((\<lambda>i. b_next_free (bh s i))(last (bs @ as) := Some (hd (bs @ as)))) (as @ bs)"
    "ring ((\<lambda>i. b_prev_free (bh s i))(hd (bs @ as) := Some (last (bs @ as)))) (rev (as @ bs))"
proof -
  have f: "ring (\<lambda>i. b_next_free (bh s i)) (as @ b # bs)" and g: "ring (\<lambda>i. b_prev_free (bh s i)) (rev (as @ b # bs))"
    using assms(1,2) by (auto simp: queues_ok_def)
  show n: "b_next_free (bh s b) = Some (hd (bs @ as))"
    using ring_succ [OF f] assms(3) by (cases bs; cases as) auto
  show q: "b_prev_free (bh s b) = Some (last (bs @ as))"
    using ring_rev_prev [OF g] assms(3) by auto
  show "ring ((\<lambda>i. b_next_free (bh s i))(last (bs @ as) := Some (hd (bs @ as)))) (as @ bs)"
    using ring_drop [OF f assms(3)] n by simp
  have "last (rev as @ rev bs) = hd (bs @ as)"
    using assms(3) by (cases "bs = []") (auto simp: last_rev last_append)
  then show "ring ((\<lambda>i. b_prev_free (bh s i))(hd (bs @ as) := Some (last (bs @ as)))) (rev (as @ bs))"
    using ring_drop [of "\<lambda>i. b_prev_free (bh s i)" "rev bs" b "rev as"] g q assms(3) by auto
qed

lemma removed_chain:
  assumes ok: "queues_ok U fs hs s" and b: "b \<in> U" and h: "h < NR_HASH"
  shows "chain (link (\<lambda>i. b_next (bh s i)) (b_prev (bh s b)) (b_next (bh s b)))
      (link (\<lambda>i. b_prev (bh s i)) (b_next (bh s b)) (b_prev (bh s b)))
      ((if hash_table s (hash_of b s) = Some b then (hash_table s)(hash_of b s := b_next (bh s b)) else hash_table s) h)
      (removeAll b (hs h))"
proof (cases "h = hash_of b s")
  case False
  then have "b \<notin> set (hs h)" using queues_ok_hashed [OF ok h] by simp
  then show ?thesis
    using False chain_link [OF queues_ok_chain [OF ok h]] queues_ok_links(3,4) [OF ok b h False] by simp
next
  case True
  note c = queues_ok_chain [OF ok h]
  show ?thesis
  proof (cases "b \<in> set (hs h)")
    case mem: True
    obtain cs ds where x: "hs h = cs @ b # ds" using mem by (meson split_list)
    then have "removeAll b (hs h) = cs @ ds" using c by (auto simp: chain_def removeAll_id)
    then show ?thesis using chain_drop [OF c [unfolded x]] True by (auto split: if_splits)
  next
    case mem: False
    then have "b_dev (bh s b) = 0" using queues_ok_hashed [OF ok h, of b] b True by simp
    then have "b_next (bh s b) = None" "b_prev (bh s b) = None" "hash_table s (hash_of b s) \<noteq> Some b"
      using ok b queues_ok_links(5) [OF ok b] by (auto simp: queues_ok_def)
    then show ?thesis using c mem True by (simp add: link_def)
  qed
qed

text \<open>Removing a buffer takes it out of the ring and out of its chain and changes nothing but links.\<close>

lemma remove_from_queues_ok:
  assumes ok: "queues_ok U fs hs s" and b: "b \<in> U" "U \<noteq> {b}"
  shows "\<exists>s'. remove_from_queues b s = Ok () s' \<and> relinked s s' \<and>
    queues_ok (U - {b}) (removeAll b fs) (\<lambda>h. removeAll b (hs h)) s'"
proof -
  have dist: "distinct fs" and U: "set fs = U" using ok by (auto simp: queues_ok_def ring_def)
  obtain as bs where fs: "fs = as @ b # bs" using b U by (metis split_list)
  have ne: "as @ bs \<noteq> []" using b(2) U fs by auto
  have rm: "removeAll b fs = as @ bs" using dist fs by (auto simp: removeAll_id)
  note fn = free_neighbours [OF ok fs ne]
  have mem: "last (bs @ as) \<noteq> b" "hd (bs @ as) \<noteq> b"
    using dist fs ne last_in_set [of "bs @ as"] hd_in_set [of "bs @ as"] by auto
  obtain s' where s': "remove_from_queues b s = Ok () s'" "relinked s s'"
    "(\<lambda>i. b_next (bh s' i)) = link (\<lambda>i. b_next (bh s i)) (b_prev (bh s b)) (b_next (bh s b))"
    "(\<lambda>i. b_prev (bh s' i)) = link (\<lambda>i. b_prev (bh s i)) (b_next (bh s b)) (b_prev (bh s b))"
    "(\<lambda>i. b_next_free (bh s' i)) = (\<lambda>i. b_next_free (bh s i))(last (bs @ as) := Some (hd (bs @ as)))"
    "(\<lambda>i. b_prev_free (bh s' i)) = (\<lambda>i. b_prev_free (bh s i))(hd (bs @ as) := Some (last (bs @ as)))"
    "free_list s' = (if free_list s = b then hd (bs @ as) else free_list s)"
    "hash_table s' = (if hash_table s (hash_of b s) = Some b
      then (hash_table s)(hash_of b s := b_next (bh s b)) else hash_table s)"
    using remove_links [OF queues_ok_links(1,2) [OF ok b(1)] fn(2,1) mem] by blast
  have dev: "b_dev (bh s' i) = b_dev (bh s i)" "b_blocknr (bh s' i) = b_blocknr (bh s i)" "hash_of i s' = hash_of i s" for i
    using relinked_core [OF s'(2), of i] relinked_hash_of [OF s'(2)] by (auto simp: core_def)
  have "free_list s' = hd (as @ bs)"
    using s'(7) ok fs dist ne by (cases as) (auto simp: queues_ok_def)
  moreover have "b_next (bh s' i) = None \<and> b_prev (bh s' i) = None" if "i \<in> U - {b}" "b_dev (bh s i) = 0" for i
  proof -
    have z: "b_next (bh s i) = None" "b_prev (bh s i) = None" using ok that by (auto simp: queues_ok_def)
    have "q \<noteq> i" if "b_next (bh s b) = Some q \<or> b_prev (bh s b) = Some q" for q
    proof -
      have "b_dev (bh s b) \<noteq> 0" using ok b(1) that by (auto simp: queues_ok_def)
      then have "b \<in> set (hs (hash_of b s))" using b by (simp add: queues_ok_hashed [OF ok hash_of_less])
      then have "q \<in> set (hs (hash_of b s))"
        using chain_neighbour_mem(1,2) [OF queues_ok_chain [OF ok hash_of_less]] that by blast
      then show ?thesis using \<open>b_dev (bh s i) = 0\<close> by (auto simp: queues_ok_hashed [OF ok hash_of_less])
    qed
    then show ?thesis
      using z fun_cong [OF s'(3), of i] fun_cong [OF s'(4), of i] by (auto simp: link_def split: option.splits)
  qed
  ultimately have "queues_ok (U - {b}) (as @ bs) (\<lambda>h. removeAll b (hs h)) s'"
    using fn(3,4) s'(3-6) removed_chain [OF ok b(1)] ok U dist fs
    by (auto simp: queues_ok_def dev s'(8))
  then show ?thesis using s'(1,2) rm by auto
qed

section \<open>Insertion\<close>

lemma ring_cons:
  assumes "ring f xs" "b \<notin> set xs" "f b = Some (hd xs)"
  shows "ring (f(last xs := Some b)) (b # xs)"
proof -
  have "xs \<noteq> []" "distinct xs" "walk f (Some (hd xs)) xs (Some (hd xs))" using assms(1) by (auto simp: ring_def)
  moreover from this have "last xs \<noteq> b" using assms(2) last_in_set by blast
  ultimately show ?thesis
    using assms walk_redirect [of xs f "Some (hd xs)" "Some (hd xs)" "Some b"] by (auto simp: ring_def)
qed

lemma chain_cons:
  assumes "chain f g p xs" "b \<notin> set xs" "f b = p" "g b = None"
  shows "chain f (link g p (Some b)) (Some b) (b # xs)"
proof (cases xs)
  case Nil
  then show ?thesis using assms by (auto simp: chain_def link_def)
next
  case (Cons y ys)
  then have p: "p = Some y" and d: "distinct (rev xs)" using assms(1) by (auto simp: chain_def)
  have "walk g (Some (last xs)) (rev xs) None" using assms(1) Cons by (simp add: chain_def)
  from walk_redirect [OF _ d this, of "Some b"] have "walk (g(y \<mapsto> b)) (Some (last xs)) (rev xs) (Some b)"
    using Cons by (simp add: last_rev)
  moreover have "y \<noteq> b" using assms(2) Cons by auto
  ultimately show ?thesis using assms Cons p by (auto simp: chain_def link_def walk_append)
qed

text \<open>
  The effect of an insertion, with \<open>l\<close> the last buffer of the ring. When the hash chain was empty, the
  last assignment of the C function writes through NULL: word 4 of physical memory, an entry of the
  page directory, receives the address of the buffer head.
\<close>

definition relinked_pm :: "'z bc_st_scheme \<Rightarrow> 'z bc_st_scheme \<Rightarrow> bool" where
  "relinked_pm s t \<longleftrightarrow> (\<exists>s0 v. relinked s s0 \<and> (t = s0 \<or> t = stl 16 v s0))"

lemma relinked_pm_core: "relinked_pm s t \<Longrightarrow> core (bh t i) = core (bh s i)"
  by (auto simp: relinked_pm_def relinked_def)

lemma insert_links:
  assumes "b_prev_free (bh s (free_list s)) = Some l" "free_list s \<noteq> b"
  shows "(\<lambda>i. b_next_free (bh (insert_into_queues b s) i)) = (\<lambda>i. b_next_free (bh s i))(b := Some (free_list s), l := Some b) \<and>
    (\<lambda>i. b_prev_free (bh (insert_into_queues b s) i)) = (\<lambda>i. b_prev_free (bh s i))(b := Some l, free_list s := Some b) \<and>
    free_list (insert_into_queues b s) = free_list s \<and> relinked_pm s (insert_into_queues b s) \<and>
    (b_dev (bh s b) = 0 \<longrightarrow>
       (\<lambda>i. b_next (bh (insert_into_queues b s) i)) = (\<lambda>i. b_next (bh s i))(b := None) \<and>
       (\<lambda>i. b_prev (bh (insert_into_queues b s) i)) = (\<lambda>i. b_prev (bh s i))(b := None) \<and>
       hash_table (insert_into_queues b s) = hash_table s) \<and>
    (b_dev (bh s b) \<noteq> 0 \<longrightarrow>
       (\<lambda>i. b_next (bh (insert_into_queues b s) i)) = (\<lambda>i. b_next (bh s i))(b := hash_table s (hash_of b s)) \<and>
       (\<lambda>i. b_prev (bh (insert_into_queues b s) i)) =
         link ((\<lambda>i. b_prev (bh s i))(b := None)) (hash_table s (hash_of b s)) (Some b) \<and>
       hash_table (insert_into_queues b s) = (hash_table s)(hash_of b s := Some b))"
proof -
  define s1 where "s1 = set_next_free (Some b) (Some (free_list s)) s"
  define s2 where "s2 = set_prev_free (Some b) (Some l) s1"
  define s3 where "s3 = set_next_free (Some l) (Some b) s2"
  define s4 where "s4 = set_prev_free (Some (free_list s)) (Some b) s3"
  define s6 where "s6 = set_b_next (Some b) None (set_b_prev (Some b) None s4)"
  have fl: "free_list s1 = free_list s" "free_list s2 = free_list s" "free_list s3 = free_list s" "free_list s4 = free_list s"
    by (simp_all add: s1_def s2_def s3_def s4_def)
  have l: "b_prev_free (bh s1 (free_list s)) = Some l" "b_prev_free (bh s2 (free_list s)) = Some l"
    using assms fun_cong [OF set_prev_free_link(5), of b "Some l" s1 "free_list s"] by (simp_all add: s1_def s2_def)
  have r6: "relinked s s6"
    unfolding s6_def s4_def s3_def s2_def s1_def by (intro relinked_steps relinked_refl)
  have l6: "(\<lambda>i. b_next_free (bh s6 i)) = (\<lambda>i. b_next_free (bh s i))(b := Some (free_list s), l := Some b)"
    "(\<lambda>i. b_prev_free (bh s6 i)) = (\<lambda>i. b_prev_free (bh s i))(b := Some l, free_list s := Some b)"
    "(\<lambda>i. b_next (bh s6 i)) = (\<lambda>i. b_next (bh s i))(b := None)"
    "(\<lambda>i. b_prev (bh s6 i)) = (\<lambda>i. b_prev (bh s i))(b := None)"
    "free_list s6 = free_list s" "hash_table s6 = hash_table s"
    by (simp_all add: s6_def s4_def s3_def s2_def s1_def)
  have d6: "b_dev (bh s6 b) = b_dev (bh s b)" "hash_of b s6 = hash_of b s"
    using relinked_core [OF r6, of b] relinked_hash_of [OF r6] by (auto simp: core_def)
  have ins: "insert_into_queues b s = (if b_dev (bh s6 b) = 0 then s6 else
       let s7 = set_b_next (Some b) (hash_table s6 (hash_of b s6)) s6;
           s8 = set_hash (hash_of b s7) (Some b) s7
       in set_b_prev (b_next (bh s8 b)) (Some b) s8)"
    unfolding insert_into_queues_def Let_def s1_def [symmetric] fl l s2_def [symmetric] s3_def [symmetric]
      s4_def [symmetric] s6_def [symmetric] ..
  define s7 where "s7 = set_b_next (Some b) (hash_table s (hash_of b s)) s6"
  define s8 where "s8 = set_hash (hash_of b s) (Some b) s7"
  have r8: "relinked s s8" unfolding s8_def s7_def by (intro relinked_steps r6)
  have "relinked s6 s7" by (simp add: s7_def)
  then have h7: "hash_of b s7 = hash_of b s" using d6 by (simp add: relinked_hash_of)
  have "(\<lambda>i. b_next (bh s7 i)) = (\<lambda>i. b_next (bh s6 i))(b := hash_table s (hash_of b s))" by (simp add: s7_def)
  from fun_cong [OF this, of b] have n8: "b_next (bh s8 b) = hash_table s (hash_of b s)" by (simp add: s8_def)
  have ins': "insert_into_queues b s = (if b_dev (bh s b) = 0 then s6 else set_b_prev (hash_table s (hash_of b s)) (Some b) s8)"
    unfolding ins d6 l6(6) s7_def [symmetric] Let_def h7 s8_def [symmetric] n8 ..
  show ?thesis
  proof (cases "b_dev (bh s b) = 0")
    case True
    then have "insert_into_queues b s = s6" using ins' by simp
    moreover have "relinked_pm s s6" using r6 by (auto simp: relinked_pm_def)
    ultimately show ?thesis using l6 True by simp
  next
    case False
    have rel: "relinked_pm s (set_b_prev (hash_table s (hash_of b s)) (Some b) s8)"
    proof (cases "hash_table s (hash_of b s)")
      case None
      then show ?thesis using r8 by (auto simp: set_b_prev_def relinked_pm_def)
    next
      case (Some a)
      then have "relinked s (set_b_prev (hash_table s (hash_of b s)) (Some b) s8)"
        by (simp only: relinked_steps r8)
      then show ?thesis by (auto simp: relinked_pm_def)
    qed
    have l8: "(\<lambda>i. b_next (bh s8 i)) = (\<lambda>i. b_next (bh s i))(b := hash_table s (hash_of b s))"
      "(\<lambda>i. b_prev (bh s8 i)) = (\<lambda>i. b_prev (bh s i))(b := None)"
      "(\<lambda>i. b_next_free (bh s8 i)) = (\<lambda>i. b_next_free (bh s i))(b := Some (free_list s), l := Some b)"
      "(\<lambda>i. b_prev_free (bh s8 i)) = (\<lambda>i. b_prev_free (bh s i))(b := Some l, free_list s := Some b)"
      "free_list s8 = free_list s" "hash_table s8 = (hash_table s)(hash_of b s := Some b)"
      using l6 by (simp_all add: s8_def s7_def)
    show ?thesis
    proof (cases "hash_table s (hash_of b s)")
      case None
      then show ?thesis unfolding ins' using False l8 rel by (simp add: set_b_prev_def link_def)
    next
      case (Some a)
      then show ?thesis unfolding ins' using False l8 rel by (simp add: link_def)
    qed
  qed
qed

text \<open>
  Inserting a buffer that no other buffer in the queues duplicates keeps the invariant: it becomes
  the last of the free list and, if it has a device, the first of its chain.
\<close>

lemma insert_into_queues_ok:
  assumes ok: "queues_ok U fs hs s" and b: "b \<notin> U"
    and new: "\<And>c. c \<in> U \<Longrightarrow> b_dev (bh s b) \<noteq> 0 \<Longrightarrow> b_dev (bh s c) = b_dev (bh s b) \<Longrightarrow>
      b_blocknr (bh s c) \<noteq> b_blocknr (bh s b)"
  shows "queues_ok (insert b U) (fs @ [b])
      (if b_dev (bh s b) = 0 then hs else hs(hash_of b s := b # hs (hash_of b s))) (insert_into_queues b s)"
proof -
  let ?t = "insert_into_queues b s" and ?h = "hash_of b s"
  have U: "set fs = U" and fl: "free_list s = hd fs" and ne: "fs \<noteq> []"
    and f: "ring (\<lambda>i. b_next_free (bh s i)) fs" and g: "ring (\<lambda>i. b_prev_free (bh s i)) (rev fs)"
    using ok by (auto simp: queues_ok_def ring_def)
  have flb: "free_list s \<noteq> b" using b U fl ne hd_in_set [of fs] by auto
  have "b_prev_free (bh s (free_list s)) = Some (last fs)"
    using g ring_rev_prev [of "\<lambda>i. b_prev_free (bh s i)" "[]" "hd fs" "tl fs"] fl ne by simp
  note il = insert_links [OF this flb, unfolded fl]
  note links = conjunct1 [OF il] conjunct2 [OF il, THEN conjunct1] conjunct2 [OF il, THEN conjunct2, THEN conjunct1]
    conjunct2 [OF il, THEN conjunct2, THEN conjunct2, THEN conjunct1]
  note cases = conjunct2 [OF il, THEN conjunct2, THEN conjunct2, THEN conjunct2]
  note z = conjunct1 [OF cases, THEN mp] and nz = conjunct2 [OF cases, THEN mp]
  have "core (bh ?t i) = core (bh s i)" for i
    by (rule relinked_pm_core [OF links(4)])
  then have dev: "b_dev (bh ?t i) = b_dev (bh s i)" "b_blocknr (bh ?t i) = b_blocknr (bh s i)" "hash_of i ?t = hash_of i s" for i
    by (auto simp: core_def intro: hash_of_core)
  have rings: "ring (\<lambda>i. b_next_free (bh ?t i)) (fs @ [b])" "ring (\<lambda>i. b_prev_free (bh ?t i)) (rev (fs @ [b]))"
  proof -
    let ?f = "(\<lambda>i. b_next_free (bh s i))(b := Some (hd fs))" and ?g = "(\<lambda>i. b_prev_free (bh s i))(b := Some (last fs))"
    have "ring ?f fs" "ring ?g (rev fs)"
      using f g b U ring_cong [of fs ?f "\<lambda>i. b_next_free (bh s i)"] ring_cong [of "rev fs" ?g "\<lambda>i. b_prev_free (bh s i)"]
      by auto
    then show "ring (\<lambda>i. b_next_free (bh ?t i)) (fs @ [b])" "ring (\<lambda>i. b_prev_free (bh ?t i)) (rev (fs @ [b]))"
      using ring_snoc [of ?f fs b] ring_cons [of ?g "rev fs" b] b U ne
      unfolding links(1,2) by (simp_all add: hd_rev last_rev)
  qed
  let ?hs = "if b_dev (bh s b) = 0 then hs else hs(?h := b # hs ?h)"
  have nb: "b \<notin> set (hs h)" if "h < NR_HASH" for h using queues_ok_hashed [OF ok that] b by simp
  have upd: "chain (f(b := x)) (g(b := y)) p (hs h)" if "chain f g p (hs h)" "h < NR_HASH" for f g p x y h
    using that nb [OF that(2)] by (simp add: chain_def)
  have chains: "chain (\<lambda>i. b_next (bh ?t i)) (\<lambda>i. b_prev (bh ?t i)) (hash_table ?t h) (?hs h)" if h: "h < NR_HASH" for h
  proof (cases "b_dev (bh s b) = 0")
    case True
    then show ?thesis using z upd [OF queues_ok_chain [OF ok h] h] by simp
  next
    case False
    show ?thesis
    proof (cases "h = ?h")
      case True
      then show ?thesis
        using False nz chain_cons [OF upd [OF queues_ok_chain [OF ok h] h] nb [OF h]] by simp
    next
      case ne: False
      have "q \<notin> set (hs h)" if "hash_table s ?h = Some q" for q
      proof -
        have "q \<in> set (hs ?h)" using queues_ok_chain [OF ok hash_of_less, of b s] that
          by (cases "hs ?h") (auto simp: chain_def)
        then show ?thesis using ne by (simp add: queues_ok_hashed [OF ok h] queues_ok_hashed [OF ok hash_of_less])
      qed
      then have "chain (link ((\<lambda>i. b_next (bh s i))(b := hash_table s ?h)) None None)
          (link ((\<lambda>i. b_prev (bh s i))(b := None)) (hash_table s ?h) (Some b)) (hash_table s h) (hs h)"
        by (intro chain_link upd queues_ok_chain [OF ok h] h) auto
      then show ?thesis using False ne nz by (simp add: link_def [of _ None])
    qed
  qed
  have members: "set (?hs h) = {c \<in> insert b U. b_dev (bh s c) \<noteq> 0 \<and> hash_of c s = h}" if "h < NR_HASH" for h
    using queues_ok_hashed [OF ok that] b by auto
  have nodev: "b_next (bh ?t c) = None \<and> b_prev (bh ?t c) = None" if c: "c \<in> insert b U" "b_dev (bh s c) = 0" for c
  proof (cases "b_dev (bh s b) = 0")
    case True
    have "b_next (bh s c) = None \<and> b_prev (bh s c) = None" if "c \<noteq> b" using ok c that by (auto simp: queues_ok_def)
    then show ?thesis
      using fun_cong [OF conjunct1 [OF z [OF True]], of c] fun_cong [OF z [OF True, THEN conjunct2, THEN conjunct1], of c]
      by auto
  next
    case False
    then have cb: "c \<noteq> b" using c by auto
    then have n: "b_next (bh s c) = None" "b_prev (bh s c) = None" using ok c by (auto simp: queues_ok_def)
    have "hash_table s ?h \<noteq> Some c"
    proof
      assume "hash_table s ?h = Some c"
      then have "c \<in> set (hs ?h)" using queues_ok_chain [OF ok hash_of_less, of b s]
        by (cases "hs ?h") (auto simp: chain_def)
      then show False using c by (simp add: queues_ok_hashed [OF ok hash_of_less])
    qed
    then show ?thesis
      using n cb fun_cong [OF conjunct1 [OF nz [OF False]], of c]
        fun_cong [OF nz [OF False, THEN conjunct2, THEN conjunct1], of c]
      by (auto simp: link_def split: option.splits)
  qed
  have old: "c = d" if "c \<in> U" "d \<in> U" "b_dev (bh s d) \<noteq> 0" "b_dev (bh s c) = b_dev (bh s d)"
      "b_blocknr (bh s c) = b_blocknr (bh s d)" for c d
    using ok that by (simp add: queues_ok_def)
  have uniq: "c = d" if "d \<in> insert b U" "c \<in> insert b U" "b_dev (bh s d) \<noteq> 0" "b_dev (bh s c) = b_dev (bh s d)"
      "b_blocknr (bh s c) = b_blocknr (bh s d)" for c d
  proof (cases "c = b \<or> d = b")
    case True
    have "False" if "e \<in> U" "b_dev (bh s b) \<noteq> 0" "b_dev (bh s e) = b_dev (bh s b)"
        "b_blocknr (bh s e) = b_blocknr (bh s b)" for e
      using new [OF that(1-3)] that(4) by (rule notE)
    with True that show ?thesis by (metis insertE)
  next
    case False
    then show ?thesis using that by (intro old) simp_all
  qed
  show ?thesis
    unfolding queues_ok_def dev
  proof (intro conjI allI ballI impI)
    show "set (fs @ [b]) = insert b U" "free_list ?t = hd (fs @ [b])" using U ne links(3) by simp_all
  qed (fact rings chains members | rule conjunct1 [OF nodev] conjunct2 [OF nodev] uniq; assumption)+
qed

section \<open>Searching\<close>

lemma find_from_walk:
  assumes "walk (\<lambda>i. b_next (bh s i)) p xs None"
  shows "find_from dev block s p =
    Some (find (\<lambda>b. uint (b_dev (bh s b)) = dev \<and> uint (b_blocknr (bh s b)) = block) xs)"
  using assms by (induction xs arbitrary: p) (subst find_from.simps; auto)+

text \<open>The search ends and finds the buffer of the block, if one is in the queues.\<close>

lemma find_buffer_ok:
  assumes ok: "queues_ok U fs hs s"
  shows "\<exists>r. find_buffer dev block s = Some r \<and>
    (\<forall>b. r = Some b \<longleftrightarrow> b \<in> U \<and> dev \<noteq> 0 \<and> uint (b_dev (bh s b)) = dev \<and> uint (b_blocknr (bh s b)) = block)"
proof -
  let ?P = "\<lambda>b. uint (b_dev (bh s b)) = dev \<and> uint (b_blocknr (bh s b)) = block"
  let ?h = "hashfn dev block"
  have w: "find_buffer dev block s = Some (find ?P (hs ?h))"
    using find_from_walk [of s "hash_table s ?h" "hs ?h"] queues_ok_chain [OF ok hashfn_less, of dev block]
    by (simp add: find_buffer_def chain_def)
  have mem: "b \<in> set (hs ?h) \<longleftrightarrow> b \<in> U \<and> dev \<noteq> 0" if "?P b" for b
    using queues_ok_hashed [OF ok hashfn_less, of b dev block] that by (auto simp: hash_of_def unsigned_eq_0_iff)
  have uniq: "c = b" if "b \<in> U" "c \<in> U" "dev \<noteq> 0" "?P b" "?P c" for b c
  proof -
    have "b_dev (bh s c) = b_dev (bh s b)" "b_blocknr (bh s c) = b_blocknr (bh s b)" "b_dev (bh s b) \<noteq> 0"
      using that by (auto intro: word_uint_eqI)
    then show ?thesis using ok that(1,2) unfolding queues_ok_def by blast
  qed
  have "find ?P (hs ?h) = Some b \<longleftrightarrow> b \<in> U \<and> dev \<noteq> 0 \<and> ?P b" for b
  proof
    assume "find ?P (hs ?h) = Some b"
    then have "b \<in> set (hs ?h)" "?P b" by (auto simp: find_Some_iff)
    then show "b \<in> U \<and> dev \<noteq> 0 \<and> ?P b" using mem by blast
  next
    assume b: "b \<in> U \<and> dev \<noteq> 0 \<and> ?P b"
    then have "find ?P (hs ?h) \<noteq> None" using mem by (auto simp: find_None_iff)
    then obtain c where c: "find ?P (hs ?h) = Some c" by blast
    then have "c \<in> set (hs ?h)" "?P c" by (auto simp: find_Some_iff)
    then have "c = b" using mem b uniq by blast
    then show "find ?P (hs ?h) = Some b" using c by simp
  qed
  then show ?thesis using w by blast
qed

end
