(* ===== verification/Hd.thy ===== *)
theory Hd
  imports Buffer_Queue
begin

text \<open>
  The hard-disk driver \<open>kernel/hd.c\<close>, with the constants of \<open>include/linux/hdreg.h\<close> and
  \<open>include/linux/config.h\<close>, and the dispatch of \<open>fs/block_dev.c\<close> to it.

  The controller is hardware and a parameter: \<open>hd_inb h p\<close> is the byte that port \<open>p\<close> gives and
  \<open>hd_insw h\<close> the sector that the data port gives after the port accesses \<open>h\<close>, so that any
  deterministic controller is covered. \<open>hd_hist\<close> records the accesses. \<open>window\<close> is the memory from
  0xA0000 on, above the buffers of the lower 640 KB.

  A task that sleeps in the driver is modelled while the disk works and no other task runs: until the
  sleeper is woken, the handler \<open>do_hd\<close> is called for the next interrupt. When no interrupt is
  outstanding the outcome is \<open>Sleep\<close>. A handler that runs without a request dereferences NULL; this is
  the outcome \<open>Hang\<close>, which the lemmas exclude.

  The lemmas compute a whole transfer on a controller that behaves as documented (\<open>good_drive\<close>): a
  read fills the buffer with the two sectors of the block, a write stores them, and in both cases the
  request list is empty again and nothing else of the kernel has changed.
\<close>

section \<open>Constants\<close>

definition READ :: int where "READ = 0"
definition WRITE :: int where "WRITE = 1"
definition MAX_ERRORS :: int where "MAX_ERRORS = 5"
definition NR_REQUEST :: nat where "NR_REQUEST = 32"
definition NR_HD :: nat where "NR_HD = 1"

text \<open>\<open>HD_TYPE { 4,20,1024,0,4,0 }\<close> and the values that \<open>hd_out\<close> sends.\<close>

definition hd_head :: u32 where "hd_head = 4"
definition hd_sect :: u32 where "hd_sect = 20"
definition hd_cyl :: u32 where "hd_cyl = 1024"
definition HD_DATA :: u16 where "HD_DATA = 0x1f0"
definition HD_ERROR :: u16 where "HD_ERROR = 0x1f1"
definition HD_NSECTOR :: u16 where "HD_NSECTOR = 0x1f2"
definition HD_SECTOR :: u16 where "HD_SECTOR = 0x1f3"
definition HD_LCYL :: u16 where "HD_LCYL = 0x1f4"
definition HD_HCYL :: u16 where "HD_HCYL = 0x1f5"
definition HD_CURRENT :: u16 where "HD_CURRENT = 0x1f6"
definition HD_STATUS :: u16 where "HD_STATUS = 0x1f7"
definition HD_COMMAND :: u16 where "HD_COMMAND = HD_STATUS"
definition HD_CMD :: u16 where "HD_CMD = 0x3f6"
definition ERR_STAT :: u8 where "ERR_STAT = 1"
definition DRQ_STAT :: u8 where "DRQ_STAT = 8"
definition SEEK_STAT :: u8 where "SEEK_STAT = 0x10"
definition WRERR_STAT :: u8 where "WRERR_STAT = 0x20"
definition READY_STAT :: u8 where "READY_STAT = 0x40"
definition BUSY_STAT :: u8 where "BUSY_STAT = 0x80"
definition WIN_READ :: u8 where "WIN_READ = 0x20"
definition WIN_WRITE :: u8 where "WIN_WRITE = 0x30"
definition WIN_SPECIFY :: u8 where "WIN_SPECIFY = 0x91"

lemmas hdreg_defs = HD_DATA_def HD_ERROR_def HD_NSECTOR_def HD_SECTOR_def HD_LCYL_def HD_HCYL_def
  HD_CURRENT_def HD_STATUS_def HD_COMMAND_def HD_CMD_def
lemmas stat_defs = ERR_STAT_def DRQ_STAT_def SEEK_STAT_def WRERR_STAT_def READY_STAT_def BUSY_STAT_def
lemmas win_defs = WIN_READ_def WIN_WRITE_def WIN_SPECIFY_def

section \<open>State\<close>

record hd_request =
  rq_hd :: int
  nsector :: int
  sector :: u32
  rq_head :: u32
  rq_cyl :: u32
  cmd :: u8
  errors :: int
  rq_bh :: nat
  rq_next :: "nat option"

datatype hd_event = Outb u8 u16 | Inb u16 | Insw | Outsw "u8 list"
datatype hd_handler = No_handler | Read_intr | Write_intr | Do_request

record hd_st = bc_st +
  start_sect :: "nat \<Rightarrow> u32"
  nr_sects :: "nat \<Rightarrow> u32"
  request :: "nat \<Rightarrow> hd_request"
  this_request :: "nat option"
  sorting :: bool
  do_hd :: hd_handler
  wait_for_request :: nat
  hd_hist :: "hd_event list"
  hd_inb :: "hd_event list \<Rightarrow> u16 \<Rightarrow> u8"
  hd_insw :: "hd_event list \<Rightarrow> nat \<Rightarrow> u8"
  window :: "nat \<Rightarrow> u8"

definition upd_rq :: "nat \<Rightarrow> (hd_request \<Rightarrow> hd_request) \<Rightarrow> 'z hd_st_scheme \<Rightarrow> 'z hd_st_scheme" where
  "upd_rq i f s = s\<lparr>request := (request s)(i := f (request s i))\<rparr>"

definition b_wait_q :: "nat \<Rightarrow> 'z hd_st_scheme wait_queue" where
  "b_wait_q b = Some (\<lambda>s. b_wait (bh s b), \<lambda>v. upd_bh b (\<lambda>x. x\<lparr>b_wait := v\<rparr>))"

definition request_q :: "'z hd_st_scheme wait_queue" where
  "request_q = Some (wait_for_request, \<lambda>v s. s\<lparr>wait_for_request := v\<rparr>)"

section \<open>Ports\<close>

definition inb :: "u16 \<Rightarrow> 'z hd_st_scheme \<Rightarrow> u8 \<times> 'z hd_st_scheme" where
  "inb p s = (hd_inb s (hd_hist s) p, s\<lparr>hd_hist := hd_hist s @ [Inb p]\<rparr>)"

definition outb :: "u8 \<Rightarrow> u16 \<Rightarrow> 'z hd_st_scheme \<Rightarrow> 'z hd_st_scheme" where
  "outb v p s = s\<lparr>hd_hist := hd_hist s @ [Outb v p]\<rparr>"

definition port_read :: "nat \<Rightarrow> nat \<Rightarrow> 'z hd_st_scheme \<Rightarrow> 'z hd_st_scheme" where
  "port_read b off s =
     (upd_bh b (\<lambda>x. x\<lparr>b_data := \<lambda>k. if off \<le> k \<and> k < off + 512 then hd_insw s (hd_hist s) (k - off)
                                   else b_data x k\<rparr>) s)\<lparr>hd_hist := hd_hist s @ [Insw]\<rparr>"

definition port_write :: "nat \<Rightarrow> nat \<Rightarrow> 'z hd_st_scheme \<Rightarrow> 'z hd_st_scheme" where
  "port_write b off s = s\<lparr>hd_hist := hd_hist s @ [Outsw (map (b_data (bh s b)) [off..<off + 512])]\<rparr>"

definition lock_buffer :: "nat \<Rightarrow> 'z hd_st_scheme \<Rightarrow> 'z hd_st_scheme" where
  "lock_buffer b s =
     upd_bh b (\<lambda>x. x\<lparr>b_lock := 1\<rparr>)
       (if b_lock (bh s b) \<noteq> 0 then printk ''hd.c: buffer multiply locked'' [] s else s)"

definition unlock_buffer :: "nat \<Rightarrow> 'z hd_st_scheme \<Rightarrow> 'z hd_st_scheme" where
  "unlock_buffer b s =
     wake_up (b_wait_q b) (upd_bh b (\<lambda>x. x\<lparr>b_lock := 0\<rparr>)
       (if b_lock (bh s b) = 0 then printk ''hd.c: free buffer being unlocked'' [] s else s))"

section \<open>The controller\<close>

text \<open>The counter \<open>retries\<close> after its decrement.\<close>

fun controller_wait :: "nat \<Rightarrow> 'z hd_st_scheme \<Rightarrow> nat \<times> 'z hd_st_scheme" where
  "controller_wait 0 s = (0, s)"
| "controller_wait (Suc n) s =
     (case inb HD_STATUS s of (v, s) \<Rightarrow> if v AND 0xc0 \<noteq> 0x40 then controller_wait n s else (Suc n, s))"

definition controller_ready :: "'z hd_st_scheme \<Rightarrow> nat \<times> 'z hd_st_scheme" where
  "controller_ready s = controller_wait 999 s"

definition win_result :: "'z hd_st_scheme \<Rightarrow> bool \<times> 'z hd_st_scheme" where
  "win_result s =
     (case inb HD_STATUS s of (i, s) \<Rightarrow>
        if i AND (BUSY_STAT OR READY_STAT OR WRERR_STAT OR SEEK_STAT OR ERR_STAT) = READY_STAT OR SEEK_STAT
        then (False, s)
        else (True, if i AND 1 \<noteq> 0 then snd (inb HD_ERROR s) else s))"

definition hd_out :: "u32 \<Rightarrow> u32 \<Rightarrow> u32 \<Rightarrow> u32 \<Rightarrow> u32 \<Rightarrow> u8 \<Rightarrow> hd_handler \<Rightarrow> 'z hd_st_scheme \<Rightarrow>
    ('z hd_st_scheme, unit) kres" where
  "hd_out drive nsect sect head cyl command intr_addr s =
     (if drive > 1 \<or> head > 15 then Panic ''Trying to write bad sector''
      else case controller_ready s of (ready, s) \<Rightarrow>
        if ready = 0 then Panic ''HD controller not ready''
        else Ok () (outb command HD_COMMAND
               (outb (0xB0 OR ucast (push_bit 4 drive) OR ucast head) HD_CURRENT
               (outb (ucast (drop_bit 8 cyl)) HD_HCYL
               (outb (ucast cyl) HD_LCYL
               (outb (ucast sect) HD_SECTOR
               (outb (ucast nsect) HD_NSECTOR
               (outb 0xff HD_ERROR
               (outb 0 HD_CMD (s\<lparr>do_hd := intr_addr\<rparr>))))))))))"

fun drive_wait :: "nat \<Rightarrow> 'z hd_st_scheme \<Rightarrow> 'z hd_st_scheme" where
  "drive_wait 0 s = s"
| "drive_wait (Suc n) s =
     (case inb HD_STATUS s of (v, s) \<Rightarrow> if READY_STAT = v AND (BUSY_STAT OR READY_STAT) then s else drive_wait n s)"

definition drive_busy :: "'z hd_st_scheme \<Rightarrow> bool \<times> 'z hd_st_scheme" where
  "drive_busy s =
     (case inb HD_STATUS (drive_wait 100000 s) of (i, s) \<Rightarrow>
        if i AND (BUSY_STAT OR READY_STAT OR SEEK_STAT) = READY_STAT OR SEEK_STAT then (False, s)
        else (True, printk ''HD controller times out'' [] s))"

fun reset_wait :: "nat \<Rightarrow> 'z hd_st_scheme \<Rightarrow> 'z hd_st_scheme" where
  "reset_wait 0 s = s"
| "reset_wait (Suc n) s = (case drive_busy s of (busy, s) \<Rightarrow> if busy then reset_wait n s else s)"

definition reset_controller :: "'z hd_st_scheme \<Rightarrow> 'z hd_st_scheme" where
  "reset_controller s =
     (let s1 = reset_wait 10000 (outb 0 HD_CMD (outb 4 HD_CMD s));
          (busy, s2) = drive_busy s1;
          s3 = (if busy then printk ''HD-controller still busy'' [] s2 else s2);
          (i, s4) = inb HD_STATUS s3
      in if i AND ERR_STAT \<noteq> 0 then printk ''HD-controller reset failed: %02x'' [uint i] s4 else s4)"

definition reset_hd :: "u32 \<Rightarrow> 'z hd_st_scheme \<Rightarrow> ('z hd_st_scheme, unit) kres" where
  "reset_hd nr s = hd_out nr 20 20 3 1024 WIN_SPECIFY Do_request (reset_controller s)"

section \<open>Requests and interrupts\<close>

fun drq_wait :: "nat \<Rightarrow> 'z hd_st_scheme \<Rightarrow> bool \<times> 'z hd_st_scheme" where
  "drq_wait 0 s = (False, s)"
| "drq_wait (Suc n) s =
     (case inb HD_STATUS s of (v, s) \<Rightarrow> if v AND DRQ_STAT = 0 then drq_wait n s else (True, s))"

definition do_request :: "'z hd_st_scheme \<Rightarrow> ('z hd_st_scheme, unit) kres" where
  "do_request s =
     (if sorting s then Ok () s
      else case this_request s of None \<Rightarrow> Ok () (s\<lparr>do_hd := No_handler\<rparr>)
      | Some r \<Rightarrow>
         let q = request s r
         in if cmd q = WIN_WRITE
            then bnd (hd_out (word_of_int (rq_hd q)) (word_of_int (nsector q)) (sector q) (rq_head q) (rq_cyl q)
                       (cmd q) Write_intr s)
                   (\<lambda>_ s. case drq_wait 3000 s of (drq, s) \<Rightarrow>
                      if \<not> drq then reset_hd (word_of_int (rq_hd q)) s
                      else Ok () (port_write (rq_bh q) (512 * nat (nsector q AND 1)) s))
            else if cmd q = WIN_READ
            then hd_out (word_of_int (rq_hd q)) (word_of_int (nsector q)) (sector q) (rq_head q) (rq_cyl q)
                   (cmd q) Read_intr s
            else Panic ''unknown hd-command'')"

definition bad_rw_intr :: "nat \<Rightarrow> 'z hd_st_scheme \<Rightarrow> ('z hd_st_scheme, unit) kres" where
  "bad_rw_intr r s =
     (let i = word_of_int (rq_hd (request s r));
          e = errors (request s r);
          s1 = upd_rq r (\<lambda>q. q\<lparr>errors := s32 (e + 1)\<rparr>) s;
          b = rq_bh (request s1 r);
          s2 = (if e \<ge> MAX_ERRORS
                then
                  let t = wake_up request_q (unlock_buffer b (upd_bh b (\<lambda>x. x\<lparr>b_uptodate := 0\<rparr>) s1));
                      t = upd_rq r (\<lambda>q. q\<lparr>rq_hd := -1\<rparr>) t
                  in t\<lparr>this_request := rq_next (request t r)\<rparr>
                else s1)
      in reset_hd i s2)"

text \<open>The common end of both handlers: the request is done and the next one is started.\<close>

definition request_done :: "nat \<Rightarrow> 'z hd_st_scheme \<Rightarrow> ('z hd_st_scheme, unit) kres" where
  "request_done r s =
     (let b = rq_bh (request s r);
          s1 = upd_bh b (\<lambda>x. x\<lparr>b_uptodate := 1, b_dirt := 0\<rparr>) s;
          s2 = unlock_buffer b (wake_up request_q s1);
          s3 = upd_rq r (\<lambda>q. q\<lparr>rq_hd := -1\<rparr>) s2
      in do_request (s3\<lparr>this_request := rq_next (request s3 r)\<rparr>))"

definition read_intr :: "'z hd_st_scheme \<Rightarrow> ('z hd_st_scheme, unit) kres" where
  "read_intr s =
     (case win_result s of (bad, s) \<Rightarrow>
      case this_request s of None \<Rightarrow> Hang
      | Some r \<Rightarrow>
         if bad then bad_rw_intr r s
         else if nsector (request s r) = 2
         then Ok () (port_read (rq_bh (request s r)) 0 (upd_rq r (\<lambda>q. q\<lparr>nsector := nsector q - 1\<rparr>) s))
         else request_done r (upd_rq r (\<lambda>q. q\<lparr>errors := 0\<rparr>) (port_read (rq_bh (request s r)) 512 s)))"

definition write_intr :: "'z hd_st_scheme \<Rightarrow> ('z hd_st_scheme, unit) kres" where
  "write_intr s =
     (case win_result s of (bad, s) \<Rightarrow>
      case this_request s of None \<Rightarrow> Hang
      | Some r \<Rightarrow>
         if bad then bad_rw_intr r s
         else
           let s1 = upd_rq r (\<lambda>q. q\<lparr>nsector := s32 (nsector q - 1)\<rparr>) s
           in if nsector (request s1 r) \<noteq> 0 then Ok () (port_write (rq_bh (request s1 r)) 512 s1)
              else request_done r s1)"

fun run_handler :: "hd_handler \<Rightarrow> 'z hd_st_scheme \<Rightarrow> ('z hd_st_scheme, unit) kres" where
  "run_handler No_handler s = Panic ''Unexpected HD interrupt''"
| "run_handler Read_intr s = read_intr s"
| "run_handler Write_intr s = write_intr s"
| "run_handler Do_request s = do_request s"

definition hd_interrupt :: "'z hd_st_scheme \<Rightarrow> ('z hd_st_scheme, unit) kres" where
  "hd_interrupt s = run_handler (do_hd s) s"

section \<open>Sleeping while the disk works\<close>

fun ended :: "('s, 'a) kres option \<Rightarrow> ('s, 'a) kres" where
  "ended None = Hang"
| "ended (Some r) = r"

partial_function (option) io_loop :: "'z hd_st_scheme \<Rightarrow> ('z hd_st_scheme, unit) kres option" where
  "io_loop s =
     (if state (cur s) = TASK_RUNNING then Some (Ok () s)
      else if do_hd s = No_handler then Some (Sleep s)
      else case hd_interrupt s of Ok u s \<Rightarrow> io_loop s | r \<Rightarrow> Some r)"

definition sleep_io :: "'z hd_st_scheme wait_queue \<Rightarrow> 'z hd_st_scheme \<Rightarrow> ('z hd_st_scheme, unit) kres" where
  "sleep_io p s =
     bnd (sleep_on_enter p s) (\<lambda>tmp s.
       case tmp of None \<Rightarrow> Ok () s
       | Some t \<Rightarrow> bnd (ended (io_loop s)) (\<lambda>_ s. Ok () (sleep_on_leave t s)))"

partial_function (option) wait_loop :: "nat \<Rightarrow> 'z hd_st_scheme \<Rightarrow> ('z hd_st_scheme, unit) kres option" where
  "wait_loop b s =
     (if b_lock (bh s b) = 0 then Some (Ok () s)
      else case sleep_io (b_wait_q b) s of Ok u s \<Rightarrow> wait_loop b s | r \<Rightarrow> Some r)"

definition wait_on_buffer :: "nat \<Rightarrow> 'z hd_st_scheme \<Rightarrow> ('z hd_st_scheme, unit) kres" where
  "wait_on_buffer b s = ended (wait_loop b s)"

section \<open>Queueing a request\<close>

definition IN_ORDER :: "hd_request \<Rightarrow> hd_request \<Rightarrow> bool" where
  "IN_ORDER s1 s2 \<longleftrightarrow>
     (rq_hd s1 < rq_hd s2 \<or> rq_hd s1 = rq_hd s2) \<and>
     ((sint (rq_cyl s1) < sint (rq_cyl s2) \<or> rq_cyl s1 = rq_cyl s2) \<and>
      ((sint (rq_head s1) < sint (rq_head s2) \<or> rq_head s1 = rq_head s2) \<and> sint (sector s1) < sint (sector s2)))"

partial_function (option) elevator :: "(nat \<Rightarrow> hd_request) \<Rightarrow> nat \<Rightarrow> nat \<Rightarrow> nat option" where
  "elevator rq req tmp =
     (case rq_next (rq tmp) of None \<Rightarrow> Some tmp
      | Some n \<Rightarrow>
         if (IN_ORDER (rq tmp) (rq req) \<or> \<not> IN_ORDER (rq tmp) (rq n)) \<and> IN_ORDER (rq req) (rq n) then Some tmp
         else elevator rq req n)"

definition add_request :: "nat \<Rightarrow> 'z hd_st_scheme \<Rightarrow> ('z hd_st_scheme, unit) kres" where
  "add_request req s =
     (if nsector (request s req) \<noteq> 2 then Panic ''nsector!=2 not implemented''
      else
        let s = s\<lparr>sorting := True\<rparr> in
        bnd (case this_request s of None \<Rightarrow> Ok () (s\<lparr>this_request := Some req\<rparr>)
             | Some tmp \<Rightarrow>
                (case rq_next (request s tmp) of
                   None \<Rightarrow> Ok () (upd_rq tmp (\<lambda>q. q\<lparr>rq_next := Some req\<rparr>) s)
                 | Some n \<Rightarrow>
                    (case elevator (request s) req n of None \<Rightarrow> Hang
                     | Some t \<Rightarrow>
                        Ok () (upd_rq t (\<lambda>q. q\<lparr>rq_next := Some req\<rparr>)
                                 (upd_rq req (\<lambda>q. q\<lparr>rq_next := rq_next (request s t)\<rparr>) s)))))
          (\<lambda>_ s. let s = s\<lparr>sorting := False\<rparr> in if do_hd s = No_handler then do_request s else Ok () s))"

definition free_request :: "'z hd_st_scheme \<Rightarrow> nat option" where
  "free_request s = find (\<lambda>i. rq_hd (request s i) < 0) [0..<NR_REQUEST]"

partial_function (option) get_request :: "'z hd_st_scheme \<Rightarrow> ('z hd_st_scheme, nat) kres option" where
  "get_request s =
     (case free_request s of Some r \<Rightarrow> Some (Ok r s)
      | None \<Rightarrow>
         (case sleep_io request_q s of Ok u s \<Rightarrow> get_request s
          | Panic m \<Rightarrow> Some (Panic m) | Die c s \<Rightarrow> Some (Die c s) | Sleep s \<Rightarrow> Some (Sleep s) | Hang \<Rightarrow> Some Hang))"

definition rw_abs_hd :: "int \<Rightarrow> u32 \<Rightarrow> u32 \<Rightarrow> u32 \<Rightarrow> u32 \<Rightarrow> nat \<Rightarrow> 'z hd_st_scheme \<Rightarrow>
    ('z hd_st_scheme, unit) kres" where
  "rw_abs_hd rw nr sec head cyl b s =
     (if rw \<noteq> READ \<and> rw \<noteq> WRITE then Panic ''Bad hd command, must be R/W''
      else
        bnd (ended (get_request (lock_buffer b s))) (\<lambda>r s.
        bnd (add_request r (upd_rq r (\<lambda>_.
              \<lparr>rq_hd = sint nr, nsector = 2, sector = sec, rq_head = head, rq_cyl = cyl,
               cmd = (if rw = READ then WIN_READ else WIN_WRITE), errors = 0, rq_bh = b, rq_next = None\<rparr>) s))
          (\<lambda>_ s. wait_on_buffer b s)))"

definition MAJOR :: "int \<Rightarrow> nat" where
  "MAJOR a = nat (uw a div 256)"

definition MINOR :: "int \<Rightarrow> int" where
  "MINOR a = a mod 256"

definition rw_hd :: "int \<Rightarrow> nat \<Rightarrow> 'z hd_st_scheme \<Rightarrow> ('z hd_st_scheme, unit) kres" where
  "rw_hd rw b s =
     (let block = push_bit 1 (ucast (b_blocknr (bh s b))) :: u32;
          dev = nat (MINOR (uint (b_dev (bh s b))))
      in if dev \<ge> 5 * NR_HD \<or> block + 2 > nr_sects s dev then Ok () s
         else
           let block = block + start_sect s dev;
               sec = block mod hd_sect;
               block = block div hd_sect
           in rw_abs_hd rw (of_nat (dev div 5)) (sec + 1) (block mod hd_head) (block div hd_head) b s)"

text \<open>\<open>rd_blk\<close> has one driver, for major number 3, and seven entries.\<close>

definition ll_rw_block :: "int \<Rightarrow> nat \<Rightarrow> 'z hd_st_scheme \<Rightarrow> ('z hd_st_scheme, unit) kres" where
  "ll_rw_block rw b s =
     (if MAJOR (uint (b_dev (bh s b))) = 3 then rw_hd rw b s
      else Panic ''Trying to read nonexistent block-device'')"

text \<open>\<open>hd_init\<close>: the request table and the size of the whole disks; the gates and the interrupt masks are
  hardware.\<close>

definition hd_init :: "'z hd_st_scheme \<Rightarrow> 'z hd_st_scheme" where
  "hd_init s =
     (let s1 = fold (\<lambda>i. upd_rq i (\<lambda>q. q\<lparr>rq_hd := -1, rq_next := None\<rparr>)) [0..<NR_REQUEST] s;
          s2 = fold (\<lambda>i s. s\<lparr>start_sect := (start_sect s)(i * 5 := 0),
                            nr_sects := (nr_sects s)(i * 5 := hd_head * hd_sect * hd_cyl)\<rparr>) [0..<NR_HD] s1
      in printk '' [OK] HD Controller: High-Speed Driver Loaded (DMA Mode Active)'' [] s2)"

section \<open>A controller that works\<close>

text \<open>
  The documented behaviour of the AT controller: a command byte starts a transfer at the sector that the
  registers name, each transfer of 256 words goes to the next sector, and the status is ready, with the
  seek complete and data requested. \<open>store\<close> holds the sectors of the two drives (bit 4 of the
  drive/head register selects one).
\<close>

record drive =
  regs :: "u16 \<Rightarrow> u8"
  xfer :: nat
  store :: "bool \<Rightarrow> nat \<Rightarrow> nat \<Rightarrow> u8"

definition chosen :: "drive \<Rightarrow> bool" where
  "chosen d = bit (regs d HD_CURRENT) 4"

definition sector_nr :: "drive \<Rightarrow> nat" where
  "sector_nr d =
     ((unat (regs d HD_HCYL) * 256 + unat (regs d HD_LCYL)) * 4 + unat (regs d HD_CURRENT AND 15)) * 20 +
     unat (regs d HD_SECTOR) - 1 + xfer d"

fun drive_step :: "hd_event \<Rightarrow> drive \<Rightarrow> drive" where
  "drive_step (Outb v p) d = (if p = HD_COMMAND then d\<lparr>regs := (regs d)(p := v), xfer := 0\<rparr>
                             else d\<lparr>regs := (regs d)(p := v)\<rparr>)"
| "drive_step (Inb p) d = d"
| "drive_step Insw d = d\<lparr>xfer := xfer d + 1\<rparr>"
| "drive_step (Outsw bs) d =
     d\<lparr>xfer := xfer d + 1,
       store := (store d)(chosen d := (store d (chosen d))(sector_nr d := \<lambda>k. bs ! k))\<rparr>"

definition drive_of :: "(bool \<Rightarrow> nat \<Rightarrow> nat \<Rightarrow> u8) \<Rightarrow> hd_event list \<Rightarrow> drive" where
  "drive_of D h = fold drive_step h \<lparr>regs = (\<lambda>_. 0), xfer = 0, store = D\<rparr>"

definition good_drive :: "(bool \<Rightarrow> nat \<Rightarrow> nat \<Rightarrow> u8) \<Rightarrow> 'z hd_st_scheme \<Rightarrow> bool" where
  "good_drive D s \<longleftrightarrow> (\<forall>h. hd_inb s h HD_STATUS = READY_STAT OR SEEK_STAT OR DRQ_STAT) \<and>
     (\<forall>h. hd_insw s h = store (drive_of D h) (chosen (drive_of D h)) (sector_nr (drive_of D h)))"

lemma drive_of_snoc [simp]: "drive_of D (h @ [e]) = drive_step e (drive_of D h)"
  by (simp add: drive_of_def)

lemma drive_of_append: "drive_of D (h @ es) = fold drive_step es (drive_of D h)"
  by (simp add: drive_of_def)

lemma good_drive_upd [simp]:
  "good_drive D (s\<lparr>hd_hist := h\<rparr>) = good_drive D s" "good_drive D (s\<lparr>do_hd := x\<rparr>) = good_drive D s"
  "good_drive D (s\<lparr>request := q\<rparr>) = good_drive D s" "good_drive D (s\<lparr>this_request := y\<rparr>) = good_drive D s"
  "good_drive D (s\<lparr>bh := B\<rparr>) = good_drive D s" "good_drive D (s\<lparr>ts := T\<rparr>) = good_drive D s"
  "good_drive D (s\<lparr>sorting := z\<rparr>) = good_drive D s" "good_drive D (s\<lparr>wait_for_request := w\<rparr>) = good_drive D s"
  by (simp_all add: good_drive_def)

lemma status_good: "good_drive D s \<Longrightarrow> inb HD_STATUS s = (0x58, s\<lparr>hd_hist := hd_hist s @ [Inb HD_STATUS]\<rparr>)"
  by (simp add: inb_def good_drive_def stat_defs)

lemma controller_ready_good:
  "good_drive D s \<Longrightarrow> controller_ready s = (999, s\<lparr>hd_hist := hd_hist s @ [Inb HD_STATUS]\<rparr>)"
  using controller_wait.simps(2) [of 998 s] by (simp add: controller_ready_def status_good)

lemma win_result_good: "good_drive D s \<Longrightarrow> win_result s = (False, s\<lparr>hd_hist := hd_hist s @ [Inb HD_STATUS]\<rparr>)"
  by (simp add: win_result_def status_good stat_defs)

lemma drq_wait_good: "good_drive D s \<Longrightarrow> drq_wait 3000 s = (True, s\<lparr>hd_hist := hd_hist s @ [Inb HD_STATUS]\<rparr>)"
  using drq_wait.simps(2) [of 2999 s] by (simp add: status_good stat_defs)

definition out_events :: "u32 \<Rightarrow> u32 \<Rightarrow> u32 \<Rightarrow> u32 \<Rightarrow> u32 \<Rightarrow> u8 \<Rightarrow> hd_event list" where
  "out_events drive nsect sect head cyl command =
     [Inb HD_STATUS, Outb 0 HD_CMD, Outb 0xff HD_ERROR, Outb (ucast nsect) HD_NSECTOR, Outb (ucast sect) HD_SECTOR,
      Outb (ucast cyl) HD_LCYL, Outb (ucast (drop_bit 8 cyl)) HD_HCYL,
      Outb (0xB0 OR ucast (push_bit 4 drive) OR ucast head) HD_CURRENT, Outb command HD_COMMAND]"

lemma hd_out_good:
  assumes "good_drive D s" "drive \<le> 1" "head \<le> 15"
  shows "hd_out drive nsect sect head cyl command f s =
    Ok () (s\<lparr>do_hd := f, hd_hist := hd_hist s @ out_events drive nsect sect head cyl command\<rparr>)"
  using assms by (simp add: hd_out_def controller_ready_good outb_def out_events_def not_less)

section \<open>A whole transfer\<close>

text \<open>The driver between two calls: no request, no handler, nobody waiting; the caller is an ordinary task.\<close>

definition hd_idle :: "'z hd_st_scheme \<Rightarrow> bool" where
  "hd_idle s \<longleftrightarrow> this_request s = None \<and> do_hd s = No_handler \<and> \<not> sorting s \<and> wait_for_request s = 0 \<and>
     (\<forall>i < NR_REQUEST. rq_hd (request s i) < 0) \<and> current s \<noteq> 0 \<and> current s \<noteq> init_task s \<and>
     state (cur s) = TASK_RUNNING"

definition asleep :: "nat \<Rightarrow> 'z hd_st_scheme \<Rightarrow> 'z hd_st_scheme" where
  "asleep b s = s\<lparr>bh := (bh s)(b := (bh s b)\<lparr>b_wait := current s\<rparr>),
     ts := (ts s)(current s := (cur s)\<lparr>state := TASK_UNINTERRUPTIBLE\<rparr>)\<rparr>"

lemma sleep_enter_asleep:
  assumes "b_wait (bh s b) = 0" "current s \<noteq> init_task s"
  shows "sleep_on_enter (b_wait_q b) s = Ok (Some 0) (asleep b s)"
  using assms
  by (simp add: sleep_on_enter_def sleep_enter_def b_wait_q_def asleep_def upd_bh_def upd_cur_def upd_task_def cur_def)

lemma wait_on_buffer_free: "b_lock (bh s b) = 0 \<Longrightarrow> wait_on_buffer b s = Ok () s"
  unfolding wait_on_buffer_def by (subst wait_loop.simps) simp

lemma wait_on_buffer_io:
  assumes "b_lock (bh s b) \<noteq> 0" "b_wait (bh s b) = 0" "current s \<noteq> init_task s"
    and "io_loop (asleep b s) = Some (Ok () t)" "b_lock (bh t b) = 0"
  shows "wait_on_buffer b s = Ok () t"
proof -
  have "sleep_io (b_wait_q b) s = Ok () t"
    using assms by (simp add: sleep_io_def sleep_enter_asleep sleep_on_leave_def)
  then have "wait_loop b s = wait_loop b t" using assms(1) by (subst wait_loop.simps) simp
  also have "\<dots> = Some (Ok () t)" using assms(5) by (subst wait_loop.simps) simp
  finally show ?thesis by (simp add: wait_on_buffer_def)
qed

lemma io_loop_step:
  "state (cur s) \<noteq> TASK_RUNNING \<Longrightarrow> do_hd s \<noteq> No_handler \<Longrightarrow> hd_interrupt s = Ok () t \<Longrightarrow> io_loop s = io_loop t"
  by (subst io_loop.simps) simp

lemma io_loop_done: "state (cur s) = TASK_RUNNING \<Longrightarrow> io_loop s = Some (Ok () s)"
  by (subst io_loop.simps) simp

text \<open>The end of the only request, for a buffer whose only waiter is the current task.\<close>

lemma request_done_wakes:
  assumes "request s r = q" "rq_next q = None" "rq_bh q = b" "b_lock (bh s b) = 1" "b_wait (bh s b) = current s"
    "current s \<noteq> 0" "wait_for_request s = 0" "\<not> sorting s"
  shows "request_done r s = Ok () (s\<lparr>
      bh := (bh s)(b := (bh s b)\<lparr>b_uptodate := 1, b_dirt := 0, b_lock := 0, b_wait := 0\<rparr>),
      ts := (ts s)(current s := (cur s)\<lparr>state := TASK_RUNNING\<rparr>),
      request := (request s)(r := q\<lparr>rq_hd := -1\<rparr>), this_request := None, do_hd := No_handler\<rparr>)"
  using assms
  by (simp add: request_done_def Let_def do_request_def unlock_buffer_def wake_up_def b_wait_q_def request_q_def
      upd_bh_def upd_rq_def upd_task_def cur_def)

text \<open>The caller waits with its request in service.\<close>

definition in_service :: "nat \<Rightarrow> nat \<Rightarrow> 'z hd_st_scheme \<Rightarrow> bool" where
  "in_service b r s \<longleftrightarrow> this_request s = Some r \<and> \<not> sorting s \<and> wait_for_request s = 0 \<and> current s \<noteq> 0 \<and>
     current s \<noteq> init_task s \<and> state (cur s) = TASK_RUNNING \<and> b_lock (bh s b) = 1 \<and> b_wait (bh s b) = 0 \<and>
     nsector (request s r) = 2 \<and> rq_next (request s r) = None \<and> rq_bh (request s r) = b"

lemma asleep_sel [simp]:
  "current (asleep b s) = current s" "do_hd (asleep b s) = do_hd s" "this_request (asleep b s) = this_request s"
  "request (asleep b s) = request s" "hd_hist (asleep b s) = hd_hist s" "sorting (asleep b s) = sorting s"
  "wait_for_request (asleep b s) = wait_for_request s" "hd_insw (asleep b s) = hd_insw s"
  "bh (asleep b s) b = (bh s b)\<lparr>b_wait := current s\<rparr>" "cur (asleep b s) = (cur s)\<lparr>state := TASK_UNINTERRUPTIBLE\<rparr>"
  "good_drive D (asleep b s) = good_drive D s"
  by (simp_all add: asleep_def cur_def good_drive_def)

definition filled :: "'z hd_st_scheme \<Rightarrow> hd_event list \<Rightarrow> nat \<Rightarrow> buffer_head \<Rightarrow> buffer_head" where
  "filled s h off x = x\<lparr>b_data := \<lambda>k. if off \<le> k \<and> k < off + 512 then hd_insw s h (k - off) else b_data x k\<rparr>"

lemma filled_sel [simp]:
  "b_dev (filled s h off x) = b_dev x" "b_blocknr (filled s h off x) = b_blocknr x" "b_count (filled s h off x) = b_count x"
  "b_lock (filled s h off x) = b_lock x" "b_wait (filled s h off x) = b_wait x" "b_prev (filled s h off x) = b_prev x"
  "b_next (filled s h off x) = b_next x" "b_prev_free (filled s h off x) = b_prev_free x"
  "b_next_free (filled s h off x) = b_next_free x"
  by (simp_all add: filled_def)

lemma read_first:
  assumes "in_service b r s" "good_drive D s" "do_hd s = Read_intr"
  shows "hd_interrupt (asleep b s) = Ok () ((asleep b s)\<lparr>request := (request s)(r := (request s r)\<lparr>nsector := 1\<rparr>),
      bh := (bh (asleep b s))(b := filled s (hd_hist s @ [Inb HD_STATUS]) 0 (bh (asleep b s) b)),
      hd_hist := hd_hist s @ [Inb HD_STATUS, Insw]\<rparr>)"
  using assms
  by (simp add: hd_interrupt_def read_intr_def win_result_good in_service_def port_read_def upd_rq_def upd_bh_def
      filled_def cong: if_cong)

lemma ts_restored: "state (cur s) = TASK_RUNNING \<Longrightarrow> (ts s)(current s := (cur s)\<lparr>state := TASK_RUNNING\<rparr>) = ts s"
  by (auto simp: cur_def fun_eq_iff)

lemma read_wait:
  assumes a: "in_service b r s" "good_drive D s" "do_hd s = Read_intr"
  shows "wait_on_buffer b s = Ok () (s\<lparr>hd_hist := hd_hist s @ [Inb HD_STATUS, Insw, Inb HD_STATUS, Insw],
      bh := (bh s)(b := (filled s (hd_hist s @ [Inb HD_STATUS, Insw, Inb HD_STATUS]) 512
          (filled s (hd_hist s @ [Inb HD_STATUS]) 0 (bh s b)))\<lparr>b_uptodate := 1, b_dirt := 0, b_lock := 0, b_wait := 0\<rparr>),
      request := (request s)(r := (request s r)\<lparr>nsector := 1, errors := 0, rq_hd := -1\<rparr>),
      this_request := None, do_hd := No_handler\<rparr>)" (is "_ = Ok () ?t")
proof -
  define s1 where "s1 = (asleep b s)\<lparr>request := (request s)(r := (request s r)\<lparr>nsector := 1\<rparr>),
      bh := (bh (asleep b s))(b := filled s (hd_hist s @ [Inb HD_STATUS]) 0 (bh (asleep b s) b)),
      hd_hist := hd_hist s @ [Inb HD_STATUS, Insw]\<rparr>"
  define s2 where "s2 = s1\<lparr>bh := (bh s1)(b := filled s (hd_hist s @ [Inb HD_STATUS, Insw, Inb HD_STATUS]) 512 (bh s1 b)),
      hd_hist := hd_hist s @ [Inb HD_STATUS, Insw, Inb HD_STATUS, Insw],
      request := (request s)(r := (request s r)\<lparr>nsector := 1, errors := 0\<rparr>)\<rparr>"
  have "read_intr s1 = request_done r s2"
    using a by (simp add: read_intr_def s1_def s2_def win_result_good in_service_def port_read_def upd_rq_def upd_bh_def
        filled_def cong: if_cong)
  also have "\<dots> = Ok () (s2\<lparr>
      bh := (bh s2)(b := (bh s2 b)\<lparr>b_uptodate := 1, b_dirt := 0, b_lock := 0, b_wait := 0\<rparr>),
      ts := (ts s2)(current s2 := (cur s2)\<lparr>state := TASK_RUNNING\<rparr>),
      request := (request s2)(r := (request s2 r)\<lparr>rq_hd := -1\<rparr>), this_request := None, do_hd := No_handler\<rparr>)"
    using a by (intro request_done_wakes) (simp_all add: in_service_def s2_def s1_def filled_def)
  also have "\<dots> = Ok () ?t"
    using a ts_restored [of s]
    by (simp add: s2_def s1_def filled_def asleep_def cur_def in_service_def cong: if_cong)
  finally have second: "hd_interrupt s1 = Ok () ?t" using a(3) by (simp add: hd_interrupt_def s1_def)
  have "io_loop (asleep b s) = io_loop s1"
    using read_first [OF a] a(3) by (intro io_loop_step) (simp_all add: s1_def task_state_defs)
  also have "\<dots> = io_loop ?t"
    using second a(3) by (intro io_loop_step) (simp_all add: s1_def cur_def asleep_def task_state_defs)
  also have "\<dots> = Some (Ok () ?t)"
    using a by (intro io_loop_done) (simp add: in_service_def cur_def)
  finally show ?thesis using a by (intro wait_on_buffer_io) (simp_all add: in_service_def)
qed

definition sector_bytes :: "nat \<Rightarrow> nat \<Rightarrow> 'z hd_st_scheme \<Rightarrow> hd_event" where
  "sector_bytes b off s = Outsw (map (b_data (bh s b)) [off..<off + 512])"

lemma write_wait:
  assumes a: "in_service b r s" "good_drive D s" "do_hd s = Write_intr"
  shows "wait_on_buffer b s = Ok () (s\<lparr>
      hd_hist := hd_hist s @ [Inb HD_STATUS, sector_bytes b 512 s, Inb HD_STATUS],
      bh := (bh s)(b := (bh s b)\<lparr>b_uptodate := 1, b_dirt := 0, b_lock := 0, b_wait := 0\<rparr>),
      request := (request s)(r := (request s r)\<lparr>nsector := 0, rq_hd := -1\<rparr>),
      this_request := None, do_hd := No_handler\<rparr>)" (is "_ = Ok () ?t")
proof -
  define s1 where "s1 = (asleep b s)\<lparr>request := (request s)(r := (request s r)\<lparr>nsector := 1\<rparr>),
      hd_hist := hd_hist s @ [Inb HD_STATUS, sector_bytes b 512 s]\<rparr>"
  define s2 where "s2 = s1\<lparr>hd_hist := hd_hist s @ [Inb HD_STATUS, sector_bytes b 512 s, Inb HD_STATUS],
      request := (request s)(r := (request s r)\<lparr>nsector := 0\<rparr>)\<rparr>"
  have first: "hd_interrupt (asleep b s) = Ok () s1"
    using a by (simp add: hd_interrupt_def write_intr_def win_result_good in_service_def s1_def port_write_def
        upd_rq_def sector_bytes_def s32_id)
  have "write_intr s1 = request_done r s2"
    using a by (simp add: write_intr_def s1_def s2_def win_result_good in_service_def upd_rq_def s32_id)
  also have "\<dots> = Ok () (s2\<lparr>
      bh := (bh s2)(b := (bh s2 b)\<lparr>b_uptodate := 1, b_dirt := 0, b_lock := 0, b_wait := 0\<rparr>),
      ts := (ts s2)(current s2 := (cur s2)\<lparr>state := TASK_RUNNING\<rparr>),
      request := (request s2)(r := (request s2 r)\<lparr>rq_hd := -1\<rparr>), this_request := None, do_hd := No_handler\<rparr>)"
    using a by (intro request_done_wakes) (simp_all add: in_service_def s2_def s1_def)
  also have "\<dots> = Ok () ?t"
    using a ts_restored [of s]
    by (simp add: s2_def s1_def asleep_def cur_def in_service_def)
  finally have second: "hd_interrupt s1 = Ok () ?t" using a(3) by (simp add: hd_interrupt_def s1_def)
  have "io_loop (asleep b s) = io_loop s1"
    using first a(3) by (intro io_loop_step) (simp_all add: task_state_defs)
  also have "\<dots> = io_loop ?t"
    using second a(3) by (intro io_loop_step) (simp_all add: s1_def cur_def asleep_def task_state_defs)
  also have "\<dots> = Some (Ok () ?t)"
    using a by (intro io_loop_done) (simp add: in_service_def cur_def)
  finally show ?thesis using a by (intro wait_on_buffer_io) (simp_all add: in_service_def)
qed

text \<open>Putting a request into the empty list starts it.\<close>

definition new_request :: "int \<Rightarrow> u32 \<Rightarrow> u32 \<Rightarrow> u32 \<Rightarrow> u32 \<Rightarrow> nat \<Rightarrow> hd_request" where
  "new_request rw nr sec head cyl b =
     \<lparr>rq_hd = sint nr, nsector = 2, sector = sec, rq_head = head, rq_cyl = cyl,
      cmd = (if rw = READ then WIN_READ else WIN_WRITE), errors = 0, rq_bh = b, rq_next = None\<rparr>"

definition started :: "int \<Rightarrow> u32 \<Rightarrow> u32 \<Rightarrow> u32 \<Rightarrow> u32 \<Rightarrow> nat \<Rightarrow> 'z hd_st_scheme \<Rightarrow> 'z hd_st_scheme" where
  "started rw nr sec head cyl b s = s\<lparr>
     bh := (bh s)(b := (bh s b)\<lparr>b_lock := 1\<rparr>),
     request := (request s)(0 := new_request rw nr sec head cyl b), this_request := Some 0, sorting := False,
     do_hd := (if rw = READ then Read_intr else Write_intr),
     hd_hist := hd_hist s @ out_events nr 2 sec head cyl (if rw = READ then WIN_READ else WIN_WRITE) @
       (if rw = READ then [] else [Inb HD_STATUS, sector_bytes b 0 s])\<rparr>"

lemma free_request_idle: "hd_idle s \<Longrightarrow> free_request s = Some 0"
proof -
  assume "hd_idle s"
  then have "rq_hd (request s 0) < 0" by (simp add: hd_idle_def NR_REQUEST_def)
  moreover have "[0..<NR_REQUEST] = 0 # [1..<NR_REQUEST]" by (simp add: NR_REQUEST_def upt_conv_Cons)
  ultimately show ?thesis by (simp add: free_request_def)
qed

lemma rw_abs_hd_starts:
  assumes idle: "hd_idle s" and good: "good_drive D s" and b: "b_lock (bh s b) = 0"
    and nr: "nr \<le> 1" "head \<le> 15" and rw: "rw = READ \<or> rw = WRITE"
  shows "rw_abs_hd rw nr sec head cyl b s = wait_on_buffer b (started rw nr sec head cyl b s)"
proof -
  have lk: "lock_buffer b s = s\<lparr>bh := (bh s)(b := (bh s b)\<lparr>b_lock := 1\<rparr>)\<rparr>" using b by (simp add: lock_buffer_def upd_bh_def)
  have "free_request (lock_buffer b s) = Some 0" using idle by (intro free_request_idle) (simp add: lk hd_idle_def cur_def)
  then have g: "get_request (lock_buffer b s) = Some (Ok 0 (lock_buffer b s))" by (subst get_request.simps) simp
  have nr': "(word_of_int (sint nr) :: u32) = nr" by simp
  show ?thesis
    using rw idle good nr
    by (auto simp: rw_abs_hd_def lk g [unfolded lk] add_request_def hd_idle_def do_request_def new_request_def started_def upd_rq_def
        hd_out_good [where D = D] drq_wait_good [where D = D] win_defs READ_def WRITE_def port_write_def sector_bytes_def
        Let_def)
qed

section \<open>Blocks on the disk\<close>

text \<open>The first sector of block \<open>n\<close> of a partition, and the 1024 bytes of a block.\<close>

definition first_sector :: "'z hd_st_scheme \<Rightarrow> nat \<Rightarrow> u16 \<Rightarrow> nat" where
  "first_sector s dev n = 2 * unat n + unat (start_sect s dev)"

definition disk_bytes :: "(bool \<Rightarrow> nat \<Rightarrow> nat \<Rightarrow> u8) \<Rightarrow> nat \<Rightarrow> nat \<Rightarrow> u8" where
  "disk_bytes st f k = st True (f + k div 512) (k mod 512)"

definition put_disk :: "nat \<Rightarrow> (nat \<Rightarrow> u8) \<Rightarrow> (bool \<Rightarrow> nat \<Rightarrow> nat \<Rightarrow> u8) \<Rightarrow> bool \<Rightarrow> nat \<Rightarrow> nat \<Rightarrow> u8" where
  "put_disk f d st = st(True := (st True)(f := \<lambda>k. map d [0..<512] ! k, f + 1 := \<lambda>k. map d [512..<1024] ! k))"

definition parts_ok :: "'z hd_st_scheme \<Rightarrow> bool" where
  "parts_ok s \<longleftrightarrow> (\<forall>dev < 5. unat (start_sect s dev) + unat (nr_sects s dev) \<le> 81920)"

lemma fold_out_events:
  "regs (fold drive_step (out_events nr ns sect head cyl c) d) HD_CURRENT = 0xB0 OR ucast (push_bit 4 nr) OR ucast head"
  "regs (fold drive_step (out_events nr ns sect head cyl c) d) HD_SECTOR = ucast sect"
  "regs (fold drive_step (out_events nr ns sect head cyl c) d) HD_LCYL = ucast cyl"
  "regs (fold drive_step (out_events nr ns sect head cyl c) d) HD_HCYL = ucast (drop_bit 8 cyl)"
  "xfer (fold drive_step (out_events nr ns sect head cyl c) d) = 0"
  "store (fold drive_step (out_events nr ns sect head cyl c) d) = store d"
  by (simp_all add: out_events_def hdreg_defs)

lemma cyl_bytes: "unat (cyl :: u32) < 65536 \<Longrightarrow> unat (ucast (drop_bit 8 cyl) :: u8) * 256 + unat (ucast cyl :: u8) = unat cyl"
proof -
  assume c: "unat cyl < 65536"
  have "unat (ucast cyl :: u8) = unat cyl mod 256" by (simp add: unsigned_ucast_eq take_bit_eq_mod)
  moreover have "unat (ucast (drop_bit 8 cyl) :: u8) = unat cyl div 256"
    using c by (simp add: unsigned_ucast_eq take_bit_eq_mod unat_drop_bit less_mult_imp_div_less)
  ultimately show ?thesis by simp
qed

lemma head_bits:
  assumes "head < (4 :: u32)"
  shows "unat ((0xB0 OR ucast head :: u8) AND 15) = unat head" "bit (0xB0 OR ucast head :: u8) 4"
proof -
  have "head = 0 \<or> head = 1 \<or> head = 2 \<or> head = 3"
  proof -
    have "unat head < 4" using assms by (simp add: word_less_nat_alt)
    then have "unat head = 0 \<or> unat head = 1 \<or> unat head = 2 \<or> unat head = 3" by presburger
    then show ?thesis by (auto simp: word_unat_eq_iff)
  qed
  then show "unat ((0xB0 OR ucast head :: u8) AND 15) = unat head" "bit (0xB0 OR ucast head :: u8) 4" by auto
qed

text \<open>A buffer whose block lies on the disk.\<close>

definition on_disk :: "nat \<Rightarrow> 'z hd_st_scheme \<Rightarrow> bool" where
  "on_disk b s \<longleftrightarrow> (let dev = nat (MINOR (uint (b_dev (bh s b))))
     in MAJOR (uint (b_dev (bh s b))) = 3 \<and> dev < 5 \<and> 2 * unat (b_blocknr (bh s b)) + 2 \<le> unat (nr_sects s dev))"

definition bh_sector :: "nat \<Rightarrow> 'z hd_st_scheme \<Rightarrow> nat" where
  "bh_sector b s = first_sector s (nat (MINOR (uint (b_dev (bh s b))))) (b_blocknr (bh s b))"

lemma unat_add_small: "unat (a :: u32) + unat b < 2 ^ 32 \<Longrightarrow> unat (a + b) = unat a + unat b"
  by (simp add: unat_word_ariths)

lemma block_sector:
  assumes "on_disk b s" "parts_ok s" "dev = nat (MINOR (uint (b_dev (bh s b))))"
  shows "unat ((push_bit 1 (ucast (b_blocknr (bh s b))) :: u32) + start_sect s dev) = bh_sector b s"
    "\<not> (push_bit 1 (ucast (b_blocknr (bh s b))) :: u32) + 2 > nr_sects s dev" "bh_sector b s + 2 \<le> 81920" "dev < 5"
proof -
  have d: "dev < 5" "2 * unat (b_blocknr (bh s b)) + 2 \<le> unat (nr_sects s dev)"
    using assms(1,3) by (auto simp: on_disk_def Let_def)
  have p: "unat (start_sect s dev) + unat (nr_sects s dev) \<le> 81920" using assms(2) d(1) by (simp add: parts_ok_def)
  have u: "unat (push_bit 1 (ucast (b_blocknr (bh s b))) :: u32) = 2 * unat (b_blocknr (bh s b))"
  proof -
    have "unat (ucast (b_blocknr (bh s b)) :: u32) = unat (b_blocknr (bh s b))"
      using unsigned_less [of "b_blocknr (bh s b)", where 'a = nat] by (simp add: unsigned_ucast_eq take_bit_eq_mod)
    then show ?thesis using d p by (simp add: unat_word_ariths)
  qed
  show "unat ((push_bit 1 (ucast (b_blocknr (bh s b))) :: u32) + start_sect s dev) = bh_sector b s"
    using unat_add_small [of "push_bit 1 (ucast (b_blocknr (bh s b)))" "start_sect s dev"] u d p assms(3)
    by (simp add: bh_sector_def first_sector_def)
  have "unat ((push_bit 1 (ucast (b_blocknr (bh s b))) :: u32) + 2) = 2 * unat (b_blocknr (bh s b)) + 2"
    using unat_add_small [of "push_bit 1 (ucast (b_blocknr (bh s b)))" 2] u d p by simp
  then show "\<not> (push_bit 1 (ucast (b_blocknr (bh s b))) :: u32) + 2 > nr_sects s dev"
    using d by (simp add: word_less_nat_alt)
  show "bh_sector b s + 2 \<le> 81920" using d p assms(3) by (simp add: bh_sector_def first_sector_def)
  show "dev < 5" by (fact d(1))
qed

text \<open>Cylinder, head and sector of a block address lead the controller back to it.\<close>

lemma chs_sector:
  fixes blk :: u32
  assumes "unat blk < 81920" "d' = fold drive_step (out_events 0 2 (blk mod hd_sect + 1) (blk div hd_sect mod hd_head)
    (blk div hd_sect div hd_head) c) d"
  shows "sector_nr d' = unat blk" "chosen d'" "store d' = store d" "xfer d' = 0" "blk div hd_sect mod hd_head \<le> 15"
proof -
  let ?head = "blk div hd_sect mod hd_head" and ?cyl = "blk div hd_sect div hd_head"
  have h: "unat ?head = unat blk div 20 mod 4" "unat ?cyl = unat blk div 20 div 4" "unat (blk mod hd_sect) = unat blk mod 20"
    by (simp_all add: hd_sect_def hd_head_def unat_div unat_mod)
  have "unat blk mod 20 < 20" by simp
  then have sec: "unat (ucast (blk mod hd_sect + 1) :: u8) = unat blk mod 20 + 1"
    using unat_add_small [of "blk mod hd_sect" 1] h(3) by (simp add: unsigned_ucast_eq take_bit_eq_mod)
  have h4: "?head < 4" using h(1) by (simp add: word_less_nat_alt)
  then show "?head \<le> 15" by (simp add: word_less_nat_alt word_le_nat_alt)
  have z: "ucast (push_bit 4 (0 :: u32)) = (0 :: u8)" by simp
  have c: "unat ?cyl < 65536" using assms(1) h(2) by simp
  show "chosen d'" using head_bits(2) [OF h4] by (simp add: chosen_def assms(2) fold_out_events)
  show "store d' = store d" "xfer d' = 0" by (simp_all add: assms(2) fold_out_events)
  have "((unat blk div 20 div 4) * 4 + unat blk div 20 mod 4) * 20 + (unat blk mod 20 + 1) - 1 = unat blk" by simp
  then show "sector_nr d' = unat blk"
    using head_bits(1) [OF h4] cyl_bytes [OF c] sec h by (simp add: sector_nr_def assms(2) fold_out_events)
qed

lemma bh_unlock: "b_lock x = 0 \<Longrightarrow> b_wait x = 0 \<Longrightarrow> x\<lparr>b_lock := 0, b_wait := 0\<rparr> = x"
  by (cases x) simp

lemma started_service:
  assumes "hd_idle s" "b_lock (bh s b) = 0" "b_wait (bh s b) = 0"
  shows "in_service b 0 (started rw nr sec head cyl b s)"
  using assms by (auto simp: hd_idle_def in_service_def started_def new_request_def cur_def)

lemma idle_requests:
  assumes "hd_idle s" "rq_hd q < 0"
  shows "i < NR_REQUEST \<Longrightarrow> rq_hd (((request s)(0 := q)) i) < 0"
  using assms by (simp add: hd_idle_def)

text \<open>Reading a block.\<close>

lemma rw_hd_read:
  assumes idle: "hd_idle s" and good: "good_drive D s" and b: "b_lock (bh s b) = 0" "b_wait (bh s b) = 0"
    and disk: "on_disk b s" "parts_ok s"
  shows "\<exists>q h. rw_hd READ b s = Ok () (s\<lparr>hd_hist := h,
      bh := (bh s)(b := (bh s b)\<lparr>b_data := \<lambda>k. if k < 1024
        then disk_bytes (store (drive_of D (hd_hist s))) (bh_sector b s) k else b_data (bh s b) k,
        b_uptodate := 1, b_dirt := 0\<rparr>),
      request := (request s)(0 := q)\<rparr>) \<and>
    rq_hd q < 0 \<and> store (drive_of D h) = store (drive_of D (hd_hist s))"
proof -
  define dev where "dev = nat (MINOR (uint (b_dev (bh s b))))"
  define blk where "blk = (push_bit 1 (ucast (b_blocknr (bh s b))) :: u32) + start_sect s dev"
  note bs = block_sector [OF disk dev_def]
  have blk: "unat blk = bh_sector b s" "unat blk < 81920" using bs(1,3) by (simp_all add: blk_def)
  define t where "t = started READ 0 (blk mod hd_sect + 1) (blk div hd_sect mod hd_head) (blk div hd_sect div hd_head) b s"
  define d where "d = drive_of D (hd_hist t)"
  have "hd_hist t = hd_hist s @ out_events 0 2 (blk mod hd_sect + 1) (blk div hd_sect mod hd_head)
      (blk div hd_sect div hd_head) WIN_READ" by (simp add: t_def started_def)
  then have "d = fold drive_step (out_events 0 2 (blk mod hd_sect + 1) (blk div hd_sect mod hd_head)
      (blk div hd_sect div hd_head) WIN_READ) (drive_of D (hd_hist s))" by (simp add: d_def drive_of_append)
  note ch = chs_sector [OF blk(2) this]
  have "rw_hd READ b s = rw_abs_hd READ 0 (blk mod hd_sect + 1) (blk div hd_sect mod hd_head) (blk div hd_sect div hd_head) b s"
    using bs(2,4) unfolding rw_hd_def Let_def dev_def [symmetric] blk_def [symmetric] by (simp add: NR_HD_def)
  also have "\<dots> = wait_on_buffer b t"
    using ch(5) unfolding t_def by (intro rw_abs_hd_starts [OF idle good b(1)]) simp_all
  also have "\<dots> = Ok () (t\<lparr>hd_hist := hd_hist t @ [Inb HD_STATUS, Insw, Inb HD_STATUS, Insw],
      bh := (bh t)(b := (filled t (hd_hist t @ [Inb HD_STATUS, Insw, Inb HD_STATUS]) 512
          (filled t (hd_hist t @ [Inb HD_STATUS]) 0 (bh t b)))\<lparr>b_uptodate := 1, b_dirt := 0, b_lock := 0, b_wait := 0\<rparr>),
      request := (request t)(0 := (request t 0)\<lparr>nsector := 1, errors := 0, rq_hd := -1\<rparr>),
      this_request := None, do_hd := No_handler\<rparr>)"
    using good started_service [OF idle b]
    by (intro read_wait [where D = D]) (simp_all add: t_def, simp_all add: started_def)
  finally have res: "rw_hd READ b s = \<dots>" .
  have g: "hd_insw t h = store (drive_of D h) (chosen (drive_of D h)) (sector_nr (drive_of D h))" for h
    using good by (simp add: t_def started_def good_drive_def)
  have d1: "drive_of D (hd_hist t @ [Inb HD_STATUS]) = d" "drive_of D (hd_hist t @ [Inb HD_STATUS, Insw, Inb HD_STATUS]) = d\<lparr>xfer := 1\<rparr>"
    "store (drive_of D (hd_hist t @ [Inb HD_STATUS, Insw, Inb HD_STATUS, Insw])) = store (drive_of D (hd_hist s))"
    using ch(3,4) by (simp_all add: d_def drive_of_append)
  have sn: "sector_nr (d\<lparr>xfer := 1\<rparr>) = unat blk + 1" "chosen (d\<lparr>xfer := 1\<rparr>)"
    using ch(1,2,4) by (simp_all add: sector_nr_def chosen_def)
  have data: "b_data (filled t (hd_hist t @ [Inb HD_STATUS, Insw, Inb HD_STATUS]) 512
      (filled t (hd_hist t @ [Inb HD_STATUS]) 0 x)) = (\<lambda>k. if k < 1024
        then disk_bytes (store (drive_of D (hd_hist s))) (bh_sector b s) k else b_data x k)" for x
  proof
    fix k :: nat
    have "k div 512 = 1" "k mod 512 = k - 512" if "512 \<le> k" "k < 1024"
      using that by (auto simp: div_nat_eqI le_mod_geq)
    then show "b_data (filled t (hd_hist t @ [Inb HD_STATUS, Insw, Inb HD_STATUS]) 512
      (filled t (hd_hist t @ [Inb HD_STATUS]) 0 x)) k = (if k < 1024
        then disk_bytes (store (drive_of D (hd_hist s))) (bh_sector b s) k else b_data x k)"
      using ch sn d1 blk by (simp add: filled_def g disk_bytes_def)
  qed
  have tb: "bh t b = (bh s b)\<lparr>b_lock := 1\<rparr>" by (simp add: t_def started_def)
  have buf: "(filled t (hd_hist t @ [Inb HD_STATUS, Insw, Inb HD_STATUS]) 512
      (filled t (hd_hist t @ [Inb HD_STATUS]) 0 (bh t b)))\<lparr>b_uptodate := 1, b_dirt := 0, b_lock := 0, b_wait := 0\<rparr> =
    (bh s b)\<lparr>b_data := \<lambda>k. if k < 1024
        then disk_bytes (store (drive_of D (hd_hist s))) (bh_sector b s) k else b_data (bh s b) k,
        b_uptodate := 1, b_dirt := 0\<rparr>"
    using b data [of "bh t b"] tb by (intro buffer_head.equality) (simp_all cong: if_cong)
  show ?thesis
    using res d1(3) idle unfolding buf
    by (intro exI [of _ "(request t 0)\<lparr>nsector := 1, errors := 0, rq_hd := -1\<rparr>"]
        exI [of _ "hd_hist t @ [Inb HD_STATUS, Insw, Inb HD_STATUS, Insw]"])
      (auto simp: t_def started_def hd_idle_def intro!: hd_st.equality)
qed

text \<open>Writing a block: the disk receives the bytes of the buffer.\<close>

lemma rw_hd_write:
  assumes idle: "hd_idle s" and good: "good_drive D s" and b: "b_lock (bh s b) = 0" "b_wait (bh s b) = 0"
    and disk: "on_disk b s" "parts_ok s"
  shows "\<exists>q h. rw_hd WRITE b s = Ok () (s\<lparr>hd_hist := h,
      bh := (bh s)(b := (bh s b)\<lparr>b_uptodate := 1, b_dirt := 0\<rparr>), request := (request s)(0 := q)\<rparr>) \<and>
    rq_hd q < 0 \<and>
    store (drive_of D h) = put_disk (bh_sector b s) (b_data (bh s b)) (store (drive_of D (hd_hist s)))"
proof -
  define dev where "dev = nat (MINOR (uint (b_dev (bh s b))))"
  define blk where "blk = (push_bit 1 (ucast (b_blocknr (bh s b))) :: u32) + start_sect s dev"
  note bs = block_sector [OF disk dev_def]
  have blk: "unat blk = bh_sector b s" "unat blk < 81920" using bs(1,3) by (simp_all add: blk_def)
  define t where "t = started WRITE 0 (blk mod hd_sect + 1) (blk div hd_sect mod hd_head) (blk div hd_sect div hd_head) b s"
  define ev where "ev = out_events 0 2 (blk mod hd_sect + 1) (blk div hd_sect mod hd_head) (blk div hd_sect div hd_head) WIN_WRITE"
  define d where "d = drive_of D (hd_hist s @ ev)"
  have ht: "hd_hist t = (hd_hist s @ ev) @ [Inb HD_STATUS, sector_bytes b 0 s]"
    by (simp add: t_def started_def ev_def READ_def WRITE_def)
  have "d = fold drive_step ev (drive_of D (hd_hist s))" by (simp add: d_def drive_of_append)
  note ch = chs_sector [OF blk(2) this [unfolded ev_def]]
  have "rw_hd WRITE b s = rw_abs_hd WRITE 0 (blk mod hd_sect + 1) (blk div hd_sect mod hd_head) (blk div hd_sect div hd_head) b s"
    using bs(2,4) unfolding rw_hd_def Let_def dev_def [symmetric] blk_def [symmetric] by (simp add: NR_HD_def)
  also have "\<dots> = wait_on_buffer b t"
    using ch(5) unfolding t_def by (intro rw_abs_hd_starts [OF idle good b(1)]) simp_all
  also have "\<dots> = Ok () (t\<lparr>hd_hist := hd_hist t @ [Inb HD_STATUS, sector_bytes b 512 t, Inb HD_STATUS],
      bh := (bh t)(b := (bh t b)\<lparr>b_uptodate := 1, b_dirt := 0, b_lock := 0, b_wait := 0\<rparr>),
      request := (request t)(0 := (request t 0)\<lparr>nsector := 0, rq_hd := -1\<rparr>),
      this_request := None, do_hd := No_handler\<rparr>)"
    using good started_service [OF idle b]
    by (intro write_wait [where D = D]) (simp_all add: t_def, simp_all add: started_def READ_def WRITE_def)
  finally have res: "rw_hd WRITE b s = \<dots>" .
  let ?h = "hd_hist t @ [Inb HD_STATUS, sector_bytes b 512 t, Inb HD_STATUS]"
  have sb: "sector_bytes b 512 t = Outsw (map (b_data (bh s b)) [512..<1024])"
    "sector_bytes b 0 s = Outsw (map (b_data (bh s b)) [0..<512])"
    by (simp_all add: sector_bytes_def t_def started_def)
  have "store (drive_of D ?h) = put_disk (bh_sector b s) (b_data (bh s b)) (store d)"
  proof -
    have dh: "drive_of D ?h = drive_step (sector_bytes b 512 t) (drive_step (sector_bytes b 0 s) d)"
      by (simp add: ht d_def drive_of_append)
    define d1 where "d1 = drive_step (sector_bytes b 0 s) d"
    have d1: "store d1 = (store d)(True := (store d True)(bh_sector b s := \<lambda>k. map (b_data (bh s b)) [0..<512] ! k))"
      "chosen d1" "sector_nr d1 = bh_sector b s + 1"
      using ch(1,2,4) blk(1) by (simp_all add: d1_def sb sector_nr_def chosen_def del: upt_rec_numeral)
    show ?thesis unfolding dh d1_def [symmetric] by (simp add: sb d1 put_disk_def del: upt_rec_numeral)
  qed
  moreover have buf: "(bh t b)\<lparr>b_uptodate := 1, b_dirt := 0, b_lock := 0, b_wait := 0\<rparr> = (bh s b)\<lparr>b_uptodate := 1, b_dirt := 0\<rparr>"
    using b by (intro buffer_head.equality) (simp_all add: t_def started_def)
  ultimately show ?thesis
    using res ch(3) idle unfolding buf
    by (intro exI [of _ "(request t 0)\<lparr>nsector := 0, rq_hd := -1\<rparr>"] exI [of _ ?h])
      (auto simp: t_def started_def hd_idle_def intro!: hd_st.equality)
qed

lemma disk_bytes_put: "k < 1024 \<Longrightarrow> disk_bytes (put_disk f d st) f k = d k"
proof (cases "k < 512")
  case True
  then show ?thesis by (simp add: disk_bytes_def put_disk_def del: upt_rec_numeral)
next
  case False
  assume "k < 1024"
  then have "k div 512 = 1" "k mod 512 = k - 512" using False by (auto simp: div_nat_eqI le_mod_geq)
  then show ?thesis using False \<open>k < 1024\<close> by (simp add: disk_bytes_def put_disk_def del: upt_rec_numeral)
qed

lemma disk_bytes_put_other:
  "k < 1024 \<Longrightarrow> f + 2 \<le> f' \<or> f' + 2 \<le> f \<Longrightarrow> disk_bytes (put_disk f d st) f' k = disk_bytes st f' k"
proof -
  assume "k < 1024" "f + 2 \<le> f' \<or> f' + 2 \<le> f"
  moreover have "k div 512 < 2" using \<open>k < 1024\<close> by (simp add: less_mult_imp_div_less)
  ultimately show ?thesis by (auto simp: disk_bytes_def put_disk_def)
qed

end
