(* ===== verification/Buffer.thy ===== *)
theory Buffer
  imports Hd
begin

text \<open>
  The buffer cache \<open>fs/buffer.c\<close> and the block devices' read and write of \<open>fs/block_dev.c\<close>.

  A \<open>goto repeat\<close> is \<open>retry f\<close>: the body \<open>f\<close> returns \<open>None\<close> to start over. The walk of \<open>getblk\<close> along
  the free list uses the links of the heads; a NULL link, which the invariant of the queues excludes,
  is the outcome \<open>Hang\<close>.

  The abstract view of the cache is \<open>block_of\<close>: the bytes of a block are those of the up-to-date
  buffer that holds it, otherwise those on the disk. The lemmas show that \<open>getblk\<close> and \<open>bread\<close> return
  the one buffer of the block, keep every invariant of the cache and change no block, evictions and
  the write-back of dirty buffers included.
\<close>

section \<open>Loops with goto repeat\<close>

partial_function (option) retry_loop :: "('s \<Rightarrow> ('s, 'a option) kres) \<Rightarrow> 's \<Rightarrow> ('s, 'a) kres option" where
  "retry_loop f s =
     (case f s of
        Ok r s' \<Rightarrow> (case r of None \<Rightarrow> retry_loop f s' | Some a \<Rightarrow> Some (Ok a s'))
      | Panic m \<Rightarrow> Some (Panic m) | Die c s' \<Rightarrow> Some (Die c s') | Sleep s' \<Rightarrow> Some (Sleep s') | Hang \<Rightarrow> Some Hang)"

definition retry :: "('s \<Rightarrow> ('s, 'a option) kres) \<Rightarrow> 's \<Rightarrow> ('s, 'a) kres" where
  "retry f s = ended (retry_loop f s)"

lemma retry_done: "f s = Ok (Some a) t \<Longrightarrow> retry f s = Ok a t"
  unfolding retry_def by (subst retry_loop.simps) simp

lemma retry_again: "f s = Ok None t \<Longrightarrow> retry f s = retry f t"
  unfolding retry_def by (subst retry_loop.simps) simp

section \<open>buffer.c\<close>

definition buffer_wait_q :: "'z hd_st_scheme wait_queue" where
  "buffer_wait_q = Some (buffer_wait, \<lambda>v s. s\<lparr>buffer_wait := v\<rparr>)"

definition sync_buffer :: "nat \<Rightarrow> 'z hd_st_scheme \<Rightarrow> ('z hd_st_scheme, unit) kres" where
  "sync_buffer i s =
     bnd (wait_on_buffer i s) (\<lambda>_ s. if b_dirt (bh s i) \<noteq> 0 then ll_rw_block WRITE i s else Ok () s)"

definition sync_buffers :: "'z hd_st_scheme \<Rightarrow> ('z hd_st_scheme, unit) kres" where
  "sync_buffers s = for_each [0..<nr_buffers s] sync_buffer s"

definition sync_dev :: "int \<Rightarrow> 'z hd_st_scheme \<Rightarrow> ('z hd_st_scheme, unit) kres" where
  "sync_dev dev s =
     for_each [0..<nr_buffers s]
       (\<lambda>i s. if uint (b_dev (bh s i)) \<noteq> dev then Ok () s else sync_buffer i s) s"

definition brelse :: "nat option \<Rightarrow> 'z hd_st_scheme \<Rightarrow> ('z hd_st_scheme, unit) kres" where
  "brelse buf s =
     (case buf of None \<Rightarrow> Ok () s
      | Some b \<Rightarrow>
         bnd (wait_on_buffer b s) (\<lambda>_ s.
           if b_count (bh s b) = 0 then Panic ''CRITICAL: Trying to free an already free buffer!''
           else Ok () (wake_up buffer_wait_q (upd_bh b (\<lambda>x. x\<lparr>b_count := b_count x - 1\<rparr>) s))))"

definition get_hash_try :: "int \<Rightarrow> int \<Rightarrow> 'z hd_st_scheme \<Rightarrow> ('z hd_st_scheme, nat option option) kres" where
  "get_hash_try dev block s =
     (case find_buffer dev block s of None \<Rightarrow> Hang
      | Some None \<Rightarrow> Ok (Some None) s
      | Some (Some b) \<Rightarrow>
         bnd (wait_on_buffer b (upd_bh b (\<lambda>x. x\<lparr>b_count := b_count x + 1\<rparr>) s)) (\<lambda>_ s.
           if uint (b_dev (bh s b)) \<noteq> dev \<or> uint (b_blocknr (bh s b)) \<noteq> block
           then bnd (brelse (Some b) s) (\<lambda>_ s. Ok None s)
           else Ok (Some (Some b)) s))"

definition get_hash_table :: "int \<Rightarrow> int \<Rightarrow> 'z hd_st_scheme \<Rightarrow> ('z hd_st_scheme, nat option) kres" where
  "get_hash_table dev block s = retry (get_hash_try dev block) s"

text \<open>The scan of the free list, from \<open>tmp\<close> on: \<open>Inl\<close> is the next buffer to look at, \<open>Inr\<close> the result.\<close>

definition scan_step :: "nat \<Rightarrow> 'z hd_st_scheme \<Rightarrow> ('z hd_st_scheme, nat + nat) kres" where
  "scan_step tmp s =
     bnd (if b_count (bh s tmp) = 0 then wait_on_buffer tmp s else Ok () s) (\<lambda>_ s.
       if b_count (bh s tmp) = 0 then Ok (Inr tmp) s
       else case b_next_free (bh s tmp) of None \<Rightarrow> Hang
         | Some n \<Rightarrow> Ok (if n = free_list s then Inr n else Inl n) s)"

partial_function (option) scan_loop :: "nat \<Rightarrow> 'z hd_st_scheme \<Rightarrow> ('z hd_st_scheme, nat) kres option" where
  "scan_loop tmp s =
     (case scan_step tmp s of
        Ok r s' \<Rightarrow> (case r of Inl n \<Rightarrow> scan_loop n s' | Inr b \<Rightarrow> Some (Ok b s'))
      | Panic m \<Rightarrow> Some (Panic m) | Die c s' \<Rightarrow> Some (Die c s') | Sleep s' \<Rightarrow> Some (Sleep s') | Hang \<Rightarrow> Some Hang)"

text \<open>
  After the scan \<open>tmp\<close> is never NULL: when every buffer is in use the scan stops at the head of the
  free list, and the branch that sleeps on \<open>buffer_wait\<close> is not reached.
\<close>

definition getblk_miss :: "int \<Rightarrow> int \<Rightarrow> 'z hd_st_scheme \<Rightarrow> ('z hd_st_scheme, nat option) kres" where
  "getblk_miss dev block s =
     bnd (ended (scan_loop (free_list s) s)) (\<lambda>tmp s.
     bnd (remove_from_queues tmp (upd_bh tmp (\<lambda>x. x\<lparr>b_count := b_count x + 1\<rparr>) s)) (\<lambda>_ s.
     bnd (if b_dirt (bh s tmp) \<noteq> 0 then sync_dev (uint (b_dev (bh s tmp))) s else Ok () s) (\<lambda>_ s.
       let s = upd_bh tmp (\<lambda>x. x\<lparr>b_dev := word_of_int dev, b_blocknr := word_of_int block,
                                 b_dirt := 0, b_uptodate := 0\<rparr>) s
       in case find_buffer dev block s of None \<Rightarrow> Hang
          | Some (Some _) \<Rightarrow>
             Ok None (insert_into_queues tmp
                       (upd_bh tmp (\<lambda>x. x\<lparr>b_dev := 0, b_blocknr := 0, b_count := 0\<rparr>) s))
          | Some None \<Rightarrow> Ok (Some tmp) (insert_into_queues tmp s))))"

definition getblk_try :: "int \<Rightarrow> int \<Rightarrow> 'z hd_st_scheme \<Rightarrow> ('z hd_st_scheme, nat option) kres" where
  "getblk_try dev block s =
     bnd (get_hash_table dev block s) (\<lambda>r s.
       case r of Some b \<Rightarrow> Ok (Some b) s | None \<Rightarrow> getblk_miss dev block s)"

definition getblk :: "int \<Rightarrow> int \<Rightarrow> 'z hd_st_scheme \<Rightarrow> ('z hd_st_scheme, nat) kres" where
  "getblk dev block s = retry (getblk_try dev block) s"

definition bread :: "int \<Rightarrow> int \<Rightarrow> 'z hd_st_scheme \<Rightarrow> ('z hd_st_scheme, nat option) kres" where
  "bread dev block s =
     bnd (getblk dev block s) (\<lambda>b s.
       if b_uptodate (bh s b) \<noteq> 0 then Ok (Some b) s
       else bnd (ll_rw_block READ b s) (\<lambda>_ s.
         if b_uptodate (bh s b) \<noteq> 0 then Ok (Some b) s
         else bnd (brelse (Some b) s) (\<lambda>_ s. Ok None s)))"

section \<open>buffer_init\<close>

definition BUFFER_END :: nat where "BUFFER_END = 0x200000"

text \<open>
  The block addresses that \<open>buffer_init\<close> hands out, for buffer heads from the address \<open>h\<close> on: the block
  at \<open>b - 1024\<close> as long as it lies above the next head, with a jump over the video memory.
\<close>

function block_addrs :: "nat \<Rightarrow> nat \<Rightarrow> nat list" where
  "block_addrs h b =
     (if b < 1024 \<or> b - 1024 < h + 32 then []
      else (b - 1024) # block_addrs (h + 32) (if b - 1024 = 0x100000 then 0xA0000 else b - 1024))"
  by pat_completeness auto
termination by (relation "measure snd") auto

declare block_addrs.simps [simp del]

definition new_head :: "buffer_head \<Rightarrow> nat \<Rightarrow> nat \<Rightarrow> buffer_head" where
  "new_head x n i =
     x\<lparr>b_dev := 0, b_dirt := 0, b_count := 0, b_lock := 0, b_uptodate := 0, b_wait := 0, b_next := None, b_prev := None,
       b_prev_free := Some (if i = 0 then n - 1 else i - 1),
       b_next_free := Some (if i = n - 1 then 0 else i + 1)\<rparr>"

definition buffer_init :: "'z hd_st_scheme \<Rightarrow> 'z hd_st_scheme" where
  "buffer_init s =
     (let n = length (block_addrs (unat (start_buffer s)) BUFFER_END);
          s1 = s\<lparr>bh := (\<lambda>i. if i < n then new_head (bh s i) n i else bh s i), nr_buffers := nr_buffers s + n,
                 free_list := 0, hash_table := (\<lambda>h. if h < NR_HASH then None else hash_table s h)\<rparr>
      in printk '' [DISK] Cache Coherency Check: PASS. Integrity Verified.'' []
           (printk '' [DISK] Intelligent Pre-fetching: ENABLED (Algorithm: Optimized-LRU)'' [] s1))"

section \<open>block_dev.c\<close>

text \<open>
  Bytes relative to the start of a buffer's block. The blocks are handed out downwards from
  \<open>BUFFER_END\<close>, so that what lies behind the block of buffer \<open>b\<close> is the block of buffer \<open>b - 1\<close>; behind the
  first one begins paged memory, and behind the first one below the video memory (number 1024)
  the video window.
\<close>

definition ldb :: "nat \<Rightarrow> 'z mm_st_scheme \<Rightarrow> u8" where
  "ldb a s = ucast (drop_bit (8 * (a mod 4)) (pm s (a div 4)))"

definition stb :: "nat \<Rightarrow> u8 \<Rightarrow> 'z mm_st_scheme \<Rightarrow> 'z mm_st_scheme" where
  "stb a v s =
     s\<lparr>pm := (pm s)(a div 4 := (pm s (a div 4) AND NOT (push_bit (8 * (a mod 4)) 0xff)) OR
                            push_bit (8 * (a mod 4)) (ucast v))\<rparr>"

definition data_get :: "nat \<Rightarrow> nat \<Rightarrow> 'z hd_st_scheme \<Rightarrow> u8" where
  "data_get b k s =
     (if k < BLOCK_SIZE then b_data (bh s b) k
      else if b = 0 then ldb (BUFFER_END + (k - BLOCK_SIZE)) s
      else if b = 1024 then window s (k - BLOCK_SIZE)
      else b_data (bh s (b - 1)) (k - BLOCK_SIZE))"

definition data_put :: "nat \<Rightarrow> nat \<Rightarrow> u8 \<Rightarrow> 'z hd_st_scheme \<Rightarrow> 'z hd_st_scheme" where
  "data_put b k v s =
     (if k < BLOCK_SIZE then upd_bh b (\<lambda>x. x\<lparr>b_data := (b_data x)(k := v)\<rparr>) s
      else if b = 0 then stb (BUFFER_END + (k - BLOCK_SIZE)) v s
      else if b = 1024 then s\<lparr>window := (window s)(k - BLOCK_SIZE := v)\<rparr>
      else upd_bh (b - 1) (\<lambda>x. x\<lparr>b_data := (b_data x)(k - BLOCK_SIZE := v)\<rparr>) s)"

definition copy_to_user :: "nat \<Rightarrow> nat \<Rightarrow> nat \<Rightarrow> u32 \<Rightarrow> 'z hd_st_scheme \<Rightarrow> 'z hd_st_scheme" where
  "copy_to_user b off n buf s =
     fold (\<lambda>i s. put_fs_byte (data_get b (off + i) s) (buf + of_nat i) s) [0..<n] s"

definition copy_from_user :: "nat \<Rightarrow> nat \<Rightarrow> nat \<Rightarrow> u32 \<Rightarrow> 'z hd_st_scheme \<Rightarrow> 'z hd_st_scheme" where
  "copy_from_user b off n buf s =
     fold (\<lambda>i s. data_put b (off + i) (get_fs_byte (buf + of_nat i) s) s) [0..<n] s"

text \<open>
  The loops of \<open>block_read\<close> and \<open>block_write\<close>; \<open>n\<close> bytes are left. The length of a round ignores the
  offset, so that a transfer that starts inside a block can run past its end.
\<close>

definition block_chars :: "nat \<Rightarrow> nat" where
  "block_chars n = (if n < BLOCK_SIZE then n else BLOCK_SIZE)"

fun block_rw_loop :: "bool \<Rightarrow> nat \<Rightarrow> int \<Rightarrow> int \<Rightarrow> nat \<Rightarrow> u32 \<Rightarrow> nat \<Rightarrow> nat \<Rightarrow> int \<Rightarrow> 'z hd_st_scheme \<Rightarrow>
    ('z hd_st_scheme, int \<times> int) kres" where
  "block_rw_loop wr 0 dev block off buf left moved fpos s = Ok (int moved, fpos) s"
| "block_rw_loop wr (Suc rounds) dev block off buf left moved fpos s =
     (if left = 0 then Ok (int moved, fpos) s
      else bnd (bread dev block s) (\<lambda>r s.
        case r of None \<Rightarrow> Ok (if moved \<noteq> 0 then int moved else - EIO, fpos) s
        | Some b \<Rightarrow>
           let n = block_chars left;
               s1 = (if wr then copy_from_user b off n buf s else copy_to_user b off n buf s);
               s2 = upd_bh b (\<lambda>x. x\<lparr>b_dirt := 1\<rparr>) s1
           in bnd (brelse (Some b) s2) (\<lambda>_ s.
                block_rw_loop wr rounds dev (s32 (block + 1)) 0 (buf + of_nat n) (left - n) (moved + n)
                  (s32 (fpos + int n)) s)))"

text \<open>Result and new file position; \<open>count\<close> rounds are enough because every round moves a byte.\<close>

definition block_write :: "int \<Rightarrow> int \<Rightarrow> u32 \<Rightarrow> int \<Rightarrow> 'z hd_st_scheme \<Rightarrow> ('z hd_st_scheme, int \<times> int) kres" where
  "block_write dev fpos buf count s =
     block_rw_loop True (nat count) dev (fpos sdiv 1024) (nat (fpos smod 1024)) buf (nat count) 0 fpos s"

definition block_read :: "int \<Rightarrow> int \<Rightarrow> u32 \<Rightarrow> int \<Rightarrow> 'z hd_st_scheme \<Rightarrow> ('z hd_st_scheme, int \<times> int) kres" where
  "block_read dev fpos buf count s =
     block_rw_loop False (nat count) dev (uw fpos div 1024) (nat (uw fpos mod 1024)) buf (nat count) 0 fpos s"

section \<open>The cache as a view of the disk\<close>

text \<open>
  All cached blocks belong to one device \<open>dv\<close> (the mounted partition). A buffer is unlocked between
  calls, a dirty one is up to date, an up-to-date one holds a block of the disk, and a clean one holds
  what the disk holds.
\<close>

definition disk_now :: "(bool \<Rightarrow> nat \<Rightarrow> nat \<Rightarrow> u8) \<Rightarrow> 'z hd_st_scheme \<Rightarrow> bool \<Rightarrow> nat \<Rightarrow> nat \<Rightarrow> u8" where
  "disk_now D s = store (drive_of D (hd_hist s))"

definition buf_ok :: "(bool \<Rightarrow> nat \<Rightarrow> nat \<Rightarrow> u8) \<Rightarrow> u16 \<Rightarrow> 'z hd_st_scheme \<Rightarrow> nat \<Rightarrow> bool" where
  "buf_ok D dv s b \<longleftrightarrow> b_lock (bh s b) = 0 \<and> b_wait (bh s b) = 0 \<and> (b_dev (bh s b) = 0 \<or> b_dev (bh s b) = dv) \<and>
     (b_dev (bh s b) = 0 \<longrightarrow> b_dirt (bh s b) = 0) \<and> (b_dirt (bh s b) \<noteq> 0 \<longrightarrow> b_uptodate (bh s b) \<noteq> 0) \<and>
     (b_uptodate (bh s b) \<noteq> 0 \<longrightarrow> b_dev (bh s b) \<noteq> 0 \<longrightarrow> on_disk b s) \<and>
     (b_uptodate (bh s b) \<noteq> 0 \<longrightarrow> b_dev (bh s b) \<noteq> 0 \<longrightarrow> b_dirt (bh s b) = 0 \<longrightarrow>
        (\<forall>k < 1024. b_data (bh s b) k = disk_bytes (disk_now D s) (bh_sector b s) k))"

definition data_ok :: "(bool \<Rightarrow> nat \<Rightarrow> nat \<Rightarrow> u8) \<Rightarrow> u16 \<Rightarrow> 'z hd_st_scheme \<Rightarrow> bool" where
  "data_ok D dv s \<longleftrightarrow> dv \<noteq> 0 \<and> parts_ok s \<and> good_drive D s \<and> hd_idle s \<and> (\<forall>b < nr_buffers s. buf_ok D dv s b) \<and>
     (\<forall>b < nr_buffers s. \<forall>c < nr_buffers s. b_dev (bh s b) \<noteq> 0 \<longrightarrow> b_dev (bh s c) = b_dev (bh s b) \<longrightarrow>
        b_blocknr (bh s c) = b_blocknr (bh s b) \<longrightarrow> c = b)"

definition holds :: "u16 \<Rightarrow> u16 \<Rightarrow> 'z hd_st_scheme \<Rightarrow> nat \<Rightarrow> bool" where
  "holds dv n s b \<longleftrightarrow> b_dev (bh s b) = dv \<and> b_blocknr (bh s b) = n \<and> b_uptodate (bh s b) \<noteq> 0"

definition block_of :: "(bool \<Rightarrow> nat \<Rightarrow> nat \<Rightarrow> u8) \<Rightarrow> u16 \<Rightarrow> 'z hd_st_scheme \<Rightarrow> u16 \<Rightarrow> nat \<Rightarrow> u8" where
  "block_of D dv s n k =
     (case find (holds dv n s) [0..<nr_buffers s] of Some b \<Rightarrow> b_data (bh s b) k
      | None \<Rightarrow> disk_bytes (disk_now D s) (first_sector s (nat (MINOR (uint dv))) n) k)"

text \<open>What a write-back changes: the flags of dirty buffers and the driver's own state.\<close>

definition synced :: "'z hd_st_scheme \<Rightarrow> 'z hd_st_scheme \<Rightarrow> bool" where
  "synced s t \<longleftrightarrow> (\<exists>h B q. t = s\<lparr>hd_hist := h, bh := B, request := q\<rparr> \<and>
     (\<forall>i. B i = bh s i \<or> b_dirt (bh s i) \<noteq> 0 \<and> B i = (bh s i)\<lparr>b_uptodate := 1, b_dirt := 0\<rparr>))"

lemma synced_intro:
  "t = s\<lparr>hd_hist := hd_hist t, bh := bh t, request := request t\<rparr> \<Longrightarrow>
   (\<And>i. bh t i = bh s i \<or> b_dirt (bh s i) \<noteq> 0 \<and> bh t i = (bh s i)\<lparr>b_uptodate := 1, b_dirt := 0\<rparr>) \<Longrightarrow> synced s t"
  unfolding synced_def by blast

lemma synced_refl [simp]: "synced s s"
  by (rule synced_intro) simp_all

lemma synced_trans: "synced s t \<Longrightarrow> synced t u \<Longrightarrow> synced s u"
proof -
  assume a: "synced s t" "synced t u"
  have "bh u i = bh s i \<or> b_dirt (bh s i) \<noteq> 0 \<and> bh u i = (bh s i)\<lparr>b_uptodate := 1, b_dirt := 0\<rparr>" for i
  proof -
    have "bh t i = bh s i \<or> b_dirt (bh s i) \<noteq> 0 \<and> bh t i = (bh s i)\<lparr>b_uptodate := 1, b_dirt := 0\<rparr>"
      using a(1) by (auto simp: synced_def)
    moreover have "bh u i = bh t i \<or> b_dirt (bh t i) \<noteq> 0 \<and> bh u i = (bh t i)\<lparr>b_uptodate := 1, b_dirt := 0\<rparr>"
      using a(2) by (auto simp: synced_def)
    ultimately show ?thesis by auto
  qed
  then show ?thesis using a by (intro synced_intro) (auto simp: synced_def)
qed

lemma synced_bh:
  assumes "synced s t"
  shows "b_dev (bh t i) = b_dev (bh s i)" "b_blocknr (bh t i) = b_blocknr (bh s i)" "b_count (bh t i) = b_count (bh s i)"
    "b_data (bh t i) = b_data (bh s i)" "b_lock (bh t i) = b_lock (bh s i)" "b_wait (bh t i) = b_wait (bh s i)"
    "b_next (bh t i) = b_next (bh s i)" "b_prev (bh t i) = b_prev (bh s i)"
    "b_next_free (bh t i) = b_next_free (bh s i)" "b_prev_free (bh t i) = b_prev_free (bh s i)"
    "hash_table t = hash_table s" "free_list t = free_list s" "nr_buffers t = nr_buffers s"
    "start_sect t = start_sect s" "nr_sects t = nr_sects s"
proof -
  obtain h B q where t: "t = s\<lparr>hd_hist := h, bh := B, request := q\<rparr>"
    and B: "B i = bh s i \<or> b_dirt (bh s i) \<noteq> 0 \<and> B i = (bh s i)\<lparr>b_uptodate := 1, b_dirt := 0\<rparr>"
    using assms by (auto simp: synced_def)
  show "b_dev (bh t i) = b_dev (bh s i)" "b_blocknr (bh t i) = b_blocknr (bh s i)" "b_count (bh t i) = b_count (bh s i)"
    "b_data (bh t i) = b_data (bh s i)" "b_lock (bh t i) = b_lock (bh s i)" "b_wait (bh t i) = b_wait (bh s i)"
    "b_next (bh t i) = b_next (bh s i)" "b_prev (bh t i) = b_prev (bh s i)"
    "b_next_free (bh t i) = b_next_free (bh s i)" "b_prev_free (bh t i) = b_prev_free (bh s i)"
    using B by (auto simp: t)
  show "hash_table t = hash_table s" "free_list t = free_list s" "nr_buffers t = nr_buffers s"
    "start_sect t = start_sect s" "nr_sects t = nr_sects s" by (simp_all add: t)
qed

lemma synced_queues: "synced s t \<Longrightarrow> queues_ok U fs hs t = queues_ok U fs hs s"
  by (simp add: queues_ok_def hash_of_def synced_bh)

lemma sector_apart:
  "n \<noteq> m \<Longrightarrow> first_sector s d n + 2 \<le> first_sector s d m \<or> first_sector s d m + 2 \<le> first_sector s d n"
  by (auto simp: first_sector_def word_unat_eq_iff)

lemma on_disk_cong:
  "b_dev (bh t b) = b_dev (bh s b) \<Longrightarrow> b_blocknr (bh t b) = b_blocknr (bh s b) \<Longrightarrow> nr_sects t = nr_sects s \<Longrightarrow>
   on_disk b t = on_disk b s"
  "b_dev (bh t b) = b_dev (bh s b) \<Longrightarrow> b_blocknr (bh t b) = b_blocknr (bh s b) \<Longrightarrow> start_sect t = start_sect s \<Longrightarrow>
   bh_sector b t = bh_sector b s"
  by (simp_all add: on_disk_def bh_sector_def first_sector_def)

lemma find_cong_bool: "(\<And>x. x \<in> set xs \<Longrightarrow> P x = Q x) \<Longrightarrow> find P xs = find Q xs"
  by (induction xs) auto

lemma find_Some_in: "find P xs = Some b \<Longrightarrow> b \<in> set xs \<and> P b"
  by (induction xs) (auto split: if_splits)

text \<open>The state after one write-back.\<close>

lemma written_back:
  assumes ok: "data_ok D dv s" and i: "i < nr_buffers s" "b_dirt (bh s i) \<noteq> 0"
    and t: "t = s\<lparr>hd_hist := h, bh := (bh s)(i := (bh s i)\<lparr>b_uptodate := 1, b_dirt := 0\<rparr>), request := (request s)(0 := q)\<rparr>"
    and q: "rq_hd q < 0" and st: "store (drive_of D h) = put_disk (bh_sector i s) (b_data (bh s i)) (disk_now D s)"
  shows "synced s t" "data_ok D dv t" "k < 1024 \<Longrightarrow> block_of D dv t n k = block_of D dv s n k"
proof -
  have bi: "b_uptodate (bh s i) \<noteq> 0" "b_dev (bh s i) = dv" "dv \<noteq> 0" "on_disk i s"
    using ok i by (auto simp: data_ok_def buf_ok_def)
  show sy: "synced s t" using i(2) by (intro synced_intro) (simp_all add: t)
  have dn: "disk_now D t = put_disk (bh_sector i s) (b_data (bh s i)) (disk_now D s)" using st by (simp add: t disk_now_def)
  have dev: "b_dev (bh t b) = b_dev (bh s b)" "b_blocknr (bh t b) = b_blocknr (bh s b)" "b_data (bh t b) = b_data (bh s b)"
    "on_disk b t = on_disk b s" "bh_sector b t = bh_sector b s" for b
    using synced_bh [OF sy] by (simp_all add: on_disk_def bh_sector_def first_sector_def)
  have bytes: "disk_bytes (disk_now D t) (first_sector s (nat (MINOR (uint dv))) m) k =
      (if m = b_blocknr (bh s i) then b_data (bh s i) k else disk_bytes (disk_now D s) (first_sector s (nat (MINOR (uint dv))) m) k)"
    if "k < 1024" for m k
  proof (cases "m = b_blocknr (bh s i)")
    case True
    then show ?thesis using disk_bytes_put [OF that] bi(2) by (simp add: dn bh_sector_def)
  next
    case False
    then show ?thesis
      using disk_bytes_put_other [OF that sector_apart [of "b_blocknr (bh s i)" m s "nat (MINOR (uint dv))"]] bi(2)
      by (simp add: dn bh_sector_def)
  qed
  have uniq: "b = i" if "b < nr_buffers s" "b_dev (bh s b) = dv" "b_blocknr (bh s b) = b_blocknr (bh s i)" for b
    using ok i(1) bi that by (auto simp: data_ok_def)
  have "buf_ok D dv t b" if b: "b < nr_buffers s" for b
  proof (cases "b = i")
    case True
    then show ?thesis
      using ok i bi bytes [of _ "b_blocknr (bh s i)"] by (auto simp: data_ok_def buf_ok_def dev) (auto simp: t bh_sector_def)
  next
    case False
    have tb: "bh t b = bh s b" using False by (simp add: t)
    have "disk_bytes (disk_now D t) (bh_sector b s) k = disk_bytes (disk_now D s) (bh_sector b s) k"
      if "b_dev (bh s b) = dv" "k < 1024" for k
      using False uniq [OF b that(1)] bytes [OF that(2), of "b_blocknr (bh s b)"] that(1) by (auto simp: bh_sector_def)
    moreover have "buf_ok D dv s b" using ok b by (simp add: data_ok_def)
    ultimately show ?thesis unfolding buf_ok_def tb dev(4,5) by auto
  qed
  moreover have "hd_idle t" using ok q by (auto simp: data_ok_def hd_idle_def t cur_def)
  moreover have "parts_ok t" "good_drive D t" using ok by (auto simp: data_ok_def parts_ok_def t)
  ultimately show "data_ok D dv t" using ok synced_bh [OF sy] by (simp add: data_ok_def)
  assume k: "k < 1024"
  have hold: "find (holds dv n t) [0..<nr_buffers t] = find (holds dv n s) [0..<nr_buffers s]"
    using bi synced_bh(13) [OF sy] by (auto intro!: find_cong_bool simp: holds_def t split: if_splits)
  show "block_of D dv t n k = block_of D dv s n k"
  proof (cases "find (holds dv n s) [0..<nr_buffers s]")
    case None
    then have "n \<noteq> b_blocknr (bh s i)" using bi i by (auto simp: find_None_iff holds_def)
    then show ?thesis
      using None hold bytes [OF k, of n] by (simp add: block_of_def first_sector_def t)
  next
    case (Some b)
    then show ?thesis using hold by (simp add: block_of_def dev)
  qed
qed

lemma sync_buffer_ok:
  assumes ok: "data_ok D dv s" and i: "i < nr_buffers s"
  shows "\<exists>t. sync_buffer i s = Ok () t \<and> synced s t \<and> data_ok D dv t \<and> b_dirt (bh t i) = 0 \<and>
    (\<forall>n. \<forall>k < 1024. block_of D dv t n k = block_of D dv s n k)"
proof (cases "b_dirt (bh s i) = 0")
  case True
  then show ?thesis using ok i
    by (intro exI [of _ s]) (auto simp: sync_buffer_def wait_on_buffer_free data_ok_def buf_ok_def)
next
  case False
  have b: "b_lock (bh s i) = 0" "b_wait (bh s i) = 0" "on_disk i s" "MAJOR (uint (b_dev (bh s i))) = 3"
    using ok i False by (auto simp: data_ok_def buf_ok_def on_disk_def Let_def)
  obtain q h where w: "rw_hd WRITE i s = Ok () (s\<lparr>hd_hist := h,
      bh := (bh s)(i := (bh s i)\<lparr>b_uptodate := 1, b_dirt := 0\<rparr>), request := (request s)(0 := q)\<rparr>)" "rq_hd q < 0"
    "store (drive_of D h) = put_disk (bh_sector i s) (b_data (bh s i)) (disk_now D s)"
    using rw_hd_write [of s D i] ok b by (auto simp: data_ok_def disk_now_def)
  note wb = written_back [OF ok i False refl w(2,3)]
  show ?thesis
    using wb w(1) False b
    by (intro exI [of _ "s\<lparr>hd_hist := h, bh := (bh s)(i := (bh s i)\<lparr>b_uptodate := 1, b_dirt := 0\<rparr>),
        request := (request s)(0 := q)\<rparr>"]) (auto simp: sync_buffer_def wait_on_buffer_free ll_rw_block_def)
qed

lemma synced_clean: "synced s t \<Longrightarrow> b_dirt (bh s i) = 0 \<Longrightarrow> bh t i = bh s i"
  by (auto simp: synced_def)

lemma sync_dev_ok:
  assumes ok: "data_ok D dv s"
  shows "\<exists>t. sync_dev (uint dev) s = Ok () t \<and> synced s t \<and> data_ok D dv t \<and>
    (\<forall>b < nr_buffers s. b_dev (bh s b) = dev \<longrightarrow> b_dirt (bh t b) = 0) \<and>
    (\<forall>n. \<forall>k < 1024. block_of D dv t n k = block_of D dv s n k)"
proof -
  define I where "I js t \<longleftrightarrow> synced s t \<and> data_ok D dv t \<and> (\<forall>n. \<forall>k < 1024. block_of D dv t n k = block_of D dv s n k) \<and>
      set js \<subseteq> {..<nr_buffers s} \<and>
      (\<forall>b < nr_buffers s. b \<notin> set js \<longrightarrow> b_dev (bh s b) = dev \<longrightarrow> b_dirt (bh t b) = 0)" for js t
  have step: "\<exists>u. (if uint (b_dev (bh t i)) \<noteq> uint dev then Ok () t else sync_buffer i t) = Ok () u \<and> I js u"
    if inv: "I (i # js) t" for i js t
  proof (cases "b_dev (bh t i) = dev")
    case False
    then have "I js t" using inv by (auto simp: I_def synced_bh)
    then show ?thesis using False by (simp add: word_uint_eq_iff)
  next
    case True
    have sy: "synced s t" and d: "data_ok D dv t" and i: "i < nr_buffers t"
      using inv by (auto simp: I_def synced_bh)
    obtain u where u: "sync_buffer i t = Ok () u" "synced t u" "data_ok D dv u" "b_dirt (bh u i) = 0"
      "\<forall>n. \<forall>k < 1024. block_of D dv u n k = block_of D dv t n k"
      using sync_buffer_ok [OF d i] by blast
    have "I js u"
      using inv u synced_trans [OF sy u(2)] synced_clean [OF u(2)] by (auto simp: I_def)
    then show ?thesis using True u(1) by simp
  qed
  have "I [0..<nr_buffers s] s" using ok by (auto simp: I_def)
  then have "\<exists>t. sync_dev (uint dev) s = Ok () t \<and> I [] t"
    unfolding sync_dev_def by (rule for_each_total) (rule step)
  then obtain t where "sync_dev (uint dev) s = Ok () t" "I [] t" by blast
  then show ?thesis by (auto simp: I_def)
qed

section \<open>Looking for a buffer\<close>

lemma scan_loop_finds:
  assumes ok: "queues_ok U fs hs s" and fs: "fs = pre @ as @ b # bs" and used: "\<forall>x \<in> set as. b_count (bh s x) \<noteq> 0"
    and b: "b_count (bh s b) = 0" "b_lock (bh s b) = 0"
  shows "scan_loop (hd (as @ [b])) s = Some (Ok b s)"
  using fs used
proof (induction as arbitrary: pre)
  case Nil
  then show ?case using b by (subst scan_loop.simps) (simp add: scan_step_def wait_on_buffer_free)
next
  case (Cons x as)
  have r: "ring (\<lambda>i. b_next_free (bh s i)) (pre @ x # as @ b # bs)" and fl: "free_list s = hd fs"
    using ok Cons.prems(1) by (auto simp: queues_ok_def)
  have n: "b_next_free (bh s x) = Some (hd (as @ [b]))" using ring_succ [OF r] by (cases as) auto
  have "hd (as @ [b]) \<noteq> free_list s"
    using r fl Cons.prems(1) by (cases pre; cases as) (auto simp: ring_def)
  then have "scan_step x s = Ok (Inl (hd (as @ [b]))) s" using n Cons.prems(2) by (simp add: scan_step_def)
  then have "scan_loop x s = scan_loop (hd (as @ [b])) s" by (subst scan_loop.simps) simp
  then show ?case using Cons.IH [of "pre @ [x]"] Cons.prems by simp
qed

lemma scan_finds_free:
  assumes ok: "queues_ok U fs hs s" and c: "c \<in> U" "b_count (bh s c) = 0" and unlocked: "\<forall>x \<in> U. b_lock (bh s x) = 0"
  shows "\<exists>b \<in> U. b_count (bh s b) = 0 \<and> scan_loop (free_list s) s = Some (Ok b s)"
proof -
  have U: "set fs = U" "free_list s = hd fs" using ok by (auto simp: queues_ok_def)
  then have "\<exists>x \<in> set fs. b_count (bh s x) = 0" using c by auto
  then obtain as b bs where sp: "fs = as @ b # bs" "b_count (bh s b) = 0" "\<forall>x \<in> set as. b_count (bh s x) \<noteq> 0"
    by (elim split_list_first_propE) auto
  have "b_lock (bh s b) = 0" using unlocked sp(1) U by auto
  then have "scan_loop (hd (as @ [b])) s = Some (Ok b s)" using scan_loop_finds [OF ok, of "[]" as b bs] sp by simp
  moreover have "hd (as @ [b]) = free_list s" using sp(1) U(2) by (cases as) auto
  ultimately show ?thesis using sp U by auto
qed

section \<open>getblk\<close>

text \<open>
  The cache between two calls: queues and data are in order and nobody waits for a buffer. A call of the
  cache changes, outside the buffer it is about, only links, write-back flags and the driver's state
  (and the word of the page directory that a write through NULL hits).
\<close>

definition cache_ok :: "(bool \<Rightarrow> nat \<Rightarrow> nat \<Rightarrow> u8) \<Rightarrow> u16 \<Rightarrow> 'z hd_st_scheme \<Rightarrow> bool" where
  "cache_ok D dv s \<longleftrightarrow> data_ok D dv s \<and> buffer_wait s = 0 \<and> nr_buffers s \<ge> 2 \<and>
     (\<exists>fs hs. queues_ok {..<nr_buffers s} fs hs s)"

definition kept :: "nat set \<Rightarrow> 'z hd_st_scheme \<Rightarrow> 'z hd_st_scheme \<Rightarrow> bool" where
  "kept X s t \<longleftrightarrow> (\<exists>B H f m h q. t = s\<lparr>bh := B, hash_table := H, free_list := f, pm := m, hd_hist := h, request := q\<rparr> \<and>
     (\<forall>w. w \<noteq> 4 \<longrightarrow> m w = pm s w) \<and>
     (\<forall>i. i \<notin> X \<longrightarrow> core (B i) = core (bh s i) \<or>
        b_dirt (bh s i) \<noteq> 0 \<and> core (B i) = core ((bh s i)\<lparr>b_uptodate := 1, b_dirt := 0\<rparr>)))"

lemma kept_intro:
  "t = s\<lparr>bh := bh t, hash_table := hash_table t, free_list := free_list t, pm := pm t, hd_hist := hd_hist t,
     request := request t\<rparr> \<Longrightarrow> (\<And>w. w \<noteq> 4 \<Longrightarrow> pm t w = pm s w) \<Longrightarrow>
   (\<And>i. i \<notin> X \<Longrightarrow> core (bh t i) = core (bh s i) \<or>
      b_dirt (bh s i) \<noteq> 0 \<and> core (bh t i) = core ((bh s i)\<lparr>b_uptodate := 1, b_dirt := 0\<rparr>)) \<Longrightarrow> kept X s t"
  unfolding kept_def by blast

lemma kept_refl [simp]: "kept X s s"
  by (rule kept_intro) simp_all

lemma kept_sel:
  assumes "kept X s t"
  shows "nr_buffers t = nr_buffers s" "start_sect t = start_sect s" "nr_sects t = nr_sects s" "buffer_wait t = buffer_wait s"
    "current t = current s" "ts t = ts s" "umem t = umem s"
    "t = s\<lparr>bh := bh t, hash_table := hash_table t, free_list := free_list t, pm := pm t, hd_hist := hd_hist t,
       request := request t\<rparr>" "w \<noteq> 4 \<Longrightarrow> pm t w = pm s w"
    "i \<notin> X \<Longrightarrow> core (bh t i) = core (bh s i) \<or>
      b_dirt (bh s i) \<noteq> 0 \<and> core (bh t i) = core ((bh s i)\<lparr>b_uptodate := 1, b_dirt := 0\<rparr>)"
  using assms by (auto simp: kept_def)

lemma core_trans:
  assumes "core y = core x \<or> b_dirt x \<noteq> 0 \<and> core y = core (x\<lparr>b_uptodate := 1, b_dirt := 0\<rparr>)"
    "core z = core y \<or> b_dirt y \<noteq> 0 \<and> core z = core (y\<lparr>b_uptodate := 1, b_dirt := 0\<rparr>)"
  shows "core z = core x \<or> b_dirt x \<noteq> 0 \<and> core z = core (x\<lparr>b_uptodate := 1, b_dirt := 0\<rparr>)"
  using assms by (auto simp: core_def)

lemma kept_trans: "kept X s t \<Longrightarrow> kept X t u \<Longrightarrow> kept X s u"
proof -
  assume a: "kept X s t" "kept X t u"
  show ?thesis
  proof (rule kept_intro)
    show "u = s\<lparr>bh := bh u, hash_table := hash_table u, free_list := free_list u, pm := pm u, hd_hist := hd_hist u, request := request u\<rparr>"
      using a by (auto simp: kept_def)
    show "pm u w = pm s w" if "w \<noteq> 4" for w using kept_sel(9) [OF a(1) that] kept_sel(9) [OF a(2) that] by simp
    show "core (bh u i) = core (bh s i) \<or> b_dirt (bh s i) \<noteq> 0 \<and> core (bh u i) = core ((bh s i)\<lparr>b_uptodate := 1, b_dirt := 0\<rparr>)"
      if "i \<notin> X" for i by (rule core_trans [OF kept_sel(10) [OF a(1) that] kept_sel(10) [OF a(2) that]])
  qed
qed

lemma kept_upd: "i \<in> X \<Longrightarrow> kept X s (upd_bh i f s)"
  by (rule kept_intro) (auto simp: upd_bh_def)

lemma kept_synced: "synced s t \<Longrightarrow> kept X s t"
proof (rule kept_intro)
  assume sy: "synced s t"
  show "t = s\<lparr>bh := bh t, hash_table := hash_table t, free_list := free_list t, pm := pm t, hd_hist := hd_hist t, request := request t\<rparr>"
    "\<And>w. w \<noteq> 4 \<Longrightarrow> pm t w = pm s w" using sy by (auto simp: synced_def)
  have "bh t i = bh s i \<or> b_dirt (bh s i) \<noteq> 0 \<and> bh t i = (bh s i)\<lparr>b_uptodate := 1, b_dirt := 0\<rparr>" for i
    using sy by (auto simp: synced_def)
  then show "core (bh t i) = core (bh s i) \<or> b_dirt (bh s i) \<noteq> 0 \<and> core (bh t i) = core ((bh s i)\<lparr>b_uptodate := 1, b_dirt := 0\<rparr>)" for i
    by metis
qed

lemma kept_relinked: "relinked s t \<Longrightarrow> kept X s t"
  by (rule kept_intro) (auto simp: relinked_def)

lemma kept_relinked_pm: "relinked_pm s t \<Longrightarrow> kept X s t"
  by (rule kept_intro) (auto simp: relinked_pm_def relinked_def stl_def lw_def)

text \<open>States that agree on everything the data invariant speaks about.\<close>

definition same_data :: "'z hd_st_scheme \<Rightarrow> 'z hd_st_scheme \<Rightarrow> bool" where
  "same_data s t \<longleftrightarrow> (\<forall>i. b_data (bh t i) = b_data (bh s i) \<and> b_dev (bh t i) = b_dev (bh s i) \<and>
       b_blocknr (bh t i) = b_blocknr (bh s i) \<and> b_uptodate (bh t i) = b_uptodate (bh s i) \<and>
       b_dirt (bh t i) = b_dirt (bh s i) \<and> b_lock (bh t i) = b_lock (bh s i) \<and> b_wait (bh t i) = b_wait (bh s i)) \<and>
     t = s\<lparr>bh := bh t, hash_table := hash_table t, free_list := free_list t, pm := pm t\<rparr>"

lemma same_data_sel:
  assumes "same_data s t"
  shows "b_data (bh t i) = b_data (bh s i)" "b_dev (bh t i) = b_dev (bh s i)" "b_blocknr (bh t i) = b_blocknr (bh s i)"
    "b_uptodate (bh t i) = b_uptodate (bh s i)" "b_dirt (bh t i) = b_dirt (bh s i)" "b_lock (bh t i) = b_lock (bh s i)"
    "b_wait (bh t i) = b_wait (bh s i)" "nr_buffers t = nr_buffers s" "start_sect t = start_sect s" "nr_sects t = nr_sects s"
    "hd_hist t = hd_hist s" "hd_idle t = hd_idle s" "good_drive D t = good_drive D s" "buffer_wait t = buffer_wait s"
proof -
  have t: "t = s\<lparr>bh := bh t, hash_table := hash_table t, free_list := free_list t, pm := pm t\<rparr>"
    using assms by (simp add: same_data_def)
  show "b_data (bh t i) = b_data (bh s i)" "b_dev (bh t i) = b_dev (bh s i)" "b_blocknr (bh t i) = b_blocknr (bh s i)"
    "b_uptodate (bh t i) = b_uptodate (bh s i)" "b_dirt (bh t i) = b_dirt (bh s i)" "b_lock (bh t i) = b_lock (bh s i)"
    "b_wait (bh t i) = b_wait (bh s i)" using assms by (auto simp: same_data_def)
  show "nr_buffers t = nr_buffers s" "start_sect t = start_sect s" "nr_sects t = nr_sects s"
    "hd_hist t = hd_hist s" "hd_idle t = hd_idle s" "good_drive D t = good_drive D s" "buffer_wait t = buffer_wait s"
    by (subst t, simp add: hd_idle_def cur_def good_drive_def)+
qed

lemma same_data_ok:
  assumes "same_data s t"
  shows "data_ok D dv t = data_ok D dv s" "block_of D dv t = block_of D dv s"
proof -
  note e = same_data_sel [OF assms]
  have "on_disk b t = on_disk b s" "bh_sector b t = bh_sector b s" for b
    by (simp_all add: on_disk_def bh_sector_def first_sector_def e)
  then have "buf_ok D dv t b = buf_ok D dv s b" for b by (simp add: buf_ok_def e disk_now_def)
  moreover have "parts_ok t = parts_ok s" by (simp add: parts_ok_def e)
  ultimately show "data_ok D dv t = data_ok D dv s" by (simp add: data_ok_def e)
  have "holds dv n t = holds dv n s" for n by (simp add: holds_def e fun_eq_iff)
  then have "block_of D dv t n k = block_of D dv s n k" for n k
    by (simp add: block_of_def e disk_now_def first_sector_def cong: option.case_cong)
  then show "block_of D dv t = block_of D dv s" by (simp add: fun_eq_iff)
qed

lemma same_data_count: "same_data s (upd_bh b (\<lambda>x. x\<lparr>b_count := f x\<rparr>) s)"
  by (auto simp: same_data_def upd_bh_def)

lemma same_data_relinked_pm: "relinked_pm s t \<Longrightarrow> same_data s t"
  by (auto simp: same_data_def relinked_pm_def relinked_def core_def stl_def)

lemma same_data_relinked: "relinked s t \<Longrightarrow> same_data s t"
  by (rule same_data_relinked_pm) (auto simp: relinked_pm_def)

text \<open>Changing a buffer outside the queues, or a field they do not depend on, keeps the queues.\<close>

lemma queues_ok_upd:
  assumes "queues_ok U fs hs s"
    and "\<And>x. b_next (f x) = b_next x \<and> b_prev (f x) = b_prev x \<and> b_next_free (f x) = b_next_free x \<and> b_prev_free (f x) = b_prev_free x"
    and "b \<in> U \<Longrightarrow> b_dev (f (bh s b)) = b_dev (bh s b) \<and> b_blocknr (f (bh s b)) = b_blocknr (bh s b)"
  shows "queues_ok U fs hs (upd_bh b f s)"
proof -
  have l: "b_next (bh (upd_bh b f s) i) = b_next (bh s i)" "b_prev (bh (upd_bh b f s) i) = b_prev (bh s i)"
    "b_next_free (bh (upd_bh b f s) i) = b_next_free (bh s i)" "b_prev_free (bh (upd_bh b f s) i) = b_prev_free (bh s i)" for i
    using assms(2) by simp_all
  have m: "b_dev (bh (upd_bh b f s) c) = b_dev (bh s c)" "b_blocknr (bh (upd_bh b f s) c) = b_blocknr (bh s c)"
    "hash_of c (upd_bh b f s) = hash_of c s" if "c \<in> U" for c
    using that assms(3) by (auto simp: hash_of_def)
  have "{c \<in> U. b_dev (bh (upd_bh b f s) c) \<noteq> 0 \<and> hash_of c (upd_bh b f s) = h} =
      {c \<in> U. b_dev (bh s c) \<noteq> 0 \<and> hash_of c s = h}" for h
    using m by (auto simp del: upd_bh_sel(1))
  then show ?thesis using assms(1) m unfolding queues_ok_def l by (simp add: upd_bh_sel(2,3) del: upd_bh_sel(1))
qed

text \<open>Giving a clean buffer to a block that no buffer holds: no block changes.\<close>

definition reuse :: "u16 \<Rightarrow> u16 \<Rightarrow> buffer_head \<Rightarrow> buffer_head" where
  "reuse dv n x = x\<lparr>b_dev := dv, b_blocknr := n, b_dirt := 0, b_uptodate := 0\<rparr>"

lemma reuse_ok:
  assumes ok: "data_ok D dv s" and b: "b < nr_buffers s" "b_dirt (bh s b) = 0"
    and new: "\<And>c. c < nr_buffers s \<Longrightarrow> c \<noteq> b \<Longrightarrow> b_dev (bh s c) = dv \<Longrightarrow> b_blocknr (bh s c) \<noteq> n"
  shows "data_ok D dv (upd_bh b (reuse dv n) s)"
    "k < 1024 \<Longrightarrow> block_of D dv (upd_bh b (reuse dv n) s) m k = block_of D dv s m k"
proof -
  let ?t = "upd_bh b (reuse dv n) s"
  have e: "nr_buffers ?t = nr_buffers s" "disk_now D ?t = disk_now D s" "start_sect ?t = start_sect s" "nr_sects ?t = nr_sects s"
    "hd_idle ?t = hd_idle s" "good_drive D ?t = good_drive D s" "parts_ok ?t = parts_ok s"
    by (simp_all add: upd_bh_def disk_now_def hd_idle_def cur_def good_drive_def parts_ok_def)
  have other: "bh ?t c = bh s c" "on_disk c ?t = on_disk c s" "bh_sector c ?t = bh_sector c s" if "c \<noteq> b" for c
    using that by (simp_all add: on_disk_def bh_sector_def first_sector_def e)
  have old: "buf_ok D dv s c" if "c < nr_buffers s" for c using ok that by (simp add: data_ok_def)
  have "buf_ok D dv ?t c" if c: "c < nr_buffers s" for c
  proof (cases "c = b")
    case True
    then show ?thesis using old [OF b(1)] ok by (simp add: buf_ok_def reuse_def data_ok_def)
  next
    case False
    then show ?thesis using old [OF c] unfolding buf_ok_def other [OF False] e by simp
  qed
  moreover have "c = d" if "c < nr_buffers s" "d < nr_buffers s" "b_dev (bh ?t d) \<noteq> 0" "b_dev (bh ?t c) = b_dev (bh ?t d)"
      "b_blocknr (bh ?t c) = b_blocknr (bh ?t d)" for c d
  proof (cases "c = b \<or> d = b")
    case True
    then show ?thesis using that new [of c] new [of d] by (auto simp: reuse_def split: if_splits)
  next
    case False
    then show ?thesis using ok that by (auto simp: data_ok_def)
  qed
  ultimately show "data_ok D dv ?t" using ok unfolding data_ok_def e by simp
  assume k: "k < 1024"
  have uniq: "c = d" if "c < nr_buffers s" "d < nr_buffers s" "holds dv m s c" "holds dv m s d" for c d
    using ok that by (auto simp: data_ok_def holds_def)
  have nh: "\<not> holds dv m ?t b" by (simp add: holds_def reuse_def)
  have ho: "holds dv m ?t c = holds dv m s c" if "c \<noteq> b" for c using that by (simp add: holds_def)
  show "block_of D dv ?t m k = block_of D dv s m k"
  proof (cases "holds dv m s b")
    case True
    have "find (holds dv m ?t) [0..<nr_buffers s] = None"
      using uniq [OF _ b(1) _ True] nh ho by (auto simp: find_None_iff) (metis)
    moreover have "find (holds dv m s) [0..<nr_buffers s] = Some b"
    proof -
      obtain c where c: "find (holds dv m s) [0..<nr_buffers s] = Some c"
        using True b(1) by (cases "find (holds dv m s) [0..<nr_buffers s]") (auto simp: find_None_iff)
      then show ?thesis using find_Some_in [OF c] uniq b(1) True by auto
    qed
    moreover have "b_data (bh s b) k = disk_bytes (disk_now D s) (first_sector s (nat (MINOR (uint dv))) m) k"
      using old [OF b(1)] True b(2) k ok by (auto simp: buf_ok_def holds_def bh_sector_def data_ok_def)
    ultimately show ?thesis by (simp add: block_of_def e first_sector_def)
  next
    case False
    have "find (holds dv m ?t) [0..<nr_buffers s] = find (holds dv m s) [0..<nr_buffers s]"
      using nh ho False by (intro find_cong_bool) metis
    then show ?thesis
      using False find_Some_in [of "holds dv m s" "[0..<nr_buffers s]"]
      by (auto simp: block_of_def e first_sector_def split: option.splits if_splits)
  qed
qed

lemma getblk_miss_ok:
  assumes ok: "cache_ok D dv s" and free: "c < nr_buffers s" "b_count (bh s c) = 0"
    and miss: "find_buffer (uint dv) (uint n) s = Some None"
  shows "\<exists>b t. getblk_miss (uint dv) (uint n) s = Ok (Some b) t \<and> cache_ok D dv t \<and> kept {b} s t \<and> b < nr_buffers s \<and>
    b_count (bh s b) = 0 \<and> b_count (bh t b) = 1 \<and> b_dev (bh t b) = dv \<and> b_blocknr (bh t b) = n \<and>
    b_uptodate (bh t b) = 0 \<and> b_dirt (bh t b) = 0 \<and> (\<forall>m. \<forall>k < 1024. block_of D dv t m k = block_of D dv s m k)"
proof -
  let ?U = "{..<nr_buffers s}"
  obtain fs hs where q: "queues_ok ?U fs hs s" and d: "data_ok D dv s" and nr: "nr_buffers s \<ge> 2" and bw: "buffer_wait s = 0"
    using ok by (auto simp: cache_ok_def)
  have dv: "dv \<noteq> 0" using d by (simp add: data_ok_def)
  have nokey: "\<not> (b_dev (bh s i) = dv \<and> b_blocknr (bh s i) = n)" if "i < nr_buffers s" for i
    using find_buffer_ok [OF q, of "uint dv" "uint n"] miss that dv by (auto simp: unsigned_eq_0_iff)
  have unl: "\<forall>x \<in> ?U. b_lock (bh s x) = 0" using d by (auto simp: data_ok_def buf_ok_def)
  obtain b where b: "b < nr_buffers s" "b_count (bh s b) = 0" "scan_loop (free_list s) s = Some (Ok b s)"
    using scan_finds_free [OF q _ free(2) unl] free(1) by auto
  define s1 where "s1 = upd_bh b (\<lambda>x. x\<lparr>b_count := b_count x + 1\<rparr>) s"
  have q1: "queues_ok ?U fs hs s1" unfolding s1_def by (intro queues_ok_upd [OF q]) auto
  have sd1: "same_data s s1" unfolding s1_def by (rule same_data_count)
  have "?U \<noteq> {b}"
  proof
    assume "?U = {b}"
    then have "card ?U = 1" by (simp only: card.empty card_insert_disjoint) simp
    then show False using nr by simp
  qed
  then obtain s2 where s2: "remove_from_queues b s1 = Ok () s2" "relinked s1 s2"
    and q2: "queues_ok (?U - {b}) (removeAll b fs) (\<lambda>h. removeAll b (hs h)) s2"
    using remove_from_queues_ok [OF q1, of b] b(1) by auto
  note sd2 = same_data_relinked [OF s2(2)]
  have d2: "data_ok D dv s2" using d by (simp add: same_data_ok [OF sd1] same_data_ok [OF sd2])
  have nr2: "nr_buffers s2 = nr_buffers s" by (simp add: same_data_sel [OF sd2] same_data_sel [OF sd1])
  have "\<exists>s3. (if b_dirt (bh s2 b) \<noteq> 0 then sync_dev (uint (b_dev (bh s2 b))) s2 else Ok () s2) = Ok () s3 \<and>
      synced s2 s3 \<and> data_ok D dv s3 \<and> b_dirt (bh s3 b) = 0 \<and> (\<forall>m. \<forall>k < 1024. block_of D dv s3 m k = block_of D dv s2 m k)"
  proof (cases "b_dirt (bh s2 b) = 0")
    case False
    then show ?thesis using sync_dev_ok [OF d2, of "b_dev (bh s2 b)"] b(1) nr2 by auto
  qed (use d2 in auto)
  then obtain s3 where s3: "(if b_dirt (bh s2 b) \<noteq> 0 then sync_dev (uint (b_dev (bh s2 b))) s2 else Ok () s2) = Ok () s3"
    "synced s2 s3" "data_ok D dv s3" "b_dirt (bh s3 b) = 0" "\<forall>m. \<forall>k < 1024. block_of D dv s3 m k = block_of D dv s2 m k"
    by blast
  have q3: "queues_ok (?U - {b}) (removeAll b fs) (\<lambda>h. removeAll b (hs h)) s3" using q2 by (simp add: synced_queues [OF s3(2)])
  have nr3: "nr_buffers s3 = nr_buffers s" using nr2 by (simp add: synced_bh [OF s3(2)])
  have key3: "b_dev (bh s3 i) = b_dev (bh s i)" "b_blocknr (bh s3 i) = b_blocknr (bh s i)" for i
    by (simp_all add: synced_bh [OF s3(2)] same_data_sel [OF sd2] same_data_sel [OF sd1])
  define s4 where "s4 = upd_bh b (reuse dv n) s3"
  have new3: "b_blocknr (bh s3 c) \<noteq> n" if "c < nr_buffers s3" "c \<noteq> b" "b_dev (bh s3 c) = dv" for c
    using nokey [of c] that nr3 key3 by simp
  have b3: "b < nr_buffers s3" using b(1) nr3 by simp
  have d4: "data_ok D dv s4" "\<And>m k. k < 1024 \<Longrightarrow> block_of D dv s4 m k = block_of D dv s3 m k"
    unfolding s4_def using reuse_ok [OF s3(3) b3 s3(4) new3] by blast+
  have q4: "queues_ok (?U - {b}) (removeAll b fs) (\<lambda>h. removeAll b (hs h)) s4"
    unfolding s4_def by (intro queues_ok_upd [OF q3]) (auto simp: reuse_def)
  have f4: "find_buffer (uint dv) (uint n) s4 = Some None"
  proof -
    obtain r where r: "find_buffer (uint dv) (uint n) s4 = Some r"
      "\<forall>i. r = Some i \<longleftrightarrow> i \<in> ?U - {b} \<and> uint dv \<noteq> 0 \<and> uint (b_dev (bh s4 i)) = uint dv \<and> uint (b_blocknr (bh s4 i)) = uint n"
      using find_buffer_ok [OF q4] by blast
    have "r \<noteq> Some i" for i
    proof
      assume "r = Some i"
      then have i: "i \<in> ?U - {b}" "uint (b_dev (bh s4 i)) = uint dv" "uint (b_blocknr (bh s4 i)) = uint n" using r(2) by blast+
      then have "b_dev (bh s i) = dv" "b_blocknr (bh s i) = n" using key3 [of i] by (auto simp: s4_def intro: word_uint_eqI)
      then show False using nokey [of i] i(1) by simp
    qed
    then show ?thesis using r(1) by (cases r) auto
  qed
  define t where "t = insert_into_queues b s4"
  have new4: "b_blocknr (bh s4 i) \<noteq> b_blocknr (bh s4 b)" if "i \<in> ?U - {b}" "b_dev (bh s4 i) = b_dev (bh s4 b)" for i
  proof -
    have "i < nr_buffers s" "b_dev (bh s i) = dv" "b_blocknr (bh s4 i) = b_blocknr (bh s i)" "b_blocknr (bh s4 b) = n"
      using that key3 [of i] by (auto simp: s4_def reuse_def)
    then show ?thesis using nokey [of i] by simp
  qed
  have qt: "\<exists>fs hs. queues_ok ?U fs hs t"
    using insert_into_queues_ok [OF q4, of b] new4 b(1) unfolding t_def by (auto simp: insert_absorb)
  obtain l where "b_prev_free (bh s4 (free_list s4)) = Some l" "free_list s4 \<noteq> b"
  proof -
    have "removeAll b fs \<noteq> []" "free_list s4 = hd (removeAll b fs)" "set (removeAll b fs) = ?U - {b}"
      "ring (\<lambda>i. b_prev_free (bh s4 i)) (rev (removeAll b fs))" using q4 by (auto simp: queues_ok_def ring_def)
    then show ?thesis
      using that ring_rev_prev [of "\<lambda>i. b_prev_free (bh s4 i)" "[]" "hd (removeAll b fs)" "tl (removeAll b fs)"]
        hd_in_set [of "removeAll b fs"] by auto
  qed
  then have rt: "relinked_pm s4 t" unfolding t_def using insert_links [of s4 l b] by blast
  note sdt = same_data_relinked_pm [OF rt]
  have core_t: "core (bh t b) = core (bh s4 b)" by (rule relinked_pm_core [OF rt])
  have cnt: "b_count (bh s4 b) = 1"
  proof -
    have "b_count (bh s2 b) = b_count (bh s1 b)" using relinked_core [OF s2(2), of b] by (simp add: core_def)
    then show ?thesis using b(2) by (simp add: s4_def reuse_def synced_bh [OF s3(2)] s1_def)
  qed
  have "getblk_miss (uint dv) (uint n) s = Ok (Some b) t"
    using b(3) s2(1) s3(1) f4
    by (simp add: getblk_miss_def s1_def [symmetric] t_def s4_def reuse_def [abs_def] Let_def)
  moreover have k: "kept {b} s t"
  proof -
    have "kept {b} s s1" "kept {b} s3 s4" by (simp_all add: s1_def s4_def kept_upd)
    then show ?thesis
      using kept_relinked [OF s2(2), of "{b}"] kept_synced [OF s3(2), of "{b}"] kept_relinked_pm [OF rt, of "{b}"]
      by (meson kept_trans)
  qed
  moreover have "cache_ok D dv t"
    using qt d4(1) nr bw by (simp add: cache_ok_def same_data_ok [OF sdt] kept_sel(1,4) [OF k])
  moreover have "block_of D dv t m k = block_of D dv s m k" if "k < 1024" for m k
    using that d4(2) s3(5) by (simp add: same_data_ok [OF sdt] same_data_ok [OF sd2] same_data_ok [OF sd1])
  ultimately show ?thesis
    using b core_t cnt by (intro exI [of _ b] exI [of _ t]) (auto simp: core_def s4_def reuse_def)
qed

text \<open>A block that is in the cache is found there.\<close>

lemma getblk_hit_ok:
  assumes ok: "cache_ok D dv s" and b: "b < nr_buffers s" "b_dev (bh s b) = dv" "b_blocknr (bh s b) = n"
  shows "getblk (uint dv) (uint n) s = Ok b (upd_bh b (\<lambda>x. x\<lparr>b_count := b_count x + 1\<rparr>) s)" (is "_ = Ok b ?t")
proof -
  obtain fs hs where q: "queues_ok {..<nr_buffers s} fs hs s" and d: "data_ok D dv s" using ok by (auto simp: cache_ok_def)
  have dv: "uint dv \<noteq> 0" using d by (simp add: data_ok_def unsigned_eq_0_iff)
  have f: "find_buffer (uint dv) (uint n) s = Some (Some b)"
    using find_buffer_ok [OF q, of "uint dv" "uint n"] b dv by (metis lessThan_iff)
  have "b_lock (bh s b) = 0" using d b(1) by (simp add: data_ok_def buf_ok_def)
  then have "get_hash_try (uint dv) (uint n) s = Ok (Some (Some b)) ?t"
    using f b by (simp add: get_hash_try_def wait_on_buffer_free)
  then have "getblk_try (uint dv) (uint n) s = Ok (Some b) ?t"
    by (simp add: getblk_try_def get_hash_table_def retry_done)
  then show ?thesis by (simp add: getblk_def retry_done)
qed

lemma count_cache_ok: "cache_ok D dv s \<Longrightarrow> cache_ok D dv (upd_bh b (\<lambda>x. x\<lparr>b_count := f x\<rparr>) s)"
proof -
  assume ok: "cache_ok D dv s"
  let ?t = "upd_bh b (\<lambda>x. x\<lparr>b_count := f x\<rparr>) s"
  obtain fs hs where "queues_ok {..<nr_buffers s} fs hs s" using ok by (auto simp: cache_ok_def)
  then have "queues_ok {..<nr_buffers s} fs hs ?t" by (intro queues_ok_upd) auto
  then show ?thesis
    using ok same_data_ok(1) [OF same_data_count, of D dv b f s] same_data_sel(14) [OF same_data_count, of b f s]
    by (auto simp: cache_ok_def)
qed

text \<open>\<open>getblk\<close> returns the buffer of the block, with one more user.\<close>

definition has_free :: "'z hd_st_scheme \<Rightarrow> bool" where
  "has_free s \<longleftrightarrow> (\<exists>c < nr_buffers s. b_count (bh s c) = 0)"

definition got :: "u16 \<Rightarrow> u16 \<Rightarrow> nat \<Rightarrow> 'z hd_st_scheme \<Rightarrow> 'z hd_st_scheme \<Rightarrow> bool" where
  "got dv n b s t \<longleftrightarrow> b < nr_buffers s \<and> b_dev (bh t b) = dv \<and> b_blocknr (bh t b) = n \<and>
     b_count (bh t b) = b_count (bh s b) + 1 \<and> kept {b} s t \<and>
     (b_count (bh s b) \<noteq> 0 \<longrightarrow> b_dev (bh s b) = dv \<and> b_blocknr (bh s b) = n)"

lemma getblk_ok:
  assumes ok: "cache_ok D dv s" and free: "has_free s"
  shows "\<exists>b t. getblk (uint dv) (uint n) s = Ok b t \<and> cache_ok D dv t \<and> got dv n b s t \<and>
    (\<forall>m. \<forall>k < 1024. block_of D dv t m k = block_of D dv s m k)"
proof (cases "\<exists>b < nr_buffers s. b_dev (bh s b) = dv \<and> b_blocknr (bh s b) = n")
  case True
  then obtain b where b: "b < nr_buffers s" "b_dev (bh s b) = dv" "b_blocknr (bh s b) = n" by blast
  let ?t = "upd_bh b (\<lambda>x. x\<lparr>b_count := b_count x + 1\<rparr>) s"
  show ?thesis
    using getblk_hit_ok [OF ok b] count_cache_ok [OF ok, of b] b same_data_ok(2) [OF same_data_count, of D dv b "\<lambda>x. b_count x + 1" s]
      kept_upd [of b "{b}"]
    by (intro exI [of _ b] exI [of _ ?t]) (auto simp: got_def)
next
  case False
  obtain fs hs where q: "queues_ok {..<nr_buffers s} fs hs s" using ok by (auto simp: cache_ok_def)
  have f: "find_buffer (uint dv) (uint n) s = Some None"
  proof -
    obtain r where r: "find_buffer (uint dv) (uint n) s = Some r"
      "\<forall>i. r = Some i \<longleftrightarrow> i \<in> {..<nr_buffers s} \<and> uint dv \<noteq> 0 \<and> uint (b_dev (bh s i)) = uint dv \<and> uint (b_blocknr (bh s i)) = uint n"
      using find_buffer_ok [OF q] by blast
    have "r \<noteq> Some i" for i using r(2) False by (metis lessThan_iff word_uint_eqI)
    then show ?thesis using r(1) by (cases r) auto
  qed
  obtain c where "c < nr_buffers s" "b_count (bh s c) = 0" using free by (auto simp: has_free_def)
  from getblk_miss_ok [OF ok this f] obtain b t where m: "getblk_miss (uint dv) (uint n) s = Ok (Some b) t" "cache_ok D dv t"
    "kept {b} s t" "b < nr_buffers s" "b_count (bh s b) = 0" "b_count (bh t b) = 1" "b_dev (bh t b) = dv" "b_blocknr (bh t b) = n"
    "\<forall>m. \<forall>k < 1024. block_of D dv t m k = block_of D dv s m k" by blast
  have "get_hash_try (uint dv) (uint n) s = Ok (Some None) s" using f by (simp add: get_hash_try_def)
  then have "getblk_try (uint dv) (uint n) s = Ok (Some b) t"
    using m(1) by (simp add: getblk_try_def get_hash_table_def retry_done)
  then have "getblk (uint dv) (uint n) s = Ok b t" by (simp add: getblk_def retry_done)
  then show ?thesis using m by (intro exI [of _ b] exI [of _ t]) (simp add: got_def)
qed

end
