(* ===== verification/Buffer_View.thy ===== *)
theory Buffer_View
  imports Buffer
begin

text \<open>
  What the clients of the buffer cache rely on: \<open>bread\<close> gives the contents of the block, a block outside the
  partition gives NULL, a byte stored in a buffer that is marked dirty is the new contents of the block, and
  \<open>brelse\<close> and the write-back of a device change no block.
\<close>

section \<open>The holder of a block\<close>

lemma holder_unique: "data_ok D dv s \<Longrightarrow> b < nr_buffers s \<Longrightarrow> holds dv n s b \<Longrightarrow>
  find (holds dv n s) [0..<nr_buffers s] = Some b"
proof -
  assume ok: "data_ok D dv s" and b: "b < nr_buffers s" "holds dv n s b"
  obtain c where c: "find (holds dv n s) [0..<nr_buffers s] = Some c"
    using b by (cases "find (holds dv n s) [0..<nr_buffers s]") (auto simp: find_None_iff)
  then have "c < nr_buffers s" "holds dv n s c" using find_Some_in [OF c] by auto
  then have "c = b" using ok b by (auto simp: data_ok_def holds_def)
  then show ?thesis using c by simp
qed

lemma holder_block: "data_ok D dv s \<Longrightarrow> b < nr_buffers s \<Longrightarrow> holds dv n s b \<Longrightarrow> block_of D dv s n k = b_data (bh s b) k"
  by (simp add: block_of_def holder_unique)

text \<open>A buffer of \<open>dv\<close> whose contents are replaced; it ends up valid, and clean only with what is on the disk.\<close>

lemma refill_ok:
  assumes ok: "data_ok D dv s" and i: "i < nr_buffers s" "b_dev (bh s i) = dv" "on_disk i s"
    and t: "t = s\<lparr>hd_hist := h, bh := (bh s)(i := (bh s i)\<lparr>b_data := d, b_uptodate := u, b_dirt := v\<rparr>), request := r\<rparr>"
    and q: "\<forall>j < NR_REQUEST. rq_hd (r j) < 0" and st: "store (drive_of D h) = disk_now D s" and u: "u \<noteq> 0"
    and clean: "v = 0 \<Longrightarrow> \<forall>k < 1024. d k = disk_bytes (disk_now D s) (bh_sector i s) k"
  shows "data_ok D dv t" "m \<noteq> b_blocknr (bh s i) \<Longrightarrow> block_of D dv t m k = block_of D dv s m k"
    "block_of D dv t (b_blocknr (bh s i)) k = d k"
proof -
  have e: "nr_buffers t = nr_buffers s" "disk_now D t = disk_now D s" "start_sect t = start_sect s" "nr_sects t = nr_sects s"
    "parts_ok t = parts_ok s" "good_drive D t = good_drive D s"
    using st by (simp_all add: t disk_now_def parts_ok_def)
  have dev: "b_dev (bh t b) = b_dev (bh s b)" "b_blocknr (bh t b) = b_blocknr (bh s b)"
    "on_disk b t = on_disk b s" "bh_sector b t = bh_sector b s" for b
    by (simp_all add: on_disk_def bh_sector_def first_sector_def t)
  have old: "buf_ok D dv s b" if "b < nr_buffers s" for b using ok that by (simp add: data_ok_def)
  have dv: "dv \<noteq> 0" using ok by (simp add: data_ok_def)
  have "buf_ok D dv t b" if b: "b < nr_buffers s" for b
  proof (cases "b = i")
    case True
    have "b_lock (bh t i) = 0" "b_wait (bh t i) = 0" "bh t i = (bh s i)\<lparr>b_data := d, b_uptodate := u, b_dirt := v\<rparr>"
      using old [OF i(1)] by (simp_all add: t buf_ok_def)
    then show ?thesis using True i clean u dv unfolding buf_ok_def dev e by auto
  next
    case False
    then have tb: "bh t b = bh s b" by (simp add: t)
    show ?thesis using old [OF b] unfolding buf_ok_def tb dev(3,4) e .
  qed
  moreover have "hd_idle t" using ok q by (auto simp: data_ok_def hd_idle_def t cur_def)
  ultimately show ok': "data_ok D dv t" using ok unfolding data_ok_def e dev by auto
  show "block_of D dv t (b_blocknr (bh s i)) k = d k"
    using holder_block [OF ok', of i "b_blocknr (bh s i)" k] i u by (simp add: holds_def t)
  assume "m \<noteq> b_blocknr (bh s i)"
  then have "holds dv m t b = holds dv m s b" for b by (simp add: holds_def t)
  then have f: "find (holds dv m t) [0..<nr_buffers t] = find (holds dv m s) [0..<nr_buffers s]"
    using e(1) find_cong_bool [of "[0..<nr_buffers s]" "holds dv m t" "holds dv m s"] by simp
  have "b_data (bh t b) = b_data (bh s b)" if "holds dv m s b" for b
    using that \<open>m \<noteq> _\<close> by (auto simp: holds_def t)
  then show "block_of D dv t m k = block_of D dv s m k"
    using find_Some_in [of "holds dv m s" "[0..<nr_buffers s]"]
    unfolding block_of_def f by (auto simp: e first_sector_def split: option.splits)
qed

section \<open>Releasing a buffer\<close>

lemma brelse_eq:
  assumes "cache_ok D dv s" "b < nr_buffers s" "b_count (bh s b) \<noteq> 0"
  shows "brelse (Some b) s = Ok () (upd_bh b (\<lambda>x. x\<lparr>b_count := b_count x - 1\<rparr>) s)"
proof -
  have "b_lock (bh s b) = 0" "buffer_wait s = 0" using assms(1,2) by (auto simp: cache_ok_def data_ok_def buf_ok_def)
  then show ?thesis using assms(3)
    by (simp add: brelse_def wait_on_buffer_free wake_up_def buffer_wait_q_def upd_bh_def)
qed

lemma count_block_of: "block_of D dv (upd_bh b (\<lambda>x. x\<lparr>b_count := f x\<rparr>) s) = block_of D dv s"
  using same_data_ok(2) [OF same_data_count, of D dv b f s] by (simp add: fun_eq_iff)

lemma brelse_ok:
  assumes "cache_ok D dv s" "b < nr_buffers s" "b_count (bh s b) \<noteq> 0"
  shows "\<exists>t. brelse (Some b) s = Ok () t \<and> cache_ok D dv t \<and> block_of D dv t = block_of D dv s \<and> kept {b} s t \<and>
    bh t b = (bh s b)\<lparr>b_count := b_count (bh s b) - 1\<rparr>"
  using brelse_eq [OF assms] count_cache_ok [OF assms(1)] count_block_of kept_upd [of b "{b}"]
  by (intro exI [of _ "upd_bh b (\<lambda>x. x\<lparr>b_count := b_count x - 1\<rparr>) s"]) auto

section \<open>Reading a block\<close>

text \<open>The blocks that lie inside a partition of the disk.\<close>

definition block_there :: "u16 \<Rightarrow> u16 \<Rightarrow> 'z hd_st_scheme \<Rightarrow> bool" where
  "block_there dv n s \<longleftrightarrow> nat (MINOR (uint dv)) < 5 \<and> 2 * unat n + 2 \<le> unat (nr_sects s (nat (MINOR (uint dv))))"

lemma block_there_on_disk:
  "b_dev (bh s b) = dv \<Longrightarrow> b_blocknr (bh s b) = n \<Longrightarrow> MAJOR (uint dv) = 3 \<Longrightarrow> on_disk b s = block_there dv n s"
  by (simp add: on_disk_def block_there_def Let_def)

lemma refill_cache_ok:
  assumes "cache_ok D dv s" "data_ok D dv t"
    "t = s\<lparr>hd_hist := h, bh := (bh s)(i := (bh s i)\<lparr>b_data := d, b_uptodate := u, b_dirt := v\<rparr>), request := r\<rparr>"
  shows "cache_ok D dv t" "kept {i} s t"
proof -
  have "queues_ok U fs hs t = queues_ok U fs hs s" for U fs hs
  proof -
    have "b_next (bh t b) = b_next (bh s b)" "b_prev (bh t b) = b_prev (bh s b)" "b_next_free (bh t b) = b_next_free (bh s b)"
      "b_prev_free (bh t b) = b_prev_free (bh s b)" "b_dev (bh t b) = b_dev (bh s b)" "b_blocknr (bh t b) = b_blocknr (bh s b)"
      "hash_table t = hash_table s" "free_list t = free_list s" for b by (simp_all add: assms(3))
    then show ?thesis by (simp add: queues_ok_def hash_of_def)
  qed
  moreover have "nr_buffers t = nr_buffers s" "buffer_wait t = buffer_wait s" by (simp_all add: assms(3))
  ultimately show "cache_ok D dv t" using assms(1,2) by (auto simp: cache_ok_def)
  show "kept {i} s t" by (rule kept_intro) (auto simp: assms(3))
qed

lemma got_trans: "got dv n b s t \<Longrightarrow> kept {b} t u \<Longrightarrow> core (bh u b) = core ((bh t b)\<lparr>b_data := d, b_uptodate := x, b_dirt := y\<rparr>) \<Longrightarrow>
  got dv n b s u"
  by (auto simp: got_def core_def dest: kept_trans)

text \<open>A block of the partition is read, from the cache or from the disk.\<close>

lemma bread_there:
  assumes ok: "cache_ok D dv s" and free: "has_free s" and dv: "MAJOR (uint dv) = 3" and n: "block_there dv n s"
  shows "\<exists>b t. bread (uint dv) (uint n) s = Ok (Some b) t \<and> cache_ok D dv t \<and> got dv n b s t \<and> holds dv n t b \<and>
    (\<forall>m. \<forall>k < 1024. block_of D dv t m k = block_of D dv s m k)"
proof -
  obtain b t where g: "getblk (uint dv) (uint n) s = Ok b t" "cache_ok D dv t" "got dv n b s t"
    "\<forall>m. \<forall>k < 1024. block_of D dv t m k = block_of D dv s m k" using getblk_ok [OF ok free] by blast
  have kt: "kept {b} s t" and b: "b < nr_buffers t" "b_dev (bh t b) = dv" "b_blocknr (bh t b) = n"
    using g(3) kept_sel(1) [of "{b}" s t] by (auto simp: got_def)
  have dok: "data_ok D dv t" using g(2) by (simp add: cache_ok_def)
  have od: "on_disk b t" using n b block_there_on_disk [OF b(2,3) dv] kept_sel(3) [OF kt] by (simp add: block_there_def)
  have bl: "b_lock (bh t b) = 0" "b_wait (bh t b) = 0" "b_dirt (bh t b) \<noteq> 0 \<longrightarrow> b_uptodate (bh t b) \<noteq> 0"
    using dok b(1) by (auto simp: data_ok_def buf_ok_def)
  show ?thesis
  proof (cases "b_uptodate (bh t b) = 0")
    case False
    then show ?thesis using g b by (intro exI [of _ b] exI [of _ t]) (simp add: bread_def holds_def)
  next
    case True
    have di: "hd_idle t" "good_drive D t" "parts_ok t" using dok by (simp_all add: data_ok_def)
    let ?d = "\<lambda>k. if k < 1024 then disk_bytes (disk_now D t) (bh_sector b t) k else b_data (bh t b) k"
    obtain q h where r: "rw_hd READ b t = Ok () (t\<lparr>hd_hist := h,
        bh := (bh t)(b := (bh t b)\<lparr>b_data := ?d, b_uptodate := 1, b_dirt := 0\<rparr>), request := (request t)(0 := q)\<rparr>)"
      "rq_hd q < 0" "store (drive_of D h) = disk_now D t"
      using rw_hd_read [of t D b, folded disk_now_def] di bl(1,2) od by blast
    define u where "u = t\<lparr>hd_hist := h, bh := (bh t)(b := (bh t b)\<lparr>b_data := ?d, b_uptodate := 1, b_dirt := 0\<rparr>),
      request := (request t)(0 := q)\<rparr>"
    have "\<forall>j < NR_REQUEST. rq_hd (((request t)(0 := q)) j) < 0"
      using dok r(2) by (auto simp: data_ok_def hd_idle_def)
    then have rf: "data_ok D dv u" "\<And>m k. m \<noteq> n \<Longrightarrow> block_of D dv u m k = block_of D dv t m k" "\<And>k. block_of D dv u n k = ?d k"
      using refill_ok [OF dok b(1,2) od u_def _ r(3)] b(3) by auto
    have "\<not> holds dv n t c" if "c < nr_buffers t" for c
      using dok b that True by (auto simp: data_ok_def holds_def)
    then have "block_of D dv t n k = disk_bytes (disk_now D t) (bh_sector b t) k" for k
      using b by (auto simp: block_of_def bh_sector_def find_None_iff split: option.splits dest!: find_Some_in)
    then have bo: "block_of D dv u m k = block_of D dv t m k" if "k < 1024" for m k
      using rf(2) [of m k] rf(3) [of k] that by (cases "m = n") auto
    have "holds dv n u b" using b by (simp add: holds_def u_def)
    moreover have "got dv n b s u"
      using got_trans [OF g(3) refill_cache_ok(2) [OF g(2) rf(1) u_def]] by (simp add: u_def)
    moreover have "bread (uint dv) (uint n) s = Ok (Some b) u"
      using g(1) True r(1) dv b by (simp add: bread_def ll_rw_block_def u_def)
    ultimately show ?thesis
      using g(4) bo refill_cache_ok(1) [OF g(2) rf(1) u_def] by (intro exI [of _ b] exI [of _ u]) simp
  qed
qed

text \<open>A block outside the partition gives NULL; no block has changed.\<close>

lemma bread_beyond:
  assumes ok: "cache_ok D dv s" and free: "has_free s" and dv: "MAJOR (uint dv) = 3" and n: "\<not> block_there dv n s"
    and small: "\<forall>b < nr_buffers s. b_count (bh s b) \<noteq> 255"
  shows "\<exists>b t. bread (uint dv) (uint n) s = Ok None t \<and> cache_ok D dv t \<and> kept {b} s t \<and> b < nr_buffers s \<and>
    b_count (bh t b) = b_count (bh s b) \<and> (\<forall>m. \<forall>k < 1024. block_of D dv t m k = block_of D dv s m k)"
proof -
  obtain b t where g: "getblk (uint dv) (uint n) s = Ok b t" "cache_ok D dv t" "got dv n b s t"
    "\<forall>m. \<forall>k < 1024. block_of D dv t m k = block_of D dv s m k" using getblk_ok [OF ok free] by blast
  have kt: "kept {b} s t" and b: "b < nr_buffers t" "b < nr_buffers s" "b_dev (bh t b) = dv" "b_blocknr (bh t b) = n"
    "b_count (bh t b) = b_count (bh s b) + 1"
    using g(3) kept_sel(1) [of "{b}" s t] by (auto simp: got_def)
  have there: "block_there dv n t = block_there dv n s" using kept_sel(3) [OF kt] by (simp add: block_there_def)
  then have "\<not> on_disk b t" using n block_there_on_disk [OF b(3,4) dv] by simp
  moreover have "buf_ok D dv t b" "dv \<noteq> 0" using g(2) b(1) by (auto simp: cache_ok_def data_ok_def)
  ultimately have up: "b_uptodate (bh t b) = 0" using b by (auto simp: buf_ok_def)
  have "nat (MINOR (uint dv)) \<ge> 5 * NR_HD \<or> (push_bit 1 (ucast n) :: u32) + 2 > nr_sects t (nat (MINOR (uint dv)))"
  proof (rule ccontr)
    assume a: "\<not> ?thesis"
    have "unat (ucast n :: u32) = unat n" "unat n < 65536"
      using unsigned_less [of n, where 'a = nat] by (simp_all add: unsigned_ucast_eq take_bit_eq_mod)
    then have "unat ((push_bit 1 (ucast n) :: u32) + 2) = 2 * unat n + 2" by (simp add: unat_word_ariths)
    then show False using a n there by (simp add: NR_HD_def block_there_def word_less_nat_alt)
  qed
  then have "ll_rw_block READ b t = Ok () t" using b dv by (auto simp: ll_rw_block_def rw_hd_def Let_def)
  moreover have "b_count (bh t b) \<noteq> 0"
  proof
    assume "b_count (bh t b) = 0"
    then have "b_count (bh s b) = - 1" using b(5) by (simp add: eq_neg_iff_add_eq_0)
    moreover have "(- 1 :: u8) = 255" by simp
    ultimately show False using small b(2) by metis
  qed
  then obtain u where u: "brelse (Some b) t = Ok () u" "cache_ok D dv u" "block_of D dv u = block_of D dv t" "kept {b} t u"
    "bh u b = (bh t b)\<lparr>b_count := b_count (bh t b) - 1\<rparr>" using brelse_ok [OF g(2) b(1)] by blast
  ultimately have "bread (uint dv) (uint n) s = Ok None u" using g(1) up by (simp add: bread_def)
  moreover have "kept {b} s u" using kt u(4) by (rule kept_trans)
  moreover have "b_count (bh u b) = b_count (bh s b)" using u(5) b(5) by simp
  ultimately show ?thesis using u g(4) b(2) by (intro exI [of _ b] exI [of _ u]) simp
qed

section \<open>The interface\<close>

text \<open>
  The contract of the cache for a client: \<open>view\<close> is the contents of the blocks, \<open>fetch\<close> takes the buffer of a
  block, \<open>replace\<close> puts new bytes into a buffer that the client holds and marks it dirty, \<open>release\<close> gives it
  back. \<open>frame\<close> relates states that differ only in what belongs to the cache.
\<close>

locale block_cache =
  fixes ready :: "'s \<Rightarrow> bool" and view :: "'s \<Rightarrow> 'n \<Rightarrow> nat \<Rightarrow> u8" and there :: "'n \<Rightarrow> 's \<Rightarrow> bool"
    and held :: "'n \<Rightarrow> nat \<Rightarrow> 's \<Rightarrow> bool" and contents :: "nat \<Rightarrow> 's \<Rightarrow> nat \<Rightarrow> u8"
    and fetch :: "'n \<Rightarrow> 's \<Rightarrow> ('s, nat option) kres" and replace :: "nat \<Rightarrow> (nat \<Rightarrow> u8) \<Rightarrow> 's \<Rightarrow> 's"
    and release :: "nat \<Rightarrow> 's \<Rightarrow> ('s, unit) kres" and frame :: "'s \<Rightarrow> 's \<Rightarrow> bool"
  assumes frame_trans: "frame s t \<Longrightarrow> frame t u \<Longrightarrow> frame s u"
    and fetch_there: "ready s \<Longrightarrow> there n s \<Longrightarrow>
      \<exists>b t. fetch n s = Ok (Some b) t \<and> held n b t \<and> frame s t \<and> (\<forall>m. \<forall>k < 1024. view t m k = view s m k)"
    and fetch_beyond: "ready s \<Longrightarrow> \<not> there n s \<Longrightarrow>
      \<exists>t. fetch n s = Ok None t \<and> ready t \<and> frame s t \<and> (\<forall>m. \<forall>k < 1024. view t m k = view s m k)"
    and contents_view: "held n b s \<Longrightarrow> contents b s k = view s n k"
    and replace_held: "held n b s \<Longrightarrow> held n b (replace b d s) \<and> frame s (replace b d s)"
    and replace_view: "held n b s \<Longrightarrow> view (replace b d s) m k = (if m = n then d k else view s m k)"
    and release_ok: "held n b s \<Longrightarrow> \<exists>t. release b s = Ok () t \<and> ready t \<and> frame s t \<and> view t = view s"
begin

text \<open>Reading through the cache, and a read-modify-write.\<close>

lemma look:
  assumes "ready s" "there n s"
  shows "\<exists>b t u. fetch n s = Ok (Some b) t \<and> release b t = Ok () u \<and> ready u \<and> frame s t \<and> frame s u \<and>
    (\<forall>k < 1024. contents b t k = view s n k) \<and> (\<forall>m. \<forall>k < 1024. view u m k = view s m k)"
proof -
  obtain b t where t: "fetch n s = Ok (Some b) t" "held n b t" "frame s t" "\<forall>m. \<forall>k < 1024. view t m k = view s m k"
    using fetch_there [OF assms] by blast
  moreover obtain u where "release b t = Ok () u" "ready u" "frame t u" "view u = view t" using release_ok [OF t(2)] by blast
  ultimately show ?thesis
    using contents_view [OF t(2)] frame_trans by (intro exI [of _ b] exI [of _ t] exI [of _ u]) auto
qed

lemma modify:
  assumes "ready s" "there n s"
  shows "\<exists>b t u. fetch n s = Ok (Some b) t \<and> release b (replace b (f (contents b t)) t) = Ok () u \<and> ready u \<and> frame s t \<and>
    frame s u \<and> (\<forall>k < 1024. contents b t k = view s n k) \<and>
    (\<forall>m. \<forall>k < 1024. view u m k = (if m = n then f (contents b t) k else view s m k))"
proof -
  obtain b t where t: "fetch n s = Ok (Some b) t" "held n b t" "frame s t" "\<forall>m. \<forall>k < 1024. view t m k = view s m k"
    using fetch_there [OF assms] by blast
  note h = replace_held [OF t(2), of "f (contents b t)"] replace_view [OF t(2), of "f (contents b t)"]
  obtain u where "release b (replace b (f (contents b t)) t) = Ok () u" "ready u" "frame (replace b (f (contents b t)) t) u"
    "view u = view (replace b (f (contents b t)) t)" using release_ok [OF conjunct1 [OF h(1)]] by blast
  then show ?thesis
    using t h contents_view [OF t(2)] frame_trans by (intro exI [of _ b] exI [of _ t] exI [of _ u]) auto
qed

end

text \<open>The cache of the model: some buffer is free, and no use count is at its limit of 255.\<close>

definition bc_ready :: "(bool \<Rightarrow> nat \<Rightarrow> nat \<Rightarrow> u8) \<Rightarrow> u16 \<Rightarrow> 'z hd_st_scheme \<Rightarrow> bool" where
  "bc_ready D dv s \<longleftrightarrow> MAJOR (uint dv) = 3 \<and> cache_ok D dv s \<and> has_free s \<and> (\<forall>b < nr_buffers s. b_count (bh s b) \<noteq> 255)"

definition bc_held :: "(bool \<Rightarrow> nat \<Rightarrow> nat \<Rightarrow> u8) \<Rightarrow> u16 \<Rightarrow> u16 \<Rightarrow> nat \<Rightarrow> 'z hd_st_scheme \<Rightarrow> bool" where
  "bc_held D dv n b s \<longleftrightarrow> b < nr_buffers s \<and> holds dv n s b \<and> b_count (bh s b) \<noteq> 0 \<and>
     bc_ready D dv (upd_bh b (\<lambda>x. x\<lparr>b_count := b_count x - 1\<rparr>) s)"

definition bc_replace :: "nat \<Rightarrow> (nat \<Rightarrow> u8) \<Rightarrow> 'z hd_st_scheme \<Rightarrow> 'z hd_st_scheme" where
  "bc_replace b d s = upd_bh b (\<lambda>x. x\<lparr>b_data := d, b_dirt := 1\<rparr>) s"

lemma kept_count: "kept {b} s t \<Longrightarrow> c \<noteq> b \<Longrightarrow> b_count (bh t c) = b_count (bh s c)"
  using kept_sel(10) [of "{b}" s t c] by (auto simp: core_def)

lemma ready_counts:
  assumes "bc_ready D dv s" "cache_ok D dv t" "kept {b} s t" "b_count (bh t b) = b_count (bh s b)"
  shows "bc_ready D dv t"
proof -
  have "b_count (bh t c) = b_count (bh s c)" for c using assms(3,4) kept_count [of b s t c] by (cases "c = b") auto
  then show ?thesis using assms(1,2) kept_sel(1) [OF assms(3)] by (auto simp: bc_ready_def has_free_def)
qed

lemma cache_count_iff: "cache_ok D dv (upd_bh b (\<lambda>x. x\<lparr>b_count := f x\<rparr>) s) = cache_ok D dv s"
proof
  assume a: "cache_ok D dv (upd_bh b (\<lambda>x. x\<lparr>b_count := f x\<rparr>) s)"
  have "cache_ok D dv (upd_bh b (\<lambda>x. x\<lparr>b_count := b_count (bh s b)\<rparr>) (upd_bh b (\<lambda>x. x\<lparr>b_count := f x\<rparr>) s))"
    by (rule count_cache_ok [OF a])
  moreover have "upd_bh b (\<lambda>x. x\<lparr>b_count := b_count (bh s b)\<rparr>) (upd_bh b (\<lambda>x. x\<lparr>b_count := f x\<rparr>) s) = s"
    by (simp add: upd_bh_def fun_upd_idem)
  ultimately show "cache_ok D dv s" by simp
qed (rule count_cache_ok)

lemma held_facts:
  assumes "bc_held D dv n b s"
  shows "cache_ok D dv s" "data_ok D dv s" "b < nr_buffers s" "b_count (bh s b) \<noteq> 0" "b_dev (bh s b) = dv"
    "b_blocknr (bh s b) = n" "b_uptodate (bh s b) \<noteq> 0" "holds dv n s b"
proof -
  show c: "cache_ok D dv s" using assms unfolding bc_held_def bc_ready_def cache_count_iff by blast
  show "data_ok D dv s" using c by (simp add: cache_ok_def)
  show "b < nr_buffers s" "b_count (bh s b) \<noteq> 0" "b_dev (bh s b) = dv" "b_blocknr (bh s b) = n" "b_uptodate (bh s b) \<noteq> 0"
    "holds dv n s b" using assms by (simp_all add: bc_held_def holds_def)
qed

lemma upd_count_kept: "kept {b} s t \<Longrightarrow> kept {b} s (upd_bh b (\<lambda>x. x\<lparr>b_count := f x\<rparr>) t)"
  using kept_trans [OF _ kept_upd [of b "{b}"]] by blast

lemma kept_mono: "kept X s t \<Longrightarrow> X \<subseteq> Y \<Longrightarrow> kept Y s t"
  unfolding kept_def by blast

lemma replace_data:
  assumes "bc_held D dv n b s"
  shows "cache_ok D dv (bc_replace b d s)"
    "block_of D dv (bc_replace b d s) m k = (if m = n then d k else block_of D dv s m k)"
proof -
  let ?t = "bc_replace b d s"
  note ok = held_facts(1) [OF assms] and dok = held_facts(2) [OF assms] and b = held_facts(3,5,6,7) [OF assms]
  have od: "on_disk b s" using dok b by (auto simp: data_ok_def buf_ok_def)
  have t: "?t = s\<lparr>hd_hist := hd_hist s, bh := (bh s)(b := (bh s b)\<lparr>b_data := d, b_uptodate := b_uptodate (bh s b), b_dirt := 1\<rparr>),
      request := request s\<rparr>" by (simp add: bc_replace_def upd_bh_def)
  have r: "\<forall>j < NR_REQUEST. rq_hd (request s j) < 0" using dok by (simp add: data_ok_def hd_idle_def)
  have st: "store (drive_of D (hd_hist s)) = disk_now D s" by (simp add: disk_now_def)
  have rf: "data_ok D dv ?t" "\<And>m k. m \<noteq> n \<Longrightarrow> block_of D dv ?t m k = block_of D dv s m k" "\<And>k. block_of D dv ?t n k = d k"
    using refill_ok [OF dok b(1,2) od t r st b(4)] b(3) by auto
  show "cache_ok D dv ?t" by (rule refill_cache_ok(1) [OF ok rf(1) t])
  show "block_of D dv ?t m k = (if m = n then d k else block_of D dv s m k)" using rf(2,3) by simp
qed

interpretation cache: block_cache "bc_ready D dv" "block_of D dv" "block_there dv" "bc_held D dv" "\<lambda>b s. b_data (bh s b)"
  "\<lambda>n. bread (uint dv) (uint n)" bc_replace "\<lambda>b. brelse (Some b)" "kept UNIV" for D dv
proof unfold_locales
  fix s t u :: "'z hd_st_scheme" and n m :: u16 and b k :: nat and d :: "nat \<Rightarrow> u8"
  show "kept UNIV s t \<Longrightarrow> kept UNIV t u \<Longrightarrow> kept UNIV s u" by (rule kept_trans)
  show "\<exists>b t. bread (uint dv) (uint n) s = Ok (Some b) t \<and> bc_held D dv n b t \<and> kept UNIV s t \<and>
      (\<forall>m. \<forall>k < 1024. block_of D dv t m k = block_of D dv s m k)" if r: "bc_ready D dv s" and th: "block_there dv n s"
  proof -
    obtain b t where b: "bread (uint dv) (uint n) s = Ok (Some b) t" "cache_ok D dv t" "got dv n b s t" "holds dv n t b"
      "\<forall>m. \<forall>k < 1024. block_of D dv t m k = block_of D dv s m k"
      using bread_there [of D dv s n] r th by (auto simp: bc_ready_def)
    have g: "b < nr_buffers s" "kept {b} s t" "b_count (bh t b) = b_count (bh s b) + 1" using b(3) by (auto simp: got_def)
    have "b_count (bh s b) \<noteq> - 1" using r g(1) by (auto simp: bc_ready_def)
    then have "b_count (bh t b) \<noteq> 0" using g(3) by (simp add: eq_neg_iff_add_eq_0)
    moreover have "bc_ready D dv (upd_bh b (\<lambda>x. x\<lparr>b_count := b_count x - 1\<rparr>) t)"
      using g by (intro ready_counts [OF r _ upd_count_kept [OF g(2)]] count_cache_ok b(2)) simp
    ultimately have "bc_held D dv n b t" using b(4) g(1) kept_sel(1) [OF g(2)] by (simp add: bc_held_def)
    then show ?thesis using b(1,5) kept_mono [OF g(2)] by blast
  qed
  show "\<exists>t. bread (uint dv) (uint n) s = Ok None t \<and> bc_ready D dv t \<and> kept UNIV s t \<and>
      (\<forall>m. \<forall>k < 1024. block_of D dv t m k = block_of D dv s m k)" if r: "bc_ready D dv s" and th: "\<not> block_there dv n s"
  proof -
    obtain b t where b: "bread (uint dv) (uint n) s = Ok None t" "cache_ok D dv t" "kept {b} s t"
      "b_count (bh t b) = b_count (bh s b)" "\<forall>m. \<forall>k < 1024. block_of D dv t m k = block_of D dv s m k"
      using bread_beyond [of D dv s n] r th by (auto simp: bc_ready_def)
    then show ?thesis using ready_counts [OF r b(2,3,4)] kept_mono [OF b(3)] by blast
  qed
  show "b_data (bh s b) k = block_of D dv s n k" if "bc_held D dv n b s"
    using holder_block [OF held_facts(2,3,8) [OF that]] by simp
  show "bc_held D dv n b (bc_replace b d s) \<and> kept UNIV s (bc_replace b d s)" if h: "bc_held D dv n b s"
  proof -
    have "bc_ready D dv (upd_bh b (\<lambda>x. x\<lparr>b_count := b_count x - 1\<rparr>) (bc_replace b d s))"
    proof (rule ready_counts)
      show "bc_ready D dv (upd_bh b (\<lambda>x. x\<lparr>b_count := b_count x - 1\<rparr>) s)" using h by (simp add: bc_held_def)
      show "cache_ok D dv (upd_bh b (\<lambda>x. x\<lparr>b_count := b_count x - 1\<rparr>) (bc_replace b d s))"
        by (rule count_cache_ok, rule replace_data(1) [OF h])
      show "kept {b} (upd_bh b (\<lambda>x. x\<lparr>b_count := b_count x - 1\<rparr>) s) (upd_bh b (\<lambda>x. x\<lparr>b_count := b_count x - 1\<rparr>) (bc_replace b d s))"
        by (rule kept_intro) (auto simp: upd_bh_def bc_replace_def)
    qed (simp add: bc_replace_def)
    then show ?thesis using h by (auto simp: bc_held_def bc_replace_def holds_def kept_upd)
  qed
  show "block_of D dv (bc_replace b d s) m k = (if m = n then d k else block_of D dv s m k)" if "bc_held D dv n b s"
    by (rule replace_data(2) [OF that])
  show "\<exists>t. brelse (Some b) s = Ok () t \<and> bc_ready D dv t \<and> kept UNIV s t \<and> block_of D dv t = block_of D dv s"
    if h: "bc_held D dv n b s"
  proof -
    note e = brelse_eq [OF held_facts(1,3,4) [OF h]]
    show ?thesis using h e count_block_of kept_upd [of b UNIV]
      by (intro exI [of _ "upd_bh b (\<lambda>x. x\<lparr>b_count := b_count x - 1\<rparr>) s"]) (auto simp: bc_held_def)
  qed
qed

end
