(* ===== verification/Buffer_Boot.thy ===== *)
theory Buffer_Boot
  imports Buffer_View
begin

text \<open>
  The buffer cache after \<open>buffer_init\<close>: where the blocks lie in memory, and that the cache is ready for use.
  The theory ends with the properties of the driver and of the cache on the state after the boot.
\<close>

section \<open>The memory of the blocks\<close>

lemma block_addrs_layout:
  assumes "b mod 1024 = 0" "b > 0x100000 \<or> b \<le> 0xA0000"
  shows "(\<forall>a \<in> set (block_addrs h b). a + 1024 \<le> b \<and> h + 32 * length (block_addrs h b) \<le> a \<and>
      (0x100000 \<le> a \<or> a + 1024 \<le> 0xA0000)) \<and> sorted_wrt (\<lambda>x y. y + 1024 \<le> x) (block_addrs h b)"
  using assms
proof (induction h b rule: block_addrs.induct)
  case (1 h b)
  show ?case
  proof (cases "b < 1024 \<or> b - 1024 < h + 32")
    case True
    then show ?thesis by (simp add: block_addrs.simps)
  next
    case False
    define c where "c = (if b - 1024 = 0x100000 then 0xA0000 else b - 1024)"
    have e: "block_addrs h b = (b - 1024) # block_addrs (h + 32) c"
      using False by (subst block_addrs.simps) (simp add: c_def)
    have b: "b \<ge> 1024" "(b - 1024) mod 1024 = 0" using False "1.prems"(1) by (auto simp: le_mod_geq)
    have big: "b - 1024 \<ge> 0x100000" if "b > 0x100000"
    proof -
      obtain q where "b = 1024 * q" using "1.prems"(1) by (auto simp: mod_eq_0_iff_dvd)
      then show ?thesis using that by simp
    qed
    have c: "c mod 1024 = 0" "c > 0x100000 \<or> c \<le> 0xA0000" "c \<le> b - 1024"
      using b big "1.prems"(2) by (auto simp: c_def)
    have ih: "(\<forall>a \<in> set (block_addrs (h + 32) c). a + 1024 \<le> c \<and> (h + 32) + 32 * length (block_addrs (h + 32) c) \<le> a \<and>
        (0x100000 \<le> a \<or> a + 1024 \<le> 0xA0000)) \<and> sorted_wrt (\<lambda>x y. y + 1024 \<le> x) (block_addrs (h + 32) c)"
      using "1.IH" [OF False] c(1,2) unfolding c_def by blast
    have top: "h + 32 * length (block_addrs h b) \<le> b - 1024"
    proof (cases "block_addrs (h + 32) c")
      case (Cons a as)
      then have "a + 1024 \<le> c" "(h + 32) + 32 * length (block_addrs (h + 32) c) \<le> a" using ih by auto
      then show ?thesis using c(3) unfolding e by simp
    qed (use False in \<open>simp add: e\<close>)
    show ?thesis using ih c(3) top b big "1.prems"(2) unfolding e by auto
  qed
qed

section \<open>The queues\<close>

lemma walk_up: "a \<le> n \<Longrightarrow> 0 < n \<Longrightarrow> walk (\<lambda>i. Some (if i = n - 1 then 0 else i + 1)) (Some (if a = n then 0 else a)) [a..<n] (Some 0)"
proof (induction "n - a" arbitrary: a)
  case (Suc m)
  then have "a < n" "m = n - Suc a" by auto
  then show ?case using Suc.hyps(1) [of "Suc a"] Suc.prems by (cases "Suc a = n") (auto simp: upt_conv_Cons)
qed simp

lemma walk_down: "a < n \<Longrightarrow> walk (\<lambda>i. Some (if i = 0 then n - 1 else i - 1)) (Some a) (rev [0..<Suc a]) (Some (n - 1))"
  by (induction a) simp_all

lemma rings_boot:
  assumes "0 < n"
  shows "ring (\<lambda>i. Some (if i = n - 1 then 0 else i + 1)) [0..<n]" "ring (\<lambda>i. Some (if i = 0 then n - 1 else i - 1)) (rev [0..<n])"
proof -
  show "ring (\<lambda>i. Some (if i = n - 1 then 0 else i + 1)) [0..<n]"
    using walk_up [of 0 n] assms by (simp add: ring_def)
  show "ring (\<lambda>i. Some (if i = 0 then n - 1 else i - 1)) (rev [0..<n])"
    using walk_down [of "n - 1" n] assms by (simp add: ring_def hd_rev)
qed

text \<open>The number of buffers.\<close>

definition boot_buffers :: "'z hd_st_scheme \<Rightarrow> nat" where
  "boot_buffers s = length (block_addrs (unat (start_buffer s)) BUFFER_END)"

lemma boot_buffers_two: "unat (start_buffer s) \<le> 0x1F0000 \<Longrightarrow> 2 \<le> boot_buffers s"
proof -
  assume a: "unat (start_buffer s) \<le> 0x1F0000"
  have "block_addrs h 0x200000 = 0x1FFC00 # block_addrs (h + 32) 0x1FFC00" if "h \<le> 0x1F0000" for h
    using that by (subst block_addrs.simps) simp
  moreover have "block_addrs (h + 32) 0x1FFC00 = 0x1FF800 # block_addrs (h + 64) 0x1FF800" if "h \<le> 0x1F0000" for h
    using that by (subst block_addrs.simps) (simp add: add.commute)
  ultimately show ?thesis using a by (simp add: boot_buffers_def BUFFER_END_def)
qed

lemma buffer_init_bh:
  assumes "nr_buffers s = 0"
  shows "nr_buffers (buffer_init s) = boot_buffers s" "free_list (buffer_init s) = 0" "h < NR_HASH \<Longrightarrow> hash_table (buffer_init s) h = None"
    "i < boot_buffers s \<Longrightarrow> bh (buffer_init s) i = new_head (bh s i) (boot_buffers s) i"
    "buffer_wait (buffer_init s) = buffer_wait s" "hd_idle (buffer_init s) = hd_idle s" "parts_ok (buffer_init s) = parts_ok s"
    "good_drive D (buffer_init s) = good_drive D s"
  using assms by (simp_all add: buffer_init_def Let_def printk_def boot_buffers_def hd_idle_def cur_def parts_ok_def good_drive_def)

lemma buffer_init_queues:
  assumes "nr_buffers s = 0" "0 < boot_buffers s"
  shows "queues_ok {..<boot_buffers s} [0..<boot_buffers s] (\<lambda>_. []) (buffer_init s)"
proof -
  let ?n = "boot_buffers s" and ?t = "buffer_init s"
  note f = buffer_init_bh [OF assms(1)]
  have r: "ring (\<lambda>i. b_next_free (bh ?t i)) [0..<?n]" "ring (\<lambda>i. b_prev_free (bh ?t i)) (rev [0..<?n])"
    using rings_boot [OF assms(2)]
      ring_cong [of "[0..<?n]" "\<lambda>i. b_next_free (bh ?t i)" "\<lambda>i. Some (if i = ?n - 1 then 0 else i + 1)"]
      ring_cong [of "rev [0..<?n]" "\<lambda>i. b_prev_free (bh ?t i)" "\<lambda>i. Some (if i = 0 then ?n - 1 else i - 1)"]
    by (auto simp: f(4) new_head_def)
  have h: "b_dev (bh ?t b) = 0" "b_next (bh ?t b) = None" "b_prev (bh ?t b) = None" if "b < ?n" for b
    using that by (simp_all add: f(4) new_head_def)
  have "hd [0..<?n] = 0" using assms(2) by simp
  then show ?thesis unfolding queues_ok_def using r h f(2,3) by (intro conjI allI ballI impI) (simp_all add: chain_def atLeast0LessThan)
qed

text \<open>
  What \<open>buffer_init\<close> contributes to the invariant \<open>bc_ready\<close> of the cache: for every later state that still has its buffers, only the
  conditions on the driver, the partitions and the drive are left, which are not its business.
\<close>

lemma boot_cache_ready:
  assumes "nr_buffers s = 0" "unat (start_buffer s) \<le> 0x1F0000" and dv: "MAJOR (uint dv) = 3"
    and u: "bh u = bh (buffer_init s)" "nr_buffers u = nr_buffers (buffer_init s)" "free_list u = free_list (buffer_init s)"
      "hash_table u = hash_table (buffer_init s)" "buffer_wait u = 0"
  shows "bc_ready D dv u \<longleftrightarrow> hd_idle u \<and> parts_ok u \<and> good_drive D u"
proof -
  note f = buffer_init_bh [OF assms(1)]
  have n: "2 \<le> boot_buffers s" by (rule boot_buffers_two [OF assms(2)])
  have b: "b_dev (bh u b) = 0" "b_dirt (bh u b) = 0" "b_lock (bh u b) = 0" "b_wait (bh u b) = 0" "b_count (bh u b) = 0"
    "b_uptodate (bh u b) = 0" if "b < boot_buffers s" for b
    using that by (simp_all add: u(1) f(4) new_head_def)
  have "dv \<noteq> 0" using dv by (auto simp: MAJOR_def uw_def)
  then have d: "data_ok D dv u \<longleftrightarrow> hd_idle u \<and> parts_ok u \<and> good_drive D u" using b by (auto simp: data_ok_def buf_ok_def u(2) f(1))
  have "queues_ok U fs hs u = queues_ok U fs hs (buffer_init s)" for U fs hs
    by (simp add: queues_ok_def hash_of_def u)
  then have "\<exists>fs hs. queues_ok {..<nr_buffers u} fs hs u" using buffer_init_queues [OF assms(1)] n f(1) u(2) by force
  then have "cache_ok D dv u \<longleftrightarrow> data_ok D dv u" using u(2,5) n f(1) by (simp add: cache_ok_def)
  moreover have "has_free u" using b n f(1) u(2) by (auto simp: has_free_def intro!: exI [of _ 0])
  ultimately show ?thesis using dv b f(1) u(2) d by (simp add: bc_ready_def)
qed

lemma buffer_init_ready:
  assumes "nr_buffers s = 0" "unat (start_buffer s) \<le> 0x1F0000" "buffer_wait s = 0" "hd_idle s" "parts_ok s" "good_drive D s"
    and dv: "MAJOR (uint dv) = 3"
  shows "bc_ready D dv (buffer_init s)"
  using boot_cache_ready [OF assms(1,2) dv refl refl refl refl, of D] buffer_init_bh [OF assms(1)] assms by simp

section \<open>Properties\<close>

text \<open>
  C16: on a working drive \<open>bread\<close> of a block of the partition ends, whatever has to be written back and evicted for
  it, and returns a buffer with the contents of the block, held once more; a block beyond the partition gives
  NULL. In both cases the cache keeps its invariant and no block changes its contents.
\<close>

theorem bread_ok:
  assumes "bc_ready D dv s"
  shows "if block_there dv n s
    then \<exists>b t. bread (uint dv) (uint n) s = Ok (Some b) t \<and> bc_held D dv n b t \<and>
      (\<forall>k < 1024. b_data (bh t b) k = block_of D dv s n k) \<and> (\<forall>m. \<forall>k < 1024. block_of D dv t m k = block_of D dv s m k)
    else \<exists>t. bread (uint dv) (uint n) s = Ok None t \<and> bc_ready D dv t \<and>
      (\<forall>m. \<forall>k < 1024. block_of D dv t m k = block_of D dv s m k)"
proof (cases "block_there dv n s")
  case True
  obtain b t where b: "bread (uint dv) (uint n) s = Ok (Some b) t" "bc_held D dv n b t"
    "\<forall>m. \<forall>k < 1024. block_of D dv t m k = block_of D dv s m k" using cache.fetch_there [OF assms True] by blast
  moreover have "b_data (bh t b) k = block_of D dv t n k" for k by (rule cache.contents_view [OF b(2)])
  ultimately show ?thesis using True by auto
next
  case False
  then show ?thesis using cache.fetch_beyond [OF assms False] by auto
qed

text \<open>
  C17: bytes that are put into a buffer of block \<open>n\<close>, marked dirty and released, are what the next \<open>bread\<close> of
  block \<open>n\<close> delivers, even when block \<open>m\<close> was read in between and the buffer of \<open>n\<close> had to make room for it; the
  other blocks keep their contents.
\<close>

theorem write_evict_read:
  assumes "bc_held D dv n b s" "block_there dv n s" "block_there dv m s" "m \<noteq> n"
  shows "\<exists>s1 b2 s2 s3 b4 s4. brelse (Some b) (bc_replace b d s) = Ok () s1 \<and>
    bread (uint dv) (uint m) s1 = Ok (Some b2) s2 \<and> brelse (Some b2) s2 = Ok () s3 \<and>
    bread (uint dv) (uint n) s3 = Ok (Some b4) s4 \<and>
    (\<forall>k < 1024. b_data (bh s2 b2) k = block_of D dv s m k) \<and> (\<forall>k < 1024. b_data (bh s4 b4) k = d k)"
proof -
  have t: "block_there dv x u = block_there dv x s" if "kept UNIV s u" for x u
    using kept_sel(3) [OF that] by (simp add: block_there_def)
  note h = cache.replace_held [OF assms(1), of d]
  obtain s1 where s1: "brelse (Some b) (bc_replace b d s) = Ok () s1" "bc_ready D dv s1" "kept UNIV (bc_replace b d s) s1"
    "block_of D dv s1 = block_of D dv (bc_replace b d s)" using cache.release_ok [OF conjunct1 [OF h]] by blast
  have k1: "kept UNIV s s1" using h s1(3) kept_trans by blast
  have v1: "block_of D dv s1 x k = (if x = n then d k else block_of D dv s x k)" for x k
    unfolding s1(4) by (rule cache.replace_view [OF assms(1)])
  have "block_there dv m s1" using t [OF k1] assms(3) by simp
  then obtain b2 s2 s3 where s2: "bread (uint dv) (uint m) s1 = Ok (Some b2) s2" "brelse (Some b2) s2 = Ok () s3" "bc_ready D dv s3"
    "kept UNIV s1 s3" "\<forall>k < 1024. b_data (bh s2 b2) k = block_of D dv s1 m k"
    "\<forall>x. \<forall>k < 1024. block_of D dv s3 x k = block_of D dv s1 x k" using cache.look [OF s1(2)] by blast
  have "block_there dv n s3" using t [OF kept_trans [OF k1 s2(4)]] assms(2) by simp
  then obtain b4 s4 where s4: "bread (uint dv) (uint n) s3 = Ok (Some b4) s4"
    "\<forall>k < 1024. b_data (bh s4 b4) k = block_of D dv s3 n k" using cache.look [OF s2(3)] by blast
  show ?thesis using s1(1) s2(1,2,5,6) s4 v1 assms(4) by (metis (mono_tags, lifting))
qed

text \<open>
  C18: \<open>buffer_init\<close> builds the cache, wherever the kernel ends below 0x1F0000: the free list is one ring through all of the at least
  two buffers, forwards and backwards, every hash chain is empty, and no buffer is assigned, used, locked, dirty, valid or waited for; with that
  the invariant \<open>queues_ok\<close> of the lists holds. It changes nothing but the buffer heads, their number, the two list heads and the log. For every
  later state that still has these buffers, the cache is ready for a disk exactly when the driver is idle, the partitions lie on the disk and the drive
  works: \<open>buffer_init\<close> has done the rest.
\<close>

theorem buffer_init_ok:
  fixes s t :: "'z hd_st_scheme"
  assumes "nr_buffers s = 0" "unat (start_buffer s) \<le> 0x1F0000" and t: "t = buffer_init s" "n = nr_buffers t"
  shows "2 \<le> n \<and> free_list t = 0 \<and> (\<forall>h < NR_HASH. hash_table t h = None) \<and>
    (\<forall>i < n. b_next_free (bh t i) = Some ((i + 1) mod n) \<and> b_prev_free (bh t i) = Some ((i + n - 1) mod n) \<and>
      b_dev (bh t i) = 0 \<and> b_count (bh t i) = 0 \<and> b_lock (bh t i) = 0 \<and> b_dirt (bh t i) = 0 \<and> b_uptodate (bh t i) = 0 \<and> b_wait (bh t i) = 0) \<and>
    queues_ok {..<n} [0..<n] (\<lambda>_. []) t \<and>
    (\<exists>K. t = s\<lparr>bh := bh t, nr_buffers := n, free_list := 0, hash_table := hash_table t, klog := K\<rparr>) \<and>
    (\<forall>D dv (u :: 'z hd_st_scheme). MAJOR (uint dv) = 3 \<and> bh u = bh t \<and> nr_buffers u = n \<and> free_list u = free_list t \<and> hash_table u = hash_table t \<and> buffer_wait u = 0 \<longrightarrow>
      (bc_ready D dv u \<longleftrightarrow> hd_idle u \<and> parts_ok u \<and> good_drive D u))"
proof -
  note f = buffer_init_bh [OF assms(1)]
  have n: "2 \<le> boot_buffers s" "n = boot_buffers s" using boot_buffers_two [OF assms(2)] by (simp_all add: t f(1))
  have w: "(i + n - 1) mod n = (if i = 0 then n - 1 else i - 1)" "(i + 1) mod n = (if i = n - 1 then 0 else i + 1)" if "i < n" for i
  proof -
    show "(i + 1) mod n = (if i = n - 1 then 0 else i + 1)" using that by auto
    show "(i + n - 1) mod n = (if i = 0 then n - 1 else i - 1)"
    proof (cases i)
      case (Suc j)
      then have "(i + n - 1) mod n = (j + n) mod n" by simp
      then show ?thesis using Suc that by simp
    qed (use that in simp)
  qed
  have "\<forall>i < n. b_next_free (bh t i) = Some ((i + 1) mod n) \<and> b_prev_free (bh t i) = Some ((i + n - 1) mod n) \<and>
      b_dev (bh t i) = 0 \<and> b_count (bh t i) = 0 \<and> b_lock (bh t i) = 0 \<and> b_dirt (bh t i) = 0 \<and> b_uptodate (bh t i) = 0 \<and> b_wait (bh t i) = 0"
    using w by (simp add: t(1) n(2) f(4) new_head_def)
  moreover have "\<exists>K. t = s\<lparr>bh := bh t, nr_buffers := n, free_list := 0, hash_table := hash_table t, klog := K\<rparr>"
    unfolding t by (simp add: buffer_init_def Let_def printk_def) blast
  moreover have "queues_ok {..<n} [0..<n] (\<lambda>_. []) t" using buffer_init_queues [OF assms(1)] n by (simp add: t(1))
  moreover have "bc_ready D dv u \<longleftrightarrow> hd_idle u \<and> parts_ok u \<and> good_drive D u"
    if "MAJOR (uint dv) = 3 \<and> bh u = bh t \<and> nr_buffers u = n \<and> free_list u = free_list t \<and> hash_table u = hash_table t \<and> buffer_wait u = 0" for D dv and u :: "'z hd_st_scheme"
    by (rule boot_cache_ready [OF assms(1,2)]) (use that t in auto)
  ultimately show ?thesis using n f(2,3) by (simp add: t(1))
qed

text \<open>
  C19: the blocks that \<open>buffer_init\<close> hands out are disjoint, lie above the last buffer head and below
  \<open>BUFFER_END\<close>, and none touches the video memory between 0xA0000 and 0x100000.
\<close>

theorem buffer_blocks_disjoint:
  "(\<forall>a \<in> set (block_addrs h BUFFER_END). a + 1024 \<le> BUFFER_END \<and> h + 32 * length (block_addrs h BUFFER_END) \<le> a \<and>
      (0x100000 \<le> a \<or> a + 1024 \<le> 0xA0000)) \<and> sorted_wrt (\<lambda>x y. y + 1024 \<le> x) (block_addrs h BUFFER_END)"
  using block_addrs_layout [of BUFFER_END h] by (simp add: BUFFER_END_def)

section \<open>The state after the boot\<close>

text \<open>A disk whose bytes show their place, the partition 1 of 40 blocks at sector 1, and the second task running.\<close>

definition demo_disk :: "bool \<Rightarrow> nat \<Rightarrow> nat \<Rightarrow> u8" where
  "demo_disk c sec k = of_nat (sec + k)"

definition no_head :: buffer_head where
  "no_head = \<lparr>b_data = (\<lambda>_. 0), b_dev = 0, b_blocknr = 0, b_uptodate = 0, b_dirt = 0, b_count = 0, b_lock = 0, b_wait = 0,
     b_prev = None, b_next = None, b_prev_free = None, b_next_free = None\<rparr>"

definition hd_demo :: hd_st where
  "hd_demo = bc_st.extend
     (tty_st.extend (tty_boot\<lparr>current := 0x2000, ts := (ts tty_boot)(0x2000 := (ts tty_boot 0x2000)\<lparr>state := TASK_RUNNING\<rparr>)\<rparr>)
       \<lparr>bh = (\<lambda>_. no_head), start_buffer = 0x20000, nr_buffers = 0, hash_table = (\<lambda>_. None), free_list = 0, buffer_wait = 0\<rparr>)
     \<lparr>start_sect = (\<lambda>i. if i = 1 then 1 else 0), nr_sects = (\<lambda>i. if i = 1 then 80 else 0),
       request = (\<lambda>_. \<lparr>rq_hd = -1, nsector = 0, sector = 0, rq_head = 0, rq_cyl = 0, cmd = 0, errors = 0, rq_bh = 0, rq_next = None\<rparr>),
       this_request = None, sorting = False, do_hd = No_handler, wait_for_request = 0, hd_hist = [],
       hd_inb = (\<lambda>_ _. READY_STAT OR SEEK_STAT OR DRQ_STAT),
       hd_insw = (\<lambda>h. let d = drive_of demo_disk h in store d (chosen d) (sector_nr d)), window = (\<lambda>_. 0)\<rparr>"

lemma hd_demo_sel:
  "nr_buffers hd_demo = 0" "start_buffer hd_demo = 0x20000" "buffer_wait hd_demo = 0"
  "start_sect hd_demo = (\<lambda>i. if i = 1 then 1 else 0)" "nr_sects hd_demo = (\<lambda>i. if i = 1 then 80 else 0)" "hd_hist hd_demo = []"
  by (simp_all add: hd_demo_def bc_st.extend_def tty_st.extend_def)

lemma hd_demo_idle: "hd_idle hd_demo"
  by (simp add: hd_idle_def hd_demo_def bc_st.extend_def tty_st.extend_def cur_def tty_boot_def con_st.extend_def
      con_ready_def con_init_def printk_def gotoxy_def con_boot_def um_st.extend_def um_empty_def mm_st.extend_def
      mm_empty_def sched_st.extend_def two_tasks_def sched_boot_def)

lemma hd_demo_facts: "parts_ok hd_demo" "good_drive demo_disk hd_demo" "MAJOR (uint (0x301 :: u16)) = 3"
proof -
  show "parts_ok hd_demo" by (simp add: parts_ok_def hd_demo_sel)
  show "good_drive demo_disk hd_demo"
    by (simp add: good_drive_def hd_demo_def bc_st.extend_def tty_st.extend_def Let_def)
  show "MAJOR (uint (0x301 :: u16)) = 3" by (simp add: MAJOR_def uw_def)
qed

lemma hd_demo_ready: "bc_ready demo_disk 0x301 (buffer_init hd_demo)"
  using hd_demo_idle hd_demo_facts by (intro buffer_init_ready) (simp_all add: hd_demo_sel)

lemma hd_demo_there: "block_there 0x301 7 (buffer_init hd_demo)" "block_there 0x301 8 (buffer_init hd_demo)"
  "\<not> block_there 0x301 40 (buffer_init hd_demo)"
  by (simp_all add: block_there_def MINOR_def buffer_init_def Let_def printk_def hd_demo_sel)

text \<open>\<open>hd_init\<close> after it frees all requests and enters the size of the whole drive.\<close>

lemma hd_init_eq:
  "\<exists>R K. hd_init s = s\<lparr>request := R, start_sect := (start_sect s)(0 := 0), nr_sects := (nr_sects s)(0 := hd_head * hd_sect * hd_cyl), klog := K\<rparr> \<and>
     (\<forall>i < NR_REQUEST. rq_hd (R i) = -1)"
proof -
  have "\<exists>R. fold (\<lambda>i. upd_rq i (\<lambda>q. q\<lparr>rq_hd := -1, rq_next := None\<rparr>)) is s = s\<lparr>request := R\<rparr> \<and> (\<forall>i \<in> set is. rq_hd (R i) = -1)" for "is"
  proof (induction "is" rule: rev_induct)
    case (snoc j "is")
    then obtain R where R: "fold (\<lambda>i. upd_rq i (\<lambda>q. q\<lparr>rq_hd := -1, rq_next := None\<rparr>)) is s = s\<lparr>request := R\<rparr>" "\<forall>i \<in> set is. rq_hd (R i) = -1"
      by blast
    show ?case
      by (rule exI [of _ "R(j := (R j)\<lparr>rq_hd := -1, rq_next := None\<rparr>)"]) (simp add: R(1), use R(2) in \<open>simp add: upd_rq_def fun_upd_def\<close>)
  qed (auto intro!: exI [of _ "request s"])
  from this [of "[0..<NR_REQUEST]"] obtain R where
    R: "fold (\<lambda>i. upd_rq i (\<lambda>q. q\<lparr>rq_hd := -1, rq_next := None\<rparr>)) [0..<NR_REQUEST] s = s\<lparr>request := R\<rparr>" "\<forall>i < NR_REQUEST. rq_hd (R i) = -1" by auto
  then show ?thesis by (intro exI [of _ R] exI conjI) (simp_all add: hd_init_def Let_def NR_HD_def printk_def)
qed

theorem bread_witness:
  "bc_ready demo_disk 0x301 (buffer_init hd_demo) \<and>
   (\<exists>b t. bread 0x301 7 (buffer_init hd_demo) = Ok (Some b) t \<and> bc_held demo_disk 0x301 7 b t) \<and>
   (\<exists>t. bread 0x301 40 (buffer_init hd_demo) = Ok None t \<and> bc_ready demo_disk 0x301 t)"
proof -
  note b = bread_ok [OF hd_demo_ready, of 7] bread_ok [OF hd_demo_ready, of 40]
  have "uint (0x301 :: u16) = 0x301" "uint (7 :: u16) = 7" "uint (40 :: u16) = 40" by simp_all
  then show ?thesis using b hd_demo_there(1,3) hd_demo_ready by (metis (no_types, lifting))
qed

theorem write_evict_read_witness:
  "\<exists>b s s1 b2 s2 s3 b4 s4. bread 0x301 7 (buffer_init hd_demo) = Ok (Some b) s \<and>
    brelse (Some b) (bc_replace b (\<lambda>_. 42) s) = Ok () s1 \<and> bread 0x301 8 s1 = Ok (Some b2) s2 \<and> brelse (Some b2) s2 = Ok () s3 \<and>
    bread 0x301 7 s3 = Ok (Some b4) s4 \<and> (\<forall>k < 1024. b_data (bh s4 b4) k = 42)"
proof -
  have u: "uint (0x301 :: u16) = 0x301" "uint (7 :: u16) = 7" "uint (8 :: u16) = 8" by simp_all
  obtain b s where b: "bread 0x301 7 (buffer_init hd_demo) = Ok (Some b) s" "bc_held demo_disk 0x301 7 b s"
    "kept UNIV (buffer_init hd_demo) s" using cache.fetch_there [OF hd_demo_ready hd_demo_there(1)] unfolding u by blast
  have "block_there 0x301 7 s" "block_there 0x301 8 s"
    using hd_demo_there kept_sel(3) [OF b(3)] by (simp_all add: block_there_def)
  from write_evict_read [OF b(2) this, of "\<lambda>_. 42", unfolded u] b(1) show ?thesis by auto
qed

theorem buffer_init_witness:
  "nr_buffers hd_demo = 0 \<and> queues_ok {..<nr_buffers (buffer_init hd_demo)} [0..<nr_buffers (buffer_init hd_demo)] (\<lambda>_. []) (buffer_init hd_demo) \<and>
   bc_ready demo_disk 0x301 (hd_init (buffer_init hd_demo))"
proof -
  let ?t = "buffer_init hd_demo"
  note i = buffer_init_ok [of hd_demo, OF hd_demo_sel(1) _ refl refl]
  have q: "queues_ok {..<nr_buffers ?t} [0..<nr_buffers ?t] (\<lambda>_. []) ?t" using i by (simp add: hd_demo_sel)
  obtain R K where h: "hd_init ?t = ?t\<lparr>request := R, start_sect := (start_sect ?t)(0 := 0),
      nr_sects := (nr_sects ?t)(0 := hd_head * hd_sect * hd_cyl), klog := K\<rparr>" "\<forall>i < NR_REQUEST. rq_hd (R i) = -1"
    using hd_init_eq [of ?t] by blast
  have u: "bh (hd_init ?t) = bh ?t" "nr_buffers (hd_init ?t) = nr_buffers ?t" "free_list (hd_init ?t) = free_list ?t"
    "hash_table (hd_init ?t) = hash_table ?t" "buffer_wait (hd_init ?t) = 0"
    using buffer_init_bh(5) [OF hd_demo_sel(1)] by (simp_all add: h hd_demo_sel)
  have "hd_idle (hd_init ?t)" "good_drive demo_disk (hd_init ?t)"
    using buffer_init_bh(6,8) [OF hd_demo_sel(1)] hd_demo_idle hd_demo_facts(2) h(2)
    by (simp_all add: h(1) hd_idle_def cur_def good_drive_def)
  moreover have "start_sect ?t = start_sect hd_demo" "nr_sects ?t = nr_sects hd_demo"
    by (simp_all add: buffer_init_def Let_def printk_def)
  then have "parts_ok (hd_init ?t)"
    by (simp add: h(1) parts_ok_def hd_demo_sel hd_head_def hd_sect_def hd_cyl_def)
  ultimately have "bc_ready demo_disk 0x301 (hd_init ?t)" using i u hd_demo_facts(3) by (simp add: hd_demo_sel)
  with q show ?thesis by (simp add: hd_demo_sel)
qed

theorem buffer_blocks_witness:
  "block_addrs 0x1FF800 BUFFER_END = [0x1FFC00] \<and> 0x1FFC00 + 1024 \<le> BUFFER_END \<and> 0x1FF800 + 32 \<le> (0x1FFC00 :: nat)"
proof -
  have "block_addrs 0x1FF800 BUFFER_END = [0x1FFC00]"
    unfolding BUFFER_END_def by (subst block_addrs.simps, subst block_addrs.simps) simp
  with buffer_blocks_disjoint [of "0x1FF800"] show ?thesis by simp
qed

end
