(* ===== verification/Fs_Data.thy ===== *)
theory Fs_Data
  imports Buffer_Boot
begin

text \<open>
  The tables of the file system (\<open>include/linux/fs.h\<close>), the access to the bytes of a block as
  \<open>unsigned short\<close>s, \<open>long\<close>s and bits, and the disk layout of an inode.

  A pointer to an inode, an open file or a super block is the index in its table. The eight inode maps and
  the eight zone maps of a super block are one array of sixteen, as they lie in memory. \<open>find_first_zero\<close>
  follows the assembler of \<open>fs/bitmap.c\<close> word by word; the lemmas show that it is the search for the first zero
  bit, that the bit operations change one bit, and that the layout of an inode is decoded as it was encoded.
\<close>

section \<open>Constants\<close>

definition NAME_LEN :: nat where "NAME_LEN = 14"
definition I_MAP_SLOTS :: nat where "I_MAP_SLOTS = 8"
definition Z_MAP_SLOTS :: nat where "Z_MAP_SLOTS = 8"
definition SUPER_MAGIC :: u16 where "SUPER_MAGIC = 0x137F"
definition NR_OPEN :: nat where "NR_OPEN = 20"
definition NR_INODE :: nat where "NR_INODE = 32"
definition NR_FILE :: nat where "NR_FILE = 64"
definition NR_SUPER :: nat where "NR_SUPER = 8"
definition INODES_PER_BLOCK :: int where "INODES_PER_BLOCK = 32"
definition DIR_ENTRIES_PER_BLOCK :: int where "DIR_ENTRIES_PER_BLOCK = 64"
definition ROOT_DEV :: int where "ROOT_DEV = 0x301"

section \<open>Tables\<close>

record m_inode =
  i_mode :: u16
  i_uid :: u16
  i_size :: u32
  i_mtime :: u32
  i_gid :: u8
  i_nlinks :: u8
  i_zone :: "nat \<Rightarrow> u16"
  i_wait :: nat
  i_atime :: u32
  i_ctime :: u32
  i_dev :: u16
  i_num :: u16
  i_count :: u16
  i_lock :: u8
  i_dirt :: u8
  i_pipe :: u8
  i_mount :: u8
  i_seek :: u8
  i_update :: u8

record file_struct =
  f_mode :: u16
  f_flags :: u16
  f_count :: u16
  f_inode :: "nat option"
  f_pos :: int

record super_block =
  s_ninodes :: u16
  s_nzones :: u16
  s_imap_blocks :: u16
  s_zmap_blocks :: u16
  s_firstdatazone :: u16
  s_log_zone_size :: u16
  s_max_size :: u32
  s_magic :: u16
  s_maps :: "nat \<Rightarrow> nat option"
  s_dev :: u16
  s_isup :: "nat option"
  s_imount :: "nat option"
  s_time :: u32
  s_rd_only :: u8
  s_dirt :: u8

record fs_st = hd_st +
  inode_table :: "nat \<Rightarrow> m_inode"
  last_allocated_inode :: nat
  supers :: "nat \<Rightarrow> super_block"
  file_table :: "nat \<Rightarrow> file_struct"
  callable :: bool

definition s_imap :: "super_block \<Rightarrow> nat \<Rightarrow> nat option" where
  "s_imap p i = s_maps p i"

definition s_zmap :: "super_block \<Rightarrow> nat \<Rightarrow> nat option" where
  "s_zmap p i = s_maps p (8 + i)"

text \<open>\<open>memset(inode,0,sizeof(*inode))\<close>.\<close>

definition zero_inode :: m_inode where
  "zero_inode = \<lparr>i_mode = 0, i_uid = 0, i_size = 0, i_mtime = 0, i_gid = 0, i_nlinks = 0, i_zone = (\<lambda>_. 0), i_wait = 0,
     i_atime = 0, i_ctime = 0, i_dev = 0, i_num = 0, i_count = 0, i_lock = 0, i_dirt = 0, i_pipe = 0, i_mount = 0,
     i_seek = 0, i_update = 0\<rparr>"

definition upd_inode :: "nat \<Rightarrow> (m_inode \<Rightarrow> m_inode) \<Rightarrow> 'z fs_st_scheme \<Rightarrow> 'z fs_st_scheme" where
  "upd_inode i f s = s\<lparr>inode_table := (inode_table s)(i := f (inode_table s i))\<rparr>"

definition upd_super :: "nat \<Rightarrow> (super_block \<Rightarrow> super_block) \<Rightarrow> 'z fs_st_scheme \<Rightarrow> 'z fs_st_scheme" where
  "upd_super p f s = s\<lparr>supers := (supers s)(p := f (supers s p))\<rparr>"

definition upd_file :: "nat \<Rightarrow> (file_struct \<Rightarrow> file_struct) \<Rightarrow> 'z fs_st_scheme \<Rightarrow> 'z fs_st_scheme" where
  "upd_file i f s = s\<lparr>file_table := (file_table s)(i := f (file_table s i))\<rparr>"

definition now32 :: "'z sched_st_scheme \<Rightarrow> u32" where
  "now32 s = word_of_int (CURRENT_TIME s)"

definition get_super :: "int \<Rightarrow> 'z fs_st_scheme \<Rightarrow> nat option" where
  "get_super dev s = find (\<lambda>i. uint (s_dev (supers s i)) = dev) [0..<NR_SUPER]"

section \<open>File modes\<close>

definition S_IFMT :: u16 where "S_IFMT = 0xf000"
definition S_ISREG :: "u16 \<Rightarrow> bool" where "S_ISREG m \<longleftrightarrow> m AND S_IFMT = 0x8000"
definition S_ISDIR :: "u16 \<Rightarrow> bool" where "S_ISDIR m \<longleftrightarrow> m AND S_IFMT = 0x4000"
definition S_ISCHR :: "u16 \<Rightarrow> bool" where "S_ISCHR m \<longleftrightarrow> m AND S_IFMT = 0x2000"
definition S_ISBLK :: "u16 \<Rightarrow> bool" where "S_ISBLK m \<longleftrightarrow> m AND S_IFMT = 0x6000"

section \<open>Bytes of a block\<close>

definition half_at :: "(nat \<Rightarrow> u8) \<Rightarrow> nat \<Rightarrow> u16" where
  "half_at d k = ucast (d k) OR push_bit 8 (ucast (d (k + 1)))"

definition put_half :: "nat \<Rightarrow> u16 \<Rightarrow> (nat \<Rightarrow> u8) \<Rightarrow> nat \<Rightarrow> u8" where
  "put_half k v d = d(k := ucast v, k + 1 := ucast (drop_bit 8 v))"

definition long_at :: "(nat \<Rightarrow> u8) \<Rightarrow> nat \<Rightarrow> u32" where
  "long_at d k = ucast (half_at d k) OR push_bit 16 (ucast (half_at d (k + 2)))"

definition put_long :: "nat \<Rightarrow> u32 \<Rightarrow> (nat \<Rightarrow> u8) \<Rightarrow> nat \<Rightarrow> u8" where
  "put_long k v d = put_half (k + 2) (ucast (drop_bit 16 v)) (put_half k (ucast v) d)"

text \<open>The element \<open>i\<close> of a block of zone numbers.\<close>

definition zone_at :: "(nat \<Rightarrow> u8) \<Rightarrow> nat \<Rightarrow> u16" where
  "zone_at d i = half_at d (2 * i)"

section \<open>Bits of a block\<close>

definition bit_at :: "(nat \<Rightarrow> u8) \<Rightarrow> nat \<Rightarrow> bool" where
  "bit_at d n = bit (d (n div 8)) (n mod 8)"

definition put_bit :: "nat \<Rightarrow> bool \<Rightarrow> (nat \<Rightarrow> u8) \<Rightarrow> nat \<Rightarrow> u8" where
  "put_bit n v d =
     d(n div 8 := (if v then Bit_Operations.set_bit (n mod 8) (d (n div 8)) else unset_bit (n mod 8) (d (n div 8))))"

definition bsf :: "u32 \<Rightarrow> nat option" where
  "bsf w = find (bit w) [0..<32]"

text \<open>\<open>lodsl; notl; bsfl\<close> for the words from bit number \<open>ecx\<close> on; \<open>n\<close> of the 256 words are left.\<close>

fun find_zero_from :: "nat \<Rightarrow> (nat \<Rightarrow> u8) \<Rightarrow> nat \<Rightarrow> nat" where
  "find_zero_from 0 d ecx = ecx"
| "find_zero_from (Suc n) d ecx =
     (case bsf (NOT (long_at d (ecx div 8))) of Some edx \<Rightarrow> ecx + edx | None \<Rightarrow> find_zero_from n d (ecx + 32))"

definition find_first_zero :: "(nat \<Rightarrow> u8) \<Rightarrow> nat" where
  "find_first_zero d = find_zero_from 256 d 0"

lemma bit_half_at: "bit (half_at d k) n \<longleftrightarrow> (n < 8 \<and> bit (d k) n) \<or> (8 \<le> n \<and> n < 16 \<and> bit (d (k + 1)) (n - 8))"
  by (auto simp: half_at_def bit_simps dest: bit_imp_le_length)

lemma bit_long_byte: "q < 4 \<Longrightarrow> r < 8 \<Longrightarrow> bit (long_at d k) (8 * q + r) = bit (d (k + q)) r"
proof -
  assume "q < 4" and r: "r < 8"
  then have "q = 0 \<or> q = 1 \<or> q = 2 \<or> q = 3" by presburger
  moreover have "bit (d j) n \<Longrightarrow> n < 8" for j n by (drule bit_imp_le_length) simp
  ultimately show ?thesis using r
    by (elim disjE) (auto simp: long_at_def bit_simps bit_half_at add.commute numeral_3_eq_3 numeral_2_eq_2)
qed

lemma bit_long_at: "n < 32 \<Longrightarrow> bit (long_at d k) n = bit (d (k + n div 8)) (n mod 8)"
  using bit_long_byte [of "n div 8" "n mod 8" d k] by (simp add: less_mult_imp_div_less)

text \<open>The search by words is the search for the first zero bit.\<close>

lemma find_None_all: "find P xs = None \<longleftrightarrow> (\<forall>x \<in> set xs. \<not> P x)"
  by (induction xs) auto

lemma find_upt_first: "find P [a..<b] = Some x \<longleftrightarrow> a \<le> x \<and> x < b \<and> P x \<and> (\<forall>y. a \<le> y \<and> y < x \<longrightarrow> \<not> P y)"
proof (induction "b - a" arbitrary: a)
  case (Suc n)
  then have "[a..<b] = a # [Suc a..<b]" by (simp add: upt_conv_Cons)
  then show ?case using Suc.hyps(1) [of "Suc a"] Suc.hyps(2)
    by (auto simp: Suc_le_eq) (metis Suc_leI le_neq_implies_less)+
qed auto

lemma word_bits: "8 * m = ecx \<Longrightarrow> i < 32 \<Longrightarrow> bit (NOT (long_at d (ecx div 8))) i \<longleftrightarrow> \<not> bit_at d (ecx + i)"
proof -
  assume m: "8 * m = ecx" and i: "i < 32"
  have "(ecx + i) div 8 = m + i div 8" "(ecx + i) mod 8 = i mod 8" "ecx div 8 = m" using m by auto
  then show ?thesis using i by (simp add: bit_not_iff bit_long_at bit_at_def)
qed

lemma find_zero_from_first:
  "ecx mod 32 = 0 \<Longrightarrow> find_zero_from n d ecx =
     (case find (\<lambda>i. \<not> bit_at d i) [ecx..<ecx + 32 * n] of Some i \<Rightarrow> i | None \<Rightarrow> ecx + 32 * n)"
proof (induction n arbitrary: ecx)
  case (Suc n)
  have m: "8 * (ecx div 8) = ecx" using Suc.prems by presburger
  let ?w = "NOT (long_at d (ecx div 8))" and ?P = "\<lambda>i. \<not> bit_at d i"
  show ?case
  proof (cases "bsf ?w")
    case None
    then have b: "bit_at d (ecx + i)" if "i < 32" for i
      using word_bits [OF m that, of d] that unfolding bsf_def find_None_all by simp
    have all: "bit_at d i" if "ecx \<le> i" "i < ecx + 32" for i using b [of "i - ecx"] that by simp
    have "find ?P [ecx..<ecx + 32 * Suc n] = find ?P [ecx + 32..<(ecx + 32) + 32 * n]"
    proof (cases "find ?P [ecx + 32..<(ecx + 32) + 32 * n]")
      case None
      then have "bit_at d i" if "ecx + 32 \<le> i" "i < ecx + 32 + 32 * n" for i using that by (auto simp: find_None_all)
      then have "find ?P [ecx..<ecx + 32 * Suc n] = None" using all unfolding find_None_all by (metis atLeastLessThan_iff mult_Suc_right add.assoc not_less set_upt)
      then show ?thesis using None by simp
    next
      case (Some x)
      then have "find ?P [ecx..<ecx + 32 * Suc n] = Some x"
        using all unfolding find_upt_first by (metis add.assoc add_leD1 mult_Suc_right not_less)
      then show ?thesis using Some by simp
    qed
    then show ?thesis using None Suc.IH [of "ecx + 32"] Suc.prems by (auto split: option.splits)
  next
    case (Some e)
    then have e: "e < 32" "bit ?w e" "\<forall>y < e. \<not> bit ?w y" unfolding bsf_def find_upt_first by auto
    have b: "bit_at d (ecx + y)" if "y < e" for y using word_bits [OF m, of y d] e that by simp
    have "bit_at d y" if "ecx \<le> y" "y < ecx + e" for y using b [of "y - ecx"] that by simp
    then have "find ?P [ecx..<ecx + 32 * Suc n] = Some (ecx + e)"
      using e word_bits [OF m, of e d] unfolding find_upt_first by auto
    then show ?thesis using Some by simp
  qed
qed simp

text \<open>
  C23: \<open>find_first_zero\<close>, which scans a bitmap in words of 32 bits, returns the number of the first zero bit of the
  block, and 8192 when every bit is set.
\<close>

theorem find_first_zero_least:
  "find_first_zero d = (case find (\<lambda>i. \<not> bit_at d i) [0..<8192] of Some i \<Rightarrow> i | None \<Rightarrow> 8192)"
  unfolding find_first_zero_def using find_zero_from_first [of 0 256 d] by (simp split: option.splits)

section \<open>The inode on the disk\<close>

definition d_inode_at :: "(nat \<Rightarrow> u8) \<Rightarrow> nat \<Rightarrow> m_inode \<Rightarrow> m_inode" where
  "d_inode_at d k x =
     x\<lparr>i_mode := half_at d k, i_uid := half_at d (k + 2), i_size := long_at d (k + 4), i_mtime := long_at d (k + 8),
       i_gid := d (k + 12), i_nlinks := d (k + 13),
       i_zone := \<lambda>j. if j < 9 then half_at d (k + 14 + 2 * j) else i_zone x j\<rparr>"

definition put_d_inode :: "nat \<Rightarrow> m_inode \<Rightarrow> (nat \<Rightarrow> u8) \<Rightarrow> nat \<Rightarrow> u8" where
  "put_d_inode k x d =
     fold (\<lambda>j. put_half (k + 14 + 2 * j) (i_zone x j)) [0..<9]
       ((put_long (k + 8) (i_mtime x) (put_long (k + 4) (i_size x) (put_half (k + 2) (i_uid x) (put_half k (i_mode x) d))))
         (k + 12 := i_gid x, k + 13 := i_nlinks x))"

lemma half_bytes: "half_at d k = v \<longleftrightarrow> d k = ucast v \<and> d (k + 1) = ucast (drop_bit 8 v)"
proof
  assume v: "half_at d k = v"
  have "ucast v = d k" by (rule bit_word_eqI) (auto simp: v [symmetric] bit_simps bit_half_at)
  moreover have "ucast (drop_bit 8 v) = d (k + 1)"
    by (rule bit_word_eqI) (auto simp: v [symmetric] bit_simps bit_half_at dest: bit_imp_le_length)
  ultimately show "d k = ucast v \<and> d (k + 1) = ucast (drop_bit 8 v)" by simp
next
  assume "d k = ucast v \<and> d (k + 1) = ucast (drop_bit 8 v)"
  then show "half_at d k = v" by (intro bit_word_eqI) (auto simp: bit_half_at bit_simps)
qed

lemma half_put_same [simp]: "half_at (put_half k v d) k = v"
  by (simp add: half_bytes put_half_def)

lemma half_put_other [simp]: "j + 1 < k \<or> k + 1 < j \<Longrightarrow> half_at (put_half k v d) j = half_at d j"
  by (auto simp: half_at_def put_half_def)

lemma long_put_same [simp]: "long_at (put_long k v d) k = v"
proof -
  have "long_at (put_long k v d) k = ucast (ucast v :: u16) OR push_bit 16 (ucast (ucast (drop_bit 16 v) :: u16))"
    by (simp add: long_at_def put_long_def del: push_bit_numeral_minus_1)
  also have "\<dots> = v" by (rule bit_word_eqI) (auto simp: bit_simps)
  finally show ?thesis .
qed

lemma long_put_other [simp]: "j + 3 < k \<or> k + 3 < j \<Longrightarrow> long_at (put_long k v d) j = long_at d j"
  by (auto simp: long_at_def half_at_def put_long_def put_half_def)

lemma half_put_long_other [simp]: "j + 1 < k \<or> k + 3 < j \<Longrightarrow> half_at (put_long k v d) j = half_at d j"
  by (auto simp: half_at_def put_long_def put_half_def)

lemma put_half_byte [simp]: "b \<noteq> k \<Longrightarrow> b \<noteq> k + 1 \<Longrightarrow> put_half k v d b = d b"
  by (simp add: put_half_def)

lemma put_long_byte [simp]: "b < k \<or> k + 3 < b \<Longrightarrow> put_long k v d b = d b"
  by (auto simp: put_long_def put_half_def)

lemma fold_zones:
  "n \<le> 9 \<Longrightarrow> half_at (fold (\<lambda>j. put_half (a + 2 * j) (z j)) [0..<n] d) (a + 2 * i) = (if i < n then z i else half_at d (a + 2 * i))"
  "(b < a \<or> a + 2 * n \<le> b) \<Longrightarrow> fold (\<lambda>j. put_half (a + 2 * j) (z j)) [0..<n] d b = d b"
proof (induction n)
  case (Suc n)
  { case 1
    then show ?case using Suc.IH(1) half_put_other [of "a + 2 * i" "a + 2 * n"] by (cases "i = n") (auto simp: less_Suc_eq)
  next
    case 2
    then show ?case using Suc.IH(2) by (auto simp: put_half_def) }
qed simp_all

lemma put_d_inode_outside: "b < k \<or> k + 32 \<le> b \<Longrightarrow> put_d_inode k x d b = d b"
  using fold_zones(2) [of b "k + 14" 9] by (auto simp: put_d_inode_def put_long_def put_half_def)

lemma put_d_inode_head:
  "b < k + 14 \<Longrightarrow> put_d_inode k x d b =
     ((put_long (k + 8) (i_mtime x) (put_long (k + 4) (i_size x) (put_half (k + 2) (i_uid x) (put_half k (i_mode x) d))))
         (k + 12 := i_gid x, k + 13 := i_nlinks x)) b"
  unfolding put_d_inode_def by (rule fold_zones(2)) simp

text \<open>Decoding gives back the fields that were encoded; the fields that exist in memory only stay.\<close>

definition disk_fields :: "m_inode \<Rightarrow> m_inode \<Rightarrow> m_inode" where
  "disk_fields x y = y\<lparr>i_mode := i_mode x, i_uid := i_uid x, i_size := i_size x, i_mtime := i_mtime x, i_gid := i_gid x,
     i_nlinks := i_nlinks x, i_zone := \<lambda>j. if j < 9 then i_zone x j else i_zone y j\<rparr>"

lemma half_at_cong: "d k = e k \<Longrightarrow> d (k + 1) = e (k + 1) \<Longrightarrow> half_at d k = half_at e k"
  by (simp add: half_at_def)

lemma d_inode_roundtrip: "d_inode_at (put_d_inode k x d) k y = disk_fields x y"
proof -
  let ?d = "put_d_inode k x d"
  let ?e = "put_long (k + 8) (i_mtime x) (put_long (k + 4) (i_size x) (put_half (k + 2) (i_uid x) (put_half k (i_mode x) d)))"
  have b: "?d b = ?e b" if "b < k + 12" for b using that by (simp add: put_d_inode_head)
  have h: "half_at ?d b = half_at ?e b" if "b + 1 < k + 12" for b using that by (intro half_at_cong) (simp_all add: b)
  have l: "long_at ?d b = long_at ?e b" if "b + 3 < k + 12" for b using that by (simp add: long_at_def h)
  have "half_at ?d k = i_mode x" "half_at ?d (k + 2) = i_uid x" "long_at ?d (k + 4) = i_size x" "long_at ?d (k + 8) = i_mtime x"
    by (simp_all add: h l)
  moreover have "?d (k + 12) = i_gid x" "?d (k + 13) = i_nlinks x" by (simp_all add: put_d_inode_head)
  moreover have "half_at ?d (k + 14 + 2 * j) = i_zone x j" if "j < 9" for j
    using that fold_zones(1) [of 9 "k + 14" "i_zone x" _ j] by (simp add: put_d_inode_def)
  ultimately show ?thesis by (simp add: d_inode_at_def disk_fields_def cong: if_cong)
qed

section \<open>A mounted file system\<close>

text \<open>
  The state after the boot, with the super block of device 0x301 in place (one inode map and one zone map) and no
  inode in use.
\<close>

definition zero_super :: super_block where
  "zero_super = \<lparr>s_ninodes = 0, s_nzones = 0, s_imap_blocks = 0, s_zmap_blocks = 0, s_firstdatazone = 0, s_log_zone_size = 0,
     s_max_size = 0, s_magic = 0, s_maps = (\<lambda>_. None), s_dev = 0, s_isup = None, s_imount = None, s_time = 0, s_rd_only = 0,
     s_dirt = 0\<rparr>"

definition fs_base :: fs_st where
  "fs_base = hd_st.extend hd_demo
     \<lparr>inode_table = (\<lambda>_. zero_inode), last_allocated_inode = 0,
      supers = (\<lambda>_. zero_super)(0 := zero_super\<lparr>s_ninodes := 32, s_nzones := 40, s_imap_blocks := 1, s_zmap_blocks := 1,
        s_firstdatazone := 5, s_magic := SUPER_MAGIC, s_dev := 0x301\<rparr>),
      file_table = (\<lambda>_. \<lparr>f_mode = 0, f_flags = 0, f_count = 0, f_inode = None, f_pos = 0\<rparr>), callable = True\<rparr>"

definition fs_demo :: fs_st where
  "fs_demo = buffer_init fs_base"

lemma fs_base_sel:
  "nr_buffers fs_base = nr_buffers hd_demo" "start_buffer fs_base = start_buffer hd_demo" "buffer_wait fs_base = buffer_wait hd_demo"
  "nr_sects fs_base = nr_sects hd_demo" "start_sect fs_base = start_sect hd_demo" "hd_idle fs_base = hd_idle hd_demo"
  "parts_ok fs_base = parts_ok hd_demo" "good_drive D fs_base = good_drive D hd_demo"
  by (simp_all add: fs_base_def hd_st.extend_def hd_idle_def cur_def parts_ok_def good_drive_def)

lemma fs_demo_ready: "bc_ready demo_disk 0x301 fs_demo"
  unfolding fs_demo_def using hd_demo_idle hd_demo_facts by (intro buffer_init_ready) (simp_all add: fs_base_sel hd_demo_sel)

lemma fs_demo_tables:
  "inode_table fs_demo = (\<lambda>_. zero_inode)" "last_allocated_inode fs_demo = 0" "nr_sects fs_demo = (\<lambda>i. if i = 1 then 80 else 0)"
  "file_table fs_demo f = \<lparr>f_mode = 0, f_flags = 0, f_count = 0, f_inode = None, f_pos = 0\<rparr>" "get_super 0x301 fs_demo = Some 0"
  "supers fs_demo 0 = zero_super\<lparr>s_ninodes := 32, s_nzones := 40, s_imap_blocks := 1, s_zmap_blocks := 1,
        s_firstdatazone := 5, s_magic := SUPER_MAGIC, s_dev := 0x301\<rparr>"
  by (simp_all add: fs_demo_def buffer_init_def Let_def printk_def get_super_def NR_SUPER_def upt_rec)
    (simp_all add: fs_base_def hd_st.extend_def hd_demo_sel zero_super_def)

end
