(* ===== verification/Inode.thy ===== *)
theory Inode
  imports Fs_Data
begin

text \<open>
  The inode and zone bitmaps \<open>fs/bitmap.c\<close>, freeing the blocks of a file \<open>fs/truncate.c\<close>, and the inode table
  \<open>fs/inode.c\<close>.

  A lock of an inode belongs to another task; \<open>sleep_on\<close> gives the processor away, and the outcome of the call is
  then \<open>Sleep\<close>. A NULL map pointer of a super block, through which the code would access memory at address 0, is the
  outcome \<open>Hang\<close>; a NULL super block in \<open>read_inode\<close> and \<open>write_inode\<close> is read at the address 0, as the machine does.
\<close>

section \<open>bitmap.c: blocks\<close>

definition free_block_bit :: "nat \<Rightarrow> int \<Rightarrow> int \<Rightarrow> 'z fs_st_scheme \<Rightarrow> ('z fs_st_scheme, unit) kres" where
  "free_block_bit p dev block s =
     (let nr = nat (block - (uint (s_firstdatazone (supers s p)) - 1))
      in case s_zmap (supers s p) (nr div 8192) of None \<Rightarrow> Hang
         | Some z \<Rightarrow>
            if \<not> bit_at (b_data (bh s z)) (nr mod 8192) then Panic ''free_block: bit already cleared''
            else Ok () (upd_bh z (\<lambda>x. x\<lparr>b_data := put_bit (nr mod 8192) False (b_data x), b_dirt := 1\<rparr>) s))"

definition free_block :: "int \<Rightarrow> int \<Rightarrow> 'z fs_st_scheme \<Rightarrow> ('z fs_st_scheme, unit) kres" where
  "free_block dev block s =
     (case get_super dev s of None \<Rightarrow> Panic ''trying to free block on nonexistent device''
      | Some p \<Rightarrow>
         if block < uint (s_firstdatazone (supers s p)) \<or> block \<ge> uint (s_nzones (supers s p))
         then Panic ''trying to free block not in datazone''
         else bnd (get_hash_table dev block s) (\<lambda>r s.
           case r of None \<Rightarrow> free_block_bit p dev block s
           | Some b \<Rightarrow>
              if b_count (bh s b) \<noteq> 1
              then Ok () (printk '' [FS] Warn: freeing busy block (%04x:%d), count=%d'' [dev, block, uint (b_count (bh s b))] s)
              else bnd (brelse (Some b) (upd_bh b (\<lambda>x. x\<lparr>b_dirt := 0, b_uptodate := 0\<rparr>) s)) (\<lambda>_ s.
                     free_block_bit p dev block s)))"

text \<open>The first map, counted from slot \<open>base\<close>, that has a zero bit.\<close>

definition map_scan :: "nat \<Rightarrow> nat \<Rightarrow> 'z fs_st_scheme \<Rightarrow> nat option" where
  "map_scan p base s =
     find (\<lambda>i. case s_maps (supers s p) (base + i) of None \<Rightarrow> False | Some b \<Rightarrow> find_first_zero (b_data (bh s b)) < 8192) [0..<8]"

definition clear_block :: "(nat \<Rightarrow> u8) \<Rightarrow> nat \<Rightarrow> u8" where
  "clear_block d k = (if k < BLOCK_SIZE then 0 else d k)"

definition new_block_at :: "int \<Rightarrow> int \<Rightarrow> 'z fs_st_scheme \<Rightarrow> ('z fs_st_scheme, int) kres" where
  "new_block_at dev j s =
     bnd (getblk dev j s) (\<lambda>b s.
       if b_count (bh s b) \<noteq> 1 then Panic ''new block: count is != 1''
       else bnd (brelse (Some b) (upd_bh b (\<lambda>x. x\<lparr>b_data := clear_block (b_data x), b_uptodate := 1, b_dirt := 1\<rparr>) s))
              (\<lambda>_ s. Ok j s))"

definition new_block :: "int \<Rightarrow> 'z fs_st_scheme \<Rightarrow> ('z fs_st_scheme, int) kres" where
  "new_block dev s =
     (case get_super dev s of None \<Rightarrow> Panic ''trying to get new block from nonexistant device''
      | Some p \<Rightarrow>
         (case map_scan p 8 s of None \<Rightarrow> Ok 0 s
          | Some i \<Rightarrow>
             (case s_zmap (supers s p) i of None \<Rightarrow> Ok 0 s
              | Some z \<Rightarrow>
                 let j = find_first_zero (b_data (bh s z));
                     s1 = upd_super p (\<lambda>x. x\<lparr>s_rd_only := 0\<rparr>) s
                 in if bit_at (b_data (bh s1 z)) j then Panic ''new_block: bit already set''
                    else
                      let s2 = upd_bh z (\<lambda>x. x\<lparr>b_data := put_bit j True (b_data x), b_dirt := 1\<rparr>) s1;
                          j = int j + (int i * 8192 + uint (s_firstdatazone (supers s2 p)) - 1)
                      in if j \<ge> uint (s_nzones (supers s2 p)) then Ok 0 s2 else new_block_at dev j s2)))"

section \<open>bitmap.c: freeing an inode\<close>

definition free_inode :: "nat option \<Rightarrow> 'z fs_st_scheme \<Rightarrow> ('z fs_st_scheme, unit) kres" where
  "free_inode ip s =
     (case ip of None \<Rightarrow> Ok () s
      | Some i \<Rightarrow>
         let x = inode_table s i
         in if i_dev x = 0 then Ok () (upd_inode i (\<lambda>_. zero_inode) s)
            else if i_count x > 1 then Panic ''free_inode''
            else if i_nlinks x \<noteq> 0 then Panic ''trying to free inode with links''
            else case get_super (uint (i_dev x)) s of None \<Rightarrow> Panic ''trying to free inode on nonexistent device''
            | Some p \<Rightarrow>
               if uint (i_num x) < 1 \<or> i_num x > s_ninodes (supers s p) then Panic ''trying to free inode 0 or nonexistant inode''
               else case s_imap (supers s p) (unat (drop_bit 13 (i_num x))) of
                 None \<Rightarrow> Panic ''nonexistent imap in superblock''
               | Some m \<Rightarrow>
                  let nr = unat (i_num x AND 8191)
                  in if \<not> bit_at (b_data (bh s m)) nr then Panic ''free_inode: bit already cleared''
                     else Ok () (upd_inode i (\<lambda>_. zero_inode)
                                  (upd_bh m (\<lambda>y. y\<lparr>b_data := put_bit nr False (b_data y), b_dirt := 1\<rparr>) s)))"

section \<open>inode.c: locks\<close>

partial_function (option) wait_while ::
  "('z sched_st_scheme \<Rightarrow> bool) \<Rightarrow> 'z sched_st_scheme wait_queue \<Rightarrow> 'z sched_st_scheme \<Rightarrow> ('z sched_st_scheme, unit) kres option" where
  "wait_while c q s =
     (if \<not> c s then Some (Ok () s)
      else case sleep_on q s of Ok u s' \<Rightarrow> wait_while c q s' | r \<Rightarrow> Some r)"

definition i_wait_q :: "nat \<Rightarrow> 'z fs_st_scheme wait_queue" where
  "i_wait_q i = Some (\<lambda>s. i_wait (inode_table s i), \<lambda>v. upd_inode i (\<lambda>x. x\<lparr>i_wait := v\<rparr>))"

definition wait_on_inode :: "nat \<Rightarrow> 'z fs_st_scheme \<Rightarrow> ('z fs_st_scheme, unit) kres" where
  "wait_on_inode i s = ended (wait_while (\<lambda>s. i_lock (inode_table s i) \<noteq> 0) (i_wait_q i) s)"

definition lock_inode :: "nat \<Rightarrow> 'z fs_st_scheme \<Rightarrow> ('z fs_st_scheme, unit) kres" where
  "lock_inode i s =
     bnd (ended (wait_while (\<lambda>s. i_lock (inode_table s i) \<noteq> 0) (i_wait_q i) s)) (\<lambda>_ s.
       Ok () (upd_inode i (\<lambda>x. x\<lparr>i_lock := 1\<rparr>) s))"

definition unlock_inode :: "nat \<Rightarrow> 'z fs_st_scheme \<Rightarrow> 'z fs_st_scheme" where
  "unlock_inode i s = wake_up (i_wait_q i) (upd_inode i (\<lambda>x. x\<lparr>i_lock := 0\<rparr>) s)"

section \<open>inode.c: reading and writing an inode\<close>

definition pm_half :: "nat \<Rightarrow> 'z mm_st_scheme \<Rightarrow> u16" where
  "pm_half a s = half_at (\<lambda>k. ldb k s) a"

text \<open>The block of an inode, and its offset in the block; \<open>INODES_PER_BLOCK\<close> makes the division unsigned.\<close>

definition inode_block :: "nat \<Rightarrow> 'z fs_st_scheme \<Rightarrow> int" where
  "inode_block i s =
     (let maps = (case get_super (uint (i_dev (inode_table s i))) s of
                    Some p \<Rightarrow> uint (s_imap_blocks (supers s p)) + uint (s_zmap_blocks (supers s p))
                  | None \<Rightarrow> uint (pm_half 4 s) + uint (pm_half 6 s))
      in s32 (2 + maps + uw (uint (i_num (inode_table s i)) - 1) div INODES_PER_BLOCK))"

definition inode_offset :: "nat \<Rightarrow> 'z fs_st_scheme \<Rightarrow> nat" where
  "inode_offset i s = 32 * nat (uw (uint (i_num (inode_table s i)) - 1) mod INODES_PER_BLOCK)"

definition read_inode :: "nat \<Rightarrow> 'z fs_st_scheme \<Rightarrow> ('z fs_st_scheme, unit) kres" where
  "read_inode i s =
     bnd (lock_inode i s) (\<lambda>_ s.
     bnd (bread (uint (i_dev (inode_table s i))) (inode_block i s) s) (\<lambda>r s.
       case r of None \<Rightarrow> Panic ''unable to read i-node block''
       | Some b \<Rightarrow>
          bnd (brelse (Some b) (upd_inode i (d_inode_at (b_data (bh s b)) (inode_offset i s)) s)) (\<lambda>_ s.
            Ok () (unlock_inode i s))))"

definition write_inode :: "nat \<Rightarrow> 'z fs_st_scheme \<Rightarrow> ('z fs_st_scheme, unit) kres" where
  "write_inode i s =
     bnd (lock_inode i s) (\<lambda>_ s.
     bnd (bread (uint (i_dev (inode_table s i))) (inode_block i s) s) (\<lambda>r s.
       case r of None \<Rightarrow> Panic ''unable to read i-node block''
       | Some b \<Rightarrow>
          let s1 = upd_bh b (\<lambda>x. x\<lparr>b_data := put_d_inode (inode_offset i s) (inode_table s i) (b_data x), b_dirt := 1\<rparr>) s;
              s2 = upd_inode i (\<lambda>x. x\<lparr>i_dirt := 0\<rparr>) s1
          in bnd (brelse (Some b) s2) (\<lambda>_ s. Ok () (unlock_inode i s))))"

definition sync_inodes :: "'z fs_st_scheme \<Rightarrow> ('z fs_st_scheme, unit) kres" where
  "sync_inodes s =
     for_each [0..<NR_INODE] (\<lambda>i s.
       bnd (wait_on_inode i s) (\<lambda>_ s.
         if i_dirt (inode_table s i) \<noteq> 0 \<and> i_pipe (inode_table s i) = 0 then write_inode i s else Ok () s)) s"

definition sys_sync :: "'z fs_st_scheme \<Rightarrow> ('z fs_st_scheme, int) kres" where
  "sys_sync s = bnd (sync_inodes s) (\<lambda>_ s. bnd (sync_buffers s) (\<lambda>_ s. Ok 0 s))"

section \<open>inode.c: the zones of a file\<close>

definition bmap_zone :: "nat \<Rightarrow> nat \<Rightarrow> bool \<Rightarrow> 'z fs_st_scheme \<Rightarrow> ('z fs_st_scheme, unit) kres" where
  "bmap_zone i n create s =
     (if create \<and> i_zone (inode_table s i) n = 0
      then bnd (new_block (uint (i_dev (inode_table s i))) s) (\<lambda>z s.
        let s1 = upd_inode i (\<lambda>x. x\<lparr>i_zone := (i_zone x)(n := word_of_int z)\<rparr>) s
        in Ok () (if i_zone (inode_table s1 i) n \<noteq> 0
                  then upd_inode i (\<lambda>x. x\<lparr>i_ctime := now32 s1, i_dirt := 1\<rparr>) s1 else s1))
      else Ok () s)"

text \<open>Entry \<open>k\<close> of the zone numbers in block \<open>blk\<close>.\<close>

definition bmap_entry :: "nat \<Rightarrow> int \<Rightarrow> nat \<Rightarrow> bool \<Rightarrow> 'z fs_st_scheme \<Rightarrow> ('z fs_st_scheme, int) kres" where
  "bmap_entry i blk k create s =
     bnd (bread (uint (i_dev (inode_table s i))) blk s) (\<lambda>r s.
       case r of None \<Rightarrow> Ok 0 s
       | Some b \<Rightarrow>
          bnd (if create \<and> zone_at (b_data (bh s b)) k = 0
               then bnd (new_block (uint (i_dev (inode_table s i))) s) (\<lambda>z s.
                      Ok z (if z \<noteq> 0
                            then upd_bh b (\<lambda>x. x\<lparr>b_data := put_half (2 * k) (word_of_int z) (b_data x), b_dirt := 1\<rparr>) s
                            else s))
               else Ok (uint (zone_at (b_data (bh s b)) k)) s) (\<lambda>z s.
          bnd (brelse (Some b) s) (\<lambda>_ s. Ok z s)))"

definition do_bmap :: "nat \<Rightarrow> int \<Rightarrow> bool \<Rightarrow> 'z fs_st_scheme \<Rightarrow> ('z fs_st_scheme, int) kres" where
  "do_bmap i block create s =
     (if block < 0 then Panic ''_bmap: block<0''
      else if block \<ge> 7 + 512 + 512 * 512 then Panic ''_bmap: block>big''
      else if block < 7
      then bnd (bmap_zone i (nat block) create s) (\<lambda>_ s. Ok (uint (i_zone (inode_table s i) (nat block))) s)
      else if block - 7 < 512
      then bnd (bmap_zone i 7 create s) (\<lambda>_ s.
        if i_zone (inode_table s i) 7 = 0 then Ok 0 s
        else bmap_entry i (uint (i_zone (inode_table s i) 7)) (nat (block - 7)) create s)
      else bnd (bmap_zone i 8 create s) (\<lambda>_ s.
        if i_zone (inode_table s i) 8 = 0 then Ok 0 s
        else bnd (bmap_entry i (uint (i_zone (inode_table s i) 8)) (nat ((block - 519) div 512)) create s) (\<lambda>z s.
          if z = 0 then Ok 0 s else bmap_entry i z (nat ((block - 519) mod 512)) create s)))"

definition bmap :: "nat \<Rightarrow> int \<Rightarrow> 'z fs_st_scheme \<Rightarrow> ('z fs_st_scheme, int) kres" where
  "bmap i block s = do_bmap i block False s"

definition create_block :: "nat \<Rightarrow> int \<Rightarrow> 'z fs_st_scheme \<Rightarrow> ('z fs_st_scheme, int) kres" where
  "create_block i block s = do_bmap i block True s"

section \<open>truncate.c\<close>

definition free_ind :: "int \<Rightarrow> int \<Rightarrow> 'z fs_st_scheme \<Rightarrow> ('z fs_st_scheme, unit) kres" where
  "free_ind dev block s =
     (if block = 0 then Ok () s
      else bnd (bread dev block s) (\<lambda>r s.
        bnd (case r of None \<Rightarrow> Ok () s
             | Some b \<Rightarrow>
                bnd (for_each [0..<512] (\<lambda>k s.
                       if zone_at (b_data (bh s b)) k \<noteq> 0 then free_block dev (uint (zone_at (b_data (bh s b)) k)) s
                       else Ok () s) s)
                  (\<lambda>_ s. brelse (Some b) s)) (\<lambda>_ s.
        free_block dev block s)))"

definition free_dind :: "int \<Rightarrow> int \<Rightarrow> 'z fs_st_scheme \<Rightarrow> ('z fs_st_scheme, unit) kres" where
  "free_dind dev block s =
     (if block = 0 then Ok () s
      else bnd (bread dev block s) (\<lambda>r s.
        bnd (case r of None \<Rightarrow> Ok () s
             | Some b \<Rightarrow>
                bnd (for_each [0..<512] (\<lambda>k s.
                       if zone_at (b_data (bh s b)) k \<noteq> 0 then free_ind dev (uint (zone_at (b_data (bh s b)) k)) s
                       else Ok () s) s)
                  (\<lambda>_ s. brelse (Some b) s)) (\<lambda>_ s.
        free_block dev block s)))"

definition truncate :: "nat \<Rightarrow> 'z fs_st_scheme \<Rightarrow> ('z fs_st_scheme, unit) kres" where
  "truncate i s =
     (if \<not> (S_ISREG (i_mode (inode_table s i)) \<or> S_ISDIR (i_mode (inode_table s i))) then Ok () s
      else
        bnd (for_each [0..<7] (\<lambda>k s.
               if i_zone (inode_table s i) k \<noteq> 0
               then bnd (free_block (uint (i_dev (inode_table s i))) (uint (i_zone (inode_table s i) k)) s) (\<lambda>_ s.
                      Ok () (upd_inode i (\<lambda>x. x\<lparr>i_zone := (i_zone x)(k := 0)\<rparr>) s))
               else Ok () s) s) (\<lambda>_ s.
        bnd (free_ind (uint (i_dev (inode_table s i))) (uint (i_zone (inode_table s i) 7)) s) (\<lambda>_ s.
        bnd (free_dind (uint (i_dev (inode_table s i))) (uint (i_zone (inode_table s i) 8)) s) (\<lambda>_ s.
          Ok () (upd_inode i (\<lambda>x. x\<lparr>i_zone := (i_zone x)(7 := 0, 8 := 0), i_size := 0, i_dirt := 1,
                                    i_mtime := now32 s, i_ctime := now32 s\<rparr>) s)))))"

section \<open>inode.c: releasing and finding inodes\<close>

definition iput_pipe :: "nat \<Rightarrow> 'z fs_st_scheme \<Rightarrow> ('z fs_st_scheme, unit) kres" where
  "iput_pipe i s =
     (let s1 = upd_inode i (\<lambda>x. x\<lparr>i_count := i_count x - 1\<rparr>) (wake_up (i_wait_q i) s)
      in if i_count (inode_table s1 i) \<noteq> 0 then Ok () s1
         else bnd (free_page (i_size (inode_table s1 i)) s1) (\<lambda>_ s.
                Ok () (upd_inode i (\<lambda>x. x\<lparr>i_count := 0, i_dirt := 0, i_pipe := 0\<rparr>) s)))"

text \<open>One round from the label \<open>repeat\<close>.\<close>

definition iput_round :: "nat \<Rightarrow> 'z fs_st_scheme \<Rightarrow> ('z fs_st_scheme, unit option) kres" where
  "iput_round i s =
     (if i_nlinks (inode_table s i) = 0
      then bnd (truncate i s) (\<lambda>_ s. bnd (free_inode (Some i) s) (\<lambda>_ s. Ok (Some ()) s))
      else if i_dirt (inode_table s i) \<noteq> 0
      then bnd (write_inode i s) (\<lambda>_ s. bnd (wait_on_inode i s) (\<lambda>_ s. Ok None s))
      else Ok (Some ()) (upd_inode i (\<lambda>x. x\<lparr>i_count := i_count x - 1\<rparr>) s))"

definition iput :: "nat option \<Rightarrow> 'z fs_st_scheme \<Rightarrow> ('z fs_st_scheme, unit) kres" where
  "iput ip s =
     (case ip of None \<Rightarrow> Ok () s
      | Some i \<Rightarrow>
         bnd (wait_on_inode i s) (\<lambda>_ s.
           if i_count (inode_table s i) = 0 then Panic ''iput: trying to free free inode''
           else if i_pipe (inode_table s i) \<noteq> 0 then iput_pipe i s
           else if i_dev (inode_table s i) = 0 \<or> i_count (inode_table s i) > 1
           then Ok () (upd_inode i (\<lambda>x. x\<lparr>i_count := i_count x - 1\<rparr>) s)
           else retry (iput_round i) s))"

text \<open>The search for a free slot, from \<open>last_allocated_inode\<close> around the table.\<close>

definition free_slot :: "'z fs_st_scheme \<Rightarrow> nat option" where
  "free_slot s =
     map_option (\<lambda>k. (last_allocated_inode s + k) mod NR_INODE)
       (find (\<lambda>k. i_count (inode_table s ((last_allocated_inode s + k) mod NR_INODE)) = 0) [0..<NR_INODE])"

definition clean_inode :: "nat \<Rightarrow> 'z fs_st_scheme \<Rightarrow> ('z fs_st_scheme, unit) kres" where
  "clean_inode i s =
     retry (\<lambda>s. if i_dirt (inode_table s i) = 0 then Ok (Some ()) s
                else bnd (write_inode i s) (\<lambda>_ s. bnd (wait_on_inode i s) (\<lambda>_ s. Ok None s))) s"

definition empty_round :: "'z fs_st_scheme \<Rightarrow> ('z fs_st_scheme, nat option) kres" where
  "empty_round s =
     (case free_slot s of None \<Rightarrow> Panic ''No free inodes in mem''
      | Some i \<Rightarrow>
         bnd (wait_on_inode i (s\<lparr>last_allocated_inode := i\<rparr>)) (\<lambda>_ s.
         bnd (clean_inode i s) (\<lambda>_ s.
           Ok (if i_count (inode_table s i) = 0 then Some i else None) s)))"

definition get_empty_inode :: "'z fs_st_scheme \<Rightarrow> ('z fs_st_scheme, nat) kres" where
  "get_empty_inode s =
     bnd (retry empty_round s) (\<lambda>i s. Ok i (upd_inode i (\<lambda>_. zero_inode\<lparr>i_count := 1\<rparr>) s))"

text \<open>\<open>PIPE_HEAD\<close> and \<open>PIPE_TAIL\<close> are \<open>long\<close>s laid over the first zones.\<close>

definition PIPE_HEAD :: "m_inode \<Rightarrow> u32" where
  "PIPE_HEAD x = ucast (i_zone x 0) OR push_bit 16 (ucast (i_zone x 1))"

definition PIPE_TAIL :: "m_inode \<Rightarrow> u32" where
  "PIPE_TAIL x = ucast (i_zone x 2) OR push_bit 16 (ucast (i_zone x 3))"

definition set_pipe_head :: "u32 \<Rightarrow> m_inode \<Rightarrow> m_inode" where
  "set_pipe_head v x = x\<lparr>i_zone := (i_zone x)(0 := ucast v, 1 := ucast (drop_bit 16 v))\<rparr>"

definition set_pipe_tail :: "u32 \<Rightarrow> m_inode \<Rightarrow> m_inode" where
  "set_pipe_tail v x = x\<lparr>i_zone := (i_zone x)(2 := ucast v, 3 := ucast (drop_bit 16 v))\<rparr>"

definition get_pipe_inode :: "'z fs_st_scheme \<Rightarrow> ('z fs_st_scheme, nat option) kres" where
  "get_pipe_inode s =
     bnd (get_empty_inode s) (\<lambda>i s.
       let (page, s1) = get_free_page s;
           s2 = upd_inode i (\<lambda>x. x\<lparr>i_size := page\<rparr>) s1
       in if page = 0 then Ok None (upd_inode i (\<lambda>x. x\<lparr>i_count := 0\<rparr>) s2)
          else Ok (Some i) (upd_inode i (\<lambda>x. (set_pipe_head 0 (set_pipe_tail 0 (x\<lparr>i_count := 2\<rparr>)))\<lparr>i_pipe := 1\<rparr>) s2))"

partial_function (option) iget_loop :: "int \<Rightarrow> int \<Rightarrow> nat \<Rightarrow> 'z fs_st_scheme \<Rightarrow> ('z fs_st_scheme, nat option) kres option" where
  "iget_loop dev nr k s =
     (if k \<ge> NR_INODE then Some (Ok None s)
      else if uint (i_dev (inode_table s k)) \<noteq> dev \<or> uint (i_num (inode_table s k)) \<noteq> nr then iget_loop dev nr (k + 1) s
      else case wait_on_inode k s of
        Ok u s' \<Rightarrow>
          if uint (i_dev (inode_table s' k)) \<noteq> dev \<or> uint (i_num (inode_table s' k)) \<noteq> nr then iget_loop dev nr 0 s'
          else Some (Ok (Some k) s')
      | Panic m \<Rightarrow> Some (Panic m) | Die c s' \<Rightarrow> Some (Die c s') | Sleep s' \<Rightarrow> Some (Sleep s') | Hang \<Rightarrow> Some Hang)"

definition iget :: "int \<Rightarrow> int \<Rightarrow> 'z fs_st_scheme \<Rightarrow> ('z fs_st_scheme, nat) kres" where
  "iget dev nr s =
     (if dev = 0 then Panic ''iget with dev==0''
      else
        bnd (get_empty_inode s) (\<lambda>empty s.
        bnd (ended (iget_loop dev nr 0 s)) (\<lambda>r s.
          case r of
            Some i \<Rightarrow>
              bnd (iput (Some empty) (upd_inode i (\<lambda>x. x\<lparr>i_count := i_count x + 1\<rparr>) s)) (\<lambda>_ s. Ok i s)
          | None \<Rightarrow>
              bnd (read_inode empty (upd_inode empty (\<lambda>x. x\<lparr>i_dev := word_of_int dev, i_num := word_of_int nr\<rparr>) s)) (\<lambda>_ s.
                Ok empty s))))"

section \<open>bitmap.c: a new inode\<close>

definition new_inode :: "int \<Rightarrow> 'z fs_st_scheme \<Rightarrow> ('z fs_st_scheme, nat option) kres" where
  "new_inode dev s =
     bnd (get_empty_inode s) (\<lambda>i s.
       case get_super dev s of None \<Rightarrow> Panic ''new_inode with unknown device''
       | Some p \<Rightarrow>
          (case map_scan p 0 s of
             None \<Rightarrow> bnd (iput (Some i) s) (\<lambda>_ s. Ok None s)
           | Some m \<Rightarrow>
              (case s_imap (supers s p) m of None \<Rightarrow> bnd (iput (Some i) s) (\<lambda>_ s. Ok None s)
               | Some b \<Rightarrow>
                  let j = find_first_zero (b_data (bh s b))
                  in if int j + int m * 8192 > uint (s_ninodes (supers s p)) then bnd (iput (Some i) s) (\<lambda>_ s. Ok None s)
                     else if bit_at (b_data (bh s b)) j then Panic ''new_inode: bit already set''
                     else
                       let s1 = upd_bh b (\<lambda>x. x\<lparr>b_data := put_bit j True (b_data x), b_dirt := 1\<rparr>) s
                       in Ok (Some i) (upd_inode i (\<lambda>x. x\<lparr>i_count := 1, i_nlinks := 1, i_dev := word_of_int dev, i_dirt := 1,
                            i_num := of_nat (j + m * 8192), i_mtime := now32 s1, i_atime := now32 s1, i_ctime := now32 s1\<rparr>) s1))))"

end
