(* ===== verification/Inode_View.thy ===== *)
theory Inode_View
  imports Inode
begin

text \<open>
  Reading and writing inodes and finding the blocks of a file, on top of the interface of the buffer cache.

  The cache depends on its own fields only (\<open>same_hd\<close>), so that its interface holds in every state of the file system.
  The lemmas show that \<open>write_inode\<close> stores the inode in its place of the inode block and nowhere else, that
  \<open>read_inode\<close> decodes it, and that \<open>bmap\<close> computes the zone of a block number as the layout of direct, indirect and
  doubly indirect zones says (\<open>file_zone\<close>).
\<close>

section \<open>What the cache depends on\<close>

definition same_hd :: "'z hd_st_scheme \<Rightarrow> 'z hd_st_scheme \<Rightarrow> bool" where
  "same_hd s t \<longleftrightarrow> bh t = bh s \<and> nr_buffers t = nr_buffers s \<and> hash_table t = hash_table s \<and> free_list t = free_list s \<and>
     buffer_wait t = buffer_wait s \<and> start_sect t = start_sect s \<and> nr_sects t = nr_sects s \<and> request t = request s \<and>
     this_request t = this_request s \<and> sorting t = sorting s \<and> do_hd t = do_hd s \<and>
     wait_for_request t = wait_for_request s \<and> hd_hist t = hd_hist s \<and> hd_inb t = hd_inb s \<and> hd_insw t = hd_insw s \<and>
     current t = current s \<and> init_task t = init_task s \<and> state (cur t) = state (cur s)"

lemma same_hd_cache:
  assumes "same_hd s t"
  shows "cache_ok D dv t = cache_ok D dv s" "block_of D dv t = block_of D dv s" "block_there dv n t = block_there dv n s"
    "has_free t = has_free s" "bc_ready D dv t = bc_ready D dv s"
proof -
  have e: "on_disk b t = on_disk b s" "bh_sector b t = bh_sector b s" "disk_now D t = disk_now D s" "holds dv n t = holds dv n s"
    "first_sector t = first_sector s" "hash_of b t = hash_of b s" for b n
    using assms by (simp_all add: same_hd_def on_disk_def bh_sector_def first_sector_def [abs_def] disk_now_def holds_def [abs_def] hash_of_def)
  have b: "buf_ok D dv t b = buf_ok D dv s b" for b unfolding buf_ok_def e using assms by (simp add: same_hd_def)
  have p: "parts_ok t = parts_ok s" "good_drive D t = good_drive D s" "hd_idle t = hd_idle s"
    using assms by (simp_all add: same_hd_def parts_ok_def good_drive_def hd_idle_def)
  have q: "queues_ok U fs hs t = queues_ok U fs hs s" for U fs hs
    unfolding queues_ok_def e using assms by (simp add: same_hd_def)
  have d: "data_ok D dv t = data_ok D dv s" unfolding data_ok_def p b using assms by (simp add: same_hd_def)
  show c: "cache_ok D dv t = cache_ok D dv s" unfolding cache_ok_def d q using assms by (simp add: same_hd_def)
  show "block_of D dv t = block_of D dv s" using assms by (intro ext) (auto simp: block_of_def e same_hd_def split: option.splits)
  show "block_there dv n t = block_there dv n s" using assms by (simp add: block_there_def same_hd_def)
  show h: "has_free t = has_free s" using assms by (simp add: has_free_def same_hd_def)
  show "bc_ready D dv t = bc_ready D dv s" unfolding bc_ready_def c h using assms by (simp add: same_hd_def)
qed

lemma same_hd_held: "same_hd s t \<Longrightarrow> bc_held D dv n b t = bc_held D dv n b s"
proof -
  assume a: "same_hd s t"
  have "same_hd (upd_bh b f s) (upd_bh b f t)" for f using a by (auto simp: same_hd_def upd_bh_def cur_def)
  from same_hd_cache(5) [OF this] show ?thesis using a by (simp add: bc_held_def holds_def same_hd_def)
qed

lemma same_hd_upd [simp]:
  "same_hd s (upd_inode i f s)" "same_hd s (upd_file k g s)" "same_hd s (put_fs_byte v a s)"
  by (simp_all add: same_hd_def upd_inode_def upd_file_def put_fs_byte_def cur_def)

lemmas inode_cache [simp] = same_hd_cache [OF same_hd_upd(1)] same_hd_held [OF same_hd_upd(1)]
lemmas file_cache [simp] = same_hd_cache [OF same_hd_upd(2)] same_hd_held [OF same_hd_upd(2)]
lemmas user_cache [simp] = same_hd_cache [OF same_hd_upd(3)] same_hd_held [OF same_hd_upd(3)]

lemma kept_tables:
  fixes s t :: "'z fs_st_scheme"
  assumes "kept UNIV s t"
  shows "inode_table t = inode_table s" "supers t = supers s" "file_table t = file_table s" "block_there dv n t = block_there dv n s"
    "get_super dev t = get_super dev s" "now32 t = now32 s"
proof -
  note k = kept_sel(8) [OF assms]
  show "inode_table t = inode_table s" "supers t = supers s" "file_table t = file_table s" by (subst k; simp)+
  then show "get_super dev t = get_super dev s" by (simp add: get_super_def)
  show "block_there dv n t = block_there dv n s" using kept_sel(3) [OF assms] by (simp add: block_there_def)
  show "now32 t = now32 s" unfolding now32_def CURRENT_TIME_def by (subst (1 2) k) simp
qed

section \<open>Inodes\<close>

lemma lock_free: "i_lock (inode_table s i) = 0 \<Longrightarrow> lock_inode i s = Ok () (upd_inode i (\<lambda>x. x\<lparr>i_lock := 1\<rparr>) s)"
  unfolding lock_inode_def by (subst wait_while.simps) simp

lemma wait_free: "i_lock (inode_table s i) = 0 \<Longrightarrow> wait_on_inode i s = Ok () s"
  unfolding wait_on_inode_def by (subst wait_while.simps) simp

lemma unlock_nobody: "i_wait (inode_table s i) = 0 \<Longrightarrow> unlock_inode i s = upd_inode i (\<lambda>x. x\<lparr>i_lock := 0\<rparr>) s"
  by (simp add: unlock_inode_def wake_up_def i_wait_q_def upd_inode_def)

text \<open>An unlocked inode of device \<open>dv\<close> whose block lies on the disk; \<open>n\<close> is the number of that block.\<close>

definition inode_there :: "u16 \<Rightarrow> u16 \<Rightarrow> nat \<Rightarrow> 'z fs_st_scheme \<Rightarrow> bool" where
  "inode_there dv n i s \<longleftrightarrow> i_dev (inode_table s i) = dv \<and> i_num (inode_table s i) \<noteq> 0 \<and> i_lock (inode_table s i) = 0 \<and>
     i_wait (inode_table s i) = 0 \<and> get_super (uint dv) s \<noteq> None \<and> inode_block i s = uint n \<and> block_there dv n s"

lemma inode_place:
  "i_dev (inode_table t i) = i_dev (inode_table s i) \<Longrightarrow> i_num (inode_table t i) = i_num (inode_table s i) \<Longrightarrow>
   supers t = supers s \<Longrightarrow> get_super (uint (i_dev (inode_table s i))) s \<noteq> None \<Longrightarrow>
   inode_block i t = inode_block i s \<and> inode_offset i t = inode_offset i s"
  by (auto simp: inode_block_def inode_offset_def get_super_def Let_def split: option.splits)

lemma inode_offset_bound: "inode_offset i s + 32 \<le> 1024"
proof -
  have "nat (uw (uint (i_num (inode_table s i)) - 1) mod INODES_PER_BLOCK) < 32"
    by (simp add: INODES_PER_BLOCK_def nat_less_iff)
  then show ?thesis by (simp add: inode_offset_def)
qed

lemma put_d_inode_cong: "d b = e b \<Longrightarrow> put_d_inode k x d b = put_d_inode k x e b"
proof -
  assume e: "d b = e b"
  have f: "g b = h b \<Longrightarrow> fold (\<lambda>j. put_half (a + 2 * j) (z j)) js g b = fold (\<lambda>j. put_half (a + 2 * j) (z j)) js h b" for a z js g h
  proof (induction js arbitrary: g h)
    case (Cons j js)
    have "put_half (a + 2 * j) (z j) g b = put_half (a + 2 * j) (z j) h b" using Cons.prems by (simp add: put_half_def)
    then show ?case using Cons.IH [of "put_half (a + 2 * j) (z j) g" "put_half (a + 2 * j) (z j) h"] by simp
  qed simp
  show ?thesis unfolding put_d_inode_def by (rule f) (simp add: put_long_def put_half_def e)
qed

lemma put_d_inode_lock [simp]: "put_d_inode k (x\<lparr>i_lock := v\<rparr>) d = put_d_inode k x d"
  unfolding put_d_inode_def m_inode.select_convs m_inode.update_convs by simp

lemma upd_inode_sel [simp]:
  "inode_table (upd_inode i f s) = (inode_table s)(i := f (inode_table s i))" "supers (upd_inode i f s) = supers s"
  "file_table (upd_inode i f s) = file_table s" "get_super dev (upd_inode i f s) = get_super dev s"
  "bh (upd_inode i f s) = bh s" "now32 (upd_inode i f s) = now32 s" "umem (upd_inode i f s) = umem s"
  "current (upd_inode i f s) = current s" "ts (upd_inode i f s) = ts s"
  by (simp_all add: upd_inode_def get_super_def now32_def CURRENT_TIME_def)

text \<open>What a routine of the file system leaves alone when it works on inode \<open>i\<close> only.\<close>

definition only_inode :: "nat \<Rightarrow> 'z fs_st_scheme \<Rightarrow> 'z fs_st_scheme \<Rightarrow> bool" where
  "only_inode i s t \<longleftrightarrow> supers t = supers s \<and> file_table t = file_table s \<and> umem t = umem s \<and> current t = current s \<and>
     ts t = ts s \<and> now32 t = now32 s \<and> nr_sects t = nr_sects s \<and> (\<forall>j. j \<noteq> i \<longrightarrow> inode_table t j = inode_table s j)"

lemma only_inode_refl [simp]: "only_inode i s s"
  by (simp add: only_inode_def)

lemma only_inode_upd [simp]: "only_inode i s (upd_inode i f t) = only_inode i s t"
  by (auto simp: only_inode_def upd_inode_def now32_def CURRENT_TIME_def)

lemma only_inode_kept: "only_inode i s t \<Longrightarrow> kept UNIV t u \<Longrightarrow> only_inode i s u"
  using kept_tables [of t u] kept_sel(3,5,6,7) [of UNIV t u] by (auto simp: only_inode_def)

lemma write_inode_ok:
  assumes r: "bc_ready D dv s" and th: "inode_there dv n i s"
  shows "\<exists>t. write_inode i s = Ok () t \<and> bc_ready D dv t \<and> only_inode i s t \<and>
    inode_table t i = (inode_table s i)\<lparr>i_dirt := 0\<rparr> \<and>
    (\<forall>m. \<forall>k < 1024. block_of D dv t m k =
       (if m = n then put_d_inode (inode_offset i s) (inode_table s i) (block_of D dv s n) k else block_of D dv s m k))"
proof -
  let ?x = "inode_table s i" and ?o = "inode_offset i s"
  define s0 where "s0 = upd_inode i (\<lambda>x. x\<lparr>i_lock := 1\<rparr>) s"
  have x: "i_dev ?x = dv" "i_lock ?x = 0" "i_wait ?x = 0" "inode_block i s = uint n" "block_there dv n s"
    "get_super (uint dv) s \<noteq> None" using th by (auto simp: inode_there_def)
  have s0: "bc_ready D dv s0" "block_there dv n s0" "inode_table s0 i = ?x\<lparr>i_lock := 1\<rparr>" "block_of D dv s0 = block_of D dv s"
    using r x(5) by (simp_all add: s0_def)
  obtain b t where t: "bread (uint dv) (uint n) s0 = Ok (Some b) t" "bc_held D dv n b t" "kept UNIV s0 t"
    "\<forall>m. \<forall>k < 1024. block_of D dv t m k = block_of D dv s0 m k" using cache.fetch_there [OF s0(1,2)] by blast
  note kt = kept_tables [OF t(3)]
  have pl: "inode_block i s0 = inode_block i s" "inode_offset i t = ?o"
    using inode_place [of s0 i s] inode_place [of t i s] x s0(3) kt(1,2) by (simp_all add: s0_def)
  define d where "d = put_d_inode ?o ?x (b_data (bh t b))"
  define u where "u = upd_inode i (\<lambda>x. x\<lparr>i_dirt := 0\<rparr>) (bc_replace b d t)"
  note h = cache.replace_held [OF t(2), of d]
  have hu: "bc_held D dv n b u" using h by (simp add: u_def)
  obtain v where v: "brelse (Some b) u = Ok () v" "bc_ready D dv v" "kept UNIV u v" "block_of D dv v = block_of D dv u"
    using cache.release_ok [OF hu] by blast
  note kv = kept_tables [OF v(3)] and kr = kept_tables [OF conjunct2 [OF h]]
  have vi: "inode_table v i = ?x\<lparr>i_lock := 1, i_dirt := 0\<rparr>" using kv(1) kr(1) kt(1) s0(3) by (simp add: u_def)
  define w where "w = upd_inode i (\<lambda>x. x\<lparr>i_lock := 0\<rparr>) v"
  have "write_inode i s = Ok () (unlock_inode i v)"
    using t(1) v(1) pl x s0(3) kt(1)
    by (simp add: write_inode_def lock_free s0_def [symmetric]) (simp add: u_def bc_replace_def d_def upd_bh_def)
  also have "unlock_inode i v = w" unfolding w_def by (rule unlock_nobody) (simp add: vi x(3))
  finally have res: "write_inode i s = Ok () w" .
  have "only_inode i s s0" by (simp add: s0_def)
  then have "only_inode i s (bc_replace b d t)" using only_inode_kept t(3) h by blast
  then have "only_inode i s w" unfolding w_def using v(3) by (simp add: u_def only_inode_kept [of i s u v])
  moreover have "inode_table w i = ?x\<lparr>i_dirt := 0\<rparr>" using x(2) by (simp add: w_def vi)
  moreover have "block_of D dv w m k = (if m = n then put_d_inode ?o ?x (block_of D dv s n) k else block_of D dv s m k)" if k: "k < 1024" for m k
  proof -
    have "block_of D dv w m k = block_of D dv (bc_replace b d t) m k" by (simp add: w_def v(4) u_def)
    also have "\<dots> = (if m = n then d k else block_of D dv t m k)" by (rule cache.replace_view [OF t(2)])
    also have "d k = put_d_inode ?o ?x (block_of D dv s n) k"
      unfolding d_def by (rule put_d_inode_cong) (use cache.contents_view [OF t(2), of k] t(4) k s0(4) in simp)
    finally show ?thesis using t(4) k s0(4) by simp
  qed
  ultimately show ?thesis using res v(2) by (intro exI [of _ w]) (simp add: w_def)
qed

lemma d_inode_at_cong: "(\<And>b. k \<le> b \<Longrightarrow> b < k + 32 \<Longrightarrow> d b = e b) \<Longrightarrow> d_inode_at d k x = d_inode_at e k x"
proof -
  assume a: "\<And>b. k \<le> b \<Longrightarrow> b < k + 32 \<Longrightarrow> d b = e b"
  have h: "half_at d j = half_at e j" if "k \<le> j" "j + 1 < k + 32" for j using that a by (intro half_at_cong) auto
  have l: "long_at d j = long_at e j" if "k \<le> j" "j + 3 < k + 32" for j using that h by (simp add: long_at_def)
  show ?thesis using a h l by (simp add: d_inode_at_def cong: if_cong)
qed

lemma d_inode_at_lock:
  "d_inode_at d k (x\<lparr>i_lock := v\<rparr>) = (d_inode_at d k x)\<lparr>i_lock := v\<rparr>" "i_wait (d_inode_at d k x) = i_wait x"
  "i_lock x = v \<Longrightarrow> (d_inode_at d k x)\<lparr>i_lock := v\<rparr> = d_inode_at d k x"
  by (auto simp: d_inode_at_def cong: if_cong intro!: m_inode.equality)

lemma read_inode_ok:
  assumes r: "bc_ready D dv s" and th: "inode_there dv n i s"
  shows "\<exists>t. read_inode i s = Ok () t \<and> bc_ready D dv t \<and> only_inode i s t \<and>
    inode_table t i = d_inode_at (block_of D dv s n) (inode_offset i s) (inode_table s i) \<and>
    (\<forall>m. \<forall>k < 1024. block_of D dv t m k = block_of D dv s m k)"
proof -
  let ?x = "inode_table s i" and ?o = "inode_offset i s"
  define s0 where "s0 = upd_inode i (\<lambda>x. x\<lparr>i_lock := 1\<rparr>) s"
  have x: "i_dev ?x = dv" "i_lock ?x = 0" "i_wait ?x = 0" "inode_block i s = uint n" "block_there dv n s"
    "get_super (uint dv) s \<noteq> None" using th by (auto simp: inode_there_def)
  have s0: "bc_ready D dv s0" "block_there dv n s0" "inode_table s0 i = ?x\<lparr>i_lock := 1\<rparr>" "block_of D dv s0 = block_of D dv s"
    using r x(5) by (simp_all add: s0_def)
  obtain b t where t: "bread (uint dv) (uint n) s0 = Ok (Some b) t" "bc_held D dv n b t" "kept UNIV s0 t"
    "\<forall>m. \<forall>k < 1024. block_of D dv t m k = block_of D dv s0 m k" using cache.fetch_there [OF s0(1,2)] by blast
  note kt = kept_tables [OF t(3)]
  have pl: "inode_block i s0 = inode_block i s" "inode_offset i t = ?o"
    using inode_place [of s0 i s] inode_place [of t i s] x s0(3) kt(1,2) by (simp_all add: s0_def)
  define u where "u = upd_inode i (d_inode_at (b_data (bh t b)) ?o) t"
  have hu: "bc_held D dv n b u" using t(2) by (simp add: u_def)
  obtain v where v: "brelse (Some b) u = Ok () v" "bc_ready D dv v" "kept UNIV u v" "block_of D dv v = block_of D dv u"
    using cache.release_ok [OF hu] by blast
  have same: "d_inode_at (b_data (bh t b)) ?o y = d_inode_at (block_of D dv s n) ?o y" for y
    using cache.contents_view [OF t(2)] t(4) s0(4) inode_offset_bound [of i s] by (intro d_inode_at_cong) auto
  have vi: "inode_table v i = (d_inode_at (block_of D dv s n) ?o ?x)\<lparr>i_lock := 1\<rparr>"
    using kept_tables(1) [OF v(3)] kt(1) s0(3) same by (simp add: u_def d_inode_at_lock)
  define w where "w = upd_inode i (\<lambda>x. x\<lparr>i_lock := 0\<rparr>) v"
  have "read_inode i s = Ok () (unlock_inode i v)"
    using t(1) v(1) pl x s0(3) kt(1) by (simp add: read_inode_def lock_free s0_def [symmetric] u_def)
  also have "unlock_inode i v = w" unfolding w_def by (rule unlock_nobody) (simp add: vi d_inode_at_lock x(3))
  finally have res: "read_inode i s = Ok () w" .
  have "only_inode i s s0" by (simp add: s0_def)
  then have "only_inode i s t" using only_inode_kept t(3) by blast
  then have "only_inode i s w" unfolding w_def using v(3) by (simp add: u_def only_inode_kept [of i s u v])
  moreover have "inode_table w i = d_inode_at (block_of D dv s n) ?o ?x" using x(2) by (simp add: w_def vi d_inode_at_lock(3))
  moreover have "block_of D dv w m k = block_of D dv s m k" if "k < 1024" for m k
    using that t(4) s0(4) by (simp add: w_def v(4) u_def)
  ultimately show ?thesis using res v(2) by (intro exI [of _ w]) (simp add: w_def)
qed

text \<open>
  C21: an inode that is written and then read into another slot of the table comes back with the mode, owner, size,
  times, link count and zones it was written with, and no byte of any block outside its 32 bytes has changed.
\<close>

theorem inode_write_read:
  assumes "bc_ready D dv s" "inode_there dv n i s" "inode_there dv n j s" "i \<noteq> j"
    and "i_num (inode_table s j) = i_num (inode_table s i)"
  shows "\<exists>t u. write_inode i s = Ok () t \<and> read_inode j t = Ok () u \<and>
    inode_table u j = disk_fields (inode_table s i) (inode_table s j) \<and>
    (\<forall>m. \<forall>k < 1024. m \<noteq> n \<or> k < inode_offset i s \<or> inode_offset i s + 32 \<le> k \<longrightarrow> block_of D dv u m k = block_of D dv s m k)"
proof -
  let ?o = "inode_offset i s"
  obtain t where t: "write_inode i s = Ok () t" "bc_ready D dv t" "only_inode i s t"
    "\<forall>m. \<forall>k < 1024. block_of D dv t m k =
       (if m = n then put_d_inode ?o (inode_table s i) (block_of D dv s n) k else block_of D dv s m k)"
    using write_inode_ok [OF assms(1,2)] by blast
  have tj: "inode_table t j = inode_table s j" "supers t = supers s" "nr_sects t = nr_sects s" using t(3) assms(4) by (auto simp: only_inode_def)
  have o: "inode_offset j s = ?o" using assms(5) by (simp add: inode_offset_def)
  have pj: "inode_block j t = inode_block j s" "inode_offset j t = ?o"
    using inode_place [of t j s] tj assms(3) o by (auto simp: inode_there_def)
  have "inode_there dv n j t"
    using assms(3) tj pj by (simp add: inode_there_def get_super_def block_there_def)
  from read_inode_ok [OF t(2) this] obtain u where u: "read_inode j t = Ok () u"
    "inode_table u j = d_inode_at (block_of D dv t n) ?o (inode_table s j)"
    "\<forall>m. \<forall>k < 1024. block_of D dv u m k = block_of D dv t m k" using pj(2) tj(1) by auto
  have "d_inode_at (block_of D dv t n) ?o y = d_inode_at (put_d_inode ?o (inode_table s i) (block_of D dv s n)) ?o y" for y
    using t(4) inode_offset_bound [of i s] by (intro d_inode_at_cong) auto
  then have "inode_table u j = disk_fields (inode_table s i) (inode_table s j)" using u(2) d_inode_roundtrip by simp
  moreover have "block_of D dv u m k = block_of D dv s m k" if "k < 1024" "m \<noteq> n \<or> k < ?o \<or> ?o + 32 \<le> k" for m k
    using that u(3) t(4) put_d_inode_outside [of k ?o] by auto
  ultimately show ?thesis using t(1) u(1) by blast
qed

section \<open>The blocks of a file\<close>

text \<open>
  The zone of block \<open>n\<close> of a file: seven direct zones, 512 in the block that zone 7 names and 512 times 512 behind
  zone 8. \<open>V\<close> is the contents of the blocks and \<open>T\<close> tells which blocks exist; a missing entry is 0, a hole.
\<close>

definition zone_entry :: "(u16 \<Rightarrow> bool) \<Rightarrow> (u16 \<Rightarrow> nat \<Rightarrow> u8) \<Rightarrow> u16 \<Rightarrow> nat \<Rightarrow> u16" where
  "zone_entry T V z k = (if z = 0 \<or> \<not> T z then 0 else zone_at (V z) k)"

definition file_zone :: "(u16 \<Rightarrow> bool) \<Rightarrow> (u16 \<Rightarrow> nat \<Rightarrow> u8) \<Rightarrow> m_inode \<Rightarrow> nat \<Rightarrow> u16" where
  "file_zone T V x n =
     (if n < 7 then i_zone x n
      else if n < 519 then zone_entry T V (i_zone x 7) (n - 7)
      else zone_entry T V (zone_entry T V (i_zone x 8) ((n - 519) div 512)) ((n - 519) mod 512))"

lemma zone_entry_cong:
  "k < 512 \<Longrightarrow> (\<And>m j. j < 1024 \<Longrightarrow> V m j = W m j) \<Longrightarrow> (\<And>m. T m = S m) \<Longrightarrow> zone_entry T V z k = zone_entry S W z k"
  by (simp add: zone_entry_def zone_at_def half_at_def)

lemma file_zone_cong:
  "n < 7 + 512 + 512 * 512 \<Longrightarrow> (\<And>m j. j < 1024 \<Longrightarrow> V m j = W m j) \<Longrightarrow> (\<And>m. T m = S m) \<Longrightarrow> file_zone T V x n = file_zone S W x n"
proof -
  assume a: "n < 7 + 512 + 512 * 512" "\<And>m j. j < 1024 \<Longrightarrow> V m j = W m j" "\<And>m. T m = S m"
  have z: "zone_entry T V z k = zone_entry S W z k" if "k < 512" for z k using zone_entry_cong [OF that a(2,3)] .
  have "(n - 519) div 512 < 512" "(n - 519) mod 512 < 512" using a(1) by (auto simp: less_mult_imp_div_less)
  then show ?thesis using z by (simp add: file_zone_def)
qed

text \<open>A routine that only reads through the cache.\<close>

definition reads_only :: "(bool \<Rightarrow> nat \<Rightarrow> nat \<Rightarrow> u8) \<Rightarrow> u16 \<Rightarrow> 'z fs_st_scheme \<Rightarrow> 'z fs_st_scheme \<Rightarrow> bool" where
  "reads_only D dv s t \<longleftrightarrow> bc_ready D dv t \<and> kept UNIV s t \<and> (\<forall>m. \<forall>k < 1024. block_of D dv t m k = block_of D dv s m k)"

lemma reads_only_trans: "reads_only D dv s t \<Longrightarrow> reads_only D dv t u \<Longrightarrow> reads_only D dv s u"
  by (auto simp: reads_only_def intro: kept_trans)

lemma bmap_entry_ok:
  assumes r: "bc_ready D dv s" and i: "i_dev (inode_table s i) = dv" and k: "k < 512"
  shows "\<exists>t. (if blk = 0 then Ok 0 s else bmap_entry i (uint blk) k False s) =
      Ok (uint (zone_entry (\<lambda>z. block_there dv z s) (block_of D dv s) blk k)) t \<and> reads_only D dv s t"
proof (cases "blk = 0 \<or> \<not> block_there dv blk s")
  case True
  show ?thesis
  proof (cases "blk = 0")
    case False
    obtain t where "bread (uint dv) (uint blk) s = Ok None t" "bc_ready D dv t" "kept UNIV s t"
      "\<forall>m. \<forall>k < 1024. block_of D dv t m k = block_of D dv s m k"
      using cache.fetch_beyond [OF r, of blk] True False by blast
    then show ?thesis using True False i by (intro exI [of _ t]) (auto simp: bmap_entry_def zone_entry_def reads_only_def)
  qed (use r in \<open>auto simp: zone_entry_def reads_only_def\<close>)
next
  case False
  obtain b t u where t: "bread (uint dv) (uint blk) s = Ok (Some b) t" "brelse (Some b) t = Ok () u" "bc_ready D dv u"
    "kept UNIV s u" "\<forall>k < 1024. b_data (bh t b) k = block_of D dv s blk k"
    "\<forall>m. \<forall>k < 1024. block_of D dv u m k = block_of D dv s m k"
    using cache.look [OF r, of blk] False by blast
  have "zone_at (b_data (bh t b)) k = zone_at (block_of D dv s blk) k" using t(5) k by (simp add: zone_at_def half_at_def)
  then show ?thesis using t False i by (intro exI [of _ u]) (simp add: bmap_entry_def zone_entry_def reads_only_def)
qed

lemma bmap_ok:
  assumes r: "bc_ready D dv s" and i: "i_dev (inode_table s i) = dv" and n: "n < 7 + 512 + 512 * 512"
  shows "\<exists>t. bmap i (int n) s = Ok (uint (file_zone (\<lambda>z. block_there dv z s) (block_of D dv s) (inode_table s i) n)) t \<and>
    reads_only D dv s t"
proof -
  let ?x = "inode_table s i" and ?T = "\<lambda>z. block_there dv z s" and ?V = "block_of D dv s"
  have zone: "bmap_zone i k False s = Ok () s" for k by (simp add: bmap_zone_def)
  consider "n < 7" | "7 \<le> n" "n < 519" | "519 \<le> n" by linarith
  then show ?thesis
  proof cases
    case 1
    then show ?thesis using r by (intro exI [of _ s]) (simp add: bmap_def do_bmap_def zone file_zone_def reads_only_def)
  next
    case 2
    have e: "bmap i (int n) s = (if i_zone ?x 7 = 0 then Ok 0 s else bmap_entry i (uint (i_zone ?x 7)) (n - 7) False s)"
      using 2 by (simp add: bmap_def do_bmap_def zone nat_diff_distrib)
    show ?thesis using bmap_entry_ok [OF r i, of "n - 7" "i_zone ?x 7"] 2 unfolding e file_zone_def by simp
  next
    case 3
    let ?a = "(n - 519) div 512" and ?b = "(n - 519) mod 512"
    have ab: "?a < 512" "?b < 512" using n by (simp_all add: less_mult_imp_div_less)
    have na: "nat ((int n - 519) div 512) = ?a" "nat ((int n - 519) mod 512) = ?b"
      using 3 by (simp_all add: nat_div_distrib nat_mod_distrib nat_diff_distrib)
    obtain t where t: "(if i_zone ?x 8 = 0 then Ok 0 s else bmap_entry i (uint (i_zone ?x 8)) ?a False s) =
        Ok (uint (zone_entry ?T ?V (i_zone ?x 8) ?a)) t" "reads_only D dv s t"
      using bmap_entry_ok [OF r i ab(1), of "i_zone ?x 8"] by blast
    let ?z = "zone_entry ?T ?V (i_zone ?x 8) ?a"
    have kt: "kept UNIV s t" "bc_ready D dv t" "\<And>m j. j < 1024 \<Longrightarrow> block_of D dv t m j = ?V m j" using t(2) by (auto simp: reads_only_def)
    have it: "i_dev (inode_table t i) = dv" using kept_tables(1) [OF kt(1)] i by simp
    obtain u where u: "(if ?z = 0 then Ok 0 t else bmap_entry i (uint ?z) ?b False t) =
        Ok (uint (zone_entry (\<lambda>z. block_there dv z t) (block_of D dv t) ?z ?b)) u" "reads_only D dv t u"
      using bmap_entry_ok [OF kt(2) it ab(2), of ?z] by blast
    have ze: "zone_entry (\<lambda>z. block_there dv z t) (block_of D dv t) ?z ?b = zone_entry ?T ?V ?z ?b"
      using kt(3) kept_tables(4) [OF kt(1)] by (intro zone_entry_cong [OF ab(2)]) auto
    have "bmap i (int n) s = Ok (uint (zone_entry ?T ?V ?z ?b)) u"
    proof (cases "i_zone ?x 8 = 0")
      case True
      then have z0: "?z = 0" "t = s" using t(1) by (simp_all add: zone_entry_def)
      then have "u = s" using u(1) by simp
      then show ?thesis using 3 n True z0(1) by (simp add: bmap_def do_bmap_def zone zone_entry_def)
    next
      case False
      then show ?thesis
        using 3 n t(1) u(1) ze by (simp add: bmap_def do_bmap_def zone na unsigned_eq_0_iff split: if_splits)
    qed
    then show ?thesis using 3 reads_only_trans [OF t(2) u(2)] by (intro exI [of _ u]) (simp add: file_zone_def)
  qed
qed

section \<open>Two slots for one inode\<close>

definition inode_demo :: fs_st where
  "inode_demo = upd_inode 5 (\<lambda>x. x\<lparr>i_dev := 0x301, i_num := 2\<rparr>)
     (upd_inode 4 (\<lambda>x. x\<lparr>i_dev := 0x301, i_num := 2, i_count := 1, i_mode := 0x81a4, i_nlinks := 1, i_size := 77\<rparr>) fs_demo)"

lemma inode_demo_there: "bc_ready demo_disk 0x301 inode_demo" "i = 4 \<or> i = 5 \<Longrightarrow> inode_there 0x301 4 i inode_demo"
proof -
  show "bc_ready demo_disk 0x301 inode_demo" using fs_demo_ready by (simp add: inode_demo_def)
  have b: "block_there 0x301 4 inode_demo" by (simp add: inode_demo_def) (simp add: block_there_def MINOR_def fs_demo_tables)
  show "i = 4 \<or> i = 5 \<Longrightarrow> inode_there 0x301 4 i inode_demo"
    using b by (auto simp: inode_there_def inode_block_def inode_demo_def fs_demo_tables zero_inode_def zero_super_def Let_def uw_def
        INODES_PER_BLOCK_def s32_id)
qed

theorem inode_write_read_witness:
  "bc_ready demo_disk 0x301 inode_demo \<and> inode_there 0x301 4 4 inode_demo \<and>
   (\<exists>t u. write_inode 4 inode_demo = Ok () t \<and> read_inode 5 t = Ok () u \<and> i_size (inode_table u 5) = 77)"
proof -
  have "i_num (inode_table inode_demo 5) = i_num (inode_table inode_demo 4)" "i_size (inode_table inode_demo 4) = 77"
    by (simp_all add: inode_demo_def)
  then show ?thesis
    using inode_write_read [OF inode_demo_there(1) inode_demo_there(2) [of 4] inode_demo_there(2) [of 5]] inode_demo_there
    by (auto simp: disk_fields_def)
qed

end
