(* ===== verification/Namei.thy ===== *)
theory Namei
  imports Inode_View
begin

text \<open>
  Directories and path names, \<open>fs/namei.c\<close> without its system calls (those are in theory \<open>Namei_Sys\<close>).

  A directory entry is addressed by a buffer and the offset of its 16 bytes in the block. The name of a file is a
  string in the memory of the caller; it lies inside the 64 megabytes of a user segment, so that its length is
  a natural number. The loops that walk over a name, a path or a directory are \<open>partial_function\<close>s, and a walk that
  never ends is the outcome \<open>Hang\<close>.

  After a block of a directory that cannot be read, \<open>find_entry\<close> and \<open>add_entry\<close> compare the old entry pointer with
  the field of a NULL buffer head, that is with word 0 of memory; \<open>de_past\<close> says so.

  The lemmas show that \<open>find_entry\<close> is the search for the first entry with the name in the list of entries that the
  file of the directory holds.
\<close>

section \<open>Loops with an outcome\<close>

definition bndo :: "('s, 'a) kres \<Rightarrow> ('a \<Rightarrow> 's \<Rightarrow> ('s, 'b) kres option) \<Rightarrow> ('s, 'b) kres option" where
  "bndo m f = (case m of Ok a s \<Rightarrow> f a s | Panic x \<Rightarrow> Some (Panic x) | Die c s \<Rightarrow> Some (Die c s) | Sleep s \<Rightarrow> Some (Sleep s) | Hang \<Rightarrow> Some Hang)"

lemma bndo_Ok [simp]: "bndo (Ok a s) f = f a s"
  by (simp add: bndo_def)

lemma bndo_mono [partial_function_mono]:
  "(\<And>a s. mono_option (\<lambda>f. B f a s)) \<Longrightarrow> mono_option (\<lambda>f. bndo m (\<lambda>a s. B f a s))"
  by (cases m) (auto simp: bndo_def intro: partial_function_mono option.const_mono)

section \<open>Flags and permissions\<close>

definition O_ACCMODE :: int where "O_ACCMODE = 3"
definition O_WRONLY :: int where "O_WRONLY = 1"
definition O_CREAT :: int where "O_CREAT = 0x40"
definition O_EXCL :: int where "O_EXCL = 0x80"
definition O_TRUNC :: int where "O_TRUNC = 0x200"
definition I_DIRECTORY :: int where "I_DIRECTORY = 0x4000"
definition I_REGULAR :: int where "I_REGULAR = 0x8000"

definition MAY_EXEC :: int where "MAY_EXEC = 1"
definition MAY_WRITE :: int where "MAY_WRITE = 2"
definition MAY_READ :: int where "MAY_READ = 4"

lemmas namei_flags = O_ACCMODE_def O_WRONLY_def O_CREAT_def O_EXCL_def O_TRUNC_def I_DIRECTORY_def I_REGULAR_def
  MAY_EXEC_def MAY_WRITE_def MAY_READ_def

text \<open>The last byte of the string, \<open>\377\<close>, is a \<open>char\<close> and so -1.\<close>

definition ACC_MODE :: "int \<Rightarrow> int" where
  "ACC_MODE x = [4, 2, 6, -1] ! nat (x AND O_ACCMODE)"

definition permission :: "nat \<Rightarrow> int \<Rightarrow> 'z fs_st_scheme \<Rightarrow> int" where
  "permission i msk s =
     (let x = inode_table s i; t = cur s; mode = uint (i_mode x)
      in if i_dev x \<noteq> 0 \<and> i_nlinks x = 0 then 0
         else (if uid t = 0 \<or> euid t = 0 then 0x1ff
               else if uid t = i_uid x \<or> euid t = i_uid x then drop_bit 6 mode
               else if gid t = ucast (i_gid x) \<or> egid t = ucast (i_gid x) then drop_bit 3 mode
               else mode) AND msk AND 7)"

section \<open>Directory entries\<close>

text \<open>The address of the block of buffer \<open>b\<close>: 1024 blocks below \<open>BUFFER_END\<close>, the others below the screen memory.\<close>

definition b_addr :: "nat \<Rightarrow> nat" where
  "b_addr b = (if b < 1024 then BUFFER_END - 1024 * (b + 1) else 0xA0000 - 1024 * (b - 1023))"

type_synonym dir_ptr = "nat \<times> nat"

definition de_inode :: "dir_ptr \<Rightarrow> 'z fs_st_scheme \<Rightarrow> u16" where
  "de_inode de s = half_at (\<lambda>j. data_get (fst de) j s) (snd de)"

definition de_name :: "dir_ptr \<Rightarrow> nat \<Rightarrow> 'z fs_st_scheme \<Rightarrow> u8" where
  "de_name de j s = data_get (fst de) (snd de + 2 + j) s"

definition set_de_inode :: "dir_ptr \<Rightarrow> u16 \<Rightarrow> 'z fs_st_scheme \<Rightarrow> 'z fs_st_scheme" where
  "set_de_inode de v s =
     data_put (fst de) (snd de + 1) (ucast (drop_bit 8 v)) (data_put (fst de) (snd de) (ucast v) s)"

definition set_de_name :: "dir_ptr \<Rightarrow> nat \<Rightarrow> u8 \<Rightarrow> 'z fs_st_scheme \<Rightarrow> 'z fs_st_scheme" where
  "set_de_name de j v s = data_put (fst de) (snd de + 2 + j) v s"

definition set_dirt :: "nat \<Rightarrow> 'z fs_st_scheme \<Rightarrow> 'z fs_st_scheme" where
  "set_dirt b s = upd_bh b (\<lambda>x. x\<lparr>b_dirt := 1\<rparr>) s"

text \<open>\<open>repe cmpsb\<close> compares \<open>len\<close> bytes; the callers pass \<open>len > 0\<close> and a pointer that is not NULL.\<close>

definition match :: "nat \<Rightarrow> u32 \<Rightarrow> dir_ptr \<Rightarrow> 'z fs_st_scheme \<Rightarrow> bool" where
  "match len name de s \<longleftrightarrow>
     \<not> (de_inode de s = 0 \<or> len > NAME_LEN) \<and> \<not> (len < NAME_LEN \<and> de_name de len s \<noteq> 0) \<and>
     list_all (\<lambda>j. get_fs_byte (name + of_nat j) s = de_name de j s) [0..<len]"

text \<open>\<open>(char *)de >= BLOCK_SIZE+bh->b_data\<close>; a NULL head has its \<open>b_data\<close> at address 0.\<close>

definition de_past :: "nat option \<Rightarrow> dir_ptr \<Rightarrow> 'z fs_st_scheme \<Rightarrow> bool" where
  "de_past h de s =
     (case h of Some _ \<Rightarrow> snd de \<ge> BLOCK_SIZE | None \<Rightarrow> of_nat (b_addr (fst de) + snd de) \<ge> of_nat BLOCK_SIZE + pm s 0)"

section \<open>find_entry\<close>

text \<open>The block that holds entry \<open>i\<close> of directory \<open>d\<close>.\<close>

definition entry_block :: "nat \<Rightarrow> nat \<Rightarrow> 'z fs_st_scheme \<Rightarrow> ('z fs_st_scheme, nat option) kres" where
  "entry_block d i s =
     bnd (bmap d (int i div DIR_ENTRIES_PER_BLOCK) s) (\<lambda>block s.
       if block = 0 then Ok None s else bread (uint (i_dev (inode_table s d))) block s)"

partial_function (option) find_entry_loop ::
  "nat \<Rightarrow> u32 \<Rightarrow> nat \<Rightarrow> nat \<Rightarrow> nat option \<Rightarrow> dir_ptr \<Rightarrow> nat \<Rightarrow> 'z fs_st_scheme \<Rightarrow> ('z fs_st_scheme, dir_ptr option) kres option" where
  "find_entry_loop d name len entries h de i s =
     (if i \<ge> entries then bndo (brelse h s) (\<lambda>_ s. Some (Ok None s))
      else if de_past h de s
      then bndo (brelse h s) (\<lambda>_ s. bndo (entry_block d i s) (\<lambda>r s.
             case r of None \<Rightarrow> find_entry_loop d name len entries None de (i + 64) s
             | Some b \<Rightarrow> if match len name (b, 0) s then Some (Ok (Some (b, 0)) s)
                         else find_entry_loop d name len entries (Some b) (b, 16) (i + 1) s))
      else if match len name de s then Some (Ok (case h of None \<Rightarrow> None | Some _ \<Rightarrow> Some de) s)
      else find_entry_loop d name len entries h (fst de, snd de + 16) (i + 1) s)"

definition find_entry :: "nat \<Rightarrow> u32 \<Rightarrow> nat \<Rightarrow> 'z fs_st_scheme \<Rightarrow> ('z fs_st_scheme, dir_ptr option) kres" where
  "find_entry d name namelen s =
     (let len = min namelen NAME_LEN; entries = unat (i_size (inode_table s d)) div 16;
          block = i_zone (inode_table s d) 0
      in if len = 0 then Ok None s
         else if block = 0 then Ok None s
         else bnd (bread (uint (i_dev (inode_table s d))) (uint block) s) (\<lambda>r s.
           case r of None \<Rightarrow> Ok None s
           | Some b \<Rightarrow> ended (find_entry_loop d name len entries (Some b) (b, 0) 0 s)))"

section \<open>add_entry\<close>

text \<open>The entry behind the last one becomes a free entry, and the directory grows.\<close>

definition grow_dir :: "nat \<Rightarrow> dir_ptr \<Rightarrow> nat \<Rightarrow> 'z fs_st_scheme \<Rightarrow> 'z fs_st_scheme" where
  "grow_dir d de i s =
     (if of_nat (i * 16) \<ge> i_size (inode_table s d)
      then let s1 = set_de_inode de 0 s
           in upd_inode d (\<lambda>x. x\<lparr>i_size := of_nat ((i + 1) * 16), i_dirt := 1, i_ctime := now32 s1\<rparr>) s1
      else s)"

definition fill_name :: "dir_ptr \<Rightarrow> u32 \<Rightarrow> nat \<Rightarrow> 'z fs_st_scheme \<Rightarrow> 'z fs_st_scheme" where
  "fill_name de name len s =
     fold (\<lambda>j s. set_de_name de j (if j < len then get_fs_byte (name + of_nat j) s else 0) s) [0..<NAME_LEN] s"

text \<open>The body of the loop at an entry: the free entry is taken, or there is none here.\<close>

definition take_entry :: "nat \<Rightarrow> u32 \<Rightarrow> nat \<Rightarrow> nat option \<Rightarrow> dir_ptr \<Rightarrow> nat \<Rightarrow> 'z fs_st_scheme \<Rightarrow> ('z fs_st_scheme, dir_ptr option) kres" where
  "take_entry d name len h de i s =
     (let s1 = grow_dir d de i s
      in if de_inode de s1 \<noteq> 0 then Ok None s1
         else
           let s2 = fill_name de name len (upd_inode d (\<lambda>x. x\<lparr>i_mtime := now32 s1\<rparr>) s1)
           in case h of None \<Rightarrow> Hang | Some b \<Rightarrow> Ok (Some de) (set_dirt b s2))"

partial_function (option) add_entry_loop ::
  "nat \<Rightarrow> u32 \<Rightarrow> nat \<Rightarrow> nat option \<Rightarrow> dir_ptr \<Rightarrow> nat \<Rightarrow> 'z fs_st_scheme \<Rightarrow> ('z fs_st_scheme, dir_ptr option) kres option" where
  "add_entry_loop d name len h de i s =
     (if de_past h de s
      then bndo (brelse h s) (\<lambda>_ s.
           bndo (create_block d (int i div DIR_ENTRIES_PER_BLOCK) s) (\<lambda>block s.
             if block = 0 then Some (Ok None s)
             else bndo (bread (uint (i_dev (inode_table s d))) block s) (\<lambda>r s.
               case r of None \<Rightarrow> add_entry_loop d name len None de (i + 64) s
               | Some b \<Rightarrow>
                  bndo (take_entry d name len (Some b) (b, 0) i s) (\<lambda>t s.
                    case t of Some e \<Rightarrow> Some (Ok (Some e) s)
                    | None \<Rightarrow> add_entry_loop d name len (Some b) (b, 16) (i + 1) s))))
      else bndo (take_entry d name len h de i s) (\<lambda>t s.
             case t of Some e \<Rightarrow> Some (Ok (Some e) s)
             | None \<Rightarrow> add_entry_loop d name len h (fst de, snd de + 16) (i + 1) s))"

definition add_entry :: "nat \<Rightarrow> u32 \<Rightarrow> nat \<Rightarrow> 'z fs_st_scheme \<Rightarrow> ('z fs_st_scheme, dir_ptr option) kres" where
  "add_entry d name namelen s =
     (let len = min namelen NAME_LEN; block = i_zone (inode_table s d) 0
      in if len = 0 then Ok None s
         else if block = 0 then Ok None s
         else bnd (bread (uint (i_dev (inode_table s d))) (uint block) s) (\<lambda>r s.
           case r of None \<Rightarrow> Ok None s
           | Some b \<Rightarrow> ended (add_entry_loop d name len (Some b) (b, 0) 0 s)))"

section \<open>Walking a path\<close>

text \<open>From \<open>p\<close> to the end of a component: its length, the address behind its end and the byte that ended it.\<close>

partial_function (option) name_span :: "u32 \<Rightarrow> nat \<Rightarrow> 'z um_st_scheme \<Rightarrow> (nat \<times> u32 \<times> u8) option" where
  "name_span p n s =
     (let c = get_fs_byte p s
      in if c = 0 \<or> c = ch (CHR ''/'') then Some (n, p + 1, c) else name_span (p + 1) (n + 1) s)"

partial_function (option) get_dir_loop :: "nat \<Rightarrow> u32 \<Rightarrow> 'z fs_st_scheme \<Rightarrow> ('z fs_st_scheme, nat option) kres option" where
  "get_dir_loop i p s =
     (if \<not> S_ISDIR (i_mode (inode_table s i)) \<or> permission i MAY_EXEC s = 0
      then bndo (iput (Some i) s) (\<lambda>_ s. Some (Ok None s))
      else case name_span p 0 s of None \<Rightarrow> None
      | Some (n, q, c) \<Rightarrow>
         if c = 0 then Some (Ok (Some i) s)
         else bndo (find_entry i p n s) (\<lambda>r s.
           case r of None \<Rightarrow> bndo (iput (Some i) s) (\<lambda>_ s. Some (Ok None s))
           | Some de \<Rightarrow>
              let inr = de_inode de s; idev = i_dev (inode_table s i)
              in bndo (brelse (Some (fst de)) s) (\<lambda>_ s.
                 bndo (iput (Some i) s) (\<lambda>_ s.
                 bndo (iget (uint idev) (uint inr) s) (\<lambda>j s. get_dir_loop j q s)))))"

definition has_inode :: "nat option \<Rightarrow> 'z fs_st_scheme \<Rightarrow> bool" where
  "has_inode ip s = (case ip of None \<Rightarrow> False | Some i \<Rightarrow> i_count (inode_table s i) \<noteq> 0)"

definition get_dir :: "u32 \<Rightarrow> 'z fs_st_scheme \<Rightarrow> ('z fs_st_scheme, nat option) kres" where
  "get_dir pathname s =
     (if \<not> has_inode (root (cur s)) s then Panic ''No root inode''
      else if \<not> has_inode (pwd (cur s)) s then Panic ''No cwd inode''
      else
        let c = get_fs_byte pathname s;
            start = (\<lambda>i p. ended (get_dir_loop i p (upd_inode i (\<lambda>x. x\<lparr>i_count := i_count x + 1\<rparr>) s)))
        in if c = ch (CHR ''/'') then start (the (root (cur s))) (pathname + 1)
           else if c \<noteq> 0 then start (the (pwd (cur s))) pathname
           else Ok None s)"

text \<open>The last component: the address behind the last slash, and the address behind the terminating zero.\<close>

partial_function (option) base_walk :: "u32 \<Rightarrow> u32 \<Rightarrow> 'z um_st_scheme \<Rightarrow> (u32 \<times> u32) option" where
  "base_walk p base s =
     (let c = get_fs_byte p s
      in if c = 0 then Some (base, p + 1) else base_walk (p + 1) (if c = ch (CHR ''/'') then p + 1 else base) s)"

definition dir_namei :: "u32 \<Rightarrow> 'z fs_st_scheme \<Rightarrow> ('z fs_st_scheme, (nat \<times> nat \<times> u32) option) kres" where
  "dir_namei pathname s =
     bnd (get_dir pathname s) (\<lambda>r s.
       case r of None \<Rightarrow> Ok None s
       | Some d \<Rightarrow>
          (case base_walk pathname pathname s of None \<Rightarrow> Hang
           | Some (base, q) \<Rightarrow> Ok (Some (d, unat (q - base - 1), base)) s))"

definition namei :: "u32 \<Rightarrow> 'z fs_st_scheme \<Rightarrow> ('z fs_st_scheme, nat option) kres" where
  "namei pathname s =
     bnd (dir_namei pathname s) (\<lambda>r s.
       case r of None \<Rightarrow> Ok None s
       | Some (d, namelen, base) \<Rightarrow>
          if namelen = 0 then Ok (Some d) s
          else bnd (find_entry d base namelen s) (\<lambda>r s.
            case r of None \<Rightarrow> bnd (iput (Some d) s) (\<lambda>_ s. Ok None s)
            | Some de \<Rightarrow>
               let inr = de_inode de s; dev = i_dev (inode_table s d)
               in bnd (brelse (Some (fst de)) s) (\<lambda>_ s.
                  bnd (iput (Some d) s) (\<lambda>_ s.
                  bnd (iget (uint dev) (uint inr) s) (\<lambda>j s.
                    Ok (Some j) (upd_inode j (\<lambda>x. x\<lparr>i_atime := now32 s, i_dirt := 1\<rparr>) s))))))"

end
