(* ===== verification/Namei_Sys.thy ===== *)
theory Namei_Sys
  imports Namei
begin

text \<open>
  The system calls of \<open>fs/namei.c\<close>: opening a path, making and removing directories, linking and unlinking.

  The result of \<open>open_namei\<close> is the inode (\<open>Inr\<close>) or the negative error number (\<open>Inl\<close>). \<open>empty_dir\<close> releases a buffer
  again after a hole of the directory, and keeps the buffer of a bad directory, as the code does.
\<close>

definition user_only :: "'z fs_st_scheme \<Rightarrow> bool" where
  "user_only s \<longleftrightarrow> euid (cur s) \<noteq> 0 \<and> uid (cur s) \<noteq> 0"

text \<open>\<open>iput\<close> of some inodes, then the return value.\<close>

fun iput_all :: "nat list \<Rightarrow> 'a \<Rightarrow> 'z fs_st_scheme \<Rightarrow> ('z fs_st_scheme, 'a) kres" where
  "iput_all [] v s = Ok v s"
| "iput_all (i # is) v s = bnd (iput (Some i) s) (\<lambda>_ s. iput_all is v s)"

section \<open>open_namei\<close>

definition open_new :: "nat \<Rightarrow> nat \<Rightarrow> u32 \<Rightarrow> int \<Rightarrow> int \<Rightarrow> 'z fs_st_scheme \<Rightarrow> ('z fs_st_scheme, int + nat) kres" where
  "open_new d namelen base flag mode s =
     (if flag AND O_CREAT = 0 then iput_all [d] (Inl (- ENOENT)) s
      else if permission d MAY_WRITE s = 0 then iput_all [d] (Inl (- EACCES)) s
      else bnd (new_inode (uint (i_dev (inode_table s d))) s) (\<lambda>r s.
        case r of None \<Rightarrow> iput_all [d] (Inl (- ENOSPC)) s
        | Some i \<Rightarrow>
           bnd (add_entry d base namelen (upd_inode i (\<lambda>x. x\<lparr>i_mode := word_of_int mode, i_dirt := 1\<rparr>) s)) (\<lambda>r s.
             case r of None \<Rightarrow> iput_all [i, d] (Inl (- ENOSPC)) (upd_inode i (\<lambda>x. x\<lparr>i_nlinks := i_nlinks x - 1\<rparr>) s)
             | Some de \<Rightarrow>
                bnd (brelse (Some (fst de)) (set_dirt (fst de) (set_de_inode de (i_num (inode_table s i)) s))) (\<lambda>_ s.
                  iput_all [d] (Inr i) s))))"

definition open_old :: "nat \<Rightarrow> dir_ptr \<Rightarrow> int \<Rightarrow> 'z fs_st_scheme \<Rightarrow> ('z fs_st_scheme, int + nat) kres" where
  "open_old d de flag s =
     (let inr = de_inode de s; dev = i_dev (inode_table s d)
      in bnd (brelse (Some (fst de)) s) (\<lambda>_ s.
         bnd (iput (Some d) s) (\<lambda>_ s.
           if flag AND O_EXCL \<noteq> 0 then Ok (Inl (- EEXIST)) s
           else bnd (iget (uint dev) (uint inr) s) (\<lambda>i s.
             if (S_ISDIR (i_mode (inode_table s i)) \<and> flag AND O_ACCMODE \<noteq> 0) \<or>
                permission i (ACC_MODE flag) s \<noteq> ACC_MODE flag
             then iput_all [i] (Inl (- EPERM)) s
             else
               let s1 = upd_inode i (\<lambda>x. x\<lparr>i_atime := now32 s\<rparr>) s
               in if flag AND O_TRUNC \<noteq> 0 then bnd (truncate i s1) (\<lambda>_ s. Ok (Inr i) s) else Ok (Inr i) s1))))"

definition open_namei :: "u32 \<Rightarrow> int \<Rightarrow> int \<Rightarrow> 'z fs_st_scheme \<Rightarrow> ('z fs_st_scheme, int + nat) kres" where
  "open_namei pathname flag0 mode0 s =
     (let flag = (if flag0 AND O_TRUNC \<noteq> 0 \<and> flag0 AND O_ACCMODE = 0 then flag0 OR O_WRONLY else flag0);
          mode = (mode0 AND (0x1ff AND NOT (uint (umask (cur s))))) OR I_REGULAR
      in bnd (dir_namei pathname s) (\<lambda>r s.
        case r of None \<Rightarrow> Ok (Inl (- ENOENT)) s
        | Some (d, namelen, base) \<Rightarrow>
           if namelen = 0
           then if flag AND (O_ACCMODE OR O_CREAT OR O_TRUNC) = 0 then Ok (Inr d) s else iput_all [d] (Inl (- EISDIR)) s
           else bnd (find_entry d base namelen s) (\<lambda>r s.
             case r of None \<Rightarrow> open_new d namelen base flag mode s
             | Some de \<Rightarrow> open_old d de flag s)))"

section \<open>sys_mkdir\<close>

text \<open>The two entries of a new directory; \<open>strcpy\<close> stores the terminating zero.\<close>

definition dot_entries :: "nat \<Rightarrow> u16 \<Rightarrow> u16 \<Rightarrow> 'z fs_st_scheme \<Rightarrow> 'z fs_st_scheme" where
  "dot_entries b self up s =
     (let dot = ch (CHR ''.'');
          s1 = set_de_name (b, 0) 1 0 (set_de_name (b, 0) 0 dot (set_de_inode (b, 0) self s))
      in set_de_name (b, 16) 2 0 (set_de_name (b, 16) 1 dot (set_de_name (b, 16) 0 dot (set_de_inode (b, 16) up s1))))"

text \<open>The entry of the parent for the new directory \<open>i\<close>.\<close>

definition mkdir_link :: "nat \<Rightarrow> nat \<Rightarrow> u32 \<Rightarrow> nat \<Rightarrow> 'z fs_st_scheme \<Rightarrow> ('z fs_st_scheme, int) kres" where
  "mkdir_link d namelen base i s =
     bnd (add_entry d base namelen s) (\<lambda>r s.
       case r of
         None \<Rightarrow>
           bnd (iput (Some d) s) (\<lambda>_ s.
           bnd (free_block (uint (i_dev (inode_table s i))) (uint (i_zone (inode_table s i) 0)) s) (\<lambda>_ s.
             iput_all [i] (- ENOSPC) (upd_inode i (\<lambda>x. x\<lparr>i_nlinks := 0\<rparr>) s)))
       | Some de \<Rightarrow>
           let s1 = set_dirt (fst de) (set_de_inode de (i_num (inode_table s i)) s);
               s2 = upd_inode d (\<lambda>x. x\<lparr>i_nlinks := i_nlinks x + 1, i_dirt := 1\<rparr>) s1
           in bnd (iput_all [d, i] () s2) (\<lambda>_ s. bnd (brelse (Some (fst de)) s) (\<lambda>_ s. Ok 0 s)))"

definition mkdir_new :: "nat \<Rightarrow> nat \<Rightarrow> u32 \<Rightarrow> int \<Rightarrow> nat \<Rightarrow> 'z fs_st_scheme \<Rightarrow> ('z fs_st_scheme, int) kres" where
  "mkdir_new d namelen base mode i s =
     bnd (new_block (uint (i_dev (inode_table s i)))
           (upd_inode i (\<lambda>x. x\<lparr>i_size := 32, i_dirt := 1, i_mtime := now32 s, i_atime := now32 s\<rparr>) s)) (\<lambda>z s.
       let s1 = upd_inode i (\<lambda>x. x\<lparr>i_zone := (i_zone x)(0 := word_of_int z)\<rparr>) s
       in if i_zone (inode_table s1 i) 0 = 0
          then bnd (iput (Some d) s1) (\<lambda>_ s. iput_all [i] (- ENOSPC) (upd_inode i (\<lambda>x. x\<lparr>i_nlinks := i_nlinks x - 1\<rparr>) s))
          else
            let s2 = upd_inode i (\<lambda>x. x\<lparr>i_dirt := 1\<rparr>) s1
            in bnd (bread (uint (i_dev (inode_table s2 i))) (uint (i_zone (inode_table s2 i) 0)) s2) (\<lambda>r s.
              case r of
                None \<Rightarrow>
                  bnd (iput (Some d) s) (\<lambda>_ s.
                  bnd (free_block (uint (i_dev (inode_table s i))) (uint (i_zone (inode_table s i) 0)) s) (\<lambda>_ s.
                    iput_all [i] (- ERROR) (upd_inode i (\<lambda>x. x\<lparr>i_nlinks := i_nlinks x - 1\<rparr>) s)))
              | Some b \<Rightarrow>
                  let s3 = dot_entries b (i_num (inode_table s i)) (i_num (inode_table s d)) s;
                      s4 = set_dirt b (upd_inode i (\<lambda>x. x\<lparr>i_nlinks := 2\<rparr>) s3)
                  in bnd (brelse (Some b) s4) (\<lambda>_ s.
                       mkdir_link d namelen base i
                         (upd_inode i (\<lambda>x. x\<lparr>i_mode := word_of_int (I_DIRECTORY OR (mode AND 0x1ff AND NOT (uint (umask (cur s))))),
                                             i_dirt := 1\<rparr>) s))))"

definition sys_mkdir :: "u32 \<Rightarrow> int \<Rightarrow> 'z fs_st_scheme \<Rightarrow> ('z fs_st_scheme, int) kres" where
  "sys_mkdir pathname mode s =
     (if user_only s then Ok (- EPERM) s
      else bnd (dir_namei pathname s) (\<lambda>r s.
        case r of None \<Rightarrow> Ok (- ENOENT) s
        | Some (d, namelen, base) \<Rightarrow>
           if namelen = 0 then iput_all [d] (- ENOENT) s
           else if permission d MAY_WRITE s = 0 then iput_all [d] (- EPERM) s
           else bnd (find_entry d base namelen s) (\<lambda>r s.
             case r of
               Some de \<Rightarrow> bnd (brelse (Some (fst de)) s) (\<lambda>_ s. iput_all [d] (- EEXIST) s)
             | None \<Rightarrow>
                 bnd (new_inode (uint (i_dev (inode_table s d))) s) (\<lambda>r s.
                   case r of None \<Rightarrow> iput_all [d] (- ENOSPC) s
                   | Some i \<Rightarrow> mkdir_new d namelen base mode i s))))"

section \<open>sys_rmdir\<close>

definition warn_dir :: "nat \<Rightarrow> 'z fs_st_scheme \<Rightarrow> 'z fs_st_scheme" where
  "warn_dir i s = printk ''warning - bad directory on dev %04x'' [uint (i_dev (inode_table s i))] s"

definition dots_ok :: "nat \<Rightarrow> nat \<Rightarrow> 'z fs_st_scheme \<Rightarrow> bool" where
  "dots_ok i b s \<longleftrightarrow>
     \<not> (de_inode (b, 0) s \<noteq> i_num (inode_table s i) \<or> de_inode (b, 16) s = 0 \<or>
        \<not> (de_name (b, 0) 0 s = ch (CHR ''.'') \<and> de_name (b, 0) 1 s = 0) \<or>
        \<not> (de_name (b, 16) 0 s = ch (CHR ''.'') \<and> de_name (b, 16) 1 s = ch (CHR ''.'') \<and> de_name (b, 16) 2 s = 0))"

partial_function (option) empty_dir_loop ::
  "nat \<Rightarrow> nat \<Rightarrow> dir_ptr \<Rightarrow> nat \<Rightarrow> 'z fs_st_scheme \<Rightarrow> ('z fs_st_scheme, bool) kres option" where
  "empty_dir_loop i len de nr s =
     (if nr \<ge> len then bndo (brelse (Some (fst de)) s) (\<lambda>_ s. Some (Ok True s))
      else if snd de \<ge> BLOCK_SIZE
      then bndo (brelse (Some (fst de)) s) (\<lambda>_ s.
           bndo (bmap i (int nr div DIR_ENTRIES_PER_BLOCK) s) (\<lambda>block s.
             if block = 0 then empty_dir_loop i len de (nr + 64) s
             else bndo (bread (uint (i_dev (inode_table s i))) block s) (\<lambda>r s.
               case r of None \<Rightarrow> Some (Ok False s)
               | Some b \<Rightarrow>
                  if de_inode (b, 0) s \<noteq> 0 then bndo (brelse (Some b) s) (\<lambda>_ s. Some (Ok False s))
                  else empty_dir_loop i len (b, 16) (nr + 1) s)))
      else if de_inode de s \<noteq> 0 then bndo (brelse (Some (fst de)) s) (\<lambda>_ s. Some (Ok False s))
      else empty_dir_loop i len (fst de, snd de + 16) (nr + 1) s)"

definition empty_dir :: "nat \<Rightarrow> 'z fs_st_scheme \<Rightarrow> ('z fs_st_scheme, bool) kres" where
  "empty_dir i s =
     (let len = unat (i_size (inode_table s i)) div 16
      in if len < 2 \<or> i_zone (inode_table s i) 0 = 0 then Ok False (warn_dir i s)
         else bnd (bread (uint (i_dev (inode_table s i))) (uint (i_zone (inode_table s i) 0)) s) (\<lambda>r s.
           case r of None \<Rightarrow> Ok False (warn_dir i s)
           | Some b \<Rightarrow>
              if \<not> dots_ok i b s then Ok False (warn_dir i s)
              else ended (empty_dir_loop i len (b, 32) 2 s)))"

text \<open>\<open>iput\<close> of some inodes, release of the buffer of the entry, return value.\<close>

definition give_up :: "nat list \<Rightarrow> dir_ptr \<Rightarrow> int \<Rightarrow> 'z fs_st_scheme \<Rightarrow> ('z fs_st_scheme, int) kres" where
  "give_up is de v s = bnd (iput_all is () s) (\<lambda>_ s. bnd (brelse (Some (fst de)) s) (\<lambda>_ s. Ok v s))"

definition rmdir_entry :: "nat \<Rightarrow> nat \<Rightarrow> dir_ptr \<Rightarrow> 'z fs_st_scheme \<Rightarrow> ('z fs_st_scheme, int) kres" where
  "rmdir_entry d i de s =
     (let s1 = (if i_nlinks (inode_table s i) \<noteq> 2
                then printk ''empty directory has nlink!=2 (%d)'' [uint (i_nlinks (inode_table s i))] s else s)
      in bnd (brelse (Some (fst de)) (set_dirt (fst de) (set_de_inode de 0 s1))) (\<lambda>_ s.
           let s2 = upd_inode i (\<lambda>x. x\<lparr>i_nlinks := 0, i_dirt := 1\<rparr>) s;
               s3 = upd_inode d (\<lambda>x. x\<lparr>i_nlinks := i_nlinks x - 1, i_mtime := now32 s2, i_ctime := now32 s2, i_dirt := 1\<rparr>) s2
           in iput_all [d, i] 0 s3))"

definition sys_rmdir :: "u32 \<Rightarrow> 'z fs_st_scheme \<Rightarrow> ('z fs_st_scheme, int) kres" where
  "sys_rmdir name s =
     (if user_only s then Ok (- EPERM) s
      else bnd (dir_namei name s) (\<lambda>r s.
        case r of None \<Rightarrow> Ok (- ENOENT) s
        | Some (d, namelen, base) \<Rightarrow>
           if namelen = 0 then iput_all [d] (- ENOENT) s
           else bnd (find_entry d base namelen s) (\<lambda>r s.
             case r of None \<Rightarrow> iput_all [d] (- ENOENT) s
             | Some de \<Rightarrow>
                if permission d MAY_WRITE s = 0 then give_up [d] de (- EPERM) s
                else bnd (iget (uint (i_dev (inode_table s d))) (uint (de_inode de s)) s) (\<lambda>i s.
                  if i = d then give_up [i, d] de (- EPERM) s
                  else if \<not> S_ISDIR (i_mode (inode_table s i)) then give_up [i, d] de (- ENOTDIR) s
                  else bnd (empty_dir i s) (\<lambda>e s.
                    if \<not> e then give_up [i, d] de (- ENOTEMPTY) s else rmdir_entry d i de s)))))"

section \<open>sys_unlink\<close>

definition unlink_entry :: "nat \<Rightarrow> nat \<Rightarrow> dir_ptr \<Rightarrow> 'z fs_st_scheme \<Rightarrow> ('z fs_st_scheme, int) kres" where
  "unlink_entry d i de s =
     (let x = inode_table s i;
          s1 = (if i_nlinks x = 0
                then upd_inode i (\<lambda>x. x\<lparr>i_nlinks := 1\<rparr>)
                       (printk ''Deleting nonexistent file (%04x:%d), %d'' [uint (i_dev x), uint (i_num x), uint (i_nlinks x)] s)
                else s)
      in bnd (brelse (Some (fst de)) (set_dirt (fst de) (set_de_inode de 0 s1))) (\<lambda>_ s.
           iput_all [i, d] 0 (upd_inode i (\<lambda>x. x\<lparr>i_nlinks := i_nlinks x - 1, i_dirt := 1, i_ctime := now32 s\<rparr>) s)))"

definition sys_unlink :: "u32 \<Rightarrow> 'z fs_st_scheme \<Rightarrow> ('z fs_st_scheme, int) kres" where
  "sys_unlink name s =
     bnd (dir_namei name s) (\<lambda>r s.
       case r of None \<Rightarrow> Ok (- ENOENT) s
       | Some (d, namelen, base) \<Rightarrow>
          if namelen = 0 then iput_all [d] (- ENOENT) s
          else if permission d MAY_WRITE s = 0 then iput_all [d] (- EPERM) s
          else bnd (find_entry d base namelen s) (\<lambda>r s.
            case r of None \<Rightarrow> iput_all [d] (- ENOENT) s
            | Some de \<Rightarrow>
               bnd (iget (uint (i_dev (inode_table s d))) (uint (de_inode de s)) s) (\<lambda>i s.
                 if \<not> S_ISREG (i_mode (inode_table s i)) then give_up [i, d] de (- EPERM) s
                 else unlink_entry d i de s)))"

section \<open>sys_link\<close>

definition link_entry :: "nat \<Rightarrow> nat \<Rightarrow> nat \<Rightarrow> u32 \<Rightarrow> 'z fs_st_scheme \<Rightarrow> ('z fs_st_scheme, int) kres" where
  "link_entry i d namelen base s =
     bnd (find_entry d base namelen s) (\<lambda>r s.
       case r of
         Some de \<Rightarrow> bnd (brelse (Some (fst de)) s) (\<lambda>_ s. iput_all [d, i] (- EEXIST) s)
       | None \<Rightarrow>
           bnd (add_entry d base namelen s) (\<lambda>r s.
             case r of None \<Rightarrow> iput_all [d, i] (- ENOSPC) s
             | Some de \<Rightarrow>
                bnd (brelse (Some (fst de)) (set_dirt (fst de) (set_de_inode de (i_num (inode_table s i)) s))) (\<lambda>_ s.
                bnd (iput (Some d) s) (\<lambda>_ s.
                  iput_all [i] 0 (upd_inode i (\<lambda>x. x\<lparr>i_nlinks := i_nlinks x + 1, i_ctime := now32 s, i_dirt := 1\<rparr>) s)))))"

definition sys_link :: "u32 \<Rightarrow> u32 \<Rightarrow> 'z fs_st_scheme \<Rightarrow> ('z fs_st_scheme, int) kres" where
  "sys_link oldname newname s =
     bnd (namei oldname s) (\<lambda>r s.
       case r of None \<Rightarrow> Ok (- ENOENT) s
       | Some i \<Rightarrow>
          if \<not> S_ISREG (i_mode (inode_table s i)) then iput_all [i] (- EPERM) s
          else bnd (dir_namei newname s) (\<lambda>r s.
            case r of None \<Rightarrow> iput_all [i] (- EACCES) s
            | Some (d, namelen, base) \<Rightarrow>
               if namelen = 0 then iput_all [i, d] (- EPERM) s
               else if i_dev (inode_table s d) \<noteq> i_dev (inode_table s i) then iput_all [d, i] (- EXDEV) s
               else if permission d MAY_WRITE s = 0 then iput_all [d, i] (- EACCES) s
               else link_entry i d namelen base s))"

end
