(* ===== verification/Pipe.thy ===== *)
theory Pipe
  imports Inode
begin

text \<open>
  Pipes, \<open>fs/pipe.c\<close> with the macros of \<open>include/linux/fs.h\<close>. The bytes of a pipe are in the page of physical memory
  that \<open>i_size\<close> points to; head and tail are laid over the zone numbers.

  A reader of an empty pipe and a writer of a full one give the processor away in \<open>sleep_on\<close>, and the call has the
  outcome \<open>Sleep\<close>; what a woken task does is another round of the same loop.

  \<open>pipe_q\<close> is the pipe as a queue; it is the second interpretation of the interface of ring buffers, with 4095 bytes
  at most. The lemmas show that the copying loops move bytes first in, first out.
\<close>

section \<open>Macros\<close>

definition PIPE_SIZE :: "m_inode \<Rightarrow> u32" where
  "PIPE_SIZE x = (PIPE_HEAD x - PIPE_TAIL x) AND 4095"

definition PIPE_EMPTY :: "m_inode \<Rightarrow> bool" where
  "PIPE_EMPTY x \<longleftrightarrow> PIPE_HEAD x = PIPE_TAIL x"

definition PIPE_FULL :: "m_inode \<Rightarrow> bool" where
  "PIPE_FULL x \<longleftrightarrow> PIPE_SIZE x = 4095"

definition INC_PIPE :: "u32 \<Rightarrow> u32" where
  "INC_PIPE a = (a + 1) AND 4095"

section \<open>Reading and writing\<close>

text \<open>The byte at the tail, and the pipe without it; a byte stored at the head.\<close>

definition pipe_get :: "nat \<Rightarrow> 'z fs_st_scheme \<Rightarrow> u8 \<times> 'z fs_st_scheme" where
  "pipe_get i s =
     (let x = inode_table s i
      in (ldb (unat (i_size x + PIPE_TAIL x)) s, upd_inode i (\<lambda>x. set_pipe_tail (INC_PIPE (PIPE_TAIL x)) x) s))"

definition pipe_put :: "nat \<Rightarrow> u8 \<Rightarrow> 'z fs_st_scheme \<Rightarrow> 'z fs_st_scheme" where
  "pipe_put i c s =
     (let x = inode_table s i
      in upd_inode i (\<lambda>x. set_pipe_head (INC_PIPE (PIPE_HEAD x)) x) (stb (unat (i_size x + PIPE_HEAD x)) c s))"

text \<open>The waiting loops: \<open>True\<close> when the loop is left for the transfer, \<open>False\<close> for the early return.\<close>

definition read_wait_round :: "nat \<Rightarrow> 'z fs_st_scheme \<Rightarrow> ('z fs_st_scheme, bool option) kres" where
  "read_wait_round i s =
     (if \<not> PIPE_EMPTY (inode_table s i) then Ok (Some True) s
      else
        let s1 = wake_up (i_wait_q i) s
        in if i_count (inode_table s1 i) \<noteq> 2 then Ok (Some False) s1
           else bnd (sleep_on (i_wait_q i) s1) (\<lambda>_ s. Ok None s))"

fun read_bytes :: "nat \<Rightarrow> nat \<Rightarrow> u32 \<Rightarrow> 'z fs_st_scheme \<Rightarrow> nat \<times> 'z fs_st_scheme" where
  "read_bytes i 0 b s = (0, s)"
| "read_bytes i (Suc count) b s =
     (if PIPE_EMPTY (inode_table s i) then (0, s)
      else
        let (c, _) = pipe_get i s;
            s2 = snd (pipe_get i (put_fs_byte c b s));
            (n, s3) = read_bytes i count (b + 1) s2
        in (n + 1, s3))"

definition read_pipe :: "nat \<Rightarrow> u32 \<Rightarrow> int \<Rightarrow> 'z fs_st_scheme \<Rightarrow> ('z fs_st_scheme, int) kres" where
  "read_pipe i buf count s =
     bnd (retry (read_wait_round i) s) (\<lambda>go s.
       if \<not> go then Ok 0 s
       else case read_bytes i (nat count) buf s of (n, s) \<Rightarrow> Ok (int n) (wake_up (i_wait_q i) s))"

definition sig_pipe :: "'z fs_st_scheme \<Rightarrow> 'z fs_st_scheme" where
  "sig_pipe s = upd_cur (\<lambda>t. t\<lparr>signal := signal t OR push_bit (SIGPIPE - 1) 1\<rparr>) s"

definition write_wait_round :: "nat \<Rightarrow> 'z fs_st_scheme \<Rightarrow> ('z fs_st_scheme, bool option) kres" where
  "write_wait_round i s =
     (if \<not> PIPE_FULL (inode_table s i) then Ok (Some True) s
      else
        let s1 = wake_up (i_wait_q i) s
        in if i_count (inode_table s1 i) \<noteq> 2 then Ok (Some False) (sig_pipe s1)
           else bnd (sleep_on (i_wait_q i) s1) (\<lambda>_ s. Ok None s))"

text \<open>The rest of the write, with \<open>n\<close> bytes already in the pipe and the flag whether it ended normally.\<close>

fun write_bytes :: "nat \<Rightarrow> nat \<Rightarrow> u32 \<Rightarrow> nat \<Rightarrow> 'z fs_st_scheme \<Rightarrow> ('z fs_st_scheme, nat \<times> bool) kres" where
  "write_bytes i 0 b n s = Ok (n, True) s"
| "write_bytes i (Suc count) b n s =
     bnd (retry (write_wait_round i) s) (\<lambda>go s.
       if \<not> go then Ok (n, False) s
       else write_bytes i count (b + 1) (n + 1) (wake_up (i_wait_q i) (pipe_put i (get_fs_byte b s) s)))"

definition write_pipe :: "nat \<Rightarrow> u32 \<Rightarrow> int \<Rightarrow> 'z fs_st_scheme \<Rightarrow> ('z fs_st_scheme, int) kres" where
  "write_pipe i buf count s =
     (let s1 = wake_up (i_wait_q i) s
      in if i_count (inode_table s1 i) \<noteq> 2 then Ok (-1) (sig_pipe s1)
         else bnd (write_bytes i (nat count) buf 0 s1) (\<lambda>r s.
           case r of (n, fin) \<Rightarrow> Ok (int n) (if fin then wake_up (i_wait_q i) s else s)))"

section \<open>sys_pipe\<close>

definition set_filp :: "nat \<Rightarrow> nat option \<Rightarrow> 'z sched_st_scheme \<Rightarrow> 'z sched_st_scheme" where
  "set_filp fd v s = upd_cur (\<lambda>t. t\<lparr>filp := (filp t)(fd := v)\<rparr>) s"

definition free_files :: "'z fs_st_scheme \<Rightarrow> nat list" where
  "free_files s = take 2 (filter (\<lambda>i. f_count (file_table s i) = 0) [0..<NR_FILE])"

definition free_fds :: "'z fs_st_scheme \<Rightarrow> nat list" where
  "free_fds s = take 2 (filter (\<lambda>i. filp (cur s) i = None) [0..<NR_OPEN])"

definition sys_pipe :: "u32 \<Rightarrow> 'z fs_st_scheme \<Rightarrow> ('z fs_st_scheme, int) kres" where
  "sys_pipe fildes s =
     (case free_files s of
        [f0, f1] \<Rightarrow>
          let s1 = upd_file f1 (\<lambda>x. x\<lparr>f_count := f_count x + 1\<rparr>) (upd_file f0 (\<lambda>x. x\<lparr>f_count := f_count x + 1\<rparr>) s);
              drop2 = (\<lambda>s. upd_file f0 (\<lambda>x. x\<lparr>f_count := 0\<rparr>) (upd_file f1 (\<lambda>x. x\<lparr>f_count := 0\<rparr>) s))
          in (case free_fds s1 of
                [d0, d1] \<Rightarrow>
                  bnd (get_pipe_inode (set_filp d1 (Some f1) (set_filp d0 (Some f0) s1))) (\<lambda>r s.
                    case r of None \<Rightarrow> Ok (-1) (drop2 (set_filp d0 None (set_filp d1 None s)))
                    | Some i \<Rightarrow>
                       let s2 = upd_file f0 (\<lambda>x. x\<lparr>f_inode := Some i, f_pos := 0, f_mode := 1\<rparr>) s;
                           s3 = upd_file f1 (\<lambda>x. x\<lparr>f_inode := Some i, f_pos := 0, f_mode := 2\<rparr>) s2
                       in Ok 0 (put_fs_long (of_nat d1) (fildes + 4) (put_fs_long (of_nat d0) fildes s3)))
              | _ \<Rightarrow> Ok (-1) (drop2 s1))
      | _ \<Rightarrow> Ok (-1) s)"

section \<open>Bytes of physical memory\<close>

lemma ldb_stb: "ldb a (stb b v s) = (if a = b then v else ldb a s)"
proof -
  let ?w = "pm s (b div 4)"
  define w where "w = (?w AND NOT (push_bit (8 * (b mod 4)) 0xff)) OR push_bit (8 * (b mod 4)) (ucast v)"
  have bits: "bit w k \<longleftrightarrow> (if 8 * (b mod 4) \<le> k \<and> k < 8 * (b mod 4) + 8 then bit v (k - 8 * (b mod 4)) else bit ?w k)"
    if "k < 32" for k
  proof -
    have m: "(0xff :: u32) = mask 8" by (simp add: mask_eq_exp_minus_1)
    have v: "bit v j \<Longrightarrow> j < 8" for j by (drule bit_imp_le_length) simp
    show ?thesis using that v [of "k - 8 * (b mod 4)"] unfolding m w_def by (auto simp: bit_simps)
  qed
  show ?thesis
  proof (cases "a div 4 = b div 4")
    case False
    then show ?thesis by (auto simp: ldb_def stb_def)
  next
    case True
    have l: "ldb a (stb b v s) = ucast (drop_bit (8 * (a mod 4)) w)" using True by (simp add: ldb_def stb_def w_def)
    have lt: "8 * (a mod 4) + k < 32" if "k < 8" for k using that by presburger
    show ?thesis
    proof (cases "a = b")
      case True
      show ?thesis unfolding l using True bits lt by (intro bit_word_eqI) (simp add: bit_simps)
    next
      case False
      then have "a mod 4 \<noteq> b mod 4" using \<open>a div 4 = b div 4\<close> by (metis div_mult_mod_eq)
      note ne = this
      have apart: "x \<noteq> y \<Longrightarrow> k < 8 \<Longrightarrow> \<not> (8 * y \<le> 8 * x + k \<and> 8 * x + k < 8 * y + 8)" for x y k :: nat by arith
      have "bit w (8 * (a mod 4) + k) = bit ?w (8 * (a mod 4) + k)" if "k < 8" for k
        using bits [OF lt [OF that]] apart [OF ne that] by (simp only: if_False)
      then show ?thesis unfolding l using False True by (intro bit_word_eqI) (simp add: bit_simps ldb_def)
    qed
  qed
qed

section \<open>The pipe as a queue\<close>

lemma join_halves: "ucast (ucast v :: u16) OR push_bit 16 (ucast (ucast (drop_bit 16 v) :: u16)) = (v :: u32)"
  by (rule bit_word_eqI) (auto simp: bit_simps)

lemma pipe_ends [simp]:
  "PIPE_HEAD (set_pipe_head v x) = v" "PIPE_TAIL (set_pipe_tail v x) = v" "PIPE_TAIL (set_pipe_head v x) = PIPE_TAIL x"
  "PIPE_HEAD (set_pipe_tail v x) = PIPE_HEAD x" "i_size (set_pipe_head v x) = i_size x" "i_size (set_pipe_tail v x) = i_size x"
  using join_halves [of v] by (simp_all add: PIPE_HEAD_def PIPE_TAIL_def set_pipe_head_def set_pipe_tail_def)

definition pipe_ok :: "nat \<Rightarrow> 'z fs_st_scheme \<Rightarrow> bool" where
  "pipe_ok i s \<longleftrightarrow> PIPE_HEAD (inode_table s i) < 4096 \<and> PIPE_TAIL (inode_table s i) < 4096 \<and>
     unat (i_size (inode_table s i)) + 4096 \<le> unat HIGH_MEMORY"

definition pipe_list :: "nat \<Rightarrow> 'z fs_st_scheme \<Rightarrow> u8 list" where
  "pipe_list i s = ring_list 4096 (\<lambda>k. ldb (unat (i_size (inode_table s i)) + k) s)
     (unat (PIPE_HEAD (inode_table s i))) (unat (PIPE_TAIL (inode_table s i)))"

lemma and_fff: "unat (w AND 4095) = unat (w :: u32) mod 4096"
  using unat_take_bit [of 12 w] by (simp add: take_bit_eq_mask mask_eq_exp_minus_1)

lemma unat_INC_PIPE: "a < 4096 \<Longrightarrow> unat (INC_PIPE a) = (unat a + 1) mod 4096"
  by (simp add: INC_PIPE_def and_fff unat_plus_if' word_less_nat_alt)

lemma unat_PIPE_SIZE:
  assumes "pipe_ok i s"
  shows "unat (PIPE_SIZE (inode_table s i)) = length (pipe_list i s)"
proof -
  let ?h = "PIPE_HEAD (inode_table s i)" and ?t = "PIPE_TAIL (inode_table s i)"
  have b: "unat ?h < 4096" "unat ?t < 4096" using assms by (simp_all add: pipe_ok_def word_less_nat_alt)
  have "unat (?h - ?t) mod 4096 = (unat ?h + 4096 - unat ?t) mod 4096"
  proof (cases "?t \<le> ?h")
    case True
    then have "unat (?h - ?t) = unat ?h - unat ?t" "unat ?h + 4096 - unat ?t = unat ?h - unat ?t + 4096"
      by (simp_all add: unat_sub word_le_nat_alt)
    then show ?thesis by (simp only: mod_add_self2)
  next
    case False
    then have "unat (?h - ?t) = unat ?h + 2 ^ 32 - unat ?t" using unat_sub_if' [of ?h ?t] by (simp add: word_le_nat_alt)
    also have "\<dots> = (unat ?h + 4096 - unat ?t) + 1048575 * 4096" using b by simp
    finally show ?thesis by (simp only: mod_mult_self1)
  qed
  then show ?thesis by (simp add: PIPE_SIZE_def and_fff pipe_list_def)
qed

lemma pipe_addr: "pipe_ok i s \<Longrightarrow> k < 4096 \<Longrightarrow> unat (i_size (inode_table s i) + k) = unat (i_size (inode_table s i)) + unat k"
  by (simp add: pipe_ok_def HIGH_MEMORY_def word_less_nat_alt unat_plus_if')

lemma pm_upd_inode [simp]: "pm (upd_inode i f s) = pm s" "ldb a (upd_inode i f s) = ldb a s"
  "inode_table (upd_inode i f s) = (inode_table s)(i := f (inode_table s i))"
  by (simp_all add: upd_inode_def ldb_def)

lemma stb_inode [simp]: "inode_table (stb a v s) = inode_table s"
  by (simp add: stb_def)

lemma pipe_put_list:
  assumes ok: "pipe_ok i s" and nf: "\<not> PIPE_FULL (inode_table s i)"
  shows "pipe_list i (pipe_put i c s) = pipe_list i s @ [c]"
proof -
  let ?x = "inode_table s i"
  have b: "unat (PIPE_HEAD ?x) < 4096" "unat (PIPE_TAIL ?x) < 4096" "PIPE_HEAD ?x < 4096" using ok by (simp_all add: pipe_ok_def word_less_nat_alt)
  have "unat (PIPE_SIZE ?x) < 4096" using unat_PIPE_SIZE [OF ok] by (simp add: pipe_list_def)
  moreover have "unat (PIPE_SIZE ?x) \<noteq> 4095" using nf by (simp add: PIPE_FULL_def word_unat_eq_iff)
  ultimately have room: "(unat (PIPE_HEAD ?x) + 4096 - unat (PIPE_TAIL ?x)) mod 4096 < 4096 - 1"
    using unat_PIPE_SIZE [OF ok] by (simp add: pipe_list_def)
  have "(\<lambda>k. ldb (unat (i_size ?x) + k) (stb (unat (i_size ?x + PIPE_HEAD ?x)) c s)) =
      (\<lambda>k. ldb (unat (i_size ?x) + k) s)(unat (PIPE_HEAD ?x) := c)"
    by (auto simp: fun_eq_iff ldb_stb pipe_addr [OF ok b(3)])
  then show ?thesis
    using ring_put [OF b(1,2) room, of "\<lambda>k. ldb (unat (i_size ?x) + k) s" c] unat_INC_PIPE [OF b(3)]
    by (simp add: pipe_list_def pipe_put_def Let_def)
qed

lemma pipe_get_list:
  assumes ok: "pipe_ok i s" and ne: "\<not> PIPE_EMPTY (inode_table s i)"
  shows "pipe_list i s = fst (pipe_get i s) # pipe_list i (snd (pipe_get i s))"
proof -
  let ?x = "inode_table s i"
  have b: "unat (PIPE_HEAD ?x) < 4096" "unat (PIPE_TAIL ?x) < 4096" "PIPE_TAIL ?x < 4096" using ok by (simp_all add: pipe_ok_def word_less_nat_alt)
  have "unat (PIPE_HEAD ?x) \<noteq> unat (PIPE_TAIL ?x)" using ne by (simp add: PIPE_EMPTY_def word_unat_eq_iff)
  from ring_take [OF b(1,2) this] show ?thesis
    using unat_INC_PIPE [OF b(3)] pipe_addr [OF ok b(3)] by (simp add: pipe_list_def pipe_get_def Let_def)
qed

text \<open>A pipe is a queue of at most 4095 bytes.\<close>

interpretation pq: ring_queue "pipe_ok i" "pipe_list i" "pipe_put i" "pipe_get i"
  "\<lambda>s. PIPE_EMPTY (inode_table s i)" "\<lambda>s. PIPE_FULL (inode_table s i)" 4095 for i
proof (unfold_locales, goal_cases)
  case (1 s)
  then show ?case by (simp add: PIPE_EMPTY_def pipe_list_def pipe_ok_def word_less_nat_alt ring_empty_iff word_unat_eq_iff)
next
  case (2 s)
  then show ?case using unat_PIPE_SIZE [OF 2] by (simp add: PIPE_FULL_def word_unat_eq_iff)
next
  case (3 s)
  have "length (pipe_list i s) < 4096" by (simp add: pipe_list_def)
  then show ?case by simp
next
  case (4 s c)
  then show ?case by (simp add: pipe_ok_def pipe_put_def Let_def INC_PIPE_def and_fff word_less_nat_alt)
next
  case (5 s c)
  then show ?case by (rule pipe_put_list)
next
  case (6 s)
  then show ?case by (simp add: pipe_ok_def pipe_get_def Let_def INC_PIPE_def and_fff word_less_nat_alt)
next
  case (7 s)
  then show ?case by (rule pipe_get_list)
qed

section \<open>The copying loops\<close>

text \<open>Waking the tasks that wait for the pipe changes neither the pipe nor user memory.\<close>

lemma wake_pipe [simp]:
  "pipe_ok j (wake_up (i_wait_q i) s) = pipe_ok j s" "pipe_list j (wake_up (i_wait_q i) s) = pipe_list j s"
  "i_count (inode_table (wake_up (i_wait_q i) s) j) = i_count (inode_table s j)"
  "PIPE_FULL (inode_table (wake_up (i_wait_q i) s) j) = PIPE_FULL (inode_table s j)"
  "PIPE_EMPTY (inode_table (wake_up (i_wait_q i) s) j) = PIPE_EMPTY (inode_table s j)"
  "umem (wake_up (i_wait_q i) s) = umem s" "current (wake_up (i_wait_q i) s) = current s"
  by (auto simp: wake_up_def i_wait_q_def upd_inode_def upd_task_def pipe_ok_def pipe_list_def PIPE_HEAD_def PIPE_TAIL_def
      PIPE_FULL_def PIPE_SIZE_def PIPE_EMPTY_def ldb_def)

lemma put_pipe [simp]:
  "umem (pipe_put i c s) = umem s" "current (pipe_put i c s) = current s"
  "i_count (inode_table (pipe_put i c s) i) = i_count (inode_table s i)"
  by (simp_all add: pipe_put_def Let_def upd_inode_def stb_def set_pipe_head_def)

lemma write_bytes_ok:
  "pipe_ok i s \<Longrightarrow> length (pipe_list i s) + count \<le> 4095 \<Longrightarrow>
   \<exists>t. write_bytes i count b n s = Ok (n + count, True) t \<and> pipe_ok i t \<and> umem t = umem s \<and> current t = current s \<and>
     i_count (inode_table t i) = i_count (inode_table s i) \<and>
     pipe_list i t = pipe_list i s @ map (\<lambda>k. get_fs_byte (b + of_nat k) s) [0..<count]"
proof (induction count arbitrary: b n s)
  case (Suc count)
  let ?c = "get_fs_byte b s"
  let ?u = "wake_up (i_wait_q i) (pipe_put i ?c s)"
  have nf: "\<not> PIPE_FULL (inode_table s i)" using pq.full_iff [OF Suc.prems(1)] Suc.prems(2) by simp
  then have "retry (write_wait_round i) s = Ok True s" by (intro retry_done) (simp add: write_wait_round_def)
  then have w: "write_bytes i (Suc count) b n s = write_bytes i count (b + 1) (n + 1) ?u" by simp
  have l: "pipe_list i (pipe_put i ?c s) = pipe_list i s @ [?c]" "pipe_ok i ?u"
    using pq.put_contents [OF Suc.prems(1) nf] pq.put_inv [OF Suc.prems(1)] by simp_all
  have g: "get_fs_byte a ?u = get_fs_byte a s" for a by (simp add: get_fs_byte_def)
  have "map (\<lambda>k. get_fs_byte (b + of_nat k) s) [0..<Suc count] = ?c # map (\<lambda>k. get_fs_byte (b + 1 + of_nat k) s) [0..<count]"
    by (simp add: upt_conv_Cons map_Suc_upt [symmetric] add.assoc del: upt_Suc)
  then show ?case using Suc.IH [OF l(2), of "b + 1" "n + 1"] Suc.prems(2) unfolding w by (auto simp: l(1) g)
qed simp

lemma write_pipe_ok:
  assumes "pipe_ok i s" "length (pipe_list i s) + n \<le> 4095" "i_count (inode_table s i) = 2"
  shows "\<exists>t. write_pipe i buf (int n) s = Ok (int n) t \<and> pipe_ok i t \<and> umem t = umem s \<and> current t = current s \<and>
    pipe_list i t = pipe_list i s @ map (\<lambda>k. get_fs_byte (buf + of_nat k) s) [0..<n]"
proof -
  let ?s = "wake_up (i_wait_q i) s"
  have g: "get_fs_byte a ?s = get_fs_byte a s" for a by (simp add: get_fs_byte_def)
  obtain t where t: "write_bytes i n buf 0 ?s = Ok (n, True) t" "pipe_ok i t" "umem t = umem s" "current t = current s"
    "pipe_list i t = pipe_list i s @ map (\<lambda>k. get_fs_byte (buf + of_nat k) s) [0..<n]"
    using write_bytes_ok [of i ?s n buf 0] assms by (auto simp: g)
  then show ?thesis using assms(3)
    by (intro exI [of _ "wake_up (i_wait_q i) t"]) (simp add: write_pipe_def Let_def)
qed

lemma pipe_get_put_fs: "pipe_get i (put_fs_byte c b s) = (fst (pipe_get i s), put_fs_byte c b (snd (pipe_get i s)))"
  by (simp add: pipe_get_def put_fs_byte_def Let_def ldb_def upd_inode_def)

lemma pipe_put_fs [simp]: "pipe_ok i (put_fs_byte c b s) = pipe_ok i s" "pipe_list i (put_fs_byte c b s) = pipe_list i s"
  "inode_table (put_fs_byte c b s) = inode_table s"
  by (simp_all add: pipe_ok_def pipe_list_def put_fs_byte_def ldb_def)

lemma pipe_get_fs: "get_fs_byte a (snd (pipe_get i s)) = get_fs_byte a s"
  by (simp add: pipe_get_def Let_def get_fs_byte_def upd_inode_def)

lemma read_bytes_ok:
  "pipe_ok i s \<Longrightarrow> pipe_list i s = xs @ ys \<Longrightarrow> length xs < 2 ^ 32 \<Longrightarrow> count = length xs \<Longrightarrow>
   \<exists>t. read_bytes i count b s = (count, t) \<and> pipe_ok i t \<and> pipe_list i t = ys \<and>
     (\<forall>k < count. get_fs_byte (b + of_nat k) t = xs ! k) \<and>
     (\<forall>a. (\<forall>k < count. a \<noteq> b + of_nat k) \<longrightarrow> get_fs_byte a t = get_fs_byte a s)"
proof (induction count arbitrary: b s xs)
  case (Suc count)
  obtain c zs where xs: "xs = c # zs" "length zs = count" using Suc.prems(4) by (cases xs) auto
  let ?u = "put_fs_byte c b (snd (pipe_get i s))"
  have ne: "\<not> PIPE_EMPTY (inode_table s i)" using pq.empty_iff [OF Suc.prems(1)] Suc.prems(2) xs by simp
  have l: "fst (pipe_get i s) = c" "pipe_list i (snd (pipe_get i s)) = zs @ ys"
    using pq.take_contents [OF Suc.prems(1) ne] Suc.prems(2) xs by simp_all
  have u: "pipe_ok i ?u" "pipe_list i ?u = zs @ ys" using l pq.take_inv [OF Suc.prems(1)] by simp_all
  have zs: "length zs < 2 ^ 32" "count = length zs" using xs Suc.prems(3) by simp_all
  obtain t where t: "read_bytes i count (b + 1) ?u = (count, t)" "pipe_ok i t" "pipe_list i t = ys"
    "\<forall>k < count. get_fs_byte (b + 1 + of_nat k) t = zs ! k"
    "\<forall>a. (\<forall>k < count. a \<noteq> b + 1 + of_nat k) \<longrightarrow> get_fs_byte a t = get_fs_byte a ?u"
    using Suc.IH [OF u zs, of "b + 1"] by blast
  have r: "read_bytes i (Suc count) b s = (Suc count, t)"
    using ne t(1) l(1) by (cases "pipe_get i s") (simp add: pipe_get_put_fs)
  have first: "b \<noteq> b + 1 + of_nat k" if "k < count" for k
  proof
    assume "b = b + 1 + of_nat k"
    then have "(1 + of_nat k :: u32) = 0" by (simp add: add.assoc)
    then have "(of_nat (Suc k) :: u32) = 0" by simp
    then show False using that Suc.prems(3) xs by (simp add: of_nat_inverse word_of_nat_eq_0_iff nat_dvd_not_less del: of_nat_Suc)
  qed
  have "get_fs_byte (b + of_nat k) t = xs ! k" if "k < Suc count" for k
  proof (cases k)
    case 0
    then show ?thesis using t(5) first xs by (simp add: get_put_fs_byte)
  next
    case (Suc j)
    then show ?thesis using t(4) that xs by (simp add: add.assoc)
  qed
  moreover have "get_fs_byte a t = get_fs_byte a s" if a: "\<forall>k < Suc count. a \<noteq> b + of_nat k" for a
  proof -
    have "a \<noteq> b" using a [rule_format, of 0] by simp
    moreover have "a \<noteq> b + 1 + of_nat k" if "k < count" for k using a [rule_format, of "Suc k"] that by (simp add: add.assoc)
    ultimately show ?thesis using t(5) by (simp add: get_put_fs_byte pipe_get_fs)
  qed
  ultimately show ?case using r t(2,3) by blast
qed auto

lemma read_pipe_ok:
  assumes "pipe_ok i s" "pipe_list i s = xs @ ys" "n = length xs" "pipe_list i s \<noteq> []"
  shows "\<exists>t. read_pipe i buf (int n) s = Ok (int n) t \<and> pipe_ok i t \<and> pipe_list i t = ys \<and>
    (\<forall>k < n. get_fs_byte (buf + of_nat k) t = xs ! k)"
proof -
  have "length (pipe_list i s) \<le> 4095" by (rule pq.bounded [OF assms(1)])
  then have "length xs < 2 ^ 32" using assms(2) by simp
  from read_bytes_ok [OF assms(1,2) this assms(3)] obtain t where
    t: "read_bytes i n buf s = (n, t)" "pipe_ok i t" "pipe_list i t = ys" "\<forall>k < n. get_fs_byte (buf + of_nat k) t = xs ! k" by blast
  have "\<not> PIPE_EMPTY (inode_table s i)" using pq.empty_iff [OF assms(1)] assms(4) by simp
  then have "retry (read_wait_round i) s = Ok True s" by (intro retry_done) (simp add: read_wait_round_def)
  then show ?thesis using t by (intro exI [of _ "wake_up (i_wait_q i) t"]) (simp add: read_pipe_def get_fs_byte_def)
qed

text \<open>
  C20: a pipe with both ends open delivers bytes first in, first out. As long as they fit, writing \<open>n\<close> bytes ends
  without sleeping, and a read of everything that is then in the pipe returns the old bytes followed by the new ones
  and leaves the pipe empty.
\<close>

theorem pipe_fifo:
  assumes "pipe_ok i s" "i_count (inode_table s i) = 2" "length (pipe_list i s) + n \<le> 4095" "0 < n"
  shows "\<exists>t u. write_pipe i src (int n) s = Ok (int n) t \<and>
    read_pipe i dst (int (length (pipe_list i s) + n)) t = Ok (int (length (pipe_list i s) + n)) u \<and> pipe_list i u = [] \<and>
    (\<forall>k < length (pipe_list i s) + n. get_fs_byte (dst + of_nat k) u =
       (pipe_list i s @ map (\<lambda>k. get_fs_byte (src + of_nat k) s) [0..<n]) ! k)"
proof -
  let ?xs = "pipe_list i s @ map (\<lambda>k. get_fs_byte (src + of_nat k) s) [0..<n]"
  obtain t where t: "write_pipe i src (int n) s = Ok (int n) t" "pipe_ok i t" "pipe_list i t = ?xs @ []"
    using write_pipe_ok [OF assms(1,3,2)] by auto
  moreover have "length (pipe_list i s) + n = length ?xs" "pipe_list i t \<noteq> []" using assms(4) t(3) by auto
  ultimately show ?thesis using read_pipe_ok [OF t(2,3), of "length (pipe_list i s) + n" dst] by blast
qed

section \<open>An open pipe\<close>

definition pipe_demo :: fs_st where
  "pipe_demo = upd_inode 3 (\<lambda>x. x\<lparr>i_size := 0x300000, i_count := 2, i_pipe := 1\<rparr>) fs_demo"

lemma pipe_demo_ok: "pipe_ok 3 pipe_demo" "i_count (inode_table pipe_demo 3) = 2" "pipe_list 3 pipe_demo = []"
  by (simp_all add: pipe_demo_def pipe_ok_def pipe_list_def fs_demo_tables zero_inode_def PIPE_HEAD_def PIPE_TAIL_def
      HIGH_MEMORY_def ring_list_def)

theorem pipe_fifo_witness:
  "pipe_ok 3 pipe_demo \<and> (\<exists>t u. write_pipe 3 0x1000 5 pipe_demo = Ok 5 t \<and> read_pipe 3 0x2000 5 t = Ok 5 u \<and> pipe_list 3 u = [])"
  using pipe_fifo [of 3 pipe_demo 5 "0x1000" "0x2000"] pipe_demo_ok by auto

end
