(* ===== verification/Open.thy ===== *)
theory Open
  imports Namei_Sys Pipe
begin

text \<open>
  Opening and closing files and duplicating descriptors: \<open>fs/open.c\<close> and \<open>fs/fcntl.c\<close>.

  The descriptors of a task are the slots 0 to 19 of \<open>filp\<close>, each the index of an open file in \<open>file_table\<close>. An
  unsigned argument is a natural number. \<open>sys_access\<close> reads the owner of the inode after it has given it back, as
  the code does.
\<close>

section \<open>Attributes of a file\<close>

text \<open>A system call on the inode that a path names.\<close>

definition with_inode :: "u32 \<Rightarrow> int \<Rightarrow> (nat \<Rightarrow> 'z fs_st_scheme \<Rightarrow> ('z fs_st_scheme, int) kres) \<Rightarrow> 'z fs_st_scheme \<Rightarrow>
    ('z fs_st_scheme, int) kres" where
  "with_inode filename err f s =
     bnd (namei filename s) (\<lambda>r s. case r of None \<Rightarrow> Ok (- err) s | Some i \<Rightarrow> f i s)"

definition sys_utime :: "u32 \<Rightarrow> u32 \<Rightarrow> 'z fs_st_scheme \<Rightarrow> ('z fs_st_scheme, int) kres" where
  "sys_utime filename tbuf s =
     with_inode filename ENOENT (\<lambda>i s.
       let (actime, modtime) =
             (if tbuf \<noteq> 0 then (get_fs_long tbuf s, get_fs_long (tbuf + 4) s) else (now32 s, now32 s))
       in iput_all [i] 0 (upd_inode i (\<lambda>x. x\<lparr>i_atime := actime, i_mtime := modtime, i_dirt := 1\<rparr>) s)) s"

definition sys_access :: "u32 \<Rightarrow> int \<Rightarrow> 'z fs_st_scheme \<Rightarrow> ('z fs_st_scheme, int) kres" where
  "sys_access filename mode0 s =
     (let mode = mode0 AND 7
      in with_inode filename EACCES (\<lambda>i s.
           let res = uint (i_mode (inode_table s i)) AND 0x1ff
           in bnd (iput (Some i) s) (\<lambda>_ s.
                let x = inode_table s i; t = cur s;
                    res = (if euid t = 0 \<or> uid t = 0 then if res AND 0x49 \<noteq> 0 then 0x1ff else 0x1b6 else res);
                    res = (if euid t = i_uid x then drop_bit 6 res
                           else if egid t = ucast (i_gid x) then drop_bit 6 res else res)
                in Ok (if res AND 7 AND mode = mode then 0 else - EACCES) s)) s)"

definition sys_chdir :: "u32 \<Rightarrow> 'z fs_st_scheme \<Rightarrow> ('z fs_st_scheme, int) kres" where
  "sys_chdir filename s =
     with_inode filename ENOENT (\<lambda>i s.
       if \<not> S_ISDIR (i_mode (inode_table s i)) then iput_all [i] (- ENOTDIR) s
       else bnd (iput (pwd (cur s)) s) (\<lambda>_ s. Ok 0 (upd_cur (\<lambda>t. t\<lparr>pwd := Some i\<rparr>) s))) s"

definition sys_chroot :: "u32 \<Rightarrow> 'z fs_st_scheme \<Rightarrow> ('z fs_st_scheme, int) kres" where
  "sys_chroot filename s =
     with_inode filename ENOENT (\<lambda>i s.
       if \<not> S_ISDIR (i_mode (inode_table s i)) then iput_all [i] (- ENOTDIR) s
       else bnd (iput (root (cur s)) s) (\<lambda>_ s. Ok 0 (upd_cur (\<lambda>t. t\<lparr>root := Some i\<rparr>) s))) s"

definition sys_chmod :: "u32 \<Rightarrow> int \<Rightarrow> 'z fs_st_scheme \<Rightarrow> ('z fs_st_scheme, int) kres" where
  "sys_chmod filename mode0 s =
     with_inode filename ENOENT (\<lambda>i s.
       let x = inode_table s i; t = cur s;
           change = (\<lambda>mode. iput_all [i] 0 (upd_inode i (\<lambda>x. x\<lparr>i_mode :=
                    word_of_int ((mode AND 0xfff) OR (uint (i_mode x) AND NOT 0xfff)), i_dirt := 1\<rparr>) s))
       in if uid t \<noteq> 0 \<and> euid t \<noteq> 0
          then if uid t \<noteq> i_uid x \<and> euid t \<noteq> i_uid x then iput_all [i] (- EACCES) s
               else change ((mode0 AND 0x1ff) OR (uint (i_mode x) AND 0xe00))
          else change mode0) s"

definition sys_chown :: "u32 \<Rightarrow> int \<Rightarrow> int \<Rightarrow> 'z fs_st_scheme \<Rightarrow> ('z fs_st_scheme, int) kres" where
  "sys_chown filename user grp s =
     with_inode filename ENOENT (\<lambda>i s.
       if uid (cur s) \<noteq> 0 \<and> euid (cur s) \<noteq> 0 then iput_all [i] (- EACCES) s
       else iput_all [i] 0 (upd_inode i (\<lambda>x. x\<lparr>i_uid := word_of_int user, i_gid := word_of_int grp, i_dirt := 1\<rparr>) s)) s"

section \<open>Opening\<close>

definition clear_cloexec :: "nat \<Rightarrow> 'z sched_st_scheme \<Rightarrow> 'z sched_st_scheme" where
  "clear_cloexec fd s = upd_cur (\<lambda>t. t\<lparr>close_on_exec := close_on_exec t AND NOT (push_bit fd 1)\<rparr>) s"

text \<open>What \<open>sys_open\<close> does about terminals: \<open>False\<close> when the open is refused.\<close>

definition open_tty :: "nat \<Rightarrow> 'z fs_st_scheme \<Rightarrow> bool \<times> 'z fs_st_scheme" where
  "open_tty i s =
     (let x = inode_table s i; dev = uint (i_zone x 0); t = cur s
      in if S_ISCHR (i_mode x)
         then if MAJOR dev = 4
              then if leader t \<noteq> 0 \<and> tty t < 0
                   then (True, upd_tty (nat (MINOR dev)) (\<lambda>y. y\<lparr>tty_pgrp := pgrp t\<rparr>) (upd_cur (\<lambda>t. t\<lparr>tty := MINOR dev\<rparr>) s))
                   else (True, s)
              else (\<not> (MAJOR dev = 5 \<and> tty t < 0), s)
         else (True, s))"

definition sys_open :: "u32 \<Rightarrow> int \<Rightarrow> int \<Rightarrow> 'z fs_st_scheme \<Rightarrow> ('z fs_st_scheme, int) kres" where
  "sys_open filename flag mode0 s =
     (let mode = mode0 AND (0x1ff AND NOT (uint (umask (cur s))))
      in case find (\<lambda>fd. filp (cur s) fd = None) [0..<NR_OPEN] of None \<Rightarrow> Ok (- EINVAL) s
         | Some fd \<Rightarrow>
            let s1 = clear_cloexec fd s
            in case find (\<lambda>f. f_count (file_table s1 f) = 0) [0..<NR_FILE] of None \<Rightarrow> Ok (- EINVAL) s1
               | Some f \<Rightarrow>
                  let s2 = upd_file f (\<lambda>x. x\<lparr>f_count := f_count x + 1\<rparr>) (set_filp fd (Some f) s1);
                      undo = (\<lambda>s. upd_file f (\<lambda>x. x\<lparr>f_count := 0\<rparr>) (set_filp fd None s))
                  in bnd (open_namei filename flag mode s2) (\<lambda>r s.
                       case r of Inl e \<Rightarrow> Ok e (undo s)
                       | Inr i \<Rightarrow>
                          case open_tty i s of
                            (False, s) \<Rightarrow> bnd (iput (Some i) s) (\<lambda>_ s. Ok (- EPERM) (undo s))
                          | (True, s) \<Rightarrow>
                              Ok (int fd) (upd_file f (\<lambda>x. x\<lparr>f_mode := i_mode (inode_table s i), f_flags := word_of_int flag,
                                f_count := 1, f_inode := Some i, f_pos := 0\<rparr>) s)))"

definition sys_creat :: "u32 \<Rightarrow> int \<Rightarrow> 'z fs_st_scheme \<Rightarrow> ('z fs_st_scheme, int) kres" where
  "sys_creat pathname mode s = sys_open pathname (O_CREAT OR O_TRUNC) mode s"

definition sys_close :: "nat \<Rightarrow> 'z fs_st_scheme \<Rightarrow> ('z fs_st_scheme, int) kres" where
  "sys_close fd s =
     (if fd \<ge> NR_OPEN then Ok (- EINVAL) s
      else
        let s1 = clear_cloexec fd s
        in case filp (cur s1) fd of None \<Rightarrow> Ok (- EINVAL) s1
           | Some f \<Rightarrow>
              let s2 = set_filp fd None s1
              in if f_count (file_table s2 f) = 0 then Panic ''Close: file count is 0''
                 else
                   let s3 = upd_file f (\<lambda>x. x\<lparr>f_count := f_count x - 1\<rparr>) s2
                   in if f_count (file_table s3 f) \<noteq> 0 then Ok 0 s3
                      else bnd (iput (f_inode (file_table s3 f)) s3) (\<lambda>_ s. Ok 0 s))"

section \<open>fcntl.c\<close>

definition dupfd :: "nat \<Rightarrow> nat \<Rightarrow> 'z fs_st_scheme \<Rightarrow> int \<times> 'z fs_st_scheme" where
  "dupfd fd arg s =
     (if fd \<ge> NR_OPEN then (- EBADF, s)
      else case filp (cur s) fd of None \<Rightarrow> (- EBADF, s)
      | Some f \<Rightarrow>
         if arg \<ge> NR_OPEN then (- EINVAL, s)
         else case find (\<lambda>a. filp (cur s) a = None) [arg..<NR_OPEN] of None \<Rightarrow> (- EMFILE, s)
           | Some a \<Rightarrow>
              (int a, upd_file f (\<lambda>x. x\<lparr>f_count := f_count x + 1\<rparr>) (set_filp a (Some f) (clear_cloexec a s))))"

definition sys_dup2 :: "nat \<Rightarrow> nat \<Rightarrow> 'z fs_st_scheme \<Rightarrow> ('z fs_st_scheme, int) kres" where
  "sys_dup2 oldfd newfd s =
     bnd (sys_close newfd s) (\<lambda>_ s. case dupfd oldfd newfd s of (r, s) \<Rightarrow> Ok r s)"

definition sys_dup :: "nat \<Rightarrow> 'z fs_st_scheme \<Rightarrow> int \<times> 'z fs_st_scheme" where
  "sys_dup fildes s = dupfd fildes 0 s"

definition O_STATUS :: u16 where
  "O_STATUS = 0xc00"

definition sys_fcntl :: "nat \<Rightarrow> nat \<Rightarrow> u32 \<Rightarrow> 'z fs_st_scheme \<Rightarrow> int \<times> 'z fs_st_scheme" where
  "sys_fcntl fd cmd0 arg s =
     (if fd \<ge> NR_OPEN then (- EBADF, s)
      else case filp (cur s) fd of None \<Rightarrow> (- EBADF, s)
      | Some f \<Rightarrow>
         if cmd0 = 0 then dupfd fd (unat arg) s
         else if cmd0 = 1 then (of_bool (bit (close_on_exec (cur s)) fd), s)
         else if cmd0 = 2
         then (0, if arg AND 1 \<noteq> 0 then upd_cur (\<lambda>t. t\<lparr>close_on_exec := close_on_exec t OR push_bit fd 1\<rparr>) s
                  else clear_cloexec fd s)
         else if cmd0 = 3 then (uint (f_flags (file_table s f)), s)
         else if cmd0 = 4
         then (0, upd_file f (\<lambda>x. x\<lparr>f_flags := (f_flags x AND NOT O_STATUS) OR (ucast arg AND O_STATUS)\<rparr>) s)
         else (-1, s))"

definition sys_fcntl64 :: "nat \<Rightarrow> nat \<Rightarrow> u32 \<Rightarrow> 'z fs_st_scheme \<Rightarrow> int \<times> 'z fs_st_scheme" where
  "sys_fcntl64 fd cmd0 arg s =
     (if fd \<ge> NR_OPEN then (- EBADF, s)
      else case filp (cur s) fd of None \<Rightarrow> (- EBADF, s)
      | Some f \<Rightarrow> if cmd0 = 12 \<or> cmd0 = 13 \<or> cmd0 = 14 then (- ENOSYS, s) else sys_fcntl fd cmd0 arg s)"

end
