(* ===== verification/Process.thy ===== *)
theory Process
  imports Open
begin

text \<open>
  The life of a process: \<open>kernel/fork.c\<close>, \<open>kernel/exit.c\<close> and the system calls of \<open>kernel/sys.c\<close>.

  A new task structure is at the address of its page. \<open>copy_mem\<close> shares the pages of the parent, so that the data
  segment of the child shows the same bytes. \<open>fnsave\<close> stores the coprocessor state and then initialises the
  coprocessor.

  The properties are in the theories of process properties and of \<open>fork\<close>.
\<close>

record proc_st = fs_st +
  last_pid :: int
  prev_nr :: int

section \<open>fork.c\<close>

definition new_pid :: "int \<Rightarrow> int" where
  "new_pid n = (let m = s32 (n + 1) in if m < 0 then 1 else m)"

definition pid_taken :: "int \<Rightarrow> 'z sched_st_scheme \<Rightarrow> bool" where
  "pid_taken n s = list_ex (\<lambda>i. task s i \<noteq> 0 \<and> pid (ts s (task s i)) = n) [0..<NR_TASKS]"

definition pid_round :: "'z proc_st_scheme \<Rightarrow> ('z proc_st_scheme, unit option) kres" where
  "pid_round s =
     (let s1 = s\<lparr>last_pid := new_pid (last_pid s)\<rparr>
      in Ok (if pid_taken (last_pid s1) s1 then None else Some ()) s1)"

definition find_empty_process :: "'z proc_st_scheme \<Rightarrow> ('z proc_st_scheme, int) kres" where
  "find_empty_process s =
     bnd (retry pid_round s) (\<lambda>_ s.
       Ok (case find (\<lambda>i. task s i = 0) [1..<NR_TASKS] of Some i \<Rightarrow> int i | None \<Rightarrow> - EAGAIN) s)"

definition set_ldt_base :: "nat \<Rightarrow> nat \<Rightarrow> u32 \<Rightarrow> 'z sched_st_scheme \<Rightarrow> 'z sched_st_scheme" where
  "set_ldt_base p n base s = upd_task p (\<lambda>t. t\<lparr>ldt := (ldt t)(n := set_base base (ldt t n))\<rparr>) s"

definition copy_mem :: "nat \<Rightarrow> nat \<Rightarrow> 'z um_st_scheme \<Rightarrow> ('z um_st_scheme, int) kres" where
  "copy_mem nr p s =
     (let code_limit = get_limit (ldt (cur s) 1); data_limit = get_limit (ldt (cur s) 2);
          old_code_base = get_base (ldt (cur s) 1); old_data_base = get_base (ldt (cur s) 2);
          new_base = of_nat nr * 0x4000000
      in if old_data_base \<noteq> old_code_base then Panic ''We don't support separate I&D''
         else if data_limit < code_limit then Panic ''Bad data_limit''
         else
           bnd (copy_page_tables old_data_base new_base data_limit (set_ldt_base p 2 new_base (set_ldt_base p 1 new_base s)))
             (\<lambda>r s. if r \<noteq> 0 then bnd (free_page_tables new_base data_limit s) (\<lambda>_ s. Ok (- ENOMEM) s)
                    else Ok 0 (s\<lparr>umem := (umem s)(p := umem s (current s))\<rparr>)))"

record fork_regs =
  r_ebp :: u32
  r_edi :: u32
  r_esi :: u32
  r_gs :: u32
  r_ebx :: u32
  r_ecx :: u32
  r_edx :: u32
  r_fs :: u32
  r_es :: u32
  r_ds :: u32
  r_eip :: u32
  r_cs :: u32
  r_eflags :: u32
  r_esp :: u32
  r_ss :: u32

text \<open>The registers of the child, and the structure of the child before \<open>copy_mem\<close>.\<close>

definition LDT_sel :: "nat \<Rightarrow> u32" where
  "LDT_sel n = push_bit 4 (of_nat n) + push_bit 3 (of_nat FIRST_LDT_ENTRY)"

definition child_tss :: "nat \<Rightarrow> u32 \<Rightarrow> fork_regs \<Rightarrow> tss_struct \<Rightarrow> tss_struct" where
  "child_tss nr p r x = x\<lparr>back_link := 0, esp0 := 4096 + p, ss0 := 0x10, tss_eip := r_eip r, tss_eflags := r_eflags r,
     tss_eax := 0, tss_ecx := r_ecx r, tss_edx := r_edx r, tss_ebx := r_ebx r, tss_esp := r_esp r, tss_ebp := r_ebp r,
     tss_esi := r_esi r, tss_edi := r_edi r, tss_es := r_es r AND 0xffff, tss_cs := r_cs r AND 0xffff,
     tss_ss := r_ss r AND 0xffff, tss_ds := r_ds r AND 0xffff, tss_fs := r_fs r AND 0xffff, tss_gs := r_gs r AND 0xffff,
     tss_ldt := LDT_sel nr, trace_bitmap := 0x80000000\<rparr>"

definition child_task :: "nat \<Rightarrow> u32 \<Rightarrow> fork_regs \<Rightarrow> int \<Rightarrow> int \<Rightarrow> task_struct \<Rightarrow> task_struct" where
  "child_task nr p r n now t = t\<lparr>state := TASK_RUNNING, pid := n, father := pid t, counter := priority t, signal := 0,
     alarm := 0, leader := 0, utime := 0, stime := 0, cutime := 0, cstime := 0, start_time := now,
     tss := child_tss nr p r (tss t)\<rparr>"

definition count_files :: "nat \<Rightarrow> 'z fs_st_scheme \<Rightarrow> 'z fs_st_scheme" where
  "count_files p s =
     fold (\<lambda>i s. case filp (ts s p) i of None \<Rightarrow> s | Some f \<Rightarrow> upd_file f (\<lambda>x. x\<lparr>f_count := f_count x + 1\<rparr>) s) [0..<NR_OPEN] s"

definition count_inode :: "nat option \<Rightarrow> 'z fs_st_scheme \<Rightarrow> 'z fs_st_scheme" where
  "count_inode ip s = (case ip of None \<Rightarrow> s | Some i \<Rightarrow> upd_inode i (\<lambda>x. x\<lparr>i_count := i_count x + 1\<rparr>) s)"

text \<open>The offsets of \<open>ldt\<close> and \<open>tss\<close> in \<open>struct task_struct\<close> are 328 and 352.\<close>

definition copy_process :: "nat \<Rightarrow> fork_regs \<Rightarrow> 'z proc_st_scheme \<Rightarrow> ('z proc_st_scheme, int) kres" where
  "copy_process nr r s =
     (let (page, s1) = get_free_page s; p = unat page
      in if page = 0 then Ok (- EAGAIN) s1
         else
           let s2 = upd_task p (\<lambda>_. child_task nr page r (last_pid s1) (jiffies s1) (cur s1)) s1;
               s3 = (if last_task_used_math s2 = current s2
                     then (upd_task p (\<lambda>t. t\<lparr>tss := (tss t)\<lparr>i387 := fpu s2\<rparr>\<rparr>) s2)\<lparr>fpu := Fpu_init\<rparr> else s2)
           in bnd (copy_mem nr p s3) (\<lambda>e s.
                if e \<noteq> 0 then bnd (free_page page s) (\<lambda>_ s. Ok (- EAGAIN) s)
                else
                  let s4 = count_inode (root (cur s)) (count_inode (pwd (cur s)) (count_files p s));
                      s5 = set_gdt (2 * nr + FIRST_TSS_ENTRY) (tssldt_desc (page + 352) 0x89) s4;
                      s6 = set_gdt (2 * nr + FIRST_LDT_ENTRY) (tssldt_desc (page + 328) 0x82) s5
                  in Ok (last_pid s6) (s6\<lparr>task := (task s6)(nr := p)\<rparr>)))"

definition sys_fork :: "fork_regs \<Rightarrow> 'z proc_st_scheme \<Rightarrow> ('z proc_st_scheme, int) kres" where
  "sys_fork r s = bnd (find_empty_process s) (\<lambda>nr s. if nr < 0 then Ok nr s else copy_process (nat nr) r s)"

section \<open>exit.c\<close>

definition release :: "nat \<Rightarrow> 'z mm_st_scheme \<Rightarrow> ('z mm_st_scheme, unit) kres" where
  "release p s =
     (if p = 0 then Ok () s
      else case find (\<lambda>i. task s i = p) [1..<NR_TASKS] of
        None \<Rightarrow> Panic ''trying to release non-existent task''
      | Some i \<Rightarrow> bnd (free_page (of_nat p) (s\<lparr>task := (task s)(i := 0)\<rparr>)) (\<lambda>_ s. call_schedule s))"

definition may_signal :: "task_struct \<Rightarrow> task_struct \<Rightarrow> bool" where
  "may_signal c t \<longleftrightarrow> uid c = uid t \<or> euid c = uid t \<or> uid c = euid t \<or> euid c = euid t"

definition send_sig :: "int \<Rightarrow> nat \<Rightarrow> bool \<Rightarrow> 'z sched_st_scheme \<Rightarrow> 'z sched_st_scheme" where
  "send_sig sig p priv s =
     (if p = 0 \<or> sig < 1 \<or> sig > 32 then s
      else if priv \<or> may_signal (cur s) (ts s p) then upd_task p (\<lambda>t. t\<lparr>signal := signal t OR sigmask (nat sig)\<rparr>) s
      else s)"

text \<open>Which tasks \<open>do_kill\<close> addresses; a process number 0 asks for the group whose number is that of the caller.\<close>

definition kill_target :: "int \<Rightarrow> nat \<Rightarrow> 'z sched_st_scheme \<Rightarrow> bool" where
  "kill_target n p s \<longleftrightarrow>
     (if n = 0 then p \<noteq> 0 \<and> pgrp (ts s p) = pid (cur s)
      else if n > 0 then p \<noteq> 0 \<and> pid (ts s p) = n
      else if n = -1 then True
      else p \<noteq> 0 \<and> pgrp (ts s p) = s32 (- n))"

definition do_kill :: "int \<Rightarrow> int \<Rightarrow> bool \<Rightarrow> 'z sched_st_scheme \<Rightarrow> 'z sched_st_scheme" where
  "do_kill n sig priv s =
     fold (\<lambda>i s. if kill_target n (task s i) s then send_sig sig (task s i) priv s else s) slots_down s"

definition sys_kill :: "int \<Rightarrow> int \<Rightarrow> 'z sched_st_scheme \<Rightarrow> int \<times> 'z sched_st_scheme" where
  "sys_kill n sig s = (0, do_kill n sig (uid (cur s) = 0 \<and> euid (cur s) = 0) s)"

definition orphan :: "int \<Rightarrow> 'z sched_st_scheme \<Rightarrow> 'z sched_st_scheme" where
  "orphan n s =
     fold (\<lambda>i s. if task s i \<noteq> 0 \<and> father (ts s (task s i)) = n then upd_task (task s i) (\<lambda>t. t\<lparr>father := 0\<rparr>) s else s)
       [0..<NR_TASKS] s"

definition close_files :: "'z fs_st_scheme \<Rightarrow> ('z fs_st_scheme, unit) kres" where
  "close_files s =
     for_each [0..<NR_OPEN] (\<lambda>i s. if filp (cur s) i \<noteq> None then bnd (sys_close i s) (\<lambda>_ s. Ok () s) else Ok () s) s"

definition do_exit :: "int \<Rightarrow> 'z fs_st_scheme \<Rightarrow> ('z fs_st_scheme, int) kres" where
  "do_exit code s =
     bnd (free_page_tables (get_base (ldt (cur s) 1)) (get_limit (ldt (cur s) 1)) s) (\<lambda>_ s.
     bnd (free_page_tables (get_base (ldt (cur s) 2)) (get_limit (ldt (cur s) 2)) s) (\<lambda>_ s.
     bnd (close_files (orphan (pid (cur s)) s)) (\<lambda>_ s.
     bnd (iput (pwd (cur s)) s) (\<lambda>_ s.
     bnd (iput (root (cur s)) (upd_cur (\<lambda>t. t\<lparr>pwd := None\<rparr>) s)) (\<lambda>_ s.
       let s1 = upd_cur (\<lambda>t. t\<lparr>root := None\<rparr>) s;
           s2 = (if leader (cur s1) \<noteq> 0 \<and> tty (cur s1) \<ge> 0 then upd_tty (nat (tty (cur s1))) (\<lambda>y. y\<lparr>tty_pgrp := 0\<rparr>) s1 else s1);
           s3 = (if last_task_used_math s2 = current s2 then s2\<lparr>last_task_used_math := 0\<rparr> else s2)
       in bnd (if father (cur s3) \<noteq> 0
               then Ok () (upd_cur (\<lambda>t. t\<lparr>exit_code := code\<rparr>)
                      (do_kill (father (cur s3)) (int SIGCHLD) True (upd_cur (\<lambda>t. t\<lparr>state := TASK_ZOMBIE\<rparr>) s3)))
               else release (current s3) s3) (\<lambda>_ s.
          bnd (call_schedule s) (\<lambda>_ s. Ok (-1) s)))))))"

definition sys_exit :: "int \<Rightarrow> 'z fs_st_scheme \<Rightarrow> ('z fs_st_scheme, int) kres" where
  "sys_exit error_code s = do_exit (push_bit 8 (error_code AND 0xff)) s"

section \<open>waitpid\<close>

definition WNOHANG :: int where "WNOHANG = 1"

definition wait_child :: "int \<Rightarrow> nat \<Rightarrow> 'z sched_st_scheme \<Rightarrow> bool" where
  "wait_child n p s \<longleftrightarrow>
     p \<noteq> 0 \<and> p \<noteq> current s \<and>
     (n = -1 \<or> pid (ts s p) = n \<or> (n = 0 \<and> pgrp (ts s p) = pgrp (cur s)) \<or> (n < 0 \<and> pgrp (ts s p) = s32 (- n))) \<and>
     father (ts s p) = pid (cur s)"

text \<open>The first zombie among the children from slot 63 down, and whether a child was seen.\<close>

definition wait_zombie :: "int \<Rightarrow> 'z sched_st_scheme \<Rightarrow> nat option" where
  "wait_zombie n s = find (\<lambda>i. wait_child n (task s i) s \<and> state (ts s (task s i)) = TASK_ZOMBIE) slots_down"

definition wait_any :: "int \<Rightarrow> 'z sched_st_scheme \<Rightarrow> bool" where
  "wait_any n s = list_ex (\<lambda>i. wait_child n (task s i) s) slots_down"

definition reap :: "nat \<Rightarrow> u32 \<Rightarrow> 'z um_st_scheme \<Rightarrow> ('z um_st_scheme, int) kres" where
  "reap p stat_addr s =
     (let t = ts s p;
          s1 = put_fs_long (word_of_int (exit_code t)) stat_addr s;
          s2 = upd_cur (\<lambda>c. c\<lparr>cutime := s32 (cutime c + utime t), cstime := s32 (cstime c + stime t)\<rparr>) s1
      in bnd (release p s2) (\<lambda>_ s. Ok (pid t) s))"

text \<open>
  One round from the label \<open>repeat\<close>: the result of the call, or the state in which \<open>goto repeat\<close> is reached. \<open>flag\<close> says whether a child was
  seen in an earlier round.
\<close>

definition wait_round :: "int \<Rightarrow> u32 \<Rightarrow> int \<Rightarrow> bool \<Rightarrow> 'z um_st_scheme \<Rightarrow> ('z um_st_scheme, int) kres + 'z um_st_scheme" where
  "wait_round n stat_addr options flag s =
     (case wait_zombie n s of
        Some i \<Rightarrow> Inl (reap (task s i) stat_addr s)
      | None \<Rightarrow>
         if flag \<or> wait_any n s
         then if options AND WNOHANG \<noteq> 0 then Inl (Ok 0 s)
              else case sys_pause s of
                Ok _ s \<Rightarrow>
                  let s1 = upd_cur (\<lambda>t. t\<lparr>signal := signal t AND NOT (sigmask SIGCHLD)\<rparr>) s
                  in if signal (cur s1) = 0 then Inr s1 else Inl (Ok (- EINTR) s1)
              | Panic m \<Rightarrow> Inl (Panic m) | Die c s \<Rightarrow> Inl (Die c s) | Sleep s \<Rightarrow> Inl (Sleep s) | Hang \<Rightarrow> Inl Hang
         else Inl (Ok (- ECHILD) s))"

partial_function (option) wait_loop_pid :: "int \<Rightarrow> u32 \<Rightarrow> int \<Rightarrow> bool \<Rightarrow> 'z um_st_scheme \<Rightarrow> ('z um_st_scheme, int) kres option" where
  "wait_loop_pid n stat_addr options flag s =
     (case wait_round n stat_addr options flag s of Inl r \<Rightarrow> Some r | Inr s1 \<Rightarrow> wait_loop_pid n stat_addr options True s1)"

definition sys_waitpid :: "int \<Rightarrow> u32 \<Rightarrow> int \<Rightarrow> 'z um_st_scheme \<Rightarrow> ('z um_st_scheme, int) kres" where
  "sys_waitpid n stat_addr options s =
     bnd (verify_area stat_addr 4 s) (\<lambda>_ s. ended (wait_loop_pid n stat_addr options False s))"

end
