(* ===== verification/Sys_Calls.thy ===== *)
theory Sys_Calls
  imports Process
begin

text \<open>
  The system calls of \<open>kernel/sys.c\<close>: identities, times, the break, groups and sessions, names, and the calls that
  are not implemented.
\<close>

section \<open>Calls that are not implemented\<close>

definition sys_ftime :: int where "sys_ftime = - ENOSYS"
definition sys_mknod :: int where "sys_mknod = - ENOSYS"
definition sys_break :: int where "sys_break = - ENOSYS"
definition sys_mount :: int where "sys_mount = - ENOSYS"
definition sys_umount :: int where "sys_umount = - ENOSYS"
definition sys_ustat :: int where "sys_ustat = -1"
definition sys_ptrace :: int where "sys_ptrace = - ENOSYS"
definition sys_stty :: int where "sys_stty = - ENOSYS"
definition sys_gtty :: int where "sys_gtty = - ENOSYS"
definition sys_rename :: int where "sys_rename = - ENOSYS"
definition sys_prof :: int where "sys_prof = - ENOSYS"
definition sys_acct :: int where "sys_acct = - ENOSYS"
definition sys_phys :: int where "sys_phys = - ENOSYS"
definition sys_lock :: int where "sys_lock = - ENOSYS"
definition sys_mpx :: int where "sys_mpx = - ENOSYS"
definition sys_ulimit :: int where "sys_ulimit = - ENOSYS"

definition sys_null :: "int \<Rightarrow> 'z proc_st_scheme \<Rightarrow> int \<times> 'z proc_st_scheme" where
  "sys_null nr s =
     (if nr = 174 \<or> nr = 175 then (- ENOSYS, s)
      else (- ENOSYS, if prev_nr s \<noteq> nr then s\<lparr>prev_nr := nr\<rparr> else s))"

definition sys_oldolduname :: "'z sched_st_scheme \<Rightarrow> int \<times> 'z sched_st_scheme" where
  "sys_oldolduname s = (- ENOSYS, printk ''calling obsolete system call oldolduname'' [] s)"

section \<open>Identities\<close>

definition sys_setgid :: "int \<Rightarrow> 'z sched_st_scheme \<Rightarrow> int \<times> 'z sched_st_scheme" where
  "sys_setgid g s =
     (let t = cur s
      in if euid t \<noteq> 0 \<and> uid t \<noteq> 0
         then if uint (gid t) = g \<or> uint (sgid t) = g then (0, upd_cur (\<lambda>t. t\<lparr>egid := word_of_int g\<rparr>) s)
              else (- EPERM, s)
         else (0, upd_cur (\<lambda>t. t\<lparr>gid := word_of_int g, egid := word_of_int g\<rparr>) s))"

definition sys_setuid :: "int \<Rightarrow> 'z sched_st_scheme \<Rightarrow> int \<times> 'z sched_st_scheme" where
  "sys_setuid u s =
     (let t = cur s
      in if euid t \<noteq> 0 \<and> uid t \<noteq> 0
         then if u = uint (uid t) \<or> suid t = uid t then (0, upd_cur (\<lambda>t. t\<lparr>euid := word_of_int u\<rparr>) s)
              else (- EPERM, s)
         else (0, upd_cur (\<lambda>t. t\<lparr>euid := word_of_int u, uid := word_of_int u\<rparr>) s))"

section \<open>Times\<close>

definition sys_time :: "u32 \<Rightarrow> 'z um_st_scheme \<Rightarrow> ('z um_st_scheme, int) kres" where
  "sys_time tloc s =
     (let i = CURRENT_TIME s
      in if tloc \<noteq> 0 then bnd (verify_area tloc 4 s) (\<lambda>_ s. Ok i (put_fs_long (word_of_int i) tloc s)) else Ok i s)"

definition sys_stime :: "u32 \<Rightarrow> 'z um_st_scheme \<Rightarrow> int \<times> 'z um_st_scheme" where
  "sys_stime tptr s =
     (if euid (cur s) \<noteq> 0 \<and> uid (cur s) \<noteq> 0 then (-1, s)
      else (0, s\<lparr>startup_time := s32 (uint (get_fs_long tptr s) - (jiffies s sdiv HZ))\<rparr>))"

definition sys_times :: "u32 \<Rightarrow> 'z um_st_scheme \<Rightarrow> ('z um_st_scheme, int) kres" where
  "sys_times tbuf s =
     (if tbuf = 0 then Ok (jiffies s) s
      else bnd (verify_area tbuf 16 s) (\<lambda>_ s.
        let t = cur s; put = (\<lambda>v. put_fs_long (word_of_int v))
        in Ok (jiffies s) (put (cstime t) (tbuf + 12) (put (cutime t) (tbuf + 8) (put (stime t) (tbuf + 4) (put (utime t) tbuf s))))))"

section \<open>Memory, groups and sessions\<close>

definition sys_brk :: "u32 \<Rightarrow> 'z sched_st_scheme \<Rightarrow> int \<times> 'z sched_st_scheme" where
  "sys_brk end_data_seg s =
     (let s1 = (if end_data_seg \<ge> end_code (cur s) \<and> end_data_seg < start_stack (cur s) - 16384
                then upd_cur (\<lambda>t. t\<lparr>brk := end_data_seg\<rparr>) s else s)
      in (sint (brk (cur s1)), s1))"

definition sys_setpgid :: "int \<Rightarrow> int \<Rightarrow> 'z sched_st_scheme \<Rightarrow> int \<times> 'z sched_st_scheme" where
  "sys_setpgid pid0 pgid0 s =
     (let n = (if pid0 = 0 then pid (cur s) else pid0);
          g = (if pgid0 = 0 then n else pgid0)
      in case find (\<lambda>i. task s i \<noteq> 0 \<and> pid (ts s (task s i)) = n) [0..<NR_TASKS] of
           None \<Rightarrow> (- ESRCH, s)
         | Some i \<Rightarrow>
             let p = task s i
             in if leader (ts s p) \<noteq> 0 then (- EPERM, s)
                else if session (ts s p) \<noteq> session (cur s) then (- EPERM, s)
                else (0, upd_task p (\<lambda>t. t\<lparr>pgrp := g\<rparr>) s))"

definition sys_getpgrp :: "'z sched_st_scheme \<Rightarrow> int" where
  "sys_getpgrp s = pgrp (cur s)"

definition sys_setsid :: "'z sched_st_scheme \<Rightarrow> int \<times> 'z sched_st_scheme" where
  "sys_setsid s =
     (if uid (cur s) \<noteq> 0 \<and> euid (cur s) \<noteq> 0 then (- EPERM, s)
      else if leader (cur s) \<noteq> 0 then (- EPERM, s)
      else
        let s1 = upd_cur (\<lambda>t. t\<lparr>leader := 1, session := pid t, pgrp := pid t, tty := -1\<rparr>) s
        in (pgrp (cur s1), s1))"

definition sys_umask :: "int \<Rightarrow> 'z sched_st_scheme \<Rightarrow> int \<times> 'z sched_st_scheme" where
  "sys_umask m s = (uint (umask (cur s)), upd_cur (\<lambda>t. t\<lparr>umask := word_of_int (m AND 0x1ff)\<rparr>) s)"

section \<open>uname\<close>

text \<open>The six fields of 65 bytes of \<open>struct utsname\<close>, filled up with zeros.\<close>

definition uts_field :: "string \<Rightarrow> u8 list" where
  "uts_field t = map ch t @ replicate (65 - length t) 0"

definition thisname :: "u8 list" where
  "thisname = uts_field ''Rhee Creatives Linux v1.0'' @ uts_field ''Extreme Performance'' @ uts_field ''1.0-RHEE'' @
     uts_field ''20260125'' @ uts_field ''i386'' @ uts_field ''''"

definition sys_uname :: "u32 \<Rightarrow> 'z tty_st_scheme \<Rightarrow> ('z tty_st_scheme, int) kres" where
  "sys_uname name s =
     (if name = 0 then Ok (-1) s
      else bnd (verify_area name 390 s) (\<lambda>_ s. Ok 0 (put_fs_bytes thisname name s)))"

end
