(* ===== verification/File_Dev.thy ===== *)
theory File_Dev
  imports Inode_View
begin

text \<open>
  Reading and writing regular files, \<open>fs/file_dev.c\<close>.

  The loops are bounded by the number of bytes, because every round moves at least one. A negative position, which
  \<open>sys_lseek\<close> refuses and for which the code would access memory in front of the block, is the outcome \<open>Hang\<close>.
\<close>

definition O_APPEND :: u16 where "O_APPEND = 0x400"

definition zero_user :: "nat \<Rightarrow> u32 \<Rightarrow> 'z fs_st_scheme \<Rightarrow> 'z fs_st_scheme" where
  "zero_user n buf s = fold (\<lambda>i s. put_fs_byte 0 (buf + of_nat i) s) [0..<n] s"

text \<open>The block under the file position: \<open>None\<close> is a read error, \<open>Some None\<close> a hole.\<close>

definition file_block :: "nat \<Rightarrow> int \<Rightarrow> 'z fs_st_scheme \<Rightarrow> ('z fs_st_scheme, nat option option) kres" where
  "file_block i fpos s =
     bnd (bmap i (fpos sdiv 1024) s) (\<lambda>nr s.
       if nr = 0 then Ok (Some None) s
       else bnd (bread (uint (i_dev (inode_table s i))) nr s) (\<lambda>r s. Ok (map_option Some r) s))"

fun file_read_loop :: "nat \<Rightarrow> nat \<Rightarrow> nat \<Rightarrow> u32 \<Rightarrow> int \<Rightarrow> 'z fs_st_scheme \<Rightarrow> ('z fs_st_scheme, int) kres" where
  "file_read_loop i f 0 buf left s = Ok left s"
| "file_read_loop i f (Suc rounds) buf left s =
     (if left = 0 then Ok left s
      else bnd (file_block i (f_pos (file_table s f)) s) (\<lambda>r s.
        case r of None \<Rightarrow> Ok left s
        | Some b \<Rightarrow>
           let nr = f_pos (file_table s f) smod 1024;
               chars = min (1024 - nr) left;
               s1 = upd_file f (\<lambda>x. x\<lparr>f_pos := s32 (f_pos x + chars)\<rparr>) s;
               n = nat chars
           in if nr < 0 then Hang
              else
                bnd (case b of Some b \<Rightarrow> brelse (Some b) (copy_to_user b (nat nr) n buf s1)
                     | None \<Rightarrow> Ok () (zero_user n buf s1))
                  (\<lambda>_ s. file_read_loop i f rounds (buf + of_nat n) (left - chars) s)))"

definition file_read :: "nat \<Rightarrow> nat \<Rightarrow> u32 \<Rightarrow> int \<Rightarrow> 'z fs_st_scheme \<Rightarrow> ('z fs_st_scheme, int) kres" where
  "file_read i f buf count s =
     (if count \<le> 0 then Ok 0 s
      else bnd (file_read_loop i f (nat count) buf count s) (\<lambda>left s.
             Ok (if count - left \<noteq> 0 then count - left else - ERROR)
               (upd_inode i (\<lambda>x. x\<lparr>i_atime := now32 s\<rparr>) s)))"

text \<open>The result is the number of bytes written and the position.\<close>

fun file_write_loop :: "nat \<Rightarrow> nat \<Rightarrow> u32 \<Rightarrow> int \<Rightarrow> int \<Rightarrow> int \<Rightarrow> 'z fs_st_scheme \<Rightarrow> ('z fs_st_scheme, int \<times> int) kres" where
  "file_write_loop i 0 buf done fpos count s = Ok (done, fpos) s"
| "file_write_loop i (Suc rounds) buf done fpos count s =
     (if done \<ge> count then Ok (done, fpos) s
      else bnd (create_block i (fpos sdiv 1024) s) (\<lambda>block s.
        if block = 0 then Ok (done, fpos) s
        else bnd (bread (uint (i_dev (inode_table s i))) block s) (\<lambda>r s.
          case r of None \<Rightarrow> Ok (done, fpos) s
          | Some b \<Rightarrow>
             let c = fpos smod 1024;
                 n = min (1024 - c) (count - done);
                 fpos' = s32 (fpos + n);
                 s1 = upd_bh b (\<lambda>x. x\<lparr>b_dirt := 1\<rparr>) s;
                 s2 = (if uw fpos' > uint (i_size (inode_table s1 i))
                       then upd_inode i (\<lambda>x. x\<lparr>i_size := word_of_int fpos', i_dirt := 1\<rparr>) s1 else s1)
             in if c < 0 then Hang
                else
                  bnd (brelse (Some b) (copy_from_user b (nat c) (nat n) buf s2)) (\<lambda>_ s.
                    file_write_loop i rounds (buf + of_nat (nat n)) (done + n) fpos' count s))))"

definition file_write :: "nat \<Rightarrow> nat \<Rightarrow> u32 \<Rightarrow> int \<Rightarrow> 'z fs_st_scheme \<Rightarrow> ('z fs_st_scheme, int) kres" where
  "file_write i f buf count s =
     (let app = f_flags (file_table s f) AND O_APPEND \<noteq> 0;
          fpos = (if app then s32 (uint (i_size (inode_table s i))) else f_pos (file_table s f))
      in bnd (file_write_loop i (nat count) buf 0 fpos count s) (\<lambda>r s.
         case r of (done, fpos) \<Rightarrow>
           let s1 = upd_inode i (\<lambda>x. x\<lparr>i_mtime := now32 s\<rparr>) s;
               s2 = (if f_flags (file_table s1 f) AND O_APPEND = 0
                     then upd_inode i (\<lambda>x. x\<lparr>i_ctime := now32 s1\<rparr>) (upd_file f (\<lambda>x. x\<lparr>f_pos := fpos\<rparr>) s1) else s1)
           in Ok (if done \<noteq> 0 then done else -1) s2))"

section \<open>Storing bytes in user memory\<close>

lemma fold_put_user:
  "(\<And>i v m. g i (s\<lparr>umem := m\<rparr>) = g i s) \<Longrightarrow>
   fold (\<lambda>i s. put_fs_byte (g i s) (buf + of_nat i) s) [0..<n] s =
     s\<lparr>umem := (umem s)(current s := write_mem buf (map (\<lambda>i. g i s) [0..<n]) (umem s (current s)))\<rparr>"
proof (induction n)
  case (Suc n)
  then show ?case by (simp add: put_fs_byte_def write_mem_snoc fun_upd_def fun_eq_iff)
qed simp

lemma zero_user_eq:
  "zero_user n buf s = s\<lparr>umem := (umem s)(current s := write_mem buf (replicate n 0) (umem s (current s)))\<rparr>"
  using fold_put_user [of "\<lambda>_ _. 0" s buf n] by (simp add: zero_user_def map_replicate_const)

lemma copy_to_user_eq:
  assumes "off + n \<le> 1024"
  shows "copy_to_user b off n buf s =
    s\<lparr>umem := (umem s)(current s := write_mem buf (map (\<lambda>i. b_data (bh s b) (off + i)) [0..<n]) (umem s (current s)))\<rparr>"
proof -
  have "fold (\<lambda>i s. put_fs_byte (data_get b (off + i) s) (buf + of_nat i) s) [0..<n] s =
      s\<lparr>umem := (umem s)(current s := write_mem buf (map (\<lambda>i. data_get b (off + i) s) [0..<n]) (umem s (current s)))\<rparr>"
    by (rule fold_put_user) (simp add: data_get_def ldb_def)
  moreover have "map (\<lambda>i. data_get b (off + i) s) [0..<n] = map (\<lambda>i. b_data (bh s b) (off + i)) [0..<n]"
    using assms by (simp add: data_get_def BLOCK_SIZE_def)
  ultimately show ?thesis by (simp add: copy_to_user_def)
qed

section \<open>Reading a file\<close>

text \<open>Byte \<open>p\<close> of a file; a hole reads as zero.\<close>

definition file_byte :: "(u16 \<Rightarrow> bool) \<Rightarrow> (u16 \<Rightarrow> nat \<Rightarrow> u8) \<Rightarrow> m_inode \<Rightarrow> nat \<Rightarrow> u8" where
  "file_byte T V x p = (let z = file_zone T V x (p div 1024) in if z = 0 then 0 else V z (p mod 1024))"

definition MAX_FILE :: nat where "MAX_FILE = (7 + 512 + 512 * 512) * 1024"

definition zones_there :: "(u16 \<Rightarrow> bool) \<Rightarrow> (u16 \<Rightarrow> nat \<Rightarrow> u8) \<Rightarrow> m_inode \<Rightarrow> bool" where
  "zones_there T V x \<longleftrightarrow> (\<forall>n < 7 + 512 + 512 * 512. file_zone T V x n \<noteq> 0 \<longrightarrow> T (file_zone T V x n))"

lemma pos_sdiv: "int p sdiv 1024 = int (p div 1024)" "int p smod 1024 = int (p mod 1024)"
  by (cases "p = 0"; simp add: signed_divide_int_def signed_modulo_int_def zdiv_int zmod_int)+

lemma file_block_ok:
  assumes r: "bc_ready D dv s" and i: "i_dev (inode_table s i) = dv" and p: "p < MAX_FILE"
    and z: "zones_there (\<lambda>z. block_there dv z s) (block_of D dv s) (inode_table s i)"
  shows "\<exists>b t. file_block i (int p) s = Ok (Some b) t \<and> kept UNIV s t \<and>
    (\<forall>m. \<forall>k < 1024. block_of D dv t m k = block_of D dv s m k) \<and>
    (case b of None \<Rightarrow> bc_ready D dv t \<and> file_zone (\<lambda>z. block_there dv z s) (block_of D dv s) (inode_table s i) (p div 1024) = 0
     | Some b \<Rightarrow> bc_held D dv (file_zone (\<lambda>z. block_there dv z s) (block_of D dv s) (inode_table s i) (p div 1024)) b t \<and>
        file_zone (\<lambda>z. block_there dv z s) (block_of D dv s) (inode_table s i) (p div 1024) \<noteq> 0)"
proof -
  let ?z = "file_zone (\<lambda>z. block_there dv z s) (block_of D dv s) (inode_table s i) (p div 1024)"
  have pd: "p div 1024 < 7 + 512 + 512 * 512" using p by (simp add: MAX_FILE_def less_mult_imp_div_less)
  note div = pos_sdiv [of p]
  obtain t where t: "bmap i (int (p div 1024)) s = Ok (uint ?z) t" "reads_only D dv s t" using bmap_ok [OF r i pd] by blast
  have kt: "kept UNIV s t" "bc_ready D dv t" using t(2) by (auto simp: reads_only_def)
  show ?thesis
  proof (cases "?z = 0")
    case True
    then show ?thesis using t by (intro exI [of _ None] exI [of _ t]) (simp add: file_block_def div reads_only_def)
  next
    case False
    have "block_there dv ?z t" using z pd False kept_tables(4) [OF kt(1)] by (simp add: zones_there_def)
    then obtain b u where u: "bread (uint dv) (uint ?z) t = Ok (Some b) u" "bc_held D dv ?z b u" "kept UNIV t u"
      "\<forall>m. \<forall>k < 1024. block_of D dv u m k = block_of D dv t m k" using cache.fetch_there [OF kt(2)] by blast
    have "uint ?z \<noteq> 0" using False by (simp add: unsigned_eq_0_iff)
    then have "file_block i (int p) s = Ok (Some (Some b)) u"
      using t(1) u(1) i kept_tables(1) [OF kt(1)] by (simp add: file_block_def div)
    then show ?thesis
      using u t(2) False kept_trans [OF kt(1) u(3)] by (intro exI [of _ "Some b"] exI [of _ u]) (simp add: reads_only_def)
  qed
qed

text \<open>
  The effect of reading: the position moves by the number of bytes, the bytes are stored at the buffer of the caller,
  and nothing else that a caller can see has changed.
\<close>

definition read_to :: "(bool \<Rightarrow> nat \<Rightarrow> nat \<Rightarrow> u8) \<Rightarrow> u16 \<Rightarrow> nat \<Rightarrow> u32 \<Rightarrow> u8 list \<Rightarrow> 'z fs_st_scheme \<Rightarrow> 'z fs_st_scheme \<Rightarrow> bool" where
  "read_to D dv f buf bs s t \<longleftrightarrow> bc_ready D dv t \<and> inode_table t = inode_table s \<and>
     file_table t = (file_table s)(f := (file_table s f)\<lparr>f_pos := f_pos (file_table s f) + int (length bs)\<rparr>) \<and>
     umem t = (umem s)(current s := write_mem buf bs (umem s (current s))) \<and> current t = current s \<and>
     nr_sects t = nr_sects s \<and> now32 t = now32 s \<and> (\<forall>m. \<forall>k < 1024. block_of D dv t m k = block_of D dv s m k)"

lemma read_to_trans:
  "read_to D dv f buf bs s t \<Longrightarrow> read_to D dv f (buf + of_nat (length bs)) cs t u \<Longrightarrow> read_to D dv f buf (bs @ cs) s u"
  by (auto simp: read_to_def write_mem_append)

text \<open>The bytes of a file from position \<open>p\<close> on, in a state of the file system.\<close>

definition file_bytes :: "(bool \<Rightarrow> nat \<Rightarrow> nat \<Rightarrow> u8) \<Rightarrow> u16 \<Rightarrow> nat \<Rightarrow> 'z fs_st_scheme \<Rightarrow> nat \<Rightarrow> nat \<Rightarrow> u8 list" where
  "file_bytes D dv i s p n = map (\<lambda>k. file_byte (\<lambda>z. block_there dv z s) (block_of D dv s) (inode_table s i) (p + k)) [0..<n]"

definition file_there :: "(bool \<Rightarrow> nat \<Rightarrow> nat \<Rightarrow> u8) \<Rightarrow> u16 \<Rightarrow> nat \<Rightarrow> 'z fs_st_scheme \<Rightarrow> bool" where
  "file_there D dv i s \<longleftrightarrow> i_dev (inode_table s i) = dv \<and>
     zones_there (\<lambda>z. block_there dv z s) (block_of D dv s) (inode_table s i)"

lemma file_view_cong:
  assumes "inode_table t = inode_table s" "nr_sects t = nr_sects s" "\<forall>m. \<forall>k < 1024. block_of D dv t m k = block_of D dv s m k"
  shows "p + n \<le> MAX_FILE \<Longrightarrow> file_bytes D dv i t p n = file_bytes D dv i s p n" "file_there D dv i t = file_there D dv i s"
proof -
  have b: "block_there dv z t = block_there dv z s" for z using assms(2) by (simp add: block_there_def)
  have z: "file_zone (\<lambda>z. block_there dv z t) (block_of D dv t) x n = file_zone (\<lambda>z. block_there dv z s) (block_of D dv s) x n"
    if "n < 7 + 512 + 512 * 512" for x n using assms(3) b by (intro file_zone_cong [OF that]) auto
  show "file_there D dv i t = file_there D dv i s" using z by (simp add: file_there_def zones_there_def assms(1) b)
  assume p: "p + n \<le> MAX_FILE"
  have "(p + k) div 1024 < 7 + 512 + 512 * 512" if "k < n" for k using that p by (simp add: MAX_FILE_def less_mult_imp_div_less)
  then show "file_bytes D dv i t p n = file_bytes D dv i s p n"
    using z assms(3) by (auto simp: file_bytes_def file_byte_def assms(1) Let_def)
qed

lemma file_bytes_split: "file_bytes D dv i s p (a + b) = file_bytes D dv i s p a @ file_bytes D dv i s (p + a) b"
proof -
  have "map f [0..<a + b] = map f [0..<a] @ map (\<lambda>k. f (a + k)) [0..<b]" for f :: "nat \<Rightarrow> u8"
  proof -
    have "[0..<a + b] = [0..<a] @ map (\<lambda>k. k + a) [0..<b]"
      unfolding map_add_upt using upt_add_eq_append [of 0 a b] by (simp only: le0 add.commute)
    then show ?thesis by (simp only: map_append map_map comp_def add.commute)
  qed
  then show ?thesis by (simp only: file_bytes_def add.assoc)
qed

lemma file_bytes_block:
  "p mod 1024 + n \<le> 1024 \<Longrightarrow> file_bytes D dv i s p n =
     (let z = file_zone (\<lambda>z. block_there dv z s) (block_of D dv s) (inode_table s i) (p div 1024)
      in map (\<lambda>k. if z = 0 then 0 else block_of D dv s z (p mod 1024 + k)) [0..<n])"
proof -
  assume a: "p mod 1024 + n \<le> 1024"
  have "(p + k) div 1024 = p div 1024" "(p + k) mod 1024 = p mod 1024 + k" if "k < n" for k
  proof -
    have "p + k = (p mod 1024 + k) + p div 1024 * 1024" "p mod 1024 + k < 1024" using that a by auto
    then show "(p + k) div 1024 = p div 1024" "(p + k) mod 1024 = p mod 1024 + k" by (metis div_mult_self1 div_less add.commute add.right_neutral zero_neq_numeral, metis mod_mult_self1 mod_less)
  qed
  then show ?thesis by (simp add: file_bytes_def file_byte_def Let_def)
qed

text \<open>What one round stores: the rest of the block under the position, or as much as is wanted.\<close>

lemma file_read_round:
  assumes r: "bc_ready D dv s" and ft: "file_there D dv i s" and p: "f_pos (file_table s f) = int p" "p + n \<le> MAX_FILE" "0 < n"
    and c: "c = min (1024 - p mod 1024) n"
  shows "\<exists>t. file_read_loop i f (Suc rounds) buf (int n) s = file_read_loop i f rounds (buf + of_nat c) (int (n - c)) t \<and>
    read_to D dv f buf (file_bytes D dv i s p c) s t"
proof -
  let ?z = "file_zone (\<lambda>z. block_there dv z s) (block_of D dv s) (inode_table s i) (p div 1024)"
  have pm: "p < MAX_FILE" using p by simp
  note ft' = ft [unfolded file_there_def]
  obtain b t where t: "file_block i (int p) s = Ok (Some b) t" "kept UNIV s t"
    "\<forall>m. \<forall>k < 1024. block_of D dv t m k = block_of D dv s m k"
    "case b of None \<Rightarrow> bc_ready D dv t \<and> ?z = 0 | Some b \<Rightarrow> bc_held D dv ?z b t \<and> ?z \<noteq> 0"
    using file_block_ok [OF r conjunct1 [OF ft'] pm conjunct2 [OF ft']] by blast
  note kt = kept_tables [OF t(2)] and ks = kept_sel [OF t(2)]
  define t1 where "t1 = upd_file f (\<lambda>x. x\<lparr>f_pos := s32 (f_pos x + int c)\<rparr>) t"
  have t1: "file_table t1 = (file_table s)(f := (file_table s f)\<lparr>f_pos := int p + int c\<rparr>)" "inode_table t1 = inode_table s"
    "umem t1 = umem s" "current t1 = current s" "nr_sects t1 = nr_sects s" "now32 t1 = now32 s" "bh t1 = bh t"
    using kt ks p c by (simp_all add: t1_def upd_file_def s32_id MAX_FILE_def now32_def CURRENT_TIME_def)
  have c1: "p mod 1024 + c \<le> 1024" "min (1024 - int (p mod 1024)) (int n) = int c" using c by auto
  have cn: "c \<le> n" using c by simp
  define bs where "bs = file_bytes D dv i s p c"
  have len: "length bs = c" by (simp add: bs_def file_bytes_def)
  have step: "file_read_loop i f (Suc rounds) buf (int n) s =
      bnd (case b of Some b \<Rightarrow> brelse (Some b) (copy_to_user b (p mod 1024) c buf t1) | None \<Rightarrow> Ok () (zero_user c buf t1))
        (\<lambda>_ s. file_read_loop i f rounds (buf + of_nat c) (int (n - c)) s)"
    using t(1) p(1,3) kt(3) c1(2) cn by (cases b) (simp_all add: pos_sdiv Let_def t1_def of_nat_diff)
  show ?thesis
  proof (cases b)
    case None
    have z: "?z = 0" "bc_ready D dv t" using t(4) None by auto
    have bs: "bs = replicate c 0" using z(1) c1(1) by (simp add: bs_def file_bytes_block Let_def map_replicate_const)
    define u where "u = zero_user c buf t1"
    have "read_to D dv f buf bs s u"
      using t1 t(3) z(2) len p(1) same_hd_cache [of t u] bs
      unfolding read_to_def u_def zero_user_eq
      by (simp add: t1_def same_hd_def upd_file_def cur_def now32_def CURRENT_TIME_def)
    then show ?thesis using step None by (intro exI [of _ u]) (simp add: u_def bs_def)
  next
    case (Some b')
    have z: "?z \<noteq> 0" "bc_held D dv ?z b' t" using t(4) Some by auto
    have bs: "bs = map (\<lambda>k. b_data (bh t1 b') (p mod 1024 + k)) [0..<c]"
      using z(1) c1(1) cache.contents_view [OF z(2)] t(3) t1(7) by (simp add: bs_def file_bytes_block Let_def)
    define u where "u = copy_to_user b' (p mod 1024) c buf t1"
    have ue: "u = t1\<lparr>umem := (umem t1)(current t1 := write_mem buf bs (umem t1 (current t1)))\<rparr>"
      unfolding u_def copy_to_user_eq [OF c1(1)] bs ..
    have su: "same_hd t u" by (simp add: ue t1_def same_hd_def upd_file_def cur_def)
    have "bc_held D dv ?z b' u" using z(2) same_hd_held [OF su] by simp
    then obtain v where v: "brelse (Some b') u = Ok () v" "bc_ready D dv v" "kept UNIV u v" "block_of D dv v = block_of D dv u"
      using cache.release_ok by blast
    note kv = kept_tables [OF v(3)] and kw = kept_sel [OF v(3)]
    have "read_to D dv f buf bs s v"
      unfolding read_to_def using v(2,4) kv kw t1 t(3) len p(1) same_hd_cache(2) [OF su]
      by (simp add: ue now32_def CURRENT_TIME_def)
    then show ?thesis using step Some v(1) by (intro exI [of _ v]) (simp add: u_def bs_def)
  qed
qed

lemma read_to_refl: "bc_ready D dv s \<Longrightarrow> read_to D dv f buf [] s s"
proof -
  have "x\<lparr>f_pos := f_pos x\<rparr> = x" for x :: file_struct by (cases x) simp
  then show "bc_ready D dv s \<Longrightarrow> read_to D dv f buf [] s s" by (simp add: read_to_def)
qed

lemma file_read_loop_ok:
  "bc_ready D dv s \<Longrightarrow> file_there D dv i s \<Longrightarrow> f_pos (file_table s f) = int p \<Longrightarrow> p + n \<le> MAX_FILE \<Longrightarrow> n \<le> rounds \<Longrightarrow>
   \<exists>t. file_read_loop i f rounds buf (int n) s = Ok 0 t \<and> read_to D dv f buf (file_bytes D dv i s p n) s t"
proof (induction rounds arbitrary: n p buf s)
  case (Suc rounds)
  show ?case
  proof (cases "n = 0")
    case True
    then show ?thesis using Suc.prems read_to_refl by (intro exI [of _ s]) (simp add: file_bytes_def)
  next
    case False
    define c where "c = min (1024 - p mod 1024) n"
    have "p mod 1024 < 1024" by simp
    then have c: "0 < c" "c \<le> n" using False by (simp_all add: c_def)
    obtain t where t: "file_read_loop i f (Suc rounds) buf (int n) s = file_read_loop i f rounds (buf + of_nat c) (int (n - c)) t"
      "read_to D dv f buf (file_bytes D dv i s p c) s t"
      using file_read_round [OF Suc.prems(1,2,3,4) _ c_def, of rounds buf] False by auto
    have len: "length (file_bytes D dv i s p c) = c" by (simp add: file_bytes_def)
    have tt: "bc_ready D dv t" "inode_table t = inode_table s" "nr_sects t = nr_sects s" "f_pos (file_table t f) = int (p + c)"
      "\<forall>m. \<forall>k < 1024. block_of D dv t m k = block_of D dv s m k"
      using t(2) Suc.prems(3) len by (auto simp: read_to_def)
    note v = file_view_cong [OF tt(2,3,5)]
    have pc: "(p + c) + (n - c) \<le> MAX_FILE" "n - c \<le> rounds" using Suc.prems(4,5) c by simp_all
    have ft: "file_there D dv i t" using v(2) Suc.prems(2) by simp
    from Suc.IH [OF tt(1) ft tt(4) pc, of "buf + of_nat c"] obtain u where
      u: "file_read_loop i f rounds (buf + of_nat c) (int (n - c)) t = Ok 0 u"
      "read_to D dv f (buf + of_nat c) (file_bytes D dv i t (p + c) (n - c)) t u" by blast
    have "file_bytes D dv i s p n = file_bytes D dv i s p c @ file_bytes D dv i t (p + c) (n - c)"
      using file_bytes_split [of D dv i s p c "n - c"] c v(1) [OF pc(1)] by simp
    then show ?thesis using t(1) u read_to_trans [OF t(2)] len by (intro exI [of _ u]) simp
  qed
qed (auto simp: file_bytes_def read_to_refl)

text \<open>
  Reading \<open>n\<close> bytes of a file at position \<open>p\<close> ends, returns \<open>n\<close>, stores the bytes of the file (zeros for holes, and
  through direct, indirect and doubly indirect zones) in the caller's buffer and advances the position by \<open>n\<close>; it
  changes no block, and of the inode only the access time.
\<close>

theorem file_read_ok:
  assumes "bc_ready D dv s" "file_there D dv i s" "f_pos (file_table s f) = int p" "p + n \<le> MAX_FILE" "0 < n"
  shows "\<exists>t. file_read i f buf (int n) s = Ok (int n) t \<and> bc_ready D dv t \<and>
    (\<forall>k < n. get_fs_byte (buf + of_nat k) t = file_byte (\<lambda>z. block_there dv z s) (block_of D dv s) (inode_table s i) (p + k)) \<and>
    f_pos (file_table t f) = int (p + n) \<and> inode_table t = (inode_table s)(i := (inode_table s i)\<lparr>i_atime := now32 s\<rparr>) \<and>
    (\<forall>m. \<forall>k < 1024. block_of D dv t m k = block_of D dv s m k)"
proof -
  let ?bs = "file_bytes D dv i s p n"
  obtain t where t: "file_read_loop i f n buf (int n) s = Ok 0 t" "read_to D dv f buf ?bs s t"
    using file_read_loop_ok [OF assms(1,2,3,4)] by blast
  have len: "length ?bs = n" "length ?bs < 2 ^ 32" using assms(4) by (simp_all add: file_bytes_def MAX_FILE_def)
  have "get_fs_byte (buf + of_nat k) t = ?bs ! k" if "k < n" for k
    using write_mem_get [OF len(2), of k buf] that len(1) t(2) by (simp add: read_to_def get_fs_byte_def)
  then have "get_fs_byte (buf + of_nat k) t = file_byte (\<lambda>z. block_there dv z s) (block_of D dv s) (inode_table s i) (p + k)" if "k < n" for k
    using that by (simp add: file_bytes_def)
  moreover have "file_read i f buf (int n) s = Ok (int n) (upd_inode i (\<lambda>x. x\<lparr>i_atime := now32 t\<rparr>) t)"
    using t(1) assms(5) by (simp add: file_read_def)
  ultimately show ?thesis
    using t(2) assms(3) len(1) by (intro exI [of _ "upd_inode i (\<lambda>x. x\<lparr>i_atime := now32 t\<rparr>) t"]) (simp add: read_to_def get_fs_byte_def)
qed

section \<open>A file of one block\<close>

definition file_demo :: fs_st where
  "file_demo = upd_inode 4 (\<lambda>x. x\<lparr>i_dev := 0x301, i_num := 2, i_count := 1, i_mode := 0x81a4, i_nlinks := 1,
     i_size := 3000, i_zone := (\<lambda>_. 0)(0 := 7)\<rparr>) fs_demo"

lemma file_demo_there: "bc_ready demo_disk 0x301 file_demo" "file_there demo_disk 0x301 4 file_demo" "f_pos (file_table file_demo 0) = int 0"
proof -
  show "bc_ready demo_disk 0x301 file_demo" using fs_demo_ready by (simp add: file_demo_def)
  have b: "block_there 0x301 7 file_demo" by (simp add: file_demo_def) (simp add: block_there_def MINOR_def fs_demo_tables)
  have "file_zone (\<lambda>z. block_there 0x301 z file_demo) (block_of demo_disk 0x301 file_demo) (inode_table file_demo 4) n = (if n = 0 then 7 else 0)" for n
    by (simp add: file_demo_def file_zone_def zone_entry_def)
  then show "file_there demo_disk 0x301 4 file_demo" using b by (simp add: file_there_def zones_there_def) (simp add: file_demo_def)
  show "f_pos (file_table file_demo 0) = int 0" by (simp add: file_demo_def fs_demo_tables)
qed

theorem file_read_witness:
  "bc_ready demo_disk 0x301 file_demo \<and> file_there demo_disk 0x301 4 file_demo \<and>
   (\<exists>t. file_read 4 0 0x1000 3000 file_demo = Ok 3000 t \<and> get_fs_byte (0x1000 + of_nat 2000) t = 0 \<and> f_pos (file_table t 0) = 3000)"
proof -
  have "file_byte (\<lambda>z. block_there 0x301 z file_demo) (block_of demo_disk 0x301 file_demo) (inode_table file_demo 4) (0 + 2000) = 0"
    by (simp add: file_byte_def file_demo_def file_zone_def)
  moreover have "0 + 3000 \<le> MAX_FILE" "(2000 :: nat) < 3000" by (simp_all add: MAX_FILE_def)
  moreover from file_read_ok [OF file_demo_there this(1), of "0x1000"] obtain t where
    t: "file_read 4 0 0x1000 (int 3000) file_demo = Ok (int 3000) t" "f_pos (file_table t 0) = int (0 + 3000)"
    "\<forall>k < 3000. get_fs_byte (0x1000 + of_nat k) t =
       file_byte (\<lambda>z. block_there 0x301 z file_demo) (block_of demo_disk 0x301 file_demo) (inode_table file_demo 4) (0 + k)" by auto
  moreover have "int 3000 = 3000" by simp
  ultimately show ?thesis using file_demo_there(1,2) spec [OF t(3), of 2000] by (intro conjI exI [of _ t]) (simp_all del: of_nat_numeral)
qed

end
