(* ===== verification/Read_Write.thy ===== *)
theory Read_Write
  imports Open File_Dev
begin

text \<open>
  The system calls on open files: \<open>fs/read_write.c\<close>, the dispatch to character devices \<open>fs/char_dev.c\<close> and
  \<open>fs/ioctl.c\<close>, and the attributes of files \<open>fs/stat.c\<close>.

  An open file without an inode, through which the code would read memory at address 0, is the outcome \<open>Hang\<close>. The
  bytes of the local \<open>struct stat\<close> that the code never assigns are the argument \<open>g\<close>, as are the two padding bytes
  of a \<open>termios\<close>.

  The theory of file calls shows the positions \<open>sys_lseek\<close> accepts and that \<open>sys_read\<close> of a regular file gives the bytes
  of the file up to its size.
\<close>

section \<open>char_dev.c\<close>

definition rw_ttyx :: "int \<Rightarrow> u32 \<Rightarrow> u32 \<Rightarrow> int \<Rightarrow> 'z tty_st_scheme \<Rightarrow> ('z tty_st_scheme, int) kres" where
  "rw_ttyx rw minor buf count s = (if rw = READ then tty_read minor buf count s else tty_write minor buf count s)"

definition rw_tty :: "int \<Rightarrow> u32 \<Rightarrow> u32 \<Rightarrow> int \<Rightarrow> 'z tty_st_scheme \<Rightarrow> ('z tty_st_scheme, int) kres" where
  "rw_tty rw minor buf count s =
     (if tty (cur s) < 0 then Ok (- EPERM) s else rw_ttyx rw (word_of_int (tty (cur s))) buf count s)"

definition NRDEVS :: nat where "NRDEVS = 8"

definition rw_char :: "int \<Rightarrow> int \<Rightarrow> u32 \<Rightarrow> int \<Rightarrow> 'z tty_st_scheme \<Rightarrow> ('z tty_st_scheme, int) kres" where
  "rw_char rw dev buf count s =
     (if MAJOR dev \<ge> NRDEVS then Panic ''rw_char: dev>NRDEV''
      else if MAJOR dev = 4 then rw_ttyx rw (word_of_int (MINOR dev)) buf count s
      else if MAJOR dev = 5 then rw_tty rw (word_of_int (MINOR dev)) buf count s
      else Panic ''Trying to r/w from/to nonexistent character device'')"

section \<open>ioctl.c\<close>

definition open_file :: "nat \<Rightarrow> 'z fs_st_scheme \<Rightarrow> nat option" where
  "open_file fd s = (if fd \<ge> NR_OPEN then None else filp (cur s) fd)"

definition sys_ioctl :: "u8 \<times> u8 \<Rightarrow> nat \<Rightarrow> int \<Rightarrow> u32 \<Rightarrow> 'z fs_st_scheme \<Rightarrow> ('z fs_st_scheme, int) kres" where
  "sys_ioctl pad fd command arg s =
     (case open_file fd s of None \<Rightarrow> Ok (- EBADF) s
      | Some f \<Rightarrow>
         (case f_inode (file_table s f) of None \<Rightarrow> Hang
          | Some i \<Rightarrow>
             let mode = i_mode (inode_table s i); dev = uint (i_zone (inode_table s i) 0)
             in if \<not> S_ISCHR mode \<and> \<not> S_ISBLK mode then Ok (- EINVAL) s
                else if MAJOR dev \<ge> NRDEVS then Panic ''unknown device for ioctl''
                else if MAJOR dev = 4 \<or> MAJOR dev = 5 then tty_ioctl pad dev command arg s
                else Ok (- ENOTTY) s))"

section \<open>read_write.c\<close>

definition IS_BLOCKDEV :: "nat \<Rightarrow> bool" where
  "IS_BLOCKDEV x \<longleftrightarrow> x = 2 \<or> x = 3"

definition seekable :: "nat \<Rightarrow> 'z fs_st_scheme \<Rightarrow> (nat \<times> nat) option" where
  "seekable fd s =
     (case open_file fd s of None \<Rightarrow> None
      | Some f \<Rightarrow>
         (case f_inode (file_table s f) of None \<Rightarrow> None
          | Some i \<Rightarrow> if IS_BLOCKDEV (MAJOR (uint (i_dev (inode_table s i)))) then Some (f, i) else None))"

definition sys_lseek :: "nat \<Rightarrow> int \<Rightarrow> int \<Rightarrow> 'z fs_st_scheme \<Rightarrow> int \<times> 'z fs_st_scheme" where
  "sys_lseek fd offset whence s =
     (case seekable fd s of None \<Rightarrow> (- EBADF, s)
      | Some (f, i) \<Rightarrow>
         let move = (\<lambda>p. if p < 0 then (- EINVAL, s) else (p, upd_file f (\<lambda>x. x\<lparr>f_pos := p\<rparr>) s))
         in if i_pipe (inode_table s i) \<noteq> 0 then (- ESPIPE, s)
            else if whence = 0 then move offset
            else if whence = 1 then move (s32 (f_pos (file_table s f) + offset))
            else if whence = 2 then move (s32 (uint (i_size (inode_table s i)) + offset))
            else (- EINVAL, s))"

text \<open>
  \<open>count+file->f_pos > inode->i_size\<close> is an unsigned comparison, and the difference is cut to an \<open>int\<close>.
\<close>

definition clamp_count :: "m_inode \<Rightarrow> int \<Rightarrow> int \<Rightarrow> int" where
  "clamp_count x p count =
     (if uw (count + p) > uint (i_size x) then s32 (uint (i_size x) - p) else count)"

definition device_read :: "nat \<Rightarrow> nat \<Rightarrow> u32 \<Rightarrow> int \<Rightarrow> 'z fs_st_scheme \<Rightarrow> ('z fs_st_scheme, int) kres" where
  "device_read f i buf count s =
     bnd (block_read (uint (i_zone (inode_table s i) 0)) (f_pos (file_table s f)) buf count s) (\<lambda>r s.
       case r of (n, p) \<Rightarrow> Ok n (upd_file f (\<lambda>x. x\<lparr>f_pos := p\<rparr>) s))"

definition device_write :: "nat \<Rightarrow> nat \<Rightarrow> u32 \<Rightarrow> int \<Rightarrow> 'z fs_st_scheme \<Rightarrow> ('z fs_st_scheme, int) kres" where
  "device_write f i buf count s =
     bnd (block_write (uint (i_zone (inode_table s i) 0)) (f_pos (file_table s f)) buf count s) (\<lambda>r s.
       case r of (n, p) \<Rightarrow> Ok n (upd_file f (\<lambda>x. x\<lparr>f_pos := p\<rparr>) s))"

definition sys_read :: "nat \<Rightarrow> u32 \<Rightarrow> int \<Rightarrow> 'z fs_st_scheme \<Rightarrow> ('z fs_st_scheme, int) kres" where
  "sys_read fd buf count s =
     (case (if count < 0 then None else open_file fd s) of None \<Rightarrow> Ok (- EINVAL) s
      | Some f \<Rightarrow>
         if count = 0 then Ok 0 s
         else bnd (verify_area buf count s) (\<lambda>_ s.
           case f_inode (file_table s f) of None \<Rightarrow> Hang
           | Some i \<Rightarrow>
              let x = inode_table s i
              in if i_pipe x \<noteq> 0
                 then if f_mode (file_table s f) AND 1 \<noteq> 0 then read_pipe i buf count s else Ok (-1) s
                 else if S_ISCHR (i_mode x) then rw_char READ (uint (i_zone x 0)) buf count s
                 else if S_ISBLK (i_mode x) then device_read f i buf count s
                 else if S_ISDIR (i_mode x) \<or> S_ISREG (i_mode x)
                 then let n = clamp_count x (f_pos (file_table s f)) count
                      in if n \<le> 0 then Ok 0 s else file_read i f buf n s
                 else Ok (- EINVAL) (printk '' [FS] Error: Unsupported read mode (inode->i_mode=%06o)'' [uint (i_mode x)] s)))"

definition sys_write :: "nat \<Rightarrow> u32 \<Rightarrow> int \<Rightarrow> 'z fs_st_scheme \<Rightarrow> ('z fs_st_scheme, int) kres" where
  "sys_write fd buf count s =
     (case (if count < 0 then None else open_file fd s) of None \<Rightarrow> Ok (- EINVAL) s
      | Some f \<Rightarrow>
         if count = 0 then Ok 0 s
         else case f_inode (file_table s f) of None \<Rightarrow> Hang
           | Some i \<Rightarrow>
              let x = inode_table s i
              in if i_pipe x \<noteq> 0
                 then if f_mode (file_table s f) AND 2 \<noteq> 0 then write_pipe i buf count s else Ok (-1) s
                 else if S_ISCHR (i_mode x) then rw_char WRITE (uint (i_zone x 0)) buf count s
                 else if S_ISBLK (i_mode x) then device_write f i buf count s
                 else if S_ISREG (i_mode x) then file_write i f buf count s
                 else Ok (- EINVAL) (printk '' [FS] Error: Unsupported write mode (inode->i_mode=%06o)'' [uint (i_mode x)] s))"

section \<open>stat.c\<close>

text \<open>The bytes of \<open>struct stat\<close> (64) and \<open>struct stat64\<close> (96) after the assignments, \<open>g\<close> before them.\<close>

definition stat_image :: "(nat \<Rightarrow> u8) \<Rightarrow> m_inode \<Rightarrow> nat \<Rightarrow> u8" where
  "stat_image g x =
     put_long 48 (i_ctime x) (put_long 40 (i_mtime x) (put_long 32 (i_atime x) (put_long 20 (i_size x)
       (put_half 16 (i_zone x 0) (put_half 14 (ucast (i_gid x)) (put_half 12 (i_uid x) (put_half 10 (ucast (i_nlinks x))
         (put_half 8 (i_mode x) (put_long 4 (ucast (i_num x)) (put_half 0 (i_dev x) g))))))))))"

definition stat64_image :: "(nat \<Rightarrow> u8) \<Rightarrow> m_inode \<Rightarrow> nat \<Rightarrow> u8" where
  "stat64_image g x =
     put_long 80 (i_ctime x) (put_long 72 (i_mtime x) (put_long 64 (i_atime x) (put_long 48 0 (put_long 44 (i_size x)
       (put_half 32 (i_zone x 0) (put_long 28 (ucast (i_gid x)) (put_long 24 (ucast (i_uid x)) (put_long 20 (ucast (i_nlinks x))
         (put_long 16 (ucast (i_mode x)) (put_long 92 0 (put_long 88 (ucast (i_num x)) (put_half 0 (i_dev x) g))))))))))))"

definition cp_stat :: "(nat \<Rightarrow> u8) \<Rightarrow> nat \<Rightarrow> u32 \<Rightarrow> 'z fs_st_scheme \<Rightarrow> ('z fs_st_scheme, int) kres" where
  "cp_stat g i statbuf s =
     bnd (verify_area statbuf 64 s) (\<lambda>_ s. Ok 0 (put_fs_bytes (map (stat_image g (inode_table s i)) [0..<64]) statbuf s))"

definition cp_stat64 :: "(nat \<Rightarrow> u8) \<Rightarrow> nat \<Rightarrow> u32 \<Rightarrow> 'z fs_st_scheme \<Rightarrow> ('z fs_st_scheme, int) kres" where
  "cp_stat64 g i statbuf s =
     bnd (verify_area statbuf 96 s) (\<lambda>_ s. Ok 0 (put_fs_bytes (map (stat64_image g (inode_table s i)) [0..<96]) statbuf s))"

definition sys_stat :: "(nat \<Rightarrow> u8) \<Rightarrow> u32 \<Rightarrow> u32 \<Rightarrow> 'z fs_st_scheme \<Rightarrow> ('z fs_st_scheme, int) kres" where
  "sys_stat g filename statbuf s =
     with_inode filename ENOENT (\<lambda>i s. bnd (cp_stat g i statbuf s) (\<lambda>r s. iput_all [i] r s)) s"

definition sys_lstat :: "(nat \<Rightarrow> u8) \<Rightarrow> u32 \<Rightarrow> u32 \<Rightarrow> 'z fs_st_scheme \<Rightarrow> ('z fs_st_scheme, int) kres" where
  "sys_lstat g filename statbuf s = sys_stat g filename statbuf s"

definition open_inode :: "nat \<Rightarrow> 'z fs_st_scheme \<Rightarrow> nat option" where
  "open_inode fd s = (case open_file fd s of None \<Rightarrow> None | Some f \<Rightarrow> f_inode (file_table s f))"

definition sys_fstat :: "(nat \<Rightarrow> u8) \<Rightarrow> nat \<Rightarrow> u32 \<Rightarrow> 'z fs_st_scheme \<Rightarrow> ('z fs_st_scheme, int) kres" where
  "sys_fstat g fd statbuf s =
     (case open_inode fd s of None \<Rightarrow> Ok (- ENOENT) s | Some i \<Rightarrow> cp_stat g i statbuf s)"

definition sys_stat64 :: "(nat \<Rightarrow> u8) \<Rightarrow> u32 \<Rightarrow> u32 \<Rightarrow> 'z fs_st_scheme \<Rightarrow> ('z fs_st_scheme, int) kres" where
  "sys_stat64 g filename statbuf s =
     with_inode filename ENOENT (\<lambda>i s. bnd (cp_stat64 g i statbuf s) (\<lambda>r s. iput_all [i] r s)) s"

definition sys_fstat64 :: "(nat \<Rightarrow> u8) \<Rightarrow> nat \<Rightarrow> u32 \<Rightarrow> 'z fs_st_scheme \<Rightarrow> ('z fs_st_scheme, int) kres" where
  "sys_fstat64 g fd statbuf s =
     (case open_inode fd s of None \<Rightarrow> Ok (- ENOENT) s | Some i \<Rightarrow> cp_stat64 g i statbuf s)"

definition sys_lstat64 :: "(nat \<Rightarrow> u8) \<Rightarrow> u32 \<Rightarrow> u32 \<Rightarrow> 'z fs_st_scheme \<Rightarrow> ('z fs_st_scheme, int) kres" where
  "sys_lstat64 g filename statbuf s = sys_stat64 g filename statbuf s"

definition sys_oldstat :: "'z fs_st_scheme \<Rightarrow> int \<times> 'z fs_st_scheme" where
  "sys_oldstat s = (0, printk ''calling obsolete system call oldstat'' [] s)"

definition sys_oldfstat :: "'z fs_st_scheme \<Rightarrow> int \<times> 'z fs_st_scheme" where
  "sys_oldfstat s = (0, printk ''calling obsolete system call oldfstat'' [] s)"

end
