(* ===== verification/Getdents.thy ===== *)
theory Getdents
  imports Read_Write
begin

text \<open>
  Reading a directory, \<open>fs/sys_getdents.c\<close>, with \<open>read_file_block\<close> of \<open>fs/exec.c\<close>, through which it finds the blocks.

  In the doubly indirect part \<open>read_file_block\<close> computes an index in front of the block from block 1031 on; such a read
  of memory that the model does not show, and one with a negative block number, is the outcome \<open>Hang\<close>.
\<close>

section \<open>Blocks of a file\<close>

definition read_file_block_ind :: "int \<Rightarrow> int \<Rightarrow> nat \<Rightarrow> 'z fs_st_scheme \<Rightarrow> ('z fs_st_scheme, nat option) kres" where
  "read_file_block_ind dev ind block_num s =
     bnd (bread dev ind s) (\<lambda>r s.
       case r of None \<Rightarrow> Ok None (printk '' [FS] Bad Block Table'' [] s)
       | Some ih \<Rightarrow>
          let block = half_at (\<lambda>k. data_get ih k s) (2 * block_num)
          in if block = 0 then bnd (brelse (Some ih) s) (\<lambda>_ s. Ok None s)
             else bnd (bread dev (uint block) s) (\<lambda>r s.
               bnd (brelse (Some ih) s) (\<lambda>_ s.
                 case r of None \<Rightarrow> Ok None (printk '' [FS] Bad Block File'' [] s)
                 | Some b \<Rightarrow> Ok (Some b) s)))"

definition read_file_block :: "nat \<Rightarrow> nat \<Rightarrow> 'z fs_st_scheme \<Rightarrow> ('z fs_st_scheme, nat option) kres" where
  "read_file_block i block_num s =
     (let x = inode_table s i; dev = uint (i_dev x)
      in if block_num \<le> 6 then bread dev (uint (i_zone x block_num)) s
         else if block_num - 7 < 512 then read_file_block_ind dev (uint (i_zone x 7)) (block_num - 7) s
         else
           let n = block_num - 519
           in if n > 512 * 512 then Panic ''Impossibly long executable''
              else if i_zone x 8 = 0 then Ok None s
              else bnd (bread dev (uint (i_zone x 8)) s) (\<lambda>r s.
                case r of None \<Rightarrow> Ok None s
                | Some dind \<Rightarrow>
                   let table = half_at (\<lambda>k. data_get dind k s) (2 * (n div 512))
                   in bnd (brelse (Some dind) s) (\<lambda>_ s.
                        if n \<ge> 512 then Hang else read_file_block_ind dev (uint table) n s)))"

section \<open>Reading a directory\<close>

text \<open>
  The name of an entry is stored up to its zero byte; an entry with an empty name is passed over. The arguments are
  the offsets of the name, of the inode number and of the length in the structure of the caller.
\<close>

definition name_length :: "dir_ptr \<Rightarrow> 'z fs_st_scheme \<Rightarrow> nat" where
  "name_length de s = length (takeWhile (\<lambda>j. de_name de j s \<noteq> 0) [0..<NAME_LEN])"

definition put_dirent :: "u32 \<Rightarrow> u32 \<Rightarrow> u32 \<Rightarrow> dir_ptr \<Rightarrow> 'z fs_st_scheme \<Rightarrow> 'z fs_st_scheme" where
  "put_dirent d_name d_ino d_reclen de s =
     (let n = name_length de s;
          s1 = fold (\<lambda>j s. put_fs_byte (de_name de j s) (d_name + of_nat j) s) [0..<n] s
      in if n = 0 then s1
         else put_fs_word (of_nat n) d_reclen (put_fs_byte 0 (d_name + of_nat n)
                (put_fs_long (ucast (de_inode de s1)) d_ino s1)))"

text \<open>The inner loop, from \<open>offset\<close> of the block in buffer \<open>b\<close>; at most 64 entries are in a block.\<close>

fun dirent_scan :: "nat \<Rightarrow> u32 \<Rightarrow> u32 \<Rightarrow> u32 \<Rightarrow> nat \<Rightarrow> nat \<Rightarrow> nat \<Rightarrow> nat \<Rightarrow> 'z fs_st_scheme \<Rightarrow> nat \<times> 'z fs_st_scheme" where
  "dirent_scan 0 d_name d_ino d_reclen i f b offset s = (0, s)"
| "dirent_scan (Suc n) d_name d_ino d_reclen i f b offset s =
     (if offset < 1024 \<and> uw (f_pos (file_table s f)) < uint (i_size (inode_table s i))
      then
        let s1 = upd_file f (\<lambda>x. x\<lparr>f_pos := s32 (f_pos x + 16)\<rparr>) s
        in if de_inode (b, offset) s1 \<noteq> 0
           then
             let s2 = put_dirent d_name d_ino d_reclen (b, offset) s1; k = name_length (b, offset) s1
             in if k \<noteq> 0 then (k, s2) else dirent_scan n d_name d_ino d_reclen i f b (offset + 16) s2
           else dirent_scan n d_name d_ino d_reclen i f b (offset + 16) s1
      else (0, s))"

partial_function (option) dirent_loop ::
  "u32 \<Rightarrow> u32 \<Rightarrow> u32 \<Rightarrow> nat \<Rightarrow> nat \<Rightarrow> 'z fs_st_scheme \<Rightarrow> ('z fs_st_scheme, int) kres option" where
  "dirent_loop d_name d_ino d_reclen i f s =
     (if uw (f_pos (file_table s f)) < uint (i_size (inode_table s i))
      then
        let p = f_pos (file_table s f); offset = nat (p mod 1024)
        in if p < 0 then Some Hang
           else bndo (read_file_block i (nat (p sdiv 1024)) s) (\<lambda>r s.
             case r of
               None \<Rightarrow> dirent_loop d_name d_ino d_reclen i f
                         (upd_file f (\<lambda>x. x\<lparr>f_pos := s32 (f_pos x + (1024 - int offset))\<rparr>) s)
             | Some b \<Rightarrow>
                case dirent_scan 64 d_name d_ino d_reclen i f b offset s of (k, s) \<Rightarrow>
                  bndo (brelse (Some b) s) (\<lambda>_ s.
                    if k \<noteq> 0 then Some (Ok (int k) s) else dirent_loop d_name d_ino d_reclen i f s))
      else Some (Ok 0 s))"

definition minix_getdents :: "nat \<Rightarrow> nat \<Rightarrow> u32 \<Rightarrow> 'z fs_st_scheme \<Rightarrow> ('z fs_st_scheme, int) kres" where
  "minix_getdents i f dirent s =
     (if \<not> S_ISDIR (i_mode (inode_table s i)) then Ok (- EBADF) s
      else ended (dirent_loop (dirent + 10) dirent (dirent + 8) i f s))"

text \<open>\<open>put_fs_long64\<close> stores the lower four of the eight bytes of \<open>d_ino\<close>.\<close>

definition minix_getdents64 :: "nat \<Rightarrow> nat \<Rightarrow> u32 \<Rightarrow> 'z fs_st_scheme \<Rightarrow> ('z fs_st_scheme, int) kres" where
  "minix_getdents64 i f dirent s =
     (if \<not> S_ISDIR (i_mode (inode_table s i)) then Ok (- EBADF) s
      else ended (dirent_loop (dirent + 19) dirent (dirent + 16) i f s))"

definition sys_getdents :: "nat \<Rightarrow> u32 \<Rightarrow> 'z fs_st_scheme \<Rightarrow> ('z fs_st_scheme, int) kres" where
  "sys_getdents fd dirp s =
     (case open_file fd s of None \<Rightarrow> Ok (- EBADF) s
      | Some f \<Rightarrow>
         (case f_inode (file_table s f) of None \<Rightarrow> Ok (- EBADF) s
          | Some i \<Rightarrow> bnd (verify_area dirp 268 s) (\<lambda>_ s. minix_getdents i f dirp s)))"

definition sys_getdents64 :: "nat \<Rightarrow> u32 \<Rightarrow> 'z fs_st_scheme \<Rightarrow> ('z fs_st_scheme, int) kres" where
  "sys_getdents64 fd dirp s =
     (case open_file fd s of None \<Rightarrow> Ok (- EBADF) s
      | Some f \<Rightarrow>
         (case f_inode (file_table s f) of None \<Rightarrow> Ok (- EBADF) s
          | Some i \<Rightarrow> bnd (verify_area dirp 276 s) (\<lambda>_ s. minix_getdents64 i f dirp s)))"

end
