(* ===== verification/Exec.thy ===== *)
theory Exec
  imports Getdents Process
begin

text \<open>
  Loading a program, \<open>fs/exec.c\<close>.

  After the old page tables are freed the data segment shows zeros, which are the pages the fault handler supplies; the
  pages of arguments that \<open>put_page\<close> maps show their bytes at the end of the segment. The header of an ELF file is the
  function from offsets to bytes that the code copies into a local variable. A NULL \<open>bht\<close>, which \<open>load_elf_binary\<close>
  follows when the table of sections begins in the first block, has its data at the address in word 0 of memory.
  \<open>g\<close> is what lies behind the local array \<open>page\<close>; the second call of \<open>copy_strings\<close> reaches it when the first has failed.
\<close>

section \<open>Arguments\<close>

definition MAX_ARG_PAGES :: nat where "MAX_ARG_PAGES = 32"

text \<open>\<open>while (get_fs_byte(p++)) ;\<close>\<close>

partial_function (option) str_end :: "u32 \<Rightarrow> 'z um_st_scheme \<Rightarrow> u32 option" where
  "str_end p s = (if get_fs_byte p s = 0 then Some (p + 1) else str_end (p + 1) s)"

fun put_ptrs :: "nat \<Rightarrow> u32 \<Rightarrow> u32 \<Rightarrow> 'z um_st_scheme \<Rightarrow> (u32 \<times> u32 \<times> 'z um_st_scheme) option" where
  "put_ptrs 0 p tab s = Some (p, tab, s)"
| "put_ptrs (Suc n) p tab s =
     (let s1 = put_fs_long p tab s
      in case str_end p s1 of None \<Rightarrow> None | Some q \<Rightarrow> put_ptrs n q (tab + 4) s1)"

definition create_tables :: "u32 \<Rightarrow> nat \<Rightarrow> nat \<Rightarrow> 'z um_st_scheme \<Rightarrow> ('z um_st_scheme, u32) kres" where
  "create_tables p argc envc s =
     (let envp = (0xfffffffc AND p) - 4 * (of_nat envc + 1);
          argv = envp - 4 * (of_nat argc + 1);
          sp = argv - 4;
          s1 = put_fs_long (of_nat argc) sp s
      in case put_ptrs argc p argv s1 of None \<Rightarrow> Hang
         | Some (p, argv, s) \<Rightarrow>
            (case put_ptrs envc p envp (put_fs_long 0 argv s) of None \<Rightarrow> Hang
             | Some (p, envp, s) \<Rightarrow> Ok sp (put_fs_long 0 envp s)))"

partial_function (option) count_loop :: "u32 \<Rightarrow> nat \<Rightarrow> 'z um_st_scheme \<Rightarrow> nat option" where
  "count_loop tmp i s = (if get_fs_long tmp s = 0 then Some i else count_loop (tmp + 4) (i + 1) s)"

definition count_args :: "u32 \<Rightarrow> 'z um_st_scheme \<Rightarrow> nat option" where
  "count_args argv s = (if argv = 0 then Some 0 else count_loop argv 0 s)"

text \<open>The pages from \<open>i\<close> on that are missing are allocated, up to the first that is there; \<open>False\<close> without memory.\<close>

fun arg_pages :: "nat \<Rightarrow> nat \<Rightarrow> (nat \<Rightarrow> u32) \<Rightarrow> 'z mm_st_scheme \<Rightarrow> bool \<times> (nat \<Rightarrow> u32) \<times> 'z mm_st_scheme" where
  "arg_pages 0 i page s = (True, page, s)"
| "arg_pages (Suc n) i page s =
     (if page i \<noteq> 0 then (True, page, s)
      else case get_free_page s of (a, s) \<Rightarrow>
        if a = 0 then (False, page(i := 0), s) else arg_pages n (i + 1) (page(i := a)) s)"

text \<open>\<open>len\<close> bytes that end in front of \<open>tmp\<close>, stored downwards from \<open>p\<close>.\<close>

fun copy_down :: "nat \<Rightarrow> u32 \<Rightarrow> (nat \<Rightarrow> u32) \<Rightarrow> u32 \<Rightarrow> 'z um_st_scheme \<Rightarrow> ('z um_st_scheme, u32) kres" where
  "copy_down 0 tmp page p s = Ok p s"
| "copy_down (Suc len) tmp page p s =
     (let p = p - 1; tmp = tmp - 1; a = page (unat p div 4096)
      in if a = 0 then Panic ''nonexistent page in exec.c''
         else copy_down len tmp page p (stb (unat a + unat p mod 4096) (get_fs_byte tmp s) s))"

text \<open>The test \<open>p-len < 0\<close> is on an unsigned value and never true.\<close>

fun copy_strings :: "nat \<Rightarrow> u32 \<Rightarrow> (nat \<Rightarrow> u32) \<Rightarrow> u32 \<Rightarrow> 'z um_st_scheme \<Rightarrow> ('z um_st_scheme, u32 \<times> (nat \<Rightarrow> u32)) kres" where
  "copy_strings 0 argv page p s = Ok (p, page) s"
| "copy_strings (Suc argc) argv page p s =
     (let tmp = get_fs_long (argv + 4 * of_nat argc) s
      in if tmp = 0 then Panic ''argc is wrong''
         else case str_end tmp s of None \<Rightarrow> Hang
         | Some q \<Rightarrow>
            let i = unat (p - (q - tmp)) div 4096
            in case (if i < MAX_ARG_PAGES then arg_pages (MAX_ARG_PAGES - i) i page s else (True, page, s)) of
                 (False, page, s) \<Rightarrow> Ok (0, page) s
               | (True, page, s) \<Rightarrow>
                   bnd (copy_down (unat (q - tmp)) q page p s) (\<lambda>p s. copy_strings argc argv page p s))"

section \<open>The new segments\<close>

definition set_ldt_limit :: "nat \<Rightarrow> u32 \<Rightarrow> 'z sched_st_scheme \<Rightarrow> 'z sched_st_scheme" where
  "set_ldt_limit n limit s = upd_cur (\<lambda>t. t\<lparr>ldt := (ldt t)(n := set_limit limit (ldt t n))\<rparr>) s"

text \<open>The page at address \<open>a\<close> appears at offset \<open>off\<close> of the data segment.\<close>

definition show_page :: "u32 \<Rightarrow> u32 \<Rightarrow> 'z um_st_scheme \<Rightarrow> 'z um_st_scheme" where
  "show_page a off s =
     s\<lparr>umem := (umem s)(current s := \<lambda>v. if off \<le> v \<and> v - off < 4096 then ldb (unat a + unat (v - off)) s else umem s (current s) v)\<rparr>"

definition map_args :: "u32 \<Rightarrow> (nat \<Rightarrow> u32) \<Rightarrow> 'z um_st_scheme \<Rightarrow> 'z um_st_scheme" where
  "map_args base page s =
     fold (\<lambda>i s.
       let off = 0x4000000 - 4096 * of_nat (MAX_ARG_PAGES - i)
       in if page i = 0 then s
          else case put_page (page i) (base + off) s of (r, s) \<Rightarrow> if r \<noteq> 0 then show_page (page i) off s else s)
       (rev [0..<MAX_ARG_PAGES]) s"

definition change_ldt :: "u32 \<Rightarrow> (nat \<Rightarrow> u32) \<Rightarrow> 'z um_st_scheme \<Rightarrow> u32 \<times> 'z um_st_scheme" where
  "change_ldt text_size page s =
     (let code_limit = (text_size + 4096 - 1) AND 0xfffff000; data_limit = 0x4000000;
          base = get_base (ldt (cur s) 1);
          s1 = set_ldt_limit 1 code_limit (upd_cur (\<lambda>t. t\<lparr>ldt := (ldt t)(1 := set_base base (ldt t 1))\<rparr>) s);
          s2 = set_ldt_limit 2 data_limit (upd_cur (\<lambda>t. t\<lparr>ldt := (ldt t)(2 := set_base base (ldt t 2))\<rparr>) s1)
      in (data_limit, map_args base page s2))"

section \<open>ELF files\<close>

definition is_valid_elf :: "(nat \<Rightarrow> u8) \<Rightarrow> 'z sched_st_scheme \<Rightarrow> bool \<times> 'z sched_st_scheme" where
  "is_valid_elf ex s =
     (if ex 0 \<noteq> 0x7f \<or> ex 1 \<noteq> ch (CHR ''E'') \<or> ex 2 \<noteq> ch (CHR ''L'') \<or> ex 3 \<noteq> ch (CHR ''F'')
      then (False, printk '' [ELF] Not ELF Format (Magic Mismatch)'' [] s)
      else if half_at ex 16 \<noteq> 2 \<or> half_at ex 18 \<noteq> 3
      then (False, printk '' [ELF] Bad ELF Binary (Type/Machine Error)'' [] s)
      else (True, s))"

text \<open>\<open>rep movsl\<close> of \<open>size/4\<close> words; the callers add 3 to the size.\<close>

definition cp_block :: "nat \<Rightarrow> nat \<Rightarrow> u32 \<Rightarrow> nat \<Rightarrow> 'z hd_st_scheme \<Rightarrow> 'z hd_st_scheme" where
  "cp_block b off dest sz s = copy_to_user b off (4 * (sz div 4)) dest s"

partial_function (option) copy_rest :: "nat \<Rightarrow> nat \<Rightarrow> u32 \<Rightarrow> u32 \<Rightarrow> 'z fs_st_scheme \<Rightarrow> ('z fs_st_scheme, int) kres option" where
  "copy_rest i block_num dest sz s =
     (if sz = 0 then Some (Ok 0 s)
      else bndo (read_file_block i block_num s) (\<lambda>r s.
        case r of None \<Rightarrow> Some (Ok (-1) s)
        | Some b \<Rightarrow>
           let n = (if sz < 1024 then sz else 1024)
           in bndo (brelse (Some b) (cp_block b 0 dest (unat n + 3) s)) (\<lambda>_ s.
                copy_rest i (block_num + 1) (dest + n) (sz - n) s)))"

definition copy_section :: "nat \<Rightarrow> u32 \<Rightarrow> u32 \<Rightarrow> u32 \<Rightarrow> 'z fs_st_scheme \<Rightarrow> ('z fs_st_scheme, int) kres" where
  "copy_section i from dest sz s =
     (let block_num = unat from div 1024; block_offset = unat from mod 1024
      in bnd (read_file_block i block_num s) (\<lambda>r s.
           case r of None \<Rightarrow> Ok (-1) s
           | Some b \<Rightarrow>
              let n = (if unat sz < 1024 - block_offset then sz else of_nat (1024 - block_offset))
              in bnd (brelse (Some b) (cp_block b block_offset dest (unat n + 3) s)) (\<lambda>_ s.
                   ended (copy_rest i (block_num + 1) (dest + n) (sz - n) s))))"

definition create_bss_section :: "u32 \<Rightarrow> u32 \<Rightarrow> 'z fs_st_scheme \<Rightarrow> 'z fs_st_scheme" where
  "create_bss_section dest sz s = zero_user (unat sz) dest s"

text \<open>A byte of the block that holds the table of sections.\<close>

definition bht_byte :: "nat option \<Rightarrow> nat \<Rightarrow> 'z fs_st_scheme \<Rightarrow> u8" where
  "bht_byte bht k s = (case bht of Some b \<Rightarrow> data_get b k s | None \<Rightarrow> ldb (unat (pm s 0 + of_nat k)) s)"

definition drop_bht :: "nat option \<Rightarrow> int \<Rightarrow> u32 \<Rightarrow> 'z fs_st_scheme \<Rightarrow> ('z fs_st_scheme, int \<times> u32) kres" where
  "drop_bht bht r sz s = (case bht of None \<Rightarrow> Ok (r, sz) s | Some b \<Rightarrow> bnd (brelse (Some b) s) (\<lambda>_ s. Ok (r, sz) s))"

definition load_section :: "nat \<Rightarrow> (nat \<Rightarrow> u8) \<Rightarrow> u32 \<Rightarrow> 'z fs_st_scheme \<Rightarrow> ('z fs_st_scheme, u32 option) kres" where
  "load_section i sect sz s =
     (let sh_type = long_at sect 4; sh_addr = long_at sect 12; sh_offset = long_at sect 16; sh_size = long_at sect 20;
          grown = (if sz < sh_addr + sh_size then sh_addr + sh_size else sz)
      in if sh_size = 0 \<or> sh_addr = 0 then Ok (Some sz) s
         else if sh_type = 1
         then bnd (copy_section i sh_offset sh_addr sh_size s) (\<lambda>r s. Ok (if r \<noteq> 0 then None else Some grown) s)
         else if sh_type = 8 then Ok (Some grown) (create_bss_section sh_addr sh_size s)
         else Ok (Some sz) s)"

fun load_sections :: "nat \<Rightarrow> nat \<Rightarrow> (nat \<Rightarrow> u8) \<Rightarrow> u32 \<Rightarrow> nat option \<Rightarrow> u32 \<Rightarrow> 'z fs_st_scheme \<Rightarrow> ('z fs_st_scheme, int \<times> u32) kres" where
  "load_sections 0 i ex lb bht sz s = drop_bht bht 0 sz s"
| "load_sections (Suc nsect) i ex lb bht sz s =
     (let at = long_at ex 32 + of_nat nsect * ucast (half_at ex 46)
      in bnd (if at div 1024 \<noteq> lb
              then let s1 = printk '''' [] s
                   in bnd (case bht of None \<Rightarrow> Ok () s1 | Some b \<Rightarrow> brelse (Some b) s1) (\<lambda>_ s.
                      bnd (read_file_block i (unat at div 1024) s) (\<lambda>r s. Ok (map_option Some r) s))
              else Ok (Some bht) s) (\<lambda>r s.
           case r of None \<Rightarrow> Ok (-1, sz) s
           | Some bht \<Rightarrow>
              let sect = (\<lambda>k. bht_byte bht (unat at mod 1024 + k) s)
              in bnd (load_section i sect sz s) (\<lambda>r s.
                   case r of None \<Rightarrow> drop_bht bht (-1) sz s
                   | Some sz \<Rightarrow> load_sections nsect i ex (at div 1024) bht sz s)))"

text \<open>The return value, the entry point and the size of the program.\<close>

definition load_elf_binary :: "nat \<Rightarrow> nat \<Rightarrow> 'z fs_st_scheme \<Rightarrow> ('z fs_st_scheme, int \<times> u32 \<times> u32) kres" where
  "load_elf_binary i b s =
     (let ex = (\<lambda>k. data_get b k s)
      in case is_valid_elf ex s of
           (False, s) \<Rightarrow> Ok (-1, 0, 0) s
         | (True, s) \<Rightarrow>
             let nsect = unat (half_at ex 48); entry = long_at ex 24;
                 sz = ucast (half_at ex 40) + of_nat nsect * ucast (half_at ex 46)
             in if nsect \<le> 1 then Ok (-1, entry, sz) (printk '' [ELF] Bad Nb of Sections: %d'' [int nsect] s)
                else bnd (load_sections nsect i ex 0 None sz s) (\<lambda>r s. Ok (fst r, entry, snd r) s))"

section \<open>do_execve\<close>

definition may_exec :: "task_struct \<Rightarrow> m_inode \<Rightarrow> bool" where
  "may_exec t x =
     (let i = uint (i_mode x)
      in odd (if uid t \<noteq> 0 \<and> euid t \<noteq> 0
              then if euid t = i_uid x then drop_bit 6 i else if egid t = ucast (i_gid x) then drop_bit 3 i else i
              else if i AND 0x49 \<noteq> 0 then 1 else i))"

definition close_on_execs :: "'z fs_st_scheme \<Rightarrow> ('z fs_st_scheme, unit) kres" where
  "close_on_execs s =
     bnd (for_each [0..<NR_OPEN] (\<lambda>i s.
            if bit (close_on_exec (cur s)) i then bnd (sys_close i s) (\<lambda>_ s. Ok () s) else Ok () s)
          (upd_cur (\<lambda>t. t\<lparr>sig_fn := \<lambda>i. if i < 32 then 0 else sig_fn t i\<rparr>) s)) (\<lambda>_ s.
       Ok () (upd_cur (\<lambda>t. t\<lparr>close_on_exec := 0\<rparr>) s))"

definition free_user :: "'z um_st_scheme \<Rightarrow> ('z um_st_scheme, unit) kres" where
  "free_user s =
     bnd (free_page_tables (get_base (ldt (cur s) 1)) (get_limit (ldt (cur s) 1)) s) (\<lambda>_ s.
     bnd (free_page_tables (get_base (ldt (cur s) 2)) (get_limit (ldt (cur s) 2)) s) (\<lambda>_ s.
       Ok () (s\<lparr>umem := (umem s)(current s := \<lambda>_. 0)\<rparr>)))"

text \<open>\<open>while (i&0xfff) put_fs_byte(0,(char *) (i++));\<close>\<close>

definition zero_tail :: "u32 \<Rightarrow> 'z fs_st_scheme \<Rightarrow> 'z fs_st_scheme" where
  "zero_tail i s = zero_user ((4096 - unat i mod 4096) mod 4096) i s"

text \<open>The last part, with the arguments at \<open>p\<close>; the result is the new instruction and stack pointer.\<close>

definition exec_start :: "nat \<Rightarrow> nat \<Rightarrow> nat \<Rightarrow> u32 \<Rightarrow> u32 \<Rightarrow> u32 \<Rightarrow> (nat \<Rightarrow> u32) \<Rightarrow> 'z fs_st_scheme \<Rightarrow> ('z fs_st_scheme, int + u32 \<times> u32) kres" where
  "exec_start i argc envc p entry sz page s =
     (let s1 = (if last_task_used_math s = current s then s\<lparr>last_task_used_math := 0\<rparr> else s);
          (limit, s2) = change_ldt sz page (upd_cur (\<lambda>t. t\<lparr>used_math := 0\<rparr>) s1)
      in bnd (create_tables (p + (limit - of_nat MAX_ARG_PAGES * 4096)) argc envc s2) (\<lambda>p s.
         bnd (iput (Some i) (upd_cur (\<lambda>t. t\<lparr>brk := sz, end_data := sz, end_code := sz, start_stack := p AND 0xfffff000\<rparr>) s)) (\<lambda>_ s.
           Ok (Inr (entry, p)) (zero_tail sz s))))"

definition exec_load :: "nat \<Rightarrow> nat \<Rightarrow> nat \<Rightarrow> nat \<Rightarrow> u32 \<Rightarrow> (nat \<Rightarrow> u32) \<Rightarrow> 'z fs_st_scheme \<Rightarrow> ('z fs_st_scheme, int + u32 \<times> u32) kres" where
  "exec_load i b argc envc p page s =
     (if p = 0
      then bnd (for_each [0..<MAX_ARG_PAGES] (\<lambda>k. free_page (page k)) s) (\<lambda>_ s. iput_all [i] (Inl (-1)) s)
      else
        bnd (close_on_execs s) (\<lambda>_ s.
        bnd (free_user s) (\<lambda>_ s.
        bnd (load_elf_binary i b s) (\<lambda>r s.
          case r of (e, entry, sz) \<Rightarrow>
            bnd (brelse (Some b) s) (\<lambda>_ s.
              if e \<noteq> 0 then iput_all [i] (Inl (- EACCES)) s else exec_start i argc envc p entry sz page s)))))"

definition do_execve :: "(nat \<Rightarrow> u32) \<Rightarrow> u32 \<Rightarrow> u32 \<Rightarrow> u32 \<Rightarrow> u32 \<Rightarrow> 'z fs_st_scheme \<Rightarrow> ('z fs_st_scheme, int + u32 \<times> u32) kres" where
  "do_execve g cs filename argv envp s =
     (if 0xffff AND cs \<noteq> 0x000f then Panic ''execve called from supervisor mode''
      else bnd (namei filename s) (\<lambda>r s.
        case r of None \<Rightarrow> Ok (Inl (- ENOENT)) s
        | Some i \<Rightarrow>
           let x = inode_table s i
           in if \<not> S_ISREG (i_mode x) then iput_all [i] (Inl (- EACCES)) s
              else if \<not> may_exec (cur s) x then iput_all [i] (Inl (- ENOEXEC)) s
              else bnd (bread (uint (i_dev x)) (uint (i_zone x 0)) s) (\<lambda>r s.
                case r of None \<Rightarrow> iput_all [i] (Inl (- EACCES)) s
                | Some b \<Rightarrow>
                   (case (count_args argv s, count_args envp s) of
                      (Some argc, Some envc) \<Rightarrow>
                        let page = (\<lambda>k. if k < MAX_ARG_PAGES then 0 else g k);
                            s1 = printk '' [EXEC] Loading: %s (Args: %d, Envs: %d)'' [uint filename, int argc, int envc] s
                        in bnd (copy_strings envc envp page (4096 * of_nat MAX_ARG_PAGES) s1) (\<lambda>r s.
                           bnd (copy_strings argc argv (snd r) (fst r) s) (\<lambda>r s.
                             exec_load i b argc envc (fst r) (snd r) s))
                    | _ \<Rightarrow> Hang))))"

end
