(* ===== verification/Super.thy ===== *)
theory Super
  imports Inode
begin

text \<open>
  Mounting: \<open>fs/super.c\<close> and \<open>sys_setup\<close> of \<open>kernel/hd.c\<close>, which reads the partition table and mounts the root.

  \<open>do_mount\<close> copies the whole structure from the disk, pointers included; these are overwritten before they
  are used and the model sets them to NULL at once. More than sixteen inode maps or eight zone maps run over the
  arrays of the super block, which is the outcome \<open>Hang\<close>. When the table is full the code writes \<open>s_dev\<close> behind its
  end, into memory that holds no modelled object.
\<close>

section \<open>super.c\<close>

text \<open>The structure as it is laid out on the disk (and, from offset 20 on, in memory only).\<close>

definition super_at :: "(nat \<Rightarrow> u8) \<Rightarrow> super_block" where
  "super_at d =
     \<lparr>s_ninodes = half_at d 0, s_nzones = half_at d 2, s_imap_blocks = half_at d 4, s_zmap_blocks = half_at d 6,
      s_firstdatazone = half_at d 8, s_log_zone_size = half_at d 10, s_max_size = long_at d 12, s_magic = half_at d 16,
      s_maps = (\<lambda>_. None), s_dev = half_at d 84, s_isup = None, s_imount = None, s_time = long_at d 96,
      s_rd_only = d 100, s_dirt = d 101\<rparr>"

text \<open>Reading the maps from slot \<open>base\<close> on until one fails; the result is the next block number.\<close>

fun load_maps :: "int \<Rightarrow> nat \<Rightarrow> nat \<Rightarrow> nat list \<Rightarrow> int \<Rightarrow> 'z fs_st_scheme \<Rightarrow> ('z fs_st_scheme, int) kres" where
  "load_maps dev p base [] block s = Ok block s"
| "load_maps dev p base (i # is) block s =
     bnd (bread dev block s) (\<lambda>r s.
       if base + i \<ge> 16 then Hang
       else
         let s1 = upd_super p (\<lambda>x. x\<lparr>s_maps := (s_maps x)(base + i := r)\<rparr>) s
         in if r = None then Ok block s1 else load_maps dev p base is (block + 1) s1)"

definition mark_first :: "nat option \<Rightarrow> 'z fs_st_scheme \<Rightarrow> ('z fs_st_scheme, unit) kres" where
  "mark_first m s =
     (case m of None \<Rightarrow> Hang
      | Some b \<Rightarrow> Ok () (upd_bh b (\<lambda>x. x\<lparr>b_data := (b_data x)(0 := b_data x 0 OR 1)\<rparr>) s))"

definition do_mount :: "int \<Rightarrow> 'z fs_st_scheme \<Rightarrow> ('z fs_st_scheme, nat option) kres" where
  "do_mount dev s =
     (case find (\<lambda>i. s_dev (supers s i) = 0) [0..<NR_SUPER] of None \<Rightarrow> Ok None s
      | Some p \<Rightarrow>
         bnd (bread dev 1 (upd_super p (\<lambda>x. x\<lparr>s_dev := -1\<rparr>) s)) (\<lambda>r s.
           case r of None \<Rightarrow> Ok None s
           | Some b \<Rightarrow>
              bnd (brelse (Some b) (upd_super p (\<lambda>_. super_at (b_data (bh s b))) s)) (\<lambda>_ s.
                if s_magic (supers s p) \<noteq> SUPER_MAGIC then Ok None (upd_super p (\<lambda>x. x\<lparr>s_dev := 0\<rparr>) s)
                else
                  let ni = unat (s_imap_blocks (supers s p)); nz = unat (s_zmap_blocks (supers s p))
                  in bnd (load_maps dev p 0 [0..<ni] 2 (upd_super p (\<lambda>x. x\<lparr>s_maps := (\<lambda>_. None)\<rparr>) s)) (\<lambda>block s.
                     bnd (load_maps dev p 8 [0..<nz] block s) (\<lambda>block s.
                       if block \<noteq> 2 + int ni + int nz
                       then bnd (for_each [0..<16] (\<lambda>i s. brelse (s_maps (supers s p) i) s) s) (\<lambda>_ s.
                              Ok None (upd_super p (\<lambda>x. x\<lparr>s_dev := 0\<rparr>) s))
                       else
                         bnd (mark_first (s_imap (supers s p) 0) s) (\<lambda>_ s.
                         bnd (mark_first (s_zmap (supers s p) 0) s) (\<lambda>_ s.
                           Ok (Some p) (upd_super p (\<lambda>x. x\<lparr>s_dev := word_of_int dev, s_isup := None, s_imount := None,
                                                         s_time := 0, s_rd_only := 0, s_dirt := 0\<rparr>) s))))))))"

text \<open>The number of zero bits below \<open>n\<close> in the maps from slot \<open>base\<close> on; \<open>None\<close> when a map is missing.\<close>

definition count_free :: "nat \<Rightarrow> nat \<Rightarrow> nat \<Rightarrow> 'z fs_st_scheme \<Rightarrow> nat option" where
  "count_free p base n s =
     fold (\<lambda>i r. case (r, s_maps (supers s p) (base + i div 8192)) of
             (Some c, Some b) \<Rightarrow> Some (if bit_at (b_data (bh s b)) (i mod 8192) then c else c + 1)
           | _ \<Rightarrow> None) (rev [0..<n]) (Some 0)"

definition mount_root :: "'z fs_st_scheme \<Rightarrow> ('z fs_st_scheme, unit) kres" where
  "mount_root s =
     (let s1 = s\<lparr>file_table := (\<lambda>i. if i < NR_FILE then (file_table s i)\<lparr>f_count := 0\<rparr> else file_table s i),
                supers := (\<lambda>i. if i < NR_SUPER then (supers s i)\<lparr>s_dev := 0\<rparr> else supers s i)\<rparr>
      in bnd (do_mount ROOT_DEV s1) (\<lambda>r s.
         case r of None \<Rightarrow> Panic ''Unable to mount root''
         | Some p \<Rightarrow>
            bnd (iget ROOT_DEV 1 s) (\<lambda>mi s.
              let s1 = upd_inode mi (\<lambda>x. x\<lparr>i_count := i_count x + 3\<rparr>) s;
                  s2 = upd_super p (\<lambda>x. x\<lparr>s_isup := Some mi, s_imount := Some mi\<rparr>) s1;
                  s3 = upd_cur (\<lambda>t. t\<lparr>pwd := Some mi, root := Some mi\<rparr>) s2
              in case count_free p 8 (unat (s_nzones (supers s3 p))) s3 of None \<Rightarrow> Hang
                 | Some zf \<Rightarrow>
                    let s4 = printk '' [FS] Root Mounted: %d/%d blocks free'' [int zf, uint (s_nzones (supers s3 p))] s3
                    in case count_free p 0 (unat (s_ninodes (supers s4 p)) + 1) s4 of None \<Rightarrow> Hang
                       | Some nf \<Rightarrow>
                          Ok () (printk '' [FS] Integrity Check: %d/%d inodes free'' [int nf, uint (s_ninodes (supers s4 p))] s4))))"

section \<open>sys_setup\<close>

text \<open>Entry \<open>i\<close> (from 1 on) of the partition table in the first sector.\<close>

definition partition_entry :: "(nat \<Rightarrow> u8) \<Rightarrow> nat \<Rightarrow> u32 \<times> u32" where
  "partition_entry d i = (long_at d (0x1BE + 16 * (i - 1) + 8), long_at d (0x1BE + 16 * (i - 1) + 12))"

definition setup_drive :: "nat \<Rightarrow> 'z fs_st_scheme \<Rightarrow> ('z fs_st_scheme, unit) kres" where
  "setup_drive drive s =
     bnd (rw_abs_hd READ (of_nat drive) 1 0 0 0 s) (\<lambda>_ s.
       let d = b_data (bh s 0)
       in if b_uptodate (bh s 0) = 0 then Panic ''''
          else if d 510 \<noteq> 0x55 \<or> d 511 \<noteq> 0xAA then Panic ''''
          else Ok () (fold (\<lambda>i s. s\<lparr>start_sect := (start_sect s)(i + 5 * drive := fst (partition_entry d i)),
                                   nr_sects := (nr_sects s)(i + 5 * drive := snd (partition_entry d i))\<rparr>) [1..<5] s))"

definition sys_setup :: "'z fs_st_scheme \<Rightarrow> ('z fs_st_scheme, int) kres" where
  "sys_setup s =
     (if \<not> callable s then Ok (-1) s
      else
        bnd (for_each [0..<NR_HD] setup_drive (s\<lparr>callable := False\<rparr>)) (\<lambda>_ s.
        bnd (mount_root (printk (if NR_HD > 1 then ''Partition tables ok.'' else ''Partition table ok.'') [] s)) (\<lambda>_ s. Ok 0 s)))"

end
