(* ===== verification/Syscall.thy ===== *)
theory Syscall
  imports Sys_Calls Exec Read_Write Namei_Sys Open Getdents Super
begin

text \<open>
  The entry of system calls and the delivery of signals: \<open>kernel/system_call.s\<close> with the table \<open>sys_call_table\<close> of
  \<open>include/linux/sys.h\<close>, which joins every call of the model. The registers that the entry saves on the kernel stack are a
  record; the entry point and the return to the user are one function from the saved registers and the state to those after it.
\<close>

section \<open>The saved registers\<close>

text \<open>\<open>fork_regs\<close> has the registers that \<open>sys_fork\<close> finds on the stack; the entry saves \<open>eax\<close> last.\<close>

record sys_frame = fork_regs +
  r_eax :: u32

text \<open>Bytes of the kernel stack that some calls hand out without setting them.\<close>

record stack_junk =
  junk_pages :: "nat \<Rightarrow> u32"
  junk_stat :: "nat \<Rightarrow> u8"
  junk_pad :: "u8 \<times> u8"

type_synonym 'z call = "stack_junk \<Rightarrow> sys_frame \<Rightarrow> 'z proc_st_scheme \<Rightarrow> ('z proc_st_scheme, int \<times> sys_frame) kres"

section \<open>Calling conventions\<close>

text \<open>
  The three arguments are \<open>ebx\<close>, \<open>ecx\<close> and \<open>edx\<close>. The wrappers sort the calls by their result: an integer, an integer with a new
  state, or an outcome.
\<close>

definition c_int :: "('z proc_st_scheme \<Rightarrow> int) \<Rightarrow> 'z call" where
  "c_int f g r s = Ok (f s, r) s"

definition c_pair :: "(u32 \<Rightarrow> u32 \<Rightarrow> u32 \<Rightarrow> 'z proc_st_scheme \<Rightarrow> int \<times> 'z proc_st_scheme) \<Rightarrow> 'z call" where
  "c_pair f g r s = (case f (r_ebx r) (r_ecx r) (r_edx r) s of (v, s) \<Rightarrow> Ok (v, r) s)"

definition c_res :: "(stack_junk \<Rightarrow> u32 \<Rightarrow> u32 \<Rightarrow> u32 \<Rightarrow> 'z proc_st_scheme \<Rightarrow> ('z proc_st_scheme, int) kres) \<Rightarrow> 'z call" where
  "c_res f g r s = bnd (f g (r_ebx r) (r_ecx r) (r_edx r) s) (\<lambda>v s. Ok (v, r) s)"

definition call_fork :: "'z call" where
  "call_fork g r s = bnd (sys_fork (fork_regs.truncate r) s) (\<lambda>v s. Ok (v, r) s)"

text \<open>\<open>sys_execve\<close> gives \<open>do_execve\<close> the address of the saved \<open>eip\<close>, which a new program replaces together with \<open>esp\<close>.\<close>

definition call_execve :: "'z call" where
  "call_execve g r s =
     bnd (do_execve (junk_pages g) (r_cs r) (r_ebx r) (r_ecx r) (r_edx r) s) (\<lambda>v s.
       case v of Inl e \<Rightarrow> Ok (e, r) s
       | Inr (entry, p) \<Rightarrow> Ok (0, r\<lparr>r_eip := entry, r_esp := p\<rparr>) s)"

section \<open>The table\<close>

text \<open>\<open>None\<close> is the entry \<open>sys_null\<close>, which the entry point compares with.\<close>

definition calls_0_33 :: "'z call option list" where
  "calls_0_33 = map Some
     [c_res (\<lambda>_ _ _ _. sys_setup), c_res (\<lambda>_ a _ _. sys_exit (sint a)), call_fork,
      c_res (\<lambda>_ a b c. sys_read (unat a) b (sint c)), c_res (\<lambda>_ a b c. sys_write (unat a) b (sint c)),
      c_res (\<lambda>_ a b c. sys_open a (sint b) (sint c)), c_res (\<lambda>_ a _ _. sys_close (unat a)),
      c_res (\<lambda>_ a b c. sys_waitpid (sint a) b (sint c)), c_res (\<lambda>_ a b _. sys_creat a (sint b)),
      c_res (\<lambda>_ a b _. sys_link a b), c_res (\<lambda>_ a _ _. sys_unlink a), call_execve,
      c_res (\<lambda>_ a _ _. sys_chdir a), c_res (\<lambda>_ a _ _. sys_time a), c_int (\<lambda>_. sys_mknod),
      c_res (\<lambda>_ a b _. sys_chmod a (sint b)), c_res (\<lambda>_ a b c. sys_chown a (sint b) (sint c)), c_int (\<lambda>_. sys_break),
      c_pair (\<lambda>_ _ _. sys_oldstat), c_pair (\<lambda>a b c. sys_lseek (unat a) (sint b) (sint c)), c_int sys_getpid,
      c_int (\<lambda>_. sys_mount), c_int (\<lambda>_. sys_umount), c_pair (\<lambda>a _ _. sys_setuid (sint a)), c_int sys_getuid,
      c_pair (\<lambda>a _ _. sys_stime a), c_int (\<lambda>_. sys_ptrace), c_pair (\<lambda>a _ _. sys_alarm (sint a)),
      c_pair (\<lambda>_ _ _. sys_oldfstat), c_res (\<lambda>_ _ _ _. sys_pause), c_res (\<lambda>_ a b _. sys_utime a b),
      c_int (\<lambda>_. sys_stty), c_int (\<lambda>_. sys_gtty), c_res (\<lambda>_ a b _. sys_access a (sint b))]"

definition calls_34_66 :: "'z call option list" where
  "calls_34_66 = map Some
     [c_pair (\<lambda>a _ _. sys_nice (sint a)), c_int (\<lambda>_. sys_ftime), c_res (\<lambda>_ _ _ _. sys_sync),
      c_pair (\<lambda>a b _. sys_kill (sint a) (sint b)), c_int (\<lambda>_. sys_rename), c_res (\<lambda>_ a b _. sys_mkdir a (sint b)),
      c_res (\<lambda>_ a _ _. sys_rmdir a), c_pair (\<lambda>a _ _. sys_dup (unat a)), c_res (\<lambda>_ a _ _. sys_pipe a),
      c_res (\<lambda>_ a _ _. sys_times a), c_int (\<lambda>_. sys_prof), c_pair (\<lambda>a _ _. sys_brk a),
      c_pair (\<lambda>a _ _. sys_setgid (sint a)), c_int sys_getgid,
      c_pair (\<lambda>a b c. sys_signal (sint a) b c), c_int sys_geteuid, c_int sys_getegid, c_int (\<lambda>_. sys_acct),
      c_int (\<lambda>_. sys_phys), c_int (\<lambda>_. sys_lock), c_res (\<lambda>g a b c. sys_ioctl (junk_pad g) (unat a) (uint b) c),
      c_pair (\<lambda>a b c. sys_fcntl (unat a) (unat b) c), c_int (\<lambda>_. sys_mpx),
      c_pair (\<lambda>a b _. sys_setpgid (sint a) (sint b)), c_int (\<lambda>_. sys_ulimit), c_pair (\<lambda>_ _ _. sys_oldolduname),
      c_pair (\<lambda>a _ _. sys_umask (sint a)), c_res (\<lambda>_ a _ _. sys_chroot a), c_int (\<lambda>_. sys_ustat),
      c_res (\<lambda>_ a b _. sys_dup2 (unat a) (unat b)), c_int sys_getppid, c_int sys_getpgrp, c_pair (\<lambda>_ _ _. sys_setsid)]"

definition sys_call_table :: "'z call option list" where
  "sys_call_table = calls_0_33 @ calls_34_66 @ replicate 39 None @
     [Some (c_res (\<lambda>g a b _. sys_stat (junk_stat g) a b)), Some (c_res (\<lambda>g a b _. sys_lstat (junk_stat g) a b)),
      Some (c_res (\<lambda>g a b _. sys_fstat (junk_stat g) (unat a) b))] @ replicate 13 None @
     [Some (c_res (\<lambda>_ a _ _. sys_uname a))] @ replicate 18 None @
     [Some (c_res (\<lambda>_ a b _. sys_getdents (unat a) b))] @ replicate 53 None @
     [Some (c_res (\<lambda>g a b _. sys_stat64 (junk_stat g) a b)), Some (c_res (\<lambda>g a b _. sys_lstat64 (junk_stat g) a b)),
      Some (c_res (\<lambda>g a b _. sys_fstat64 (junk_stat g) (unat a) b))] @ replicate 22 None @
     [Some (c_res (\<lambda>_ a b _. sys_getdents64 (unat a) b)), Some (c_pair (\<lambda>a b c. sys_fcntl64 (unat a) (unat b) c))] @
     replicate 98 None"

definition nr_system_calls :: u32 where "nr_system_calls = 319"

lemma sys_call_table_length: "length sys_call_table = 320"
  by (simp add: sys_call_table_def calls_0_33_def calls_34_66_def)

section \<open>Delivery of a signal\<close>

text \<open>
  The loop at label \<open>2\<close>: it clears one pending signal after the other until one has a handler or, with the default action, ends
  the task; \<open>SIGCHLD\<close> is ignored by default. The signal number is the bit plus one.
\<close>

datatype sig_action = No_signal | Default_exit nat | Run_handler nat

lemma bsf_bit: "bsf w = Some n \<Longrightarrow> n < 32 \<and> bit w n \<and> (\<forall>k < n. \<not> bit w k)"
  by (simp add: bsf_def find_upt_first)

lemma clear_less: "bsf w = Some n \<Longrightarrow> unat (unset_bit n w) < unat w"
proof -
  assume "bsf w = Some n"
  then have b: "bit w n" using bsf_bit by blast
  have le: "unset_bit n w \<le> w" by (simp add: unset_bit_eq_and_not word_and_le2)
  have "\<not> bit (unset_bit n w) n" by (simp add: bit_unset_bit_iff)
  then have "unset_bit n w \<noteq> w" using b by metis
  then have "unset_bit n w < w" using le by simp
  then show ?thesis by (simp add: word_less_nat_alt)
qed

function next_signal :: "(nat \<Rightarrow> u32) \<Rightarrow> u32 \<Rightarrow> sig_action \<times> u32" where
  "next_signal fn pending =
     (case bsf pending of None \<Rightarrow> (No_signal, pending)
      | Some n \<Rightarrow>
          let pending' = unset_bit n pending
          in if fn n = 0 then (if n + 1 = SIGCHLD then next_signal fn pending' else (Default_exit (n + 1), pending'))
             else if fn n = 1 then next_signal fn pending'
             else (Run_handler n, pending'))"
  by pat_completeness auto
termination by (relation "measure (\<lambda>(_, w). unat w)") (auto simp: clear_less)

declare next_signal.simps [simp del]

text \<open>The frame on the stack of the user, seven words from the new stack pointer \<open>p\<close> on.\<close>

definition push_frame :: "u32 \<Rightarrow> u32 list \<Rightarrow> 'z um_st_scheme \<Rightarrow> 'z um_st_scheme" where
  "push_frame p ws s = fold (\<lambda>(k, w). put_fs_long w (p + 4 * of_nat k)) (enumerate 0 ws) s"

definition enter_handler :: "nat \<Rightarrow> sys_frame \<Rightarrow> 'z um_st_scheme \<Rightarrow> ('z um_st_scheme, sys_frame) kres" where
  "enter_handler n r s =
     (let handler = sig_fn (cur s) n;
          s1 = upd_cur (\<lambda>t. t\<lparr>sig_fn := (sig_fn t)(n := 0)\<rparr>) s;
          p = r_esp r - 28
      in bnd (verify_area p 28 s1) (\<lambda>_ s.
           Ok (r\<lparr>r_eip := handler, r_esp := p\<rparr>)
             (push_frame p [sig_restorer (cur s), of_nat (n + 1), r_eax r, r_ecx r, r_edx r, r_eflags r, r_eip r] s)))"

definition ret_from_sys_call :: "sys_frame \<Rightarrow> 'z fs_st_scheme \<Rightarrow> ('z fs_st_scheme, sys_frame) kres" where
  "ret_from_sys_call r s =
     (if current s = task s 0 \<or> r_cs r AND 3 = 0 \<or> r_ss r AND 0xffff \<noteq> 0x17 then Ok r s
      else case next_signal (sig_fn (cur s)) (signal (cur s)) of (a, pending) \<Rightarrow>
        let s1 = upd_cur (\<lambda>t. t\<lparr>signal := pending\<rparr>) s
        in case a of No_signal \<Rightarrow> Ok r s1
           | Default_exit n \<Rightarrow> bnd (do_exit (int n) s1) (\<lambda>_ s. Ok r s)
           | Run_handler n \<Rightarrow> enter_handler n r s1)"

section \<open>The entry points\<close>

text \<open>For an entry \<open>sys_null\<close> the saved \<open>ebx\<close>, which is the first argument, is replaced by the number of the call and so is lost.\<close>

definition system_call :: "stack_junk \<Rightarrow> sys_frame \<Rightarrow> 'z proc_st_scheme \<Rightarrow> ('z proc_st_scheme, sys_frame) kres" where
  "system_call g r s =
     (if r_eax r > nr_system_calls - 1 then Ok (r\<lparr>r_eax := -1\<rparr>) s
      else bnd (case sys_call_table ! unat (r_eax r) of
                  None \<Rightarrow> (case sys_null (sint (r_eax r)) s of (v, s) \<Rightarrow> Ok (v, r\<lparr>r_ebx := r_eax r\<rparr>) s)
                | Some f \<Rightarrow> f g r s) (\<lambda>v s.
           bnd (if state (cur s) \<noteq> 0 \<or> counter (cur s) = 0 then call_schedule s else Ok () s) (\<lambda>_ s.
             ret_from_sys_call ((snd v)\<lparr>r_eax := word_of_int (fst v)\<rparr>) s)))"

text \<open>The timer interrupt goes the same way out; \<open>timer_interrupt\<close> is its part up to the call of \<open>do_timer\<close>.\<close>

definition timer_entry :: "sys_frame \<Rightarrow> 'z fs_st_scheme \<Rightarrow> ('z fs_st_scheme, sys_frame) kres" where
  "timer_entry r s = bnd (timer_interrupt (uint (r_cs r)) s) (\<lambda>_ s. ret_from_sys_call r s)"

end
