(* ===== verification/User_Lib.thy ===== *)
theory User_Lib
  imports Syscall
begin

text \<open>
  The system call stubs of the user library: the macros \<open>_syscall0\<close> to \<open>_syscall3\<close> of \<open>include/unistd.h\<close> and \<open>lib/\<close>. A stub loads the
  registers, enters the kernel and turns a negative result into \<open>errno\<close>; \<open>errno\<close> is an argument and part of the result.
\<close>

definition syscall0 :: "stack_junk \<Rightarrow> u32 \<Rightarrow> sys_frame \<Rightarrow> 'z proc_st_scheme \<Rightarrow> ('z proc_st_scheme, sys_frame) kres" where
  "syscall0 g nr r = system_call g (r\<lparr>r_eax := nr\<rparr>)"

definition syscall1 :: "stack_junk \<Rightarrow> u32 \<Rightarrow> u32 \<Rightarrow> sys_frame \<Rightarrow> 'z proc_st_scheme \<Rightarrow> ('z proc_st_scheme, sys_frame) kres" where
  "syscall1 g nr a r = system_call g (r\<lparr>r_eax := nr, r_ebx := a\<rparr>)"

definition syscall2 :: "stack_junk \<Rightarrow> u32 \<Rightarrow> u32 \<Rightarrow> u32 \<Rightarrow> sys_frame \<Rightarrow> 'z proc_st_scheme \<Rightarrow> ('z proc_st_scheme, sys_frame) kres" where
  "syscall2 g nr a b r = system_call g (r\<lparr>r_eax := nr, r_ebx := a, r_ecx := b\<rparr>)"

definition syscall3 :: "stack_junk \<Rightarrow> u32 \<Rightarrow> u32 \<Rightarrow> u32 \<Rightarrow> u32 \<Rightarrow> sys_frame \<Rightarrow> 'z proc_st_scheme \<Rightarrow> ('z proc_st_scheme, sys_frame) kres" where
  "syscall3 g nr a b c r = system_call g (r\<lparr>r_eax := nr, r_ebx := a, r_ecx := b, r_edx := c\<rparr>)"

definition lib_result :: "u32 \<Rightarrow> int \<Rightarrow> int \<times> int" where
  "lib_result res errno = (if sint res \<ge> 0 then (sint res, errno) else (-1, s32 (- sint res)))"

definition lib_call :: "('s, sys_frame) kres \<Rightarrow> int \<Rightarrow> ('s, (int \<times> int) \<times> sys_frame) kres" where
  "lib_call k errno = bnd k (\<lambda>r s. Ok (lib_result (r_eax r) errno, r) s)"

definition lib_exit where "lib_exit g code = syscall1 g 1 code"
definition lib_write where "lib_write g fd buf count e r s = lib_call (syscall3 g 4 fd buf count r s) e"
definition lib_open where "lib_open g filename flag mode e r s = lib_call (syscall3 g 5 filename flag mode r s) e"
definition lib_close where "lib_close g fd e r s = lib_call (syscall1 g 6 fd r s) e"
definition lib_waitpid where "lib_waitpid g n wait_stat options e r s = lib_call (syscall3 g 7 n wait_stat options r s) e"
definition lib_wait where "lib_wait g wait_stat e r s = lib_waitpid g (-1) wait_stat 0 e r s"
definition lib_execve where "lib_execve g file argv envp e r s = lib_call (syscall3 g 11 file argv envp r s) e"
definition lib_dup where "lib_dup g fd e r s = lib_call (syscall1 g 41 fd r s) e"
definition lib_setsid where "lib_setsid g e r s = lib_call (syscall0 g 66 r s) e"

text \<open>A number past the table fails with \<open>errno = 1\<close> (\<open>EPERM\<close>), not with \<open>ENOSYS\<close>, and changes nothing.\<close>

lemma bad_number: "nr > 318 \<Longrightarrow> lib_call (syscall0 g nr r s) e = Ok ((-1, 1), r\<lparr>r_eax := -1\<rparr>) s"
  by (simp add: lib_call_def syscall0_def system_call_def nr_system_calls_def lib_result_def s32_def)

text \<open>An error \<open>- v\<close> of a call reaches the program as \<open>errno = v\<close>.\<close>

lemma lib_result_error: "0 < v \<Longrightarrow> v < 2 ^ 31 \<Longrightarrow> lib_result (word_of_int (- v)) e = (-1, v)"
proof -
  assume v: "0 < v" "v < 2 ^ 31"
  then have "sint (word_of_int (- v) :: u32) = - v" by (simp only: signed_of_int) (subst signed_take_bit_int_eq_self; simp)
  then show ?thesis using v s32_id [of v] by (simp add: lib_result_def)
qed

end
