(* ===== verification/Traps.thy ===== *)
theory Traps
  imports Syscall
begin

text \<open>
  Hardware traps: \<open>kernel/traps.c\<close> with the stubs of \<open>kernel/asm.s\<close> that call it. The interrupt descriptors are built from the
  addresses of the stubs, which the linker chooses and are a parameter. Messages go to the log; a \<open>%s\<close> argument is put into the text.
\<close>

section \<open>Gates\<close>

datatype trap_stub = Divide_error | Debug | Nmi | Int3 | Overflow | Bounds | Invalid_op | Device_not_available | Double_fault
  | Coprocessor_segment_overrun | Invalid_TSS | Segment_not_present | Stack_segment | General_protection | Page_fault
  | Coprocessor_error | Reserved

text \<open>\<open>_set_gate\<close>: the stub's address is split over the two words around the selector of the kernel code and the type.\<close>

definition set_gate :: "u32 \<Rightarrow> u32 \<Rightarrow> u32 \<Rightarrow> desc_struct" where
  "set_gate type dpl addr =
     \<lparr>desc_a = (0x00080000 AND 0xffff0000) OR (addr AND 0xffff),
      desc_b = (addr AND 0xffff0000) OR (0x8000 + push_bit 13 dpl + push_bit 8 type)\<rparr>"

definition set_intr_gate :: "nat \<Rightarrow> u32 \<Rightarrow> (nat \<Rightarrow> desc_struct) \<Rightarrow> nat \<Rightarrow> desc_struct" where
  "set_intr_gate n addr idt = idt(n := set_gate 14 0 addr)"

definition set_trap_gate :: "nat \<Rightarrow> u32 \<Rightarrow> (nat \<Rightarrow> desc_struct) \<Rightarrow> nat \<Rightarrow> desc_struct" where
  "set_trap_gate n addr idt = idt(n := set_gate 15 0 addr)"

definition set_system_gate :: "nat \<Rightarrow> u32 \<Rightarrow> (nat \<Rightarrow> desc_struct) \<Rightarrow> nat \<Rightarrow> desc_struct" where
  "set_system_gate n addr idt = idt(n := set_gate 15 3 addr)"

definition trap_init :: "(trap_stub \<Rightarrow> u32) \<Rightarrow> (nat \<Rightarrow> desc_struct) \<Rightarrow> nat \<Rightarrow> desc_struct" where
  "trap_init addr idt =
     (let idt = set_trap_gate 0 (addr Divide_error) idt;
          idt = set_trap_gate 1 (addr Debug) idt;
          idt = set_trap_gate 2 (addr Nmi) idt;
          idt = set_system_gate 3 (addr Int3) idt;
          idt = set_system_gate 4 (addr Overflow) idt;
          idt = set_system_gate 5 (addr Bounds) idt;
          idt = set_trap_gate 6 (addr Invalid_op) idt;
          idt = set_trap_gate 7 (addr Device_not_available) idt;
          idt = set_trap_gate 8 (addr Double_fault) idt;
          idt = set_trap_gate 9 (addr Coprocessor_segment_overrun) idt;
          idt = set_trap_gate 10 (addr Invalid_TSS) idt;
          idt = set_trap_gate 11 (addr Segment_not_present) idt;
          idt = set_trap_gate 12 (addr Stack_segment) idt;
          idt = set_trap_gate 13 (addr General_protection) idt;
          idt = set_trap_gate 14 (addr Page_fault) idt;
          idt = set_trap_gate 15 (addr Reserved) idt;
          idt = set_trap_gate 16 (addr Coprocessor_error) idt
      in fold (\<lambda>i. set_trap_gate i (addr Reserved)) [17..<32] idt)"

section \<open>The messages of a fault\<close>

definition tab :: string where "tab = [CHR 0x09]"
definition nl :: string where "nl = [CHR 0x0A]"
definition cr :: string where "cr = [CHR 0x0D]"

text \<open>
  Bytes through a selector: the two user selectors see the memory of the task; \<open>k\<close> is the kernel's memory for the others.
\<close>

definition get_seg_byte :: "(u32 \<Rightarrow> u8) \<Rightarrow> u32 \<Rightarrow> u32 \<Rightarrow> 'z um_st_scheme \<Rightarrow> u8" where
  "get_seg_byte k seg a s = (if seg AND 0xffff = 0x0f \<or> seg AND 0xffff = 0x17 then get_fs_byte a s else k a)"

text \<open>\<open>str\<close>: the number of the current task, which the task register holds.\<close>

definition task_nr :: "'z sched_st_scheme \<Rightarrow> nat" where
  "task_nr s = (case find (\<lambda>i. task s i = current s) [0..<NR_TASKS] of None \<Rightarrow> 0 | Some i \<Rightarrow> i)"

definition die_log :: "(u32 \<Rightarrow> u8) \<Rightarrow> u32 \<Rightarrow> string \<Rightarrow> fork_regs \<Rightarrow> u32 \<Rightarrow> 'z um_st_scheme \<Rightarrow> 'z um_st_scheme" where
  "die_log k fs name r nr s =
     (let s = printk ('' [TRAP] System Halted: '' @ name @ '' (%04x)'' @ nl @ cr) [uint (nr AND 0xffff)] s;
          s = printk (''EIP:'' @ tab @ ''%04x:%p'' @ nl @ ''EFLAGS:'' @ tab @ ''%p'' @ nl @ ''ESP:'' @ tab @ ''%04x:%p'' @ nl)
                [uint (r_cs r), uint (r_eip r), uint (r_eflags r), uint (r_ss r), uint (r_esp r)] s;
          s = printk (''fs: %04x'' @ nl) [uint (fs AND 0xffff)] s;
          s = printk (''base: %p, limit: %p'' @ nl) [uint (get_base (ldt (cur s) 1)), uint (get_limit (ldt (cur s) 2))] s;
          s = (if r_ss r = 0x17
               then printk nl [] (fold (\<lambda>i s. printk ''%p '' [uint (get_fs_long (r_esp r + 4 * of_nat i) s)] s) [0..<4] (printk ''Stack: '' [] s))
               else s);
          s = printk (''Pid: %d, process nr: %d'' @ nl @ cr) [pid (cur s), int (task_nr s)] s;
          s = fold (\<lambda>i s. printk ''%02x '' [uint (get_seg_byte k (r_cs r) (r_eip r + of_nat i) s)] s) [0..<10] s
      in printk (nl @ cr) [] s)"

definition die :: "(u32 \<Rightarrow> u8) \<Rightarrow> u32 \<Rightarrow> string \<Rightarrow> fork_regs \<Rightarrow> u32 \<Rightarrow> 'z fs_st_scheme \<Rightarrow> ('z fs_st_scheme, unit) kres" where
  "die k fs name r nr s = bnd (do_exit 11 (die_log k fs name r nr s)) (\<lambda>_ s. Ok () s)"

section \<open>The handlers\<close>

type_synonym 'z trap_handler = "fork_regs \<Rightarrow> u32 \<Rightarrow> 'z fs_st_scheme \<Rightarrow> ('z fs_st_scheme, unit) kres"

definition do_double_fault :: "(u32 \<Rightarrow> u8) \<Rightarrow> u32 \<Rightarrow> 'z trap_handler" where "do_double_fault k fs = die k fs ''double fault''"
definition do_general_protection :: "(u32 \<Rightarrow> u8) \<Rightarrow> u32 \<Rightarrow> 'z trap_handler" where "do_general_protection k fs = die k fs ''general protection''"
definition do_divide_error :: "(u32 \<Rightarrow> u8) \<Rightarrow> u32 \<Rightarrow> 'z trap_handler" where "do_divide_error k fs = die k fs ''divide error''"
definition do_nmi :: "(u32 \<Rightarrow> u8) \<Rightarrow> u32 \<Rightarrow> 'z trap_handler" where "do_nmi k fs = die k fs ''nmi''"
definition do_debug :: "(u32 \<Rightarrow> u8) \<Rightarrow> u32 \<Rightarrow> 'z trap_handler" where "do_debug k fs = die k fs ''debug''"
definition do_overflow :: "(u32 \<Rightarrow> u8) \<Rightarrow> u32 \<Rightarrow> 'z trap_handler" where "do_overflow k fs = die k fs ''overflow''"
definition do_bounds :: "(u32 \<Rightarrow> u8) \<Rightarrow> u32 \<Rightarrow> 'z trap_handler" where "do_bounds k fs = die k fs ''bounds''"
definition do_invalid_op :: "(u32 \<Rightarrow> u8) \<Rightarrow> u32 \<Rightarrow> 'z trap_handler" where "do_invalid_op k fs = die k fs ''invalid operand''"
definition do_device_not_available :: "(u32 \<Rightarrow> u8) \<Rightarrow> u32 \<Rightarrow> 'z trap_handler" where
  "do_device_not_available k fs = die k fs ''device not available''"
definition do_coprocessor_segment_overrun :: "(u32 \<Rightarrow> u8) \<Rightarrow> u32 \<Rightarrow> 'z trap_handler" where
  "do_coprocessor_segment_overrun k fs = die k fs ''coprocessor segment overrun''"
definition do_invalid_TSS :: "(u32 \<Rightarrow> u8) \<Rightarrow> u32 \<Rightarrow> 'z trap_handler" where "do_invalid_TSS k fs = die k fs ''invalid TSS''"
definition do_segment_not_present :: "(u32 \<Rightarrow> u8) \<Rightarrow> u32 \<Rightarrow> 'z trap_handler" where
  "do_segment_not_present k fs = die k fs ''segment not present''"
definition do_stack_segment :: "(u32 \<Rightarrow> u8) \<Rightarrow> u32 \<Rightarrow> 'z trap_handler" where "do_stack_segment k fs = die k fs ''stack segment''"
definition do_coprocessor_error :: "(u32 \<Rightarrow> u8) \<Rightarrow> u32 \<Rightarrow> 'z trap_handler" where "do_coprocessor_error k fs = die k fs ''coprocessor error''"
definition do_reserved :: "(u32 \<Rightarrow> u8) \<Rightarrow> u32 \<Rightarrow> 'z trap_handler" where "do_reserved k fs = die k fs ''reserved (15,17-31) error''"

text \<open>\<open>do_int3\<close> prints the registers and returns; \<open>eax\<close> and the address \<open>esp\<close> of the frame are not in the record of the registers.\<close>

definition do_int3 :: "u32 \<Rightarrow> u32 \<Rightarrow> 'z trap_handler" where
  "do_int3 eax esp r nr s =
     (let t2 = tab @ tab; x8 = ''%8x'' @ tab @ ''%8x'' @ tab @ ''%8x'' @ tab @ ''%8x'' @ nl @ cr;
          s = printk (''eax'' @ t2 @ ''ebx'' @ t2 @ ''ecx'' @ t2 @ ''edx'' @ nl @ cr @ x8) [sint eax, sint (r_ebx r), sint (r_ecx r), sint (r_edx r)] s;
          s = printk (''esi'' @ t2 @ ''edi'' @ t2 @ ''ebp'' @ t2 @ ''esp'' @ nl @ cr @ x8) [sint (r_esi r), sint (r_edi r), sint (r_ebp r), sint esp] s;
          s = printk (nl @ cr @ ''ds'' @ tab @ ''es'' @ tab @ ''fs'' @ tab @ ''tr'' @ nl @ cr @ ''%4x'' @ tab @ ''%4x'' @ tab @ ''%4x'' @ tab @ ''%4x'' @ nl @ cr)
                [sint (r_ds r), sint (r_es r), sint (r_fs r), 16 * int (task_nr s) + 8 * int FIRST_TSS_ENTRY] s
      in Ok () (printk (''EIP: %8x   CS: %4x  EFLAGS: %8x'' @ nl @ cr) [sint (r_eip r), sint (r_cs r), sint (r_eflags r)] s))"

text \<open>
  Which routine a stub calls, \<open>em\<close> being the emulation bit of \<open>cr0\<close>. The stub of the debug trap pushes \<open>do_int3\<close>, so \<open>do_debug\<close>
  is never called. The page fault is in \<open>mm/page.s\<close> and the memory manager.
\<close>

definition trap_routine :: "bool \<Rightarrow> (u32 \<Rightarrow> u8) \<Rightarrow> u32 \<Rightarrow> u32 \<Rightarrow> u32 \<Rightarrow> trap_stub \<Rightarrow> 'z trap_handler option" where
  "trap_routine em k fs eax esp x =
     (case x of Divide_error \<Rightarrow> Some (do_divide_error k fs) | Debug \<Rightarrow> Some (do_int3 eax esp) | Nmi \<Rightarrow> Some (do_nmi k fs)
      | Int3 \<Rightarrow> Some (do_int3 eax esp) | Overflow \<Rightarrow> Some (do_overflow k fs) | Bounds \<Rightarrow> Some (do_bounds k fs)
      | Invalid_op \<Rightarrow> Some (do_invalid_op k fs)
      | Device_not_available \<Rightarrow> Some (if em then do_device_not_available k fs else (\<lambda>r nr s. math_state_restore (s\<lparr>cr0_ts := False\<rparr>)))
      | Double_fault \<Rightarrow> Some (do_double_fault k fs) | Coprocessor_segment_overrun \<Rightarrow> Some (do_coprocessor_segment_overrun k fs)
      | Invalid_TSS \<Rightarrow> Some (do_invalid_TSS k fs) | Segment_not_present \<Rightarrow> Some (do_segment_not_present k fs)
      | Stack_segment \<Rightarrow> Some (do_stack_segment k fs) | General_protection \<Rightarrow> Some (do_general_protection k fs)
      | Page_fault \<Rightarrow> None | Coprocessor_error \<Rightarrow> Some (do_coprocessor_error k fs) | Reserved \<Rightarrow> Some (do_reserved k fs))"

section \<open>What the gates lead to\<close>

definition gate_offset :: "desc_struct \<Rightarrow> u32" where
  "gate_offset d = (desc_a d AND 0xffff) OR (desc_b d AND 0xffff0000)"

definition gate_dpl :: "desc_struct \<Rightarrow> u32" where
  "gate_dpl d = drop_bit 13 (desc_b d) AND 3"

lemma set_gate_offset:
  assumes "dpl = 0 \<or> dpl = 3" "type = 14 \<or> type = 15"
  shows "gate_offset (set_gate type dpl addr) = addr" "gate_dpl (set_gate type dpl addr) = dpl"
proof -
  have f: "0x8000 + push_bit 13 dpl + push_bit 8 type = (0x8e00 :: u32) \<or> 0x8000 + push_bit 13 dpl + push_bit 8 type = (0xee00 :: u32) \<or>
      0x8000 + push_bit 13 dpl + push_bit 8 type = (0x8f00 :: u32) \<or> 0x8000 + push_bit 13 dpl + push_bit 8 type = (0xef00 :: u32)"
    using assms by (auto simp: push_bit_eq_mult)
  have m: "(0xffff :: u32) = mask 16" "(0xffff0000 :: u32) = NOT (mask 16)" by (simp_all add: mask_eq_exp_minus_1 not_eq_complement)
  have split: "(a AND mask 16) OR (a AND NOT (mask 16)) = a" for a :: u32
    by (rule bit_word_eqI) (auto simp: bit_simps)
  have low: "(x AND 0xffff) OR (((a AND 0xffff0000) OR y) AND 0xffff0000) = a" if "x AND 0xffff = a AND 0xffff" "y AND 0xffff0000 = 0" for x y a :: u32
    using that split [of a] unfolding m by (simp add: bit.conj_disj_distrib2 and.assoc)
  have z: "(0x8000 + push_bit 13 dpl + push_bit 8 type) AND 0xffff0000 = (0 :: u32)" using f by (elim disjE; simp only:; simp)
  have x: "((0x00080000 AND 0xffff0000) OR (addr AND 0xffff)) AND 0xffff = addr AND 0xffff" for addr :: u32
    by (simp add: bit.conj_disj_distrib2 and.assoc)
  show "gate_offset (set_gate type dpl addr) = addr" unfolding gate_offset_def set_gate_def desc_struct.simps by (rule low [OF x z])
  have d: "drop_bit 13 (addr AND 0xffff0000) AND 3 = (0 :: u32)" for addr :: u32
  proof -
    have e: "(3 :: u32) = mask 2" by (simp add: mask_eq_exp_minus_1)
    have "k < 2" if "bit (3 :: u32) k" for k using that unfolding e bit_mask_iff by blast
    then have b: "\<not> bit (3 :: u32) k" if "2 \<le> k" for k using that by fastforce
    show ?thesis unfolding m
    proof (rule bit_word_eqI)
      fix k
      show "bit (drop_bit 13 (addr AND NOT (mask 16)) AND 3) k = bit (0 :: u32) k"
        using b [of k] by (cases "2 \<le> k") (simp_all add: bit_and_iff bit_drop_bit_eq bit_not_iff bit_mask_iff)
    qed
  qed
  show "gate_dpl (set_gate type dpl addr) = dpl" unfolding gate_dpl_def set_gate_def desc_struct.simps
    unfolding drop_bit_or bit.conj_disj_distrib2 d using assms by (auto simp: push_bit_eq_mult drop_bit_eq_div)
qed

text \<open>The stub of each of the 32 vectors.\<close>

definition trap_stubs :: "trap_stub list" where
  "trap_stubs = [Divide_error, Debug, Nmi, Int3, Overflow, Bounds, Invalid_op, Device_not_available, Double_fault,
     Coprocessor_segment_overrun, Invalid_TSS, Segment_not_present, Stack_segment, General_protection, Page_fault, Reserved,
     Coprocessor_error] @ replicate 15 Reserved"

lemma fold_trap_gates: "distinct ns \<Longrightarrow> fold (\<lambda>i. set_trap_gate i a) ns idt n = (if n \<in> set ns then set_gate 15 0 a else idt n)"
  by (induction ns arbitrary: idt) (auto simp: set_trap_gate_def)

lemma trap_init_gates:
  "n < 32 \<Longrightarrow> trap_init addr idt n = set_gate 15 (if 3 \<le> n \<and> n \<le> 5 then 3 else 0) (addr (trap_stubs ! n))"
  "32 \<le> n \<Longrightarrow> trap_init addr idt n = idt n"
proof -
  have h: "17 \<le> n \<Longrightarrow> n < 32 \<Longrightarrow> trap_stubs ! n = Reserved" by (simp add: trap_stubs_def nth_append)
  have s: "n < 17 \<Longrightarrow> n \<in> {0, 1, 2, 3, 4, 5, 6, 7, 8, 9, 10, 11, 12, 13, 14, 15, 16}" by (simp only: insert_iff empty_iff) arith
  show "n < 32 \<Longrightarrow> trap_init addr idt n = set_gate 15 (if 3 \<le> n \<and> n \<le> 5 then 3 else 0) (addr (trap_stubs ! n))"
  proof (cases "n < 17")
    case True
    have "n \<notin> set [17..<32]" using True by simp
    then show ?thesis using s [OF True]
      by (simp only: trap_init_def Let_def fold_trap_gates [OF distinct_upt] if_False)
        (auto simp: set_trap_gate_def set_system_gate_def trap_stubs_def)
  next
    case False
    assume "n < 32"
    then show ?thesis using False h by (simp add: trap_init_def Let_def fold_trap_gates del: upt_rec_numeral)
  qed
  show "32 \<le> n \<Longrightarrow> trap_init addr idt n = idt n"
    by (simp add: trap_init_def Let_def fold_trap_gates set_trap_gate_def set_system_gate_def del: upt_rec_numeral)
qed

text \<open>A user can raise the traps 3, 4 and 5 by an \<open>int\<close> instruction and no other.\<close>

lemma trap_gates_user: "n < 32 \<Longrightarrow> gate_dpl (trap_init addr idt n) = 3 \<longleftrightarrow> n = 3 \<or> n = 4 \<or> n = 5"
  using set_gate_offset(2) [of 3 15] set_gate_offset(2) [of 0 15] by (auto simp: trap_init_gates)

end
