(* ===== verification/Kernel_Time.thy ===== *)
theory Kernel_Time
  imports Sched
begin

text \<open>
  The clock at boot: \<open>kernel_mktime\<close> of \<open>kernel/mktime.c\<close> and \<open>time_init\<close> of \<open>init/main.c\<close>.

  Signed arithmetic is written out with its wrap-around (\<open>s32\<close>) and C division (\<open>sdiv\<close>, \<open>smod\<close>). An
  index outside the table \<open>month\<close> is the value \<open>None\<close>. The CMOS clock is a parameter: \<open>cmos t r\<close> is
  what the \<open>t\<close>-th read of the clock chip gives when register \<open>r\<close> is selected.

  The lemmas compare \<open>kernel_mktime\<close> with a day count of the Gregorian calendar, and determine which
  BCD dates \<open>time_init\<close> decodes.
\<close>

section \<open>kernel_mktime\<close>

record tm =
  tm_sec :: int
  tm_min :: int
  tm_hour :: int
  tm_mday :: int
  tm_mon :: int
  tm_year :: int

definition MINUTE :: int where "MINUTE = 60"
definition HOUR :: int where "HOUR = 60 * MINUTE"
definition DAY :: int where "DAY = 24 * HOUR"
definition YEAR :: int where "YEAR = 365 * DAY"

lemmas clock_defs = MINUTE_def HOUR_def DAY_def YEAR_def

definition month :: "int list" where
  "month = [0, DAY * 31, DAY * (31 + 29), DAY * (31 + 29 + 31), DAY * (31 + 29 + 31 + 30),
     DAY * (31 + 29 + 31 + 30 + 31), DAY * (31 + 29 + 31 + 30 + 31 + 30),
     DAY * (31 + 29 + 31 + 30 + 31 + 30 + 31), DAY * (31 + 29 + 31 + 30 + 31 + 30 + 31 + 31),
     DAY * (31 + 29 + 31 + 30 + 31 + 30 + 31 + 31 + 30),
     DAY * (31 + 29 + 31 + 30 + 31 + 30 + 31 + 31 + 30 + 31),
     DAY * (31 + 29 + 31 + 30 + 31 + 30 + 31 + 31 + 30 + 31 + 30)]"

definition kernel_mktime :: "tm \<Rightarrow> int option" where
  "kernel_mktime t =
     (if tm_mon t < 0 \<or> tm_mon t \<ge> 12 then None
      else
        let year = s32 (tm_year t - 70);
            res = s32 (s32 (YEAR * year) + s32 (DAY * (s32 (year + 1) sdiv 4)));
            res = s32 (res + month ! nat (tm_mon t));
            res = (if tm_mon t > 1 \<and> s32 (year + 2) smod 4 \<noteq> 0 then s32 (res - DAY) else res);
            res = s32 (res + s32 (DAY * s32 (tm_mday t - 1)));
            res = s32 (res + s32 (HOUR * tm_hour t));
            res = s32 (res + s32 (MINUTE * tm_min t));
            res = s32 (res + tm_sec t)
        in Some res)"

section \<open>time_init\<close>

text \<open>One round of the reading loop starts with read number \<open>t\<close>; the year is read sixth, then the
  seconds once more.\<close>

definition cmos_round :: "(nat \<Rightarrow> nat \<Rightarrow> u8) \<Rightarrow> nat \<Rightarrow> tm" where
  "cmos_round cmos t =
     \<lparr>tm_sec = uint (cmos t 0), tm_min = uint (cmos (t + 1) 2), tm_hour = uint (cmos (t + 2) 4),
      tm_mday = uint (cmos (t + 3) 7), tm_mon = uint (cmos (t + 4) 8) - 1,
      tm_year = uint (cmos (t + 5) 9)\<rparr>"

partial_function (option) cmos_loop :: "(nat \<Rightarrow> nat \<Rightarrow> u8) \<Rightarrow> nat \<Rightarrow> tm option" where
  "cmos_loop cmos t =
     (if tm_sec (cmos_round cmos t) \<noteq> uint (cmos (t + 6) 0) then cmos_loop cmos (t + 7)
      else Some (cmos_round cmos t))"

definition BCD_TO_BIN :: "int \<Rightarrow> int" where
  "BCD_TO_BIN v = (v AND 15) + (v div 16) * 10"

definition bcd_tm :: "tm \<Rightarrow> tm" where
  "bcd_tm t =
     \<lparr>tm_sec = BCD_TO_BIN (tm_sec t), tm_min = BCD_TO_BIN (tm_min t), tm_hour = BCD_TO_BIN (tm_hour t),
      tm_mday = BCD_TO_BIN (tm_mday t), tm_mon = BCD_TO_BIN (tm_mon t), tm_year = BCD_TO_BIN (tm_year t)\<rparr>"

text \<open>\<open>None\<close> when the clock is never read stable or the month table is read out of range.\<close>

definition time_init :: "(nat \<Rightarrow> nat \<Rightarrow> u8) \<Rightarrow> 'z sched_st_scheme \<Rightarrow> 'z sched_st_scheme option" where
  "time_init cmos s =
     (case cmos_loop cmos 0 of None \<Rightarrow> None
      | Some t \<Rightarrow> (case kernel_mktime (bcd_tm t) of None \<Rightarrow> None | Some v \<Rightarrow> Some (s\<lparr>startup_time := v\<rparr>)))"

section \<open>A calendar to compare with\<close>

definition leap :: "int \<Rightarrow> bool" where
  "leap y = (4 dvd y \<and> (\<not> 100 dvd y \<or> 400 dvd y))"

definition month_days :: "int \<Rightarrow> nat list" where
  "month_days y = [31, if leap y then 29 else 28, 31, 30, 31, 30, 31, 31, 30, 31, 30, 31]"

definition year_days :: "int \<Rightarrow> nat" where
  "year_days y = sum_list (month_days y)"

text \<open>Days from 1 January 1970 to the first of month \<open>m\<close> (from 0) of the year \<open>1970 + n\<close>.\<close>

definition days_before :: "nat \<Rightarrow> nat \<Rightarrow> nat" where
  "days_before n m = (\<Sum>k<n. year_days (1970 + int k)) + sum_list (take m (month_days (1970 + int n)))"

definition valid_tm :: "tm \<Rightarrow> bool" where
  "valid_tm t \<longleftrightarrow> 70 \<le> tm_year t \<and> tm_year t < 138 \<and> 0 \<le> tm_mon t \<and> tm_mon t < 12 \<and>
     1 \<le> tm_mday t \<and> tm_mday t \<le> int (month_days (1900 + tm_year t) ! nat (tm_mon t)) \<and>
     0 \<le> tm_hour t \<and> tm_hour t < 24 \<and> 0 \<le> tm_min t \<and> tm_min t < 60 \<and> 0 \<le> tm_sec t \<and> tm_sec t < 60"

definition epoch_seconds :: "tm \<Rightarrow> int" where
  "epoch_seconds t =
     86400 * (int (days_before (nat (tm_year t - 70)) (nat (tm_mon t))) + tm_mday t - 1) +
     3600 * tm_hour t + 60 * tm_min t + tm_sec t"

lemma leap_4: "n < 68 \<Longrightarrow> leap (1970 + int n) \<longleftrightarrow> (n + 2) mod 4 = 0"
proof -
  assume n: "n < 68"
  have "\<not> 100 dvd (1970 + int n) \<or> 400 dvd (1970 + int n)"
  proof (cases "n = 30")
    case True then show ?thesis by simp
  next
    case False with n show ?thesis by presburger
  qed
  moreover have "(4 dvd (1970 + int n)) = ((n + 2) mod 4 = 0)" by presburger
  ultimately show ?thesis by (auto simp: leap_def)
qed

lemma year_days_leap: "year_days y = (if leap y then 366 else 365)"
  by (simp add: year_days_def month_days_def)

lemma years_sum: "n \<le> 68 \<Longrightarrow> (\<Sum>k<n. year_days (1970 + int k)) = 365 * n + (n + 1) div 4"
proof (induction n)
  case (Suc n)
  then have "(\<Sum>k<Suc n. year_days (1970 + int k)) = 365 * n + (n + 1) div 4 + year_days (1970 + int n)" by simp
  also have "\<dots> = 365 * Suc n + (Suc n + 1) div 4"
    using Suc.prems leap_4 [of n] by (simp add: year_days_leap) presburger
  finally show ?case .
qed simp

lemma month_cases:
  "m < 12 \<Longrightarrow> m = 0 \<or> m = 1 \<or> m = 2 \<or> m = 3 \<or> m = 4 \<or> m = 5 \<or> m = 6 \<or> m = 7 \<or> m = 8 \<or> m = 9 \<or>
     m = 10 \<or> m = (11 :: nat)"
  by presburger

lemma month_table:
  assumes "m < 12"
  shows "month ! m - (if m > 1 \<and> \<not> leap y then DAY else 0) = 86400 * int (sum_list (take m (month_days y)))"
  using month_cases [OF assms]
  by (elim disjE) (simp_all add: month_def month_days_def clock_defs take_Cons')

lemma month_bounds: assumes "m < 12" shows "0 \<le> month ! m" "month ! m \<le> 335 * 86400"
  using month_cases [OF assms] by (elim disjE; simp add: month_def clock_defs)+

lemma month_days_le: assumes "m < 12" shows "month_days y ! m \<le> 31"
  using month_cases [OF assms] by (elim disjE) (simp_all add: month_days_def)

lemma mktime_leap_adjust:
  assumes "n < 68"
  shows "s32 (int n + 2) smod 4 = 0 \<longleftrightarrow> leap (1970 + int n)"
  using assms leap_4 [OF assms] by (simp add: s32_id smod_int_alt_def) presburger

text \<open>The function without its wrap-around, for the years that fit into 32 bits.\<close>

lemma mktime_no_overflow:
  assumes n: "n < 68" and m: "m < 12" and d: "1 \<le> d" "d \<le> 31" and h: "0 \<le> h" "h < 24"
    and mi: "0 \<le> mi" "mi < 60" and sec: "0 \<le> sec" "sec < 60"
  shows "kernel_mktime \<lparr>tm_sec = sec, tm_min = mi, tm_hour = h, tm_mday = d, tm_mon = int m, tm_year = 70 + int n\<rparr> =
    Some (YEAR * int n + DAY * int ((n + 1) div 4) +
      (month ! m - (if m > 1 \<and> \<not> leap (1970 + int n) then DAY else 0)) + DAY * (d - 1) + HOUR * h + MINUTE * mi + sec)"
proof -
  have s: "s32 v = v" if "0 \<le> v" "v \<le> 2147483647" for v using that by (simp add: s32_id)
  note mb = month_bounds [OF m]
  define adj where "adj = (if m > 1 \<and> \<not> leap (1970 + int n) then DAY else 0)"
  have adj: "0 \<le> adj" "adj \<le> month ! m"
    using month_table [OF m, of "1970 + int n"] by (auto simp: adj_def clock_defs)
  have q: "s32 (int n + 1) sdiv 4 = int ((n + 1) div 4)"
    using n by (simp add: s signed_divide_int_def zdiv_int)
  define Y where "Y = YEAR * int n"
  define Q where "Q = DAY * int ((n + 1) div 4)"
  have Yb: "0 \<le> Y" "Y \<le> 2112912000" and Qb: "0 \<le> Q" "Q \<le> 1468800"
    using n by (auto simp: Y_def Q_def clock_defs)
  have "s32 (Y + Q + month ! m - DAY) = Y + Q + month ! m - DAY" if "adj = DAY"
    using Yb Qb mb adj that by (intro s) auto
  then have step: "(if int m > 1 \<and> s32 (int n + 2) smod 4 \<noteq> 0 then s32 (Y + Q + month ! m - DAY)
      else Y + Q + month ! m) = Y + Q + (month ! m - adj)"
    using mktime_leap_adjust [OF n] by (auto simp: adj_def)
  define R where "R = Y + Q + (month ! m - adj)"
  have Rb: "0 \<le> R" "R \<le> 2143324800" using Yb Qb mb adj by (auto simp: R_def)
  have y: "s32 Y = Y" "s32 Q = Q" "s32 (Y + Q) = Y + Q" "s32 (Y + Q + month ! m) = Y + Q + month ! m"
    using Yb Qb mb by (auto intro!: s)
  have r: "s32 (d - 1) = d - 1" "s32 (DAY * (d - 1)) = DAY * (d - 1)" "s32 (R + DAY * (d - 1)) = R + DAY * (d - 1)"
    "s32 (HOUR * h) = HOUR * h" "s32 (R + DAY * (d - 1) + HOUR * h) = R + DAY * (d - 1) + HOUR * h"
    "s32 (MINUTE * mi) = MINUTE * mi"
    "s32 (R + DAY * (d - 1) + HOUR * h + MINUTE * mi) = R + DAY * (d - 1) + HOUR * h + MINUTE * mi"
    "s32 (R + DAY * (d - 1) + HOUR * h + MINUTE * mi + sec) = R + DAY * (d - 1) + HOUR * h + MINUTE * mi + sec"
    using Rb d h mi sec by (auto intro!: s simp: clock_defs)
  have n70: "s32 (70 + int n - 70) = int n" using n by (simp add: s)
  show ?thesis
    unfolding kernel_mktime_def tm.select_convs Let_def n70 q nat_int
      Y_def [symmetric] Q_def [symmetric] adj_def [symmetric] y step R_def [symmetric] r
    using m by simp
qed

lemma mktime_valid:
  assumes "valid_tm t"
  shows "kernel_mktime t = Some (epoch_seconds t)"
proof -
  obtain n where n: "tm_year t = 70 + int n"
    using assms zero_le_imp_eq_int [of "tm_year t - 70"] by (auto simp: valid_tm_def algebra_simps)
  obtain m where m: "tm_mon t = int m"
    using assms zero_le_imp_eq_int [of "tm_mon t"] by (auto simp: valid_tm_def)
  have nm: "n < 68" "m < 12" using assms n m by (auto simp: valid_tm_def)
  have d: "1 \<le> tm_mday t" "tm_mday t \<le> 31"
    using assms m month_days_le [OF nm(2), of "1900 + tm_year t"] by (auto simp: valid_tm_def)
  have t: "t = \<lparr>tm_sec = tm_sec t, tm_min = tm_min t, tm_hour = tm_hour t, tm_mday = tm_mday t,
      tm_mon = int m, tm_year = 70 + int n\<rparr>"
    using n m by (cases t) simp
  have e: "epoch_seconds t = YEAR * int n + DAY * int ((n + 1) div 4) +
      (month ! m - (if m > 1 \<and> \<not> leap (1970 + int n) then DAY else 0)) +
      DAY * (tm_mday t - 1) + HOUR * tm_hour t + MINUTE * tm_min t + tm_sec t"
    using n m nm years_sum [of n] month_table [OF nm(2), of "1970 + int n"]
    by (simp add: epoch_seconds_def days_before_def clock_defs algebra_simps)
  show ?thesis
    using mktime_no_overflow [OF nm d, of "tm_hour t" "tm_min t" "tm_sec t"] assms
    by (subst t, subst e) (simp add: valid_tm_def)
qed

text \<open>
  C12: For every valid date and time from 1970 to 2037, \<open>kernel_mktime\<close> returns the number of seconds
  since 1 January 1970 that the Gregorian calendar gives: the leap-year offsets \<open>(year+1)/4\<close> and
  \<open>(year+2)%4\<close> and the leap-year month table are right, and no intermediate value overflows.
\<close>

theorem kernel_mktime_gregorian:
  assumes "valid_tm t"
  shows "kernel_mktime t = Some (epoch_seconds t)"
  by (rule mktime_valid [OF assms])

text \<open>The leap day of 2000 and the last second of 2037.\<close>

theorem kernel_mktime_witness:
  "kernel_mktime \<lparr>tm_sec = 0, tm_min = 0, tm_hour = 12, tm_mday = 29, tm_mon = 1, tm_year = 100\<rparr> = Some 951825600 \<and>
   valid_tm \<lparr>tm_sec = 59, tm_min = 59, tm_hour = 23, tm_mday = 31, tm_mon = 11, tm_year = 137\<rparr> \<and>
   kernel_mktime \<lparr>tm_sec = 59, tm_min = 59, tm_hour = 23, tm_mday = 31, tm_mon = 11, tm_year = 137\<rparr> = Some 2145916799"
proof -
  have v: "valid_tm \<lparr>tm_sec = 0, tm_min = 0, tm_hour = 12, tm_mday = 29, tm_mon = 1, tm_year = 100\<rparr>"
    "valid_tm \<lparr>tm_sec = 59, tm_min = 59, tm_hour = 23, tm_mday = 31, tm_mon = 11, tm_year = 137\<rparr>"
    by (simp_all add: valid_tm_def month_days_def leap_def)
  show ?thesis
    using v kernel_mktime_gregorian [OF v(1)] kernel_mktime_gregorian [OF v(2)]
    by (simp add: epoch_seconds_def days_before_def years_sum month_days_def leap_def)
qed

section \<open>Decoding the CMOS clock\<close>

text \<open>The BCD byte of a number below 100.\<close>

definition bcd :: "int \<Rightarrow> int" where
  "bcd v = 16 * (v div 10) + v mod 10"

lemma BCD_TO_BIN_bcd: "0 \<le> v \<Longrightarrow> v < 100 \<Longrightarrow> BCD_TO_BIN (bcd v) = v"
proof -
  have "bcd v AND 15 = bcd v mod 16"
    using take_bit_eq_mask [of 4 "bcd v"] by (simp add: take_bit_eq_mod mask_eq_exp_minus_1)
  then show ?thesis by (simp add: BCD_TO_BIN_def bcd_def)
qed

lemma uint_bcd: "0 \<le> v \<Longrightarrow> v < 100 \<Longrightarrow> uint (word_of_int (bcd v) :: u8) = bcd v"
proof -
  assume v: "0 \<le> v" "v < 100"
  then have "0 \<le> bcd v" "bcd v < 256" by (auto simp: bcd_def)
  then show ?thesis by (simp add: uint_word_of_int)
qed

text \<open>A clock that keeps showing the date \<open>d\<close> in its BCD registers (months counted from 1, two digits
  of the year).\<close>

definition clock_shows :: "(nat \<Rightarrow> nat \<Rightarrow> u8) \<Rightarrow> tm \<Rightarrow> bool" where
  "clock_shows cmos d \<longleftrightarrow> (\<forall>k. cmos k 0 = word_of_int (bcd (tm_sec d)) \<and>
     cmos k 2 = word_of_int (bcd (tm_min d)) \<and> cmos k 4 = word_of_int (bcd (tm_hour d)) \<and>
     cmos k 7 = word_of_int (bcd (tm_mday d)) \<and> cmos k 8 = word_of_int (bcd (tm_mon d + 1)) \<and>
     cmos k 9 = word_of_int (bcd (tm_year d)))"

lemma bcd_month: "0 \<le> m \<Longrightarrow> m < 12 \<Longrightarrow> BCD_TO_BIN (bcd (m + 1) - 1) = (if m = 9 then 15 else m)"
proof -
  assume "0 \<le> m" "m < 12"
  then have "m = 0 \<or> m = 1 \<or> m = 2 \<or> m = 3 \<or> m = 4 \<or> m = 5 \<or> m = 6 \<or> m = 7 \<or> m = 8 \<or> m = 9 \<or> m = 10 \<or> m = 11"
    by presburger
  then show ?thesis by (elim disjE) (simp_all add: BCD_TO_BIN_def bcd_def)
qed

lemma cmos_loop_shows:
  assumes "clock_shows cmos d" "valid_tm d" "tm_year d < 100"
  shows "cmos_loop cmos t = Some (cmos_round cmos t)"
    "bcd_tm (cmos_round cmos t) = d\<lparr>tm_mon := if tm_mon d = 9 then 15 else tm_mon d\<rparr>"
proof -
  show "cmos_loop cmos t = Some (cmos_round cmos t)"
    using assms(1) by (subst cmos_loop.simps) (simp add: cmos_round_def clock_shows_def)
  have "nat (tm_mon d) < 12" using assms(2) by (simp add: valid_tm_def nat_less_iff)
  then have d31: "tm_mday d \<le> 31"
    using assms(2) month_days_le [of "nat (tm_mon d)" "1900 + tm_year d"] by (simp add: valid_tm_def)
  then show "bcd_tm (cmos_round cmos t) = d\<lparr>tm_mon := if tm_mon d = 9 then 15 else tm_mon d\<rparr>"
    using assms bcd_month [of "tm_mon d"]
    by (cases d) (simp add: clock_shows_def valid_tm_def bcd_tm_def cmos_round_def uint_bcd BCD_TO_BIN_bcd)
qed

text \<open>
  C13: When the CMOS clock shows a valid date of 1970 to 1999, \<open>time_init\<close> ends and sets
  \<open>startup_time\<close> to the seconds since 1970, except in October: the month is decremented before it is
  converted from BCD, so that 0x10 becomes 15 and the month table is read out of range.
\<close>

theorem time_init_decodes:
  assumes "clock_shows cmos d" "valid_tm d" "tm_year d < 100"
  shows "time_init cmos s = (if tm_mon d = 9 then None else Some (s\<lparr>startup_time := epoch_seconds d\<rparr>))"
proof (cases "tm_mon d = 9")
  case True
  then show ?thesis
    using cmos_loop_shows [OF assms, of 0] by (simp add: time_init_def kernel_mktime_def)
next
  case False
  then have "d\<lparr>tm_mon := if tm_mon d = 9 then 15 else tm_mon d\<rparr> = d" by (cases d) simp
  with False show ?thesis
    using cmos_loop_shows [OF assms, of 0] mktime_valid [OF assms(2)] by (simp add: time_init_def)
qed

definition clock_1991 :: tm where
  "clock_1991 = \<lparr>tm_sec = 8, tm_min = 57, tm_hour = 20, tm_mday = 25, tm_mon = 7, tm_year = 91\<rparr>"

theorem time_init_witness:
  "time_init (\<lambda>k r. if r = 0 then 0x08 else if r = 2 then 0x57 else if r = 4 then 0x20 else if r = 7 then 0x25
      else if r = 8 then 0x08 else 0x91) two_tasks = Some (two_tasks\<lparr>startup_time := 683153828\<rparr>) \<and>
   time_init (\<lambda>k r. if r = 0 then 0x08 else if r = 2 then 0x57 else if r = 4 then 0x20 else if r = 7 then 0x25
      else if r = 8 then 0x10 else 0x91) two_tasks = None"
proof -
  define oct where "oct = clock_1991\<lparr>tm_mon := 9\<rparr>"
  let ?clk = "\<lambda>m k (r :: nat). if r = 0 then 0x08 else if r = 2 then 0x57 else if r = 4 then 0x20 else if r = 7 then 0x25
      else if r = 8 then m else (0x91 :: u8)"
  have c: "clock_shows (?clk 0x08) clock_1991" "clock_shows (?clk 0x10) oct"
    by (simp_all add: clock_shows_def clock_1991_def oct_def bcd_def)
  have v: "valid_tm clock_1991" "valid_tm oct"
    by (simp_all add: valid_tm_def clock_1991_def oct_def month_days_def leap_def)
  have e: "epoch_seconds clock_1991 = 683153828"
    by (simp add: epoch_seconds_def clock_1991_def days_before_def years_sum month_days_def leap_def)
  show ?thesis
    using time_init_decodes [OF c(1) v(1), of two_tasks] time_init_decodes [OF c(2) v(2), of two_tasks] e
    by (simp add: clock_1991_def oct_def)
qed

end
