(* ===== verification/Start.thy ===== *)
theory Start
  imports Traps Kernel_Time
begin

text \<open>
  The start of the kernel: \<open>main\<close> of \<open>init/main.c\<close> as the composition of the initialisers, with what they do to the
  interrupt descriptors and the ports; \<open>kernel/serial.c\<close> is here. The ports are the list of the writes so far, and a read is a
  parameter that may depend on it. The addresses of interrupt routines are chosen by the linker and are a parameter too.
\<close>

type_synonym io = "(u16 \<times> u8) list"

record hardware =
  idt :: "nat \<Rightarrow> desc_struct"
  ports :: io

text \<open>The machine as it answers: a byte from a port, and the addresses of the entry points.\<close>

record board =
  in_port :: "u16 \<Rightarrow> io \<Rightarrow> u8"
  stub_addr :: "trap_stub \<Rightarrow> u32"
  irq_addr :: "nat \<Rightarrow> u32"
  sys_addr :: u32
  cmos :: "nat \<Rightarrow> nat \<Rightarrow> u8"
  cursor_x :: u8
  cursor_y :: u8
  tss0_addr :: u32
  ldt0_addr :: u32

definition outb :: "u8 \<Rightarrow> u16 \<Rightarrow> hardware \<Rightarrow> hardware" where
  "outb v p h = h\<lparr>ports := ports h @ [(p, v)]\<rparr>"

definition inb :: "board \<Rightarrow> u16 \<Rightarrow> hardware \<Rightarrow> u8" where
  "inb b p h = in_port b p (ports h)"

definition upd_idt :: "((nat \<Rightarrow> desc_struct) \<Rightarrow> nat \<Rightarrow> desc_struct) \<Rightarrow> hardware \<Rightarrow> hardware" where
  "upd_idt f h = h\<lparr>idt := f (idt h)\<rparr>"

section \<open>The interrupts and ports of the devices\<close>

definition serial_init :: "u16 \<Rightarrow> hardware \<Rightarrow> hardware" where
  "serial_init port h =
     outb 0x0d (port + 1) (outb 0x0b (port + 4) (outb 0x03 (port + 3) (outb 0x00 (port + 1) (outb 0x30 port (outb 0x80 (port + 3) h)))))"

definition rs_init :: "board \<Rightarrow> u16 \<Rightarrow> u16 \<Rightarrow> hardware \<Rightarrow> hardware" where
  "rs_init b p1 p2 h =
     (let h = upd_idt (set_intr_gate 0x24 (irq_addr b 4)) h;
          h = upd_idt (set_intr_gate 0x23 (irq_addr b 3)) h;
          h = serial_init p2 (serial_init p1 h)
      in outb (inb b 0x21 h AND 0xE7) 0x21 h)"

definition con_init_ports :: "board \<Rightarrow> hardware \<Rightarrow> hardware" where
  "con_init_ports b h =
     (let h = upd_idt (set_trap_gate 0x21 (irq_addr b 1)) h;
          h = outb (inb b 0x21 h AND 0xfd) 0x21 h;
          a = inb b 0x61 h
      in outb a 0x61 (outb (a OR 0x80) 0x61 h))"

definition LATCH :: int where "LATCH = 1193180 div HZ"

definition sched_init_ports :: "board \<Rightarrow> hardware \<Rightarrow> hardware" where
  "sched_init_ports b h =
     (let h = outb (word_of_int (LATCH div 256)) 0x40 (outb (word_of_int (LATCH mod 256)) 0x40 (outb 0x36 0x43 h));
          h = upd_idt (set_intr_gate 0x20 (irq_addr b 0)) h;
          h = outb (inb b 0x21 h AND NOT 0x01) 0x21 h
      in upd_idt (set_system_gate 0x80 (sys_addr b)) h)"

definition hd_init_ports :: "board \<Rightarrow> hardware \<Rightarrow> hardware" where
  "hd_init_ports b h =
     (let h = upd_idt (set_trap_gate 0x2E (irq_addr b 14)) h;
          h = outb (inb b 0x21 h AND 0xfb) 0x21 h
      in outb (inb b 0xA1 h AND 0xbf) 0xA1 h)"

section \<open>main\<close>

text \<open>
  \<open>tty_init\<close> is \<open>rs_init\<close> and \<open>con_init\<close>. The result is \<open>None\<close> when the clock never shows the same second twice or shows a
  month that \<open>kernel_mktime\<close> has no entry for. After this \<open>main\<close> enters the user mode as task 0, forks \<open>init\<close> and pauses for ever.
\<close>

definition sched_report :: "'z sched_st_scheme \<Rightarrow> 'z sched_st_scheme" where
  "sched_report s =
     printk '' [SCHED] Logic Validity Check: PASS. Spider-Web Integrity: ACTIVE.'' []
       (printk '' [SCHED] Rhee Extreme Scheduler: Initialized (Preemptive Multitasking Enabled)'' [] s)"

definition start_state :: "board \<Rightarrow> 'z hd_st_scheme \<Rightarrow> 'z hd_st_scheme option" where
  "start_state b s =
     (case time_init (cmos b) s of None \<Rightarrow> None
      | Some s \<Rightarrow>
          Some (hd_init (buffer_init (sched_report (sched_init (tss0_addr b) (ldt0_addr b) (con_init (cursor_x b) (cursor_y b) s))))))"

definition start_hardware :: "board \<Rightarrow> hardware \<Rightarrow> hardware" where
  "start_hardware b h =
     hd_init_ports b (sched_init_ports b (upd_idt (trap_init (stub_addr b)) (con_init_ports b (rs_init b 0x3f8 0x2f8 h))))"

section \<open>The descriptors after the start\<close>

lemma port_steps_idt [simp]:
  "idt (outb v p h) = idt h" "idt (upd_idt f h) = f (idt h)" "idt (serial_init p h) = idt h"
  by (simp_all add: outb_def upd_idt_def serial_init_def)

text \<open>The traps, the timer (0x20), the keyboard (0x21), the serial lines (0x23, 0x24), the disk (0x2E) and the system call (0x80).\<close>

lemma start_idt:
  "idt (start_hardware b h) n =
     (if n < 32 then set_gate 15 (if 3 \<le> n \<and> n \<le> 5 then 3 else 0) (stub_addr b (trap_stubs ! n))
      else if n = 0x20 then set_gate 14 0 (irq_addr b 0)
      else if n = 0x21 then set_gate 15 0 (irq_addr b 1)
      else if n = 0x23 then set_gate 14 0 (irq_addr b 3)
      else if n = 0x24 then set_gate 14 0 (irq_addr b 4)
      else if n = 0x2E then set_gate 15 0 (irq_addr b 14)
      else if n = 0x80 then set_gate 15 3 (sys_addr b)
      else idt h n)"
proof -
  have e: "idt (start_hardware b h) = set_trap_gate 0x2E (irq_addr b 14) (set_system_gate 0x80 (sys_addr b) (set_intr_gate 0x20 (irq_addr b 0)
      (trap_init (stub_addr b) (set_trap_gate 0x21 (irq_addr b 1) (set_intr_gate 0x23 (irq_addr b 3) (set_intr_gate 0x24 (irq_addr b 4) (idt h)))))))"
    by (simp add: start_hardware_def hd_init_ports_def sched_init_ports_def con_init_ports_def rs_init_def Let_def)
  show ?thesis
  proof (cases "n < 32")
    case True
    then show ?thesis unfolding e using trap_init_gates(1) [OF True] by (simp add: set_trap_gate_def set_intr_gate_def set_system_gate_def)
  next
    case False
    then have "32 \<le> n" by simp
    then show ?thesis unfolding e
      by (simp add: trap_init_gates(2) set_trap_gate_def set_intr_gate_def set_system_gate_def)
  qed
qed

text \<open>Besides the traps 3, 4 and 5 a user can enter the kernel only by the system call.\<close>

lemma start_user_gates: "(\<And>k. gate_dpl (idt h k) \<noteq> 3) \<Longrightarrow> gate_dpl (idt (start_hardware b h) n) = 3 \<longleftrightarrow> n \<in> {3, 4, 5, 0x80}"
  using set_gate_offset(2) [of 3 15] set_gate_offset(2) [of 0 15] set_gate_offset(2) [of 0 14] by (auto simp: start_idt)

section \<open>The interrupts that are open\<close>

text \<open>
  The mask register of the 8259A interrupt controller is read back as it was written (its data sheet); \<open>m\<close> is its value before.
\<close>

definition mask_of :: "u8 \<Rightarrow> io \<Rightarrow> u8" where
  "mask_of m h = (case find (\<lambda>x. fst x = 0x21) (rev h) of None \<Rightarrow> m | Some x \<Rightarrow> snd x)"

lemma mask_of_snoc: "mask_of m (h @ [(p, v)]) = (if p = 0x21 then v else mask_of m h)"
  by (simp add: mask_of_def)

lemma ports_outb: "ports (outb v p h) = ports h @ [(p, v)]" "ports (upd_idt f h) = ports h"
  by (simp_all add: outb_def upd_idt_def)

lemma start_mask:
  assumes "\<And>h. in_port b 0x21 h = mask_of m h" "ports h = []"
  shows "mask_of m (ports (start_hardware b h)) = m AND 0xe0"
proof -
  show ?thesis
    by (simp only: start_hardware_def hd_init_ports_def sched_init_ports_def con_init_ports_def rs_init_def serial_init_def Let_def
        inb_def ports_outb assms mask_of_snoc append_Nil) (simp add: mask_of_def and.assoc)
qed

end
