(* ===== verification/Vsprintf.thy ===== *)
theory Vsprintf
  imports Kernel_Prelude
begin

text \<open>
  Formatted output: \<open>skip_atoi\<close>, \<open>number\<close> and \<open>vsprintf\<close> of \<open>kernel/vsprintf.c\<close>.

  A format is the byte list before its NUL. The arguments are the 32-bit words that \<open>va_arg\<close> reads one
  after the other; \<open>mem\<close> is the memory that a \<open>%s\<close> or \<open>%n\<close> argument points into. The output is the byte
  list written from \<open>buf\<close> on, without its NUL, so that its length is the result of the C function; it
  is assumed not to overlap the format and the strings. \<open>None\<close> stands for an argument that was not
  passed or a string without an end.

  The lemmas give the layout of a printed number (sign, prefix, padding, precision) and show that the
  digits read back to the number.
\<close>

section \<open>Numbers\<close>

definition is_digit :: "u8 \<Rightarrow> bool" where
  "is_digit c \<longleftrightarrow> ch (CHR ''0'') \<le> c \<and> c \<le> ch (CHR ''9'')"

fun skip_atoi :: "int \<Rightarrow> u8 list \<Rightarrow> int \<times> u8 list" where
  "skip_atoi i [] = (i, [])"
| "skip_atoi i (c # cs) =
     (if is_digit c then skip_atoi (s32 (i * 10 + uint c - 48)) cs else (i, c # cs))"

definition ZEROPAD :: u32 where "ZEROPAD = 1"
definition SIGN :: u32 where "SIGN = 2"
definition PLUS :: u32 where "PLUS = 4"
definition SPACE :: u32 where "SPACE = 8"
definition LEFT :: u32 where "LEFT = 16"
definition SPECIAL :: u32 where "SPECIAL = 32"
definition SMALL :: u32 where "SMALL = 64"

lemmas flag_defs = ZEROPAD_def SIGN_def PLUS_def SPACE_def LEFT_def SPECIAL_def SMALL_def

definition has :: "u32 \<Rightarrow> u32 \<Rightarrow> bool" where
  "has flags f \<longleftrightarrow> flags AND f \<noteq> 0"

definition digits :: "bool \<Rightarrow> nat \<Rightarrow> u8" where
  "digits small n =
     (if n < 10 then 48 + of_nat n else if small then 87 + of_nat n else 55 + of_nat n)"

text \<open>The digits that repeated \<open>do_div\<close> stores into \<open>tmp\<close>, the least significant first.\<close>

function do_divs :: "nat \<Rightarrow> nat \<Rightarrow> nat list" where
  "do_divs base n = (if n = 0 \<or> base < 2 then [] else n mod base # do_divs base (n div base))"
  by pat_completeness auto
termination by (relation "measure snd") auto

declare do_divs.simps [simp del]

text \<open>\<open>while (n-- > 0) *str++ = c\<close>: the bytes, and the counter after the loop.\<close>

definition fill :: "u8 \<Rightarrow> int \<Rightarrow> u8 list \<times> int" where
  "fill c n = (replicate (nat n) c, if n > 0 then -1 else s32 (n - 1))"

definition number :: "u32 \<Rightarrow> int \<Rightarrow> int \<Rightarrow> int \<Rightarrow> u32 \<Rightarrow> u8 list option" where
  "number num base size0 precision type =
     (let small = has type SMALL;
          type = (if has type LEFT then type AND NOT ZEROPAD else type)
      in if base < 2 \<or> base > 36 then None
         else
           let c = (if has type ZEROPAD then ch (CHR ''0'') else ch (CHR '' ''));
               neg = (has type SIGN \<and> sint num < 0);
               sign = (if neg then [ch (CHR ''-'')]
                       else if has type PLUS then [ch (CHR ''+'')]
                       else if has type SPACE then [ch (CHR '' '')] else []);
               num = (if neg then - num else num);
               sz = (if sign \<noteq> [] then s32 (size0 - 1) else size0);
               sz = (if has type SPECIAL
                     then (if base = 16 then s32 (sz - 2) else if base = 8 then s32 (sz - 1) else sz)
                     else sz);
               tmp = (if num = 0 then [ch (CHR ''0'')] else map (digits small) (do_divs (nat base) (unat num)));
               i = int (length tmp);
               precision = (if i > precision then i else precision);
               sz = s32 (sz - precision);
               (sp1, sz) = (if has type ZEROPAD \<or> has type LEFT then ([], sz) else fill (ch (CHR '' '')) sz);
               prefix = (if has type SPECIAL
                         then (if base = 8 then [ch (CHR ''0'')]
                               else if base = 16 then [ch (CHR ''0''), digits small 33] else [])
                         else []);
               (pad, sz) = (if has type LEFT then ([], sz) else fill c sz);
               zeros = replicate (nat (precision - i)) (ch (CHR ''0''));
               (sp2, sz) = fill (ch (CHR '' '')) sz
           in Some (sp1 @ sign @ prefix @ pad @ zeros @ rev tmp @ sp2))"

section \<open>The conversions\<close>

text \<open>The byte at the format pointer: the NUL at the end.\<close>

definition at :: "u8 list \<Rightarrow> u8" where
  "at fmt = (case fmt of [] \<Rightarrow> 0 | c # _ \<Rightarrow> c)"

fun parse_flags :: "u32 \<Rightarrow> u8 list \<Rightarrow> u32 \<times> u8 list" where
  "parse_flags flags [] = (flags, [])"
| "parse_flags flags (c # cs) =
     (if c = ch (CHR ''-'') then parse_flags (flags OR LEFT) cs
      else if c = ch (CHR ''+'') then parse_flags (flags OR PLUS) cs
      else if c = ch (CHR '' '') then parse_flags (flags OR SPACE) cs
      else if c = ch (CHR ''#'') then parse_flags (flags OR SPECIAL) cs
      else if c = ch (CHR ''0'') then parse_flags (flags OR ZEROPAD) cs
      else (flags, c # cs))"

text \<open>Field width: a number, or \<open>*\<close> for the next argument. The pointer stays on the \<open>*\<close>.\<close>

definition parse_width :: "u32 \<Rightarrow> u8 list \<Rightarrow> u32 list \<Rightarrow> (u32 \<times> int \<times> u8 list \<times> u32 list) option" where
  "parse_width flags fmt args =
     (if is_digit (at fmt) then (case skip_atoi 0 fmt of (w, fmt) \<Rightarrow> Some (flags, w, fmt, args))
      else if at fmt = ch (CHR ''*'')
      then (case args of [] \<Rightarrow> None
            | a # args \<Rightarrow>
               if sint a < 0 then Some (flags OR LEFT, s32 (- sint a), fmt, args)
               else Some (flags, sint a, fmt, args))
      else Some (flags, -1, fmt, args))"

definition parse_precision :: "u8 list \<Rightarrow> u32 list \<Rightarrow> (int \<times> u8 list \<times> u32 list) option" where
  "parse_precision fmt args =
     (if at fmt = ch (CHR ''.'')
      then
        (let fmt = tl fmt
         in if is_digit (at fmt)
            then (case skip_atoi 0 fmt of (p, fmt) \<Rightarrow> Some (if p < 0 then 0 else p, fmt, args))
            else if at fmt = ch (CHR ''*'')
            then (case args of [] \<Rightarrow> None | a # args \<Rightarrow> Some (if sint a < 0 then 0 else sint a, fmt, args))
            else Some (0, fmt, args))
      else Some (-1, fmt, args))"

definition skip_qualifier :: "u8 list \<Rightarrow> u8 list" where
  "skip_qualifier fmt = (if at fmt \<in> {ch (CHR ''h''), ch (CHR ''l''), ch (CHR ''L'')} then tl fmt else fmt)"

partial_function (option) strlen :: "(u32 \<Rightarrow> u8) \<Rightarrow> u32 \<Rightarrow> nat \<Rightarrow> nat option" where
  "strlen mem a n = (if mem (a + of_nat n) = 0 then Some n else strlen mem a (n + 1))"

text \<open>The padding loops \<open>while (--n > 0)\<close> of \<open>%c\<close> and \<open>while (len < n--)\<close> of \<open>%s\<close>, with the counter after
  each.\<close>

definition fill_pre :: "int \<Rightarrow> u8 list \<times> int" where
  "fill_pre n = (replicate (nat (s32 (n - 1))) (ch (CHR '' '')), if s32 (n - 1) > 0 then 0 else s32 (n - 1))"

definition fill_to :: "int \<Rightarrow> int \<Rightarrow> u8 list \<times> int" where
  "fill_to len n = (replicate (nat (n - len)) (ch (CHR '' '')), if len < n then s32 (len - 1) else s32 (n - 1))"

definition conv_c :: "u32 \<Rightarrow> int \<Rightarrow> u32 \<Rightarrow> u8 list" where
  "conv_c flags width a =
     (case (if has flags LEFT then ([], width) else fill_pre width) of (sp1, width) \<Rightarrow>
        sp1 @ ucast a # fst (fill_pre width))"

definition conv_s :: "u32 \<Rightarrow> int \<Rightarrow> int \<Rightarrow> u8 list \<Rightarrow> u8 list" where
  "conv_s flags width precision str =
     (let len = (if precision < 0 then length str
                 else if int (length str) > precision then nat precision else length str)
      in case (if has flags LEFT then ([], width) else fill_to (int len) width) of (sp1, width) \<Rightarrow>
           sp1 @ take len str @ fst (fill_to (int len) width))"

definition put_int :: "u32 \<Rightarrow> u32 \<Rightarrow> (u32 \<Rightarrow> u8) \<Rightarrow> u32 \<Rightarrow> u8" where
  "put_int a v mem =
     mem(a := ucast v, a + 1 := ucast (drop_bit 8 v), a + 2 := ucast (drop_bit 16 v), a + 3 := ucast (drop_bit 24 v))"

text \<open>
  One conversion at the character \<open>c\<close> (0 at the end of the format): the bytes it prints, the remaining
  arguments and the memory. \<open>len\<close> is \<open>str - buf\<close>.
\<close>

definition convert :: "u8 \<Rightarrow> u32 \<Rightarrow> int \<Rightarrow> int \<Rightarrow> nat \<Rightarrow> u32 list \<Rightarrow> (u32 \<Rightarrow> u8) \<Rightarrow>
    (u8 list \<times> u32 list \<times> (u32 \<Rightarrow> u8)) option" where
  "convert c flags width precision len args mem =
     (let num = (\<lambda>base flags width. case args of [] \<Rightarrow> None
            | a # args \<Rightarrow> (case number a base width precision flags of None \<Rightarrow> None
                 | Some out \<Rightarrow> Some (out, args, mem)))
      in if c = ch (CHR ''c'') then (case args of [] \<Rightarrow> None | a # args \<Rightarrow> Some (conv_c flags width a, args, mem))
         else if c = ch (CHR ''s'')
         then (case args of [] \<Rightarrow> None
               | a # args \<Rightarrow> (case strlen mem a 0 of None \<Rightarrow> None
                    | Some n \<Rightarrow> Some (conv_s flags width precision (map (\<lambda>i. mem (a + of_nat i)) [0..<n]), args, mem)))
         else if c = ch (CHR ''o'') then num 8 flags width
         else if c = ch (CHR ''p'')
         then (if width = -1 then num 16 (flags OR ZEROPAD) 8 else num 16 flags width)
         else if c = ch (CHR ''x'') then num 16 (flags OR SMALL) width
         else if c = ch (CHR ''X'') then num 16 flags width
         else if c = ch (CHR ''d'') \<or> c = ch (CHR ''i'') then num 10 (flags OR SIGN) width
         else if c = ch (CHR ''u'') then num 10 flags width
         else if c = ch (CHR ''n'')
         then (case args of [] \<Rightarrow> None | a # args \<Rightarrow> Some ([], args, put_int a (of_nat len) mem))
         else Some ((if c \<noteq> ch (CHR ''%'') then [ch (CHR ''%'')] else []) @ (if c \<noteq> 0 then [c] else []), args, mem))"

lemma parse_flags_length: "length (snd (parse_flags flags cs)) \<le> length cs"
  by (induction cs arbitrary: flags) (auto simp: le_SucI)

lemma skip_atoi_length: "length (snd (skip_atoi i cs)) \<le> length cs"
  by (induction cs arbitrary: i) (auto simp: le_SucI)

lemma parse_width_length: "parse_width flags fmt args = Some (fl, w, fmt', args') \<Longrightarrow> length fmt' \<le> length fmt"
  using skip_atoi_length [of 0 fmt] by (auto simp: parse_width_def split: if_splits list.splits prod.splits)

lemma parse_precision_length: "parse_precision fmt args = Some (p, fmt', args') \<Longrightarrow> length fmt' \<le> length fmt"
  using skip_atoi_length [of 0 "tl fmt"]
  by (auto simp: parse_precision_def Let_def split: if_splits list.splits prod.splits)

lemma skip_qualifier_length: "length (skip_qualifier fmt) \<le> length fmt"
  by (simp add: skip_qualifier_def)

text \<open>A whole conversion specification after its \<open>%\<close>.\<close>

definition parse_spec :: "u8 list \<Rightarrow> u32 list \<Rightarrow> (u32 \<times> int \<times> int \<times> u8 list \<times> u32 list) option" where
  "parse_spec fmt args =
     (case parse_flags 0 fmt of (flags, fmt) \<Rightarrow>
      case parse_width flags fmt args of None \<Rightarrow> None
      | Some (flags, width, fmt, args) \<Rightarrow>
        case parse_precision fmt args of None \<Rightarrow> None
        | Some (precision, fmt, args) \<Rightarrow> Some (flags, width, precision, skip_qualifier fmt, args))"

lemma parse_spec_length:
  "parse_spec fmt args = Some (flags, width, precision, fmt', args') \<Longrightarrow> length fmt' \<le> length fmt"
  using parse_flags_length [of 0 fmt]
  by (auto simp: parse_spec_def split: prod.splits option.splits
      dest!: parse_width_length parse_precision_length intro: order_trans [OF skip_qualifier_length])

function vsprintf_loop :: "u8 list \<Rightarrow> u8 list \<Rightarrow> u32 list \<Rightarrow> (u32 \<Rightarrow> u8) \<Rightarrow> (u8 list \<times> (u32 \<Rightarrow> u8)) option" where
  "vsprintf_loop out [] args mem = Some (out, mem)"
| "vsprintf_loop out (c # fmt) args mem =
     (if c \<noteq> ch (CHR ''%'') then vsprintf_loop (out @ [c]) fmt args mem
      else case parse_spec fmt args of None \<Rightarrow> None
        | Some (flags, width, precision, fmt', args') \<Rightarrow>
           case convert (at fmt') flags width precision (length out) args' mem of None \<Rightarrow> None
           | Some (bs, args'', mem') \<Rightarrow> vsprintf_loop (out @ bs) (tl fmt') args'' mem')"
  by pat_completeness auto
termination by (relation "measure (\<lambda>(out, fmt, args, mem). length fmt)") (auto dest!: parse_spec_length)

definition vsprintf :: "u8 list \<Rightarrow> u32 list \<Rightarrow> (u32 \<Rightarrow> u8) \<Rightarrow> (u8 list \<times> (u32 \<Rightarrow> u8)) option" where
  "vsprintf fmt args mem = vsprintf_loop [] fmt args mem"

section \<open>What a number looks like\<close>

definition is_neg :: "u32 \<Rightarrow> u32 \<Rightarrow> bool" where
  "is_neg num type \<longleftrightarrow> has type SIGN \<and> sint num < 0"

definition magnitude :: "u32 \<Rightarrow> u32 \<Rightarrow> nat" where
  "magnitude num type = (if is_neg num type then nat (- sint num) else unat num)"

definition sign_of :: "u32 \<Rightarrow> u32 \<Rightarrow> u8 list" where
  "sign_of num type =
     (if is_neg num type then [ch (CHR ''-'')] else if has type PLUS then [ch (CHR ''+'')]
      else if has type SPACE then [ch (CHR '' '')] else [])"

definition prefix_of :: "int \<Rightarrow> u32 \<Rightarrow> u8 list" where
  "prefix_of base type =
     (if has type SPECIAL \<and> base = 8 then [ch (CHR ''0'')]
      else if has type SPECIAL \<and> base = 16 then [ch (CHR ''0''), ch (if has type SMALL then CHR ''x'' else CHR ''X'')]
      else [])"

text \<open>A field of at least \<open>width\<close> bytes: padded on the right, with zeros after the prefix, or on the left.\<close>

definition field :: "u32 \<Rightarrow> nat \<Rightarrow> u8 list \<Rightarrow> u8 list \<Rightarrow> u8 list" where
  "field type width pre ds =
     (let n = width - (length pre + length ds)
      in if has type LEFT then pre @ ds @ replicate n (ch (CHR '' ''))
         else if has type ZEROPAD then pre @ replicate n (ch (CHR ''0'')) @ ds
         else replicate n (ch (CHR '' '')) @ pre @ ds)"

definition from_digits :: "nat \<Rightarrow> nat list \<Rightarrow> nat" where
  "from_digits base ds = foldl (\<lambda>v d. base * v + d) 0 ds"

lemma do_divs_0 [simp]: "do_divs base 0 = []"
  by (simp add: do_divs.simps)

lemma do_divs_digit: "d \<in> set (do_divs base n) \<Longrightarrow> d < base"
  by (induction base n rule: do_divs.induct) (subst (asm) (2) do_divs.simps, auto split: if_splits)

lemma do_divs_value: "base \<ge> 2 \<Longrightarrow> from_digits base (rev (do_divs base n)) = n"
proof (induction base n rule: do_divs.induct)
  case (1 base n)
  then show ?case by (subst do_divs.simps) (auto simp: from_digits_def)
qed

lemma do_divs_last: "base \<ge> 2 \<Longrightarrow> n \<noteq> 0 \<Longrightarrow> do_divs base n \<noteq> [] \<and> last (do_divs base n) \<noteq> 0"
proof (induction base n rule: do_divs.induct)
  case (1 base n)
  show ?case
  proof (cases "n div base = 0")
    case True
    then have "n < base" using "1.prems" by (simp add: div_eq_0_iff)
    with True "1.prems" show ?thesis by (subst (1 2) do_divs.simps) simp
  next
    case False
    with "1" show ?thesis by (subst (1 2) do_divs.simps) simp
  qed
qed

text \<open>The numeral of a value: its digits, the most significant first.\<close>

definition numeral_of :: "nat \<Rightarrow> nat \<Rightarrow> nat list" where
  "numeral_of base n = (if n = 0 then [0] else rev (do_divs base n))"

lemma numeral_of_ok:
  assumes "base \<ge> 2"
  shows "from_digits base (numeral_of base n) = n" "\<forall>d \<in> set (numeral_of base n). d < base"
    "numeral_of base n \<noteq> []" "hd (numeral_of base n) = 0 \<longleftrightarrow> n = 0"
  using assms do_divs_value [OF assms, of n] do_divs_last [OF assms, of n] do_divs_digit [of _ base n]
  by (auto simp: numeral_of_def from_digits_def hd_rev)

lemma has_bit:
  "has t ZEROPAD = bit t 0" "has t SIGN = bit t 1" "has t PLUS = bit t 2" "has t SPACE = bit t 3"
  "has t LEFT = bit t 4" "has t SPECIAL = bit t 5" "has t SMALL = bit t 6"
  using and_exp_eq_0_iff_not_bit [of t 0] and_exp_eq_0_iff_not_bit [of t 1] and_exp_eq_0_iff_not_bit [of t 2]
    and_exp_eq_0_iff_not_bit [of t 3] and_exp_eq_0_iff_not_bit [of t 4] and_exp_eq_0_iff_not_bit [of t 5]
    and_exp_eq_0_iff_not_bit [of t 6]
  by (auto simp: has_def flag_defs simp del: and_exp_eq_0_iff_not_bit)

lemma has_and_not_ZEROPAD [simp]:
  "has (t AND NOT ZEROPAD) SIGN = has t SIGN" "has (t AND NOT ZEROPAD) PLUS = has t PLUS"
  "has (t AND NOT ZEROPAD) SPACE = has t SPACE" "has (t AND NOT ZEROPAD) LEFT = has t LEFT"
  "has (t AND NOT ZEROPAD) SPECIAL = has t SPECIAL" "has (t AND NOT ZEROPAD) ZEROPAD = False"
  unfolding has_bit unfolding bit_and_iff bit_not_iff ZEROPAD_def by (simp_all add: bit_1_iff)

lemma sint_split: "sint (w :: u32) = uint w - 2 ^ 32 * of_bool (bit (uint w) 31)"
proof -
  have "0 \<le> uint w" "uint w < 2 ^ 32" using uint_lt2p [of w] by simp_all
  then show ?thesis by (simp add: sint_uint signed_take_bit_eq_take_bit_minus take_bit_eq_mod)
qed

lemma sint_sign:
  fixes w :: u32
  shows "sint w < 0 \<Longrightarrow> uint (- w) = - sint w" "\<not> sint w < 0 \<Longrightarrow> uint w = sint w"
proof -
  have b: "0 \<le> uint w" "uint w < 2 ^ 32" using uint_lt2p [of w] by simp_all
  then show "\<not> sint w < 0 \<Longrightarrow> uint w = sint w" using sint_split [of w] by (auto simp: of_bool_def split: if_splits)
  assume "sint w < 0"
  with b have "sint w = uint w - 2 ^ 32" "uint w \<noteq> 0"
    using sint_split [of w] by (auto split: if_splits simp: of_bool_def)
  then show "uint (- w) = - sint w" using b by (simp add: uint_word_ariths zmod_zminus1_eq_if)
qed

lemma magnitude_word: "unat (if is_neg num t then - num else num) = magnitude num t"
proof (cases "is_neg num t")
  case True
  then have "uint (- num) = - sint num" by (intro sint_sign) (simp add: is_neg_def)
  then show ?thesis using True by (simp add: magnitude_def flip: nat_uint_eq)
qed (simp add: magnitude_def)

lemma numeral_map:
  "(if w = 0 then [ch (CHR ''0'')] else map (digits small) (do_divs base (unat w))) =
   rev (map (digits small) (numeral_of base (unat w)))"
  by (auto simp: numeral_of_def digits_def ch_def rev_map unat_eq_zero)

lemma do_divs_length: "base \<ge> 2 \<Longrightarrow> n < 2 ^ k \<Longrightarrow> length (do_divs base n) \<le> k"
proof (induction k arbitrary: n)
  case (Suc k)
  have "n div base \<le> n div 2" using Suc.prems by (intro div_le_mono2) auto
  also have "\<dots> < 2 ^ k" using Suc.prems by (simp add: less_mult_imp_div_less)
  finally have "length (do_divs base (n div base)) \<le> k" using Suc.prems by (intro Suc.IH) auto
  then show ?case by (subst do_divs.simps) simp
qed simp

lemma magnitude_bound: "magnitude num t < 2 ^ 32"
  unfolding magnitude_word [symmetric] using unsigned_less [where 'b = 32 and 'a = nat] by simp

lemma numeral_length: "base \<ge> 2 \<Longrightarrow> length (numeral_of base (magnitude num t)) \<in> {1..32}"
  using do_divs_length [OF _ magnitude_bound, of base num t] do_divs_last [of base "magnitude num t"]
  by (auto simp: numeral_of_def Suc_le_eq)

lemma prefix_length:
  "int (length (prefix_of base t)) =
    (if has t SPECIAL then (if base = 16 then 2 else if base = 8 then 1 else 0) else 0)"
  by (auto simp: prefix_of_def)

lemma number_field:
  assumes base: "2 \<le> base" "base \<le> 36" and sz: "-1 \<le> sz" "sz < 2 ^ 30" and prec: "precision < 2 ^ 30"
    and ds: "ds = map (digits (has t SMALL)) (numeral_of (nat base) (magnitude num t))"
  shows "number num base sz precision t =
    Some (field t (nat sz) (sign_of num t @ prefix_of base t) (replicate (nat precision - length ds) (ch (CHR ''0'')) @ ds))"
proof -
  define w where "w = (if is_neg num t then - num else num)"
  have uw: "unat w = magnitude num t" by (simp add: w_def magnitude_word)
  have len: "length ds \<in> {1..32}" using numeral_length [of "nat base" num t] base by (simp add: ds)
  define pre where "pre = sign_of num t @ prefix_of base t"
  have tmp: "(if w = 0 then [ch (CHR ''0'')] else map (digits (has t SMALL)) (do_divs (nat base) (unat w))) = rev ds"
    by (simp add: numeral_map ds uw)
  have sgl: "length (sign_of num t) \<le> 1" by (simp add: sign_of_def)
  have s: "s32 v = v" if "- (2 ^ 31) \<le> v" "v < 2 ^ 31" for v using that by (simp add: s32_id)
  define P where "P = (if int (length ds) > precision then int (length ds) else precision)"
  have Pb: "1 \<le> P" "P < 2 ^ 30" using len prec by (auto simp: P_def)
  have P: "P = int (length (replicate (nat precision - length ds) (ch (CHR ''0'')) @ ds))"
    "nat (P - int (length ds)) = nat precision - length ds"
    using len by (auto simp: P_def)
  define t' where "t' = (if has t LEFT then t AND NOT ZEROPAD else t)"
  have t': "has t' SIGN = has t SIGN" "has t' PLUS = has t PLUS" "has t' SPACE = has t SPACE"
    "has t' LEFT = has t LEFT" "has t' SPECIAL = has t SPECIAL" "has t' ZEROPAD = (has t ZEROPAD \<and> \<not> has t LEFT)"
    by (simp_all add: t'_def)
  have nt: "is_neg num t' = is_neg num t" by (simp add: is_neg_def t')
  define S where "S = sz - int (length pre) - P"
  have preb: "length pre \<le> 3" using sgl prefix_length [of base t] by (auto simp: pre_def split: if_splits)
  have sz1: "(if sign_of num t \<noteq> [] then s32 (sz - 1) else sz) = sz - int (length (sign_of num t))"
    using sz by (auto simp: sign_of_def s)
  define sz1 where "sz1 = sz - int (length (sign_of num t))"
  have sz2: "(if has t SPECIAL then (if base = 16 then s32 (sz1 - 2) else if base = 8 then s32 (sz1 - 1) else sz1)
      else sz1) = sz - int (length pre)"
    using sz sgl prefix_length [of base t] by (auto simp: s sz1_def pre_def)
  have sz3: "s32 (sz - int (length pre) - P) = S" using sz Pb preb by (simp add: S_def s)
  have Sb: "- (2 ^ 30) - 5 < S" "S < 2 ^ 30" using sz Pb preb by (simp_all add: S_def)
  have Sn: "nat S = nat sz - (length pre + length (replicate (nat precision - length ds) (ch (CHR ''0'')) @ ds))"
    unfolding S_def P(1) by arith
  have pfx: "(if has t SPECIAL then if base = 8 then [ch (CHR ''0'')] else if base = 16 then
      [ch (CHR ''0''), digits (has t SMALL) 33] else [] else []) = prefix_of base t"
    by (auto simp: prefix_of_def digits_def ch_def)
  have sgn: "(if is_neg num t then [ch CHR ''-''] else if has t PLUS then [ch CHR ''+'']
      else if has t SPACE then [ch CHR '' ''] else []) = sign_of num t" by (simp add: sign_of_def)
  have b: "(base < 2 \<or> base > 36) = False" using base by simp
  have "number num base sz precision t =
    (case (if has t' ZEROPAD \<or> has t LEFT then ([], S) else fill (ch (CHR '' '')) S) of (sp1, sz) \<Rightarrow>
     case (if has t LEFT then ([], sz) else fill (if has t' ZEROPAD then ch (CHR ''0'') else ch (CHR '' '')) sz) of (pad, sz) \<Rightarrow>
     Some (sp1 @ sign_of num t @ prefix_of base t @ pad @ replicate (nat precision - length ds) (ch (CHR ''0'')) @
       ds @ fst (fill (ch (CHR '' '')) sz)))"
    unfolding number_def Let_def t'_def [symmetric] t'(1-5) is_neg_def [symmetric] nt w_def [symmetric] tmp length_rev rev_rev_ident
      P_def [symmetric] pfx sgn sz1 sz1_def [symmetric] sz2 sz3 P(2) b if_False case_prod_unfold snd_conv fst_conv
    by simp
  also have "\<dots> = Some (field t (nat sz) pre (replicate (nat precision - length ds) (ch (CHR ''0'')) @ ds))"
    unfolding field_def Let_def Sn [symmetric] t'(6)
    using Sb by (cases "has t LEFT"; cases "has t ZEROPAD") (simp_all add: fill_def s pre_def)
  finally show ?thesis by (simp only: pre_def)
qed



section \<open>Reading a printed number back\<close>

lemma digit_byte: "d < 10 \<Longrightarrow> is_digit (digits small d) \<and> uint (digits small d) = 48 + int d"
proof -
  assume d: "d < 10"
  then have "unat (48 + of_nat d :: u8) = 48 + d"
    using unat_of_nat [of "48 + d", where 'a = 8] by simp
  then have "uint (48 + of_nat d :: u8) = 48 + int d" by (simp flip: int_nat_eq add: uint_nat)
  then show ?thesis using d by (simp add: digits_def is_digit_def ch_def word_le_def)
qed

lemma s32_digit: "s32 (s32 v * 10 + d) = s32 (v * 10 + d)"
proof -
  have "s32 (s32 v * 10) = s32 (v * 10)"
    using signed_take_bit_mult [of 31 "s32 v" 10] signed_take_bit_mult [of 31 v 10] by (simp add: s32_def)
  then show ?thesis
    using signed_take_bit_add [of 31 "s32 v * 10" d] signed_take_bit_add [of 31 "v * 10" d] by (simp add: s32_def)
qed

lemma skip_atoi_digits:
  assumes "\<forall>d \<in> set ds. d < 10"
  shows "skip_atoi (s32 (int v)) (map (digits small) ds) = (s32 (int (foldl (\<lambda>v d. 10 * v + d) v ds)), [])"
  using assms
proof (induction ds arbitrary: v)
  case (Cons d ds)
  have d: "is_digit (digits small d)" "uint (digits small d) = 48 + int d" using digit_byte [of d small] Cons.prems by auto
  have "s32 (s32 (int v) * 10 + uint (digits small d) - 48) = s32 (int (10 * v + d))"
    using s32_digit [of "int v" "int d"] d by (simp add: algebra_simps)
  moreover have "skip_atoi (s32 (int (10 * v + d))) (map (digits small) ds) =
      (s32 (int (foldl (\<lambda>v d. 10 * v + d) (10 * v + d) ds)), [])"
    using Cons.prems by (intro Cons.IH) auto
  ultimately show ?case using d by simp
qed simp

lemma s32_0 [simp]: "s32 0 = 0"
  by (simp add: s32_def)

lemma decimal_field: "field SIGN 0 pre ds = pre @ ds"
  by (simp add: field_def has_def flag_defs)

lemma vsprintf_decimal:
  "vsprintf [ch (CHR ''%''), ch (CHR ''d'')] [w] mem = (case number w 10 (-1) (-1) SIGN of None \<Rightarrow> None | Some out \<Rightarrow> Some (out, mem))"
  by (simp add: vsprintf_def parse_spec_def parse_width_def parse_precision_def skip_qualifier_def at_def
      is_digit_def ch_def convert_def split: option.splits)

text \<open>
  C15: printing a word with \<open>%d\<close> and reading the digits back with \<open>skip_atoi\<close> returns the number: a
  minus sign exactly for negative values, then digits that \<open>skip_atoi\<close> consumes completely and
  reads as the absolute value (with the wrap-around of the most negative number).
\<close>

theorem print_read_decimal:
  "\<exists>ds. vsprintf (map ch ''%d'') [w] mem = Some ((if sint w < 0 then [ch (CHR ''-'')] else []) @ ds, mem) \<and>
     skip_atoi 0 ds = (s32 \<bar>sint w\<bar>, []) \<and> ds \<noteq> []"
proof -
  define ns where "ns = numeral_of 10 (magnitude w SIGN)"
  define ds where "ds = map (digits (has SIGN SMALL)) ns"
  have "has SIGN SIGN" "\<not> has SIGN PLUS" "\<not> has SIGN SPACE" "\<not> has SIGN SPECIAL"
    by (simp_all add: has_def flag_defs)
  note fl = this
  have "number w 10 (-1) (-1) SIGN = Some (sign_of w SIGN @ prefix_of 10 SIGN @ ds)"
    using number_field [of 10 "-1" "-1" ds SIGN w] by (simp add: ds_def ns_def decimal_field)
  then have v: "vsprintf (map ch ''%d'') [w] mem = Some ((if sint w < 0 then [ch (CHR ''-'')] else []) @ ds, mem)"
    by (simp add: vsprintf_decimal sign_of_def prefix_of_def is_neg_def fl)
  have m: "int (magnitude w SIGN) = \<bar>sint w\<bar>"
  proof (cases "sint w < 0")
    case False
    have "int (magnitude w SIGN) = uint w" using False by (simp add: magnitude_def is_neg_def)
    with sint_sign(2) [OF False] False show ?thesis by simp
  qed (simp add: magnitude_def is_neg_def fl)
  have "skip_atoi 0 ds = (s32 \<bar>sint w\<bar>, [])"
    using skip_atoi_digits [of ns 0 "has SIGN SMALL"] numeral_of_ok [of 10 "magnitude w SIGN"] m
    by (simp add: ds_def ns_def from_digits_def)
  moreover have "ds \<noteq> []" using numeral_of_ok [of 10 "magnitude w SIGN"] by (simp add: ds_def ns_def)
  ultimately show ?thesis using v by blast
qed

end
