(* ===== verification/Printk.thy ===== *)
theory Printk
  imports Vsprintf
begin

text \<open>
  What \<open>printk\<close> and \<open>panic\<close> print: the text that \<open>printk\<close> of \<open>kernel/printk.c\<close> formats into its buffer, passes to \<open>tty_write\<close> on channel 0
  and counts, and the lines of \<open>panic\<close> of \<open>kernel/panic.c\<close>, after which it loops for ever. Elsewhere in the model \<open>printk\<close> records its
  format in the log \<open>klog\<close> and \<open>panic\<close> is the outcome \<open>Panic\<close>.

  The lemmas evaluate \<open>vsprintf\<close> on a format piece by piece: plain text, \<open>%d\<close>, \<open>%s\<close> and \<open>%%\<close>.
\<close>

definition lf_cr :: string where "lf_cr = [CHR 0x0A, CHR 0x0D]"

definition printk_text :: "string \<Rightarrow> u32 list \<Rightarrow> (u32 \<Rightarrow> u8) \<Rightarrow> (u8 list \<times> int) option" where
  "printk_text fmt args mem =
     (case vsprintf (map ch fmt) args mem of None \<Rightarrow> None | Some (out, _) \<Rightarrow> Some (out, int (length out)))"

definition panic_frame :: string where
  "panic_frame = ''!!!!!!!!!!!!!!!!!!!!!!!!!!!!!!!!!!!!!!!!!!!!!!!!!!!!!!!!!!!!'' @ lf_cr"

text \<open>The calls of \<open>panic(s)\<close>, in order.\<close>

definition panic_calls :: "u32 \<Rightarrow> (string \<times> u32 list) list" where
  "panic_calls s =
    [(lf_cr, []),
     (panic_frame, []),
     (''CRITICAL SYSTEM FAILURE: KERNEL PANIC!'' @ lf_cr, []),
     (''System Integrity Compromised. Halting Operations Immediately.'' @ lf_cr, []),
     (''Error Details: %s'' @ lf_cr, [s]),
     (panic_frame, [])]"

definition panic_text :: "u32 \<Rightarrow> (u32 \<Rightarrow> u8) \<Rightarrow> u8 list option list" where
  "panic_text s mem = map (\<lambda>(fmt, args). map_option fst (printk_text fmt args mem)) (panic_calls s)"

section \<open>Formats piece by piece\<close>

lemma unat_ch: "unat (ch c) = of_char c"
proof -
  have "unat (of_nat (of_char c) :: u8) = of_char c"
    using nat_of_char_less_256 [of c] by (simp add: unat_of_nat del: of_nat_of_char)
  then show ?thesis unfolding ch_def of_nat_of_char .
qed

lemma ch_eq: "ch c = ch d \<longleftrightarrow> c = d"
  by (metis unat_ch of_char_eq_iff)

lemma is_digit_ch: "is_digit (ch c) \<longleftrightarrow> c \<in> set ''0123456789''"
proof -
  have m: "of_char c \<in> A \<longleftrightarrow> c \<in> char_of ` A" if "A \<subseteq> {..<256 :: nat}" for A
  proof
    assume "of_char c \<in> A"
    then show "c \<in> char_of ` A" by (metis char_of_char image_eqI)
  next
    assume "c \<in> char_of ` A"
    then obtain n where n: "n \<in> A" "c = char_of n" by blast
    then have "of_char c = n mod 256" "n < 256" using that by auto
    with n show "of_char c \<in> A" by simp
  qed
  have "is_digit (ch c) \<longleftrightarrow> 48 \<le> (of_char c :: nat) \<and> of_char c \<le> (57 :: nat)"
    by (simp add: is_digit_def word_le_nat_alt unat_ch)
  also have "\<dots> \<longleftrightarrow> of_char c \<in> {48, 49, 50, 51, 52, 53, 54, 55, 56, 57 :: nat}"
    unfolding insert_iff empty_iff by presburger
  also have "\<dots> \<longleftrightarrow> c \<in> char_of ` {48, 49, 50, 51, 52, 53, 54, 55, 56, 57 :: nat}"
    by (rule m) simp
  also have "char_of ` {48, 49, 50, 51, 52, 53, 54, 55, 56, 57 :: nat} = set ''0123456789''"
    by (simp add: char_of_def bit_0)
  finally show ?thesis .
qed

lemma vsprintf_text:
  "CHR ''%'' \<notin> set fmt \<Longrightarrow> vsprintf_loop out (map ch fmt @ rest) args mem = vsprintf_loop (out @ map ch fmt) rest args mem"
  by (induction fmt arbitrary: out) (auto simp: ch_eq)

lemma vsprintf_end: "CHR ''%'' \<notin> set fmt \<Longrightarrow> vsprintf_loop out (map ch fmt) args mem = Some (out @ map ch fmt, mem)"
  using vsprintf_text [of fmt out "[]"] by simp

text \<open>A conversion without flags, width or precision.\<close>

lemma vsprintf_plain_conv:
  assumes "c \<notin> set ''-+ #0123456789*.hlL''"
  shows "vsprintf_loop out (ch (CHR ''%'') # ch c # rest) args mem =
    (case convert (ch c) 0 (-1) (-1) (length out) args mem of None \<Rightarrow> None
     | Some (bs, args', mem') \<Rightarrow> vsprintf_loop (out @ bs) rest args' mem')"
proof -
  have "parse_spec (ch c # rest) args = Some (0, -1, -1, ch c # rest, args)"
    using assms by (simp add: parse_spec_def parse_width_def parse_precision_def skip_qualifier_def at_def ch_eq is_digit_ch)
  then show ?thesis by (simp only: vsprintf_loop.simps option.case prod.case at_def list.case list.sel ch_eq not_True_eq_False if_False simp_thms)
qed

lemma number_some:
  "2 \<le> base \<Longrightarrow> base \<le> 36 \<Longrightarrow> -1 \<le> sz \<Longrightarrow> sz < 2 ^ 30 \<Longrightarrow> precision < 2 ^ 30 \<Longrightarrow>
    \<exists>out. number num base sz precision t = Some out"
  using number_field by blast

definition decimal :: "u32 \<Rightarrow> u8 list" where
  "decimal w = the (number w 10 (-1) (-1) SIGN)"

lemma vsprintf_d:
  "vsprintf_loop out (ch (CHR ''%'') # ch (CHR ''d'') # rest) (w # args) mem = vsprintf_loop (out @ decimal w) rest args mem"
  using number_some [of 10 "-1" "-1" w SIGN]
  by (auto simp: vsprintf_plain_conv convert_def decimal_def ch_eq simp del: vsprintf_loop.simps)

lemma vsprintf_percent:
  "vsprintf_loop out (ch (CHR ''%'') # ch (CHR ''%'') # rest) args mem = vsprintf_loop (out @ [ch (CHR ''%'')]) rest args mem"
  by (simp add: vsprintf_plain_conv convert_def ch_eq del: vsprintf_loop.simps) (simp add: ch_def del: vsprintf_loop.simps)

lemma vsprintf_s:
  assumes "strlen mem a 0 = Some n"
  shows "vsprintf_loop out (ch (CHR ''%'') # ch (CHR ''s'') # rest) (a # args) mem =
    vsprintf_loop (out @ map (\<lambda>i. mem (a + of_nat i)) [0..<n]) rest args mem"
  using assms
  by (simp add: vsprintf_plain_conv convert_def conv_s_def has_def fill_to_def Let_def ch_eq s32_def del: vsprintf_loop.simps)

section \<open>The text of a panic\<close>

lemma printk_plain: "CHR ''%'' \<notin> set fmt \<Longrightarrow> printk_text fmt args mem = Some (map ch fmt, int (length fmt))"
  by (simp add: printk_text_def vsprintf_def vsprintf_end)

lemma panic_text_ok:
  assumes "strlen mem s 0 = Some n"
  shows "panic_text s mem =
    [Some (map ch lf_cr), Some (map ch panic_frame), Some (map ch (''CRITICAL SYSTEM FAILURE: KERNEL PANIC!'' @ lf_cr)),
     Some (map ch (''System Integrity Compromised. Halting Operations Immediately.'' @ lf_cr)),
     Some (map ch ''Error Details: '' @ map (\<lambda>i. mem (s + of_nat i)) [0..<n] @ map ch lf_cr), Some (map ch panic_frame)]"
proof -
  have "vsprintf (map ch (''Error Details: %s'' @ lf_cr)) [s] mem =
      vsprintf_loop [] (map ch ''Error Details: '' @ ch (CHR ''%'') # ch (CHR ''s'') # map ch lf_cr @ []) [s] mem"
    by (simp add: vsprintf_def)
  also have "\<dots> = Some (map ch ''Error Details: '' @ map (\<lambda>i. mem (s + of_nat i)) [0..<n] @ map ch lf_cr, mem)"
    by (subst vsprintf_text, simp, subst vsprintf_s [OF assms], subst vsprintf_text) (simp_all add: lf_cr_def)
  finally show ?thesis
    by (simp add: panic_text_def panic_calls_def printk_plain lf_cr_def panic_frame_def) (simp add: printk_text_def)
qed

end
