(* ===== verification/Init.thy ===== *)
theory Init
  imports Printk
begin

text \<open>
  The user programs in \<open>init/main.c\<close>: \<open>init()\<close>, which sets up the terminal and starts the shell, and the loop of task 0.

  A user program is a tree: it asks the kernel for a system call and goes on with the answer. \<open>_exit\<close> does not return, and a call may
  stay unanswered, as \<open>execve\<close> does when it succeeds. \<open>Undefined\<close> stands for a \<open>printf\<close> with undefined behaviour. What the program
  reads from the memory it shares with the kernel (\<open>jiffies\<close> before the banner and around the benchmark, \<open>nr_buffers\<close>) is an argument.

  The lemmas give the system calls of the two processes in order.
\<close>

section \<open>User programs\<close>

datatype ucall =
    Setup
  | Open_path string int int
  | Dup int
  | Write int "u8 list"
  | Fork
  | Close int
  | Setsid
  | Execve string "string list" "string list"
  | Wait
  | Sync
  | Pause

text \<open>The result of the call, and the status that \<open>wait\<close> stores, if it stores one.\<close>

record answer =
  ret :: int
  stored :: "int option"

codatatype prog = Ask ucall "answer \<Rightarrow> prog" | Exit int | Undefined

text \<open>
  \<open>run n k tr p\<close> runs \<open>n\<close> calls of \<open>p\<close> after the calls \<open>tr\<close>, against a kernel whose answer may depend on the calls before; it gives
  the calls and the rest of the program.
\<close>

fun run :: "nat \<Rightarrow> (ucall list \<Rightarrow> ucall \<Rightarrow> answer option) \<Rightarrow> ucall list \<Rightarrow> prog \<Rightarrow> ucall list \<times> prog" where
  "run 0 k tr p = (tr, p)"
| "run (Suc n) k tr p =
     (case p of
        Ask c f \<Rightarrow> (case k tr c of None \<Rightarrow> (tr @ [c], p) | Some a \<Rightarrow> run n k (tr @ [c]) (f a))
      | Exit v \<Rightarrow> (tr, p)
      | Undefined \<Rightarrow> (tr, p))"

definition O_RDWR :: int where "O_RDWR = 2"

section \<open>init\<close>

definition cr_lf :: string where "cr_lf = [CHR 0x0D, CHR 0x0A]"
definition lf_end :: string where "lf_end = [CHR 0x0A]"

definition printf :: "string \<Rightarrow> int list \<Rightarrow> prog \<Rightarrow> prog" where
  "printf fmt args p =
     (case vsprintf (map ch fmt) (map word_of_int args) (\<lambda>_. 0) of
        None \<Rightarrow> Undefined
      | Some (out, _) \<Rightarrow> Ask (Write 1 out) (\<lambda>_. p))"

definition argv :: "string list" where "argv = [''/bin/sh'']"
definition envp :: "string list" where "envp = [''HOME=/root'', ''PATH=/bin'', ''PWD=/'']"

definition open_console :: "prog \<Rightarrow> prog" where
  "open_console p = Ask (Open_path ''/dev/tty0'' O_RDWR 0) (\<lambda>_. Ask (Dup 0) (\<lambda>_. Ask (Dup 0) (\<lambda>_. p)))"

definition rule_line :: string where
  "rule_line = ''=================================================================='' @ lf_cr"

text \<open>The lines that are printed before the benchmark, and the line with its result.\<close>

definition banner :: "int \<Rightarrow> int \<Rightarrow> (string \<times> int list) list" where
  "banner nr_buffers ticks =
    [(lf_cr, []),
     (rule_line, []),
     (''     Rhee Creatives Linux v1.0 - Extreme Performance Edition      '' @ lf_cr, []),
     (rule_line, []),
     ('' [BOOT] System Core Initializing...'' @ lf_cr, []),
     ('' [HARDWARE] CPU Mode: Protected 32-bit (Optimized i386)'' @ lf_cr, []),
     ('' [HARDWARE] Memory Management: Paging Enabled (4KB/Page)'' @ lf_cr, []),
     ('' [HARDWARE] Buffer Cache: %d KB allocated (%d buffers dedicated)'' @ lf_cr,
        [s32 (nr_buffers * 1024) sdiv 1024, nr_buffers]),
     ('' [SYSTEM] Boot Time: %d ticks (Hyper-Fast Boot Technology)'' @ lf_cr, [ticks]),
     ('' [SYSTEM] Optimization Level: MAXIMAL (Level 99 - Unlocked)'' @ lf_cr, []),
     ('' [SECURITY] Running Spider-Web Integrity Check...'' @ lf_cr, []),
     (''    - Kernel Code Segment: VERIFIED'' @ lf_cr, []),
     (''    - Task Structures: SECURE'' @ lf_cr, []),
     (''    - Interrupt Descriptor Table: LOCKED'' @ lf_cr, []),
     ('' [SECURITY] System Integrity: 100%% (No Anomalies)'' @ lf_cr, []),
     ('' [PERF] Running CPU Integer Benchmark (Single Core Stress)...'' @ lf_cr, [])]"

definition ready_lines :: "int \<Rightarrow> (string \<times> int list) list" where
  "ready_lines ticks =
    [('' [PERF] Benchmark Score: %d ticks (LOWER IS BETTER - EXCELLENT)'' @ lf_cr, [ticks]),
     (rule_line, []),
     (''   SYSTEM READY. UNLEASH THE POWER.'' @ lf_cr, []),
     (rule_line, [])]"

definition printf_all :: "(string \<times> int list) list \<Rightarrow> prog \<Rightarrow> prog" where
  "printf_all = foldr (\<lambda>(fmt, args). printf fmt args)"

text \<open>The benchmark \<open>for (k = 0; k < n; k++) b_counter += k\<close> on a 32-bit \<open>long\<close>: nothing reads its result.\<close>

definition b_counter :: "nat \<Rightarrow> int" where
  "b_counter n = fold (\<lambda>k b. s32 (b + int k)) [0..<n] 0"

definition shell :: prog where
  "shell =
     Ask (Close 0) (\<lambda>_. Ask (Close 1) (\<lambda>_. Ask (Close 2) (\<lambda>_. Ask Setsid (\<lambda>_.
       open_console (Ask (Execve ''/bin/sh'' argv envp) (\<lambda>a. Exit (ret a)))))))"

definition child_died :: string where
  "child_died = '' [INFO] Child %d died with code %04x. Syncing filesystems...'' @ lf_end"

definition fork_failed :: string where
  "fork_failed = ''CRITICAL ERROR: Fork failed in init! System Halted.'' @ cr_lf"

text \<open>The parent after its \<open>fork\<close> has given \<open>i\<close>: it waits even when the \<open>fork\<close> has failed.\<close>

definition reap_shell :: "int \<Rightarrow> prog" where
  "reap_shell i =
     Ask Wait (\<lambda>a. let i = (case stored a of None \<Rightarrow> i | Some v \<Rightarrow> v)
       in printf child_died [ret a, i]
            (Ask Sync (\<lambda>_. Exit 0)))"

definition init :: "int \<Rightarrow> int \<Rightarrow> int \<Rightarrow> int \<Rightarrow> prog" where
  "init nr_buffers ticks start_bench end_bench =
     Ask Setup (\<lambda>_. open_console
       (printf_all (banner nr_buffers ticks)
         (printf_all (ready_lines (s32 (end_bench - start_bench)))
           (Ask Fork (\<lambda>a.
              if ret a < 0 then printf fork_failed [] (reap_shell (ret a))
              else if ret a = 0 then shell
              else reap_shell (ret a))))))"

section \<open>Task 0\<close>

primcorec pause_for_ever :: prog where
  "pause_for_ever = Ask Pause (\<lambda>_. pause_for_ever)"

definition task0 :: "prog \<Rightarrow> prog" where
  "task0 init_prog = Ask Fork (\<lambda>a. if ret a = 0 then init_prog else pause_for_ever)"

lemma pause_for_ever_run: "run n (\<lambda>tr c. Some (k tr c)) tr pause_for_ever = (tr @ replicate n Pause, pause_for_ever)"
  by (induction n arbitrary: tr) (simp_all add: pause_for_ever.code [symmetric] replicate_append_same, subst pause_for_ever.code, simp add: replicate_app_Cons_same)

section \<open>The calls in order\<close>

text \<open>The text of a line, and that the formats used here are defined for their arguments.\<close>

definition line :: "string \<times> int list \<Rightarrow> u8 list option" where
  "line l = map_option fst (vsprintf (map ch (fst l)) (map word_of_int (snd l)) (\<lambda>_. 0))"

lemma printf_line: "line (fmt, args) = Some out \<Longrightarrow> printf fmt args p = Ask (Write 1 out) (\<lambda>_. p)"
  by (auto simp: line_def printf_def)

lemma line_plain: "CHR ''%'' \<notin> set fmt \<Longrightarrow> line (fmt, []) = Some (map ch fmt)"
  by (simp add: line_def vsprintf_def vsprintf_end)

lemma line_d:
  assumes "CHR ''%'' \<notin> set pre" "CHR ''%'' \<notin> set post" "fmt = pre @ ''%d'' @ post"
  shows "line (fmt, [v]) = Some (map ch pre @ decimal (word_of_int v) @ map ch post)"
  using assms
  by (simp add: line_def vsprintf_def vsprintf_end vsprintf_text vsprintf_d del: vsprintf_loop.simps(2))

lemma line_dd:
  assumes "CHR ''%'' \<notin> set pre" "CHR ''%'' \<notin> set mid" "CHR ''%'' \<notin> set post" "fmt = pre @ ''%d'' @ mid @ ''%d'' @ post"
  shows "line (fmt, [v, w]) = Some (map ch pre @ decimal (word_of_int v) @ map ch mid @ decimal (word_of_int w) @ map ch post)"
  using assms
  by (simp add: line_def vsprintf_def vsprintf_end vsprintf_text vsprintf_d del: vsprintf_loop.simps(2))

lemma line_percent:
  assumes "CHR ''%'' \<notin> set pre" "CHR ''%'' \<notin> set post" "fmt = pre @ ''%%'' @ post"
  shows "line (fmt, []) = Some (map ch pre @ ch (CHR ''%'') # map ch post)"
  using assms
  by (simp add: line_def vsprintf_def vsprintf_end vsprintf_text vsprintf_percent del: vsprintf_loop.simps(2))

text \<open>The code of the child is printed as four hexadecimal digits at least.\<close>

definition hex4 :: "u32 \<Rightarrow> u8 list" where
  "hex4 w = the (number w 16 4 (-1) (ZEROPAD OR SMALL))"

lemma vsprintf_04x:
  "vsprintf_loop out (map ch ''%04x'' @ rest) (w # args) mem = vsprintf_loop (out @ hex4 w) rest args mem"
proof -
  have n: "number w 16 4 (-1) (ZEROPAD OR SMALL) = Some (hex4 w)"
    using number_some [of 16 4 "-1" w "ZEROPAD OR SMALL"] by (auto simp: hex4_def)
  have "skip_atoi 0 (ch (CHR ''4'') # ch (CHR ''x'') # rest) = (4, ch (CHR ''x'') # rest)"
    by (simp add: is_digit_ch) (simp add: ch_def s32_def)
  then have "parse_spec (map ch ''04x'' @ rest) (w # args) = Some (ZEROPAD, 4, -1, ch (CHR ''x'') # rest, w # args)"
    by (simp add: parse_spec_def parse_width_def parse_precision_def skip_qualifier_def at_def ch_eq is_digit_ch del: skip_atoi.simps)
  then show ?thesis
    by (simp add: at_def convert_def ch_eq n)
qed

lemma reaped_line:
  "line (child_died, [v, w]) =
    Some (map ch '' [INFO] Child '' @ decimal (word_of_int v) @ map ch '' died with code '' @ hex4 (word_of_int w) @
      map ch (''. Syncing filesystems...'' @ lf_end))"
proof -
  have "vsprintf (map ch '' [INFO] Child '' @ ch (CHR ''%'') # ch (CHR ''d'') # map ch '' died with code '' @ map ch ''%04x'' @
        map ch (''. Syncing filesystems...'' @ lf_end)) [a, b] mem =
      Some (map ch '' [INFO] Child '' @ decimal a @ map ch '' died with code '' @ hex4 b @ map ch (''. Syncing filesystems...'' @ lf_end), mem)"
    for a b mem
    by (simp add: vsprintf_def vsprintf_text vsprintf_end vsprintf_d vsprintf_04x lf_end_def del: list.map map_append vsprintf_loop.simps(2))
  then show ?thesis by (simp add: line_def child_died_def)
qed

section \<open>The run of the two processes\<close>

text \<open>A kernel that answers every call: what it answers may depend on the calls before.\<close>

lemma run_printf: "line (fmt, args) = Some out \<Longrightarrow>
    run (Suc n) (\<lambda>tr c. Some (k tr c)) tr (printf fmt args p) = run n (\<lambda>tr c. Some (k tr c)) (tr @ [Write 1 out]) p"
  by (simp add: printf_line)

lemma run_printf_all:
  "list_all (\<lambda>l. line l \<noteq> None) ls \<Longrightarrow>
    run (length ls + n) (\<lambda>tr c. Some (k tr c)) tr (printf_all ls p) =
    run n (\<lambda>tr c. Some (k tr c)) (tr @ map (\<lambda>l. Write 1 (the (line l))) ls) p"
proof (induction ls arbitrary: tr)
  case (Cons l ls)
  obtain fmt args where l: "l = (fmt, args)" by (cases l)
  from Cons.prems l obtain out where "line (fmt, args) = Some out" by auto
  with Cons l show ?case by (simp add: printf_all_def printf_line)
qed (simp add: printf_all_def)

lemma rule_line_plain: "CHR ''%'' \<notin> set rule_line"
  by (simp add: rule_line_def lf_cr_def)

lemma banner_lines: "list_all (\<lambda>l. line l \<noteq> None) (banner nb ticks)"
  using line_dd [of "'' [HARDWARE] Buffer Cache: ''" "'' KB allocated (''" "'' buffers dedicated)'' @ lf_cr"]
    line_d [of "'' [SYSTEM] Boot Time: ''" "'' ticks (Hyper-Fast Boot Technology)'' @ lf_cr"]
    line_percent [of "'' [SECURITY] System Integrity: 100''" "'' (No Anomalies)'' @ lf_cr"]
  by (simp add: banner_def line_plain rule_line_plain lf_cr_def)

lemma ready_lines_ok: "list_all (\<lambda>l. line l \<noteq> None) (ready_lines ticks)"
  using line_d [of "'' [PERF] Benchmark Score: ''" "'' ticks (LOWER IS BETTER - EXCELLENT)'' @ lf_cr"]
  by (simp add: ready_lines_def line_plain rule_line_plain lf_cr_def)

text \<open>The calls up to the \<open>fork\<close>, and what is left after its answer.\<close>

definition boot_calls :: "int \<Rightarrow> int \<Rightarrow> int \<Rightarrow> ucall list" where
  "boot_calls nb ticks bench =
     [Setup, Open_path ''/dev/tty0'' O_RDWR 0, Dup 0, Dup 0] @ map (\<lambda>l. Write 1 (the (line l))) (banner nb ticks @ ready_lines bench)"

lemma init_boot:
  fixes k defines "K \<equiv> \<lambda>tr c. Some (k tr c)"
  assumes i: "i = ret (k (boot_calls nb ticks (s32 (t1 - t0))) Fork)"
  shows "run (25 + n) K [] (init nb ticks t0 t1) =
    run n K (boot_calls nb ticks (s32 (t1 - t0)) @ [Fork])
      (if i < 0 then printf fork_failed [] (reap_shell i) else if i = 0 then shell else reap_shell i)"
proof -
  have len: "length (banner nb ticks) = 16" "length (ready_lines b) = 4" for b by (simp_all add: banner_def ready_lines_def)
  have first: "run (4 + m) K [] (Ask Setup (\<lambda>_. open_console p)) = run m K [Setup, Open_path ''/dev/tty0'' O_RDWR 0, Dup 0, Dup 0] p" for m p
    by (simp add: open_console_def K_def eval_nat_numeral)
  have e: "25 + n = 4 + (length (banner nb ticks) + (length (ready_lines (s32 (t1 - t0))) + Suc n))" by (simp add: len)
  have t: "[Setup, Open_path ''/dev/tty0'' O_RDWR 0, Dup 0, Dup 0] @ map (\<lambda>l. Write 1 (the (line l))) (banner nb ticks) @
      map (\<lambda>l. Write 1 (the (line l))) (ready_lines (s32 (t1 - t0))) = boot_calls nb ticks (s32 (t1 - t0))" by (simp add: boot_calls_def)
  show ?thesis
    unfolding e init_def first unfolding K_def
    by (simp only: run_printf_all banner_lines ready_lines_ok append_assoc t run.simps prog.case option.case i)
qed

lemma shell_run:
  "run 8 (\<lambda>tr c. Some (k tr c)) tr shell =
    (let tr' = tr @ [Close 0, Close 1, Close 2, Setsid, Open_path ''/dev/tty0'' O_RDWR 0, Dup 0, Dup 0]
     in (tr' @ [Execve ''/bin/sh'' argv envp], Exit (ret (k tr' (Execve ''/bin/sh'' argv envp)))))"
  by (simp add: shell_def open_console_def eval_nat_numeral)

lemma reap_shell_run:
  "run 3 (\<lambda>tr c. Some (k tr c)) tr (reap_shell i) =
    (tr @ [Wait, Write 1 (the (line (child_died,
        [ret (k tr Wait), case stored (k tr Wait) of None \<Rightarrow> i | Some v \<Rightarrow> v]))), Sync], Exit 0)"
  by (simp add: reap_shell_def Let_def printf_line [OF reaped_line] reaped_line eval_nat_numeral)

text \<open>
  After a failed \<open>fork\<close> the program announces that the system is halted, and then waits for a child, reports it and exits with 0.
\<close>

lemma init_fork_fails:
  fixes k defines "K \<equiv> \<lambda>tr c. Some (k tr c)"
  assumes "ret (k (boot_calls nb ticks (s32 (t1 - t0))) Fork) < 0"
  shows "\<exists>out out'. run 29 K [] (init nb ticks t0 t1) =
    (boot_calls nb ticks (s32 (t1 - t0)) @ [Fork, Write 1 out, Wait, Write 1 out', Sync], Exit 0)"
proof -
  have "line (fork_failed, []) = Some (map ch fork_failed)" by (rule line_plain) (simp add: fork_failed_def cr_lf_def)
  then have "run 4 K tr (printf fork_failed [] p) = run 3 K (tr @ [Write 1 (map ch fork_failed)]) p" for tr p
    unfolding K_def numeral_eq_Suc [of "num.Bit0 (num.Bit0 num.One)"] by (subst run_printf) simp_all
  with init_boot [OF refl, of 4 k nb ticks t0 t1] assms(2)
  show ?thesis by (simp add: K_def reap_shell_run)
qed

section \<open>The benchmark\<close>

lemma b_counter_sum: "b_counter n = s32 (int (\<Sum>k<n. k))"
proof (induction n)
  case (Suc n)
  have "s32 (s32 a + b) = s32 (a + b)" for a b
    using signed_take_bit_add [of 31 "s32 a" b] signed_take_bit_add [of 31 a b] by (simp add: s32_def)
  with Suc show ?case by (simp add: b_counter_def)
qed (simp add: b_counter_def)

text \<open>The sum of the benchmark is 12499997500000; the counter overflows many times and ends at another value.\<close>

lemma b_counter_overflows: "b_counter 5000000 = 1642668640" "(\<Sum>k<5000000::nat. k) = 12499997500000"
proof -
  show s: "(\<Sum>k<5000000::nat. k) = 12499997500000"
    using Sum_Ico_nat [of 0 5000000] by (simp add: atLeast0LessThan)
  show "b_counter 5000000 = 1642668640" by (simp add: b_counter_sum s s32_def)
qed

end
