(* ===== verification/Strings.thy ===== *)
theory Strings
  imports Kernel_Prelude "HOL-Library.List_Lexorder" "HOL-Library.Sublist"
begin

text \<open>
  The string routines of \<open>include/string.h\<close>, which are inline assembler over the string instructions of the processor. The
  memory is a function from 32-bit addresses to bytes, and \<open>esi\<close>, \<open>edi\<close>, \<open>ecx\<close> and the zero flag are arguments of the
  loops, in the order of the instructions. A loop that ends only at a zero byte is a partial function.
\<close>

type_synonym mem = "u32 \<Rightarrow> u8"

section \<open>Instructions with a repeat prefix\<close>

text \<open>\<open>repne scasb\<close>: the values of \<open>edi\<close>, \<open>ecx\<close> and of the zero flag after it. With \<open>ecx = 0\<close> the flag stays as it was.\<close>

fun repne_scasb :: "mem \<Rightarrow> u8 \<Rightarrow> u32 \<Rightarrow> nat \<Rightarrow> bool \<Rightarrow> u32 \<times> nat \<times> bool" where
  "repne_scasb m al edi ecx zf =
     (if ecx = 0 then (edi, 0, zf)
      else if m edi = al then (edi + 1, ecx - 1, True)
      else repne_scasb m al (edi + 1) (ecx - 1) False)"

text \<open>\<open>repe cmpsb\<close>: \<open>esi\<close>, \<open>edi\<close>, the zero flag and whether the last comparison was less as signed bytes (\<open>jl\<close>).\<close>

fun repe_cmpsb :: "mem \<Rightarrow> u32 \<Rightarrow> u32 \<Rightarrow> nat \<Rightarrow> bool \<Rightarrow> bool \<Rightarrow> u32 \<times> u32 \<times> bool \<times> bool" where
  "repe_cmpsb m esi edi ecx zf lt =
     (if ecx = 0 then (esi, edi, zf, lt)
      else if m esi = m edi then repe_cmpsb m (esi + 1) (edi + 1) (ecx - 1) True False
      else (esi + 1, edi + 1, False, sint (m esi) < sint (m edi)))"

text \<open>\<open>rep movsb\<close> with the direction flag as the step, and \<open>rep stosb\<close>.\<close>

fun rep_movsb :: "u32 \<Rightarrow> u32 \<Rightarrow> u32 \<Rightarrow> nat \<Rightarrow> mem \<Rightarrow> mem" where
  "rep_movsb d esi edi 0 m = m"
| "rep_movsb d esi edi (Suc n) m = rep_movsb d (esi + d) (edi + d) n (m(edi := m esi))"

fun rep_stosb :: "u8 \<Rightarrow> u32 \<Rightarrow> nat \<Rightarrow> mem \<Rightarrow> mem" where
  "rep_stosb al edi 0 m = m"
| "rep_stosb al edi (Suc n) m = rep_stosb al (edi + 1) n (m(edi := al))"

declare repne_scasb.simps [simp del] repe_cmpsb.simps [simp del]

text \<open>The scan for the terminating zero that many routines start with, \<open>ecx\<close> being \<open>0xffffffff\<close>: \<open>edi\<close> and \<open>ecx\<close> after it.\<close>

definition scan_end :: "mem \<Rightarrow> u32 \<Rightarrow> u32 \<times> u32" where
  "scan_end m edi = (case repne_scasb m 0 edi (unat (0xffffffff :: u32)) False of (edi, ecx, _) \<Rightarrow> (edi, of_nat ecx))"

section \<open>Copying and joining\<close>

partial_function (option) copy_loop :: "u32 \<Rightarrow> u32 \<Rightarrow> mem \<Rightarrow> mem option" where
  "copy_loop esi edi m =
     (let al = m esi; m' = m(edi := al) in if al \<noteq> 0 then copy_loop (esi + 1) (edi + 1) m' else Some m')"

definition strcpy :: "u32 \<Rightarrow> u32 \<Rightarrow> mem \<Rightarrow> (u32 \<times> mem) option" where
  "strcpy dest src m = map_option (\<lambda>m. (dest, m)) (copy_loop src dest m)"

text \<open>\<open>decl\<close> and \<open>js\<close>: the counter goes down first, and the loop is left when it is negative.\<close>

lemma count_down: "\<not> sint (n - 1) < 0 \<Longrightarrow> unat (n - 1) < unat n" for n :: u32
proof -
  assume a: "\<not> sint (n - 1) < 0"
  have "n \<noteq> 0" using a by auto
  then show ?thesis by (simp add: unat_minus_one unat_gt_0)
qed

function strncpy_loop :: "u32 \<Rightarrow> u32 \<Rightarrow> u32 \<Rightarrow> mem \<Rightarrow> mem" where
  "strncpy_loop esi edi ecx m =
     (if sint (ecx - 1) < 0 then m
      else let al = m esi; m' = m(edi := al)
           in if al \<noteq> 0 then strncpy_loop (esi + 1) (edi + 1) (ecx - 1) m'
              else rep_stosb 0 (edi + 1) (unat (ecx - 1)) m')"
  by pat_completeness auto
termination by (relation "measure (\<lambda>(_, _, ecx, _). unat ecx)") (simp_all add: count_down)

definition strncpy :: "u32 \<Rightarrow> u32 \<Rightarrow> u32 \<Rightarrow> mem \<Rightarrow> u32 \<times> mem" where
  "strncpy dest src count m = (dest, strncpy_loop src dest count m)"

definition strcat :: "u32 \<Rightarrow> u32 \<Rightarrow> mem \<Rightarrow> (u32 \<times> mem) option" where
  "strcat dest src m = map_option (\<lambda>m. (dest, m)) (copy_loop src (fst (scan_end m dest) - 1) m)"

text \<open>Both ways out of the loop of \<open>strncat\<close> lead to a last \<open>stosb\<close> of zero.\<close>

function strncat_loop :: "u32 \<Rightarrow> u32 \<Rightarrow> u32 \<Rightarrow> mem \<Rightarrow> mem" where
  "strncat_loop esi edi ecx m =
     (if sint (ecx - 1) < 0 then m(edi := 0)
      else let al = m esi; m' = m(edi := al)
           in if al \<noteq> 0 then strncat_loop (esi + 1) (edi + 1) (ecx - 1) m' else m'(edi + 1 := 0))"
  by pat_completeness auto
termination by (relation "measure (\<lambda>(_, _, ecx, _). unat ecx)") (simp_all add: count_down)

definition strncat :: "u32 \<Rightarrow> u32 \<Rightarrow> u32 \<Rightarrow> mem \<Rightarrow> u32 \<times> mem" where
  "strncat dest src count m = (dest, strncat_loop src (fst (scan_end m dest) - 1) count m)"

declare strncpy_loop.simps [simp del] strncat_loop.simps [simp del]

section \<open>Comparing\<close>

text \<open>\<open>sbbl %eax,%eax\<close> and \<open>orb $1,%al\<close> after a comparison of unequal bytes.\<close>

definition cmp_result :: "u8 \<Rightarrow> u8 \<Rightarrow> int" where
  "cmp_result al x = (if al < x then -1 else 1)"

partial_function (option) strcmp :: "u32 \<Rightarrow> u32 \<Rightarrow> mem \<Rightarrow> int option" where
  "strcmp cs ct m =
     (let al = m cs
      in if al \<noteq> m ct then Some (cmp_result al (m ct))
         else if al \<noteq> 0 then strcmp (cs + 1) (ct + 1) m else Some 0)"

function strncmp :: "u32 \<Rightarrow> u32 \<Rightarrow> u32 \<Rightarrow> mem \<Rightarrow> int" where
  "strncmp cs ct count m =
     (if sint (count - 1) < 0 then 0
      else let al = m cs
           in if al \<noteq> m ct then cmp_result al (m ct)
              else if al \<noteq> 0 then strncmp (cs + 1) (ct + 1) (count - 1) m else 0)"
  by pat_completeness auto
termination by (relation "measure (\<lambda>(_, _, ecx, _). unat ecx)") (simp_all add: count_down)

declare strncmp.simps [simp del]

text \<open>
  \<open>memcmp\<close> compares the bytes as signed ones, \<open>ct\<close> with \<open>cs\<close>; for \<open>count = 0\<close> no comparison sets the flags, so they are those
  \<open>zf\<close>, \<open>lt\<close> that the surrounding code left.
\<close>

definition memcmp :: "bool \<Rightarrow> bool \<Rightarrow> u32 \<Rightarrow> u32 \<Rightarrow> u32 \<Rightarrow> mem \<Rightarrow> int" where
  "memcmp zf lt cs ct count m =
     (case repe_cmpsb m ct cs (unat count) zf lt of (_, _, z, l) \<Rightarrow> if z then 0 else if l then 1 else -1)"

section \<open>Searching\<close>

definition strlen :: "u32 \<Rightarrow> mem \<Rightarrow> u32" where
  "strlen s m = NOT (snd (scan_end m s)) - 1"

partial_function (option) strchr_loop :: "u32 \<Rightarrow> u8 \<Rightarrow> mem \<Rightarrow> u32 option" where
  "strchr_loop esi ah m =
     (let al = m esi in if al = ah then Some esi else if al \<noteq> 0 then strchr_loop (esi + 1) ah m else Some 0)"

definition strchr :: "u32 \<Rightarrow> u32 \<Rightarrow> mem \<Rightarrow> u32 option" where
  "strchr s c m = strchr_loop s (ucast c) m"

partial_function (option) strrchr_loop :: "u32 \<Rightarrow> u8 \<Rightarrow> u32 \<Rightarrow> mem \<Rightarrow> u32 option" where
  "strrchr_loop esi ah res m =
     (let al = m esi; res = (if al = ah then esi else res)
      in if al \<noteq> 0 then strrchr_loop (esi + 1) ah res m else Some res)"

definition strrchr :: "u32 \<Rightarrow> u32 \<Rightarrow> mem \<Rightarrow> u32 option" where
  "strrchr s c m = strrchr_loop s (ucast c) 0 m"

text \<open>Whether a byte other than zero is in the set at \<open>ct\<close> of \<open>edx\<close> bytes; \<open>testb\<close> has cleared the zero flag.\<close>

definition in_set :: "u32 \<Rightarrow> u32 \<Rightarrow> u8 \<Rightarrow> mem \<Rightarrow> bool" where
  "in_set ct edx al m = snd (snd (repne_scasb m al ct (unat edx) False))"

text \<open>The loop of \<open>strspn\<close>, \<open>strcspn\<close> and \<open>strpbrk\<close>: it goes on while the byte is in the set (\<open>je\<close>) or not (\<open>jne\<close>); it
  returns \<open>esi\<close> before its \<open>decl\<close> and whether the end of the string was met.\<close>

partial_function (option) span_loop :: "bool \<Rightarrow> u32 \<Rightarrow> u32 \<Rightarrow> u32 \<Rightarrow> mem \<Rightarrow> (u32 \<times> bool) option" where
  "span_loop go esi ct edx m =
     (let al = m esi
      in if al = 0 then Some (esi + 1, True)
         else if in_set ct edx al m = go then span_loop go (esi + 1) ct edx m else Some (esi + 1, False))"

definition strspn :: "u32 \<Rightarrow> u32 \<Rightarrow> mem \<Rightarrow> u32 option" where
  "strspn cs ct m = map_option (\<lambda>(esi, _). esi - 1 - cs) (span_loop True cs ct (strlen ct m) m)"

definition strcspn :: "u32 \<Rightarrow> u32 \<Rightarrow> mem \<Rightarrow> u32 option" where
  "strcspn cs ct m = map_option (\<lambda>(esi, _). esi - 1 - cs) (span_loop False cs ct (strlen ct m) m)"

definition strpbrk :: "u32 \<Rightarrow> u32 \<Rightarrow> mem \<Rightarrow> u32 option" where
  "strpbrk cs ct m = map_option (\<lambda>(esi, stop). if stop then 0 else esi - 1) (span_loop False cs ct (strlen ct m) m)"

text \<open>
  \<open>strstr\<close>: \<open>decl %ecx\<close> sets the zero flag for an empty search string; later rounds come from \<open>cmpb\<close> with the flag clear. After the
  comparison \<open>esi\<close> is one past the byte of \<open>cs\<close> that differs.
\<close>

partial_function (option) strstr_loop :: "bool \<Rightarrow> u32 \<Rightarrow> u32 \<Rightarrow> u32 \<Rightarrow> mem \<Rightarrow> u32 option" where
  "strstr_loop zf esi ct edx m =
     (case repe_cmpsb m esi ct (unat edx) zf False of (e, _, z, _) \<Rightarrow>
        if z then Some esi else if m (e - 1) \<noteq> 0 then strstr_loop False (esi + 1) ct edx m else Some 0)"

definition strstr :: "u32 \<Rightarrow> u32 \<Rightarrow> mem \<Rightarrow> u32 option" where
  "strstr cs ct m = (let edx = strlen ct m in strstr_loop (edx = 0) cs ct edx m)"

definition memchr :: "u32 \<Rightarrow> u8 \<Rightarrow> u32 \<Rightarrow> mem \<Rightarrow> u32" where
  "memchr cs c count m =
     (if count = 0 then 0
      else case repne_scasb m c cs (unat count) False of (edi, _, z) \<Rightarrow> if z then edi - 1 else 1 - 1)"

section \<open>Blocks of memory\<close>

definition memcpy :: "u32 \<Rightarrow> u32 \<Rightarrow> u32 \<Rightarrow> mem \<Rightarrow> u32 \<times> mem" where
  "memcpy dest src n m = (dest, rep_movsb 1 src dest (unat n) m)"

definition memmove :: "u32 \<Rightarrow> u32 \<Rightarrow> u32 \<Rightarrow> mem \<Rightarrow> u32 \<times> mem" where
  "memmove dest src n m =
     (if dest < src then (dest, snd (memcpy dest src n m))
      else (dest, rep_movsb (-1) (n - 1 + src) (n - 1 + dest) (unat n) m))"

definition memset :: "u32 \<Rightarrow> u32 \<Rightarrow> u32 \<Rightarrow> mem \<Rightarrow> u32 \<times> mem" where
  "memset s c count m = (s, rep_stosb (ucast c) s (unat count) m)"

section \<open>Cutting a string into tokens\<close>

text \<open>
  \<open>ebx\<close> is \<open>___strtok\<close> at the start and the result at the end, \<open>esi\<close> is \<open>s\<close> at the start and \<open>___strtok\<close> at the end.
\<close>

definition strtok_end :: "u32 \<Rightarrow> u32 \<Rightarrow> mem \<Rightarrow> u32 \<times> u32 \<times> mem" where
  "strtok_end ebx esi m = (let ebx = (if m ebx \<noteq> 0 then ebx else 0) in (ebx, if ebx \<noteq> 0 then esi else ebx, m))"

definition strtok :: "u32 \<Rightarrow> u32 \<Rightarrow> u32 \<Rightarrow> mem \<Rightarrow> (u32 \<times> u32 \<times> mem) option" where
  "strtok s ct saved m =
     (if s = 0 \<and> saved = 0 then Some (saved, s, m)
      else
        let esi = (if s = 0 then saved else s); edx = strlen ct m
        in if edx = 0 then Some (0, 0, m)
           else case span_loop True esi ct edx m of None \<Rightarrow> None
             | Some (e, stop) \<Rightarrow>
                 if stop \<or> m (e - 1) = 0 then Some (0, 0, m)
                 else let ebx = e - 1
                   in case span_loop False ebx ct edx m of None \<Rightarrow> None
                     | Some (e, stop) \<Rightarrow>
                         if stop \<or> m (e - 1) = 0 then Some (strtok_end ebx 0 m)
                         else Some (strtok_end ebx e (m(e - 1 := 0))))"

section \<open>Strings in memory\<close>

fun cstr :: "mem \<Rightarrow> u32 \<Rightarrow> u8 list \<Rightarrow> bool" where
  "cstr m p [] \<longleftrightarrow> m p = 0"
| "cstr m p (x # xs) \<longleftrightarrow> m p = x \<and> x \<noteq> 0 \<and> cstr m (p + 1) xs"

lemma cstr_drop: "cstr m p xs \<Longrightarrow> i \<le> length xs \<Longrightarrow> cstr m (p + of_nat i) (drop i xs)"
proof (induction xs arbitrary: p i)
  case (Cons x xs)
  show ?case
  proof (cases i)
    case (Suc j)
    then show ?thesis using Cons.IH [of "p + 1" j] Cons.prems by (simp add: add.assoc)
  qed (use Cons.prems in simp)
qed simp

lemma scan_cstr:
  "cstr m p xs \<Longrightarrow> length xs < n \<Longrightarrow> repne_scasb m 0 p n zf = (p + of_nat (length xs) + 1, n - length xs - 1, True)"
proof (induction xs arbitrary: p n zf)
  case (Cons x xs)
  then have "repne_scasb m 0 p n zf = repne_scasb m 0 (p + 1) (n - 1) False" by (subst repne_scasb.simps) simp
  then show ?case using Cons.IH [of "p + 1" "n - 1"] Cons.prems by (simp add: add_ac)
qed (simp add: repne_scasb.simps)

lemma scan_end_cstr:
  assumes "cstr m p xs" "length xs < 0xffffffff"
  shows "fst (scan_end m p) = p + of_nat (length xs) + 1" "strlen p m = of_nat (length xs)"
proof -
  have e: "scan_end m p = (p + of_nat (length xs) + 1, of_nat (0xffffffff - length xs - 1))"
    using scan_cstr [OF assms] by (simp add: scan_end_def)
  then show "fst (scan_end m p) = p + of_nat (length xs) + 1" by simp
  have "(of_nat (0xffffffff - length xs - 1) :: u32) = of_nat 0xffffffff - of_nat (length xs) - 1"
    using assms(2) by (simp add: of_nat_diff)
  then show "strlen p m = of_nat (length xs)" using e by (simp add: strlen_def not_eq_complement)
qed

section \<open>What the routines compute on strings\<close>

lemma find_Suc: "find P [0..<Suc n] = (if P 0 then Some 0 else map_option Suc (find (\<lambda>i. P (Suc i)) [0..<n]))"
proof -
  have "[0..<Suc n] = 0 # map Suc [0..<n]" by (simp add: upt_conv_Cons map_Suc_upt del: upt_Suc)
  moreover have "find P (map Suc is) = map_option Suc (find (\<lambda>i. P (Suc i)) is)" for "is" by (induction "is") auto
  ultimately show ?thesis by simp
qed

text \<open>The place where something was found, as the address the routines return.\<close>

definition found :: "u32 \<Rightarrow> u32 \<Rightarrow> nat option \<Rightarrow> u32" where
  "found p z r = (case r of None \<Rightarrow> z | Some i \<Rightarrow> p + of_nat i)"

lemma found_simps [simp]: "found p z None = z" "found p z (Some i) = p + of_nat i" by (simp_all add: found_def)

lemma found_Suc: "found p z (map_option Suc r) = found (p + 1) z r"
  by (cases r) (simp_all add: add.assoc)

lemma strcmp_cstr:
  "cstr m p xs \<Longrightarrow> cstr m q ys \<Longrightarrow> strcmp p q m = Some (if xs = ys then 0 else if xs < ys then -1 else 1)"
proof (induction xs arbitrary: p q ys)
  case Nil
  then show ?case by (cases ys) (auto simp: strcmp.simps cmp_result_def word_gt_0)
next
  case (Cons x xs)
  show ?case
  proof (cases ys)
    case Nil
    then show ?thesis using Cons.prems by (auto simp: strcmp.simps cmp_result_def)
  next
    case (Cons y zs)
    have "strcmp p q m = (if x \<noteq> y then Some (cmp_result x y) else strcmp (p + 1) (q + 1) m)"
      using Cons.prems Cons by (simp add: strcmp.simps [of p q m])
    then show ?thesis using Cons.IH [of "p + 1" "q + 1" zs] Cons.prems Cons by (auto simp: cmp_result_def)
  qed
qed

lemma strchr_cstr:
  "cstr m p xs \<Longrightarrow> strchr_loop p c m = Some (found p 0 (find (\<lambda>i. (xs @ [0]) ! i = c) [0..<Suc (length xs)]))"
proof (induction xs arbitrary: p)
  case Nil
  then show ?case by (simp add: strchr_loop.simps find_Suc)
next
  case (Cons x xs)
  have "strchr_loop p c m = (if x = c then Some p else strchr_loop (p + 1) c m)"
    using Cons.prems by (simp add: strchr_loop.simps [of p c m])
  then show ?case using Cons.IH [of "p + 1"] Cons.prems by (simp add: find_Suc [of _ "Suc _"] found_Suc del: upt_Suc)
qed

lemma strrchr_cstr:
  "cstr m p xs \<Longrightarrow> strrchr_loop p c z m = Some (found p z (find (\<lambda>i. (xs @ [0]) ! i = c) (rev [0..<Suc (length xs)])))"
proof (induction xs arbitrary: p z)
  case Nil
  then show ?case by (simp add: strrchr_loop.simps)
next
  case (Cons x xs)
  have "rev [0..<Suc (Suc n)] = map Suc (rev [0..<Suc n]) @ [0]" for n
  proof -
    have "[0..<Suc (Suc n)] = 0 # map Suc [0..<Suc n]" by (simp only: map_Suc_upt) (simp add: upt_conv_Cons del: upt_Suc)
    then show ?thesis by (simp only: rev.simps rev_map)
  qed
  moreover have "find P (map Suc is @ [0]) =
      (case find (\<lambda>i. P (Suc i)) is of None \<Rightarrow> if P 0 then Some 0 else None | Some i \<Rightarrow> Some (Suc i))" for P "is"
    by (induction "is") auto
  moreover have "strrchr_loop p c z m = strrchr_loop (p + 1) c (if x = c then p else z) m"
    using Cons.prems by (simp add: strrchr_loop.simps [of p c z m])
  ultimately show ?case
    using Cons.IH [of "p + 1"] Cons.prems by (simp add: add.assoc split: option.splits del: upt_Suc)
qed

lemma in_set_cstr: "cstr m q ys \<Longrightarrow> length ys < 2 ^ 32 \<Longrightarrow> in_set q (of_nat (length ys)) a m \<longleftrightarrow> a \<in> set ys"
proof -
  have "cstr m q ys \<Longrightarrow> snd (snd (repne_scasb m a q (length ys) False)) \<longleftrightarrow> a \<in> set ys"
  proof (induction ys arbitrary: q)
    case (Cons y ys)
    have "repne_scasb m a q (length (y # ys)) False = (if y = a then (q + 1, length ys, True) else repne_scasb m a (q + 1) (length ys) False)"
      using Cons.prems by (subst repne_scasb.simps) simp
    then show ?case using Cons by auto
  qed (simp add: repne_scasb.simps)
  then show "cstr m q ys \<Longrightarrow> length ys < 2 ^ 32 \<Longrightarrow> ?thesis" by (simp add: in_set_def unat_of_nat)
qed

lemma span_cstr:
  assumes q: "cstr m q ys" "length ys < 2 ^ 32"
  shows "cstr m p xs \<Longrightarrow> span_loop go p q (of_nat (length ys)) m =
    (let k = length (takeWhile (\<lambda>x. (x \<in> set ys) = go) xs) in Some (p + of_nat k + 1, k = length xs))"
proof (induction xs arbitrary: p)
  case Nil
  then show ?case by (simp add: span_loop.simps)
next
  case (Cons x xs)
  have "span_loop go p q (of_nat (length ys)) m =
      (if (x \<in> set ys) = go then span_loop go (p + 1) q (of_nat (length ys)) m else Some (p + 1, False))"
    using Cons.prems in_set_cstr [OF q, of x] by (simp add: span_loop.simps [of go p])
  then show ?case using Cons.IH [of "p + 1"] Cons.prems by (simp add: Let_def add_ac)
qed

text \<open>The comparison of \<open>strstr\<close>: when it fails, the byte it stopped at is zero if the string ends inside the search string.\<close>

lemma cmpsb_cstr:
  "cstr m p xs \<Longrightarrow> cstr m q ys \<Longrightarrow> ys \<noteq> [] \<Longrightarrow>
   \<exists>e d l. repe_cmpsb m p q (length ys) zf lt = (e, d, prefix ys xs, l) \<and> (\<not> prefix ys xs \<longrightarrow> (m (e - 1) = 0) = prefix xs ys)"
proof (induction ys arbitrary: xs p q zf lt)
  case (Cons y ys)
  have q: "m q = y" "y \<noteq> 0" "cstr m (q + 1) ys" using Cons.prems(2) by simp_all
  show ?case
  proof (cases xs)
    case Nil
    then have "m p \<noteq> m q" "m p = 0" using Cons.prems(1) q by auto
    then show ?thesis using Nil by (simp add: repe_cmpsb.simps [of m p q])
  next
    case x: (Cons x zs)
    have p: "m p = x" "x \<noteq> 0" "cstr m (p + 1) zs" using Cons.prems(1) x by simp_all
    show ?thesis
    proof (cases "x = y")
      case False
      then show ?thesis using p q x by (simp add: repe_cmpsb.simps [of m p q])
    next
      case True
      have r: "repe_cmpsb m p q (length (y # ys)) zf lt = repe_cmpsb m (p + 1) (q + 1) (length ys) True False"
        using True p(1) q(1) by (subst repe_cmpsb.simps) simp
      show ?thesis
      proof (cases "ys = []")
        case True
        then show ?thesis using r x \<open>x = y\<close> by (auto simp: repe_cmpsb.simps [of m "p + 1"])
      next
        case False
        then show ?thesis using Cons.IH [OF p(3) q(3) False, of True False] unfolding r x by (simp add: True)
      qed
    qed
  qed
qed simp

lemma prefix_too_long: "prefix xs ys \<Longrightarrow> \<not> prefix ys xs \<Longrightarrow> find (\<lambda>i. prefix ys (drop i xs)) is = None"
proof -
  assume a: "prefix xs ys" "\<not> prefix ys xs"
  have "\<not> prefix ys (drop i xs)" for i
  proof
    assume "prefix ys (drop i xs)"
    then have "length ys \<le> length xs - i" using prefix_length_le by fastforce
    then have "length xs = length ys" using prefix_length_le [OF a(1)] by simp
    then have "xs = ys" using a(1) prefix_same_cases by (metis append_Nil2 append_eq_conv_conj prefix_def take_all order_refl)
    then show False using a(2) by simp
  qed
  then show ?thesis by (simp add: find_None_iff)
qed

lemma strstr_cstr:
  assumes q: "cstr m q ys" "ys \<noteq> []" "length ys < 2 ^ 32"
  shows "cstr m p xs \<Longrightarrow> strstr_loop zf p q (of_nat (length ys)) m =
    Some (found p 0 (find (\<lambda>i. prefix ys (drop i xs)) [0..<Suc (length xs)]))"
proof (induction xs arbitrary: p zf)
  case Nil
  from cmpsb_cstr [OF Nil q(1,2), of zf False] obtain e d l where
    r: "repe_cmpsb m p q (length ys) zf False = (e, d, False, l)" "m (e - 1) = 0" using q(2) by auto
  then show ?case using q(2,3) by (simp add: strstr_loop.simps unat_of_nat)
next
  case (Cons x xs)
  from cmpsb_cstr [OF Cons.prems q(1,2), of zf False] obtain e d l where
    r: "repe_cmpsb m p q (length ys) zf False = (e, d, prefix ys (x # xs), l)"
      "\<not> prefix ys (x # xs) \<longrightarrow> (m (e - 1) = 0) = prefix (x # xs) ys" by blast
  have l: "strstr_loop zf p q (of_nat (length ys)) m =
      (if prefix ys (x # xs) then Some p else if prefix (x # xs) ys then Some 0
       else strstr_loop False (p + 1) q (of_nat (length ys)) m)"
    using r q(3) by (simp add: strstr_loop.simps [of zf p] unat_of_nat)
  show ?case
  proof (cases "\<not> prefix ys (x # xs) \<and> prefix (x # xs) ys")
    case True
    then show ?thesis using prefix_too_long [of "x # xs" ys] by (simp add: l del: upt_Suc)
  next
    case False
    then show ?thesis using Cons.IH [of "p + 1" False] Cons.prems
      by (auto simp add: l find_Suc [of _ "Suc _"] found_Suc simp del: upt_Suc)
  qed
qed

section \<open>What the routines store\<close>

lemma cstr_write: "(\<And>j. j \<le> length xs \<Longrightarrow> p + of_nat j \<noteq> a) \<Longrightarrow> cstr (m(a := v)) p xs = cstr m p xs"
proof (induction xs arbitrary: p)
  case Nil
  then show ?case using Nil [of 0] by simp
next
  case (Cons x xs)
  have "p + 1 + of_nat j \<noteq> a" if "j \<le> length xs" for j using Cons.prems [of "Suc j"] that by (simp add: add.assoc)
  then show ?case using Cons.IH [of "p + 1"] Cons.prems [of 0] by simp
qed

text \<open>Copying upwards is right when no byte is read after it was overwritten.\<close>

definition upwards :: "u32 \<Rightarrow> u32 \<Rightarrow> nat \<Rightarrow> bool" where
  "upwards src dest n \<longleftrightarrow> (\<forall>i j. i < j \<longrightarrow> j < n \<longrightarrow> dest + of_nat i \<noteq> src + of_nat j)"

lemma upwards_Suc:
  assumes "upwards src dest (Suc n)"
  shows "upwards (src + 1) (dest + 1) n" "\<forall>j < n. src + 1 + of_nat j \<noteq> dest"
proof -
  have a: "dest + of_nat i \<noteq> src + of_nat j" if "i < j" "j < Suc n" for i j using assms that unfolding upwards_def by blast
  show "upwards (src + 1) (dest + 1) n" unfolding upwards_def
  proof (intro allI impI)
    fix i j assume "i < j" "j < n"
    then show "dest + 1 + of_nat i \<noteq> src + 1 + of_nat j" using a [of "Suc i" "Suc j"] by (simp add: add_ac)
  qed
  show "\<forall>j < n. src + 1 + of_nat j \<noteq> dest"
  proof (intro allI impI)
    fix j assume "j < n"
    then show "src + 1 + of_nat j \<noteq> dest" using a [of 0 "Suc j"] by (auto simp add: add_ac)
  qed
qed

lemma count_pos:
  fixes n :: u32
  assumes "0 < unat n" "unat n < 2 ^ 31"
  shows "\<not> sint (n - 1) < 0" "unat (n - 1) = unat n - 1"
proof -
  have "n \<noteq> 0" using assms(1) by auto
  then show u: "unat (n - 1) = unat n - 1" by (simp add: unat_minus_one)
  obtain k where k: "unat (n - 1) = k" by blast
  then have "k < 2 ^ 31" using u assms by simp
  moreover have "n - 1 = of_nat k" using k by auto
  ultimately show "\<not> sint (n - 1) < 0" by (simp add: signed_of_nat signed_take_bit_nonnegative_iff bit_iff_odd)
qed

lemma copy_loop_cstr:
  "cstr m p xs \<Longrightarrow> upwards p q (Suc (length xs)) \<Longrightarrow> copy_loop p q m = Some (write_mem q (xs @ [0]) m)"
proof (induction xs arbitrary: p q m)
  case Nil
  then show ?case by (simp add: copy_loop.simps fun_upd_def)
next
  case (Cons x xs)
  note u = upwards_Suc [OF Cons.prems(2) [simplified]]
  have "cstr (m(q := x)) (p + 1) xs" using Cons.prems(1) u(2) by (subst cstr_write) auto
  then show ?case using Cons.IH u(1) Cons.prems(1) by (simp add: copy_loop.simps [of p q m])
qed

lemma strcpy_cstr:
  "cstr m src xs \<Longrightarrow> upwards src dest (Suc (length xs)) \<Longrightarrow> strcpy dest src m = Some (dest, write_mem dest (xs @ [0]) m)"
  by (simp add: strcpy_def copy_loop_cstr)

lemma strcat_cstr:
  "cstr m dest ys \<Longrightarrow> length ys < 0xffffffff \<Longrightarrow> cstr m src xs \<Longrightarrow> upwards src (dest + of_nat (length ys)) (Suc (length xs)) \<Longrightarrow>
   strcat dest src m = Some (dest, write_mem (dest + of_nat (length ys)) (xs @ [0]) m)"
  using scan_end_cstr(1) [of m dest ys] by (simp add: strcat_def copy_loop_cstr)

text \<open>A source shorter than the count makes \<open>strncat\<close> store two zeros: the one it copies and one behind it.\<close>

lemma strncat_loop_short:
  "cstr m p xs \<Longrightarrow> upwards p q (Suc (length xs)) \<Longrightarrow> length xs < unat n \<Longrightarrow> unat n < 2 ^ 31 \<Longrightarrow>
   strncat_loop p q n m = write_mem q (xs @ [0, 0]) m"
proof (induction xs arbitrary: p q n m)
  case Nil
  then have "\<not> sint (n - 1) < 0" using count_pos [of n] by simp
  then show ?case using Nil by (simp add: strncat_loop.simps [of p q n] fun_upd_def)
next
  case (Cons x xs)
  have n: "\<not> sint (n - 1) < 0" "unat (n - 1) = unat n - 1" using Cons.prems(3,4) count_pos [of n] by auto
  note u = upwards_Suc [OF Cons.prems(2) [simplified]]
  define m' where "m' = m(q := x)"
  have "cstr m' (p + 1) xs" using Cons.prems(1) u(2) unfolding m'_def by (subst cstr_write) auto
  then have "strncat_loop (p + 1) (q + 1) (n - 1) m' = write_mem (q + 1) (xs @ [0, 0]) m'"
    using u(1) n(2) Cons.prems(3,4) by (intro Cons.IH) simp_all
  then show ?case using n(1) Cons.prems(1) by (simp add: strncat_loop.simps [of p q n] m'_def)
qed

lemma strncpy_loop_cstr:
  "cstr m p xs \<Longrightarrow> upwards p q (Suc (length xs)) \<Longrightarrow> unat n < 2 ^ 31 \<Longrightarrow>
   strncpy_loop p q n m = write_mem q (take (unat n) (xs @ replicate (unat n - length xs) 0)) m"
proof (induction xs arbitrary: p q n m)
  have zero: "strncpy_loop p q n m = m" if "unat n = 0" for p q n m using that by (simp add: strncpy_loop.simps [of p q 0] unat_eq_zero)
  have fill: "rep_stosb al q k m = write_mem q (replicate k al) m" for al q k m by (induction k arbitrary: q m) simp_all
  {
    case Nil
    show ?case
    proof (cases "unat n = 0")
      case False
      then have n: "\<not> sint (n - 1) < 0" "unat (n - 1) = unat n - 1" using Nil count_pos [of n] by simp_all
      obtain k where k: "unat n = Suc k" using False not0_implies_Suc by blast
      then show ?thesis using Nil n by (simp add: strncpy_loop.simps [of p q n] fill)
    qed (simp add: zero)
  next
    case (Cons x xs)
    show ?case
    proof (cases "unat n = 0")
      case False
      then have n: "\<not> sint (n - 1) < 0" "unat (n - 1) = unat n - 1" using Cons.prems count_pos [of n] by simp_all
      obtain k where k: "unat n = Suc k" using False not0_implies_Suc by blast
      note u = upwards_Suc [OF Cons.prems(2) [simplified]]
      define m' where "m' = m(q := x)"
      have "cstr m' (p + 1) xs" using Cons.prems(1) u(2) unfolding m'_def by (subst cstr_write) auto
      then have "strncpy_loop (p + 1) (q + 1) (n - 1) m' = write_mem (q + 1) (take (unat (n - 1)) (xs @ replicate (unat (n - 1) - length xs) 0)) m'"
        using u(1) n(2) Cons.prems(3) by (intro Cons.IH) simp_all
      then show ?thesis using n Cons.prems(1) k by (simp add: strncpy_loop.simps [of p q n] m'_def)
    qed (simp add: zero)
  }
qed

lemma strncmp_cstr:
  "cstr m p xs \<Longrightarrow> cstr m q ys \<Longrightarrow> unat n < 2 ^ 31 \<Longrightarrow>
   strncmp p q n m = (let a = take (unat n) xs; b = take (unat n) ys in if a = b then 0 else if a < b then -1 else 1)"
proof (induction "unat n" arbitrary: n p q xs ys)
  case 0
  then show ?case by (simp add: strncmp.simps [of p q 0] unat_eq_zero)
next
  case (Suc k)
  have n: "\<not> sint (n - 1) < 0" "unat (n - 1) = k" using Suc.prems Suc.hyps(2) count_pos [of n] by simp_all
  have s: "strncmp p q n m = (if m p \<noteq> m q then cmp_result (m p) (m q) else if m p \<noteq> 0 then strncmp (p + 1) (q + 1) (n - 1) m else 0)"
    using n(1) by (simp add: strncmp.simps [of p q n])
  show ?case
  proof (cases xs)
    case Nil
    then show ?thesis using Suc.prems(1,2) Suc.hyps(2) [symmetric] s by (cases ys) (auto simp: cmp_result_def word_gt_0)
  next
    case x: (Cons a as)
    show ?thesis
    proof (cases ys)
      case Nil
      then show ?thesis using Suc.prems(1,2) Suc.hyps(2) [symmetric] s x by (auto simp: cmp_result_def)
    next
      case (Cons b bs)
      have "strncmp (p + 1) (q + 1) (n - 1) m = (let a = take k as; b = take k bs in if a = b then 0 else if a < b then -1 else 1)"
        using Suc.hyps(1) [of "n - 1" "p + 1" as "q + 1" bs] n(2) Suc.prems Suc.hyps(2) x Cons by simp
      then show ?thesis using s Suc.prems(1,2) Suc.hyps(2) [symmetric] x Cons by (auto simp: cmp_result_def Let_def)
    qed
  qed
qed

text \<open>
  \<open>memcmp\<close> takes the bytes as signed: \<open>0x80\<close> counts as less than \<open>0x01\<close>. For no bytes its result depends on the flags before it.
\<close>

lemma memcmp_signed: "m p = 0x80 \<Longrightarrow> m q = 0x01 \<Longrightarrow> memcmp zf lt p q 1 m = -1"
  by (simp add: memcmp_def repe_cmpsb.simps)

lemma memcmp_nothing: "memcmp zf lt p q 0 m = (if zf then 0 else if lt then 1 else -1)"
  by (simp add: memcmp_def repe_cmpsb.simps)

section \<open>Moving a block\<close>

lemma movsb_up:
  "upwards src dest n \<Longrightarrow> rep_movsb 1 src dest n m = write_mem dest (map (\<lambda>i. m (src + of_nat i)) [0..<n]) m"
proof (induction n arbitrary: src dest m)
  case (Suc n)
  note u = upwards_Suc [OF Suc.prems]
  have "map (\<lambda>i. m (src + of_nat i)) [0..<Suc n] = m src # map (\<lambda>i. m (src + 1 + of_nat i)) [0..<n]"
    by (simp add: upt_conv_Cons map_Suc_upt [symmetric] add.assoc del: upt_Suc)
  moreover have "map (\<lambda>i. (m(dest := m src)) (src + 1 + of_nat i)) [0..<n] = map (\<lambda>i. m (src + 1 + of_nat i)) [0..<n]"
    using u(2) by simp
  ultimately show ?case using Suc.IH [OF u(1), of "m(dest := m src)"] by (simp only: rep_movsb.simps write_mem.simps)
qed simp

lemma write_mem_other: "(\<And>i. i < length xs \<Longrightarrow> p + of_nat i \<noteq> a) \<Longrightarrow> write_mem p xs (m(a := v)) = (write_mem p xs m)(a := v)"
proof (induction xs arbitrary: p m)
  case (Cons x xs)
  define m' where "m' = m(p := x)"
  have "p + 1 + of_nat i \<noteq> a" if "i < length xs" for i using Cons.prems [of "Suc i"] that by (simp add: add.assoc)
  then have w: "write_mem (p + 1) xs (m'(a := v)) = (write_mem (p + 1) xs m')(a := v)" by (rule Cons.IH)
  have "p \<noteq> a" using Cons.prems [of 0] by simp
  then have "(m(a := v))(p := x) = m'(a := v)" unfolding m'_def by (rule fun_upd_twist [symmetric])
  then show ?case using w by (simp only: write_mem.simps m'_def)
qed simp

lemma movsb_down:
  "(\<And>i j. j < i \<Longrightarrow> i < n \<Longrightarrow> dest + of_nat i \<noteq> src + of_nat j) \<Longrightarrow> n \<le> 2 ^ 32 \<Longrightarrow>
   rep_movsb (-1) (of_nat n - 1 + src) (of_nat n - 1 + dest) n m = write_mem dest (map (\<lambda>i. m (src + of_nat i)) [0..<n]) m"
proof (induction n arbitrary: m)
  case (Suc n)
  let ?m = "m(dest + of_nat n := m (src + of_nat n))"
  have a: "of_nat (Suc n) - 1 + b = b + of_nat n" for b :: u32 by simp
  have b: "b + of_nat n + - 1 = of_nat n - 1 + b" for b :: u32 by simp
  have r: "rep_movsb (-1) (of_nat (Suc n) - 1 + src) (of_nat (Suc n) - 1 + dest) (Suc n) m =
      rep_movsb (-1) (of_nat n - 1 + src) (of_nat n - 1 + dest) n ?m" unfolding a by (simp only: rep_movsb.simps b)
  have "rep_movsb (-1) (of_nat n - 1 + src) (of_nat n - 1 + dest) n ?m = write_mem dest (map (\<lambda>i. ?m (src + of_nat i)) [0..<n]) ?m"
    using Suc.prems by (intro Suc.IH) simp_all
  also have "map (\<lambda>i. ?m (src + of_nat i)) [0..<n] = map (\<lambda>i. m (src + of_nat i)) [0..<n]"
    using Suc.prems(1) [of _ n] by (auto intro!: map_cong) (metis lessI)+
  also have "write_mem dest (map (\<lambda>i. m (src + of_nat i)) [0..<n]) ?m =
      (write_mem dest (map (\<lambda>i. m (src + of_nat i)) [0..<n]) m)(dest + of_nat n := m (src + of_nat n))"
  proof (rule write_mem_other)
    fix i assume "i < length (map (\<lambda>i. m (src + of_nat i)) [0..<n])"
    then have "i < n" by simp
    then have "(of_nat i :: u32) \<noteq> of_nat n" using Suc.prems(2) by (simp add: of_nat_inverse word_unat_eq_iff unat_of_nat)
    then show "dest + of_nat i \<noteq> dest + of_nat n" by simp
  qed
  also have "\<dots> = write_mem dest (map (\<lambda>i. m (src + of_nat i)) [0..<Suc n]) m" by (simp add: write_mem_snoc)
  finally show ?case unfolding r .
qed simp

lemma addr_neq: "unat (a :: u32) + i \<noteq> unat (b :: u32) + j \<Longrightarrow> unat a + i < 2 ^ 32 \<Longrightarrow> unat b + j < 2 ^ 32 \<Longrightarrow> a + of_nat i \<noteq> b + of_nat j"
proof
  assume n: "unat a + i \<noteq> unat b + j" "unat a + i < 2 ^ 32" "unat b + j < 2 ^ 32" and e: "a + of_nat i = b + of_nat j"
  have "a + of_nat i = of_nat (unat a + i)" "b + of_nat j = of_nat (unat b + j)" by simp_all
  then have "(of_nat (unat a + i) :: u32) = of_nat (unat b + j)" using e by metis
  then have "(unat a + i) mod 2 ^ 32 = (unat b + j) mod 2 ^ 32" by (simp only: word_of_nat_eq_iff take_bit_eq_mod) simp
  then show False using n by simp
qed

text \<open>
  C34: for every two regions that do not run over the end of the address space, however they overlap, \<open>memmove\<close> stores the old
  bytes of the source at the destination and changes no other byte.
\<close>

theorem memmove_ok:
  assumes "unat dest + unat n \<le> 2 ^ 32" "unat src + unat n \<le> 2 ^ 32"
  shows "memmove dest src n m = (dest, write_mem dest (map (\<lambda>i. m (src + of_nat i)) [0..<unat n]) m)"
proof (cases "dest < src")
  case True
  then have l: "unat dest < unat src" by (simp add: word_less_nat_alt)
  have "upwards src dest (unat n)" unfolding upwards_def
  proof (intro allI impI)
    fix i j assume "i < j" "j < unat n"
    then show "dest + of_nat i \<noteq> src + of_nat j" using l assms by (intro addr_neq) simp_all
  qed
  then show ?thesis using True by (simp add: memmove_def memcpy_def movsb_up)
next
  case False
  then have l: "unat src \<le> unat dest" by (simp add: word_less_nat_alt)
  have "dest + of_nat i \<noteq> src + of_nat j" if "j < i" "i < unat n" for i j
    using that l assms by (intro addr_neq) simp_all
  moreover have "unat n \<le> 2 ^ 32" using assms(1) by simp
  ultimately have "rep_movsb (-1) (of_nat (unat n) - 1 + src) (of_nat (unat n) - 1 + dest) (unat n) m =
      write_mem dest (map (\<lambda>i. m (src + of_nat i)) [0..<unat n]) m" by (rule movsb_down)
  then show ?thesis using False by (simp add: memmove_def)
qed

text \<open>
  C22: on zero-terminated strings every searching routine returns, and its result is that of the list function: \<open>strlen\<close> the length,
  \<open>strcmp\<close> the sign of the lexicographic order of the bytes, \<open>strchr\<close> and \<open>strrchr\<close> the first and the last place of a byte
  (the terminating zero included), \<open>strspn\<close> and \<open>strcspn\<close> the length of the longest start inside and outside a set,
  \<open>strpbrk\<close> the first place of a byte of the set, and \<open>strstr\<close> the first place where the other string starts.
\<close>

theorem string_search_ok:
  assumes p: "cstr m p xs" "length xs < 0xffffffff" and q: "cstr m q ys" "length ys < 0xffffffff"
  shows "strlen p m = of_nat (length xs) \<and>
    strcmp p q m = Some (if xs = ys then 0 else if xs < ys then -1 else 1) \<and>
    strchr p c m = Some (found p 0 (find (\<lambda>i. (xs @ [0]) ! i = ucast c) [0..<Suc (length xs)])) \<and>
    strrchr p c m = Some (found p 0 (find (\<lambda>i. (xs @ [0]) ! i = ucast c) (rev [0..<Suc (length xs)]))) \<and>
    strspn p q m = Some (of_nat (length (takeWhile (\<lambda>x. x \<in> set ys) xs))) \<and>
    strcspn p q m = Some (of_nat (length (takeWhile (\<lambda>x. x \<notin> set ys) xs))) \<and>
    strpbrk p q m = Some (let k = length (takeWhile (\<lambda>x. x \<notin> set ys) xs) in if k = length xs then 0 else p + of_nat k) \<and>
    strstr p q m = Some (found p 0 (find (\<lambda>i. prefix ys (drop i xs)) [0..<Suc (length xs)]))"
proof -
  have l: "strlen p m = of_nat (length xs)" "strlen q m = of_nat (length ys)"
    using scan_end_cstr(2) [OF p] scan_end_cstr(2) [OF q] .
  have yl: "length ys < 2 ^ 32" using q(2) by simp
  note span = span_cstr [OF q(1) yl p(1)]
  have "strstr p q m = Some (found p 0 (find (\<lambda>i. prefix ys (drop i xs)) [0..<Suc (length xs)]))"
  proof (cases "ys = []")
    case True
    then show ?thesis by (simp add: strstr_def l strstr_loop.simps repe_cmpsb.simps find_Suc del: upt_Suc)
  next
    case False
    then show ?thesis using strstr_cstr [OF q(1) False yl p(1)] by (simp add: strstr_def l Let_def)
  qed
  moreover have "strspn p q m = Some (of_nat (length (takeWhile (\<lambda>x. x \<in> set ys) xs)))"
    using span [of True] by (simp add: strspn_def l Let_def)
  moreover have "strcspn p q m = Some (of_nat (length (takeWhile (\<lambda>x. x \<notin> set ys) xs)))"
    using span [of False] by (simp add: strcspn_def l Let_def)
  moreover have "strpbrk p q m = Some (let k = length (takeWhile (\<lambda>x. x \<notin> set ys) xs) in if k = length xs then 0 else p + of_nat k)"
    using span [of False] by (simp add: strpbrk_def l Let_def)
  ultimately show ?thesis using l(1) strcmp_cstr [OF p(1) q(1)] strchr_cstr [OF p(1)] strrchr_cstr [OF p(1)]
    by (simp add: strchr_def strrchr_def del: upt_Suc)
qed

section \<open>Two strings\<close>

definition mem_demo :: mem where
  "mem_demo = (\<lambda>_. 0)(0x100 := 97, 0x101 := 98, 0x102 := 99, 0x200 := 98, 0x201 := 99)"

theorem memmove_witness:
  "unat (0x101 :: u32) + unat (3 :: u32) \<le> 2 ^ 32 \<and> snd (memmove 0x101 0x100 3 mem_demo) 0x103 = 99 \<and> snd (memmove 0x101 0x100 3 mem_demo) 0x101 = 97"
  using memmove_ok [where dest = "0x101" and n = 3 and src = "0x100" and m = mem_demo] by (simp add: mem_demo_def upt_rec)

theorem string_search_witness:
  "cstr mem_demo 0x100 [97, 98, 99] \<and> cstr mem_demo 0x200 [98, 99] \<and> strcmp 0x100 0x200 mem_demo = Some (-1) \<and>
   strstr 0x100 0x200 mem_demo = Some 0x101 \<and> strcspn 0x100 0x200 mem_demo = Some 1"
proof -
  have s: "cstr mem_demo 0x100 [97, 98, 99]" "cstr mem_demo 0x200 [98, 99]" by (simp_all add: mem_demo_def)
  show ?thesis using string_search_ok [OF s(1) _ s(2)] s by (simp add: find_Suc numeral_3_eq_3)
qed

end
