(* ===== verification/Namei_View.thy ===== *)
theory Namei_View
  imports Namei File_Dev
begin

text \<open>
  Looking up a name in a directory, on top of the interface of the buffer cache.

  A directory without holes is seen as the list of its entries (\<open>dir_list\<close>: inode number and name), which are the bytes
  of its file in groups of 16. \<open>find_entry\<close> refines the search in this list.
\<close>

section \<open>A directory as a list\<close>

definition dir_zone :: "(bool \<Rightarrow> nat \<Rightarrow> nat \<Rightarrow> u8) \<Rightarrow> u16 \<Rightarrow> nat \<Rightarrow> 'z fs_st_scheme \<Rightarrow> nat \<Rightarrow> u16" where
  "dir_zone D dv d s n = file_zone (\<lambda>z. block_there dv z s) (block_of D dv s) (inode_table s d) n"

definition dir_ok :: "(bool \<Rightarrow> nat \<Rightarrow> nat \<Rightarrow> u8) \<Rightarrow> u16 \<Rightarrow> nat \<Rightarrow> 'z fs_st_scheme \<Rightarrow> bool" where
  "dir_ok D dv d s \<longleftrightarrow> i_dev (inode_table s d) = dv \<and> 0 < i_size (inode_table s d) \<and> unat (i_size (inode_table s d)) \<le> MAX_FILE \<and>
     (\<forall>n. 1024 * n < unat (i_size (inode_table s d)) \<longrightarrow> dir_zone D dv d s n \<noteq> 0 \<and> block_there dv (dir_zone D dv d s n) s)"

definition dir_entries :: "nat \<Rightarrow> 'z fs_st_scheme \<Rightarrow> nat" where
  "dir_entries d s = unat (i_size (inode_table s d)) div 16"

definition entry_byte :: "(bool \<Rightarrow> nat \<Rightarrow> nat \<Rightarrow> u8) \<Rightarrow> u16 \<Rightarrow> nat \<Rightarrow> 'z fs_st_scheme \<Rightarrow> nat \<Rightarrow> nat \<Rightarrow> u8" where
  "entry_byte D dv d s k j = file_byte (\<lambda>z. block_there dv z s) (block_of D dv s) (inode_table s d) (16 * k + j)"

definition entry_name :: "(nat \<Rightarrow> u8) \<Rightarrow> u8 list" where
  "entry_name e = takeWhile (\<lambda>c. c \<noteq> 0) (map (\<lambda>j. e (2 + j)) [0..<NAME_LEN])"

definition dir_list :: "(bool \<Rightarrow> nat \<Rightarrow> nat \<Rightarrow> u8) \<Rightarrow> u16 \<Rightarrow> nat \<Rightarrow> 'z fs_st_scheme \<Rightarrow> (u16 \<times> u8 list) list" where
  "dir_list D dv d s =
     map (\<lambda>k. (half_at (entry_byte D dv d s k) 0, entry_name (entry_byte D dv d s k))) [0..<dir_entries d s]"

text \<open>The name the caller asks for: the first 14 of its \<open>namelen\<close> bytes.\<close>

definition asked :: "u32 \<Rightarrow> nat \<Rightarrow> 'z um_st_scheme \<Rightarrow> u8 list" where
  "asked name namelen s = map (\<lambda>j. get_fs_byte (name + of_nat j) s) [0..<min namelen NAME_LEN]"

definition hit :: "u8 list \<Rightarrow> (nat \<Rightarrow> u8) \<Rightarrow> bool" where
  "hit us e \<longleftrightarrow> half_at e 0 \<noteq> 0 \<and> entry_name e = us"

text \<open>A comparison of \<open>len\<close> bytes and a zero byte behind them is the comparison of the names.\<close>

lemma takeWhile_name:
  "length us \<le> n \<Longrightarrow> 0 \<notin> set us \<Longrightarrow>
   takeWhile (\<lambda>c. c \<noteq> (0::u8)) (map f [0..<n]) = us \<longleftrightarrow>
     (\<forall>j < length us. f j = us ! j) \<and> (length us < n \<longrightarrow> f (length us) = 0)"
proof (induction n arbitrary: f us)
  case (Suc n)
  have m: "map f [0..<Suc n] = f 0 # map (\<lambda>j. f (Suc j)) [0..<n]"
    by (simp only: upt_conv_Cons [OF zero_less_Suc] list.map map_Suc_upt [symmetric] map_map comp_def)
  show ?case
  proof (cases us)
    case Nil
    then show ?thesis by (auto simp: m simp del: upt_Suc)
  next
    case (Cons u us')
    note ih = Suc.IH [of us' "\<lambda>j. f (Suc j)"]
    have "(\<forall>j < length us. f j = us ! j) \<longleftrightarrow> f 0 = u \<and> (\<forall>j < length us'. f (Suc j) = us' ! j)"
      unfolding Cons by (auto simp: less_Suc_eq_0_disj)
    then show ?thesis using ih Suc.prems Cons by (auto simp: m simp del: upt_Suc)
  qed
qed simp

lemma match_hit:
  assumes len: "len \<le> NAME_LEN" "length us = len" and us: "\<forall>j < len. us ! j = get_fs_byte (name + of_nat j) t" "0 \<notin> set us"
    and e: "\<And>j. j < 16 \<Longrightarrow> data_get b (off + j) t = e j"
  shows "match len name (b, off) t = hit us e"
proof -
  have n: "de_name (b, off) j t = e (2 + j)" if "j < 14" for j using that e [of "2 + j"] by (simp add: de_name_def add.assoc)
  have i: "de_inode (b, off) t = half_at e 0" using e [of 0] e [of 1] by (simp add: de_inode_def half_at_def)
  have "entry_name e = us \<longleftrightarrow> (\<forall>j < len. e (2 + j) = us ! j) \<and> (len < NAME_LEN \<longrightarrow> e (2 + len) = 0)"
    using takeWhile_name [of us NAME_LEN "\<lambda>j. e (2 + j)"] len us(2) by (simp add: entry_name_def)
  moreover have "list_all (\<lambda>j. get_fs_byte (name + of_nat j) t = de_name (b, off) j t) [0..<len] \<longleftrightarrow> (\<forall>j < len. e (2 + j) = us ! j)"
    using us(1) n len(1) by (auto simp: list_all_iff NAME_LEN_def) 
  ultimately show ?thesis using len(1) n [of len] unfolding match_def hit_def i NAME_LEN_def
    by (cases "len < 14") auto
qed

lemma entry_place:
  fixes i m off :: nat
  assumes "16 * i = 1024 * m + off" "off < 1024"
  shows "i div 64 = m" "16 * (i mod 64) = off" "off + 16 \<le> 1024"
proof -
  define q r where "q = i div 64" and "r = i mod 64"
  have "i = 64 * q + r" "r < 64" by (simp_all add: q_def r_def)
  then have qm: "q = m" using assms by linarith
  then have "16 * r = off" using \<open>i = 64 * q + r\<close> assms by linarith
  then show "i div 64 = m" "16 * (i mod 64) = off" "off + 16 \<le> 1024" using \<open>r < 64\<close> qm by (auto simp: q_def r_def)
qed

lemma div_mod_1024: "a = 1024 * m + (r::nat) \<Longrightarrow> r < 1024 \<Longrightarrow> a div 1024 = m \<and> a mod 1024 = r"
  by simp

text \<open>The entry at an offset of the block that a buffer holds.\<close>

lemma block_entry:
  assumes "16 * i = 1024 * m + off" "off + 16 \<le> 1024" "dir_zone D dv d s m \<noteq> 0" "j < 16"
  shows "entry_byte D dv d s i j = block_of D dv s (dir_zone D dv d s m) (off + j)"
proof -
  have "16 * i + j = 1024 * m + (off + j)" "off + j < 1024" using assms by simp_all
  note div_mod_1024 [OF this]
  then show ?thesis using assms(3) by (simp add: entry_byte_def file_byte_def dir_zone_def Let_def)
qed

section \<open>find_entry\<close>

text \<open>The effect of a lookup: the first hit of the list from entry \<open>i\<close> on, in a buffer the caller holds.\<close>

definition found_from :: "(bool \<Rightarrow> nat \<Rightarrow> nat \<Rightarrow> u8) \<Rightarrow> u16 \<Rightarrow> nat \<Rightarrow> u8 list \<Rightarrow> nat \<Rightarrow> 'z fs_st_scheme \<Rightarrow> dir_ptr option \<Rightarrow> 'z fs_st_scheme \<Rightarrow> bool" where
  "found_from D dv d us i s r t \<longleftrightarrow> kept UNIV s t \<and> (\<forall>m. \<forall>k < 1024. block_of D dv t m k = block_of D dv s m k) \<and>
     (case find (\<lambda>k. hit us (entry_byte D dv d s k)) [i..<dir_entries d s] of
        None \<Rightarrow> r = None \<and> bc_ready D dv t
      | Some k \<Rightarrow> \<exists>b. r = Some (b, 16 * (k mod 64)) \<and> bc_held D dv (dir_zone D dv d s (k div 64)) b t)"

lemma entry_block_ok:
  assumes r: "bc_ready D dv t" and k: "kept UNIV s t" and v: "\<forall>m. \<forall>k < 1024. block_of D dv t m k = block_of D dv s m k"
    and ok: "dir_ok D dv d s" and i: "16 * i < unat (i_size (inode_table s d))" and m: "m = i div 64"
  shows "\<exists>b u. entry_block d i t = Ok (Some b) u \<and> bc_held D dv (dir_zone D dv d s m) b u \<and> kept UNIV s u \<and>
    (\<forall>m. \<forall>k < 1024. block_of D dv u m k = block_of D dv s m k)"
proof -
  note kt = kept_tables [OF k]
  have sz: "1024 * m < unat (i_size (inode_table s d))" using i m by simp
  have mm: "m < 7 + 512 + 512 * 512" using sz ok by (simp add: dir_ok_def MAX_FILE_def)
  have z: "dir_zone D dv d s m \<noteq> 0" "block_there dv (dir_zone D dv d s m) s" using ok sz by (simp_all add: dir_ok_def)
  have e: "file_zone (\<lambda>z. block_there dv z t) (block_of D dv t) (inode_table t d) m = dir_zone D dv d s m"
    unfolding dir_zone_def kt(1) using v kt(4) by (intro file_zone_cong [OF mm]) auto
  obtain u where u: "bmap d (int m) t = Ok (uint (dir_zone D dv d s m)) u" "reads_only D dv t u"
    using bmap_ok [OF r _ mm, of d] ok kt(1) unfolding e by (auto simp: dir_ok_def)
  have ku: "kept UNIV s u" "bc_ready D dv u" "\<forall>m. \<forall>k < 1024. block_of D dv u m k = block_of D dv s m k"
    using u(2) v kept_trans [OF k] by (auto simp: reads_only_def)
  obtain b w where w: "bread (uint dv) (uint (dir_zone D dv d s m)) u = Ok (Some b) w" "bc_held D dv (dir_zone D dv d s m) b w"
    "kept UNIV u w" "\<forall>m. \<forall>k < 1024. block_of D dv w m k = block_of D dv u m k"
    using cache.fetch_there [OF ku(2)] z(2) kept_tables(4) [OF ku(1)] by blast
  have "int i div DIR_ENTRIES_PER_BLOCK = int m" by (simp add: DIR_ENTRIES_PER_BLOCK_def m zdiv_int)
  then have "entry_block d i t = Ok (Some b) w"
    using u(1) w(1) z(1) ok kept_tables(1) [OF ku(1)] by (simp add: entry_block_def unsigned_eq_0_iff dir_ok_def)
  then show ?thesis using w ku kept_trans [OF ku(1) w(3)] by (intro exI [of _ b] exI [of _ w]) simp
qed

lemma find_from_Cons: "i < n \<Longrightarrow> find P [i..<n] = (if P i then Some i else find P [Suc i..<n])"
  by (simp add: upt_conv_Cons)

lemma find_entry_loop_ok:
  assumes ok: "dir_ok D dv d s" and us: "us = asked name namelen s" "0 \<notin> set us" and len: "len = min namelen NAME_LEN"
  shows "bc_held D dv (dir_zone D dv d s m) b t \<Longrightarrow> kept UNIV s t \<Longrightarrow> \<forall>m. \<forall>k < 1024. block_of D dv t m k = block_of D dv s m k \<Longrightarrow>
    16 * i = 1024 * m + off \<Longrightarrow> off \<le> 1024 \<Longrightarrow> dir_zone D dv d s m \<noteq> 0 \<Longrightarrow>
    \<exists>r u. find_entry_loop d name len (dir_entries d s) (Some b) (b, off) i t = Some (Ok r u) \<and> found_from D dv d us i s r u"
proof (induction "dir_entries d s - i" arbitrary: i m b t off rule: less_induct)
  case less
  let ?n = "dir_entries d s" and ?Z = "dir_zone D dv d s"
  note held = less.prems(1) and kt = less.prems(2) and vt = less.prems(3) and off = less.prems(4,5) and z = less.prems(6)
  have ub: "length us = len" "len \<le> NAME_LEN" using us len by (simp_all add: asked_def)
  have uu: "\<forall>j < len. us ! j = get_fs_byte (name + of_nat j) u" if "kept UNIV s u" for u
    using us len kept_sel(5,7) [OF that] by (simp add: asked_def get_fs_byte_def)
  have mt: "match len name (c, w) u = hit us (entry_byte D dv d s k)"
    if "bc_held D dv (?Z q) c u" "kept UNIV s u" "\<forall>m. \<forall>k < 1024. block_of D dv u m k = block_of D dv s m k"
      "16 * k = 1024 * q + w" "w + 16 \<le> 1024" "?Z q \<noteq> 0" for c w u k q
  proof (rule match_hit [OF ub(2,1) uu us(2)])
    show "kept UNIV s u" by (rule that(2))
    show "data_get c (w + j) u = entry_byte D dv d s k j" if "j < 16" for j
      using \<open>w + 16 \<le> 1024\<close> that block_entry [OF \<open>16 * k = 1024 * q + w\<close> \<open>w + 16 \<le> 1024\<close> \<open>?Z q \<noteq> 0\<close> that]
        cache.contents_view [OF \<open>bc_held D dv (?Z q) c u\<close>] \<open>\<forall>m. \<forall>k < 1024. block_of D dv u m k = block_of D dv s m k\<close>
      by (simp add: data_get_def BLOCK_SIZE_def)
  qed
  consider "?n \<le> i" | "i < ?n" "off < 1024" | "i < ?n" "off = 1024" using off(2) by linarith
  then show ?case
  proof cases
    case 1
    obtain u where u: "brelse (Some b) t = Ok () u" "bc_ready D dv u" "kept UNIV t u" "block_of D dv u = block_of D dv t"
      using cache.release_ok [OF held] by blast
    then show ?thesis using 1 vt kept_trans [OF kt u(3)]
      by (subst find_entry_loop.simps) (intro exI [of _ None] exI [of _ u], simp add: found_from_def)
  next
    case 2
    note k = entry_place [OF off(1) 2(2)] and o16 = entry_place(3) [OF off(1) 2(2)]
    note m1 = mt [OF held kt vt off(1) o16 z]
    show ?thesis
    proof (cases "hit us (entry_byte D dv d s i)")
      case True
      then show ?thesis using 2 m1 held kt vt k
        by (subst find_entry_loop.simps)
          (intro exI [of _ "Some (b, off)"] exI [of _ t], simp add: found_from_def find_from_Cons de_past_def BLOCK_SIZE_def)
    next
      case False
      have "?n - Suc i < ?n - i" using 2 by simp
      then obtain r u where u: "find_entry_loop d name len ?n (Some b) (b, off + 16) (Suc i) t = Some (Ok r u)"
        "found_from D dv d us (Suc i) s r u"
        using less.hyps [of "Suc i" m b t "off + 16"] held kt vt off(1) o16 z by auto
      then show ?thesis using 2 m1 False
        by (subst find_entry_loop.simps) (intro exI [of _ r] exI [of _ u], simp add: found_from_def find_from_Cons de_past_def BLOCK_SIZE_def)
    qed
  next
    case 3
    have i1: "16 * i = 1024 * (m + 1) + 0" using off(1) 3(2) by simp
    note i = i1 entry_place(1,2) [OF i1]
    have sz: "16 * i < unat (i_size (inode_table s d))" using 3(1) by (simp add: dir_entries_def)
    obtain t1 where t1: "brelse (Some b) t = Ok () t1" "bc_ready D dv t1" "kept UNIV t t1" "block_of D dv t1 = block_of D dv t"
      using cache.release_ok [OF held] by blast
    obtain c u where u: "entry_block d i t1 = Ok (Some c) u" "bc_held D dv (?Z (m + 1)) c u" "kept UNIV s u"
      "\<forall>m. \<forall>k < 1024. block_of D dv u m k = block_of D dv s m k"
      using entry_block_ok [OF t1(2) kept_trans [OF kt t1(3)] _ ok sz] i(2) vt t1(4) by auto
    have zm: "?Z (m + 1) \<noteq> 0" using ok sz i(1) by (simp add: dir_ok_def)
    note m1 = mt [OF u(2,3,4) i(1) _ zm]
    have step: "find_entry_loop d name len ?n (Some b) (b, off) i t =
        (if match len name (c, 0) u then Some (Ok (Some (c, 0)) u) else find_entry_loop d name len ?n (Some c) (c, 16) (Suc i) u)"
      using 3 t1(1) u(1) by (subst find_entry_loop.simps) (simp add: de_past_def BLOCK_SIZE_def)
    show ?thesis
    proof (cases "hit us (entry_byte D dv d s i)")
      case True
      have "i mod 64 = 0" using i(3) by simp
      then show ?thesis using 3 m1 True u i(2)
        unfolding step by (intro exI [of _ "Some (c, 0)"] exI [of _ u]) (simp add: found_from_def find_from_Cons)
    next
      case False
      have "?n - Suc i < ?n - i" using 3 by simp
      then obtain r w where w: "find_entry_loop d name len ?n (Some c) (c, 16) (Suc i) u = Some (Ok r w)"
        "found_from D dv d us (Suc i) s r w"
        using less.hyps [of "Suc i" "m + 1" c u 16] u(2,3,4) i(1) zm by auto
      then show ?thesis using 3 m1 False
        unfolding step by (intro exI [of _ r] exI [of _ w]) (simp add: found_from_def find_from_Cons)
    qed
  qed
qed

text \<open>
  C24: on a directory without holes \<open>find_entry\<close> ends, reads through the cache only, and finds the first entry of the
  directory that is in use and has the name asked for (cut to 14 bytes): it returns the place of that entry in a
  buffer that holds its block, and NULL exactly when there is no such entry.
\<close>

theorem find_entry_ok:
  assumes "bc_ready D dv s" "dir_ok D dv d s" "0 < namelen" "0 \<notin> set (asked name namelen s)"
  shows "\<exists>r t. find_entry d name namelen s = Ok r t \<and> kept UNIV s t \<and> (\<forall>m. \<forall>k < 1024. block_of D dv t m k = block_of D dv s m k) \<and>
    (case find (\<lambda>k. fst (dir_list D dv d s ! k) \<noteq> 0 \<and> snd (dir_list D dv d s ! k) = asked name namelen s)
        [0..<length (dir_list D dv d s)] of
       None \<Rightarrow> r = None \<and> bc_ready D dv t
     | Some k \<Rightarrow> \<exists>b. r = Some (b, 16 * (k mod 64)) \<and> bc_held D dv (dir_zone D dv d s (k div 64)) b t \<and>
         de_inode (b, 16 * (k mod 64)) t = fst (dir_list D dv d s ! k))"
proof -
  let ?us = "asked name namelen s" and ?n = "dir_entries d s" and ?Z = "dir_zone D dv d s" and ?L = "dir_list D dv d s"
  have "0 < unat (i_size (inode_table s d))" using assms(2) by (simp add: dir_ok_def word_less_nat_alt)
  then have "?Z 0 \<noteq> 0 \<and> block_there dv (?Z 0) s" using assms(2) by (simp add: dir_ok_def)
  then have z0: "?Z 0 \<noteq> 0" "block_there dv (?Z 0) s" "?Z 0 = i_zone (inode_table s d) 0" "i_dev (inode_table s d) = dv"
    using assms(2) by (simp_all add: dir_ok_def dir_zone_def file_zone_def)
  obtain b t where t: "bread (uint dv) (uint (?Z 0)) s = Ok (Some b) t" "bc_held D dv (?Z 0) b t" "kept UNIV s t"
    "\<forall>m. \<forall>k < 1024. block_of D dv t m k = block_of D dv s m k" using cache.fetch_there [OF assms(1) z0(2)] by blast
  obtain r u where u: "find_entry_loop d name (min namelen NAME_LEN) ?n (Some b) (b, 0) 0 t = Some (Ok r u)"
    "found_from D dv d ?us 0 s r u"
    using find_entry_loop_ok [OF assms(2) refl assms(4) refl t(2,3,4), of 0 0] z0(1) by auto
  have len: "(min namelen NAME_LEN = 0) = False" using assms(3) by (simp add: NAME_LEN_def min_def)
  have res: "find_entry d name namelen s = Ok r u"
    using t(1) u(1) z0 by (simp add: find_entry_def Let_def dir_entries_def len)
  have same: "find (\<lambda>k. hit ?us (entry_byte D dv d s k)) [0..<?n] = find (\<lambda>k. fst (?L ! k) \<noteq> 0 \<and> snd (?L ! k) = ?us) [0..<length ?L]"
    by (intro find_cong) (auto simp: dir_list_def hit_def)
  have "de_inode (c, 16 * (k mod 64)) u = fst (?L ! k)"
    if k: "find (\<lambda>k. hit ?us (entry_byte D dv d s k)) [0..<?n] = Some k" and c: "bc_held D dv (?Z (k div 64)) c u" for k c
  proof -
    have kn: "k < ?n" using k by (simp add: find_Some_iff) auto
    define m off where "m = k div 64" and "off = 16 * (k mod 64)"
    have "k = 64 * m + k mod 64" by (simp add: m_def)
    then have ko: "16 * k = 1024 * m + off" unfolding off_def by linarith
    have off: "off + 16 \<le> 1024" using entry_place(3) [OF ko] by (simp add: off_def)
    have "1024 * m < unat (i_size (inode_table s d))" using kn ko by (simp add: dir_entries_def)
    then have z: "?Z m \<noteq> 0" using assms(2) by (simp add: dir_ok_def)
    have "data_get c (off + j) u = entry_byte D dv d s k j" if "j < 16" for j
      using block_entry [OF ko off z that] cache.contents_view [OF c] u(2) that off
      by (simp add: data_get_def BLOCK_SIZE_def found_from_def m_def)
    from this [of 0] this [of 1] show ?thesis using kn by (simp add: de_inode_def half_at_def dir_list_def off_def)
  qed
  then show ?thesis using res u(2) unfolding found_from_def same [symmetric] by (auto split: option.splits)
qed

section \<open>A directory of two entries\<close>

lemma fs_demo_block: "block_of demo_disk 0x301 fs_demo n k = demo_disk True (2 * unat n + 1 + k div 512) (k mod 512)"
proof -
  have e: "nr_buffers fs_demo = boot_buffers fs_base" "b < boot_buffers fs_base \<Longrightarrow> b_dev (bh fs_demo b) = 0" for b
    using buffer_init_bh(1,4) [of fs_base] by (simp_all add: fs_demo_def fs_base_sel hd_demo_sel new_head_def)
  then have "find (holds 0x301 n fs_demo) [0..<nr_buffers fs_demo] = None"
    unfolding find_None_all by (auto simp: holds_def)
  moreover have "hd_hist fs_demo = []" "start_sect fs_demo = (\<lambda>i. if i = 1 then 1 else 0)"
    by (simp_all add: fs_demo_def buffer_init_def Let_def printk_def) (simp_all add: fs_base_def hd_st.extend_def hd_demo_sel)
  ultimately show ?thesis
    by (simp add: block_of_def disk_now_def drive_of_def disk_bytes_def first_sector_def MINOR_def)
qed

definition dir_demo :: fs_st where
  "dir_demo = upd_inode 4 (\<lambda>x. x\<lparr>i_dev := 0x301, i_num := 1, i_count := 1, i_mode := 0x41ed, i_nlinks := 2,
     i_size := 32, i_zone := (\<lambda>_. 0)(0 := 7)\<rparr>) (fs_demo\<lparr>umem := \<lambda>_ a. ucast (a + 33)\<rparr>)"

lemma dir_demo_ok:
  "bc_ready demo_disk 0x301 dir_demo" "dir_ok demo_disk 0x301 4 dir_demo" "dir_zone demo_disk 0x301 4 dir_demo 0 = 7"
  "block_of demo_disk 0x301 dir_demo = block_of demo_disk 0x301 fs_demo"
proof -
  have s: "same_hd fs_demo (fs_demo\<lparr>umem := m\<rparr>)" for m by (simp add: same_hd_def cur_def)
  show "bc_ready demo_disk 0x301 dir_demo" using fs_demo_ready same_hd_cache(5) [OF s] by (simp add: dir_demo_def)
  show z: "dir_zone demo_disk 0x301 4 dir_demo 0 = 7" by (simp add: dir_zone_def file_zone_def dir_demo_def)
  have "block_there 0x301 7 dir_demo" by (simp add: dir_demo_def) (simp add: block_there_def MINOR_def fs_demo_tables)
  then show "dir_ok demo_disk 0x301 4 dir_demo" using z by (simp add: dir_ok_def MAX_FILE_def) (auto simp: dir_demo_def)
  show "block_of demo_disk 0x301 dir_demo = block_of demo_disk 0x301 fs_demo"
    using same_hd_cache(2) [OF s] by (simp add: dir_demo_def)
qed

lemma dir_demo_list:
  "dir_list demo_disk 0x301 4 dir_demo = [(0x100f, map word_of_nat [17..<31]), (0x201f, map word_of_nat [33..<47])]"
  "asked 0 14 dir_demo = map word_of_nat [33..<47]"
proof -
  have "entry_byte demo_disk 0x301 4 dir_demo k j = word_of_nat (15 + 16 * k + j)" if "k < 2" "j < 16" for k j
    using that block_entry [of k 0 "16 * k" demo_disk "0x301" 4 dir_demo j] dir_demo_ok(3,4)
    by (simp add: fs_demo_block demo_disk_def add.assoc)
  note e = this
  show "dir_list demo_disk 0x301 4 dir_demo = [(0x100f, map word_of_nat [17..<31]), (0x201f, map word_of_nat [33..<47])]"
    by (simp add: dir_list_def dir_entries_def entry_name_def half_at_def NAME_LEN_def upt_rec e dir_demo_def [THEN arg_cong, of "\<lambda>s. i_size (inode_table s 4)"])
  show "asked 0 14 dir_demo = map word_of_nat [33..<47]"
    by (simp add: asked_def NAME_LEN_def get_fs_byte_def dir_demo_def upt_rec)
qed

theorem find_entry_witness:
  "bc_ready demo_disk 0x301 dir_demo \<and> dir_ok demo_disk 0x301 4 dir_demo \<and>
   (\<exists>b t. find_entry 4 0 14 dir_demo = Ok (Some (b, 16)) t \<and> de_inode (b, 16) t = 0x201f)"
proof -
  have "0 \<notin> set (asked 0 14 dir_demo)" "find (\<lambda>k. fst (dir_list demo_disk 0x301 4 dir_demo ! k) \<noteq> 0 \<and>
      snd (dir_list demo_disk 0x301 4 dir_demo ! k) = asked 0 14 dir_demo) [0..<length (dir_list demo_disk 0x301 4 dir_demo)] = Some 1"
    unfolding dir_demo_list by (simp_all add: upt_rec)
  then show ?thesis using find_entry_ok [OF dir_demo_ok(1,2), of 14 0] dir_demo_ok(1,2) unfolding dir_demo_list by auto
qed

end
