(* ===== verification/Permission.thy ===== *)
theory Permission
  imports Namei_Sys
begin

text \<open>
  What \<open>permission\<close> of \<open>fs/namei.c\<close> decides.

  \<open>granted i k s\<close> is the rule of the access bits: bit \<open>k\<close> (0 to execute, 1 to write, 2 to read) of the class of the running
  task, owner, group or others, is set in the mode of the inode, or the task is privileged; and the file is not deleted.
\<close>

definition class_shift :: "nat \<Rightarrow> 'z fs_st_scheme \<Rightarrow> nat" where
  "class_shift i s =
     (let x = inode_table s i; t = cur s
      in if uid t = i_uid x \<or> euid t = i_uid x then 6 else if gid t = ucast (i_gid x) \<or> egid t = ucast (i_gid x) then 3 else 0)"

definition granted :: "nat \<Rightarrow> nat \<Rightarrow> 'z fs_st_scheme \<Rightarrow> bool" where
  "granted i k s \<longleftrightarrow> (i_dev (inode_table s i) = 0 \<or> i_nlinks (inode_table s i) \<noteq> 0) \<and>
     (uid (cur s) = 0 \<or> euid (cur s) = 0 \<or> bit (i_mode (inode_table s i)) (class_shift i s + k))"

lemma int_nonzero_bit: "(x :: int) \<noteq> 0 \<longleftrightarrow> (\<exists>n. bit x n)"
  by (auto simp: bit_eq_iff)

lemma bit_seven: "bit (7 :: int) n \<longleftrightarrow> n < 3"
proof -
  have "(7 :: int) = mask 3" by (simp add: mask_eq_exp_minus_1)
  then show ?thesis by (simp only: bit_mask_iff) simp
qed

lemma bit_rwx: "n < 3 \<Longrightarrow> bit (0x1ff :: int) n"
proof -
  have "(0x1ff :: int) = mask 9" by (simp add: mask_eq_exp_minus_1)
  then show "n < 3 \<Longrightarrow> bit (0x1ff :: int) n" by (simp only: bit_mask_iff) simp
qed

lemma bit_mode: "bit (uint (w :: u16)) n = bit w n"
  using bit_imp_le_length [of w n] by (auto simp: bit_uint_iff)

lemma permission_bit:
  "bit (permission i msk s) n \<longleftrightarrow> n < 3 \<and> bit msk n \<and> granted i n s"
  by (auto simp: permission_def granted_def class_shift_def Let_def bit_simps bit_seven bit_rwx bit_mode)

lemma permission_all:
  "0 \<le> msk \<Longrightarrow> msk < 8 \<Longrightarrow> permission i msk s = msk \<longleftrightarrow> (\<forall>k. bit msk k \<longrightarrow> granted i k s)"
proof -
  assume m: "0 \<le> msk" "msk < 8"
  then have "msk = msk AND 7" using take_bit_int_eq_self [of msk 3] by (simp add: take_bit_eq_mask mask_eq_exp_minus_1)
  then have "bit msk n \<Longrightarrow> n < 3" for n by (metis bit_and_iff bit_seven)
  then show ?thesis unfolding bit_eq_iff permission_bit by auto
qed

lemma bit_rw: "bit (4 :: int) n \<longleftrightarrow> n = 2" "bit (2 :: int) n \<longleftrightarrow> n = 1" "bit (6 :: int) n \<longleftrightarrow> n = 1 \<or> n = 2"
proof -
  have e: "bit (2 ^ k :: int) n \<longleftrightarrow> n = k" for k n by (auto simp: bit_exp_iff)
  show f: "bit (4 :: int) n \<longleftrightarrow> n = 2" "bit (2 :: int) n \<longleftrightarrow> n = 1" using e [of 2 n] e [of 1 n] by simp_all
  have "(6 :: int) = 4 OR 2" by simp
  then show "bit (6 :: int) n \<longleftrightarrow> n = 1 \<or> n = 2" using f by (metis bit_or_iff)
qed

text \<open>
  The result of \<open>permission\<close> has exactly the bits of the accesses that are asked for and granted, and so the test of
  \<open>open_namei\<close>, that the result is the whole access mode, lets a file be opened for reading, for writing, or for both
  exactly when reading, writing, or both are granted, and never with the access mode 3.
\<close>

theorem permission_granted:
  "(bit (permission i msk s) n \<longleftrightarrow> n < 3 \<and> bit msk n \<and> granted i n s) \<and>
   (permission i (ACC_MODE 0) s = ACC_MODE 0 \<longleftrightarrow> granted i 2 s) \<and>
   (permission i (ACC_MODE 1) s = ACC_MODE 1 \<longleftrightarrow> granted i 1 s) \<and>
   (permission i (ACC_MODE 2) s = ACC_MODE 2 \<longleftrightarrow> granted i 1 s \<and> granted i 2 s) \<and>
   permission i (ACC_MODE 3) s \<noteq> ACC_MODE 3"
proof -
  have a: "ACC_MODE 0 = 4" "ACC_MODE 1 = 2" "ACC_MODE 2 = 6" "ACC_MODE 3 = -1" by (simp_all add: ACC_MODE_def O_ACCMODE_def)
  have "\<not> bit (permission i (-1) s) 3" by (simp add: permission_bit)
  then have "permission i (-1) s \<noteq> -1" by (metis bit_minus_1_iff possible_bit_int)
  then show ?thesis unfolding a using permission_bit [of i msk s n] permission_all [of 4 i s] permission_all [of 2 i s]
      permission_all [of 6 i s] by (auto simp: bit_rw)
qed

end
