(* ===== verification/Exec_Props.thy ===== *)
theory Exec_Props
  imports Exec
begin

text \<open>
  The stack of a new program: \<open>create_tables\<close> of \<open>fs/exec.c\<close> leaves the count, the table of argument pointers and the table
  of environment pointers below the strings.
\<close>

section \<open>Words of four bytes in user space\<close>

lemma byte_bit: "bit x n \<Longrightarrow> n < 8" for x :: u8
  using bit_imp_le_length [of x n] by simp

lemma get_long_bytes:
  "get_fs_long a s = ucast (get_fs_byte a s) OR push_bit 8 (ucast (get_fs_byte (a + 1) s)) OR
     push_bit 16 (ucast (get_fs_byte (a + 2) s)) OR push_bit 24 (ucast (get_fs_byte (a + 3) s))"
proof -
  have "ucast (ucast x OR push_bit 8 (ucast y) :: u16) OR push_bit 16 (ucast (ucast z OR push_bit 8 (ucast w) :: u16)) =
      (ucast x OR push_bit 8 (ucast y) OR push_bit 16 (ucast z) OR push_bit 24 (ucast w) :: u32)" for x y z w :: u8
  proof (rule bit_word_eqI)
    fix n assume "n < LENGTH(32)"
    then show "bit (ucast (ucast x OR push_bit 8 (ucast y) :: u16) OR push_bit 16 (ucast (ucast z OR push_bit 8 (ucast w) :: u16)) :: u32) n =
        bit (ucast x OR push_bit 8 (ucast y) OR push_bit 16 (ucast z) OR push_bit 24 (ucast w) :: u32) n"
      by (auto simp: bit_simps dest: byte_bit)
  qed
  note bits = this
  have e: "a + 2 + 1 = a + 3" by simp
  show ?thesis unfolding get_fs_long_def get_fs_word_def e by (rule bits)
qed

lemma fs_long_byte:
  "get_fs_byte b (put_fs_long v a s) =
     (if b = a + 3 then ucast (drop_bit 24 v) else if b = a + 2 then ucast (drop_bit 16 v)
      else if b = a + 1 then ucast (drop_bit 8 v) else if b = a then ucast v else get_fs_byte b s)"
proof -
  have "a + 2 + 1 = a + 3" by simp
  moreover have "(ucast (drop_bit 8 (ucast (drop_bit 16 v) :: u16)) :: u8) = ucast (drop_bit 24 v)"
    "(ucast (ucast (drop_bit 16 v) :: u16) :: u8) = ucast (drop_bit 16 v)"
    "(ucast (drop_bit 8 (ucast v :: u16)) :: u8) = ucast (drop_bit 8 v)" "(ucast (ucast v :: u16) :: u8) = ucast v"
    by (intro bit_word_eqI; auto simp: bit_simps)+
  ultimately show ?thesis by (simp add: put_fs_long_def put_fs_word_def get_put_fs_byte)
qed

lemma get_put_long: "get_fs_long a (put_fs_long v a s) = v"
proof -
  have "a + 1 \<noteq> a" "a + 2 \<noteq> a" "a + 3 \<noteq> a" "a + 1 \<noteq> a + 2" "a + 1 \<noteq> a + 3" "a + 2 \<noteq> a + 3" by simp_all
  then have "get_fs_long a (put_fs_long v a s) = ucast (ucast v :: u8) OR push_bit 8 (ucast (ucast (drop_bit 8 v) :: u8)) OR
      push_bit 16 (ucast (ucast (drop_bit 16 v) :: u8)) OR push_bit 24 (ucast (ucast (drop_bit 24 v) :: u8))"
    unfolding get_long_bytes fs_long_byte by simp
  also have "\<dots> = v"
  proof (rule bit_word_eqI)
    fix n assume "n < LENGTH(32)"
    then show "bit (ucast (ucast v :: u8) OR push_bit 8 (ucast (ucast (drop_bit 8 v) :: u8)) OR
      push_bit 16 (ucast (ucast (drop_bit 16 v) :: u8)) OR push_bit 24 (ucast (ucast (drop_bit 24 v) :: u8)) :: u32) n = bit v n"
      by (cases "n < 8"; cases "n < 16"; cases "n < 24") (auto simp: bit_simps)
  qed
  finally show ?thesis .
qed

lemma unat_add_fit: "unat (a :: u32) + k < 2 ^ 32 \<Longrightarrow> unat (a + of_nat k) = unat a + k"
  by (simp add: unat_word_ariths unat_of_nat)

text \<open>Bytes outside \<open>n\<close> words from \<open>a\<close> on.\<close>

definition outside :: "u32 \<Rightarrow> nat \<Rightarrow> u32 \<Rightarrow> bool" where
  "outside a n b \<longleftrightarrow> unat b < unat a \<or> unat a + 4 * n \<le> unat b"

lemma put_long_outside: "unat a + 4 < 2 ^ 32 \<Longrightarrow> outside a 1 b \<Longrightarrow> get_fs_byte b (put_fs_long v a s) = get_fs_byte b s"
  using unat_add_fit [of a 1] unat_add_fit [of a 2] unat_add_fit [of a 3] by (auto simp: fs_long_byte outside_def)

lemma get_long_same:
  assumes "unat a + 4 < 2 ^ 32" "\<And>b. unat a \<le> unat b \<Longrightarrow> unat b < unat a + 4 \<Longrightarrow> get_fs_byte b t = get_fs_byte b s"
  shows "get_fs_long a t = get_fs_long a s"
  unfolding get_long_bytes
  using assms(2) [of a] assms(2) [of "a + 1"] assms(2) [of "a + 2"] assms(2) [of "a + 3"]
    unat_add_fit [of a 1] unat_add_fit [of a 2] unat_add_fit [of a 3] assms(1) by simp

section \<open>Strings in user space\<close>

text \<open>The strings \<open>ws\<close> with their zero bytes from \<open>a\<close> on, and their addresses.\<close>

fun strs_at :: "u32 \<Rightarrow> u8 list list \<Rightarrow> 'z um_st_scheme \<Rightarrow> bool" where
  "strs_at a [] s = True"
| "strs_at a (w # ws) s =
     ((\<forall>j < length w. get_fs_byte (a + of_nat j) s = w ! j) \<and> 0 \<notin> set w \<and> get_fs_byte (a + of_nat (length w)) s = 0 \<and>
      strs_at (a + of_nat (length w + 1)) ws s)"

fun str_addrs :: "u32 \<Rightarrow> u8 list list \<Rightarrow> u32 list" where
  "str_addrs a [] = []"
| "str_addrs a (w # ws) = a # str_addrs (a + of_nat (length w + 1)) ws"

definition strs_size :: "u8 list list \<Rightarrow> nat" where
  "strs_size ws = sum_list (map (\<lambda>w. length w + 1) ws)"

lemma strs_size_simps [simp]: "strs_size [] = 0" "strs_size (w # ws) = length w + 1 + strs_size ws"
  "strs_size (vs @ ws) = strs_size vs + strs_size ws"
  by (simp_all add: strs_size_def)

lemma strs_at_append: "strs_at a (vs @ ws) s \<longleftrightarrow> strs_at a vs s \<and> strs_at (a + of_nat (strs_size vs)) ws s"
  by (induction vs arbitrary: a) (auto simp: algebra_simps)

lemma strs_at_cong:
  assumes "unat a + strs_size ws < 2 ^ 32" "\<And>b. unat a \<le> unat b \<Longrightarrow> get_fs_byte b t = get_fs_byte b s"
  shows "strs_at a ws t = strs_at a ws s"
  using assms
proof (induction ws arbitrary: a)
  case (Cons w ws)
  have u: "j \<le> length w + 1 \<Longrightarrow> unat (a + of_nat j) = unat a + j" for j using Cons.prems(1) by (intro unat_add_fit) simp
  have b: "get_fs_byte (a + of_nat j) t = get_fs_byte (a + of_nat j) s" if "j \<le> length w" for j using u [of j] that by (intro Cons.prems(2)) simp
  have "strs_at (a + of_nat (length w + 1)) ws t = strs_at (a + of_nat (length w + 1)) ws s"
    using u [of "length w + 1"] Cons.prems by (intro Cons.IH) auto
  then show ?case using b by (simp del: of_nat_add of_nat_Suc)
qed simp

lemma str_end_at:
  "\<forall>j < length w. get_fs_byte (a + of_nat j) s = w ! j \<Longrightarrow> 0 \<notin> set w \<Longrightarrow> get_fs_byte (a + of_nat (length w)) s = 0 \<Longrightarrow>
   str_end a s = Some (a + of_nat (length w + 1))"
proof (induction w arbitrary: a)
  case Nil
  then show ?case by (subst str_end.simps) simp
next
  case (Cons c w)
  have "get_fs_byte a s \<noteq> 0" using Cons.prems(1,2) by force
  then have e: "str_end a s = str_end (a + 1) s" by (subst str_end.simps) simp
  have "get_fs_byte (a + 1 + of_nat j) s = w ! j" if "j < length w" for j
    using spec [OF Cons.prems(1), of "Suc j"] that by (simp add: add.assoc)
  then have "str_end (a + 1) s = Some (a + 1 + of_nat (length w + 1))" using Cons.prems(2,3) by (intro Cons.IH) (auto simp: add.assoc)
  then show ?case using e by (simp add: add.assoc)
qed

section \<open>Pointer tables\<close>

lemma outside_mono: "outside a n b \<Longrightarrow> m \<le> n \<Longrightarrow> outside a m b"
  by (auto simp: outside_def)

lemma put_ptrs_ok:
  "strs_at p ws s \<Longrightarrow> unat p + strs_size ws < 2 ^ 32 \<Longrightarrow> unat tab + 4 * length ws \<le> unat p \<Longrightarrow>
   \<exists>t. put_ptrs (length ws) p tab s = Some (p + of_nat (strs_size ws), tab + of_nat (4 * length ws), t) \<and>
     (\<forall>j < length ws. get_fs_long (tab + of_nat (4 * j)) t = str_addrs p ws ! j) \<and>
     (\<forall>b. outside tab (length ws) b \<longrightarrow> get_fs_byte b t = get_fs_byte b s)"
proof (induction ws arbitrary: p tab s)
  case (Cons w ws)
  let ?s = "put_fs_long p tab s" and ?q = "p + of_nat (length w + 1)"
  have sz: "unat p + (length w + 1) + strs_size ws < 2 ^ 32" using Cons.prems(2) by simp
  have uq: "unat ?q = unat p + (length w + 1)" using sz by (intro unat_add_fit) simp
  have ut: "unat (tab + of_nat 4) = unat tab + 4" using Cons.prems(3) sz by (intro unat_add_fit) simp
  have tab4: "unat tab + 4 < 2 ^ 32" using Cons.prems(3) sz by simp
  have above: "get_fs_byte b ?s = get_fs_byte b s" if "unat p \<le> unat b" for b
    using that Cons.prems(3) by (intro put_long_outside [OF tab4]) (simp add: outside_def)
  have strs: "strs_at p (w # ws) ?s" using Cons.prems(1,2) strs_at_cong [of p "w # ws" ?s s] above by blast
  then have e: "str_end p ?s = Some ?q" by (intro str_end_at) auto
  have q: "strs_at ?q ws ?s" "unat ?q + strs_size ws < 2 ^ 32" "unat (tab + of_nat 4) + 4 * length ws \<le> unat ?q"
    using strs sz Cons.prems(3) unfolding uq ut by auto
  from Cons.IH [OF q] obtain t where
    t: "put_ptrs (length ws) ?q (tab + of_nat 4) ?s = Some (?q + of_nat (strs_size ws), tab + of_nat 4 + of_nat (4 * length ws), t)"
      "\<forall>j < length ws. get_fs_long (tab + of_nat 4 + of_nat (4 * j)) t = str_addrs ?q ws ! j"
      "\<forall>b. outside (tab + of_nat 4) (length ws) b \<longrightarrow> get_fs_byte b t = get_fs_byte b ?s" by blast
  have "get_fs_long tab t = get_fs_long tab ?s"
  proof (rule get_long_same [OF tab4])
    fix b :: u32 assume "unat tab \<le> unat b" "unat b < unat tab + 4"
    then have "outside (tab + of_nat 4) (length ws) b" unfolding outside_def ut by simp
    then show "get_fs_byte b t = get_fs_byte b ?s" using t(3) by blast
  qed
  then have first: "get_fs_long tab t = p" by (simp add: get_put_long)
  have rest: "get_fs_long (tab + of_nat (4 * j)) t = str_addrs p (w # ws) ! j" if "j < Suc (length ws)" for j
  proof (cases j)
    case (Suc k)
    then show ?thesis using t(2) that by (simp add: add.assoc)
  qed (use first in simp)
  have out: "get_fs_byte b t = get_fs_byte b s" if "outside tab (Suc (length ws)) b" for b
  proof -
    have "outside (tab + of_nat 4) (length ws) b" using that unfolding outside_def ut by auto
    moreover have "outside tab 1 b" by (rule outside_mono [OF that]) simp
    ultimately show ?thesis using t(3) put_long_outside [OF tab4] by metis
  qed
  have "put_ptrs (length (w # ws)) p tab s =
      Some (p + of_nat (strs_size (w # ws)), tab + of_nat (4 * length (w # ws)), t)"
    using e t(1) by (simp add: Let_def algebra_simps)
  then show ?case using rest out by (intro exI [of _ t]) simp
qed simp

lemma str_addrs_append: "str_addrs a (vs @ ws) = str_addrs a vs @ str_addrs (a + of_nat (strs_size vs)) ws"
  by (induction vs arbitrary: a) (simp_all add: algebra_simps)

lemma length_str_addrs [simp]: "length (str_addrs a ws) = length ws"
  by (induction ws arbitrary: a) simp_all

lemma long_outside:
  assumes "unat w + 4 < 2 ^ 32" "unat w + 4 \<le> unat a \<or> unat a + 4 * n \<le> unat w"
    and "\<And>b. outside a n b \<Longrightarrow> get_fs_byte b t = get_fs_byte b s"
  shows "get_fs_long w t = get_fs_long w s"
  using assms(2) by (intro get_long_same [OF assms(1)] assms(3)) (auto simp: outside_def)

lemma long_below:
  assumes "unat w + 4 \<le> unat a" "\<And>b. outside a n b \<Longrightarrow> get_fs_byte b t = get_fs_byte b s"
  shows "get_fs_long w t = get_fs_long w s"
proof (rule long_outside [OF _ _ assms(2)])
  show "unat w + 4 < 2 ^ 32" using assms(1) word32_less [of a] by simp
qed (use assms(1) in auto)

lemma align_down: "unat (0xfffffffc AND p :: u32) = unat p div 4 * 4"
proof -
  have "0xfffffffc AND p = push_bit 2 (drop_bit 2 p)"
  proof (rule bit_word_eqI)
    fix n assume n: "n < LENGTH(32)"
    have m: "(0xfffffffc :: u32) = NOT (mask 2)" by (simp add: mask_eq_exp_minus_1)
    show "bit (0xfffffffc AND p) n = bit (push_bit 2 (drop_bit 2 p)) n" unfolding m
      using n le_add_diff_inverse [of 2 n] by (cases "n < 2") (auto simp: bit_simps)
  qed
  moreover have "push_bit 2 (drop_bit 2 p) = drop_bit 2 p * 4" by (simp add: push_bit_eq_mult)
  moreover have "unat (drop_bit 2 p * 4) = unat p div 4 * 4 mod 2 ^ 32" by (simp add: unat_word_ariths unat_drop_bit)
  ultimately show ?thesis using word32_less [of p] by (simp add: less_mult_imp_div_less)
qed

lemma unat_below: "4 * n \<le> unat b \<Longrightarrow> unat ((b :: u32) - 4 * of_nat n) = unat b - 4 * n"
proof -
  assume a: "4 * n \<le> unat b"
  have u: "unat (4 * of_nat n :: u32) = 4 * n"
    using a word32_less [of b] unat_of_nat [where 'a = 32, of "4 * n"] by simp
  then have "4 * of_nat n \<le> b" using a by (simp add: word_le_nat_alt)
  then show ?thesis using u by (simp add: unat_sub)
qed

text \<open>The tables in memory: the count, the pointers to \<open>vs\<close> and a zero, the pointers to \<open>ws\<close> and a zero.\<close>

definition arg_tables :: "u32 \<Rightarrow> u32 \<Rightarrow> u8 list list \<Rightarrow> u8 list list \<Rightarrow> 'z um_st_scheme \<Rightarrow> bool" where
  "arg_tables sp p vs ws t \<longleftrightarrow>
     (let w = (\<lambda>k. get_fs_long (sp + of_nat (4 * k)) t); n = length vs
      in w 0 = of_nat n \<and> (\<forall>j < n. w (1 + j) = str_addrs p vs ! j) \<and> w (1 + n) = 0 \<and>
         (\<forall>j < length ws. w (2 + n + j) = str_addrs (p + of_nat (strs_size vs)) ws ! j) \<and> w (2 + n + length ws) = 0)"

lemma tables_written:
  assumes strs: "strs_at p (vs @ ws) s" and top: "unat p + strs_size (vs @ ws) < 2 ^ 32"
    and sp: "unat sp + 4 * (length vs + length ws + 3) \<le> unat p"
    and a: "argv = sp + of_nat 4" "envp = argv + of_nat (4 * (length vs + 1))"
  shows "\<exists>t1 t2. put_ptrs (length vs) p argv (put_fs_long (of_nat (length vs)) sp s) = Some (p + of_nat (strs_size vs), argv + of_nat (4 * length vs), t1) \<and>
    put_ptrs (length ws) (p + of_nat (strs_size vs)) envp (put_fs_long 0 (argv + of_nat (4 * length vs)) t1) =
      Some (p + of_nat (strs_size (vs @ ws)), envp + of_nat (4 * length ws), t2) \<and>
    arg_tables sp p vs ws (put_fs_long 0 (envp + of_nat (4 * length ws)) t2) \<and>
    (\<forall>b. unat p \<le> unat b \<longrightarrow> get_fs_byte b (put_fs_long 0 (envp + of_nat (4 * length ws)) t2) = get_fs_byte b s)"
proof -
  let ?n = "length vs" and ?m = "length ws" and ?q = "p + of_nat (strs_size vs)"
  let ?s = "put_fs_long (of_nat ?n) sp s" and ?e = "argv + of_nat (4 * ?n)" and ?z = "envp + of_nat (4 * ?m)"
  have lim: "unat p < 2 ^ 32" using word32_less by simp
  have uw: "unat (sp + of_nat (4 * k)) = unat sp + 4 * k" if "k \<le> ?n + ?m + 3" for k
    using that sp lim by (intro unat_add_fit) simp
  have ad: "argv = sp + of_nat (4 * 1)" "?e = sp + of_nat (4 * (1 + ?n))" "envp = sp + of_nat (4 * (2 + ?n))" "?z = sp + of_nat (4 * (2 + ?n + ?m))"
    by (simp_all add: a algebra_simps)
  have ua: "unat argv = unat sp + 4" "unat ?e = unat sp + 4 * (1 + ?n)" "unat envp = unat sp + 4 * (2 + ?n)"
    "unat ?z = unat sp + 4 * (2 + ?n + ?m)"
  proof -
    show "unat argv = unat sp + 4" using uw [of 1] unfolding ad(1) by simp
    show "unat ?e = unat sp + 4 * (1 + ?n)" unfolding ad(2) by (rule uw) simp
    show "unat envp = unat sp + 4 * (2 + ?n)" unfolding ad(3) by (rule uw) simp
    show "unat ?z = unat sp + 4 * (2 + ?n + ?m)" unfolding ad(4) by (rule uw) simp
  qed
  have uq: "unat ?q = unat p + strs_size vs" using top by (intro unat_add_fit) simp
  have one: "unat x + 4 < 2 ^ 32" if "unat x + 4 \<le> unat p" for x :: u32 using that lim by simp
  have b1: "outside sp 1 b \<Longrightarrow> get_fs_byte b ?s = get_fs_byte b s" for b
    using sp by (intro put_long_outside one) simp_all
  have hi: "unat p \<le> unat b \<Longrightarrow> unat x + 4 * k \<le> unat p \<Longrightarrow> outside x k b" for b x k by (simp add: outside_def)
  have s1: "strs_at p (vs @ ws) ?s" using strs strs_at_cong [OF top, of ?s s] b1 hi sp by simp
  then have v1: "strs_at p vs ?s" "strs_at ?q ws ?s" by (simp_all add: strs_at_append)
  have "unat p + strs_size vs < 2 ^ 32" "unat argv + 4 * ?n \<le> unat p" using top sp ua by simp_all
  from put_ptrs_ok [OF v1(1) this] obtain t1 where
    t1: "put_ptrs ?n p argv ?s = Some (?q, ?e, t1)" "\<And>j. j < ?n \<Longrightarrow> get_fs_long (argv + of_nat (4 * j)) t1 = str_addrs p vs ! j"
      "\<And>b. outside argv ?n b \<Longrightarrow> get_fs_byte b t1 = get_fs_byte b ?s" by blast
  let ?u = "put_fs_long 0 ?e t1"
  have b2: "outside ?e 1 b \<Longrightarrow> get_fs_byte b ?u = get_fs_byte b t1" for b
    using sp ua by (intro put_long_outside one) simp_all
  have "get_fs_byte b ?u = get_fs_byte b ?s" if "unat ?q \<le> unat b" for b
    using b2 [OF hi] t1(3) [OF hi] that uq ua sp by simp
  then have v2: "strs_at ?q ws ?u" using v1(2) strs_at_cong [of ?q ws ?u ?s] top uq by simp
  have "unat ?q + strs_size ws < 2 ^ 32" "unat envp + 4 * ?m \<le> unat ?q" using top sp ua uq by simp_all
  from put_ptrs_ok [OF v2 this] obtain t2 where
    t2: "put_ptrs ?m ?q envp ?u = Some (?q + of_nat (strs_size ws), ?z, t2)" "\<And>j. j < ?m \<Longrightarrow> get_fs_long (envp + of_nat (4 * j)) t2 = str_addrs ?q ws ! j"
      "\<And>b. outside envp ?m b \<Longrightarrow> get_fs_byte b t2 = get_fs_byte b ?u" by blast
  let ?t = "put_fs_long 0 ?z t2"
  have b3: "outside ?z 1 b \<Longrightarrow> get_fs_byte b ?t = get_fs_byte b t2" for b
    using sp ua by (intro put_long_outside one) simp_all
  have z: "unat x + 4 \<le> unat ?z \<Longrightarrow> get_fs_long x ?t = get_fs_long x t2" for x by (erule long_below) (rule b3)
  have e: "unat x + 4 \<le> unat envp \<Longrightarrow> get_fs_long x t2 = get_fs_long x ?u" for x by (erule long_below) (rule t2(3))
  have f: "unat x + 4 \<le> unat ?e \<Longrightarrow> get_fs_long x ?u = get_fs_long x t1" for x by (erule long_below) (rule b2)
  have low: "get_fs_long (sp + of_nat (4 * k)) ?t = get_fs_long (sp + of_nat (4 * k)) ?u" if k: "k \<le> 1 + ?n" for k
  proof -
    have w: "unat (sp + of_nat (4 * k)) = unat sp + 4 * k" using k by (intro uw) simp
    have "unat (sp + of_nat (4 * k)) + 4 \<le> unat envp" "unat (sp + of_nat (4 * k)) + 4 \<le> unat ?z"
      unfolding w ua(3,4) using k by simp_all
    then show ?thesis using z e by metis
  qed
  have first: "get_fs_long (sp + of_nat (4 * k)) ?t = get_fs_long (sp + of_nat (4 * k)) t1" if k: "k \<le> ?n" for k
  proof -
    have w: "unat (sp + of_nat (4 * k)) = unat sp + 4 * k" using k by (intro uw) simp
    have "unat (sp + of_nat (4 * k)) + 4 \<le> unat ?e" unfolding w ua(2) using k by simp
    then show ?thesis using low [of k] f k by simp
  qed
  have "get_fs_long sp t1 = get_fs_long sp ?s"
    by (rule long_below [of _ argv]) (use ua(1) t1(3) in auto)
  then have w0: "get_fs_long (sp + of_nat (4 * 0)) ?t = of_nat ?n" using first [of 0] get_put_long [of sp "of_nat ?n" s] by simp
  have w1: "get_fs_long (sp + of_nat (4 * (1 + j))) ?t = str_addrs p vs ! j" if "j < ?n" for j
  proof -
    have "sp + of_nat (4 * (1 + j)) = argv + of_nat (4 * j)" by (simp add: a(1) algebra_simps)
    moreover have "1 + j \<le> ?n" using that by simp
    ultimately show ?thesis using first t1(2) [OF that] by metis
  qed
  have w2: "get_fs_long (sp + of_nat (4 * (1 + ?n))) ?t = 0" using low [of "1 + ?n"] get_put_long [of ?e 0 t1] unfolding ad(2) by simp
  have w3: "get_fs_long (sp + of_nat (4 * (2 + ?n + j))) ?t = str_addrs ?q ws ! j" if j: "j < ?m" for j
  proof -
    have w: "unat (sp + of_nat (4 * (2 + ?n + j))) = unat sp + 4 * (2 + ?n + j)" using j by (intro uw) simp
    have "sp + of_nat (4 * (2 + ?n + j)) = envp + of_nat (4 * j)" by (simp add: a algebra_simps)
    moreover have "get_fs_long (sp + of_nat (4 * (2 + ?n + j))) ?t = get_fs_long (sp + of_nat (4 * (2 + ?n + j))) t2"
      by (rule z) (unfold w ua(4), use j in simp)
    ultimately show ?thesis using t2(2) [OF j] by metis
  qed
  have w4: "get_fs_long (sp + of_nat (4 * (2 + ?n + ?m))) ?t = 0" using get_put_long [of ?z 0 t2] unfolding ad(4) by simp
  have "arg_tables sp p vs ws ?t" unfolding arg_tables_def Let_def using w0 w1 w2 w3 w4 by blast
  moreover have "get_fs_byte b ?t = get_fs_byte b s" if "unat p \<le> unat b" for b
    using b3 [OF hi [OF that]] t2(3) [OF hi [OF that]] b2 [OF hi [OF that]] t1(3) [OF hi [OF that]] b1 [OF hi [OF that]] sp ua by simp
  moreover have "?q + of_nat (strs_size ws) = p + of_nat (strs_size (vs @ ws))" by (simp add: algebra_simps)
  ultimately show ?thesis using t1(1) t2(1) by auto
qed

text \<open>
  C35: from the strings that \<open>copy_strings\<close> has left at \<open>p\<close>, \<open>create_tables\<close> builds the stack of a new program and ends:
  at the stack pointer it returns, which is aligned and below the strings, there are the number of arguments, the
  addresses of the argument strings in order and a zero, and the addresses of the environment strings in order and a
  zero; the strings are unchanged.
\<close>

theorem create_tables_ok:
  assumes strs: "strs_at p (vs @ ws) s" and top: "unat p + strs_size (vs @ ws) < 2 ^ 32"
    and room: "4 * (length vs + length ws + 4) \<le> unat p"
  shows "\<exists>sp t. create_tables p (length vs) (length ws) s = Ok sp t \<and> arg_tables sp p vs ws t \<and> strs_at p (vs @ ws) t \<and>
    unat sp mod 4 = 0 \<and> unat sp + 4 * (length vs + length ws + 3) \<le> unat p"
proof -
  let ?n = "length vs" and ?m = "length ws" and ?b = "0xfffffffc AND p"
  let ?envp = "?b - 4 * (of_nat ?m + 1)"
  let ?argv = "?envp - 4 * (of_nat ?n + 1)"
  let ?sp = "?argv - 4"
  have b: "unat ?b = unat p div 4 * 4" by (rule align_down)
  then have le: "unat ?b \<le> unat p" "unat p < unat ?b + 4" by simp_all
  have e: "?sp = ?b - 4 * of_nat (?n + ?m + 3)" by (simp add: algebra_simps)
  have u: "unat ?sp = unat ?b - 4 * (?n + ?m + 3)" unfolding e using le room by (intro unat_below) simp
  have sp: "unat ?sp + 4 * (?n + ?m + 3) \<le> unat p" using u le room by simp
  have al: "unat ?sp mod 4 = 0"
  proof -
    have "unat ?sp = 4 * (unat p div 4 - (?n + ?m + 3))" unfolding u b by (simp add: diff_mult_distrib2)
    then show ?thesis by simp
  qed
  have a: "?argv = ?sp + of_nat 4" "?envp = ?argv + of_nat (4 * (?n + 1))" by (simp_all add: algebra_simps)
  from tables_written [OF strs top sp a] obtain t1 t2 where t:
    "put_ptrs ?n p ?argv (put_fs_long (of_nat ?n) ?sp s) = Some (p + of_nat (strs_size vs), ?argv + of_nat (4 * ?n), t1)"
    "put_ptrs ?m (p + of_nat (strs_size vs)) ?envp (put_fs_long 0 (?argv + of_nat (4 * ?n)) t1) =
      Some (p + of_nat (strs_size (vs @ ws)), ?envp + of_nat (4 * ?m), t2)"
    "arg_tables ?sp p vs ws (put_fs_long 0 (?envp + of_nat (4 * ?m)) t2)"
    "\<And>b. unat p \<le> unat b \<Longrightarrow> get_fs_byte b (put_fs_long 0 (?envp + of_nat (4 * ?m)) t2) = get_fs_byte b s" by blast
  have "create_tables p ?n ?m s = Ok ?sp (put_fs_long 0 (?envp + of_nat (4 * ?m)) t2)"
    unfolding create_tables_def Let_def t(1) option.case prod.case t(2) ..
  moreover have "strs_at p (vs @ ws) (put_fs_long 0 (?envp + of_nat (4 * ?m)) t2)"
    using strs strs_at_cong [OF top t(4)] by blast
  ultimately show ?thesis using t(3) al sp by (intro exI [of _ ?sp] exI conjI)
qed

section \<open>A program with one argument and one environment string\<close>

definition exec_demo :: um_st where
  "exec_demo = um_empty\<lparr>umem := \<lambda>_. (\<lambda>_. 0)(0x1001 := 65, 0x1002 := 66, 0x1004 := 67)\<rparr>"

theorem create_tables_witness:
  "strs_at 0x1001 ([[65, 66]] @ [[67]]) exec_demo \<and>
   (\<exists>sp t. create_tables 0x1001 1 1 exec_demo = Ok sp t \<and> get_fs_long (sp + of_nat (4 * 1)) t = 0x1001 \<and>
      get_fs_long (sp + of_nat (4 * 3)) t = 0x1004)"
proof -
  have s: "strs_at 0x1001 ([[65, 66]] @ [[67]]) exec_demo" by (simp add: exec_demo_def get_fs_byte_def less_Suc_eq)
  have l: "unat (0x1001 :: u32) + strs_size ([[65, 66 :: u8]] @ [[67]]) < 2 ^ 32" "4 * (length [[65, 66 :: u8]] + length [[67 :: u8]] + 4) \<le> unat (0x1001 :: u32)"
    by simp_all
  have one: "length [[65, 66 :: u8]] = 1" "length [[67 :: u8]] = 1" by simp_all
  from create_tables_ok [OF s l, unfolded one] obtain sp t where t: "create_tables 0x1001 1 1 exec_demo = Ok sp t" "arg_tables sp 0x1001 [[65, 66]] [[67]] t" by blast
  from t(2) have "get_fs_long (sp + of_nat (4 * 1)) t = 0x1001" "get_fs_long (sp + of_nat (4 * 3)) t = 0x1004"
    unfolding arg_tables_def Let_def by simp_all
  with s t(1) show ?thesis by blast
qed

end
