(* ===== verification/Mm_Frame.thy ===== *)
theory Mm_Frame
  imports User_Mem
begin

text \<open>
  What a routine leaves alone.

  The interface \<open>step_frame\<close> is a reflexive and transitive relation between the states before and after a routine; its
  lemmas carry it through sequences, loops and folds. The first interpretation is \<open>mm_only\<close>: the memory manager changes
  physical memory, the reference counts and the log, and nothing else of any larger state.
\<close>

locale step_frame =
  fixes R :: "'s \<Rightarrow> 's \<Rightarrow> bool"
  assumes refl: "R s s" and trans: "R s t \<Longrightarrow> R t u \<Longrightarrow> R s u"
begin

lemma seq:
  assumes "returns m (\<lambda>_ t. R s t)" "\<And>a t. returns (f a t) (\<lambda>_ u. R t u)"
  shows "returns (bnd m f) (\<lambda>_ u. R s u)"
proof -
  have "returns (f a t) (\<lambda>_ u. R s u)" if "R s t" for a t
    using assms(2) [of a t] by (rule returns_mono) (rule trans [OF that])
  with assms(1) show ?thesis unfolding returns_bnd by (rule returns_mono) blast
qed

lemma loop:
  assumes "\<And>i t. returns (f i t) (\<lambda>_ u. R t u)"
  shows "returns (for_each is f s) (\<lambda>_ u. R s u)"
proof (induction "is" arbitrary: s)
  case (Cons i "is")
  show ?case unfolding for_each.simps using assms Cons.IH by (intro seq) auto
qed (simp add: refl)

lemma folds: "(\<And>i t. R t (f i t)) \<Longrightarrow> R s (fold f is s)"
proof (induction "is" arbitrary: s)
  case (Cons i "is")
  then show ?case using trans [of s "f i s"] by simp
qed (simp add: refl)

lemma after: "R s t \<Longrightarrow> returns m (\<lambda>_ u. R t u) \<Longrightarrow> returns m (\<lambda>_ u. R s u)"
  by (erule returns_mono) (rule trans)

end

section \<open>The memory manager\<close>

definition mm_only :: "'z mm_st_scheme \<Rightarrow> 'z mm_st_scheme \<Rightarrow> bool" where
  "mm_only s t \<longleftrightarrow> (\<exists>m c l. t = s\<lparr>pm := m, mem_map := c, klog := l\<rparr>)"

interpretation mmf: step_frame mm_only
proof
  show "mm_only s s" for s :: "'z mm_st_scheme"
    unfolding mm_only_def by (intro exI [of _ "pm s"] exI [of _ "mem_map s"] exI [of _ "klog s"]) simp
  show "mm_only s u" if st: "mm_only s t" and tu: "mm_only t u" for s t u :: "'z mm_st_scheme"
  proof -
    obtain m c l where "t = s\<lparr>pm := m, mem_map := c, klog := l\<rparr>" using st unfolding mm_only_def by blast
    moreover obtain m' c' l' where "u = t\<lparr>pm := m', mem_map := c', klog := l'\<rparr>" using tu unfolding mm_only_def by blast
    ultimately have "u = s\<lparr>pm := m', mem_map := c', klog := l'\<rparr>" by simp
    then show ?thesis unfolding mm_only_def by blast
  qed
qed

declare mmf.refl [simp]

lemma mm_onlyI: "t = s\<lparr>pm := pm t, mem_map := mem_map t, klog := klog t\<rparr> \<Longrightarrow> mm_only s t"
  unfolding mm_only_def by blast

lemma mm_only_steps [simp]:
  "mm_only s (stl a v s)" "mm_only s (set_count i c s)" "mm_only s (printk f xs s)"
  by (auto intro!: mm_onlyI simp: stl_def set_count_def printk_def)

lemma mm_only_step:
  "mm_only s t \<Longrightarrow> mm_only s (stl a v t)" "mm_only s t \<Longrightarrow> mm_only s (set_count i c t)" "mm_only s t \<Longrightarrow> mm_only s (printk f xs t)"
  using mmf.trans mm_only_steps by blast+

lemma mm_only_page: "mm_only s (snd (get_free_page s))"
proof -
  have "mm_only s (fold (\<lambda>k. stl (elem a k) 0) ks (set_count i 1 s))" for a ks i
    by (rule mmf.trans [OF mm_only_steps(2)]) (rule mmf.folds, simp)
  then show ?thesis by (auto simp: get_free_page_def Let_def split: option.splits)
qed

lemma mm_only_free_page: "returns (free_page a s) (\<lambda>_ t. mm_only s t)"
  by (auto simp: free_page_def Let_def)

lemma mm_only_free_pte: "returns (free_pte a s) (\<lambda>_ t. mm_only s t)"
  unfolding free_pte_def by (rule mmf.seq) (auto simp: mm_only_free_page)

lemma mm_only_free_dir: "returns (free_dir d s) (\<lambda>_ t. mm_only s t)"
  unfolding free_dir_def Let_def
  by (auto intro!: mmf.seq mmf.loop mm_only_free_pte mm_only_free_page)

lemma mm_only_free_page_tables: "returns (free_page_tables a n s) (\<lambda>_ t. mm_only s t)"
  unfolding free_page_tables_def Let_def by (auto intro!: mmf.seq mmf.loop mm_only_free_dir)

lemma mm_only_copy_pte: "mm_only s (copy_pte a b s)"
  by (auto simp: copy_pte_def Let_def intro!: mm_only_step)

lemma mm_only_copy_dirs: "returns (copy_dirs n f a b s) (\<lambda>_ t. mm_only s t)"
proof (induction n arbitrary: a b s)
  case (Suc n)
  obtain p s1 where p: "get_free_page s = (p, s1)" by fastforce
  then have s1: "mm_only s s1" using mm_only_page [of s] by simp
  have "mm_only s (fold (\<lambda>k. copy_pte (elem x k) (elem p k)) ks (stl b v s1))" for x ks v
    by (rule mmf.trans [OF mm_only_step(1) [OF s1]]) (rule mmf.folds, rule mm_only_copy_pte)
  note f = mmf.after [OF this Suc.IH]
  show ?case using f Suc.IH s1 by (simp add: p Let_def)
qed simp

lemma mm_only_copy_page_tables: "returns (copy_page_tables a b n s) (\<lambda>_ t. mm_only s t)"
  by (simp add: copy_page_tables_def mm_only_copy_dirs)

lemma mm_only_un_wp_page: "returns (un_wp_page a s) (\<lambda>_ t. mm_only s t)"
proof -
  obtain p s1 where p: "get_free_page s = (p, s1)" by fastforce
  then have s1: "mm_only s s1" using mm_only_page [of s] by simp
  have "mm_only t (copy_page x y t)" for x y and t :: "'z mm_st_scheme"
    unfolding copy_page_def by (rule mmf.folds) simp
  then have "mm_only s t \<Longrightarrow> mm_only s (copy_page x y t)" for x y t by (rule mmf.trans [rotated])
  then show ?thesis using s1 mm_only_step(1) [OF s1] mm_only_step(1) [OF mm_only_step(2) [OF s1]]
    by (simp add: un_wp_page_def p Let_def)
qed

lemma mm_only_write_verify: "returns (write_verify a s) (\<lambda>_ t. mm_only s t)"
  by (simp add: write_verify_def Let_def mm_only_un_wp_page)

lemma mm_only_verify_area: "returns (verify_area a n s) (\<lambda>_ t. mm_only s t)"
  unfolding verify_area_def Let_def by (rule mmf.loop) (rule mm_only_write_verify)

lemma mm_only_sched:
  assumes "mm_only s t"
  shows "task t = task s" "ts t = ts s" "current t = current s" "last_task_used_math t = last_task_used_math s" "fpu t = fpu s"
    "jiffies t = jiffies s" "startup_time t = startup_time s" "gdt t = gdt s" "init_task t = init_task s" "cr0_ts t = cr0_ts s"
  using assms by (auto simp: mm_only_def)

end
