(* ===== verification/Process_Props.thy ===== *)
theory Process_Props
  imports Sys_Calls Mm_Frame
begin

text \<open>
  Properties of processes: the choice of a process number and a slot, the structure of a forked child, and the
  delivery of signals.
\<close>

section \<open>Process numbers\<close>

lemma new_pid_eq: "0 \<le> n \<Longrightarrow> n < 2 ^ 31 \<Longrightarrow> new_pid n = (if n = 2 ^ 31 - 1 then 1 else n + 1)"
proof -
  assume n: "0 \<le> n" "n < 2 ^ 31"
  show ?thesis
  proof (cases "n = 2 ^ 31 - 1")
    case True
    then have "s32 (n + 1) = - (2 ^ 31)" by (simp add: s32_def)
    then show ?thesis using True by (simp add: new_pid_def Let_def)
  next
    case False
    then have "s32 (n + 1) = n + 1" using n by (intro s32_id) simp_all
    then show ?thesis using False n by (simp add: new_pid_def Let_def)
  qed
qed

lemma mod_succ: "0 < M \<Longrightarrow> (x + 1) mod M = (if x mod M = M - 1 then 0 else x mod M + 1)" for x M :: int
proof -
  assume M: "0 < M"
  then have b: "0 \<le> x mod M" "x mod M < M" by simp_all
  have "(x + 1) mod M = (x mod M + 1) mod M" by (simp only: mod_add_left_eq)
  then show ?thesis using b by (cases "x mod M = M - 1") simp_all
qed

text \<open>The numbers run through 1 to \<open>2 ^ 31 - 1\<close> and start over.\<close>

lemma new_pid_iter:
  "0 \<le> n \<Longrightarrow> n < 2 ^ 31 \<Longrightarrow> (new_pid ^^ Suc k) n = 1 + (n + int k) mod (2 ^ 31 - 1)"
proof (induction k)
  case 0
  then show ?case by (cases "n = 2 ^ 31 - 1") (simp_all add: new_pid_eq)
next
  case (Suc k)
  let ?M = "2 ^ 31 - 1 :: int"
  have m: "0 \<le> (n + int k) mod ?M" "(n + int k) mod ?M < ?M" by simp_all
  have step: "(n + int (Suc k)) mod ?M = (if (n + int k) mod ?M = ?M - 1 then 0 else (n + int k) mod ?M + 1)"
  proof -
    have e: "n + int (Suc k) = n + int k + 1" by simp
    show ?thesis unfolding e by (rule mod_succ) simp
  qed
  have "(new_pid ^^ Suc (Suc k)) n = new_pid (1 + (n + int k) mod ?M)" using Suc by simp
  also have "\<dots> = 1 + (n + int (Suc k)) mod ?M" using m unfolding step by (auto simp: new_pid_eq)
  finally show ?case .
qed

definition pids :: "'z sched_st_scheme \<Rightarrow> int set" where
  "pids s = (\<lambda>i. pid (ts s (task s i))) ` {i \<in> {0..<NR_TASKS}. task s i \<noteq> 0}"

lemma pid_taken_iff: "pid_taken n s \<longleftrightarrow> n \<in> pids s"
  by (auto simp: pid_taken_def pids_def list_ex_iff)

lemma free_pid_near:
  assumes "0 \<le> n" "n < 2 ^ 31"
  shows "\<exists>k < 65. \<not> pid_taken ((new_pid ^^ Suc k) n) s"
proof (rule ccontr)
  assume "\<not> ?thesis"
  then have sub: "(\<lambda>k. (new_pid ^^ Suc k) n) ` {0..<65} \<subseteq> pids s" by (auto simp: pid_taken_iff simp del: funpow.simps)
  have "inj_on (\<lambda>k. (new_pid ^^ Suc k) n) {0..<65}"
  proof (rule inj_onI)
    fix j k :: nat assume jk: "j \<in> {0..<65}" "k \<in> {0..<65}" "(new_pid ^^ Suc j) n = (new_pid ^^ Suc k) n"
    then have "(n + int j) mod (2 ^ 31 - 1) = (n + int k) mod (2 ^ 31 - 1)" unfolding new_pid_iter [OF assms] by simp
    then have "(2 ^ 31 - 1) dvd (int j - int k)" by (simp add: mod_eq_dvd_iff)
    then show "j = k" using jk(1,2) zdvd_imp_le [of "2 ^ 31 - 1" "\<bar>int j - int k\<bar>"] by (cases "j = k") auto
  qed
  then have "card ((\<lambda>k. (new_pid ^^ Suc k) n) ` {0..<65}) = 65" by (simp add: card_image)
  moreover have "finite (pids s)" by (simp add: pids_def)
  moreover have "card (pids s) \<le> card {0..<NR_TASKS}"
    unfolding pids_def by (rule order_trans [OF card_image_le card_mono]) auto
  ultimately show False using card_mono [OF _ sub] by (simp add: NR_TASKS_def)
qed

lemma retry_pid:
  "0 \<le> last_pid s \<Longrightarrow> last_pid s < 2 ^ 31 \<Longrightarrow> k < m \<Longrightarrow> \<not> pid_taken ((new_pid ^^ Suc k) (last_pid s)) s \<Longrightarrow>
   \<exists>n. retry pid_round s = Ok () (s\<lparr>last_pid := n\<rparr>) \<and> n \<notin> pids s \<and> 0 < n \<and> n < 2 ^ 31"
proof (induction m arbitrary: s k)
  case (Suc m)
  let ?n = "new_pid (last_pid s)" and ?t = "s\<lparr>last_pid := new_pid (last_pid s)\<rparr>"
  have n: "0 < ?n" "?n < 2 ^ 31" using Suc.prems(1,2) by (auto simp: new_pid_eq)
  have pk: "pid_taken x ?t = pid_taken x s" "pids ?t = pids s" for x by (simp_all add: pid_taken_def pids_def)
  show ?case
  proof (cases "pid_taken ?n s")
    case False
    then have "pid_round s = Ok (Some ()) ?t" by (simp add: pid_round_def Let_def pk)
    from retry_done [of pid_round, OF this] show ?thesis using n False by (auto simp: pid_taken_iff)
  next
    case True
    then have "k \<noteq> 0" using Suc.prems(4) by (cases k) auto
    then obtain j where j: "k = Suc j" by (cases k) auto
    have "pid_round s = Ok None ?t" using True by (simp add: pid_round_def Let_def pk)
    note again = retry_again [of pid_round, OF this]
    have "\<not> pid_taken ((new_pid ^^ Suc j) (last_pid ?t)) ?t"
      using Suc.prems(4) unfolding j pk by (simp add: funpow_swap1)
    from Suc.IH [OF _ _ _ this] show ?thesis using n Suc.prems(3) j again pk by auto
  qed
qed simp

text \<open>
  C25: \<open>find_empty_process\<close> always ends, although its search restarts whenever a number is taken: it leaves a positive
  process number that no task has, changes nothing else, and returns the first free slot of the task table but slot 0,
  or -EAGAIN exactly when there is none.
\<close>

theorem find_empty_process_ok:
  assumes "0 \<le> last_pid s" "last_pid s < 2 ^ 31"
  shows "\<exists>n r. find_empty_process s = Ok r (s\<lparr>last_pid := n\<rparr>) \<and> 0 < n \<and> n < 2 ^ 31 \<and>
    (\<forall>i < NR_TASKS. task s i \<noteq> 0 \<longrightarrow> pid (ts s (task s i)) \<noteq> n) \<and>
    ((r = - EAGAIN \<and> (\<forall>i \<in> {1..<NR_TASKS}. task s i \<noteq> 0)) \<or>
     (\<exists>i \<in> {1..<NR_TASKS}. r = int i \<and> task s i = 0 \<and> (\<forall>j \<in> {1..<i}. task s j \<noteq> 0)))"
proof -
  obtain k where "k < 65" "\<not> pid_taken ((new_pid ^^ Suc k) (last_pid s)) s" using free_pid_near [OF assms] by blast
  from retry_pid [OF assms this] obtain n where n: "retry pid_round s = Ok () (s\<lparr>last_pid := n\<rparr>)" "n \<notin> pids s" "0 < n" "n < 2 ^ 31"
    by blast
  have fresh: "\<forall>i < NR_TASKS. task s i \<noteq> 0 \<longrightarrow> pid (ts s (task s i)) \<noteq> n" using n(2) by (auto simp: pids_def)
  show ?thesis
  proof (cases "find (\<lambda>i. task s i = 0) [1..<NR_TASKS]")
    case None
    then have "\<forall>i \<in> {1..<NR_TASKS}. task s i \<noteq> 0" unfolding find_None_all by auto
    moreover have "find_empty_process s = Ok (- EAGAIN) (s\<lparr>last_pid := n\<rparr>)" using n(1) None by (simp add: find_empty_process_def)
    ultimately show ?thesis using n fresh by blast
  next
    case (Some i)
    then have i: "i \<in> {1..<NR_TASKS}" "task s i = 0" "\<forall>j \<in> {1..<i}. task s j \<noteq> 0" unfolding find_upt_first by auto
    moreover have "find_empty_process s = Ok (int i) (s\<lparr>last_pid := n\<rparr>)" using n(1) Some by (simp add: find_empty_process_def)
    ultimately show ?thesis using n fresh by blast
  qed
qed

section \<open>Signals\<close>

text \<open>The tasks that get a signal, and what they get; the identities that decide it do not change on the way.\<close>

definition signalled :: "int \<Rightarrow> int \<Rightarrow> bool \<Rightarrow> nat set \<Rightarrow> 'z sched_st_scheme \<Rightarrow> nat \<Rightarrow> bool" where
  "signalled n sig priv T s p \<longleftrightarrow>
     p \<noteq> 0 \<and> p \<in> T \<and> 1 \<le> sig \<and> sig \<le> 32 \<and> kill_target n p s \<and> (priv \<or> may_signal (cur s) (ts s p))"

definition with_signals :: "int \<Rightarrow> int \<Rightarrow> bool \<Rightarrow> nat set \<Rightarrow> 'z sched_st_scheme \<Rightarrow> 'z sched_st_scheme" where
  "with_signals n sig priv T s =
     s\<lparr>ts := \<lambda>p. if signalled n sig priv T s p then (ts s p)\<lparr>signal := signal (ts s p) OR sigmask (nat sig)\<rparr> else ts s p\<rparr>"

lemma with_signals_ids:
  "task (with_signals n sig priv T s) = task s" "kill_target n p (with_signals n sig priv T s) = kill_target n p s"
  "may_signal (cur (with_signals n sig priv T s)) (ts (with_signals n sig priv T s) p) = may_signal (cur s) (ts s p)"
  by (simp_all add: with_signals_def kill_target_def may_signal_def cur_def)

lemma with_signals_insert:
  "with_signals n sig priv (insert p T) s =
   (if kill_target n p s then send_sig sig p priv (with_signals n sig priv T s) else with_signals n sig priv T s)"
proof -
  have "send_sig sig p priv (with_signals n sig priv T s) =
      (if p \<noteq> 0 \<and> 1 \<le> sig \<and> sig \<le> 32 \<and> (priv \<or> may_signal (cur s) (ts s p))
       then upd_task p (\<lambda>t. t\<lparr>signal := signal t OR sigmask (nat sig)\<rparr>) (with_signals n sig priv T s) else with_signals n sig priv T s)"
    by (auto simp: send_sig_def with_signals_ids)
  then show ?thesis
    by (auto simp: with_signals_def upd_task_def signalled_def fun_eq_iff or.assoc intro!: arg_cong [of _ _ "\<lambda>m. s\<lparr>ts := m\<rparr>"])
qed

lemma kill_fold:
  "fold (\<lambda>i s. if kill_target n (task s i) s then send_sig sig (task s i) priv s else s) is (with_signals n sig priv T s) =
   with_signals n sig priv (T \<union> task s ` set is) s"
proof (induction "is" arbitrary: T)
  case (Cons i "is")
  have "(if kill_target n (task s i) s then send_sig sig (task s i) priv (with_signals n sig priv T s) else with_signals n sig priv T s) =
      with_signals n sig priv (insert (task s i) T) s" by (simp only: with_signals_insert)
  then show ?case using Cons.IH [of "insert (task s i) T"] by (auto simp: with_signals_ids split: if_splits)
qed simp

text \<open>
  C26: \<open>do_kill\<close> sends a signal with a number from 1 to 32 to exactly these tasks in slots 1 to 63 of the task table: for a positive number
  the task with that process number, for 0 the tasks whose group is the process number of the caller, for -1 all, and for a number
  below -1 the tasks of the group with the opposite number; without privilege only those of them that have a user identity, real or
  effective, in common with the caller. It sets only the bit of that signal, and changes nothing else.
\<close>

theorem do_kill_exact:
  "do_kill n sig priv s =
     s\<lparr>ts := \<lambda>p. if p \<noteq> 0 \<and> p \<in> task s ` {1..<NR_TASKS} \<and> 1 \<le> sig \<and> sig \<le> 32 \<and>
                    (n > 0 \<and> pid (ts s p) = n \<or> n = 0 \<and> pgrp (ts s p) = pid (ts s (current s)) \<or> n = -1 \<or>
                     n < -1 \<and> pgrp (ts s p) = s32 (- n)) \<and>
                    (priv \<or> (\<exists>u. u \<in> {uid (ts s p), euid (ts s p)} \<and> u \<in> {uid (ts s (current s)), euid (ts s (current s))}))
                 then (ts s p)\<lparr>signal := set_bit (nat sig - 1) (signal (ts s p))\<rparr> else ts s p\<rparr>"
proof -
  have r: "signalled n sig priv (task s ` {1..<NR_TASKS}) s p \<longleftrightarrow> p \<noteq> 0 \<and> p \<in> task s ` {1..<NR_TASKS} \<and> 1 \<le> sig \<and> sig \<le> 32 \<and>
      (n > 0 \<and> pid (ts s p) = n \<or> n = 0 \<and> pgrp (ts s p) = pid (ts s (current s)) \<or> n = -1 \<or> n < -1 \<and> pgrp (ts s p) = s32 (- n)) \<and>
      (priv \<or> (\<exists>u. u \<in> {uid (ts s p), euid (ts s p)} \<and> u \<in> {uid (ts s (current s)), euid (ts s (current s))}))" for p
    by (auto simp: signalled_def kill_target_def may_signal_def cur_def)
  have b: "w OR sigmask (nat sig) = set_bit (nat sig - 1) w" for w
    by (simp add: sigmask_def set_bit_eq_or)
  have "with_signals n sig priv {} s = s" by (simp add: with_signals_def signalled_def)
  with kill_fold [of n sig priv slots_down "{}" s] have "do_kill n sig priv s = with_signals n sig priv (task s ` {1..<NR_TASKS}) s"
    by (simp add: do_kill_def)
  then show ?thesis by (simp only: with_signals_def r b)
qed

section \<open>The state after the boot with a counter of process numbers\<close>

definition proc_demo :: proc_st where
  "proc_demo = fs_st.extend fs_demo \<lparr>last_pid = 0, prev_nr = 0\<rparr>"

lemma proc_demo_tasks: "task proc_demo = (\<lambda>_. 0)(0 := 0x1000, 1 := 0x2000)" "last_pid proc_demo = 0"
proof -
  have "task fs_demo = task fs_base" by (simp add: fs_demo_def buffer_init_def Let_def printk_def)
  also have "\<dots> = (\<lambda>_. 0)(0 := 0x1000, 1 := 0x2000)"
    by (simp add: fs_base_def hd_st.extend_def hd_demo_def bc_st.extend_def tty_st.extend_def tty_boot_def con_st.extend_def
        con_ready_def con_init_def printk_def gotoxy_def con_boot_def um_st.extend_def um_empty_def mm_st.extend_def
        mm_empty_def sched_st.extend_def two_tasks_def)
  finally show "task proc_demo = (\<lambda>_. 0)(0 := 0x1000, 1 := 0x2000)" by (simp add: proc_demo_def fs_st.extend_def)
  show "last_pid proc_demo = 0" by (simp add: proc_demo_def fs_st.extend_def)
qed

theorem find_empty_process_witness:
  "0 \<le> last_pid proc_demo \<and> last_pid proc_demo < 2 ^ 31 \<and>
   (\<exists>n. find_empty_process proc_demo = Ok 2 (proc_demo\<lparr>last_pid := n\<rparr>) \<and> 0 < n)"
proof -
  have l: "0 \<le> last_pid proc_demo" "last_pid proc_demo < 2 ^ 31" by (simp_all add: proc_demo_tasks)
  from find_empty_process_ok [OF this] obtain n r where n: "find_empty_process proc_demo = Ok r (proc_demo\<lparr>last_pid := n\<rparr>)" "0 < n"
    and r: "(r = - EAGAIN \<and> (\<forall>i \<in> {1..<NR_TASKS}. task proc_demo i \<noteq> 0)) \<or>
     (\<exists>i \<in> {1..<NR_TASKS}. r = int i \<and> task proc_demo i = 0 \<and> (\<forall>j \<in> {1..<i}. task proc_demo j \<noteq> 0))" by blast
  have two: "(2 :: nat) \<in> {1..<NR_TASKS}" "task proc_demo 2 = 0" by (simp_all add: NR_TASKS_def proc_demo_tasks)
  with r obtain i where i: "r = int i" "i \<in> {1..<NR_TASKS}" "task proc_demo i = 0" "\<forall>j \<in> {1..<i}. task proc_demo j \<noteq> 0" by blast
  have "\<not> 2 < i" using bspec [OF i(4), of 2] two(2) by auto
  moreover have "i \<noteq> 1" using i(3) by (auto simp: proc_demo_tasks)
  ultimately have "i = 2" using i(2) by auto
  with n i(1) l show ?thesis by auto
qed

end
