(* ===== verification/Fork.thy ===== *)
theory Fork
  imports Process_Props
begin

text \<open>
  The correctness of \<open>copy_process\<close> in \<open>kernel/fork.c\<close>: the memory manager, the task table, the descriptor tables and
  the reference counts of files and inodes together.
\<close>

section \<open>Memory and the rest of the state\<close>

lemma mm_same:
  assumes "pm t = pm s" "mem_map t = mem_map s"
  shows "live t x = live s x" "slot t x = slot s x" "mm_inv ext t = mm_inv ext s"
proof -
  show l: "live t x = live s x" "slot t x = slot s x" for x using assms by (auto simp: live_def slot_def split: option.splits)
  have "owners t i = owners s i" for i by (simp add: owners_def l)
  then show "mm_inv ext t = mm_inv ext s" by (simp add: mm_inv_def slots_ok_def counts_ok_def private_ok_def l assms)
qed

lemma copied_same:
  assumes "pm s' = pm s" "mem_map s' = mem_map s" "pm t' = pm t" "mem_map t' = mem_map t"
  shows "copied n fd td s' t' = copied n fd td s t" "others_kept n fd td s' t' = others_kept n fd td s t"
  unfolding copied_def others_kept_def
  by (simp_all only: mm_same [OF assms(1,2)] mm_same [OF assms(3,4)] assms)

text \<open>The kernel gives back a frame that only it uses.\<close>

lemma mm_inv_give_back:
  assumes inv: "mm_inv (ext(i := 1)) s" and i: "i < PAGING_PAGES" "ext i = 0"
  shows "\<exists>t. free_page (frame i) s = Ok () t \<and> mm_inv ext t \<and> pm t = pm s \<and> mm_only s t"
proof -
  have i': "i < 1536" using i(1) by (simp add: PAGING_PAGES_eq)
  have c: "unat (mem_map s i) = card (owners s i) + 1" using count_frame [OF inv i'] by simp
  then have nz: "mem_map s i \<noteq> 0" by auto
  let ?t = "set_count i (mem_map s i - 1) s"
  have f: "free_page (frame i) s = Ok () ?t" using free_page_frame [of "frame i" s] i nz i' by simp
  have pm: "pm ?t = pm s" by (simp add: set_count_def)
  have ls: "live ?t x = live s x" "slot ?t x = slot s x" for x using pm by (auto simp: live_def slot_def split: option.splits)
  have "mm_inv ext ?t"
  proof (rule mm_inv_cong [OF ls(1) ls(2) _ inv])
    fix j assume "j < (1536 :: nat)"
    show "unat (mem_map ?t j) + (ext(i := 1)) j = unat (mem_map s j) + ext j"
      using unat_u16_dec [OF nz] i(2) by (simp add: set_count_def)
  next
    fix x assume x: "live s x" "present (slot s x)" "512 \<le> pfn (slot s x)" "snd x = None \<or> writable (slot s x)"
    have "x \<in> owners s (pfn (slot s x) - 512)" using slot_frame(3) [OF inv x(1,2)] x(3) by simp
    moreover have "mem_map s (pfn (slot s x) - 512) = 1" by (rule private_count [OF inv x])
    ultimately have "pfn (slot s x) - 512 \<noteq> i" using c by (auto simp: card_eq_0_iff)
    then show "mem_map ?t (pfn (slot s x) - 512) = mem_map s (pfn (slot s x) - 512)" by (simp add: set_count_def)
  qed
  with f pm show ?thesis by auto
qed

lemma copied_take_frame:
  assumes inv: "mm_inv ext s" and i: "i < PAGING_PAGES" "mem_map s i = 0" and r: "2 \<le> fd" "fd + n \<le> 1024"
  shows "copied n fd td (take_frame i s) t = copied n fd td s t" "others_kept n fd td (take_frame i s) t = others_kept n fd td s t"
proof -
  note tf = mm_inv_take_frame [OF inv i]
  have pm: "e < 1024 \<Longrightarrow> pm (take_frame i s) e = pm s e" for e by simp
  show "others_kept n fd td (take_frame i s) t = others_kept n fd td s t"
    unfolding others_kept_def using pm tf(2,3) by (simp cong: imp_cong del: take_frame_fields)
  have "slot (take_frame i s) (fd + j, Some k) = slot s (fd + j, Some k)" if "j < n" "present (pm s (fd + j))" "k < 1024" for j k
    using tf(3) [of "(fd + j, Some k)"] that r by simp
  then show "copied n fd td (take_frame i s) t = copied n fd td s t"
    unfolding copied_def using pm r by (simp cong: imp_cong del: take_frame_fields slot_simps)
qed

section \<open>copy_mem\<close>

text \<open>
  What \<open>copy_mem\<close> relies on: one aligned user segment for code and data, an empty range of the same size for the child
  in slot \<open>nr\<close>, and reference counts that cannot overflow.
\<close>

definition segment_ok :: "nat \<Rightarrow> 'z sched_st_scheme \<Rightarrow> bool" where
  "segment_ok nr s \<longleftrightarrow>
     get_base (ldt (cur s) 1) = get_base (ldt (cur s) 2) \<and> get_limit (ldt (cur s) 1) \<le> get_limit (ldt (cur s) 2) \<and>
     user_range (get_base (ldt (cur s) 2)) (get_limit (ldt (cur s) 2)) \<and>
     user_range (of_nat nr * 0x4000000) (get_limit (ldt (cur s) 2))"

definition seg_dirs :: "'z sched_st_scheme \<Rightarrow> nat" where
  "seg_dirs s = unat (drop_bit 22 (get_limit (ldt (cur s) 2) + 0x3fffff))"

definition seg_from :: "'z sched_st_scheme \<Rightarrow> nat" where
  "seg_from s = unat (get_base (ldt (cur s) 2)) div 2 ^ 22"

definition seg_to :: "nat \<Rightarrow> nat" where
  "seg_to nr = unat (of_nat nr * 0x4000000 :: u32) div 2 ^ 22"

definition child_free :: "nat \<Rightarrow> 'z mm_st_scheme \<Rightarrow> bool" where
  "child_free nr s \<longleftrightarrow>
     (seg_from s + seg_dirs s \<le> seg_to nr \<or> seg_to nr + seg_dirs s \<le> seg_from s) \<and>
     (\<forall>j < seg_dirs s. \<not> present (pm s (seg_to nr + j))) \<and> (\<forall>i. unat (mem_map s i) + 1025 * seg_dirs s < 65536)"

lemma seg_cong:
  assumes "ldt (cur t) = ldt (cur s)"
  shows "segment_ok nr t = segment_ok nr s" "seg_dirs t = seg_dirs s" "seg_from t = seg_from s"
  by (simp_all add: segment_ok_def seg_dirs_def seg_from_def assms)

lemma set_ldt_base_fields [simp]:
  "pm (set_ldt_base p n b s) = pm s" "mem_map (set_ldt_base p n b s) = mem_map s" "current (set_ldt_base p n b s) = current s"
  by (simp_all add: set_ldt_base_def upd_task_def cur_def)

lemma copy_mem_ok:
  fixes s :: "'z um_st_scheme" and p :: nat
  assumes inv: "mm_inv ext s" and seg: "segment_ok nr s" and free: "child_free nr s"
  defines "n \<equiv> seg_dirs s" and "fd \<equiv> seg_from s" and "td \<equiv> seg_to nr"
    and "s0 \<equiv> set_ldt_base p 2 (of_nat nr * 0x4000000) (set_ldt_base p 1 (of_nat nr * 0x4000000) s)"
  shows "(\<exists>u. copy_mem nr p s = Ok 0 (u\<lparr>umem := (umem s)(p := umem s (current s))\<rparr>) \<and> mm_only s0 u \<and>
            mm_inv ext u \<and> copied n fd td s u \<and> others_kept n fd td s u) \<or>
         (\<exists>t. copy_mem nr p s = Ok (- ENOMEM) t \<and> mm_only s0 t \<and> mm_inv ext t \<and> free_frames s < n \<and>
            (\<forall>d < 1024. if td \<le> d \<and> d < td + n then \<not> present (pm t d) else pm t d = pm s d))"
proof -
  let ?B = "get_base (ldt (cur s) 2)" and ?L = "get_limit (ldt (cur s) 2)" and ?N = "of_nat nr * 0x4000000 :: u32"
  have sg: "user_range ?B ?L" "user_range ?N ?L" "get_base (ldt (cur s) 1) = ?B" "\<not> ?L < get_limit (ldt (cur s) 1)"
    using seg by (auto simp: segment_ok_def)
  have same: "pm s0 = pm s" "mem_map s0 = mem_map s" by (simp_all add: s0_def)
  have inv0: "mm_inv ext s0" using inv mm_same(3) [OF same] by simp
  have r: "2 \<le> fd" "fd + n \<le> 1024" "2 \<le> td" "td + n \<le> 1024" "?B AND 0x3fffff = 0" "?N AND 0x3fffff = 0"
    using sg(1,2) by (auto simp: user_range_def n_def fd_def td_def seg_dirs_def seg_from_def seg_to_def)
  have "?B \<noteq> 0" using r(1) by (auto simp: fd_def seg_from_def)
  have dj: "fd + n \<le> td \<or> td + n \<le> fd" and abs: "\<And>j. j < n \<Longrightarrow> \<not> present (pm s0 (td + j))"
    and bd: "\<And>i. unat (mem_map s0 i) + 1025 * n < 65536"
    using free by (auto simp: child_free_def same n_def fd_def td_def)
  have lf: "lw (drop_bit 20 ?B AND 0xffc) = fd" and lt: "lw (drop_bit 20 ?N AND 0xffc) = td"
    unfolding fd_def seg_from_def td_def seg_to_def by (rule lw_dir)+
  from copy_dirs_ok [OF inv0 \<open>?B \<noteq> 0\<close> lf lt r(1-4) dj abs bd] obtain e u where
    d: "copy_dirs n ?B (drop_bit 20 ?B AND 0xffc) (drop_bit 20 ?N AND 0xffc) s0 = Ok e u" "mm_inv ext u" "others_kept n fd td s0 u"
      "e = 0 \<and> copied n fd td s0 u \<or> e = -1 \<and> free_frames s0 < n" by blast
  have c: "copy_page_tables ?B ?N ?L s0 = Ok e u" using d(1) r(5,6) by (simp add: copy_page_tables_def n_def seg_dirs_def)
  have only: "mm_only s0 u" using mm_only_copy_page_tables [of ?B ?N ?L s0] c by simp
  have cm: "copy_mem nr p s = (if e \<noteq> 0 then bnd (free_page_tables ?N ?L u) (\<lambda>_ s. Ok (- ENOMEM) s)
      else Ok 0 (u\<lparr>umem := (umem u)(p := umem u (current u))\<rparr>))"
    using sg(3,4) c by (simp add: copy_mem_def Let_def s0_def)
  show ?thesis
  proof (cases "e = 0")
    case True
    have "umem u = umem s" "current u = current s" using only by (auto simp: mm_only_def s0_def set_ldt_base_def upd_task_def)
    then show ?thesis using True cm d only copied_same [OF same refl refl, where ?t = u] by auto
  next
    case False
    from free_page_tables_frees [OF d(2) sg(2)] obtain t where t: "free_page_tables ?N ?L u = Ok 0 t" "mm_inv ext t"
      "\<forall>d<1024. if td \<le> d \<and> d < td + n then \<not> present (pm t d) else pm t d = pm u d"
      unfolding td_def seg_to_def n_def seg_dirs_def by blast
    have "mm_only u t" using mm_only_free_page_tables [of ?N ?L u] t(1) by simp
    then have "mm_only s0 t" using only by (rule mmf.trans [rotated])
    moreover have "\<forall>d < 1024. if td \<le> d \<and> d < td + n then \<not> present (pm t d) else pm t d = pm s d"
      using t(3) d(3) same by (auto simp: others_kept_def)
    moreover have "free_frames s < n" using d(4) False same by (simp add: free_frames_def)
    ultimately show ?thesis using cm False t by auto
  qed
qed

section \<open>copy_process\<close>

lemma fold_count_files:
  "fold (\<lambda>i s. case filp (ts s p) i of None \<Rightarrow> s | Some f \<Rightarrow> upd_file f (\<lambda>x. x\<lparr>f_count := f_count x + 1\<rparr>) s) is s =
   s\<lparr>file_table := \<lambda>f. (file_table s f)\<lparr>f_count := f_count (file_table s f) +
      of_nat (length (filter (\<lambda>i. filp (ts s p) i = Some f) is))\<rparr>\<rparr>"
proof (induction "is" arbitrary: s)
  case (Cons i "is")
  show ?case
  proof (cases "filp (ts s p) i")
    case (Some g)
    then show ?thesis unfolding fold.simps o_apply option.case Cons.IH
      by (auto simp: upd_file_def fun_eq_iff intro!: arg_cong [of _ _ "\<lambda>m. s\<lparr>file_table := m\<rparr>"])
  qed (simp add: Cons.IH)
qed simp

text \<open>The references a task has to a file and to an inode.\<close>

definition file_refs :: "task_struct \<Rightarrow> nat \<Rightarrow> nat" where
  "file_refs t f = length (filter (\<lambda>i. filp t i = Some f) [0..<NR_OPEN])"

definition inode_refs :: "task_struct \<Rightarrow> nat \<Rightarrow> nat" where
  "inode_refs t i = of_bool (pwd t = Some i) + of_bool (root t = Some i)"

text \<open>The child as the manual page of \<open>fork\<close> has it, and what \<open>copy_process\<close> changes.\<close>

definition forked :: "nat \<Rightarrow> nat \<Rightarrow> fork_regs \<Rightarrow> 'z proc_st_scheme \<Rightarrow> 'z proc_st_scheme \<Rightarrow> bool" where
  "forked nr p r s t \<longleftrightarrow>
     (let c = ts t p; me = cur s in
      state c = TASK_RUNNING \<and> pid c = last_pid s \<and> father c = pid me \<and> counter c = priority me \<and> signal c = 0 \<and> alarm c = 0 \<and>
      leader c = 0 \<and> pgrp c = pgrp me \<and> session c = session me \<and> uid c = uid me \<and> euid c = euid me \<and>
      filp c = filp me \<and> pwd c = pwd me \<and> root c = root me \<and>
      tss_eax (tss c) = 0 \<and> tss_eip (tss c) = r_eip r \<and> tss_esp (tss c) = r_esp r \<and> unat (esp0 (tss c)) = p + 4096 \<and>
      get_base (ldt c 1) = of_nat nr * 0x4000000 \<and> get_base (ldt c 2) = of_nat nr * 0x4000000) \<and>
     task t = (task s)(nr := p) \<and> current t = current s \<and> (\<forall>q. q \<noteq> p \<longrightarrow> ts t q = ts s q) \<and>
     umem t = (umem s)(p := umem s (current s)) \<and>
     gdt t = (gdt s)(2 * nr + FIRST_TSS_ENTRY := tssldt_desc (of_nat p + 352) 0x89,
                     2 * nr + FIRST_LDT_ENTRY := tssldt_desc (of_nat p + 328) 0x82) \<and>
     (\<forall>f. file_table t f = (file_table s f)\<lparr>f_count := f_count (file_table s f) + of_nat (file_refs (cur s) f)\<rparr>) \<and>
     (\<forall>i. inode_table t i = (inode_table s i)\<lparr>i_count := i_count (inode_table s i) + of_nat (inode_refs (cur s) i)\<rparr>)"

text \<open>The states of \<open>copy_process\<close> before and after \<open>copy_mem\<close>.\<close>

definition child_made :: "nat \<Rightarrow> fork_regs \<Rightarrow> nat \<Rightarrow> 'z proc_st_scheme \<Rightarrow> 'z proc_st_scheme" where
  "child_made nr r i s =
     (let s1 = take_frame i s; p = unat (frame i);
          s2 = upd_task p (\<lambda>_. child_task nr (frame i) r (last_pid s1) (jiffies s1) (cur s1)) s1
      in if last_task_used_math s2 = current s2
         then (upd_task p (\<lambda>t. t\<lparr>tss := (tss t)\<lparr>i387 := fpu s2\<rparr>\<rparr>) s2)\<lparr>fpu := Fpu_init\<rparr> else s2)"

definition child_entered :: "nat \<Rightarrow> nat \<Rightarrow> 'z proc_st_scheme \<Rightarrow> 'z proc_st_scheme" where
  "child_entered nr i s =
     (let p = unat (frame i); s4 = count_inode (root (cur s)) (count_inode (pwd (cur s)) (count_files p s));
          s5 = set_gdt (2 * nr + FIRST_TSS_ENTRY) (tssldt_desc (frame i + 352) 0x89) s4;
          s6 = set_gdt (2 * nr + FIRST_LDT_ENTRY) (tssldt_desc (frame i + 328) 0x82) s5
      in s6\<lparr>task := (task s6)(nr := p)\<rparr>)"

lemma copy_process_frame:
  "get_free_page s = (frame i, take_frame i s) \<Longrightarrow> i < PAGING_PAGES \<Longrightarrow>
   copy_process nr r s = bnd (copy_mem nr (unat (frame i)) (child_made nr r i s)) (\<lambda>e s.
     if e \<noteq> 0 then bnd (free_page (frame i) s) (\<lambda>_ s. Ok (- EAGAIN) s) else Ok (last_pid s) (child_entered nr i s))"
  by (auto simp: copy_process_def child_made_def child_entered_def Let_def set_gdt_def count_inode_def upd_inode_def
      count_files_def fold_count_files intro!: arg_cong2 [of _ _ _ _ bnd] ext split: option.splits)

lemma child_made_keeps:
  fixes i nr r and s :: "'z proc_st_scheme"
  defines "t \<equiv> child_made nr r i s"
  assumes "current s \<noteq> unat (frame i)"
  shows "cur t = cur s" "current t = current s" "task t = task s" "pm t = pm (take_frame i s)" "mem_map t = mem_map (take_frame i s)"
    "file_table t = file_table s" "inode_table t = inode_table s" "gdt t = gdt s" "umem t = umem s" "last_pid t = last_pid s"
    "\<And>q. q \<noteq> unat (frame i) \<Longrightarrow> ts t q = ts s q"
  using assms by (simp_all add: t_def child_made_def Let_def take_frame_def upd_task_def cur_def)

lemma child_made_child:
  fixes i nr r and s :: "'z proc_st_scheme"
  defines "t \<equiv> child_made nr r i s"
  shows "\<exists>x. ts t (unat (frame i)) = (child_task nr (frame i) r (last_pid s) (jiffies s) (cur s))\<lparr>tss := (child_tss nr (frame i) r (tss (cur s)))\<lparr>i387 := x\<rparr>\<rparr>"
  by (rule exI [of _ "if last_task_used_math s = current s then fpu s else i387 (tss (cur s))"])
    (simp add: t_def child_made_def Let_def take_frame_def upd_task_def cur_def child_task_def child_tss_def)

lemma child_entered_eq:
  fixes s :: "'z proc_st_scheme"
  shows "child_entered nr i s =
    s\<lparr>file_table := \<lambda>f. (file_table s f)\<lparr>f_count := f_count (file_table s f) + of_nat (file_refs (ts s (unat (frame i))) f)\<rparr>,
      inode_table := \<lambda>j. (inode_table s j)\<lparr>i_count := i_count (inode_table s j) + of_nat (inode_refs (cur s) j)\<rparr>,
      gdt := (gdt s)(2 * nr + FIRST_TSS_ENTRY := tssldt_desc (frame i + 352) 0x89,
                     2 * nr + FIRST_LDT_ENTRY := tssldt_desc (frame i + 328) 0x82),
      task := (task s)(nr := unat (frame i))\<rparr>"
proof -
  have "count_inode (root (cur s)) (count_inode (pwd (cur s)) t) =
      t\<lparr>inode_table := \<lambda>j. (inode_table t j)\<lparr>i_count := i_count (inode_table t j) + of_nat (inode_refs (cur s) j)\<rparr>\<rparr>" for t :: "'z proc_st_scheme"
    by (auto simp: count_inode_def upd_inode_def inode_refs_def fun_eq_iff split: option.splits
        intro!: arg_cong [of _ _ "\<lambda>m. t\<lparr>inode_table := m\<rparr>"])
  then show ?thesis
    by (simp add: child_entered_def Let_def set_gdt_def count_files_def fold_count_files file_refs_def cur_def)
qed

lemma child_entered_forked:
  fixes s u :: "'z proc_st_scheme"
  assumes cu: "current s \<noteq> unat (frame i)" and i: "i < PAGING_PAGES"
    and u: "mm_only (set_ldt_base (unat (frame i)) 2 (of_nat nr * 0x4000000)
        (set_ldt_base (unat (frame i)) 1 (of_nat nr * 0x4000000) (child_made nr r i s))) u"
  shows "forked nr (unat (frame i)) r s
    (child_entered nr i (u\<lparr>umem := (umem s)(unat (frame i) := umem s (current s))\<rparr>))"
proof -
  let ?p = "unat (frame i)" and ?N = "of_nat nr * 0x4000000 :: u32"
  note k = child_made_keeps [where nr = nr and r = r, OF cu]
  obtain x where x: "ts (child_made nr r i s) ?p = (child_task nr (frame i) r (last_pid s) (jiffies s) (cur s))\<lparr>tss := (child_tss nr (frame i) r (tss (cur s)))\<lparr>i387 := x\<rparr>\<rparr>"
    using child_made_child by blast
  obtain m c l where e: "u = (set_ldt_base ?p 2 ?N (set_ldt_base ?p 1 ?N (child_made nr r i s)))\<lparr>pm := m, mem_map := c, klog := l\<rparr>"
    using u unfolding mm_only_def by blast
  have p4: "unat (4096 + frame i) = ?p + 4096"
    using unat_frame [OF i] i by (simp add: unat_plus_if' PAGING_PAGES_eq)
  have ch: "ts u ?p = (ts (child_made nr r i s) ?p)\<lparr>ldt := (ldt (cur s))(1 := set_base ?N (ldt (cur s) 1), 2 := set_base ?N (ldt (cur s) 2))\<rparr>"
    by (simp add: e set_ldt_base_def upd_task_def x child_task_def)
  have ot: "ts u q = ts s q" if "q \<noteq> ?p" for q using that k(11) by (simp add: e set_ldt_base_def upd_task_def)
  have sel: "task u = task s" "current u = current s" "file_table u = file_table s" "inode_table u = inode_table s" "gdt u = gdt s"
    using k by (simp_all add: e set_ldt_base_def upd_task_def)
  have cu': "cur u = cur s" using ot [OF cu] by (simp add: cur_def sel)
  have "file_refs (ts u ?p) f = file_refs (cur s) f" for f by (simp add: ch x child_task_def file_refs_def)
  with sel cu' ot show ?thesis
    unfolding forked_def child_entered_eq Let_def
    by (simp add: ch x child_task_def child_tss_def get_set_base p4 cur_def)
qed

lemma child_made_free:
  assumes "child_free nr s" "i < PAGING_PAGES" "mem_map s i = 0" "current s \<noteq> unat (frame i)"
    and r: "seg_to nr + seg_dirs s \<le> 1024"
  shows "child_free nr (child_made nr r' i s)"
proof -
  note k = child_made_keeps [where nr = nr and r = r', OF assms(4)]
  have c: "seg_dirs (child_made nr r' i s) = seg_dirs s" "seg_from (child_made nr r' i s) = seg_from s" using seg_cong k(1) by metis+
  have "1025 * seg_dirs s < 65536" using assms(1) unfolding child_free_def by (meson add_lessD1 add.commute le_add2 le_less_trans)
  then have "seg_dirs s < 64" by linarith
  then have n: "1025 * seg_dirs s + 1 < 65536" by linarith
  show ?thesis using assms n unfolding child_free_def c k(4,5) by auto
qed

lemma free_frames_taken:
  "i < PAGING_PAGES \<Longrightarrow> mem_map s i = 0 \<Longrightarrow> mem_map t = mem_map (take_frame i s) \<Longrightarrow> free_frames s = free_frames t + 1"
proof -
  assume i: "i < PAGING_PAGES" "mem_map s i = 0" "mem_map t = mem_map (take_frame i s)"
  then have "{j. j < PAGING_PAGES \<and> mem_map s j = 0} = insert i {j. j < PAGING_PAGES \<and> mem_map t j = 0}" by auto
  moreover have "i \<notin> {j. j < PAGING_PAGES \<and> mem_map t j = 0}" using i by simp
  ultimately show ?thesis by (simp add: free_frames_def)
qed

lemma copy_process_forks:
  fixes s :: "'z proc_st_scheme"
  assumes inv: "mm_inv ext s" and seg: "segment_ok nr s" and free: "child_free nr s"
    and used: "\<And>i. i < PAGING_PAGES \<Longrightarrow> mem_map s i = 0 \<Longrightarrow> current s \<noteq> unat (frame i)"
  shows "(\<exists>i t. copy_process nr r s = Ok (last_pid s) t \<and> i < PAGING_PAGES \<and> mem_map s i = 0 \<and> mm_inv (ext(i := 1)) t \<and>
            forked nr (unat (frame i)) r s t \<and> copied (seg_dirs s) (seg_from s) (seg_to nr) s t \<and>
            others_kept (seg_dirs s) (seg_from s) (seg_to nr) s t) \<or>
         (\<exists>t. copy_process nr r s = Ok (- EAGAIN) t \<and> free_frames s \<le> seg_dirs s \<and> mm_inv ext t \<and> task t = task s \<and>
            file_table t = file_table s \<and> inode_table t = inode_table s \<and>
            (\<forall>q. (\<forall>i < PAGING_PAGES. mem_map s i = 0 \<longrightarrow> q \<noteq> unat (frame i)) \<longrightarrow> ts t q = ts s q) \<and>
            (\<forall>d < 1024. if seg_to nr \<le> d \<and> d < seg_to nr + seg_dirs s then \<not> present (pm t d) else pm t d = pm s d))"
proof (cases s rule: get_free_page_cases)
  case full
  have "free_frames s = 0" using full(2) by (simp add: free_frames_def)
  moreover have "copy_process nr r s = Ok (- EAGAIN) s" using full(1) by (simp add: copy_process_def)
  ultimately show ?thesis using inv free by (auto simp: child_free_def nat_le_iff_add)
next
  case (frame i)
  let ?p = "unat (frame i)" and ?s = "child_made nr r i s" and ?n = "seg_dirs s"
  have cu: "current s \<noteq> ?p" using used frame(1,2) by blast
  note k = child_made_keeps [where nr = nr and r = r, OF cu]
  have sg: "segment_ok nr ?s" "seg_dirs ?s = ?n" "seg_from ?s = seg_from s" using seg seg_cong k(1) by metis+
  have rg: "2 \<le> seg_from s" "seg_from s + ?n \<le> 1024" "seg_to nr + ?n \<le> 1024"
    using seg by (auto simp: segment_ok_def user_range_def seg_dirs_def seg_from_def seg_to_def)
  have inv': "mm_inv (ext(i := 1)) ?s" using mm_inv_take_frame(1) [OF inv frame(1,2)] mm_same(3) [OF k(4,5)] by simp
  have ei: "ext i = 0" using count_frame [OF inv, of i] frame by (simp add: PAGING_PAGES_eq)
  have dir: "d < 1024 \<Longrightarrow> pm ?s d = pm s d" for d by (simp add: k(4))
  note cp = copy_process_frame [OF frame(4,1)]
  from copy_mem_ok [OF inv' sg(1) child_made_free [OF free frame(1,2) cu rg(3)], of ?p]
  show ?thesis unfolding sg(2,3)
  proof (elim disjE exE conjE)
    fix u assume u: "copy_mem nr ?p ?s = Ok 0 (u\<lparr>umem := (umem ?s)(?p := umem ?s (current ?s))\<rparr>)"
      "mm_only (set_ldt_base ?p 2 (word_of_nat nr * 0x4000000) (set_ldt_base ?p 1 (word_of_nat nr * 0x4000000) ?s)) u"
      "mm_inv (ext(i := 1)) u" "copied ?n (seg_from s) (seg_to nr) ?s u" "others_kept ?n (seg_from s) (seg_to nr) ?s u"
    let ?v = "u\<lparr>umem := (umem s)(?p := umem s (current s))\<rparr>" and ?t = "child_entered nr i (u\<lparr>umem := (umem s)(?p := umem s (current s))\<rparr>)"
    have same: "pm ?t = pm u" "mem_map ?t = mem_map u" by (simp_all add: child_entered_eq)
    have "last_pid u = last_pid s" using u(2) k(10) by (auto simp: mm_only_def set_ldt_base_def upd_task_def)
    then have "copy_process nr r s = Ok (last_pid s) ?t" using u(1) k(2,9) by (simp add: cp)
    moreover have "mm_inv (ext(i := 1)) ?t" using u(3) mm_same(3) [OF same] by simp
    moreover have "copied ?n (seg_from s) (seg_to nr) s ?t" "others_kept ?n (seg_from s) (seg_to nr) s ?t"
      using u(4,5) unfolding copied_same [OF k(4,5) refl refl] copied_take_frame [OF inv frame(1,2) rg(1,2)]
        copied_same [OF refl refl same] by simp_all
    ultimately show ?thesis using child_entered_forked [OF cu frame(1) u(2)] frame(1,2) by blast
  next
    fix t assume t: "copy_mem nr ?p ?s = Ok (- ENOMEM) t" "mm_inv (ext(i := 1)) t" "free_frames ?s < ?n"
      "mm_only (set_ldt_base ?p 2 (word_of_nat nr * 0x4000000) (set_ldt_base ?p 1 (word_of_nat nr * 0x4000000) ?s)) t"
      "\<forall>d < 1024. if seg_to nr \<le> d \<and> d < seg_to nr + ?n then \<not> present (pm t d) else pm t d = pm ?s d"
    from mm_inv_give_back [OF t(2) frame(1) ei] obtain v where
      v: "free_page (frame i) t = Ok () v" "mm_inv ext v" "pm v = pm t" "mm_only t v" by blast
    have "copy_process nr r s = Ok (- EAGAIN) v" using t(1) v(1) by (simp add: cp ENOMEM_def)
    moreover have "task v = task s" "file_table v = file_table s" "inode_table v = inode_table s"
      using t(4) v(4) k by (auto simp: mm_only_def set_ldt_base_def upd_task_def)
    moreover have "ts v q = ts s q" if "q \<noteq> ?p" for q
      using t(4) v(4) k(11) [OF that] that by (auto simp: mm_only_def set_ldt_base_def upd_task_def)
    moreover have "free_frames s \<le> ?n" using free_frames_taken [OF frame(1,2) k(5)] t(3) by simp
    moreover have "\<forall>d < 1024. if seg_to nr \<le> d \<and> d < seg_to nr + ?n then \<not> present (pm v d) else pm v d = pm s d"
      using t(5) dir v(3) by simp
    ultimately show ?thesis using v(2) frame(1,2) by blast
  qed
qed

text \<open>
  C27: \<open>copy_process\<close> of a task with one user segment into an empty slot never panics. Either it returns the number in
  \<open>last_pid\<close> and has made a child that owns exactly one new frame, that shares every page of the parent without the
  write bit (the reference counts are exact and no shared frame is writable), that differs from the parent only as
  \<open>fork\<close> promises (0 in \<open>eax\<close>, its own number, segment and kernel stack, no signals), and that is counted in every file and
  directory the parent has open; no other task changes. Or it returns -EAGAIN, which happens only when there are no more
  free frames than page tables to copy, and then every frame it took is free again, no table of the child is left and every task is as before.
\<close>

theorem copy_process_ok:
  assumes "mm_inv ext s" and "segment_ok nr s" and "child_free nr s"
    and "\<And>i. i < PAGING_PAGES \<Longrightarrow> mem_map s i = 0 \<Longrightarrow> current s \<noteq> unat (frame i)"
  shows "(\<exists>i t. copy_process nr r s = Ok (last_pid s) t \<and> i < PAGING_PAGES \<and> mem_map s i = 0 \<and> mm_inv (ext(i := 1)) t \<and>
            forked nr (unat (frame i)) r s t \<and> copied (seg_dirs s) (seg_from s) (seg_to nr) s t \<and>
            others_kept (seg_dirs s) (seg_from s) (seg_to nr) s t) \<or>
         (\<exists>t. copy_process nr r s = Ok (- EAGAIN) t \<and> free_frames s \<le> seg_dirs s \<and> mm_inv ext t \<and> task t = task s \<and>
            file_table t = file_table s \<and> inode_table t = inode_table s \<and>
            (\<forall>q. (\<forall>i < PAGING_PAGES. mem_map s i = 0 \<longrightarrow> q \<noteq> unat (frame i)) \<longrightarrow> ts t q = ts s q) \<and>
            (\<forall>d < 1024. if seg_to nr \<le> d \<and> d < seg_to nr + seg_dirs s then \<not> present (pm t d) else pm t d = pm s d))"
  using assms by (rule copy_process_forks)

section \<open>A task with one page and one open file\<close>

definition fork_demo :: proc_st where
  "fork_demo = proc_demo\<lparr>current := 0x2000, mem_map := mem_map mm_demo, pm := pm mm_demo, last_pid := 7,
     file_table := (file_table proc_demo)(0 := (file_table proc_demo 0)\<lparr>f_count := 1\<rparr>),
     ts := (ts proc_demo)(0x2000 := (ts proc_demo 0x2000)\<lparr>ldt := (\<lambda>_. \<lparr>desc_a = 0x9f, desc_b = 0x4c0f200\<rparr>),
       filp := (\<lambda>_. None)(3 := Some 0)\<rparr>)\<rparr>"

definition demo_regs :: fork_regs where
  "demo_regs = \<lparr>r_ebp = 0, r_edi = 0, r_esi = 0, r_gs = 0x17, r_ebx = 0, r_ecx = 0, r_edx = 0, r_fs = 0x17, r_es = 0x17,
     r_ds = 0x17, r_eip = 0x100, r_cs = 0xf, r_eflags = 0x202, r_esp = 0x9000, r_ss = 0x17\<rparr>"

lemma fork_demo_segment:
  "get_base (ldt (cur fork_demo) k) = 0x4000000" "get_limit (ldt (cur fork_demo) k) = 0xa0000"
  "segment_ok 2 fork_demo" "seg_dirs fork_demo = 1" "seg_from fork_demo = 16" "seg_to 2 = 32"
proof -
  show b: "get_base (ldt (cur fork_demo) k) = 0x4000000" "get_limit (ldt (cur fork_demo) k) = 0xa0000" for k
    by (simp_all add: fork_demo_def cur_def get_base_def get_limit_def)
  show "segment_ok 2 fork_demo" "seg_dirs fork_demo = 1" "seg_from fork_demo = 16" "seg_to 2 = 32"
    by (simp_all add: segment_ok_def b user_range_def seg_dirs_def seg_from_def seg_to_def)
qed

lemma fork_demo_memory: "mm_inv (\<lambda>_. 0) fork_demo" "child_free 2 fork_demo" "free_frames fork_demo = 1534"
proof -
  have m: "pm fork_demo = pm mm_demo" "mem_map fork_demo = mem_map mm_demo" by (simp_all add: fork_demo_def)
  show "mm_inv (\<lambda>_. 0) fork_demo" using mm_demo_facts(1) mm_same(3) [OF m] by simp
  show "child_free 2 fork_demo"
    unfolding child_free_def fork_demo_segment m using mm_demo_facts(4,5) by simp
  have "{i. i < PAGING_PAGES \<and> mem_map mm_demo i = 0} = {..<1534}" unfolding mm_demo_facts(4) by (auto simp: PAGING_PAGES_eq)
  then show "free_frames fork_demo = 1534" by (simp add: free_frames_def m)
qed

theorem copy_process_witness:
  "mm_inv (\<lambda>_. 0) fork_demo \<and> segment_ok 2 fork_demo \<and> child_free 2 fork_demo \<and>
   (\<exists>i t. copy_process 2 demo_regs fork_demo = Ok 7 t \<and> i < PAGING_PAGES \<and> mm_inv ((\<lambda>_. 0)(i := 1)) t \<and>
      forked 2 (unat (frame i)) demo_regs fork_demo t \<and> copied 1 16 32 fork_demo t)"
proof -
  have u: "\<And>i. i < PAGING_PAGES \<Longrightarrow> mem_map fork_demo i = 0 \<Longrightarrow> current fork_demo \<noteq> unat (frame i)"
    by (simp add: unat_frame fork_demo_def)
  have l: "last_pid fork_demo = 7" by (simp add: fork_demo_def)
  note c = copy_process_ok [OF fork_demo_memory(1) fork_demo_segment(3) fork_demo_memory(2) u, of demo_regs, unfolded fork_demo_segment fork_demo_memory(3) l]
  have no: "\<not> (1534 :: nat) \<le> 1" by simp
  from c no obtain i t where "copy_process 2 demo_regs fork_demo = Ok 7 t" "i < PAGING_PAGES" "mm_inv ((\<lambda>_. 0)(i := 1)) t"
    "forked 2 (unat (frame i)) demo_regs fork_demo t" "copied 1 16 32 fork_demo t" by blast
  then show ?thesis using fork_demo_memory(1,2) fork_demo_segment(3) by blast
qed

end
