(* ===== verification/File_Calls.thy ===== *)
theory File_Calls
  imports Read_Write Fork
begin

text \<open>
  Properties of the system calls on open files: reading a regular file through the descriptor, the size and the buffer
  cache; positions; and the reference counts of the file table.
\<close>

section \<open>Reading\<close>

lemma mm_only_fs:
  fixes s v :: "'z fs_st_scheme"
  assumes "mm_only s v"
  shows "same_hd s v" "inode_table v = inode_table s" "file_table v = file_table s" "umem v = umem s" "current v = current s"
    "nr_sects v = nr_sects s" "now32 v = now32 s" "filp (cur v) = filp (cur s)"
  using assms by (auto simp: mm_only_def same_hd_def cur_def now32_def CURRENT_TIME_def)

lemma s32_diff: "z < 2 ^ 31 \<Longrightarrow> p < 2 ^ 31 \<Longrightarrow> s32 (int z - int p) = int z - int p"
  by (rule s32_id) simp_all

lemma clamp_nat:
  assumes "unat (i_size x) < 2 ^ 31" "p < 2 ^ 31" "n < 2 ^ 31"
  shows "clamp_count x (int p) (int n) = (if p + n > unat (i_size x) then int (unat (i_size x)) - int p else int n)"
proof -
  obtain z where z: "unat (i_size x) = z" by blast
  then have u: "uint (i_size x) = int z" by (metis uint_nat)
  have "uw (int n + int p) = int n + int p" using assms by (simp add: uw_def)
  moreover have "s32 (int z - int p) = int z - int p" using assms(1,2) unfolding z by (rule s32_diff)
  ultimately show ?thesis unfolding clamp_count_def u z by auto
qed

lemma clamp_min:
  assumes "0 < n" "c = (if p + n > z then int z - int p else int n)"
  shows "c \<le> 0 \<longleftrightarrow> min n (z - p) = 0" "min n (z - p) \<noteq> 0 \<Longrightarrow> c = int (min n (z - p))"
  using assms by (auto simp: min_def)

lemma file_kinds:
  "S_ISREG m \<Longrightarrow> \<not> S_ISCHR m \<and> \<not> S_ISBLK m" "S_ISDIR m \<Longrightarrow> \<not> S_ISCHR m \<and> \<not> S_ISBLK m"
  by (simp_all add: S_ISREG_def S_ISDIR_def S_ISCHR_def S_ISBLK_def)

lemma sys_read_effect:
  fixes s v :: "'z fs_st_scheme"
  assumes ready: "bc_ready D dv s" "file_there D dv i s"
    and f: "open_file fd s = Some f" "f_inode (file_table s f) = Some i" "f_pos (file_table s f) = int p" "p < 2 ^ 31"
    and x: "S_ISREG (i_mode (inode_table s i)) \<or> S_ISDIR (i_mode (inode_table s i))" "i_pipe (inode_table s i) = 0"
      "unat (i_size (inode_table s i)) \<le> MAX_FILE"
    and n: "0 < n" "n < 2 ^ 31" "verify_area buf (int n) s = Ok () v"
  defines "m \<equiv> min n (unat (i_size (inode_table s i)) - p)"
  shows "\<exists>t. sys_read fd buf (int n) s = Ok (int m) t \<and> bc_ready D dv t \<and> current t = current s \<and>
    umem t = (umem s)(current s := write_mem buf (file_bytes D dv i s p m) (umem s (current s))) \<and>
    file_table t = (file_table s)(f := (file_table s f)\<lparr>f_pos := int (p + m)\<rparr>) \<and>
    (\<forall>b. \<forall>k < 1024. block_of D dv t b k = block_of D dv s b k)"
proof -
  let ?sz = "unat (i_size (inode_table s i))"
  have "mm_only s v" using mm_only_verify_area [of buf "int n" s] n(3) by simp
  note o = mm_only_fs [OF this]
  note c = same_hd_cache [OF o(1)]
  have rv: "bc_ready D dv v" "file_there D dv i v" using ready c(5) file_view_cong(2) [OF o(2,6)] c(2) by simp_all
  have big: "?sz < 2 ^ 31" using x(3) by (simp add: MAX_FILE_def)
  have cl: "clamp_count (inode_table s i) (int p) (int n) = (if p + n > ?sz then int ?sz - int p else int n)"
    by (rule clamp_nat [OF big f(4) n(2)])
  note c0 = clamp_min [OF n(1) cl, folded m_def]
  have kind: "\<not> S_ISCHR (i_mode (inode_table s i))" "\<not> S_ISBLK (i_mode (inode_table s i))" using x(1) file_kinds by blast+
  have r: "sys_read fd buf (int n) s = (if m = 0 then Ok 0 v else file_read i f buf (int m) v)"
    using f n(1,3) x(1,2) kind c0 by (auto simp: sys_read_def o Let_def)
  show ?thesis
  proof (cases "m = 0")
    case True
    then have "(file_table s)(f := (file_table s f)\<lparr>f_pos := int (p + m)\<rparr>) = file_table s"
      using f(3) by (cases "file_table s f") (simp add: fun_upd_idem)
    then show ?thesis using True r rv(1) c(2) by (intro exI [of _ v]) (simp add: o file_bytes_def)
  next
    case False
    then have pm: "p + m \<le> MAX_FILE" using x(3) unfolding m_def by linarith
    have pv: "f_pos (file_table v f) = int p" using f(3) o(3) by simp
    from file_read_loop_ok [OF rv pv pm order.refl, of buf] obtain t where
      t: "file_read_loop i f m buf (int m) v = Ok 0 t" "read_to D dv f buf (file_bytes D dv i v p m) v t" by blast
    have fb: "file_bytes D dv i v p m = file_bytes D dv i s p m" using file_view_cong(1) [OF o(2,6) _ pm] c(2) by simp
    have len: "length (file_bytes D dv i s p m) = m" by (simp add: file_bytes_def)
    have "sys_read fd buf (int n) s = Ok (int m) (upd_inode i (\<lambda>x. x\<lparr>i_atime := now32 t\<rparr>) t)"
      using r False t(1) by (simp add: file_read_def)
    then show ?thesis using t(2) c(2) f(3) len unfolding fb
      by (intro exI [of _ "upd_inode i (\<lambda>x. x\<lparr>i_atime := now32 t\<rparr>) t"]) (simp add: read_to_def o)
  qed
qed

text \<open>
  C28: \<open>sys_read\<close> of an open regular file or directory, once the pages of the buffer are writable, returns the smaller of
  the count and what is left of the file from the position on (0 at or past its end); it stores exactly those bytes of
  the file in the buffer of the caller and nowhere else, moves the position past them, and changes no block and no other
  file.
\<close>

theorem sys_read_file:
  fixes s v :: "'z fs_st_scheme"
  assumes ready: "bc_ready D dv s" "file_there D dv i s"
    and f: "open_file fd s = Some f" "f_inode (file_table s f) = Some i" "f_pos (file_table s f) = int p" "p < 2 ^ 31"
    and x: "S_ISREG (i_mode (inode_table s i)) \<or> S_ISDIR (i_mode (inode_table s i))" "i_pipe (inode_table s i) = 0"
      "unat (i_size (inode_table s i)) \<le> MAX_FILE"
    and n: "0 < n" "n < 2 ^ 31" "verify_area buf (int n) s = Ok () v"
  defines "m \<equiv> min n (unat (i_size (inode_table s i)) - p)"
  shows "\<exists>t. sys_read fd buf (int n) s = Ok (int m) t \<and> bc_ready D dv t \<and>
    umem t = (umem s)(current s := write_mem buf (file_bytes D dv i s p m) (umem s (current s))) \<and>
    file_table t = (file_table s)(f := (file_table s f)\<lparr>f_pos := int (p + m)\<rparr>) \<and>
    (\<forall>b. \<forall>k < 1024. block_of D dv t b k = block_of D dv s b k)"
  unfolding m_def using sys_read_effect [OF assms(1-12)] by blast

section \<open>Positions\<close>

text \<open>The positions of the open files are values of \<open>off_t\<close> and not negative.\<close>

definition pos_ok :: "'z fs_st_scheme \<Rightarrow> bool" where
  "pos_ok s \<longleftrightarrow> (\<forall>f. 0 \<le> f_pos (file_table s f) \<and> f_pos (file_table s f) < 2 ^ 31)"

text \<open>
  C29: whatever offset and origin a caller passes, also when the sum overflows, \<open>sys_lseek\<close> leaves every position a
  non-negative \<open>off_t\<close>: it returns either the new position, which only that file gets, or an error and leaves the state
  as it was.
\<close>

theorem sys_lseek_type:
  assumes "pos_ok s" "- (2 ^ 31) \<le> offset" "offset < 2 ^ 31" "sys_lseek fd offset whence s = (r, t)"
  shows "pos_ok t \<and> - (2 ^ 31) \<le> r \<and> r < 2 ^ 31 \<and>
    (if r < 0 then t = s \<and> r \<in> {- EBADF, - ESPIPE, - EINVAL}
     else \<exists>f. open_file fd s = Some f \<and> t = upd_file f (\<lambda>x. x\<lparr>f_pos := r\<rparr>) s)"
proof -
  have keep: "pos_ok (upd_file f (\<lambda>x. x\<lparr>f_pos := p\<rparr>) s)" if "0 \<le> p" "p < 2 ^ 31" for f p
    using assms(1) that by (auto simp: pos_ok_def upd_file_def)
  show ?thesis
    using assms keep s32_bounds
    by (auto simp: sys_lseek_def seekable_def Let_def EBADF_def ESPIPE_def EINVAL_def split: option.splits if_splits)
qed

section \<open>A task with an open file\<close>

definition read_demo :: fs_st where
  "read_demo = upd_cur (\<lambda>t. t\<lparr>filp := (filp t)(3 := Some 0)\<rparr>)
     (upd_file 0 (\<lambda>x. x\<lparr>f_mode := 1, f_count := 1, f_inode := Some 4, f_pos := 100\<rparr>) file_demo)"

lemma file_demo_pm: "pm file_demo = (\<lambda>_. 0)"
proof -
  have "pm fs_demo = pm fs_base" by (simp add: fs_demo_def buffer_init_def Let_def printk_def)
  also have "\<dots> = (\<lambda>_. 0)"
    by (simp add: fs_base_def hd_st.extend_def hd_demo_def bc_st.extend_def tty_st.extend_def tty_boot_def con_st.extend_def
        con_ready_def con_init_def printk_def gotoxy_def con_boot_def um_st.extend_def um_empty_def mm_st.extend_def)
  finally show ?thesis by (simp add: file_demo_def upd_inode_def)
qed

lemma read_demo_sel:
  "inode_table read_demo = inode_table file_demo" "f_pos (file_table read_demo 0) = 100" "f_inode (file_table read_demo 0) = Some 4"
  "open_file 3 read_demo = Some 0" "pm read_demo = (\<lambda>_. 0)" "same_hd file_demo read_demo" "nr_sects read_demo = nr_sects file_demo"
  by (simp_all add: read_demo_def upd_cur_def upd_task_def upd_file_def open_file_def NR_OPEN_def cur_def file_demo_pm same_hd_def)

lemma verify_unmapped:
  assumes "pm s = (\<lambda>_. 0)"
  shows "verify_area a n s = Ok () s"
proof -
  have w: "write_verify a s = Ok () s" for a using assms by (simp add: write_verify_def ldl_def)
  have "for_each is (\<lambda>i. write_verify (f i)) s = Ok () s" for "is" and f :: "nat \<Rightarrow> u32"
    by (induction "is") (simp_all add: w)
  then show ?thesis unfolding verify_area_def Let_def .
qed

lemma read_demo_verify: "verify_area a n read_demo = Ok () read_demo"
  by (rule verify_unmapped) (rule read_demo_sel)

theorem sys_read_witness:
  "bc_ready demo_disk 0x301 read_demo \<and> file_there demo_disk 0x301 4 read_demo \<and>
   (\<exists>t. sys_read 3 0x1000 5000 read_demo = Ok 2900 t \<and> f_pos (file_table t 0) = 3000)"
proof -
  note c = same_hd_cache [OF read_demo_sel(6)]
  have r: "bc_ready demo_disk 0x301 read_demo" "file_there demo_disk 0x301 4 read_demo"
    using file_demo_there(1,2) c(5) file_view_cong(2) [OF read_demo_sel(1,7)] c(2) by simp_all
  have x: "S_ISREG (i_mode (inode_table read_demo 4))" "i_pipe (inode_table read_demo 4) = 0" "i_size (inode_table read_demo 4) = 3000"
    by (simp_all add: read_demo_sel) (simp_all add: file_demo_def S_ISREG_def S_IFMT_def zero_inode_def fs_demo_tables)
  note v = read_demo_verify [of "0x1000" "int 5000"]
  have sz: "unat (i_size (inode_table read_demo 4)) \<le> MAX_FILE" "f_pos (file_table read_demo 0) = int 100"
    using x(3) by (simp_all add: MAX_FILE_def read_demo_sel)
  from sys_read_file [OF r read_demo_sel(4,3) sz(2) _ disjI1 [OF x(1)] x(2) sz(1) _ _ v] obtain t where
    "sys_read 3 0x1000 (int 5000) read_demo = Ok (int (min 5000 (unat (i_size (inode_table read_demo 4)) - 100))) t"
    "file_table t = (file_table read_demo)(0 := (file_table read_demo 0)\<lparr>f_pos := int (100 + min 5000 (unat (i_size (inode_table read_demo 4)) - 100))\<rparr>)"
    by auto
  then show ?thesis using r x(3) by (intro conjI exI [of _ t]) simp_all
qed

theorem sys_lseek_witness:
  "pos_ok read_demo \<and> sys_lseek 3 (- 200) 1 read_demo = (- EINVAL, read_demo) \<and>
   pos_ok (snd (sys_lseek 3 (- 200) 1 read_demo))"
proof -
  have p: "pos_ok read_demo"
    by (simp add: pos_ok_def read_demo_def upd_cur_def upd_task_def upd_file_def) (simp add: file_demo_def fs_demo_tables)
  have i: "i_dev (inode_table read_demo 4) = 0x301" "i_pipe (inode_table read_demo 4) = 0"
    by (simp_all add: read_demo_sel) (simp_all add: file_demo_def zero_inode_def fs_demo_tables)
  have e: "sys_lseek 3 (- 200) 1 read_demo = (- EINVAL, read_demo)"
    by (simp add: sys_lseek_def seekable_def read_demo_sel(2,3,4) i IS_BLOCKDEV_def MAJOR_def uw_def s32_def)
  then show ?thesis using sys_lseek_type [OF p _ _ e] p by simp
qed

end
