(* ===== verification/File_Refs.thy ===== *)
theory File_Refs
  imports File_Calls
begin

text \<open>
  The reference counts of the file table. \<open>refs_ok\<close> says that the count of every file is the number of descriptors of the
  tasks in the task table that name it; duplicating a descriptor, closing one and \<open>fork\<close> keep it.
\<close>

definition tasks :: "'z sched_st_scheme \<Rightarrow> nat set" where
  "tasks s = {task s i | i. i < NR_TASKS \<and> task s i \<noteq> 0}"

definition refs_ok :: "'z fs_st_scheme \<Rightarrow> bool" where
  "refs_ok s \<longleftrightarrow> (\<forall>f. unat (f_count (file_table s f)) = (\<Sum>p \<in> tasks s. file_refs (ts s p) f))"

lemma finite_tasks [simp]: "finite (tasks s)"
proof -
  have "tasks s \<subseteq> task s ` {..<NR_TASKS}" by (auto simp: tasks_def)
  then show ?thesis by (rule finite_subset) simp
qed

lemma file_refs_card: "file_refs t f = card {i. i < NR_OPEN \<and> filp t i = Some f}"
  unfolding file_refs_def length_filter_conv_card by (rule arg_cong [of _ _ card]) auto

lemma file_refs_cong: "filp t = filp u \<Longrightarrow> file_refs t = file_refs u"
  by (intro ext) (simp add: file_refs_def)

lemma file_refs_add:
  assumes "filp u = (filp t)(a := Some f)" "filp t a = None" "a < NR_OPEN"
  shows "file_refs u g = file_refs t g + of_bool (g = f)"
proof (cases "g = f")
  case True
  have "{i. i < NR_OPEN \<and> filp u i = Some g} = insert a {i. i < NR_OPEN \<and> filp t i = Some g}" using assms True by auto
  moreover have "a \<notin> {i. i < NR_OPEN \<and> filp t i = Some g}" using assms(2) by simp
  ultimately show ?thesis using True by (simp add: file_refs_card)
next
  case False
  then have "{i. i < NR_OPEN \<and> filp u i = Some g} = {i. i < NR_OPEN \<and> filp t i = Some g}" using assms by auto
  then show ?thesis using False by (simp add: file_refs_card)
qed

lemma file_refs_pos: "filp t a = Some f \<Longrightarrow> a < NR_OPEN \<Longrightarrow> 0 < file_refs t f"
  by (auto simp: file_refs_card card_gt_0_iff)

lemma file_refs_le: "file_refs t f \<le> NR_OPEN"
  unfolding file_refs_def by (rule order_trans [OF length_filter_le]) simp

text \<open>The sum changes with the descriptors of one task.\<close>

lemma refs_one_task:
  assumes p: "p \<in> tasks s" and q: "\<And>q. q \<noteq> p \<Longrightarrow> filp (ts t q) = filp (ts s q)" and k: "tasks t = tasks s"
  shows "(\<Sum>q \<in> tasks t. file_refs (ts t q) f) + file_refs (ts s p) f = (\<Sum>q \<in> tasks s. file_refs (ts s q) f) + file_refs (ts t p) f"
proof -
  have "(\<Sum>q \<in> tasks s - {p}. file_refs (ts t q) f) = (\<Sum>q \<in> tasks s - {p}. file_refs (ts s q) f)"
    using file_refs_cong [OF q] by (intro sum.cong) auto
  then show ?thesis unfolding k using p by (simp add: sum.remove [of _ p])
qed

lemma refs_bound: "refs_ok s \<Longrightarrow> current s \<in> tasks s \<Longrightarrow> filp (cur s) a = Some f \<Longrightarrow> a < NR_OPEN \<Longrightarrow> f_count (file_table s f) \<noteq> 0"
proof -
  assume a: "refs_ok s" "current s \<in> tasks s" "filp (cur s) a = Some f" "a < NR_OPEN"
  have "0 < file_refs (ts s (current s)) f" using file_refs_pos a(3,4) by (simp add: cur_def)
  also have "\<dots> \<le> (\<Sum>p \<in> tasks s. file_refs (ts s p) f)" using a(2) by (intro member_le_sum) auto
  finally have "0 < unat (f_count (file_table s f))" using a(1) by (simp add: refs_ok_def)
  then show ?thesis by auto
qed

section \<open>Duplicating and closing\<close>

definition dup_state :: "nat \<Rightarrow> nat \<Rightarrow> 'z fs_st_scheme \<Rightarrow> 'z fs_st_scheme" where
  "dup_state a f s = upd_file f (\<lambda>x. x\<lparr>f_count := f_count x + 1\<rparr>) (set_filp a (Some f) (clear_cloexec a s))"

lemma dup_state_sel:
  "task (dup_state a f s) = task s" "current (dup_state a f s) = current s"
  "file_table (dup_state a f s) = (file_table s)(f := (file_table s f)\<lparr>f_count := f_count (file_table s f) + 1\<rparr>)"
  "filp (ts (dup_state a f s) p) = (if p = current s then (filp (cur s))(a := Some f) else filp (ts s p))"
  by (simp_all add: dup_state_def set_filp_def clear_cloexec_def upd_cur_def upd_task_def upd_file_def cur_def)

lemma dup_refs:
  assumes ok: "refs_ok s" and cu: "current s \<in> tasks s" and a: "filp (cur s) a = None" "a < NR_OPEN"
    and b: "unat (f_count (file_table s f)) < 65535"
  shows "refs_ok (dup_state a f s)"
  unfolding refs_ok_def
proof
  fix g
  let ?t = "dup_state a f s"
  have k: "tasks ?t = tasks s" by (simp add: tasks_def dup_state_sel)
  have "filp (ts ?t q) = filp (ts s q)" if "q \<noteq> current s" for q using that by (simp add: dup_state_sel)
  note one = refs_one_task [OF cu this k, of g]
  have "file_refs (ts ?t (current s)) g = file_refs (ts s (current s)) g + of_bool (g = f)"
    using a by (intro file_refs_add [of _ _ a]) (simp_all add: dup_state_sel cur_def)
  then have "(\<Sum>q \<in> tasks ?t. file_refs (ts ?t q) g) = (\<Sum>q \<in> tasks s. file_refs (ts s q) g) + of_bool (g = f)" using one by simp
  then show "unat (f_count (file_table ?t g)) = (\<Sum>q \<in> tasks ?t. file_refs (ts ?t q) g)"
    using ok b unat_u16_inc [of "f_count (file_table s f)"] by (auto simp: refs_ok_def dup_state_sel)
qed

lemma close_dup:
  assumes a: "filp (cur s) a = None" "a < NR_OPEN" and b: "f_count (file_table s f) \<noteq> 0" "unat (f_count (file_table s f)) < 65535"
  shows "\<exists>u. sys_close a (dup_state a f s) = Ok 0 u \<and> task u = task s \<and> current u = current s \<and> file_table u = file_table s \<and>
    (\<forall>p. filp (ts u p) = filp (ts s p))"
proof -
  let ?t = "dup_state a f s" and ?c = "f_count (file_table s f)"
  let ?u = "upd_file f (\<lambda>x. x\<lparr>f_count := f_count x - 1\<rparr>) (set_filp a None (clear_cloexec a ?t))"
  have "unat (?c + 1) = unat ?c + 1" using b(2) by (rule unat_u16_inc)
  then have c: "?c + 1 \<noteq> 0" by auto
  have "filp (cur (clear_cloexec a ?t)) a = Some f" "file_table (set_filp a None (clear_cloexec a ?t)) = file_table ?t"
    using dup_state_sel(2,4) [of a f s] by (simp_all add: cur_def clear_cloexec_def set_filp_def upd_cur_def upd_task_def)
  then have "sys_close a ?t = Ok 0 ?u"
    using a(2) b(1) c by (simp add: sys_close_def Let_def dup_state_sel upd_file_def)
  moreover have "file_table ?u = file_table s"
    by (simp add: upd_file_def set_filp_def clear_cloexec_def upd_cur_def upd_task_def dup_state_sel)
  moreover have "filp (ts ?u p) = filp (ts s p)" for p
    using a(1) dup_state_sel(2,4) [of a f s] by (auto simp: upd_file_def set_filp_def clear_cloexec_def upd_cur_def upd_task_def cur_def)
  moreover have "task ?u = task s" "current ?u = current s"
    by (simp_all add: upd_file_def set_filp_def clear_cloexec_def upd_cur_def upd_task_def dup_state_sel)
  ultimately show ?thesis by blast
qed

text \<open>
  C30: \<open>dupfd\<close> keeps the reference counts of the file table exact. It returns an error and changes nothing, or the lowest
  free descriptor from the argument on, which then names the same file; closing that descriptor again with \<open>sys_close\<close>
  gives back the descriptors and the file table as they were.
\<close>

theorem dupfd_refs:
  assumes ok: "refs_ok s" and cu: "current s \<in> tasks s" and b: "\<And>f. unat (f_count (file_table s f)) < 65535"
    and d: "dupfd fd arg s = (r, t)"
  shows "refs_ok t \<and> (if r < 0 then t = s else
    (\<exists>f a. r = int a \<and> filp (cur s) fd = Some f \<and> arg \<le> a \<and> a < NR_OPEN \<and> filp (cur s) a = None \<and>
       (\<forall>c. arg \<le> c \<longrightarrow> c < a \<longrightarrow> filp (cur s) c \<noteq> None) \<and> filp (cur t) = (filp (cur s))(a := Some f) \<and>
       (\<exists>u. sys_close a t = Ok 0 u \<and> refs_ok u \<and> file_table u = file_table s \<and> filp (cur u) = filp (cur s))))"
proof (cases "r < 0")
  case True
  then have "t = s" using d by (auto simp: dupfd_def split: if_splits option.splits)
  then show ?thesis using True ok by simp
next
  case False
  then obtain f a where f: "filp (cur s) fd = Some f" "fd < NR_OPEN" "find (\<lambda>a. filp (cur s) a = None) [arg..<NR_OPEN] = Some a"
    "r = int a" "t = dup_state a f s"
    using d by (auto simp: dupfd_def dup_state_def EBADF_def EINVAL_def EMFILE_def split: if_splits option.splits)
  have a: "arg \<le> a" "a < NR_OPEN" "filp (cur s) a = None" "\<forall>c. arg \<le> c \<longrightarrow> c < a \<longrightarrow> filp (cur s) c \<noteq> None"
    using f(3) unfolding find_upt_first by auto
  from close_dup [OF a(3,2) refs_bound [OF ok cu f(1,2)] b] obtain u where
    u: "sys_close a t = Ok 0 u" "task u = task s" "current u = current s" "file_table u = file_table s" "\<And>p. filp (ts u p) = filp (ts s p)"
    unfolding f(5) by blast
  have "tasks u = tasks s" by (simp add: tasks_def u)
  then have "refs_ok u" using ok file_refs_cong [OF u(5)] by (simp add: refs_ok_def u)
  moreover have "refs_ok t" unfolding f(5) by (rule dup_refs [OF ok cu a(3,2) b])
  moreover have "filp (cur t) = (filp (cur s))(a := Some f)" using dup_state_sel(2,4) [of a f s] by (simp add: f(5) cur_def)
  moreover have "filp (cur u) = filp (cur s)" using u(3,5) by (simp add: cur_def)
  ultimately show ?thesis using False f(1,4) a u(1,4) by auto
qed

section \<open>Fork\<close>

lemma forked_refs:
  fixes s t :: "'z proc_st_scheme"
  assumes ok: "refs_ok s" and cu: "current s \<in> tasks s" and nr: "nr < NR_TASKS" "task s nr = 0" and p: "p \<noteq> 0" "p \<notin> tasks s"
    and b: "\<And>f. unat (f_count (file_table s f)) + 20 < 65536" and f: "forked nr p r s t"
  shows "refs_ok t"
  unfolding refs_ok_def
proof
  fix g
  have tk: "task t = (task s)(nr := p)" and other: "\<And>q. q \<noteq> p \<Longrightarrow> ts t q = ts s q" and child: "filp (ts t p) = filp (cur s)"
    and cnt: "f_count (file_table t g) = f_count (file_table s g) + of_nat (file_refs (cur s) g)"
    using f by (auto simp: forked_def Let_def)
  have "x \<in> tasks t \<longleftrightarrow> x = p \<or> x \<in> tasks s" for x
    unfolding tasks_def mem_Collect_eq tk using nr p(1) by (metis fun_upd_apply)
  then have "tasks t = insert p (tasks s)" by blast
  moreover have "(\<Sum>q \<in> tasks s. file_refs (ts t q) g) = (\<Sum>q \<in> tasks s. file_refs (ts s q) g)"
    by (rule sum.cong [OF refl]) (metis other p(2))
  ultimately have "(\<Sum>q \<in> tasks t. file_refs (ts t q) g) = file_refs (cur s) g + (\<Sum>q \<in> tasks s. file_refs (ts s q) g)"
    using p(2) file_refs_cong [OF child] by simp
  moreover have "unat (f_count (file_table t g)) = unat (f_count (file_table s g)) + file_refs (cur s) g"
  proof -
    have "file_refs (cur s) g \<le> 20" using file_refs_le [of "cur s" g] by (simp add: NR_OPEN_def)
    then have "unat (of_nat (file_refs (cur s) g) :: u16) = file_refs (cur s) g" by (simp add: unat_of_nat)
    then show ?thesis using b [of g] \<open>file_refs (cur s) g \<le> 20\<close> by (simp add: cnt unat_plus_if')
  qed
  ultimately show "unat (f_count (file_table t g)) = (\<Sum>q \<in> tasks t. file_refs (ts t q) g)" using ok by (simp add: refs_ok_def)
qed

text \<open>
  C31: \<open>copy_process\<close> returns under the conditions of a fork, and whether it makes a child or runs out of memory the
  reference counts of the file table are exact afterwards.
\<close>

theorem fork_refs:
  fixes s :: "'z proc_st_scheme"
  assumes mem: "mm_inv ext s" "segment_ok nr s" "child_free nr s" and ok: "refs_ok s" and cu: "current s \<in> tasks s"
    and nr: "nr < NR_TASKS" "task s nr = 0"
    and used: "\<And>p i. p \<in> tasks s \<Longrightarrow> i < PAGING_PAGES \<Longrightarrow> mem_map s i = 0 \<Longrightarrow> p \<noteq> unat (frame i)"
    and b: "\<And>f. unat (f_count (file_table s f)) + 20 < 65536"
  shows "\<exists>e t. copy_process nr r s = Ok e t \<and> refs_ok t"
proof (rule disjE [OF copy_process_forks [OF mem, of r]], goal_cases)
  case (1 i)
  then show ?case using used cu by blast
next
  case 2
  then show ?case
  proof (elim exE conjE)
    fix i t assume t: "copy_process nr r s = Ok (last_pid s) t" "i < PAGING_PAGES" "mem_map s i = 0" "forked nr (unat (frame i)) r s t"
    have "unat (frame i) \<noteq> 0" "unat (frame i) \<notin> tasks s" using t(2,3) used by (auto simp: unat_frame)
    from forked_refs [OF ok cu nr this b t(4)] t(1) show ?case by blast
  qed
next
  case 3
  then show ?case
  proof (elim exE conjE)
    fix t assume t: "copy_process nr r s = Ok (- EAGAIN) t" "task t = task s" "file_table t = file_table s"
      "\<forall>q. (\<forall>i < PAGING_PAGES. mem_map s i = 0 \<longrightarrow> q \<noteq> unat (frame i)) \<longrightarrow> ts t q = ts s q"
    have "tasks t = tasks s" by (simp add: tasks_def t)
    moreover have "(\<Sum>q \<in> tasks s. file_refs (ts t q) f) = (\<Sum>q \<in> tasks s. file_refs (ts s q) f)" for f
      using used t(4) by (intro sum.cong) auto
    ultimately have "refs_ok t" using ok t(3) by (simp add: refs_ok_def)
    then show ?case using t(1) by blast
  qed
qed

section \<open>One open file\<close>

lemma fork_demo_tasks: "tasks fork_demo = {0x1000, 0x2000}" "current fork_demo = 0x2000" "file_table fork_demo = (file_table fork_demo)(0 := file_table fork_demo 0)"
proof -
  have "task fork_demo = (\<lambda>_. 0)(0 := 0x1000, 1 := 0x2000)" using proc_demo_tasks(1) by (simp add: fork_demo_def)
  then show "tasks fork_demo = {0x1000, 0x2000}" by (auto simp: tasks_def NR_TASKS_def intro: exI [of _ 0] exI [of _ 1])
qed (simp_all add: fork_demo_def)

lemma fork_demo_files:
  "filp (ts fork_demo 0x1000) = (\<lambda>_. None)" "filp (cur fork_demo) = (\<lambda>_. None)(3 := Some 0)" "filp (ts fork_demo 0x2000) = (\<lambda>_. None)(3 := Some 0)"
  "f_count (file_table fork_demo f) = (if f = 0 then 1 else 0)"
proof -
  have "ts fs_demo = ts fs_base" by (simp add: fs_demo_def buffer_init_def Let_def printk_def)
  moreover have "filp (ts fs_base 0x1000) = (\<lambda>_. None)"
    by (simp add: fs_base_def hd_st.extend_def hd_demo_def bc_st.extend_def tty_st.extend_def tty_boot_def con_st.extend_def
        con_ready_def con_init_def printk_def gotoxy_def con_boot_def um_st.extend_def um_empty_def mm_st.extend_def
        mm_empty_def sched_st.extend_def two_tasks_def sched_boot_def INIT_TASK_def)
  ultimately show "filp (ts fork_demo 0x1000) = (\<lambda>_. None)" by (simp add: fork_demo_def proc_demo_def fs_st.extend_def)
  show "filp (cur fork_demo) = (\<lambda>_. None)(3 := Some 0)" "filp (ts fork_demo 0x2000) = (\<lambda>_. None)(3 := Some 0)"
    by (simp_all add: fork_demo_def cur_def)
  show "f_count (file_table fork_demo f) = (if f = 0 then 1 else 0)"
    using fs_demo_tables(4) [of f] by (simp add: fork_demo_def proc_demo_def fs_st.extend_def)
qed

lemma fork_demo_refs: "refs_ok fork_demo"
proof -
  have "file_refs (ts fork_demo 0x1000) f = 0" "file_refs (ts fork_demo 0x2000) f = of_bool (f = 0)" for f
    unfolding file_refs_def fork_demo_files by (simp_all add: NR_OPEN_def upt_rec)
  then show ?thesis by (simp add: refs_ok_def fork_demo_tasks(1) fork_demo_files(4))
qed

theorem dupfd_witness:
  "refs_ok fork_demo \<and> current fork_demo \<in> tasks fork_demo \<and> fst (dupfd 3 2 fork_demo) = 2 \<and> refs_ok (snd (dupfd 3 2 fork_demo))"
proof -
  have c: "current fork_demo \<in> tasks fork_demo" by (simp add: fork_demo_tasks)
  have b: "unat (f_count (file_table fork_demo f)) < 65535" for f by (simp add: fork_demo_files)
  have "fst (dupfd 3 2 fork_demo) = 2" by (simp add: dupfd_def fork_demo_files NR_OPEN_def upt_rec)
  moreover have "refs_ok (snd (dupfd 3 2 fork_demo))"
    using dupfd_refs [OF fork_demo_refs c b prod.collapse [symmetric]] by blast
  ultimately show ?thesis using fork_demo_refs c by blast
qed

theorem fork_refs_witness:
  "mm_inv (\<lambda>_. 0) fork_demo \<and> segment_ok 2 fork_demo \<and> child_free 2 fork_demo \<and> refs_ok fork_demo \<and>
   (\<exists>e t. copy_process 2 demo_regs fork_demo = Ok e t \<and> refs_ok t)"
proof -
  have c: "current fork_demo \<in> tasks fork_demo" by (simp add: fork_demo_tasks)
  have u: "p \<noteq> unat (frame i)" if "p \<in> tasks fork_demo" "i < PAGING_PAGES" for p i using that by (auto simp: fork_demo_tasks unat_frame)
  have n: "task fork_demo 2 = 0" using proc_demo_tasks(1) by (simp add: fork_demo_def)
  have b: "unat (f_count (file_table fork_demo f)) + 20 < 65536" for f by (simp add: fork_demo_files)
  from fork_refs [OF fork_demo_memory(1) fork_demo_segment(3) fork_demo_memory(2) fork_demo_refs c _ n u b, of demo_regs]
  show ?thesis using fork_demo_memory(1,2) fork_demo_segment(3) fork_demo_refs by (simp add: NR_TASKS_def)
qed

end
