(* ===== verification/File_Write.thy ===== *)
theory File_Write
  imports File_Calls
begin

text \<open>
  Writing a regular file over blocks that it has: \<open>file_write\<close> of \<open>fs/file_dev.c\<close> on the part of a file that the direct
  zones hold. The effect is stated on the view of the disk through the cache and on the bytes of the file.
\<close>

section \<open>One block\<close>

lemma copy_from_user_eq:
  "off + n \<le> 1024 \<Longrightarrow> copy_from_user b off n buf s =
     upd_bh b (\<lambda>x. x\<lparr>b_data := \<lambda>k. if off \<le> k \<and> k < off + n then get_fs_byte (buf + of_nat (k - off)) s else b_data x k\<rparr>) s"
proof (induction n)
  case 0
  have e: "(\<lambda>k. if off \<le> k \<and> k < off + 0 then f k else d k) = d" for f d :: "nat \<Rightarrow> u8" by (auto simp: fun_eq_iff)
  have x: "x\<lparr>b_data := b_data x\<rparr> = x" for x :: buffer_head by (cases x) (simp only: buffer_head.simps)
  have "upd_bh b (\<lambda>x. x) s = s" by (simp add: upd_bh_def)
  then show ?case unfolding e x by (simp add: copy_from_user_def)
next
  case (Suc n)
  let ?t = "copy_from_user b off n buf s"
  have e: "?t = upd_bh b (\<lambda>x. x\<lparr>b_data := \<lambda>k. if off \<le> k \<and> k < off + n then get_fs_byte (buf + of_nat (k - off)) s else b_data x k\<rparr>) s"
    using Suc by simp
  have g: "get_fs_byte a ?t = get_fs_byte a s" for a unfolding e by (simp add: get_fs_byte_def upd_bh_def)
  have "copy_from_user b off (Suc n) buf s = data_put b (off + n) (get_fs_byte (buf + of_nat n) ?t) ?t" by (simp add: copy_from_user_def)
  also have "\<dots> = upd_bh b (\<lambda>x. x\<lparr>b_data := (b_data x)(off + n := get_fs_byte (buf + of_nat n) s)\<rparr>) ?t"
    using Suc.prems unfolding g by (simp add: data_put_def BLOCK_SIZE_def)
  finally show ?case unfolding e
    by (auto simp: upd_bh_def fun_eq_iff less_Suc_eq intro!: arg_cong [of _ _ "\<lambda>B. s\<lparr>bh := B\<rparr>"] arg_cong [of _ _ "\<lambda>d. (bh s b)\<lparr>b_data := d\<rparr>"])
qed

definition grown :: "nat \<Rightarrow> m_inode \<Rightarrow> m_inode" where
  "grown q x = (if unat (i_size x) < q then x\<lparr>i_size := of_nat q, i_dirt := 1\<rparr> else x)"

lemma upd_inode_bh: "upd_bh b g (upd_inode i f s) = upd_inode i f (upd_bh b g s)"
  by (cases s) (simp add: upd_inode_def upd_bh_def)

lemma upd_bh_data_dirt:
  "upd_bh b (\<lambda>x. x\<lparr>b_data := d (b_data x)\<rparr>) (upd_bh b (\<lambda>x. x\<lparr>b_dirt := v\<rparr>) t) = upd_bh b (\<lambda>x. x\<lparr>b_data := d (b_data (bh t b)), b_dirt := v\<rparr>) t"
  by (cases "bh t b") (simp add: upd_bh_def)

lemma grown_sel [simp]: "i_zone (grown q x) = i_zone x" "i_dev (grown q x) = i_dev x" "i_mode (grown q x) = i_mode x"
  by (simp_all add: grown_def)

lemma unat_small: "q < 2 ^ 32 \<Longrightarrow> unat (of_nat q :: u32) = q"
  by (simp add: unat_of_nat)

lemma grown_grown: "a \<le> b \<Longrightarrow> b < 2 ^ 32 \<Longrightarrow> grown b (grown a x) = grown b x"
  using unat_small [of a] by (auto simp: grown_def)

text \<open>What a step of the loop leaves alone, and the view of the disk after it.\<close>

definition wrote :: "(bool \<Rightarrow> nat \<Rightarrow> nat \<Rightarrow> u8) \<Rightarrow> u16 \<Rightarrow> nat \<Rightarrow> (m_inode \<Rightarrow> m_inode) \<Rightarrow> ((u16 \<Rightarrow> nat \<Rightarrow> u8) \<Rightarrow> u16 \<Rightarrow> nat \<Rightarrow> u8) \<Rightarrow>
    'z fs_st_scheme \<Rightarrow> 'z fs_st_scheme \<Rightarrow> bool" where
  "wrote D dv i g w s t \<longleftrightarrow> bc_ready D dv t \<and> umem t = umem s \<and> current t = current s \<and> ts t = ts s \<and> nr_sects t = nr_sects s \<and>
     (\<forall>w. w \<noteq> 4 \<longrightarrow> pm t w = pm s w) \<and> file_table t = file_table s \<and> inode_table t = (inode_table s)(i := g (inode_table s i)) \<and>
     (\<forall>m. \<forall>k < 1024. block_of D dv t m k = w (block_of D dv s) m k)"

definition put_block :: "u16 \<Rightarrow> nat \<Rightarrow> nat \<Rightarrow> (nat \<Rightarrow> u8) \<Rightarrow> (u16 \<Rightarrow> nat \<Rightarrow> u8) \<Rightarrow> u16 \<Rightarrow> nat \<Rightarrow> u8" where
  "put_block z off n src V m k = (if m = z \<and> off \<le> k \<and> k < off + n then src (k - off) else V m k)"

lemma file_write_round:
  fixes s :: "'z fs_st_scheme"
  assumes r: "bc_ready D dv s" and i: "i_dev (inode_table s i) = dv" and p: "p div 1024 < 7" "0 < n"
    and z: "z = i_zone (inode_table s i) (p div 1024)" "z \<noteq> 0" "block_there dv z s" and c: "c = min (1024 - p mod 1024) n"
  shows "\<exists>t. file_write_loop i (Suc rounds) buf (int d) (int p) (int (d + n)) s =
      file_write_loop i rounds (buf + of_nat c) (int (d + c)) (int (p + c)) (int (d + n)) t \<and>
    wrote D dv i (grown (p + c)) (put_block z (p mod 1024) c (\<lambda>k. get_fs_byte (buf + of_nat k) s)) s t"
proof -
  have uz: "uint z \<noteq> 0" using z(2) by (simp add: unsigned_eq_0_iff)
  have cb: "create_block i (int p sdiv 1024) s = Ok (uint z) s"
    using p(1) z(1,2) unfolding pos_sdiv by (simp add: create_block_def do_bmap_def bmap_zone_def)
  obtain b t where t: "bread (uint dv) (uint z) s = Ok (Some b) t" "bc_held D dv z b t" "kept UNIV s t"
    "\<forall>m. \<forall>k < 1024. block_of D dv t m k = block_of D dv s m k" using cache.fetch_there [OF r z(3)] by blast
  note kt = kept_tables [OF t(3)] and ks = kept_sel [OF t(3)]
  let ?off = "p mod 1024" and ?x = "inode_table s i"
  have c1: "?off + c \<le> 1024" "c \<le> n" "c \<le> 1024" using c by auto
  have small: "p + c < 2 ^ 31" using p(1) c1(3) by (simp add: div_less_iff_less_mult)
  have pc: "s32 (int p + int c) = int (p + c)" using small by (subst s32_id) simp_all
  let ?d = "\<lambda>k. if ?off \<le> k \<and> k < ?off + c then get_fs_byte (buf + of_nat (k - ?off)) s else b_data (bh t b) k"
  define t1 where "t1 = upd_inode i (grown (p + c)) (bc_replace b ?d t)"
  have gs: "get_fs_byte a t = get_fs_byte a s" for a using ks(5,7) by (simp add: get_fs_byte_def)
  have gt: "(if uint (i_size (inode_table (upd_bh b f t) i)) < uw (int p + int c)
       then upd_inode i (\<lambda>x. x\<lparr>i_size := word_of_nat p + word_of_nat c, i_dirt := 1\<rparr>) (upd_bh b f t) else upd_bh b f t) =
     upd_inode i (grown (p + c)) (upd_bh b f t)" for f
  proof -
    have "uw (int p + int c) = int (p + c)" using small by (simp add: uw_def)
    moreover have "uint (i_size ?x) = int (unat (i_size ?x))" by (rule uint_nat)
    ultimately have "uint (i_size ?x) < uw (int p + int c) \<longleftrightarrow> unat (i_size ?x) < p + c" by (simp only: of_nat_less_iff)
    moreover have "inode_table (upd_bh b f t) = inode_table s" using kt(1) by (simp add: upd_bh_def)
    ultimately show ?thesis by (auto simp: grown_def upd_inode_def)
  qed
  have cp: "copy_from_user b ?off c buf (upd_inode i (grown (p + c)) (upd_bh b (\<lambda>x. x\<lparr>b_dirt := 1\<rparr>) t)) = t1"
  proof -
    have "get_fs_byte a (upd_inode i f (upd_bh b g t)) = get_fs_byte a s" for a f g by (simp add: get_fs_byte_def upd_inode_def upd_bh_def ks(5,7))
    note g = this
    show ?thesis unfolding copy_from_user_eq [OF c1(1)] t1_def bc_replace_def upd_inode_bh g
      by (simp only: upd_bh_data_dirt [where d = "\<lambda>f k. if ?off \<le> k \<and> k < ?off + c then get_fs_byte (buf + of_nat (k - ?off)) s else f k"])
  qed
  note held = cache.replace_held [OF t(2), of ?d] cache.replace_view [OF t(2), of ?d]
  have h1: "bc_held D dv z b t1" "block_of D dv t1 = block_of D dv (bc_replace b ?d t)" using held(1) by (simp_all add: t1_def)
  then obtain u where u: "brelse (Some b) t1 = Ok () u" "bc_ready D dv u" "kept UNIV t1 u" "block_of D dv u = block_of D dv t1"
    using cache.release_ok by blast
  note ku = kept_tables [OF u(3)] and kv = kept_sel [OF u(3)]
  have m: "min (1024 - int ?off) (int (d + n) - int d) = int c" using c by auto
  have i': "i_dev (inode_table t i) = dv" using i kt(1) by simp
  have "file_write_loop i (Suc rounds) buf (int d) (int p) (int (d + n)) s =
      file_write_loop i rounds (buf + of_nat c) (int (d + c)) (int (p + c)) (int (d + n)) u"
    using p(2) uz t(1) i u(1) cp m pc
    by (simp add: cb [unfolded pos_sdiv] pos_sdiv Let_def gt split del: if_split cong: if_cong)
  moreover have "wrote D dv i (grown (p + c)) (put_block z ?off c (\<lambda>k. get_fs_byte (buf + of_nat k) s)) s u"
    unfolding wrote_def put_block_def
    using u(2,4) h1(2) held(2) t(4) ku kv kt ks cache.contents_view [OF t(2)]
    by (simp add: t1_def bc_replace_def upd_bh_def upd_inode_def)
  ultimately show ?thesis by blast
qed

section \<open>The whole transfer\<close>

text \<open>
  The view after writing \<open>n\<close> bytes \<open>src\<close> at position \<open>p\<close> of a file with the direct zones of \<open>x\<close>: the first zone with a block
  number says at which place of the file the block is.
\<close>

definition zone_index :: "m_inode \<Rightarrow> u16 \<Rightarrow> nat option" where
  "zone_index x m = find (\<lambda>j. i_zone x j = m) [0..<7]"

definition put_file :: "m_inode \<Rightarrow> nat \<Rightarrow> nat \<Rightarrow> (nat \<Rightarrow> u8) \<Rightarrow> (u16 \<Rightarrow> nat \<Rightarrow> u8) \<Rightarrow> u16 \<Rightarrow> nat \<Rightarrow> u8" where
  "put_file x p n src V m k =
     (case zone_index x m of None \<Rightarrow> V m k
      | Some j \<Rightarrow> if p \<le> 1024 * j + k \<and> 1024 * j + k < p + n then src (1024 * j + k - p) else V m k)"

text \<open>The blocks the transfer touches are there and no two of them are one.\<close>

definition zones_ok :: "(u16 \<Rightarrow> bool) \<Rightarrow> m_inode \<Rightarrow> nat \<Rightarrow> nat \<Rightarrow> bool" where
  "zones_ok T x p n \<longleftrightarrow> p + n \<le> 7168 \<and>
     (\<forall>j. p < 1024 * j + 1024 \<longrightarrow> 1024 * j < p + n \<longrightarrow> i_zone x j \<noteq> 0 \<and> T (i_zone x j) \<and>
        (\<forall>l < 7. i_zone x l = i_zone x j \<longrightarrow> l = j))"

lemma zones_ok_mono: "zones_ok T x p n \<Longrightarrow> c \<le> n \<Longrightarrow> zones_ok T x (p + c) (n - c)" "zones_ok T x p n \<Longrightarrow> c \<le> n \<Longrightarrow> zones_ok T x p c"
  by (auto simp: zones_ok_def)

lemma zones_ok_cong: "i_zone x = i_zone y \<Longrightarrow> (\<And>z. T z = U z) \<Longrightarrow> zones_ok T x p n = zones_ok U y p n"
  by (simp add: zones_ok_def)

lemma zone_index_at: "zones_ok T x p n \<Longrightarrow> p < 1024 * j + 1024 \<Longrightarrow> 1024 * j < p + n \<Longrightarrow> zone_index x (i_zone x j) = Some j"
proof -
  assume z: "zones_ok T x p n" "p < 1024 * j + 1024" "1024 * j < p + n"
  then have u: "\<And>l. l < 7 \<Longrightarrow> i_zone x l = i_zone x j \<Longrightarrow> l = j" "j < 7" by (auto simp: zones_ok_def)
  have "\<not> i_zone x l = i_zone x j" if "l < j" for l using u(1) [of l] u(2) that by linarith
  then show ?thesis unfolding zone_index_def find_upt_first using u(2) by simp
qed

lemma put_block_file:
  assumes z: "zones_ok T x p c" and c: "0 < c" "p mod 1024 + c \<le> 1024" and k: "k < 1024"
  shows "put_block (i_zone x (p div 1024)) (p mod 1024) c src V m k = put_file x p c src V m k"
proof -
  define q r where "q = p div 1024" and "r = p mod 1024"
  have p: "p = 1024 * q + r" "r < 1024" by (simp_all add: q_def r_def)
  have at: "zone_index x (i_zone x q) = Some q" using z c(1) p by (intro zone_index_at) auto
  have one: "p \<le> 1024 * j + k \<and> 1024 * j + k < p + c \<longleftrightarrow> j = q \<and> r \<le> k \<and> k < r + c" for j
  proof
    assume a: "p \<le> 1024 * j + k \<and> 1024 * j + k < p + c"
    have "1024 * j < 1024 * q + 1024" "1024 * q < 1024 * j + 1024" using a p c(2) k unfolding q_def [symmetric] r_def [symmetric] by linarith+
    then have "j = q" by linarith
    then show "j = q \<and> r \<le> k \<and> k < r + c" using a p by simp
  qed (use p in simp)
  have bk: "zone_index x m = Some j \<Longrightarrow> i_zone x j = m" for j unfolding zone_index_def find_upt_first by simp
  have sub: "1024 * q + k - p = k - r" if "r \<le> k" using p that by simp
  show ?thesis
  proof (cases "zone_index x m")
    case None
    then have "m \<noteq> i_zone x q" using at by auto
    then show ?thesis using None unfolding put_block_def put_file_def q_def [symmetric] by simp
  next
    case (Some j)
    show ?thesis
    proof (cases "j = q")
      case True
      then have m: "i_zone x q = m" using bk Some by simp
      show ?thesis unfolding put_block_def put_file_def q_def [symmetric] r_def [symmetric] Some option.case one m True using sub by simp
    next
      case False
      then have m: "m \<noteq> i_zone x q" using at Some by auto
      show ?thesis unfolding put_block_def put_file_def q_def [symmetric] r_def [symmetric] Some option.case one using m False by simp
    qed
  qed
qed

lemma put_file_seq:
  "c \<le> n \<Longrightarrow> put_file x (p + c) (n - c) (\<lambda>k. src (c + k)) (put_file x p c src V) m k = put_file x p n src V m k"
  by (auto simp: put_file_def split: option.splits)

lemma wrote_trans:
  assumes "wrote D dv i g (put_file x p c src) s t" "wrote D dv i h (put_file x (p + c) (n - c) (\<lambda>k. src (c + k))) t u" "c \<le> n"
  shows "wrote D dv i (\<lambda>x. h (g x)) (put_file x p n src) s u"
  unfolding wrote_def
proof (intro conjI allI impI)
  fix m :: u16 and k :: nat assume k: "k < 1024"
  have "block_of D dv u m k = put_file x (p + c) (n - c) (\<lambda>k. src (c + k)) (block_of D dv t) m k" using assms(2) k by (simp add: wrote_def)
  also have "\<dots> = put_file x (p + c) (n - c) (\<lambda>k. src (c + k)) (put_file x p c src (block_of D dv s)) m k"
    using assms(1) k by (simp add: wrote_def put_file_def split: option.splits)
  finally show "block_of D dv u m k = put_file x p n src (block_of D dv s) m k" using put_file_seq [OF assms(3)] by simp
qed (use assms in \<open>auto simp: wrote_def\<close>)

lemma wrote_refl: "bc_ready D dv s \<Longrightarrow> wrote D dv i (\<lambda>x. x) (put_file x p 0 src) s s"
  by (auto simp: wrote_def put_file_def split: option.splits)

lemma file_write_loop_ok:
  fixes s :: "'z fs_st_scheme"
  assumes "bc_ready D dv s" "i_dev (inode_table s i) = dv" "zones_ok (\<lambda>z. block_there dv z s) (inode_table s i) p n" "n \<le> rounds"
  shows "\<exists>t. file_write_loop i rounds buf (int d) (int p) (int (d + n)) s = Ok (int (d + n), int (p + n)) t \<and>
    wrote D dv i (if n = 0 then (\<lambda>x. x) else grown (p + n)) (put_file (inode_table s i) p n (\<lambda>k. get_fs_byte (buf + of_nat k) s)) s t"
  using assms
proof (induction rounds arbitrary: n p d buf s)
  case 0
  then show ?case using wrote_refl by auto
next
  case (Suc rounds)
  let ?x = "inode_table s i"
  show ?case
  proof (cases "n = 0")
    case True
    then show ?thesis using wrote_refl [OF Suc.prems(1)] by auto
  next
    case False
    define c where "c = min (1024 - p mod 1024) n"
    have c: "0 < c" "c \<le> n" "p mod 1024 + c \<le> 1024" using False by (auto simp: c_def)
    have lim: "p + n \<le> 7168" using Suc.prems(3) by (simp add: zones_ok_def)
    have q: "p div 1024 < 7" using lim False by (simp add: div_less_iff_less_mult)
    have z: "i_zone ?x (p div 1024) \<noteq> 0" "block_there dv (i_zone ?x (p div 1024)) s"
    proof -
      have "p < 1024 * (p div 1024) + 1024" "1024 * (p div 1024) < p + n" using False by simp_all
      then show "i_zone ?x (p div 1024) \<noteq> 0" "block_there dv (i_zone ?x (p div 1024)) s" using Suc.prems(3) by (auto simp: zones_ok_def)
    qed
    let ?src = "\<lambda>k. get_fs_byte (buf + of_nat k) s"
    from file_write_round [OF Suc.prems(1,2) q _ refl z c_def] False obtain t where
      t: "file_write_loop i (Suc rounds) buf (int d) (int p) (int (d + n)) s =
         file_write_loop i rounds (buf + of_nat c) (int (d + c)) (int (p + c)) (int (d + n)) t"
        "wrote D dv i (grown (p + c)) (put_block (i_zone ?x (p div 1024)) (p mod 1024) c ?src) s t" by blast
    have zc: "zones_ok (\<lambda>z. block_there dv z s) ?x p c" by (rule zones_ok_mono(2) [OF Suc.prems(3) c(2)])
    have w: "wrote D dv i (grown (p + c)) (put_file ?x p c ?src) s t"
      using t(2) put_block_file [OF zc c(1,3)] by (simp add: wrote_def)
    have x: "inode_table t i = grown (p + c) ?x" "umem t = umem s" "current t = current s" "nr_sects t = nr_sects s" "bc_ready D dv t"
      using w by (auto simp: wrote_def)
    have zt: "zones_ok (\<lambda>z. block_there dv z t) (inode_table t i) (p + c) (n - c)"
      using zones_ok_mono(1) [OF Suc.prems(3) c(2)] zones_ok_cong [of "inode_table t i" ?x "\<lambda>z. block_there dv z t" "\<lambda>z. block_there dv z s"]
      by (simp add: x block_there_def)
    have dt: "i_dev (inode_table t i) = dv" using x(1) Suc.prems(2) by simp
    have "n - c \<le> rounds" using Suc.prems(4) c(1) by simp
    from Suc.IH [OF x(5) dt zt this, of "buf + of_nat c" "d + c"] obtain u where
      u: "file_write_loop i rounds (buf + of_nat c) (int (d + c)) (int (p + c)) (int (d + c + (n - c))) t = Ok (int (d + c + (n - c)), int (p + c + (n - c))) u"
        "wrote D dv i (if n - c = 0 then (\<lambda>x. x) else grown (p + c + (n - c))) (put_file (inode_table t i) (p + c) (n - c) (\<lambda>k. get_fs_byte (buf + of_nat c + of_nat k) t)) t u"
      by blast
    have e: "d + c + (n - c) = d + n" "p + c + (n - c) = p + n" using c(2) by simp_all
    have pf: "put_file (inode_table t i) = put_file ?x" unfolding put_file_def zone_index_def x(1) by simp
    have sr: "(\<lambda>k. get_fs_byte (buf + of_nat c + of_nat k) t) = (\<lambda>k. ?src (c + k))" by (simp add: get_fs_byte_def x add.assoc)
    have "wrote D dv i (\<lambda>x. (if n - c = 0 then (\<lambda>x. x) else grown (p + n)) (grown (p + c) x)) (put_file ?x p n ?src) s u"
      using wrote_trans [OF w u(2) [unfolded pf sr e] c(2)] .
    moreover have "(\<lambda>x. (if n - c = 0 then (\<lambda>x. x) else grown (p + n)) (grown (p + c) x)) = grown (p + n)"
      using c(2) lim grown_grown [of "p + c" "p + n"] by (auto simp: fun_eq_iff)
    ultimately show ?thesis using t(1) u(1) False unfolding e by auto
  qed
qed

section \<open>The system call\<close>

lemma file_byte_direct: "q < 7168 \<Longrightarrow> file_byte T V x q = (if i_zone x (q div 1024) = 0 then 0 else V (i_zone x (q div 1024)) (q mod 1024))"
  by (simp add: file_byte_def file_zone_def div_less_iff_less_mult)

lemma file_byte_put:
  assumes z: "zones_ok T x p n" and q: "q < 7168"
  shows "file_byte U (put_file x p n src V) x q = (if p \<le> q \<and> q < p + n then src (q - p) else file_byte T V x q)"
proof -
  define l k where "l = q div 1024" and "k = q mod 1024"
  have qk: "q = 1024 * l + k" "k < 1024" "l < 7" using q by (simp_all add: l_def k_def div_less_iff_less_mult)
  show ?thesis
  proof (cases "p \<le> q \<and> q < p + n")
    case True
    then have t: "p < 1024 * l + 1024" "1024 * l < p + n" using qk by simp_all
    have "i_zone x l \<noteq> 0" using z t by (simp add: zones_ok_def)
    then show ?thesis using True zone_index_at [OF z t] qk(1) unfolding file_byte_direct [OF q] l_def [symmetric] k_def [symmetric] put_file_def by simp
  next
    case False
    have "put_file x p n src V (i_zone x l) k = V (i_zone x l) k"
    proof (rule ccontr)
      assume c: "put_file x p n src V (i_zone x l) k \<noteq> V (i_zone x l) k"
      then obtain j where j: "zone_index x (i_zone x l) = Some j" "p \<le> 1024 * j + k" "1024 * j + k < p + n"
        by (auto simp: put_file_def split: option.splits if_splits)
      have "i_zone x j = i_zone x l" using j(1) unfolding zone_index_def find_upt_first by simp
      moreover have "p < 1024 * j + 1024" "1024 * j < p + n" using j(2,3) qk(2) by simp_all
      ultimately have "l = j" using z qk(3) unfolding zones_ok_def by (metis)
      then show False using False j(2,3) qk(1) by simp
    qed
    then show ?thesis using False unfolding file_byte_direct [OF q] l_def [symmetric] k_def [symmetric] by auto
  qed
qed

lemma sys_write_effect:
  fixes s :: "'z fs_st_scheme"
  assumes ready: "bc_ready D dv s" "i_dev (inode_table s i) = dv"
    and f: "open_file fd s = Some f" "f_inode (file_table s f) = Some i" "f_pos (file_table s f) = int p" "f_flags (file_table s f) AND O_APPEND = 0"
    and x: "S_ISREG (i_mode (inode_table s i))" "i_pipe (inode_table s i) = 0"
    and n: "0 < n" "zones_ok (\<lambda>z. block_there dv z s) (inode_table s i) p n"
  shows "\<exists>t c. sys_write fd buf (int n) s = Ok (int n) t \<and> bc_ready D dv t \<and> umem t = umem s \<and> current t = current s \<and> ts t = ts s \<and> nr_sects t = nr_sects s \<and>
    (\<forall>w. w \<noteq> 4 \<longrightarrow> pm t w = pm s w) \<and> inode_table t = (inode_table s)(i := (grown (p + n) (inode_table s i))\<lparr>i_mtime := c, i_ctime := c\<rparr>) \<and>
    file_table t = (file_table s)(f := (file_table s f)\<lparr>f_pos := int (p + n)\<rparr>) \<and>
    (\<forall>m. \<forall>k < 1024. block_of D dv t m k = put_file (inode_table s i) p n (\<lambda>k. get_fs_byte (buf + of_nat k) s) (block_of D dv s) m k)"
proof -
  from file_write_loop_ok [OF ready n(2) order.refl, of buf 0] n(1) obtain t where
    t: "file_write_loop i n buf 0 (int p) (int n) s = Ok (int n, int (p + n)) t"
      "wrote D dv i (grown (p + n)) (put_file (inode_table s i) p n (\<lambda>k. get_fs_byte (buf + of_nat k) s)) s t" by auto
  let ?u = "upd_inode i (\<lambda>x. x\<lparr>i_ctime := now32 t\<rparr>) (upd_file f (\<lambda>x. x\<lparr>f_pos := int (p + n)\<rparr>) (upd_inode i (\<lambda>x. x\<lparr>i_mtime := now32 t\<rparr>) t))"
  have ft: "file_table t = file_table s" using t(2) by (simp add: wrote_def)
  have nw: "now32 (upd_inode i g t) = now32 t" for g by (simp add: upd_inode_def now32_def CURRENT_TIME_def)
  have "sys_write fd buf (int n) s = Ok (int n) ?u"
    using f x n(1) t(1) file_kinds(1) [OF x(1)] ft nw by (simp add: sys_write_def file_write_def Let_def)
  moreover have "bc_ready D dv ?u = bc_ready D dv t" "block_of D dv ?u = block_of D dv t" by simp_all
  ultimately show ?thesis using t(2) unfolding wrote_def
    by (intro exI [of _ ?u] exI [of _ "now32 t"]) (simp add: upd_inode_def upd_file_def)
qed

lemma grown_size: "p + n \<le> 7168 \<Longrightarrow> unat (i_size (grown (p + n) x)) = max (unat (i_size x)) (p + n)"
  using unat_small [of "p + n"] by (auto simp: grown_def)

lemma zone_index_zone: "zone_index x m = Some j \<Longrightarrow> j < 7 \<and> i_zone x j = m"
  unfolding zone_index_def find_upt_first by simp

lemma put_file_other: "(\<And>j. j < 7 \<Longrightarrow> i_zone x j \<noteq> m) \<Longrightarrow> put_file x p n src V m k = V m k"
  using zone_index_zone [of x m] by (auto simp: put_file_def split: option.splits)

lemma file_byte_direct_cong:
  "q < 7168 \<Longrightarrow> i_zone x = i_zone y \<Longrightarrow> (\<And>m k. k < 1024 \<Longrightarrow> V m k = W m k) \<Longrightarrow> file_byte T V x q = file_byte U W y q"
  by (simp add: file_byte_direct)

lemma written_byte:
  assumes z: "zones_ok T x p n" and q: "q < 7168" and y: "i_zone y = i_zone x" and w: "\<And>m k. k < 1024 \<Longrightarrow> W m k = put_file x p n src V m k"
  shows "file_byte U W y q = (if p \<le> q \<and> q < p + n then src (q - p) else file_byte T V x q)"
proof -
  have "file_byte U W y q = file_byte T (put_file x p n src V) x q" by (rule file_byte_direct_cong [OF q y w])
  then show ?thesis unfolding file_byte_put [OF z q] .
qed

text \<open>
  C38: \<open>sys_write\<close> of \<open>n\<close> bytes to a regular file that was not opened for appending, at a position where its direct zones
  have the blocks, returns \<open>n\<close>. After it the file has the bytes of the caller at the positions written and its old
  bytes at every other position of the direct zones, its size is the larger of the old one and the end of the transfer,
  the position has moved past the bytes, and blocks that are not direct zones of this file, other inodes, other open files and
  the memory of the caller are as before.
\<close>

theorem sys_write_file:
  fixes s :: "'z fs_st_scheme"
  assumes ready: "bc_ready D dv s" "i_dev (inode_table s i) = dv"
    and f: "open_file fd s = Some f" "f_inode (file_table s f) = Some i" "f_pos (file_table s f) = int p" "f_flags (file_table s f) AND O_APPEND = 0"
    and x: "S_ISREG (i_mode (inode_table s i))" "i_pipe (inode_table s i) = 0"
    and n: "0 < n" "zones_ok (\<lambda>z. block_there dv z s) (inode_table s i) p n"
  shows "\<exists>t. sys_write fd buf (int n) s = Ok (int n) t \<and> bc_ready D dv t \<and> umem t = umem s \<and>
    (\<forall>q < 7168. file_byte (\<lambda>z. block_there dv z t) (block_of D dv t) (inode_table t i) q =
       (if p \<le> q \<and> q < p + n then get_fs_byte (buf + of_nat (q - p)) s
        else file_byte (\<lambda>z. block_there dv z s) (block_of D dv s) (inode_table s i) q)) \<and>
    (\<forall>m. (\<forall>j < 7. i_zone (inode_table s i) j \<noteq> m) \<longrightarrow> (\<forall>k < 1024. block_of D dv t m k = block_of D dv s m k)) \<and>
    unat (i_size (inode_table t i)) = max (unat (i_size (inode_table s i))) (p + n) \<and>
    (\<forall>l. l \<noteq> i \<longrightarrow> inode_table t l = inode_table s l) \<and>
    file_table t = (file_table s)(f := (file_table s f)\<lparr>f_pos := int (p + n)\<rparr>)"
proof -
  have lim: "p + n \<le> 7168" using n(2) by (simp add: zones_ok_def)
  from sys_write_effect [OF assms, of buf] obtain t c where
    t: "sys_write fd buf (int n) s = Ok (int n) t" "bc_ready D dv t" "umem t = umem s"
      "inode_table t = (inode_table s)(i := (grown (p + n) (inode_table s i))\<lparr>i_mtime := c, i_ctime := c\<rparr>)"
      "file_table t = (file_table s)(f := (file_table s f)\<lparr>f_pos := int (p + n)\<rparr>)"
      "\<And>m k. k < 1024 \<Longrightarrow> block_of D dv t m k = put_file (inode_table s i) p n (\<lambda>k. get_fs_byte (buf + of_nat k) s) (block_of D dv s) m k"
    by blast
  have z: "i_zone (inode_table t i) = i_zone (inode_table s i)" by (simp add: t(4))
  show ?thesis
    using t(1,2,3,5) written_byte [OF n(2) _ z t(6)] t(6) put_file_other [of "inode_table s i"] grown_size [OF lim]
    by (intro exI [of _ t] conjI) (simp_all add: t(4))
qed

text \<open>
  C39: what was written is read back: after a \<open>sys_write\<close> as above to a file of direct zones only, \<open>sys_lseek\<close> back to the position and
  \<open>sys_read\<close> of as many bytes into a writable buffer return the count and store in that buffer the bytes that were written.
\<close>

theorem write_read_back:
  fixes s :: "'z fs_st_scheme"
  assumes ready: "bc_ready D dv s" "file_there D dv i s"
    and f: "open_file fd s = Some f" "f_inode (file_table s f) = Some i" "f_pos (file_table s f) = int p" "f_flags (file_table s f) AND O_APPEND = 0"
    and x: "S_ISREG (i_mode (inode_table s i))" "i_pipe (inode_table s i) = 0" "unat (i_size (inode_table s i)) \<le> 7168"
      "i_zone (inode_table s i) 7 = 0" "i_zone (inode_table s i) 8 = 0"
    and n: "0 < n" "zones_ok (\<lambda>z. block_there dv z s) (inode_table s i) p n"
    and v: "\<And>u :: 'z fs_st_scheme. cur u = cur s \<Longrightarrow> (\<And>w. w \<noteq> 4 \<Longrightarrow> pm u w = pm s w) \<Longrightarrow> verify_area dst (int n) u = Ok () u"
  shows "\<exists>t u w. sys_write fd buf (int n) s = Ok (int n) t \<and> sys_lseek fd (int p) 0 t = (int p, u) \<and>
    sys_read fd dst (int n) u = Ok (int n) w \<and> (\<forall>k < n. get_fs_byte (dst + of_nat k) w = get_fs_byte (buf + of_nat k) s)"
proof -
  let ?x = "inode_table s i"
  have dv: "i_dev ?x = dv" using ready(2) by (simp add: file_there_def)
  have lim: "p + n \<le> 7168" using n(2) by (simp add: zones_ok_def)
  from sys_write_effect [OF ready(1) dv f x(1,2) n, of buf] obtain t c where
    t: "sys_write fd buf (int n) s = Ok (int n) t" "bc_ready D dv t" "umem t = umem s" "current t = current s" "ts t = ts s"
      "nr_sects t = nr_sects s" "\<And>w. w \<noteq> 4 \<Longrightarrow> pm t w = pm s w"
      "inode_table t = (inode_table s)(i := (grown (p + n) (inode_table s i))\<lparr>i_mtime := c, i_ctime := c\<rparr>)"
      "file_table t = (file_table s)(f := (file_table s f)\<lparr>f_pos := int (p + n)\<rparr>)"
      "\<And>m k. k < 1024 \<Longrightarrow> block_of D dv t m k = put_file (inode_table s i) p n (\<lambda>k. get_fs_byte (buf + of_nat k) s) (block_of D dv s) m k"
    by blast
  define u where "u = upd_file f (\<lambda>x. x\<lparr>f_pos := int p\<rparr>) t"
  have cu: "cur u = cur s" "pm u = pm t" "inode_table u = inode_table t" "umem u = umem s" "current u = current s" "nr_sects u = nr_sects s"
    "f_inode (file_table u f) = Some i" "f_pos (file_table u f) = int p" "bc_ready D dv u" "block_of D dv u = block_of D dv t"
    using t(2-7) f(2) by (simp_all add: u_def t(9) cur_def) (simp_all add: upd_file_def t(9) f(2))
  have ct: "cur t = cur s" by (simp add: cur_def t(4,5))
  have fo: "open_file fd t = Some f" "open_file fd u = Some f" using f(1) unfolding open_file_def ct cu(1) by assumption+
  have "MAJOR (uint dv) = 3" using ready(1) by (simp add: bc_ready_def)
  then have ls: "sys_lseek fd (int p) 0 t = (int p, u)"
    using fo(1) f(2) dv x(2) by (simp add: sys_lseek_def seekable_def t(8,9) u_def IS_BLOCKDEV_def grown_def)
  have bt: "block_there dv z u = block_there dv z s" for z using cu(6) by (simp add: block_there_def)
  have fz: "file_zone T V (inode_table u i) q = (if q < 7 then i_zone ?x q else 0)"
    "file_zone T V ?x q = (if q < 7 then i_zone ?x q else 0)" for T V q
    using x(4,5) by (simp_all add: file_zone_def zone_entry_def cu(3) t(8))
  have there: "file_there D dv i u"
    using ready(2) unfolding file_there_def zones_there_def fz bt by (simp add: cu(3) t(8))
  have sz: "unat (i_size (inode_table u i)) = max (unat (i_size ?x)) (p + n)" using grown_size [OF lim] by (simp add: cu(3) t(8))
  have sm: "unat (i_size (inode_table u i)) \<le> MAX_FILE" "min n (unat (i_size (inode_table u i)) - p) = n"
    using lim x(3) unfolding sz by (simp_all add: MAX_FILE_def)
  have reg: "S_ISREG (i_mode (inode_table u i)) \<or> S_ISDIR (i_mode (inode_table u i))" "i_pipe (inode_table u i) = 0"
    using x(1,2) by (simp_all add: cu(3) t(8) grown_def)
  have p31: "p < 2 ^ 31" "n < 2 ^ 31" using lim by simp_all
  have vu: "verify_area dst (int n) u = Ok () u" by (rule v [OF cu(1)]) (simp add: cu(2) t(7))
  from sys_read_effect [OF cu(9) there fo(2) cu(7,8) p31(1) reg sm(1) n(1) p31(2) vu] obtain w where
    w: "sys_read fd dst (int n) u = Ok (int n) w"
      "umem w = (umem s)(current s := write_mem dst (file_bytes D dv i u p n) (umem s (current s)))" "current w = current u"
    unfolding sm(2) cu(4,5) by blast
  have bs: "file_bytes D dv i u p n ! k = get_fs_byte (buf + of_nat k) s" if "k < n" for k
  proof -
    have z: "i_zone (inode_table u i) = i_zone ?x" by (simp add: cu(3) t(8))
    have "p + k < 7168" using that lim by simp
    from written_byte [OF n(2) this z, where W = "block_of D dv u"] show ?thesis using t(10) that by (simp add: file_bytes_def cu(10))
  qed
  have len: "length (file_bytes D dv i u p n) = n" "n < 2 ^ 32" using lim by (simp_all add: file_bytes_def)
  have "get_fs_byte (dst + of_nat k) w = get_fs_byte (buf + of_nat k) s" if "k < n" for k
    using write_mem_get [of "file_bytes D dv i u p n" k dst] len that bs [OF that] by (simp add: get_fs_byte_def w(2,3) cu(5))
  then show ?thesis using t(1) ls w(1) by blast
qed

section \<open>Writing to the file of one block\<close>

lemma write_demo_sel:
  "bc_ready demo_disk 0x301 read_demo" "file_there demo_disk 0x301 4 read_demo" "i_dev (inode_table read_demo 4) = 0x301"
  "f_flags (file_table read_demo 0) AND O_APPEND = 0" "S_ISREG (i_mode (inode_table read_demo 4))" "i_pipe (inode_table read_demo 4) = 0"
  "i_size (inode_table read_demo 4) = 3000" "i_zone (inode_table read_demo 4) = (\<lambda>_. 0)(0 := 7)"
proof -
  note c = same_hd_cache [OF read_demo_sel(6)]
  show "bc_ready demo_disk 0x301 read_demo" "file_there demo_disk 0x301 4 read_demo"
    using file_demo_there(1,2) c(5) file_view_cong(2) [OF read_demo_sel(1,7)] c(2) by simp_all
  show "f_flags (file_table read_demo 0) AND O_APPEND = 0"
    by (simp add: read_demo_def upd_cur_def upd_task_def upd_file_def) (simp add: file_demo_def fs_demo_tables)
qed (simp_all add: read_demo_sel, simp_all add: file_demo_def S_ISREG_def S_IFMT_def zero_inode_def fs_demo_tables)

lemma write_demo_zones: "zones_ok (\<lambda>z. block_there 0x301 z read_demo) (inode_table read_demo 4) 100 50"
proof -
  have "block_there 0x301 7 file_demo" by (simp add: file_demo_def) (simp add: block_there_def MINOR_def fs_demo_tables)
  then have "block_there 0x301 7 read_demo" using read_demo_sel(7) by (simp add: block_there_def)
  then show ?thesis unfolding zones_ok_def write_demo_sel(8) by (auto simp: less_Suc_eq)
qed

lemma write_demo_base: "get_base (ldt (cur read_demo) 2) = 0"
proof -
  have "ts fs_demo = ts fs_base" "current fs_demo = current fs_base" by (simp_all add: fs_demo_def buffer_init_def Let_def printk_def)
  then have "ldt (cur fs_demo) 2 = ldt (INIT_TASK 0x1000) 2"
    by (simp add: cur_def fs_base_def hd_st.extend_def hd_demo_def bc_st.extend_def tty_st.extend_def tty_boot_def con_st.extend_def
        con_ready_def con_init_def printk_def gotoxy_def con_boot_def um_st.extend_def um_empty_def mm_st.extend_def
        mm_empty_def sched_st.extend_def two_tasks_def sched_boot_def INIT_TASK_def)
  then have "ldt (cur read_demo) 2 = ldt (INIT_TASK 0x1000) 2"
    by (simp add: read_demo_def upd_cur_def upd_task_def cur_def file_demo_def upd_inode_def upd_file_def)
  then show ?thesis by (simp add: INIT_TASK_def get_base_def)
qed

theorem sys_write_witness:
  "bc_ready demo_disk 0x301 read_demo \<and>
   (\<exists>t. sys_write 3 0x1000 50 read_demo = Ok 50 t \<and> unat (i_size (inode_table t 4)) = 3000 \<and> f_pos (file_table t 0) = 150)"
proof -
  have p: "f_pos (file_table read_demo 0) = int 100" "0 < (50::nat)" using read_demo_sel(2) by simp_all
  from sys_write_file [OF write_demo_sel(1,3) read_demo_sel(4,3) p(1) write_demo_sel(4,5,6) p(2) write_demo_zones, of "0x1000"] obtain t where
    "sys_write 3 0x1000 (int 50) read_demo = Ok (int 50) t" "unat (i_size (inode_table t 4)) = max (unat (i_size (inode_table read_demo 4))) (100 + 50)"
    "file_table t = (file_table read_demo)(0 := (file_table read_demo 0)\<lparr>f_pos := int (100 + 50)\<rparr>)" by blast
  then show ?thesis using write_demo_sel(1,7) by (intro conjI exI [of _ t]) simp_all
qed

theorem write_read_witness:
  "file_there demo_disk 0x301 4 read_demo \<and>
   (\<exists>t u w. sys_write 3 0x1000 50 read_demo = Ok 50 t \<and> sys_lseek 3 100 0 t = (100, u) \<and> sys_read 3 0x2000 50 u = Ok 50 w \<and>
     get_fs_byte (0x2000 + of_nat 49) w = get_fs_byte (0x1000 + of_nat 49) read_demo)"
proof -
  have p: "f_pos (file_table read_demo 0) = int 100" "0 < (50::nat)" "unat (i_size (inode_table read_demo 4)) \<le> 7168"
    "i_zone (inode_table read_demo 4) 7 = 0" "i_zone (inode_table read_demo 4) 8 = 0"
    using read_demo_sel(2) write_demo_sel(7,8) by simp_all
  have v: "verify_area 0x2000 (int 50) u = Ok () u" if c: "cur u = cur read_demo" and m: "\<And>w. w \<noteq> 4 \<Longrightarrow> pm u w = pm read_demo w" for u :: fs_st
  proof -
    have "write_verify 0x2000 u = Ok () u" using m [of "lw 0"] by (simp add: write_verify_def ldl_def lw_def read_demo_sel)
    then show ?thesis using write_demo_base c by (simp add: verify_area_def Let_def s32_def numeral_2_eq_2)
  qed
  from write_read_back [OF write_demo_sel(1,2) read_demo_sel(4,3) p(1) write_demo_sel(4,5,6) p(3,4,5,2) write_demo_zones v, where buf = "0x1000"] obtain t u w where
    r: "sys_write 3 0x1000 (int 50) read_demo = Ok (int 50) t" "sys_lseek 3 (int 100) 0 t = (int 100, u)" "sys_read 3 0x2000 (int 50) u = Ok (int 50) w"
      "\<forall>k < 50. get_fs_byte (0x2000 + of_nat k) w = get_fs_byte (0x1000 + of_nat k) read_demo" by blast
  have "int 50 = 50" "int 100 = 100" "(49::nat) < 50" by simp_all
  then show ?thesis using write_demo_sel(2) r(1-3) spec [OF r(4), of 49] by metis
qed

end
