(* ===== verification/Stat_Props.thy ===== *)
theory Stat_Props
  imports File_Calls
begin

text \<open>
  What a program sees of \<open>fstat\<close>, \<open>fs/stat.c\<close>: the fields of the structure are those of the inode, and the bytes between
  and behind them are whatever the stack of the kernel held.
\<close>

lemma put_fs_bytes_eq: "put_fs_bytes bs a s = s\<lparr>umem := (umem s)(current s := write_mem a bs (umem s (current s)))\<rparr>"
proof (induction bs rule: rev_induct)
  case Nil
  show ?case by (simp add: put_fs_bytes_def enumerate_eq_zip)
next
  case (snoc x bs)
  have "put_fs_bytes (bs @ [x]) a s = put_fs_byte x (a + of_nat (length bs)) (put_fs_bytes bs a s)"
    by (simp add: put_fs_bytes_def enumerate_append_eq)
  then show ?case by (simp add: snoc.IH put_fs_byte_def write_mem_snoc fun_upd_def fun_eq_iff)
qed

text \<open>The bytes of \<open>struct stat\<close> that no assignment of \<open>cp_stat\<close> sets.\<close>

definition stat_gaps :: "nat list" where
  "stat_gaps = [2, 3, 18, 19] @ [24..<32] @ [36..<40] @ [44..<48] @ [52..<64]"

lemma stat_image_halves:
  "half_at (stat_image g x) 0 = i_dev x" "half_at (stat_image g x) 8 = i_mode x" "half_at (stat_image g x) 10 = ucast (i_nlinks x)"
  "half_at (stat_image g x) 12 = i_uid x" "half_at (stat_image g x) 14 = ucast (i_gid x)" "half_at (stat_image g x) 16 = i_zone x 0"
  by (simp_all add: stat_image_def)

lemma long_put_half_other [simp]: "j + 3 < k \<or> k + 1 < j \<Longrightarrow> long_at (put_half k v d) j = long_at d j"
  by (auto simp: long_at_def half_at_def put_half_def)

lemma stat_image_longs:
  "long_at (stat_image g x) 4 = ucast (i_num x)" "long_at (stat_image g x) 20 = i_size x" "long_at (stat_image g x) 32 = i_atime x"
  "long_at (stat_image g x) 40 = i_mtime x" "long_at (stat_image g x) 48 = i_ctime x"
  by (simp_all add: stat_image_def)

lemma stat_image_gaps: "k \<in> set stat_gaps \<Longrightarrow> stat_image g x k = g k"
  by (auto simp: stat_gaps_def stat_image_def)

text \<open>
  C37: \<open>sys_fstat\<close> of an open file, once the buffer is writable, returns 0 and stores at the buffer a structure whose fields
  are the device, the number, the mode, the links, the owner, the group, the device number, the size and the times of
  the inode; the 32 other bytes of the structure are those of the stack of the kernel, which so become visible.
\<close>

theorem sys_fstat_fields:
  fixes s :: "'z fs_st_scheme"
  assumes o: "open_inode fd s = Some i" and v: "verify_area buf 64 s = Ok () v"
  shows "\<exists>t. sys_fstat g fd buf s = Ok 0 t \<and> inode_table t = inode_table s \<and> file_table t = file_table s \<and>
    (let x = inode_table s i; m = (\<lambda>k. get_fs_byte (buf + of_nat k) t)
     in half_at m 0 = i_dev x \<and> long_at m 4 = ucast (i_num x) \<and> half_at m 8 = i_mode x \<and> half_at m 10 = ucast (i_nlinks x) \<and>
        half_at m 12 = i_uid x \<and> half_at m 14 = ucast (i_gid x) \<and> half_at m 16 = i_zone x 0 \<and> long_at m 20 = i_size x \<and>
        long_at m 32 = i_atime x \<and> long_at m 40 = i_mtime x \<and> long_at m 48 = i_ctime x \<and> map m stat_gaps = map g stat_gaps)"
proof -
  let ?x = "inode_table s i"
  have "mm_only s v" using mm_only_verify_area [of buf 64 s] v by simp
  note f = mm_only_fs [OF this]
  let ?t = "put_fs_bytes (map (stat_image g ?x) [0..<64]) buf v"
  let ?m = "\<lambda>k. get_fs_byte (buf + of_nat k) ?t"
  have r: "sys_fstat g fd buf s = Ok 0 ?t" using o v by (simp add: sys_fstat_def cp_stat_def f)
  have m: "?m k = stat_image g ?x k" if "k < 64" for k
    using write_mem_get [of "map (stat_image g ?x) [0..<64]" k buf] that by (simp add: put_fs_bytes_eq get_fs_byte_def)
  have h: "half_at ?m k = half_at (stat_image g ?x) k" if "k < 63" for k using m [of k] m [of "k + 1"] that by (simp add: half_at_def)
  have l: "long_at ?m k = long_at (stat_image g ?x) k" if "k < 61" for k using h [of k] h [of "k + 2"] that by (simp add: long_at_def)
  have "map ?m stat_gaps = map g stat_gaps"
  proof (rule map_cong [OF refl])
    fix k assume k: "k \<in> set stat_gaps"
    then have "k < 64" by (auto simp: stat_gaps_def)
    from m [OF this] stat_image_gaps [OF k] show "?m k = g k" by simp
  qed
  then have "let x = ?x; m = ?m
     in half_at m 0 = i_dev x \<and> long_at m 4 = ucast (i_num x) \<and> half_at m 8 = i_mode x \<and> half_at m 10 = ucast (i_nlinks x) \<and>
        half_at m 12 = i_uid x \<and> half_at m 14 = ucast (i_gid x) \<and> half_at m 16 = i_zone x 0 \<and> long_at m 20 = i_size x \<and>
        long_at m 32 = i_atime x \<and> long_at m 40 = i_mtime x \<and> long_at m 48 = i_ctime x \<and> map m stat_gaps = map g stat_gaps"
    unfolding Let_def using h l stat_image_halves stat_image_longs by simp
  moreover have "inode_table ?t = inode_table s" "file_table ?t = file_table s" by (simp_all add: put_fs_bytes_eq f)
  ultimately show ?thesis using r by blast
qed

theorem sys_fstat_witness:
  "open_inode 3 read_demo = Some 4 \<and>
   (\<exists>t. sys_fstat (\<lambda>_. 7) 3 0x1000 read_demo = Ok 0 t \<and> long_at (\<lambda>k. get_fs_byte (0x1000 + of_nat k) t) 20 = 3000 \<and>
      get_fs_byte (0x1000 + of_nat 2) t = 7)"
proof -
  have o: "open_inode 3 read_demo = Some 4" by (simp add: open_inode_def read_demo_sel)
  note v = read_demo_verify [of "0x1000" 64]
  have "i_size (inode_table read_demo 4) = 3000" by (simp add: read_demo_sel) (simp add: file_demo_def)
  moreover have "2 \<in> set stat_gaps" by (simp add: stat_gaps_def)
  ultimately show ?thesis using o sys_fstat_fields [OF o v, of "\<lambda>_. 7"] unfolding Let_def by auto
qed

end
