(* ===== verification/Wait_Props.thy ===== *)
theory Wait_Props
  imports Process_Props
begin

text \<open>
  Waiting for children: every outcome of \<open>sys_waitpid\<close> of \<open>kernel/exit.c\<close>, with the proof that its loop, which the source
  writes as \<open>goto repeat\<close>, makes at most two rounds before the caller gives up the processor.
\<close>

section \<open>What a call of the scheduler leaves alone\<close>

text \<open>The fields of a task that the scheduler may change are its state, its time slice, its signals and its alarm.\<close>

definition same_child :: "task_struct \<Rightarrow> task_struct \<Rightarrow> bool" where
  "same_child x y \<longleftrightarrow> pid y = pid x \<and> father y = father x \<and> pgrp y = pgrp x \<and> exit_code y = exit_code x \<and>
     utime y = utime x \<and> stime y = stime x \<and> cutime y = cutime x \<and> cstime y = cstime x \<and>
     (state y = TASK_ZOMBIE \<longleftrightarrow> state x = TASK_ZOMBIE)"

lemma same_child_refl [simp]: "same_child x x" by (simp add: same_child_def)

lemma same_child_trans: "same_child x y \<Longrightarrow> same_child y z \<Longrightarrow> same_child x z" by (simp add: same_child_def)

lemma same_child_alarm: "same_child x (check_alarm now x)"
  by (auto simp: same_child_def check_alarm_def Let_def TASK_RUNNING_def TASK_ZOMBIE_def TASK_INTERRUPTIBLE_def)

lemma same_child_slice: "same_child x (new_slice x)"
  by (simp add: same_child_def new_slice_def)

text \<open>A call of \<open>schedule\<close>: only task structures, the current task and the coprocessor flag change.\<close>

definition ran :: "'z sched_st_scheme \<Rightarrow> 'z sched_st_scheme \<Rightarrow> bool" where
  "ran s t \<longleftrightarrow> (\<exists>T c f. t = s\<lparr>ts := T, current := c, cr0_ts := f\<rparr>)"

lemma ran_trans: "ran s t \<Longrightarrow> ran t u \<Longrightarrow> ran s u"
  unfolding ran_def by (elim exE, hypsubst, simp, blast)

lemma ran_upd_cur: "ran s (upd_cur f s)"
  unfolding ran_def
  by (intro exI [of _ "(ts s)(current s := f (ts s (current s)))"] exI [of _ "current s"] exI [of _ "cr0_ts s"])
    (cases s, simp add: upd_cur_def upd_task_def)

definition scheduled :: "'z sched_st_scheme \<Rightarrow> 'z sched_st_scheme \<Rightarrow> bool" where
  "scheduled s t \<longleftrightarrow> ran s t \<and> sched_inv t \<and> (\<forall>p. same_child (ts s p) (ts t p))"

lemma for_tasks_eq: "for_tasks f is s = s\<lparr>ts := ts (for_tasks f is s)\<rparr>"
proof -
  have "\<exists>T. for_tasks f is s = s\<lparr>ts := T\<rparr>"
  proof (induction "is" arbitrary: s)
    case (Cons i "is")
    have "for_tasks f (i # is) s = for_tasks f is (if task s i \<noteq> 0 then upd_task (task s i) f s else s)" by (simp add: for_tasks_def)
    also obtain T where "\<dots> = (if task s i \<noteq> 0 then upd_task (task s i) f s else s)\<lparr>ts := T\<rparr>" using Cons.IH by blast
    finally show ?case by (intro exI [of _ T]) (simp add: upd_task_def)
  qed (simp add: for_tasks_def, metis sched_st.surjective sched_st.update_convs(4))
  then show ?thesis by fastforce
qed

lemma for_tasks_child:
  assumes "sched_inv s" "\<And>x. same_child x (f x)"
  shows "same_child (ts s p) (ts (for_tasks f slots_down s) p)"
  using assms by (subst for_tasks_ts) (auto simp: sched_inv_def)

lemma schedule_scheduled:
  assumes inv: "sched_inv s" and c: "1 \<le> c" "c < NR_TASKS" "task s c \<noteq> 0"
  shows "\<exists>t. schedule s = Some t \<and> scheduled s t \<and>
    (current t = task s c \<longrightarrow> state (check_alarm (jiffies s) (ts s (task s c))) = TASK_RUNNING) \<and>
    (\<exists>k. ts t (task s c) = (check_alarm (jiffies s) (ts s (task s c)))\<lparr>counter := k\<rparr>)"
proof -
  let ?c = "check_signals s"
  from schedule_parts [OF inv] obtain n s' where sw: "schedule s = Some (switch_to n s')"
    and s': "s' \<in> {?c, recharge ?c}" and inv': "sched_inv (switch_to n s')"
    and b: "if \<exists>i. 1 \<le> i \<and> i < NR_TASKS \<and> runnable ?c i then best s' n \<and> 0 < quantum s' n else n = 0" by blast
  have ci: "sched_inv ?c" using inv by (rule sched_inv_check_signals)
  have "?c = s\<lparr>ts := ts ?c\<rparr>" unfolding check_signals_def by (rule for_tasks_eq)
  moreover have "recharge ?c = ?c\<lparr>ts := ts (recharge ?c)\<rparr>" unfolding recharge_def by (rule for_tasks_eq)
  ultimately have e: "s' = s\<lparr>ts := ts s'\<rparr>" using s' by (metis insertE singletonD sched_st.update_convs(4) sched_st.surjective)
  have tk: "task s' = task s" "current s' = current s" by (subst e, simp)+
  have cc: "same_child (ts s p) (ts ?c p)" for p
    unfolding check_signals_def by (rule for_tasks_child [OF inv same_child_alarm])
  have "same_child (ts ?c p) (ts (recharge ?c) p)" for p
    unfolding recharge_def by (rule for_tasks_child [OF ci same_child_slice])
  then have ch: "same_child (ts s p) (ts s' p)" for p using s' cc same_child_trans by blast
  have f: "ts (switch_to n s') = ts s'" "current (switch_to n s') = task s' n" by (auto simp: switch_to_def)
  have "\<exists>T c f. switch_to n (s\<lparr>ts := ts s'\<rparr>) = s\<lparr>ts := T, current := c, cr0_ts := f\<rparr>"
  proof (cases "task s n = current s")
    case True
    then show ?thesis
      by (intro exI [of _ "ts s'"] exI [of _ "current s"] exI [of _ "cr0_ts s"]) (cases s, simp add: switch_to_def)
  qed (auto simp: switch_to_def)
  then have "\<exists>T c f. switch_to n s' = s\<lparr>ts := T, current := c, cr0_ts := f\<rparr>" using e by simp
  then have sc: "scheduled s (switch_to n s')" using inv' ch f(1) unfolding scheduled_def ran_def by simp
  have x0: "ts ?c (task s c) = check_alarm (jiffies s) (ts s (task s c))"
    unfolding check_signals_def by (rule for_tasks_slot [OF inv c])
  have "task ?c = task s" by (simp add: check_signals_def)
  then have "ts (recharge ?c) (task s c) = new_slice (ts ?c (task s c))"
    using for_tasks_slot [OF ci c(1,2), of new_slice] c(3) unfolding recharge_def by simp
  then have x1: "\<exists>k. ts s' (task s c) = (check_alarm (jiffies s) (ts s (task s c)))\<lparr>counter := k\<rparr>"
    using s' x0 unfolding new_slice_def by (metis insertE singletonD task_struct.surjective task_struct.update_convs(2))
  have run: "state (check_alarm (jiffies s) (ts s (task s c))) = TASK_RUNNING" if "task s n = task s c"
  proof -
    have i: "inj_on (task s) {i. i < NR_TASKS \<and> task s i \<noteq> 0}" using inv by (simp add: sched_inv_def)
    have "n < NR_TASKS" using b c(1,2) by (auto simp: best_def split: if_splits)
    then have "n = c" using i that c(2,3) by (auto dest!: inj_onD)
    then have "best s' c" using b c(1) by (auto split: if_splits)
    then have "state (ts s' (task s c)) = TASK_RUNNING" by (simp add: best_def runnable_def tk)
    then show ?thesis using x1 by auto
  qed
  show ?thesis using sw sc run x1 f tk by auto
qed

section \<open>The loop\<close>

lemma wait_loop_eq:
  "wait_loop_pid n st options flag s =
     (case wait_zombie n s of
        Some i \<Rightarrow> Some (reap (task s i) st s)
      | None \<Rightarrow>
         if flag \<or> wait_any n s
         then if options AND WNOHANG \<noteq> 0 then Some (Ok 0 s)
              else case sys_pause s of
                Ok _ s \<Rightarrow>
                  let s1 = upd_cur (\<lambda>t. t\<lparr>signal := signal t AND NOT (sigmask SIGCHLD)\<rparr>) s
                  in if signal (cur s1) = 0 then wait_loop_pid n st options True s1 else Some (Ok (- EINTR) s1)
              | Panic m \<Rightarrow> Some (Panic m) | Die c s \<Rightarrow> Some (Die c s) | Sleep s \<Rightarrow> Some (Sleep s) | Hang \<Rightarrow> Some Hang
         else Some (Ok (- ECHILD) s))"
  by (subst wait_loop_pid.simps) (simp add: wait_round_def Let_def split: option.split kres.split)

text \<open>A round from which the call does not end is followed by one that ends it.\<close>

definition two_rounds :: "int \<Rightarrow> u32 \<Rightarrow> int \<Rightarrow> bool \<Rightarrow> 'z um_st_scheme \<Rightarrow> bool" where
  "two_rounds n st options flag s \<longleftrightarrow>
     (\<forall>u. wait_round n st options flag s = Inr u \<longrightarrow> (\<exists>r. wait_round n st options True u = Inl r))"

lemma wait_cong:
  assumes "task t = task s" "current t = current s" "\<And>p. p \<noteq> current s \<Longrightarrow> same_child (ts s p) (ts t p)"
    "pid (cur t) = pid (cur s)" "pgrp (cur t) = pgrp (cur s)"
  shows "wait_child n p t = wait_child n p s" "wait_zombie n t = wait_zombie n s" "wait_any n t = wait_any n s"
proof -
  have w: "wait_child n p t = wait_child n p s" for p
    using assms(2,4,5) assms(3) [of p] by (cases "p = current s") (simp_all add: wait_child_def same_child_def)
  have "wait_child n p t \<and> state (ts t p) = TASK_ZOMBIE \<longleftrightarrow> wait_child n p s \<and> state (ts s p) = TASK_ZOMBIE" for p
  proof (cases "p = current s")
    case True
    then have "\<not> wait_child n p t" "\<not> wait_child n p s" using assms(2) by (simp_all add: wait_child_def)
    then show ?thesis by blast
  next
    case False
    then show ?thesis using assms(3) [of p] w [of p] by (simp add: same_child_def)
  qed
  then show "wait_child n p t = wait_child n p s" "wait_zombie n t = wait_zombie n s" "wait_any n t = wait_any n s"
    using w by (simp_all add: wait_zombie_def wait_any_def assms(1))
qed

lemma sched_inv_cur_upd: "sched_inv s \<Longrightarrow> (\<And>x. slice_ok x \<Longrightarrow> slice_ok (f x)) \<Longrightarrow> sched_inv (upd_cur f s)"
  by (auto simp: sched_inv_def upd_cur_def upd_task_def)

lemma pause_cases:
  assumes inv: "sched_inv s" and c: "1 \<le> c" "c < NR_TASKS" "task s c \<noteq> 0" "current s = task s c"
  shows "\<exists>t. scheduled (upd_cur (\<lambda>x. x\<lparr>state := TASK_INTERRUPTIBLE\<rparr>) s) t \<and>
    (sys_pause s = Sleep t \<or>
     sys_pause s = Ok 0 t \<and> current t = current s \<and>
       (\<exists>k. cur t = (check_alarm (jiffies s) ((cur s)\<lparr>state := TASK_INTERRUPTIBLE\<rparr>))\<lparr>counter := k\<rparr>) \<and>
       state (check_alarm (jiffies s) ((cur s)\<lparr>state := TASK_INTERRUPTIBLE\<rparr>)) = TASK_RUNNING)"
proof -
  let ?s = "upd_cur (\<lambda>x. x\<lparr>state := TASK_INTERRUPTIBLE\<rparr>) s"
  have i: "sched_inv ?s" using inv by (rule sched_inv_cur_upd) (simp add: slice_ok_def)
  have c': "task ?s c \<noteq> 0" "task ?s c = current s" using c by simp_all
  have x: "ts ?s (current s) = (cur s)\<lparr>state := TASK_INTERRUPTIBLE\<rparr>" "jiffies ?s = jiffies s" using c(4) by (simp_all add: cur_def)
  from schedule_scheduled [OF i c(1,2) c'(1)] obtain t where t: "schedule ?s = Some t" "scheduled ?s t"
    "current t = current s \<longrightarrow> state (check_alarm (jiffies s) ((cur s)\<lparr>state := TASK_INTERRUPTIBLE\<rparr>)) = TASK_RUNNING"
    "\<exists>k. ts t (current s) = (check_alarm (jiffies s) ((cur s)\<lparr>state := TASK_INTERRUPTIBLE\<rparr>))\<lparr>counter := k\<rparr>"
    unfolding c'(2) x by blast
  have "current s \<noteq> 0" using c(3,4) by simp
  then show ?thesis using t by (intro exI [of _ t]) (auto simp: sys_pause_def call_schedule_def cur_def)
qed

lemma check_alarm_signal:
  "state x = TASK_INTERRUPTIBLE \<Longrightarrow> state (check_alarm now x) = TASK_RUNNING \<Longrightarrow> signal (check_alarm now x) \<noteq> 0"
  "check_alarm now (check_alarm now x) = check_alarm now x"
  "alarm (check_alarm now x) = 0 \<or> now \<le> alarm (check_alarm now x)"
  by (auto simp: check_alarm_def Let_def TASK_RUNNING_def TASK_INTERRUPTIBLE_def)

lemma check_alarm_idle: "state x = TASK_INTERRUPTIBLE \<Longrightarrow> signal x = 0 \<Longrightarrow> alarm x = 0 \<or> now \<le> alarm x \<Longrightarrow> check_alarm now x = x"
  by (auto simp: check_alarm_def)

lemma scheduled_fields:
  assumes "scheduled (upd_cur f s) t"
  shows "ran s t" "sched_inv t" "task t = task s" "jiffies t = jiffies s"
    "p \<noteq> current s \<Longrightarrow> same_child (ts s p) (ts t p)" "same_child (f (cur s)) (ts t (current s))"
proof -
  show "ran s t" using assms ran_trans [OF ran_upd_cur] unfolding scheduled_def by blast
  then show "task t = task s" "jiffies t = jiffies s" "sched_inv t" using assms by (auto simp: scheduled_def ran_def)
  have "same_child (ts (upd_cur f s) p) (ts t p)" for p using assms by (simp add: scheduled_def)
  from this [of p] this [of "current s"] show "p \<noteq> current s \<Longrightarrow> same_child (ts s p) (ts t p)" "same_child (f (cur s)) (ts t (current s))"
    by (simp_all add: cur_def)
qed

lemma wait_blocks:
  fixes s :: "'z um_st_scheme"
  assumes inv: "sched_inv s" and c: "1 \<le> c" "c < NR_TASKS" "task s c \<noteq> 0" "current s = task s c"
    and none: "wait_zombie n s = None" and any: "flag \<or> wait_any n s" and opt: "options AND WNOHANG = 0"
  shows "\<exists>t. (wait_loop_pid n st options flag s = Some (Sleep t) \<or>
      wait_loop_pid n st options flag s = Some (Ok (- EINTR) t) \<and> current t = current s \<and>
        signal (cur t) \<noteq> 0 \<and> signal (cur t) AND sigmask SIGCHLD = 0) \<and>
    ran s t \<and> sched_inv t \<and> two_rounds n st options flag s"
proof -
  let ?f = "\<lambda>x. x\<lparr>signal := signal x AND NOT (sigmask SIGCHLD)\<rparr>"
  from pause_cases [OF inv c] obtain t where t: "scheduled (upd_cur (\<lambda>x. x\<lparr>state := TASK_INTERRUPTIBLE\<rparr>) s) t" and
    r: "sys_pause s = Sleep t \<or> sys_pause s = Ok 0 t \<and> current t = current s \<and>
       (\<exists>k. cur t = (check_alarm (jiffies s) ((cur s)\<lparr>state := TASK_INTERRUPTIBLE\<rparr>))\<lparr>counter := k\<rparr>)" by blast
  note ft = scheduled_fields [OF t]
  note loop = wait_loop_eq [of n st options flag s]
  show ?thesis
  proof (cases "sys_pause s = Sleep t")
    case True
    then have "wait_loop_pid n st options flag s = Some (Sleep t)" using none any opt by (simp add: loop)
    moreover have "two_rounds n st options flag s" using True none any opt by (simp add: two_rounds_def wait_round_def)
    ultimately show ?thesis using ft(1,2) by blast
  next
    case False
    then obtain k where p: "sys_pause s = Ok 0 t" "current t = current s"
      "cur t = (check_alarm (jiffies s) ((cur s)\<lparr>state := TASK_INTERRUPTIBLE\<rparr>))\<lparr>counter := k\<rparr>" using r by blast
    define u where "u = upd_cur ?f t"
    have u: "current u = current s" "task u = task s" "jiffies u = jiffies s" "cur u = ?f (cur t)" "sched_inv u"
      using p(2) ft(2,3,4) sched_inv_cur_upd [OF ft(2), of ?f] by (simp_all add: u_def cur_def slice_ok_def)
    have ue: "ran s u" unfolding u_def by (rule ran_trans [OF ft(1) ran_upd_cur])
    show ?thesis
    proof (cases "signal (cur u) = 0")
      case False
      then have "wait_loop_pid n st options flag s = Some (Ok (- EINTR) u)" using none any opt p(1) by (simp add: loop u_def [symmetric])
      moreover have "two_rounds n st options flag s"
        using False none any opt p(1) by (simp add: two_rounds_def wait_round_def u_def [symmetric])
      moreover have "signal (cur u) AND sigmask SIGCHLD = 0" by (simp add: u(4) bit_eq_iff bit_simps)
      ultimately show ?thesis using ue u(1,5) False by blast
    next
      case True
      have l: "wait_loop_pid n st options flag s = wait_loop_pid n st options True u"
        using none any opt p(1) True by (simp add: loop u_def [symmetric])
      have sc: "same_child ((cur s)\<lparr>state := TASK_INTERRUPTIBLE\<rparr>) (cur t)" using ft(6) p(2) by (simp add: cur_def)
      have "wait_zombie n u = wait_zombie n s"
        using u sc ft(5) p(2) by (intro wait_cong(2)) (auto simp: u_def same_child_def)
      then have zu: "wait_zombie n u = None" using none by simp
      have cu: "task u c \<noteq> 0" "current u = task u c" using c u(1,2) by simp_all
      have idle: "check_alarm (jiffies u) ((cur u)\<lparr>state := TASK_INTERRUPTIBLE\<rparr>) = (cur u)\<lparr>state := TASK_INTERRUPTIBLE\<rparr>"
        using True check_alarm_signal(3) [of "jiffies s" "(cur s)\<lparr>state := TASK_INTERRUPTIBLE\<rparr>"]
        by (intro check_alarm_idle) (simp_all add: u(3,4) p(3))
      from pause_cases [OF u(5) c(1,2) cu] idle obtain v where
        v: "scheduled (upd_cur (\<lambda>x. x\<lparr>state := TASK_INTERRUPTIBLE\<rparr>) u) v" "sys_pause u = Sleep v"
        by (auto simp: TASK_RUNNING_def TASK_INTERRUPTIBLE_def)
      have "wait_loop_pid n st options True u = Some (Sleep v)" using zu opt v(2) by (simp add: wait_loop_eq [of n st options True u])
      moreover have "two_rounds n st options flag s"
        using True none any opt p(1) zu v(2) by (simp add: two_rounds_def wait_round_def u_def [symmetric])
      moreover have "ran s v" by (rule ran_trans [OF ue scheduled_fields(1) [OF v(1)]])
      ultimately show ?thesis using l scheduled_fields(2) [OF v(1)] by metis
    qed
  qed
qed

section \<open>The zombie\<close>

text \<open>The waiter sees the zombie in the highest slot first.\<close>

lemma find_down: "find P slots_down = Some i \<longleftrightarrow> 1 \<le> i \<and> i < NR_TASKS \<and> P i \<and> (\<forall>j. i < j \<longrightarrow> j < NR_TASKS \<longrightarrow> \<not> P j)"
proof -
  have "find P (rev [1..<N]) = Some i \<longleftrightarrow> 1 \<le> i \<and> i < N \<and> P i \<and> (\<forall>j. i < j \<longrightarrow> j < N \<longrightarrow> \<not> P j)" for N
  proof (induction N)
    case (Suc N)
    show ?case
    proof (cases "N = 0")
      case False
      then have "find P (rev [1..<Suc N]) = (if P N then Some N else find P (rev [1..<N]))" by simp
      then show ?thesis using Suc False by (auto simp: less_Suc_eq)
    qed simp
  qed simp
  then show ?thesis by (simp add: slots_down_def)
qed

lemma find_down_none: "find P slots_down = None \<longleftrightarrow> (\<forall>i. 1 \<le> i \<longrightarrow> i < NR_TASKS \<longrightarrow> \<not> P i)"
  by (auto simp: find_None_iff)

lemma put_fs_long_fields:
  "task (put_fs_long v a s) = task s" "ts (put_fs_long v a s) = ts s" "current (put_fs_long v a s) = current s"
  "mem_map (put_fs_long v a s) = mem_map s"
  by (simp_all add: put_fs_long_def put_fs_word_def put_fs_byte_def)

lemma put_fs_long_bytes:
  "umem (put_fs_long (word_of_int e) a s) = (umem s)(current s := (umem s (current s))
     (a := word_of_int e, a + 1 := word_of_int (e div 2 ^ 8), a + 2 := word_of_int (e div 2 ^ 16), a + 3 := word_of_int (e div 2 ^ 24)))"
proof -
  have "ucast (drop_bit 8 (ucast (word_of_int e :: u32) :: u16)) = (word_of_int (drop_bit 8 e) :: u8)"
    "ucast (ucast (drop_bit 16 (word_of_int e :: u32)) :: u16) = (word_of_int (drop_bit 16 e) :: u8)"
    "ucast (drop_bit 8 (ucast (drop_bit 16 (word_of_int e :: u32)) :: u16)) = (word_of_int (drop_bit 24 e) :: u8)"
    "ucast (ucast (word_of_int e :: u32) :: u16) = (word_of_int e :: u8)"
    by - (rule bit_word_eqI, auto simp: bit_simps)+
  then show ?thesis
    by (simp add: put_fs_long_def put_fs_word_def put_fs_byte_def drop_bit_eq_div add.assoc)
qed

definition reaped :: "nat \<Rightarrow> 'z um_st_scheme \<Rightarrow> 'z um_st_scheme \<Rightarrow> u32 \<Rightarrow> bool" where
  "reaped i s t a \<longleftrightarrow> (let x = ts s (task s i); f = pfn (of_nat (task s i)) - 512 in
     task t = (task s)(i := 0) \<and> mem_map t = (mem_map s)(f := mem_map s f - 1) \<and>
     umem t = (umem s)(current s := (umem s (current s))
       (a := word_of_int (exit_code x), a + 1 := word_of_int (exit_code x div 2 ^ 8),
        a + 2 := word_of_int (exit_code x div 2 ^ 16), a + 3 := word_of_int (exit_code x div 2 ^ 24))) \<and>
     cutime (ts t (current s)) = s32 (cutime (cur s) + utime x) \<and> cstime (ts t (current s)) = s32 (cstime (cur s) + stime x) \<and>
     sched_inv t)"

lemma reap_ok:
  fixes s :: "'z um_st_scheme"
  assumes inv: "sched_inv s" and c: "1 \<le> c" "c < NR_TASKS" "task s c \<noteq> 0" "current s = task s c"
    and i: "1 \<le> i" "i < NR_TASKS" "task s i \<noteq> 0" "task s i \<noteq> current s"
    and f: "512 \<le> pfn (of_nat (task s i))" "pfn (of_nat (task s i)) < 2048" "mem_map s (pfn (of_nat (task s i)) - 512) \<noteq> 0"
  shows "\<exists>t. (reap (task s i) a s = Ok (pid (ts s (task s i))) t \<or> reap (task s i) a s = Sleep t) \<and> reaped i s t a"
proof -
  let ?p = "task s i" let ?x = "ts s ?p" let ?f = "pfn (of_nat ?p) - 512"
  let ?t = "\<lambda>c. c\<lparr>cutime := s32 (cutime c + utime ?x), cstime := s32 (cstime c + stime ?x)\<rparr>"
  define s2 where "s2 = upd_cur ?t (put_fs_long (word_of_int (exit_code ?x)) a s)"
  define s3 where "s3 = set_count ?f (mem_map s ?f - 1) (s2\<lparr>task := (task s)(i := 0)\<rparr>)"
  have two: "task s2 = task s" "current s2 = current s" "mem_map s2 = mem_map s" "ts s2 = (ts s)(current s := ?t (cur s))"
    "umem s2 = umem (put_fs_long (word_of_int (exit_code ?x)) a s)"
    by (simp_all add: s2_def upd_cur_def upd_task_def put_fs_long_fields cur_def)
  have inj: "inj_on (task s) {j. j < NR_TASKS \<and> task s j \<noteq> 0}" using inv by (simp add: sched_inv_def)
  have "j = i" if "j < i" "task s j = ?p" for j using inj_onD [OF inj that(2)] that i(2,3) by simp
  then have "find (\<lambda>j. task s2 j = ?p) [1..<NR_TASKS] = Some i" unfolding find_upt_first two using i by auto
  then have rel: "release ?p s2 = call_schedule s3"
    using i(3) free_page_frame [OF f(1,2), of "s2\<lparr>task := (task s)(i := 0)\<rparr>"] f(3) by (simp add: release_def two s3_def)
  have three: "task s3 = (task s)(i := 0)" "current s3 = current s" "ts s3 = ts s2" by (simp_all add: s3_def set_count_def two)
  have i3: "sched_inv s3"
  proof -
    have "inj_on (task s3) {j. j < NR_TASKS \<and> task s3 j \<noteq> 0}"
      using inj unfolding three by (auto simp: inj_on_def)
    moreover have "slice_ok (ts s3 (task s3 j))" if "1 \<le> j" "j < NR_TASKS" "task s3 j \<noteq> 0" for j
      using inv that unfolding three two by (auto simp: sched_inv_def slice_ok_def cur_def)
    ultimately show ?thesis by (simp add: sched_inv_def)
  qed
  have c3: "task s3 c \<noteq> 0" using c i(4) by (auto simp: three)
  from schedule_scheduled [OF i3 c(1,2) c3] obtain t where t: "schedule s3 = Some t" "scheduled s3 t" by blast
  have r: "task t = task s3" "mem_map t = mem_map s3" "umem t = umem s3" using t(2) by (auto simp: scheduled_def ran_def)
  have "same_child (ts s3 (current s)) (ts t (current s))" "sched_inv t" using t(2) by (simp_all add: scheduled_def)
  then have "reaped i s t a"
    using r by (simp add: reaped_def Let_def three two same_child_def) (simp add: s3_def set_count_def two put_fs_long_bytes)
  moreover have "reap ?p a s = bnd (call_schedule s3) (\<lambda>_ s. Ok (pid ?x) s)" by (simp add: reap_def Let_def s2_def [symmetric] rel)
  ultimately show ?thesis using t(1) by (auto simp: call_schedule_def)
qed

section \<open>The system call\<close>

text \<open>
  The children that a call asks for: another task whose parent is the caller and which, for a positive \<open>n\<close>, has that process number, for 0 is in
  the group of the caller, for -1 is any, and for another negative number is in the group with the opposite number (or, what no task has, itself has
  the negative process number).
\<close>

definition asked_for :: "int \<Rightarrow> nat \<Rightarrow> 'z sched_st_scheme \<Rightarrow> bool" where
  "asked_for n p s \<longleftrightarrow> p \<notin> {0, current s} \<and> father (ts s p) = pid (ts s (current s)) \<and>
     (if n > 0 then pid (ts s p) = n
      else if n = 0 then pid (ts s p) = 0 \<or> pgrp (ts s p) = pgrp (ts s (current s))
      else n = -1 \<or> pgrp (ts s p) = s32 (- n) \<or> pid (ts s p) = n)"

lemma wait_child_iff: "wait_child n p s \<longleftrightarrow> asked_for n p s"
  by (auto simp: wait_child_def asked_for_def cur_def)

definition zombie_child :: "int \<Rightarrow> 'z sched_st_scheme \<Rightarrow> nat \<Rightarrow> bool" where
  "zombie_child n s i \<longleftrightarrow> 1 \<le> i \<and> i < NR_TASKS \<and> asked_for n (task s i) s \<and> state (ts s (task s i)) = TASK_ZOMBIE"

lemma wait_zombie_highest: "wait_zombie n s = Some i \<longleftrightarrow> zombie_child n s i \<and> (\<forall>j > i. \<not> zombie_child n s j)"
  unfolding wait_zombie_def find_down zombie_child_def wait_child_iff by auto

lemma wait_zombie_none: "wait_zombie n s = None \<longleftrightarrow> (\<forall>i. \<not> zombie_child n s i)"
  unfolding wait_zombie_def find_down_none zombie_child_def wait_child_iff by auto

lemma wait_any_iff: "wait_any n s \<longleftrightarrow> (\<exists>i. 1 \<le> i \<and> i < NR_TASKS \<and> asked_for n (task s i) s)"
  by (auto simp: wait_any_def list_ex_iff wait_child_iff)

text \<open>
  C40: every outcome of \<open>sys_waitpid\<close>, once the page of the status is writable. If a child that the call asks for is a
  zombie, the one in the highest slot is removed: its slot is free, the frame of its structure is given back, the four bytes of its exit
  code are stored at the address, its times are added to those of the caller, and its number is returned (at once, or after the
  scheduler has run another task first). If there is no child that the call asks for the result is \<open>-ECHILD\<close>. If there are only living ones
  the call returns 0 when asked not to block; otherwise it returns \<open>-EINTR\<close> with a signal other than \<open>SIGCHLD\<close> pending or the caller
  gives up the processor. In every case the call ends in its first or second round from the label \<open>repeat\<close>.
\<close>

theorem sys_waitpid_ok:
  fixes s v :: "'z um_st_scheme"
  assumes inv: "sched_inv s" and c: "1 \<le> c" "c < NR_TASKS" "task s c \<noteq> 0" "current s = task s c"
    and v: "verify_area a 4 s = Ok () v"
    and f: "\<And>i. zombie_child n s i \<Longrightarrow> 512 \<le> pfn (of_nat (task s i)) \<and> pfn (of_nat (task s i)) < 2048 \<and> mem_map v (pfn (of_nat (task s i)) - 512) \<noteq> 0"
  shows "(\<forall>i. zombie_child n s i \<and> (\<forall>j > i. \<not> zombie_child n s j) \<longrightarrow>
      (\<exists>t. (sys_waitpid n a options s = Ok (pid (ts s (task s i))) t \<or> sys_waitpid n a options s = Sleep t) \<and> reaped i v t a)) \<and>
    ((\<forall>i. \<not> zombie_child n s i) \<longrightarrow>
      (if \<forall>i. 1 \<le> i \<longrightarrow> i < NR_TASKS \<longrightarrow> \<not> asked_for n (task s i) s then sys_waitpid n a options s = Ok (- ECHILD) v
       else if options AND WNOHANG \<noteq> 0 then sys_waitpid n a options s = Ok 0 v
       else \<exists>t. ran v t \<and>
         (sys_waitpid n a options s = Sleep t \<or>
          sys_waitpid n a options s = Ok (- EINTR) t \<and> current t = current s \<and>
            signal (cur t) \<noteq> 0 \<and> signal (cur t) AND sigmask SIGCHLD = 0))) \<and>
    ((\<exists>r. wait_round n a options False v = Inl r) \<or>
     (\<exists>u r. wait_round n a options False v = Inr u \<and> wait_round n a options True u = Inl r))"
proof -
  have mo: "mm_only s v" using mm_only_verify_area [of a 4 s] v by simp
  then have e: "task v = task s" "ts v = ts s" "current v = current s" "cur v = cur s" by (auto simp: mm_only_def cur_def)
  have w: "asked_for n p v = asked_for n p s" for p by (simp add: asked_for_def e)
  then have z: "zombie_child n v i = zombie_child n s i" for i by (simp add: zombie_child_def w e)
  have iv: "sched_inv v" using inv sched_inv_cong [OF e(1,2)] by simp
  have cv: "task v c \<noteq> 0" "current v = task v c" using c e by simp_all
  have r: "sys_waitpid n a options s = ended (wait_loop_pid n a options False v)" by (simp add: sys_waitpid_def v)
  note loop = wait_loop_eq [of n a options False v]
  show ?thesis
  proof (intro conjI allI impI)
    fix i assume i: "zombie_child n s i \<and> (\<forall>j > i. \<not> zombie_child n s j)"
    then have zi: "wait_zombie n v = Some i" unfolding wait_zombie_highest z by simp
    have "1 \<le> i" "i < NR_TASKS" "task v i \<noteq> 0" "task v i \<noteq> current v" using i e by (auto simp: zombie_child_def asked_for_def)
    then have "\<exists>t. (reap (task v i) a v = Ok (pid (ts v (task v i))) t \<or> reap (task v i) a v = Sleep t) \<and> reaped i v t a"
      using f [of i] i e(1) by (intro reap_ok [OF iv c(1,2) cv]) auto
    then show "\<exists>t. (sys_waitpid n a options s = Ok (pid (ts s (task s i))) t \<or> sys_waitpid n a options s = Sleep t) \<and> reaped i v t a"
      using zi by (simp add: r loop e)
  next
    assume none: "\<forall>i. \<not> zombie_child n s i"
    then have zn: "wait_zombie n v = None" unfolding wait_zombie_none z by simp
    have any: "wait_any n v \<longleftrightarrow> \<not> (\<forall>i. 1 \<le> i \<longrightarrow> i < NR_TASKS \<longrightarrow> \<not> asked_for n (task s i) s)" by (simp add: wait_any_iff e w)
    show "if \<forall>i. 1 \<le> i \<longrightarrow> i < NR_TASKS \<longrightarrow> \<not> asked_for n (task s i) s then sys_waitpid n a options s = Ok (- ECHILD) v
       else if options AND WNOHANG \<noteq> 0 then sys_waitpid n a options s = Ok 0 v
       else \<exists>t. ran v t \<and>
         (sys_waitpid n a options s = Sleep t \<or>
          sys_waitpid n a options s = Ok (- EINTR) t \<and> current t = current s \<and>
            signal (cur t) \<noteq> 0 \<and> signal (cur t) AND sigmask SIGCHLD = 0)"
    proof (cases "wait_any n v \<and> options AND WNOHANG = 0")
      case True
      with wait_blocks [OF iv c(1,2) cv zn, of False options a] obtain t where
        "wait_loop_pid n a options False v = Some (Sleep t) \<or> wait_loop_pid n a options False v = Some (Ok (- EINTR) t) \<and>
           current t = current v \<and> signal (cur t) \<noteq> 0 \<and> signal (cur t) AND sigmask SIGCHLD = 0" "ran v t" by blast
      then show ?thesis using True any by (auto simp: r e)
    next
      case False
      then have "sys_waitpid n a options s = (if wait_any n v then Ok 0 v else Ok (- ECHILD) v)"
        using zn by (cases "wait_any n v") (simp_all add: r loop)
      then show ?thesis using any False by auto
    qed
  next
    have "two_rounds n a options False v"
    proof (cases "wait_zombie n v = None \<and> wait_any n v \<and> options AND WNOHANG = 0")
      case True
      then show ?thesis using wait_blocks [OF iv c(1,2) cv, of n False options a] by blast
    qed (auto simp: two_rounds_def wait_round_def split: option.splits if_splits)
    then show "(\<exists>r. wait_round n a options False v = Inl r) \<or>
        (\<exists>u r. wait_round n a options False v = Inr u \<and> wait_round n a options True u = Inl r)"
      unfolding two_rounds_def by (cases "wait_round n a options False v") auto
  qed
qed

section \<open>A parent with a zombie\<close>

definition wait_demo :: um_st where
  "wait_demo = um_empty\<lparr>task := (\<lambda>_. 0)(0 := 0x1000, 1 := 0x2000, 2 := 0x200000), current := 0x2000,
     ts := (ts um_empty)(0x2000 := (INIT_TASK 0x1000)\<lparr>pid := 5\<rparr>,
       0x200000 := (INIT_TASK 0x1000)\<lparr>pid := 7, father := 5, state := TASK_ZOMBIE, exit_code := 0x300, utime := 4\<rparr>),
     mem_map := (\<lambda>_. 0)(0 := 1)\<rparr>"

lemma wait_demo_sel:
  "task wait_demo = (\<lambda>_. 0)(0 := 0x1000, 1 := 0x2000, 2 := 0x200000)" "current wait_demo = 0x2000"
  "cur wait_demo = (INIT_TASK 0x1000)\<lparr>pid := 5\<rparr>" "pm wait_demo = (\<lambda>_. 0)" "mem_map wait_demo = (\<lambda>_. 0)(0 := 1)"
  "ts wait_demo 0x200000 = (INIT_TASK 0x1000)\<lparr>pid := 7, father := 5, state := TASK_ZOMBIE, exit_code := 0x300, utime := 4\<rparr>"
  "ts wait_demo 0x2000 = (INIT_TASK 0x1000)\<lparr>pid := 5\<rparr>"
  by (simp_all add: wait_demo_def cur_def um_empty_def mm_st.extend_def mm_empty_def sched_st.extend_def)

lemma wait_demo_inv: "sched_inv wait_demo"
proof -
  have "inj_on (task wait_demo) {i. i < NR_TASKS \<and> task wait_demo i \<noteq> 0}" by (auto simp: inj_on_def wait_demo_sel split: if_splits)
  moreover have "slice_ok (ts wait_demo (task wait_demo i))" if "1 \<le> i" "task wait_demo i \<noteq> 0" for i
    using that by (auto simp: wait_demo_sel slice_ok_def INIT_TASK_def split: if_splits)
  ultimately show ?thesis by (simp add: sched_inv_def)
qed

lemma wait_demo_zombie: "zombie_child 7 wait_demo i \<longleftrightarrow> i = 2"
  by (auto simp: zombie_child_def asked_for_def wait_demo_sel NR_TASKS_def INIT_TASK_def split: if_splits)

theorem sys_waitpid_witness:
  "sched_inv wait_demo \<and> (\<exists>t. (sys_waitpid 7 0x1000 0 wait_demo = Ok 7 t \<or> sys_waitpid 7 0x1000 0 wait_demo = Sleep t) \<and>
     task t 2 = 0 \<and> mem_map t 0 = 0 \<and> cutime (ts t 0x2000) = 4)"
proof -
  have v: "verify_area 0x1000 4 wait_demo = Ok () wait_demo"
    by (simp add: verify_area_def Let_def s32_def numeral_2_eq_2 write_verify_def ldl_def wait_demo_sel)
  have f: "512 \<le> pfn (of_nat (task wait_demo i)) \<and> pfn (of_nat (task wait_demo i)) < 2048 \<and>
      mem_map wait_demo (pfn (of_nat (task wait_demo i)) - 512) \<noteq> 0" if "zombie_child 7 wait_demo i" for i
    using that by (simp add: wait_demo_zombie wait_demo_sel pfn_def)
  have c: "1 \<le> (1::nat)" "1 < NR_TASKS" "task wait_demo 1 \<noteq> 0" "current wait_demo = task wait_demo 1"
    by (simp_all add: wait_demo_sel NR_TASKS_def)
  have "zombie_child 7 wait_demo 2 \<and> (\<forall>j > 2. \<not> zombie_child 7 wait_demo j)" by (auto simp: wait_demo_zombie)
  with sys_waitpid_ok [OF wait_demo_inv c v f, of 7 0] obtain t where
    t: "sys_waitpid 7 0x1000 0 wait_demo = Ok (pid (ts wait_demo (task wait_demo 2))) t \<or> sys_waitpid 7 0x1000 0 wait_demo = Sleep t"
      "reaped 2 wait_demo t 0x1000" by blast
  have "task t 2 = 0" "mem_map t 0 = 0" "cutime (ts t 0x2000) = 4"
    using t(2) by (simp_all add: reaped_def Let_def wait_demo_sel pfn_def s32_def INIT_TASK_def)
  then show ?thesis using t(1) wait_demo_inv by (intro conjI exI [of _ t]) (simp_all add: wait_demo_sel)
qed

end
