(* ===== verification/Signal_Props.thy ===== *)
theory Signal_Props
  imports Syscall Exec_Props File_Write
begin

text \<open>
  Delivery of signals on the way back to the user: which signal is taken, and the frame that its handler finds.
\<close>

section \<open>The frame on the stack\<close>

lemma push_frame_snoc: "push_frame p (ws @ [w]) s = put_fs_long w (p + 4 * of_nat (length ws)) (push_frame p ws s)"
  by (simp add: push_frame_def enumerate_append_eq)

lemma push_frame_fields:
  "ts (push_frame p ws s) = ts s" "current (push_frame p ws s) = current s" "task (push_frame p ws s) = task s"
  by (induction ws rule: rev_induct)
    (simp_all add: push_frame_snoc put_fs_long_def put_fs_word_def put_fs_byte_def, simp_all add: push_frame_def)

lemma push_frame_ok:
  "unat p + 4 * length ws < 2 ^ 32 \<Longrightarrow>
   (\<forall>k < length ws. get_fs_long (p + of_nat (4 * k)) (push_frame p ws s) = ws ! k) \<and>
   (\<forall>b. outside p (length ws) b \<longrightarrow> get_fs_byte b (push_frame p ws s) = get_fs_byte b s)"
proof (induction ws rule: rev_induct)
  case Nil
  then show ?case by (simp add: push_frame_def)
next
  case (snoc w ws)
  let ?a = "p + of_nat (4 * length ws)" and ?t = "push_frame p ws s"
  have a: "unat ?a = unat p + 4 * length ws" using snoc.prems by (intro unat_add_fit) simp
  have IH: "\<And>k. k < length ws \<Longrightarrow> get_fs_long (p + of_nat (4 * k)) ?t = ws ! k"
    "\<And>b. outside p (length ws) b \<Longrightarrow> get_fs_byte b ?t = get_fs_byte b s" using snoc.IH snoc.prems by simp_all
  have e: "push_frame p (ws @ [w]) s = put_fs_long w ?a ?t" by (simp add: push_frame_snoc)
  have fit: "unat ?a + 4 < 2 ^ 32" using a snoc.prems by simp
  have out: "get_fs_byte b (put_fs_long w ?a ?t) = get_fs_byte b ?t" if "outside ?a 1 b" for b by (rule put_long_outside [OF fit that])
  have "get_fs_long (p + of_nat (4 * k)) (put_fs_long w ?a ?t) = (ws @ [w]) ! k" if k: "k < Suc (length ws)" for k
  proof (cases "k = length ws")
    case True
    then show ?thesis by (simp add: get_put_long)
  next
    case False
    have u: "unat (p + of_nat (4 * k)) = unat p + 4 * k" using k snoc.prems by (intro unat_add_fit) simp
    have "get_fs_long (p + of_nat (4 * k)) (put_fs_long w ?a ?t) = get_fs_long (p + of_nat (4 * k)) ?t"
      using False k snoc.prems by (intro long_outside [OF _ _ out]) (simp_all only: u a, simp_all)
    then show ?thesis using IH(1) False k by (simp add: nth_append)
  qed
  moreover have "get_fs_byte b (put_fs_long w ?a ?t) = get_fs_byte b s" if "outside p (Suc (length ws)) b" for b
  proof -
    have "outside ?a 1 b" "outside p (length ws) b" using that a unfolding outside_def by auto
    then show ?thesis using out IH(2) by simp
  qed
  ultimately show ?case unfolding e by simp
qed

section \<open>Which signal\<close>

text \<open>A pending signal has an effect unless it is ignored, or is \<open>SIGCHLD\<close> with the default action.\<close>

definition takes_effect :: "(nat \<Rightarrow> u32) \<Rightarrow> u32 \<Rightarrow> nat \<Rightarrow> bool" where
  "takes_effect fn w n \<longleftrightarrow> bit w n \<and> fn n \<noteq> 1 \<and> \<not> (fn n = 0 \<and> n + 1 = SIGCHLD)"

text \<open>The pending signals behind number \<open>n\<close>.\<close>

definition above :: "nat \<Rightarrow> u32 \<Rightarrow> u32" where
  "above n w = push_bit (Suc n) (drop_bit (Suc n) w)"

lemma bit_above: "bit (above n w) k \<longleftrightarrow> bit w k \<and> n < k"
  unfolding above_def bit_push_bit_iff bit_drop_bit_eq by (auto simp: Suc_le_eq dest: bit_imp_le_length)

lemma bsf_none: "bsf w = None \<longleftrightarrow> w = 0"
proof -
  have "bsf w = None \<longleftrightarrow> (\<forall>n < 32. \<not> bit w n)" by (auto simp: bsf_def find_None_iff)
  also have "\<dots> \<longleftrightarrow> w = 0" by (auto simp: bit_eq_iff dest: bit_imp_le_length)
  finally show ?thesis .
qed

lemma next_signal_spec:
  "next_signal fn w =
     (if \<exists>n. takes_effect fn w n
      then let n = LEAST n. takes_effect fn w n in (if fn n = 0 then Default_exit (n + 1) else Run_handler n, above n w)
      else (No_signal, 0))"
proof (induction fn w rule: next_signal.induct)
  case (1 fn w)
  show ?case
  proof (cases "bsf w")
    case None
    then have "w = 0" by (simp add: bsf_none)
    then show ?thesis using None by (simp add: next_signal.simps [of fn] takes_effect_def)
  next
    case (Some m)
    have m: "m < 32" "bit w m" "\<And>k. k < m \<Longrightarrow> \<not> bit w k" using bsf_bit [OF Some] by auto
    let ?v = "unset_bit m w"
    show ?thesis
    proof (cases "takes_effect fn w m")
      case True
      then have "(LEAST n. takes_effect fn w n) = m" using m(3) by (intro Least_equality) (auto simp: takes_effect_def not_less [symmetric])
      moreover have "above m w = ?v" using m(2,3) by (intro bit_word_eqI) (auto simp: bit_above bit_unset_bit_iff, metis linorder_neqE_nat)
      moreover have "fn m \<noteq> 1" "fn m = 0 \<Longrightarrow> m + 1 \<noteq> SIGCHLD" using True by (auto simp: takes_effect_def)
      ultimately show ?thesis using True Some by (auto simp: next_signal.simps [of fn] Let_def)
    next
      case False
      have l: "next_signal fn w = next_signal fn ?v" using False Some m(2) by (auto simp: next_signal.simps [of fn w] takes_effect_def Let_def)
      have IH: "next_signal fn ?v = (if \<exists>n. takes_effect fn ?v n
          then let n = LEAST n. takes_effect fn ?v n in (if fn n = 0 then Default_exit (n + 1) else Run_handler n, above n ?v)
          else (No_signal, 0))"
        using 1 [OF Some refl] False m(2) by (cases "fn m = 0") (auto simp: takes_effect_def)
      have t: "takes_effect fn ?v = takes_effect fn w" using False by (auto simp: fun_eq_iff takes_effect_def bit_unset_bit_iff)
      have ab: "above n ?v = above n w" if "takes_effect fn w n" for n
      proof -
        have "m \<le> n" using that m(3) by (auto simp: takes_effect_def not_less [symmetric])
        then show ?thesis by (intro bit_word_eqI) (auto simp: bit_above bit_unset_bit_iff)
      qed
      show ?thesis
      proof (cases "\<exists>n. takes_effect fn w n")
        case True
        then have "takes_effect fn w (LEAST n. takes_effect fn w n)" by (rule LeastI_ex)
        then show ?thesis using ab unfolding l IH t by (simp add: Let_def)
      qed (simp add: l IH t)
    qed
  qed
qed

section \<open>The way back to the user\<close>

text \<open>The state that the loop over the pending signals leaves.\<close>

definition with_pending :: "u32 \<Rightarrow> 'z sched_st_scheme \<Rightarrow> 'z sched_st_scheme" where
  "with_pending w s = upd_cur (\<lambda>t. t\<lparr>signal := w\<rparr>) s"

lemma enter_handler_ok:
  fixes s v :: "'z um_st_scheme"
  assumes v: "verify_area (r_esp r - 28) 28 (upd_cur (\<lambda>t. t\<lparr>sig_fn := (sig_fn t)(n := 0)\<rparr>) s) = Ok () v"
    and p: "unat (r_esp r - 28) + 28 < 2 ^ 32"
  shows "\<exists>t. enter_handler n r s = Ok (r\<lparr>r_eip := sig_fn (cur s) n, r_esp := r_esp r - 28\<rparr>) t \<and>
    map (\<lambda>k. get_fs_long (r_esp r - 28 + of_nat (4 * k)) t) [0..<7] =
      [sig_restorer (cur s), of_nat (n + 1), r_eax r, r_ecx r, r_edx r, r_eflags r, r_eip r] \<and>
    (\<forall>b. outside (r_esp r - 28) 7 b \<longrightarrow> get_fs_byte b t = get_fs_byte b s) \<and>
    cur t = (cur s)\<lparr>sig_fn := (sig_fn (cur s))(n := 0)\<rparr>"
proof -
  let ?u = "upd_cur (\<lambda>t. t\<lparr>sig_fn := (sig_fn t)(n := 0)\<rparr>) s"
  let ?ws = "[sig_restorer (cur v), of_nat (n + 1), r_eax r, r_ecx r, r_edx r, r_eflags r, r_eip r]"
  let ?t = "push_frame (r_esp r - 28) ?ws v"
  have "mm_only ?u v" using mm_only_verify_area [of "r_esp r - 28" 28 ?u] v by simp
  then have f: "ts v = ts ?u" "current v = current s" "umem v = umem s" by (auto simp: mm_only_def upd_cur_def upd_task_def)
  have c: "cur v = (cur s)\<lparr>sig_fn := (sig_fn (cur s))(n := 0)\<rparr>" using f(1,2) by (simp add: cur_def)
  have g: "get_fs_byte b v = get_fs_byte b s" for b using f(2,3) by (simp add: get_fs_byte_def)
  have len: "length ?ws = 7" by simp
  have p': "unat (r_esp r - 28) + 4 * 7 < 2 ^ 32" using p by simp
  have pf: "\<And>k. k < 7 \<Longrightarrow> get_fs_long (r_esp r - 28 + of_nat (4 * k)) ?t = ?ws ! k"
    "\<And>b. outside (r_esp r - 28) 7 b \<Longrightarrow> get_fs_byte b ?t = get_fs_byte b v"
    using push_frame_ok [of "r_esp r - 28" ?ws v, unfolded len, OF p'] by blast+
  have "map (\<lambda>k. get_fs_long (r_esp r - 28 + of_nat (4 * k)) ?t) [0..<7] = map ((!) ?ws) [0..<7]"
    by (rule map_cong [OF refl], rule pf(1)) simp
  also have "\<dots> = ?ws" by (rule map_nth [of ?ws, unfolded len])
  finally have m: "map (\<lambda>k. get_fs_long (r_esp r - 28 + of_nat (4 * k)) ?t) [0..<7] = ?ws" .
  have "cur ?t = cur v" by (simp add: cur_def push_frame_fields)
  then show ?thesis using m pf(2) g c v by (intro exI [of _ ?t]) (simp add: enter_handler_def Let_def)
qed

lemma ret_no_signal:
  assumes "current s \<noteq> task s 0" "r_cs r AND 3 \<noteq> 0" "r_ss r AND 0xffff = 0x17" "\<nexists>n. takes_effect (sig_fn (cur s)) (signal (cur s)) n"
  shows "ret_from_sys_call r s = Ok r (with_pending 0 s)"
  using assms by (simp add: ret_from_sys_call_def next_signal_spec with_pending_def Let_def)

text \<open>
  C36: on the way back to the user mode of a task other than task 0, let \<open>n\<close> be the lowest pending signal that is neither ignored
  nor \<open>SIGCHLD\<close> with the default action. It and the signals below it are no longer pending, those above it still are. With
  the default action the task exits with the number of the signal. With a handler, and a stack that is writable, the
  handler is entered with seven words on the stack: the restorer, the number of the signal, the saved \<open>eax\<close>, \<open>ecx\<close>, \<open>edx\<close>, flags
  and the address to return to; no other byte of the user changes, and the action of the signal is back to the default.
\<close>

theorem ret_from_sys_call_ok:
  fixes s v :: "'z fs_st_scheme"
  assumes user: "current s \<noteq> task s 0" "r_cs r AND 3 \<noteq> 0" "r_ss r AND 0xffff = 0x17"
    and n: "takes_effect (sig_fn (cur s)) (signal (cur s)) n" "\<And>k. k < n \<Longrightarrow> \<not> takes_effect (sig_fn (cur s)) (signal (cur s)) k"
    and v: "verify_area (r_esp r - 28) 28
      (upd_cur (\<lambda>t. t\<lparr>sig_fn := (sig_fn t)(n := 0)\<rparr>) (with_pending (above n (signal (cur s))) s)) = Ok () v"
    and p: "unat (r_esp r - 28) + 28 < 2 ^ 32"
  shows "if sig_fn (cur s) n = 0
     then ret_from_sys_call r s = bnd (do_exit (int (n + 1)) (with_pending (above n (signal (cur s))) s)) (\<lambda>_ s. Ok r s)
     else \<exists>t. ret_from_sys_call r s = Ok (r\<lparr>r_eip := sig_fn (cur s) n, r_esp := r_esp r - 28\<rparr>) t \<and>
       map (\<lambda>k. get_fs_long (r_esp r - 28 + of_nat (4 * k)) t) [0..<7] =
         [sig_restorer (cur s), of_nat (n + 1), r_eax r, r_ecx r, r_edx r, r_eflags r, r_eip r] \<and>
       (\<forall>b. outside (r_esp r - 28) 7 b \<longrightarrow> get_fs_byte b t = get_fs_byte b s) \<and>
       cur t = (cur s)\<lparr>signal := above n (signal (cur s)), sig_fn := (sig_fn (cur s))(n := 0)\<rparr>"
proof -
  let ?fn = "sig_fn (cur s)" and ?w = "signal (cur s)"
  let ?s = "with_pending (above n ?w) s"
  have l: "(LEAST n. takes_effect ?fn ?w n) = n" using n by (intro Least_equality) (auto simp: not_less [symmetric])
  then have ns: "next_signal ?fn ?w = (if ?fn n = 0 then Default_exit (n + 1) else Run_handler n, above n ?w)"
    using n(1) unfolding next_signal_spec by (auto simp: Let_def)
  have ret: "ret_from_sys_call r s = (if ?fn n = 0 then bnd (do_exit (int (n + 1)) ?s) (\<lambda>_ s. Ok r s) else enter_handler n r ?s)"
    using user ns by (simp add: ret_from_sys_call_def with_pending_def Let_def)
  have c: "cur ?s = (cur s)\<lparr>signal := above n ?w\<rparr>" by (simp add: with_pending_def cur_def)
  have g: "get_fs_byte b ?s = get_fs_byte b s" for b by (simp add: with_pending_def get_fs_byte_def upd_cur_def upd_task_def)
  show ?thesis using enter_handler_ok [OF v p] unfolding ret c g by simp
qed

section \<open>A handler for signal 3\<close>

text \<open>Signals 2, 3 and 17 are pending; 2 is ignored.\<close>

definition signal_demo :: fs_st where
  "signal_demo = upd_cur (\<lambda>t. t\<lparr>signal := 0x10006, sig_fn := (\<lambda>_. 0)(1 := 1, 2 := 0x800), sig_restorer := 0x900\<rparr>) read_demo"

definition frame_demo :: sys_frame where
  "frame_demo = \<lparr>r_ebp = 0, r_edi = 0, r_esi = 0, r_gs = 0x17, r_ebx = 1, r_ecx = 2, r_edx = 3, r_fs = 0x17, r_es = 0x17, r_ds = 0x17,
     r_eip = 0x400, r_cs = 0x0f, r_eflags = 0x202, r_esp = 0x2000, r_ss = 0x17, r_eax = 5\<rparr>"

lemma signal_demo_sel:
  "current signal_demo \<noteq> task signal_demo 0" "signal (cur signal_demo) = 0x10006" "sig_fn (cur signal_demo) = (\<lambda>_. 0)(1 := 1, 2 := 0x800)"
  "sig_restorer (cur signal_demo) = 0x900"
proof -
  have "task fs_demo = task fs_base" "current fs_demo = current fs_base" by (simp_all add: fs_demo_def buffer_init_def Let_def printk_def)
  then have "current fs_demo \<noteq> task fs_demo 0"
    by (simp add: fs_base_def hd_st.extend_def hd_demo_def bc_st.extend_def tty_st.extend_def tty_boot_def con_st.extend_def
        con_ready_def con_init_def printk_def gotoxy_def con_boot_def um_st.extend_def um_empty_def mm_st.extend_def
        mm_empty_def sched_st.extend_def two_tasks_def)
  then show "current signal_demo \<noteq> task signal_demo 0"
    by (simp add: signal_demo_def read_demo_def upd_cur_def upd_task_def file_demo_def upd_inode_def upd_file_def)
qed (simp_all add: signal_demo_def cur_def)

theorem signal_delivery_witness:
  "\<exists>t. ret_from_sys_call frame_demo signal_demo = Ok (frame_demo\<lparr>r_eip := 0x800, r_esp := 0x1fe4\<rparr>) t \<and>
     map (\<lambda>k. get_fs_long (0x1fe4 + of_nat (4 * k)) t) [0..<7] = [0x900, 3, 5, 2, 3, 0x202, 0x400] \<and> signal (cur t) = above 2 0x10006"
proof -
  note sel = signal_demo_sel
  have n: "takes_effect (sig_fn (cur signal_demo)) (signal (cur signal_demo)) 2" by (simp add: takes_effect_def sel)
  have n': "\<not> takes_effect (sig_fn (cur signal_demo)) (signal (cur signal_demo)) k" if "k < 2" for k
    using that by (auto simp: takes_effect_def sel less_2_cases_iff bit_0)
  have r: "r_cs frame_demo AND 3 \<noteq> 0" "r_ss frame_demo AND 0xffff = 0x17" "r_esp frame_demo - 28 = 0x1fe4"
    by (simp_all add: frame_demo_def)
  let ?s = "upd_cur (\<lambda>t. t\<lparr>sig_fn := (sig_fn t)(2 := 0)\<rparr>) (with_pending (above 2 (signal (cur signal_demo))) signal_demo)"
  have "pm ?s = (\<lambda>_. 0)"
    using read_demo_sel(5) by (simp add: with_pending_def signal_demo_def upd_cur_def upd_task_def)
  then have v: "verify_area (r_esp frame_demo - 28) 28 ?s = Ok () ?s" by (rule verify_unmapped)
  have p: "unat (r_esp frame_demo - 28) + 28 < 2 ^ 32" unfolding r(3) by simp
  have h: "sig_fn (cur signal_demo) 2 = 0x800" by (simp add: sel)
  from ret_from_sys_call_ok [OF sel(1) r(1,2) n n' v p] h obtain t where
    "ret_from_sys_call frame_demo signal_demo = Ok (frame_demo\<lparr>r_eip := 0x800, r_esp := 0x1fe4\<rparr>) t"
    "map (\<lambda>k. get_fs_long (0x1fe4 + of_nat (4 * k)) t) [0..<7] =
       [0x900, of_nat (2 + 1), r_eax frame_demo, r_ecx frame_demo, r_edx frame_demo, r_eflags frame_demo, r_eip frame_demo]"
    "cur t = (cur signal_demo)\<lparr>signal := above 2 (signal (cur signal_demo)), sig_fn := (sig_fn (cur signal_demo))(2 := 0)\<rparr>"
    unfolding r(3) sel(4) by auto
  then show ?thesis by (intro exI [of _ t]) (simp add: frame_demo_def sel)
qed

end
