(* ===== verification/Identity.thy ===== *)
theory Identity
  imports Fork
begin

text \<open>
  Identities, sessions and process groups over sequences of system calls.

  \<open>id_step\<close> is one system call of the running task that touches the identity of a task, or the switch to another task.
  The invariant \<open>ids_ok\<close>, that no task ever has a saved identity other than 0 and that a session leader leads the session
  and the group with its own number, holds in every state such steps reach.
\<close>

inductive id_step :: "'z proc_st_scheme \<Rightarrow> 'z proc_st_scheme \<Rightarrow> bool" where
  id_run: "id_step s (s\<lparr>current := p\<rparr>)"
| id_fork: "copy_process nr r s = Ok e t \<Longrightarrow> id_step s t"
| id_setpgid: "sys_setpgid pid0 pgid0 s = (e, t) \<Longrightarrow> id_step s t"
| id_setsid: "sys_setsid s = (e, t) \<Longrightarrow> id_step s t"
| id_setuid: "sys_setuid u s = (e, t) \<Longrightarrow> id_step s t"
| id_setgid: "sys_setgid g s = (e, t) \<Longrightarrow> id_step s t"
| id_umask: "sys_umask m s = (e, t) \<Longrightarrow> id_step s t"
| id_kill: "sys_kill n sig s = (e, t) \<Longrightarrow> id_step s t"
| id_orphan: "id_step s (orphan n s)"

definition task_ids :: "task_struct \<Rightarrow> bool" where
  "task_ids t \<longleftrightarrow> suid t = 0 \<and> (leader t \<noteq> 0 \<longrightarrow> session t = pid t \<and> pgrp t = pid t)"

definition ids_ok :: "'z sched_st_scheme \<Rightarrow> bool" where
  "ids_ok s \<longleftrightarrow> (\<forall>p. task_ids (ts s p))"

lemma ids_upd: "ids_ok s \<Longrightarrow> (\<And>t. task_ids t \<Longrightarrow> task_ids (f t)) \<Longrightarrow> ids_ok (upd_task p f s)"
  by (simp add: ids_ok_def upd_task_def)

lemma ids_upd_cur: "ids_ok s \<Longrightarrow> (\<And>t. task_ids t \<Longrightarrow> task_ids (f t)) \<Longrightarrow> ids_ok (upd_cur f s)"
  unfolding upd_cur_def by (rule ids_upd)

lemma ids_fold: "ids_ok s \<Longrightarrow> (\<And>i s. ids_ok s \<Longrightarrow> ids_ok (f i s)) \<Longrightarrow> ids_ok (fold f is s)"
  by (induction "is" arbitrary: s) auto

text \<open>Of the identities \<open>fork\<close> only clears the leadership of the child.\<close>

definition ids_frame :: "'z sched_st_scheme \<Rightarrow> 'z sched_st_scheme \<Rightarrow> bool" where
  "ids_frame s t \<longleftrightarrow> (ids_ok s \<longrightarrow> ids_ok t)"

interpretation idf: step_frame ids_frame
  by unfold_locales (auto simp: ids_frame_def)

lemma mm_only_ids: "mm_only s t \<Longrightarrow> ids_frame s t"
  by (simp add: ids_frame_def ids_ok_def mm_only_sched(2))

lemma ids_child: "task_ids t \<Longrightarrow> task_ids ((child_task nr page r n now t)\<lparr>tss := x\<rparr>)" "task_ids t \<Longrightarrow> task_ids (child_task nr page r n now t)"
  by (simp_all add: task_ids_def child_task_def)

lemma ids_set_ldt: "ids_ok s \<Longrightarrow> ids_ok (set_ldt_base p n b s)"
  unfolding set_ldt_base_def by (erule ids_upd) (simp add: task_ids_def)

lemma ids_copy_mem: "returns (copy_mem nr p s) (\<lambda>_ t. ids_frame s t)"
proof -
  have l: "ids_frame s (set_ldt_base p 2 b (set_ldt_base p 1 b s))" for b by (simp add: ids_frame_def ids_set_ldt)
  have c: "returns (copy_page_tables a b n u) (\<lambda>_ t. ids_frame u t)" for a b n and u :: "'z um_st_scheme"
    using mm_only_copy_page_tables by (rule returns_mono) (rule mm_only_ids)
  have f: "returns (free_page_tables a n u) (\<lambda>_ t. ids_frame u t)" for a n and u :: "'z um_st_scheme"
    using mm_only_free_page_tables by (rule returns_mono) (rule mm_only_ids)
  have "returns (bnd (copy_page_tables a b n u) (\<lambda>r t. if r \<noteq> 0 then bnd (free_page_tables b n t) (\<lambda>_ t. Ok e t)
      else Ok 0 (t\<lparr>umem := (umem t)(p := umem t (current t))\<rparr>))) (\<lambda>_ t. ids_frame u t)" for a b n e and u :: "'z um_st_scheme"
  proof (rule idf.seq [OF c])
    fix r and t :: "'z um_st_scheme"
    have "returns (bnd (free_page_tables b n t) (\<lambda>_ t. Ok e t)) (\<lambda>_ v. ids_frame t v)" by (rule idf.seq [OF f]) (simp add: idf.refl)
    then show "returns (if r \<noteq> 0 then bnd (free_page_tables b n t) (\<lambda>_ t. Ok e t)
      else Ok 0 (t\<lparr>umem := (umem t)(p := umem t (current t))\<rparr>)) (\<lambda>_ v. ids_frame t v)" by (simp add: ids_frame_def ids_ok_def)
  qed
  note f = idf.after [OF l this]
  show ?thesis unfolding copy_mem_def Let_def by (simp only: f returns.simps simp_thms split: if_split)
qed

lemma ids_copy_process: "ids_ok s \<Longrightarrow> copy_process nr r s = Ok e t \<Longrightarrow> ids_ok t"
proof -
  assume s: "ids_ok s" and c: "copy_process nr r s = Ok e t"
  show "ids_ok t"
  proof (cases s rule: get_free_page_cases)
    case full
    then show ?thesis using c s by (simp add: copy_process_def)
  next
    case (frame i)
    let ?p = "unat (frame i)" and ?s = "child_made nr r i s"
    have "ids_ok ?s" using s ids_child by (auto simp: child_made_def Let_def take_frame_def upd_task_def ids_ok_def cur_def child_task_def task_ids_def)
    moreover obtain x u where u: "copy_mem nr ?p ?s = Ok x u"
      using c unfolding copy_process_frame [OF frame(4,1)] by (cases "copy_mem nr ?p ?s") auto
    ultimately have iu: "ids_ok u" using ids_copy_mem [of nr ?p ?s] by (simp add: ids_frame_def)
    show ?thesis
    proof (cases "x = 0")
      case True
      then have "t = child_entered nr i u" using c u unfolding copy_process_frame [OF frame(4,1)] by simp
      then show ?thesis using iu by (simp add: child_entered_eq ids_ok_def)
    next
      case False
      then have "bnd (free_page (frame i) u) (\<lambda>_ s. Ok (- EAGAIN) s) = Ok e t"
        using c u unfolding copy_process_frame [OF frame(4,1)] by simp
      then have "free_page (frame i) u = Ok () t" by (cases "free_page (frame i) u") auto
      then have "mm_only u t" using mm_only_free_page [of "frame i" u] by simp
      then show ?thesis using iu mm_only_ids by (auto simp: ids_frame_def)
    qed
  qed
qed

lemma ids_setpgid: "ids_ok s \<Longrightarrow> sys_setpgid pid0 pgid0 s = (e, t) \<Longrightarrow> ids_ok t"
  by (auto simp: sys_setpgid_def Let_def ids_ok_def upd_task_def task_ids_def split: option.splits if_splits)

lemma ids_do_kill: "ids_ok s \<Longrightarrow> ids_ok (do_kill n sig priv s)"
  unfolding do_kill_def by (rule ids_fold) (auto simp: send_sig_def task_ids_def intro!: ids_upd)

lemma ids_orphan: "ids_ok s \<Longrightarrow> ids_ok (orphan n s)"
  unfolding orphan_def by (rule ids_fold) (auto simp: task_ids_def intro!: ids_upd)

lemma ids_step: "id_step s t \<Longrightarrow> ids_ok s \<Longrightarrow> ids_ok t"
proof (induction rule: id_step.induct)
  case (id_setsid s e t)
  then show ?case
    by (auto simp: sys_setsid_def Let_def task_ids_def split: if_splits intro!: ids_upd_cur)
next
  case (id_setuid u s e t)
  then show ?case by (auto simp: sys_setuid_def Let_def task_ids_def split: if_splits intro!: ids_upd_cur)
next
  case (id_setgid g s e t)
  then show ?case by (auto simp: sys_setgid_def Let_def task_ids_def split: if_splits intro!: ids_upd_cur)
next
  case (id_umask m s e t)
  then show ?case by (auto simp: sys_umask_def task_ids_def intro!: ids_upd_cur)
next
  case (id_kill n sig s e t)
  then show ?case by (auto simp: sys_kill_def intro!: ids_do_kill)
next
  case (id_run s p)
  then show ?case by (simp add: ids_ok_def)
qed (auto dest: ids_copy_process ids_setpgid intro: ids_orphan)

text \<open>
  C33: in every state that forks, calls on groups, sessions and identities, signals, the loss of parents and task switches
  reach from a state that satisfies it, every task has the saved identity 0 and every session leader is the leader of
  the session and of the process group with its own number.
\<close>

theorem ids_reachable:
  assumes "id_step\<^sup>*\<^sup>* s t" "ids_ok s"
  shows "\<forall>p. suid (ts t p) = 0 \<and> (leader (ts t p) \<noteq> 0 \<longrightarrow> session (ts t p) = pid (ts t p) \<and> pgrp (ts t p) = pid (ts t p))"
proof -
  from assms have "ids_ok t" by (induction rule: rtranclp_induct) (auto dest: ids_step)
  then show ?thesis by (simp add: ids_ok_def task_ids_def)
qed

text \<open>
  A task without privilege cannot gain any with \<open>sys_setuid\<close> in such a state: its real identity stays, its
  effective identity can only become the real one, and every other request is refused with -EPERM and changes nothing.
\<close>

theorem setuid_no_gain:
  assumes "id_step\<^sup>*\<^sup>* s0 s" "ids_ok s0" "uid (cur s) \<noteq> 0" "euid (cur s) \<noteq> 0" "sys_setuid u s = (r, t)"
  shows "uid (cur t) = uid (cur s) \<and> euid (cur t) \<in> {uid (cur s), euid (cur s)} \<and>
    (if u = uint (uid (cur s)) then r = 0 else r = - EPERM \<and> t = s)"
proof -
  from assms(1,2) have "ids_ok s" by (induction rule: rtranclp_induct) (auto dest: ids_step)
  then have "suid (cur s) = 0" by (simp add: ids_ok_def task_ids_def cur_def)
  then show ?thesis using assms(3-5) by (auto simp: sys_setuid_def Let_def upd_cur_def upd_task_def cur_def split: if_splits)
qed

section \<open>An unprivileged task\<close>

definition user_demo :: proc_st where
  "user_demo = upd_cur (\<lambda>t. t\<lparr>uid := 100, euid := 100\<rparr>) fork_demo"

lemma fork_demo_ids: "ids_ok fork_demo"
proof -
  have "ts fs_demo = ts fs_base" by (simp add: fs_demo_def buffer_init_def Let_def printk_def)
  moreover have "task_ids (ts fs_base p)" for p
    by (simp add: task_ids_def fs_base_def hd_st.extend_def hd_demo_def bc_st.extend_def tty_st.extend_def tty_boot_def con_st.extend_def
        con_ready_def con_init_def printk_def gotoxy_def con_boot_def um_st.extend_def um_empty_def mm_st.extend_def
        mm_empty_def sched_st.extend_def two_tasks_def sched_boot_def INIT_TASK_def)
  ultimately show ?thesis by (simp add: ids_ok_def fork_demo_def proc_demo_def fs_st.extend_def task_ids_def)
qed

lemma user_demo_ids: "ids_ok user_demo"
  unfolding user_demo_def by (rule ids_upd_cur [OF fork_demo_ids]) (simp add: task_ids_def)

theorem ids_reachable_witness:
  "ids_ok fork_demo \<and> id_step\<^sup>*\<^sup>* fork_demo (snd (sys_setsid fork_demo)) \<and>
   (\<forall>p. suid (ts (snd (sys_setsid fork_demo)) p) = 0)"
proof -
  have "id_step fork_demo (snd (sys_setsid fork_demo))" by (rule id_setsid [OF prod.collapse [symmetric]])
  then have r: "id_step\<^sup>*\<^sup>* fork_demo (snd (sys_setsid fork_demo))" by (rule r_into_rtranclp)
  from ids_reachable [OF r fork_demo_ids] r fork_demo_ids show ?thesis by blast
qed

theorem setuid_witness:
  "ids_ok user_demo \<and> uid (cur user_demo) = 100 \<and> sys_setuid 0 user_demo = (- EPERM, user_demo)"
proof -
  have i: "uid (cur user_demo) = 100" "euid (cur user_demo) = 100"
    by (simp_all add: user_demo_def upd_cur_def upd_task_def cur_def)
  then have n: "uid (cur user_demo) \<noteq> 0" "euid (cur user_demo) \<noteq> 0" by simp_all
  obtain r t where e: "sys_setuid 0 user_demo = (r, t)" by fastforce
  from setuid_no_gain [OF rtranclp.rtrancl_refl user_demo_ids n e] i have "r = - EPERM" "t = user_demo" by simp_all
  with e i(1) user_demo_ids show ?thesis by simp
qed

end
