(* ===== verification/Elevator.thy ===== *)
theory Elevator
  imports Buffer_Boot
begin

text \<open>
  The queue of disk requests, \<open>add_request\<close> of \<open>kernel/hd.c\<close>, as a list: the requests that following \<open>next\<close> from
  \<open>this_request\<close> visits. Queueing a request while the disk is at work inserts it and loses no other.
\<close>

definition queued :: "'z hd_st_scheme \<Rightarrow> nat list \<Rightarrow> bool" where
  "queued s xs \<longleftrightarrow> distinct xs \<and> walk (\<lambda>i. rq_next (request s i)) (this_request s) xs None"

lemma elevator_stops:
  "walk (\<lambda>i. rq_next (rq i)) (Some a) (a # ys) None \<Longrightarrow>
   \<exists>as b cs. a # ys = as @ b # cs \<and> elevator rq req a = Some b \<and>
     (cs \<noteq> [] \<longrightarrow> (IN_ORDER (rq b) (rq req) \<or> \<not> IN_ORDER (rq b) (rq (hd cs))) \<and> IN_ORDER (rq req) (rq (hd cs)))"
proof (induction ys arbitrary: a)
  case Nil
  then have "elevator rq req a = Some a" by (subst elevator.simps) simp
  then show ?case by (intro exI [of _ "[]"] exI [of _ a]) simp
next
  case (Cons y ys)
  then have next': "rq_next (rq a) = Some y" "walk (\<lambda>i. rq_next (rq i)) (Some y) (y # ys) None" by auto
  show ?case
  proof (cases "(IN_ORDER (rq a) (rq req) \<or> \<not> IN_ORDER (rq a) (rq y)) \<and> IN_ORDER (rq req) (rq y)")
    case True
    then have "elevator rq req a = Some a" using next'(1) by (subst elevator.simps) simp
    then show ?thesis using True by (intro exI [of _ "[]"] exI [of _ a] exI [of _ "y # ys"]) simp
  next
    case False
    then have e: "elevator rq req a = elevator rq req y" using next'(1) by (subst elevator.simps) auto
    from Cons.IH [OF next'(2)] obtain as b cs where
      i: "y # ys = as @ b # cs" "elevator rq req y = Some b"
        "cs \<noteq> [] \<longrightarrow> (IN_ORDER (rq b) (rq req) \<or> \<not> IN_ORDER (rq b) (rq (hd cs))) \<and> IN_ORDER (rq req) (rq (hd cs))" by blast
    then show ?thesis using e by (intro exI [of _ "a # as"] exI [of _ b] exI [of _ cs]) simp
  qed
qed

text \<open>Linking \<open>req\<close> in after \<open>b\<close>.\<close>

lemma walk_insert:
  assumes "walk f p (as @ b # cs) None" "distinct (as @ b # cs)" "r \<notin> set (as @ b # cs)"
  shows "walk (f(r := f b, b := Some r)) p (as @ b # r # cs) None"
proof -
  obtain q where q: "walk f p as q" "q = Some b" "walk f (f b) cs None" using assms(1) by (auto simp: walk_append)
  moreover have "b \<noteq> r" "b \<notin> set as" "b \<notin> set cs" "r \<notin> set as" "r \<notin> set cs" using assms(2,3) by auto
  ultimately show ?thesis by (auto simp: walk_append)
qed

lemma upd_rq_next:
  "rq_next (request (upd_rq i (\<lambda>q. q\<lparr>rq_next := v\<rparr>) s) j) = (if j = i then v else rq_next (request s j))"
  "(request (upd_rq i (\<lambda>q. q\<lparr>rq_next := v\<rparr>) s) j)\<lparr>rq_next := w\<rparr> = (request s j)\<lparr>rq_next := w\<rparr>"
  "this_request (upd_rq i f s) = this_request s" "do_hd (upd_rq i f s) = do_hd s"
  by (simp_all add: upd_rq_def)

lemma upd_rq_sorting: "upd_rq r f (s\<lparr>sorting := b\<rparr>) = (upd_rq r f s)\<lparr>sorting := b\<rparr>"
  by (simp add: upd_rq_def)

text \<open>
  C32: when the disk is at work, \<open>add_request\<close> ends, neither starts nor disturbs a transfer, and inserts the request into
  the queue without losing or reordering another one. It never comes before the two first requests, which the interrupt
  handlers use, and a request that it comes before is one that it is in order with.
\<close>

theorem add_request_elevator:
  assumes q: "queued s xs" "xs \<noteq> []" and r: "req \<notin> set xs" "nsector (request s req) = 2" "rq_next (request s req) = None"
    and busy: "do_hd s \<noteq> No_handler"
  shows "\<exists>as bs t. xs = as @ bs \<and> min 2 (length xs) \<le> length as \<and> add_request req s = Ok () t \<and> queued t (as @ req # bs) \<and>
    do_hd t = do_hd s \<and> this_request t = this_request s \<and> (bs \<noteq> [] \<longrightarrow> IN_ORDER (request s req) (request s (hd bs))) \<and>
    (\<forall>i. (request t i)\<lparr>rq_next := None\<rparr> = (request s i)\<lparr>rq_next := None\<rparr>)"
proof -
  let ?f = "\<lambda>i. rq_next (request s i)"
  obtain x ys where x: "xs = x # ys" using q(2) by (cases xs) auto
  have w: "this_request s = Some x" "walk ?f (?f x) ys None" "distinct (x # ys)" using q(1) by (auto simp: queued_def x)
  show ?thesis
  proof (cases ys)
    case Nil
    let ?t = "(upd_rq x (\<lambda>q. q\<lparr>rq_next := Some req\<rparr>) s)\<lparr>sorting := False\<rparr>"
    have "add_request req s = Ok () ?t" using w Nil r(2) busy by (simp add: add_request_def Let_def upd_rq_sorting upd_rq_next)
    moreover have "queued ?t ([x] @ req # [])" using r(1,3) x Nil w(1) by (auto simp: queued_def upd_rq_next)
    ultimately show ?thesis using x Nil by (intro exI [of _ "[x]"] exI [of _ "[]"] exI [of _ ?t]) (simp add: upd_rq_next)
  next
    case (Cons y zs)
    then have y: "?f x = Some y" "walk ?f (Some y) (y # zs) None" using w(2) by auto
    from elevator_stops [OF y(2), of req] obtain as b cs where e: "y # zs = as @ b # cs" "elevator (request s) req y = Some b"
      "cs \<noteq> [] \<longrightarrow> IN_ORDER (request s req) (request s (hd cs))" by blast
    let ?u = "upd_rq b (\<lambda>q. q\<lparr>rq_next := Some req\<rparr>) (upd_rq req (\<lambda>q. q\<lparr>rq_next := rq_next (request s b)\<rparr>) s)"
    let ?t = "?u\<lparr>sorting := False\<rparr>"
    have xs: "xs = (x # as) @ b # cs" using x Cons e(1) by simp
    have nx: "(\<lambda>i. rq_next (request ?t i)) = ?f(req := ?f b, b := Some req)" by (auto simp: fun_eq_iff upd_rq_next)
    have "add_request req s = Ok () ?t" using w(1) y(1) e(2) r(2) busy by (simp add: add_request_def Let_def upd_rq_sorting upd_rq_next)
    moreover have "queued ?t (((x # as) @ [b]) @ req # cs)"
      using walk_insert [of ?f "this_request s" "x # as" b cs req] q(1) r(1) unfolding xs queued_def nx
      by (simp add: upd_rq_next)
    ultimately show ?thesis using xs e(3)
      by (intro exI [of _ "(x # as) @ [b]"] exI [of _ cs] exI [of _ ?t]) (simp add: upd_rq_next)
  qed
qed

section \<open>A queue of two\<close>

definition demo_rq :: "u32 \<Rightarrow> nat option \<Rightarrow> hd_request" where
  "demo_rq sec n = \<lparr>rq_hd = 0, nsector = 2, sector = sec, rq_head = 0, rq_cyl = 0, cmd = WIN_READ, errors = 0, rq_bh = 0, rq_next = n\<rparr>"

definition queue_demo :: hd_st where
  "queue_demo = hd_demo\<lparr>request := (request hd_demo)(0 := demo_rq 3 (Some 1), 1 := demo_rq 5 (Some 4), 4 := demo_rq 9 None, 2 := demo_rq 7 None),
     this_request := Some 0, do_hd := Read_intr\<rparr>"

theorem add_request_witness:
  "queued queue_demo [0, 1, 4] \<and>
   (\<exists>as bs t. [0, 1, 4] = as @ bs \<and> add_request 2 queue_demo = Ok () t \<and> queued t (as @ 2 # bs) \<and> 2 \<le> length as)"
proof -
  have q: "queued queue_demo [0, 1, 4]" by (simp add: queued_def queue_demo_def demo_rq_def)
  have "nsector (request queue_demo 2) = 2" "rq_next (request queue_demo 2) = None" "do_hd queue_demo \<noteq> No_handler"
    by (simp_all add: queue_demo_def demo_rq_def)
  note r = this
  have n: "[0 :: nat, 1, 4] \<noteq> []" "(2 :: nat) \<notin> set [0, 1, 4]" by simp_all
  obtain as bs t where
    "[0, 1, 4] = as @ bs" "add_request 2 queue_demo = Ok () t" "queued t (as @ 2 # bs)" "min 2 (length [0 :: nat, 1, 4]) \<le> length as"
    using add_request_elevator [OF q n r] by blast
  moreover have "min 2 (length [0 :: nat, 1, 4]) = 2" by simp
  ultimately show ?thesis using q by metis
qed

end
