(* ===== verification/Spec2Isabelle.thy ===== *)
theory Spec2Isabelle
  imports Build User_Lib Start Init Strings Kernel_Time Vsprintf Super Pipe Namei_View Permission Exec_Props File_Refs File_Write Stat_Props Wait_Props Signal_Props Identity Elevator
begin

text \<open>
  \<^bold>\<open>A verification of the kernel.\<close>

  The program is a Linux 0.11 for the i386 with the changes of this repository. The kernel runs on one processor and is
  not preempted: a routine runs until it returns, panics, ends its process or goes to sleep. The development follows the
  source file by file and the routines keep their names.

  \<^bold>\<open>Outcomes.\<close> A routine maps a state record to an outcome of type \<open>kres\<close> (\<open>Kernel_Prelude\<close>): \<open>Ok a s\<close> is a return
  with a value, \<open>Panic m\<close> a call of \<open>panic\<close>, \<open>Die c s\<close> a call of \<open>do_exit\<close> or \<open>oom\<close> in the middle of a routine,
  \<open>Sleep s\<close> a wait that only another task can end, and \<open>Hang\<close> a loop of the kernel that never ends. Routines that
  cannot fail are functions on the state. Error codes of C are the negative integers of the source. \<open>printk\<close> appends
  to the log \<open>klog\<close>, which has the lines without their line ends.

  \<^bold>\<open>States.\<close> Every component extends the record of the one below it, so that a routine is written once and applies to
  every larger state: \<open>sched_st\<close> (tasks), \<open>mm_st\<close> (physical memory), \<open>um_st\<close> (user memory), \<open>con_st\<close> (console), \<open>tty_st\<close>
  (terminals), \<open>bc_st\<close> (buffer cache), \<open>hd_st\<close> (hard disk), \<open>fs_st\<close> (inodes, super blocks, files), \<open>proc_st\<close> (process
  numbers). Tasks, buffers, inodes and files are named by their address or index, so that aliasing is that of the code.

  \<^bold>\<open>Theories and source files.\<close>

  \<^item> \<open>Kernel_Prelude\<close>: outcomes, loops (\<open>for_each\<close>, \<open>retry\<close>), 32-bit conversions and their lemmas.
  \<^item> \<open>Sched\<close> (\<open>kernel/sched.c\<close>, \<open>include/linux/sched.h\<close>): \<open>schedule\<close>, \<open>sleep_on\<close>, \<open>wake_up\<close>, the timer, the coprocessor.
    Its lemmas show which task \<open>schedule\<close> picks, that time slices stay within bounds, that no coprocessor context is lost
    and, for the step relation of the wait queues, that no wake-up is lost.
  \<^item> \<open>Mm_Memory\<close> (\<open>mm/memory.c\<close>): page frames, page tables, faults. The invariant \<open>mm_inv\<close> equates every reference count
    with the number of entries that name the frame; every routine keeps it. \<open>Mm_Frame\<close> shows what else the memory manager
    leaves alone, through the interface \<open>step_frame\<close>.
  \<^item> \<open>User_Mem\<close> (\<open>include/asm/segment.h\<close>, \<open>verify_area\<close>): segment descriptors and the \<open>fs\<close> segment.
  \<^item> \<open>Console\<close> (\<open>kernel/console.c\<close>): the escape sequences; every byte keeps the writes inside the video memory and the
    cursor on the screen or, waiting to wrap, just behind the last column, and printed characters appear there.
  \<^item> \<open>Ring_Queue\<close> and \<open>Tty\<close> (\<open>include/linux/tty.h\<close>, \<open>kernel/tty_io.c\<close>, \<open>fs/tty_ioctl.c\<close>, \<open>kernel/serial.c\<close>): the rings as
    lists, reading and writing; the line discipline, with the echo on the console, and the output processing are compared with
    specifications on the bits of the terminal's mode.
  \<^item> \<open>Kernel_Time\<close> (\<open>kernel/mktime.c\<close>, \<open>time_init\<close>) and \<open>Vsprintf\<close> (\<open>kernel/vsprintf.c\<close>): calendar and formatted output;
    \<open>Printk\<close> (\<open>kernel/printk.c\<close>, \<open>kernel/panic.c\<close>) evaluates formats piece by piece and has the text of a panic.
  \<^item> \<open>Strings\<close> (\<open>include/string.h\<close>): the string routines, which are assembler over the string instructions, compared with
    functions on lists.
  \<^item> \<open>Buffer_Queue\<close>, \<open>Hd\<close>, \<open>Buffer\<close>, \<open>Buffer_View\<close>, \<open>Buffer_Boot\<close> (\<open>fs/buffer.c\<close>, \<open>fs/block_dev.c\<close>, \<open>kernel/hd.c\<close>): hash
    chains and the free list, the requests and interrupts of the disk, \<open>getblk\<close>, \<open>bread\<close>, \<open>brelse\<close>, and the abstract view
    of the cache and the disk as one function from block numbers to bytes; \<open>Elevator\<close> is about the queue of requests.
  \<^item> \<open>Fs_Data\<close>, \<open>Inode\<close>, \<open>Inode_View\<close>, \<open>Super\<close>, \<open>File_Dev\<close> (\<open>fs/bitmap.c\<close>, \<open>fs/inode.c\<close>, \<open>fs/truncate.c\<close>, \<open>fs/super.c\<close>,
    \<open>fs/file_dev.c\<close>): bitmaps, inodes, mounting, regular files over the view.
  \<^item> \<open>Pipe\<close> (\<open>fs/pipe.c\<close>): the ring in the page of the pipe, first in, first out.
  \<^item> \<open>Namei\<close>, \<open>Namei_Sys\<close>, \<open>Namei_View\<close>, \<open>Permission\<close> (\<open>fs/namei.c\<close>): directories, path names and the calls on them, the
    search of a directory as a search of the list of its entries, and the rule of the access bits.
  \<^item> \<open>Open\<close> (\<open>fs/open.c\<close>, \<open>fs/fcntl.c\<close>) and \<open>Read_Write\<close> (\<open>fs/read_write.c\<close>, \<open>fs/char_dev.c\<close>, \<open>fs/ioctl.c\<close>, \<open>fs/stat.c\<close>): the
    calls on open files. \<open>File_Calls\<close> shows what \<open>sys_read\<close> stores and which positions \<open>sys_lseek\<close> leaves; \<open>File_Write\<close> what
    \<open>sys_write\<close> changes over blocks that a file has, and that it is read back; \<open>File_Refs\<close> that
    duplicating, closing and forking keep the reference counts of the file table; \<open>Stat_Props\<close> what \<open>fstat\<close> stores.
  \<^item> \<open>Process\<close> (\<open>kernel/fork.c\<close>, \<open>kernel/exit.c\<close>), \<open>Sys_Calls\<close> (\<open>kernel/sys.c\<close>), \<open>Process_Props\<close> and \<open>Fork\<close>: process numbers
    and slots, who gets a signal, and \<open>copy_process\<close> as a whole with memory, tasks and reference counts. \<open>Wait_Props\<close> has every
    outcome of \<open>sys_waitpid\<close> and the bound on the rounds of its loop. \<open>Identity\<close> has the step
    relation of the calls on identities, groups and sessions with its invariant.
  \<^item> \<open>Syscall\<close> (\<open>kernel/system_call.s\<close>, \<open>include/linux/sys.h\<close>): the table that joins all calls, the entry point and the way back
    to the user with the delivery of signals, which \<open>Signal_Props\<close> is about.
  \<^item> \<open>Traps\<close> (\<open>kernel/traps.c\<close>, the gates of \<open>asm/system.h\<close>), \<open>Start\<close> (\<open>main\<close>, \<open>kernel/serial.c\<close> and the ports of the initialisers),
    \<open>User_Lib\<close> (\<open>lib/\<close> and the stubs of \<open>unistd.h\<close>) and \<open>Build\<close> (\<open>tools/build.c\<close>): the descriptors after the start are exactly
    the ones that are meant, and a user can enter by the traps 3 to 5 and the system call only. \<open>Init\<close> (\<open>init/main.c\<close>) has task 0 and
    \<open>init()\<close> as user programs, trees over the system calls, and the calls they make in order.
  \<^item> \<open>Getdents\<close> (\<open>fs/sys_getdents.c\<close>) and \<open>Exec\<close> (\<open>fs/exec.c\<close>): reading directories and loading ELF programs; \<open>Exec_Props\<close>
    shows the stack that a new program finds.

  \<^bold>\<open>Interfaces.\<close> Locales state what one component promises to the next: the rings of characters, the block cache with
  its view, relations kept by every step, and the pages. Each is interpreted on the routines of the model.

  \<^bold>\<open>Loops.\<close> Loops over a range are \<open>for_each\<close> or \<open>fold\<close>. Loops that the source ends by \<open>goto repeat\<close> are \<open>retry\<close>, a partial
  function whose value is \<open>Hang\<close> when the loop never ends; the properties show that it ends where they speak of it.
  Loops over the bytes of a call use the byte count as their bound, which every round makes smaller; the loop of
  \<open>tty_read\<close> gets \<open>2 * nr + 2\<close> rounds, as each round takes a character or ends; the entries of a block are at most 64.

  \<^bold>\<open>Waiting for the disk.\<close> A task that waits for a buffer runs the interrupt handlers of the disk until the buffer is
  unlocked, as no other task runs in the meantime; waits that need another task are the outcome \<open>Sleep\<close>.

  \<^bold>\<open>Parameters.\<close> The disk controller answers through the functions \<open>hd_inb\<close> and \<open>hd_insw\<close> of its history; a controller that
  works (\<open>good_drive\<close>) is a named hypothesis with an instance. The clock chip, the bytes of a \<open>struct stat\<close> that
  \<open>cp_stat\<close> does not assign and the contents of an uninitialised stack are parameters too.

  \<^bold>\<open>Not modelled.\<close> The assembler of \<open>boot/\<close>, \<open>kernel/keyboard.s\<close> and \<open>kernel/rs_io.s\<close>: it programs hardware or moves bytes
  between ports and the modelled queues. Inside the kernel \<open>panic\<close> and \<open>printk\<close> are the outcome \<open>Panic\<close> and the log, not calls of
  \<open>tty_write\<close>. \<open>include/elf.h\<close> is the system header, of which the fields that \<open>fs/exec.c\<close>
  reads are modelled as offsets; the other headers declare. The timing of interrupts during a routine is not modelled.
\<close>

end
